(* ===== verification/Prelude.thy ===== *)
theory Prelude
  imports Main
begin

text \<open>
  Shared vocabulary of the development. A Go call either returns or panics
  (\<open>go\<close>); an error value is a string that is absent when the call succeeded; a
  channel and a context are names allocated by a counter, with the closed channels and
  the cancelled contexts kept as sets. The collections \<open>go_simps\<close> and \<open>go_splits\<close>
  carry the proofs of the components.
\<close>

named_theorems go_simps "equations of the Go runtime model"

section \<open>Returning, panicking and error values\<close>

datatype 'a go = Ret 'a | Panic string

type_synonym err = string
type_synonym 'a res = "err + 'a"

text \<open>\<open>bind_go\<close> is sequencing: a panic skips the rest of the body.\<close>

fun bind_go :: "'a go \<Rightarrow> ('a \<Rightarrow> 'b go) \<Rightarrow> 'b go" where
  "bind_go (Ret x) f = f x"
| "bind_go (Panic m) f = Panic m"

definition returns :: "'a go \<Rightarrow> bool" where
  "returns g \<longleftrightarrow> (case g of Ret _ \<Rightarrow> True | Panic _ \<Rightarrow> False)"

lemma returns_simps [simp, go_simps]:
  "returns (Ret x)" "\<not> returns (Panic m)"
  by (simp_all add: returns_def)

lemma bind_go_Ret_iff [go_simps]:
  "bind_go g f = Ret y \<longleftrightarrow> (\<exists>x. g = Ret x \<and> f x = Ret y)"
  by (cases g) auto

lemma bind_go_assoc: "bind_go (bind_go g f) h = bind_go g (\<lambda>x. bind_go (f x) h)"
  by (cases g) auto

text \<open>Mapping an operation that may panic over a list, from left to right.\<close>

fun go_map :: "('a \<Rightarrow> 'b go) \<Rightarrow> 'a list \<Rightarrow> 'b list go" where
  "go_map f [] = Ret []"
| "go_map f (x # xs) = bind_go (f x) (\<lambda>y. bind_go (go_map f xs) (\<lambda>ys. Ret (y # ys)))"

lemma go_map_Ret: "(\<And>x. x \<in> set xs \<Longrightarrow> f x = Ret (g x)) \<Longrightarrow> go_map f xs = Ret (map g xs)"
  by (induction xs) auto

lemma go_map_length: "go_map f xs = Ret ys \<Longrightarrow> length ys = length xs"
  by (induction xs arbitrary: ys) (auto simp: bind_go_Ret_iff)

section \<open>Channels and contexts\<close>

type_synonym chan = nat

text \<open>A context is the list of its own name and the names of its ancestors: \<open>Env\<close> names are
  given from outside, \<open>Own\<close> names are allocated by a component.\<close>

datatype ctx_id = Env nat | Own nat

type_synonym ctx = "ctx_id list"

definition ctx_done :: "ctx_id set \<Rightarrow> ctx \<Rightarrow> bool" where
  "ctx_done cancelled c \<longleftrightarrow> (\<exists>i \<in> set c. i \<in> cancelled)"

lemma ctx_done_Nil [simp]: "\<not> ctx_done D []"
  by (simp add: ctx_done_def)

lemma ctx_done_Cons [simp]: "ctx_done D (i # c) \<longleftrightarrow> i \<in> D \<or> ctx_done D c"
  by (auto simp: ctx_done_def)

lemma ctx_done_mono: "ctx_done D c \<Longrightarrow> D \<subseteq> E \<Longrightarrow> ctx_done E c"
  by (auto simp: ctx_done_def)

section \<open>Association lists in iteration order\<close>

text \<open>
  Go iterates over a map in an unspecified order. Where an operation loops over a map,
  the model takes the entries as a list in the order of that iteration; the keys of the
  list are distinct.
\<close>

definition entries_of :: "('k \<times> 'v) list \<Rightarrow> ('k \<Rightarrow> 'v option) \<Rightarrow> bool" where
  "entries_of es m \<longleftrightarrow> distinct (map fst es) \<and> map_of es = m"

lemma entries_of_map_of [simp]: "distinct (map fst es) \<Longrightarrow> entries_of es (map_of es)"
  by (simp add: entries_of_def)

lemma entries_of_mem: "entries_of es m \<Longrightarrow> (k, v) \<in> set es \<longleftrightarrow> m k = Some v"
  by (auto simp: entries_of_def)

lemma entries_of_dom: "entries_of es m \<Longrightarrow> dom m = fst ` set es"
  by (simp add: entries_of_def dom_map_of_conv_image_fst[symmetric])

section \<open>Lists\<close>

lemma filter_map_of_distinct:
  "distinct (map fst es) \<Longrightarrow> map_of (filter (\<lambda>(k, v). P k v) es) k
     = (case map_of es k of None \<Rightarrow> None | Some v \<Rightarrow> if P k v then Some v else None)"
  by (induction es) (auto split: option.splits simp: map_of_eq_None_iff rev_image_eqI)

lemma length_filter_split:
  "length (filter P xs) + length (filter (\<lambda>x. \<not> P x) xs) = length xs"
  by (induction xs) auto

end
