(* ===== verification/Go_Strings.thy ===== *)
theory Go_Strings
  imports Prelude "HOL-Library.Sublist" "HOL-Library.List_Lexorder" "HOL-Library.Char_ord"
begin

text \<open>
  The parts of Go's \<open>strings\<close>, \<open>strconv\<close> and \<open>net\<close> packages that the components use. A Go
  string is its list of bytes, so \<open>len\<close> is \<open>length\<close> and a slice \<open>s[:n]\<close> is \<open>take n s\<close>.
  Case mapping and white space are those of ASCII: on other bytes the functions here are the
  identity, where Go would decode UTF-8.
\<close>

section \<open>Searching\<close>

definition HasPrefix :: "string \<Rightarrow> string \<Rightarrow> bool" where
  "HasPrefix s p = prefix p s"

definition HasSuffix :: "string \<Rightarrow> string \<Rightarrow> bool" where
  "HasSuffix s p = suffix p s"

definition Contains :: "string \<Rightarrow> string \<Rightarrow> bool" where
  "Contains s sub = sublist sub s"

definition TrimPrefix :: "string \<Rightarrow> string \<Rightarrow> string" where
  "TrimPrefix s p = (if HasPrefix s p then drop (length p) s else s)"

definition TrimSuffix :: "string \<Rightarrow> string \<Rightarrow> string" where
  "TrimSuffix s p = (if HasSuffix s p then take (length s - length p) s else s)"

text \<open>\<open>IndexByte\<close> and \<open>LastIndexByte\<close>; \<open>None\<close> is Go's \<open>-1\<close>.\<close>

fun IndexByte :: "string \<Rightarrow> char \<Rightarrow> nat option" where
  "IndexByte [] c = None"
| "IndexByte (x # xs) c = (if x = c then Some 0 else map_option Suc (IndexByte xs c))"

definition LastIndexByte :: "string \<Rightarrow> char \<Rightarrow> nat option" where
  "LastIndexByte s c = map_option (\<lambda>i. length s - 1 - i) (IndexByte (rev s) c)"

lemma IndexByte_None: "IndexByte s c = None \<longleftrightarrow> c \<notin> set s"
  by (induction s) auto

lemma IndexByte_Some:
  "IndexByte s c = Some i \<Longrightarrow> i < length s \<and> s ! i = c \<and> c \<notin> set (take i s)"
  by (induction s arbitrary: i) (auto split: if_splits)

lemma IndexByte_append: "c \<notin> set a \<Longrightarrow> IndexByte (a @ c # b) c = Some (length a)"
  by (induction a) auto

lemma LastIndexByte_append: "c \<notin> set b \<Longrightarrow> LastIndexByte (a @ c # b) c = Some (length a)"
  by (simp add: LastIndexByte_def IndexByte_append)

lemma LastIndexByte_None: "LastIndexByte s c = None \<longleftrightarrow> c \<notin> set s"
  by (simp add: LastIndexByte_def IndexByte_None)

lemma LastIndexByte_split:
  assumes "LastIndexByte s c = Some i"
  shows "i < length s" "s = take i s @ c # drop (Suc i) s" "c \<notin> set (drop (Suc i) s)"
proof -
  obtain j where j: "IndexByte (rev s) c = Some j" "i = length s - 1 - j"
    using assms by (auto simp: LastIndexByte_def)
  from IndexByte_Some [OF j(1)] have r: "j < length s" "rev s ! j = c" "c \<notin> set (take j (rev s))"
    by auto
  then show l: "i < length s" using j(2) by simp
  have "s ! i = c" using r(1,2) j(2) by (simp add: rev_nth)
  then show "s = take i s @ c # drop (Suc i) s" using l by (metis id_take_nth_drop)
  show "c \<notin> set (drop (Suc i) s)" using r(1,3) j(2) by (simp add: take_rev Suc_diff_Suc)
qed

section \<open>Trimming and case\<close>

definition TrimLeft_by :: "(char \<Rightarrow> bool) \<Rightarrow> string \<Rightarrow> string" where
  "TrimLeft_by p s = dropWhile p s"

definition TrimRight_by :: "(char \<Rightarrow> bool) \<Rightarrow> string \<Rightarrow> string" where
  "TrimRight_by p s = rev (dropWhile p (rev s))"

definition Trim_by :: "(char \<Rightarrow> bool) \<Rightarrow> string \<Rightarrow> string" where
  "Trim_by p s = TrimRight_by p (TrimLeft_by p s)"

definition is_space :: "char \<Rightarrow> bool" where
  "is_space c \<longleftrightarrow> c = CHR '' '' \<or> (9 \<le> (of_char c :: nat) \<and> (of_char c :: nat) \<le> 13)"

definition TrimSpace :: "string \<Rightarrow> string" where
  "TrimSpace s = Trim_by is_space s"

lemma length_Trim_by: "length (Trim_by p s) \<le> length s"
  using length_dropWhile_le [of p "rev (dropWhile p s)"] length_dropWhile_le [of p s]
  by (simp add: Trim_by_def TrimLeft_by_def TrimRight_by_def)

lemma set_Trim_by: "set (Trim_by p s) \<subseteq> set s"
  by (auto simp: Trim_by_def TrimLeft_by_def TrimRight_by_def dest!: set_dropWhileD)

lemma TrimRight_by_edge: "TrimRight_by p s \<noteq> [] \<Longrightarrow> \<not> p (last (TrimRight_by p s))"
  unfolding TrimRight_by_def last_rev rev_is_Nil_conv by (rule hd_dropWhile)

lemma Trim_by_edges:
  assumes "Trim_by p s \<noteq> []"
  shows "\<not> p (hd (Trim_by p s))" "\<not> p (last (Trim_by p s))"
proof -
  show "\<not> p (last (Trim_by p s))"
    using assms TrimRight_by_edge unfolding Trim_by_def by blast
  define t where "t = dropWhile p s"
  obtain u where u: "t = TrimRight_by p t @ u"
    by (metis TrimRight_by_def rev_append rev_rev_ident takeWhile_dropWhile_id)
  have ne: "TrimRight_by p t \<noteq> []" using assms by (simp add: Trim_by_def TrimLeft_by_def t_def)
  have "hd t = hd (TrimRight_by p t)" using u ne by (metis hd_append2)
  moreover have "\<not> p (hd t)"
  proof -
    have "t \<noteq> []" using u ne by auto
    then show ?thesis unfolding t_def by (rule hd_dropWhile)
  qed
  ultimately show "\<not> p (hd (Trim_by p s))" by (simp add: Trim_by_def TrimLeft_by_def t_def)
qed

lemma Trim_by_all: "(\<And>x. x \<in> set s \<Longrightarrow> p x) \<Longrightarrow> Trim_by p s = []"
  by (auto simp: Trim_by_def TrimLeft_by_def TrimRight_by_def dest: set_dropWhileD)

definition to_lower :: "char \<Rightarrow> char" where
  "to_lower c = (let n = of_char c :: nat in if 65 \<le> n \<and> n \<le> 90 then char_of (n + 32) else c)"

definition to_upper :: "char \<Rightarrow> char" where
  "to_upper c = (let n = of_char c :: nat in if 97 \<le> n \<and> n \<le> 122 then char_of (n - 32) else c)"

definition ToLower :: "string \<Rightarrow> string" where "ToLower s = map to_lower s"
definition ToUpper :: "string \<Rightarrow> string" where "ToUpper s = map to_upper s"

definition EqualFold :: "string \<Rightarrow> string \<Rightarrow> bool" where
  "EqualFold s t \<longleftrightarrow> ToLower s = ToLower t"

text \<open>\<open>ReplaceAll\<close> of one byte by another.\<close>

definition ReplaceByte :: "char \<Rightarrow> char \<Rightarrow> string \<Rightarrow> string" where
  "ReplaceByte a b s = map (\<lambda>c. if c = a then b else c) s"

lemma length_case [simp]: "length (ToLower s) = length s" "length (ToUpper s) = length s"
  "length (ReplaceByte a b s) = length s"
  by (simp_all add: ToLower_def ToUpper_def ReplaceByte_def)

section \<open>Splitting and joining\<close>

fun cons_head :: "char \<Rightarrow> string list \<Rightarrow> string list" where
  "cons_head x [] = [[x]]"
| "cons_head x (y # ys) = (x # y) # ys"

fun Split :: "char \<Rightarrow> string \<Rightarrow> string list" where
  "Split c [] = [[]]"
| "Split c (x # xs) = (if x = c then [] # Split c xs else cons_head x (Split c xs))"

fun Join :: "string \<Rightarrow> string list \<Rightarrow> string" where
  "Join sep [] = []"
| "Join sep [x] = x"
| "Join sep (x # y # ys) = x @ sep @ Join sep (y # ys)"

lemma cons_head_nonempty [simp]: "cons_head x ys \<noteq> []"
  by (cases ys) simp_all

lemma Split_nonempty [simp]: "Split c s \<noteq> []"
  by (induction s) auto

lemma Split_Cons: "Split c (x # xs) = (if x = c then [] # Split c xs
     else (x # hd (Split c xs)) # tl (Split c xs))"
  by (cases "Split c xs") simp_all

lemma Split_no_sep: "x \<in> set (Split c s) \<Longrightarrow> c \<notin> set x"
proof (induction s arbitrary: x)
  case (Cons a s)
  have h: "hd (Split c s) \<in> set (Split c s)" by simp
  have t: "y \<in> set (tl (Split c s)) \<Longrightarrow> y \<in> set (Split c s)" for y
    by (metis Split_nonempty list.set_sel(2))
  from Cons h show ?case by (auto simp: Split_Cons simp del: Split.simps(2) split: if_splits dest: t)
qed simp

lemma Join_Cons: "ys \<noteq> [] \<Longrightarrow> Join sep (x # ys) = x @ sep @ Join sep ys"
  by (cases ys) auto

lemma Join_Split: "Join [c] (Split c s) = s"
proof (induction s)
  case (Cons a s)
  then show ?case
  proof (cases "Split c s")
    case (Cons y ys)
    with Cons.IH show ?thesis by (cases ys) (auto simp: Join_Cons)
  qed simp
qed simp

lemma Split_single: "c \<notin> set s \<Longrightarrow> Split c s = [s]"
  by (induction s) auto

lemma Split_append: "c \<notin> set a \<Longrightarrow> Split c (a @ c # b) = a # Split c b"
  by (induction a) auto

section \<open>Decimal numbers\<close>

definition is_digit :: "char \<Rightarrow> bool" where
  "is_digit c \<longleftrightarrow> 48 \<le> (of_char c :: nat) \<and> (of_char c :: nat) \<le> 57"

definition digit_val :: "char \<Rightarrow> nat" where
  "digit_val c = of_char c - 48"

definition dec_val :: "string \<Rightarrow> nat" where
  "dec_val s = foldl (\<lambda>n c. 10 * n + digit_val c) 0 s"

text \<open>
  \<open>strconv.Atoi\<close> and \<open>ParseInt(s, 10, 64)\<close>: an optional sign, at least one digit, and
  a value that fits in 64 bits; \<open>None\<close> is the error.
\<close>

definition parse_digits :: "string \<Rightarrow> nat option" where
  "parse_digits s = (if s \<noteq> [] \<and> list_all is_digit s then Some (dec_val s) else None)"

definition Atoi :: "string \<Rightarrow> int option" where
  "Atoi s = (let (neg, ds) = (case s of
                 c # cs \<Rightarrow> if c = CHR ''-'' then (True, cs)
                          else if c = CHR ''+'' then (False, cs) else (False, s)
               | [] \<Rightarrow> (False, []))
             in case parse_digits ds of None \<Rightarrow> None
              | Some n \<Rightarrow> let v = (if neg then - int n else int n)
                         in if - (2 ^ 63) \<le> v \<and> v < 2 ^ 63 then Some v else None)"

text \<open>\<open>ParseUint(s, 10, 64)\<close> takes no sign.\<close>

definition ParseUint :: "string \<Rightarrow> nat option" where
  "ParseUint s = (case parse_digits s of None \<Rightarrow> None
     | Some n \<Rightarrow> if n < 2 ^ 64 then Some n else None)"

definition digit_char :: "nat \<Rightarrow> char" where
  "digit_char n = char_of (48 + n)"

fun dec_string :: "nat \<Rightarrow> string" where
  "dec_string n = (if n < 10 then [digit_char n] else dec_string (n div 10) @ [digit_char (n mod 10)])"

declare dec_string.simps [simp del]

definition Itoa :: "int \<Rightarrow> string" where
  "Itoa i = (if i < 0 then CHR ''-'' # dec_string (nat (- i)) else dec_string (nat i))"

lemma of_char_digit: "n < 10 \<Longrightarrow> of_char (digit_char n) = 48 + n"
  unfolding digit_char_def by (simp add: of_char_of)

lemma digit_char_props [simp]:
  assumes "n < 10"
  shows "is_digit (digit_char n)" "digit_val (digit_char n) = n"
  using assms by (simp_all add: is_digit_def digit_val_def of_char_digit)

lemma dec_string_digits: "list_all is_digit (dec_string n) \<and> dec_string n \<noteq> []"
proof (induction n rule: dec_string.induct)
  case (1 n)
  then show ?case by (subst dec_string.simps) (simp add: list_all_append dec_string.simps [of n])
qed

lemma dec_val_snoc: "dec_val (s @ [c]) = 10 * dec_val s + digit_val c"
  by (simp add: dec_val_def)

lemma dec_val_dec_string [simp]: "dec_val (dec_string n) = n"
proof (induction n rule: dec_string.induct)
  case (1 n)
  show ?case
  proof (cases "n < 10")
    case True
    then show ?thesis by (simp add: dec_string.simps [of n] dec_val_def)
  next
    case False
    then show ?thesis using 1 by (simp add: dec_string.simps [of n] dec_val_snoc)
  qed
qed

lemma parse_digits_dec_string [simp]: "parse_digits (dec_string n) = Some n"
  using dec_string_digits [of n] by (simp add: parse_digits_def)

lemma dec_string_not_sign: "dec_string n = c # cs \<Longrightarrow> is_digit c"
  using dec_string_digits [of n] by simp

lemma is_digit_no_sign [simp]: "\<not> is_digit CHR ''-''" "\<not> is_digit CHR ''+''" "\<not> is_digit CHR '':''"
  by (simp_all add: is_digit_def)

lemma Atoi_Itoa: "- (2 ^ 63) \<le> i \<Longrightarrow> i < 2 ^ 63 \<Longrightarrow> Atoi (Itoa i) = Some i"
proof (cases "i < 0")
  case False
  obtain c cs where d: "dec_string (nat i) = c # cs"
    using dec_string_digits [of "nat i"] by (cases "dec_string (nat i)") auto
  have "c \<noteq> CHR ''-''" "c \<noteq> CHR ''+''" using dec_string_not_sign [OF d] by auto
  then have "Atoi (dec_string (nat i)) = (case parse_digits (dec_string (nat i)) of None \<Rightarrow> None
              | Some n \<Rightarrow> if - (2 ^ 63) \<le> int n \<and> int n < 2 ^ 63 then Some (int n) else None)"
    by (simp add: Atoi_def d Let_def split: option.split)
  moreover assume "- (2 ^ 63) \<le> i" "i < 2 ^ 63"
  ultimately show ?thesis using False by (simp add: Itoa_def Let_def)
qed (simp add: Atoi_def Itoa_def Let_def)

lemma Atoi_bounds: "Atoi s = Some v \<Longrightarrow> - (2 ^ 63) \<le> v \<and> v < 2 ^ 63"
  by (auto simp: Atoi_def Let_def split: option.splits if_splits prod.splits)

section \<open>Hexadecimal text of bytes\<close>

definition hex_digit :: "nat \<Rightarrow> char" where
  "hex_digit n = (if n < 10 then char_of (48 + n) else char_of (87 + n))"

text \<open>\<open>hex.EncodeToString\<close>; a byte is a number below 256.\<close>

definition hex_encode :: "nat list \<Rightarrow> string" where
  "hex_encode bs = concat (map (\<lambda>b. [hex_digit (b div 16), hex_digit (b mod 16)]) bs)"

lemma length_hex_encode [simp]: "length (hex_encode bs) = 2 * length bs"
  by (induction bs) (simp_all add: hex_encode_def)

end
