(* ===== verification/Identity.thy ===== *)
theory Identity
  imports Go_Strings
begin

text \<open>
  \<open>pkg/identity\<close>: the identity of this instance. What the process can observe of its host
  is a record; the package state is the value cached by \<open>sync.Once\<close>.
\<close>

text \<open>An address of a network interface: whether it is a \<open>*net.IPNet\<close>, whether it is a
  loopback address, and its dotted text when \<open>To4\<close> succeeds.\<close>

record iface_addr =
  ia_isIPNet :: bool
  ia_loopback :: bool
  ia_v4 :: "string option"

record host_env =
  he_NODE_NAME :: string
  he_POD_NAME :: string
  he_addrs :: "iface_addr list res"
  he_hostname :: "string res"
  he_random :: "nat list res"

type_synonym identity_state = "string option"

fun first_v4 :: "iface_addr list \<Rightarrow> string" where
  "first_v4 [] = ''''"
| "first_v4 (a # as) = (if ia_isIPNet a \<and> \<not> ia_loopback a
     then (case ia_v4 a of Some ip \<Rightarrow> ip | None \<Rightarrow> first_v4 as) else first_v4 as)"

definition getOutboundIP :: "host_env \<Rightarrow> string" where
  "getOutboundIP h = (case he_addrs h of Inl _ \<Rightarrow> '''' | Inr as \<Rightarrow> first_v4 as)"

definition generateRandomID :: "host_env \<Rightarrow> string" where
  "generateRandomID h = (case he_random h of Inl _ \<Rightarrow> ''unknown''
     | Inr b \<Rightarrow> ''instance-'' @ hex_encode b)"

definition compute_identity :: "host_env \<Rightarrow> string" where
  "compute_identity h =
     (if he_NODE_NAME h \<noteq> '''' then he_NODE_NAME h
      else if he_POD_NAME h \<noteq> '''' then he_POD_NAME h
      else if getOutboundIP h \<noteq> '''' then getOutboundIP h
      else case he_hostname h of
          Inr n \<Rightarrow> if n \<noteq> '''' then n else generateRandomID h
        | Inl _ \<Rightarrow> generateRandomID h)"

definition identity_Get :: "host_env \<Rightarrow> identity_state \<Rightarrow> string \<times> identity_state" where
  "identity_Get h st = (case st of Some i \<Rightarrow> (i, st)
     | None \<Rightarrow> (let i = compute_identity h in (i, Some i)))"

definition GetWithConfig :: "host_env \<Rightarrow> identity_state \<Rightarrow> string \<Rightarrow> string \<Rightarrow> string
    \<Rightarrow> string \<times> identity_state" where
  "GetWithConfig h st configIdentity nodeName podName =
     (if configIdentity \<noteq> '''' then (configIdentity, st)
      else if nodeName \<noteq> '''' then (nodeName, st)
      else if podName \<noteq> '''' then (podName, st)
      else identity_Get h st)"

lemma generateRandomID_ne: "generateRandomID h \<noteq> ''''"
  by (simp add: generateRandomID_def split: sum.splits)

lemma compute_identity_ne: "compute_identity h \<noteq> ''''"
  by (auto simp: compute_identity_def generateRandomID_ne split: sum.splits)

text \<open>The cache is only ever filled with a non-empty identity.\<close>

definition identity_ok :: "identity_state \<Rightarrow> bool" where
  "identity_ok st \<longleftrightarrow> st \<noteq> Some ''''"

lemma GetWithConfig_ok:
  assumes "identity_ok st" "GetWithConfig h st c n p = (i, st')"
  shows "i \<noteq> ''''" "identity_ok st'"
  using assms compute_identity_ne [of h]
  by (auto simp: GetWithConfig_def identity_Get_def identity_ok_def Let_def
      split: if_splits option.splits)

fun identity_calls :: "identity_state \<Rightarrow> (host_env \<times> string \<times> string \<times> string) list
    \<Rightarrow> string list" where
  "identity_calls st [] = []"
| "identity_calls st ((h, c, n, p) # xs) =
     (let (i, st') = GetWithConfig h st c n p in i # identity_calls st' xs)"

text \<open>The explicit part of the precedence.\<close>

definition explicit_identity :: "string \<Rightarrow> string \<Rightarrow> string \<Rightarrow> string option" where
  "explicit_identity c n p = List.find (\<lambda>s. s \<noteq> '''') [c, n, p]"

lemma GetWithConfig_explicit:
  "GetWithConfig h st c n p = (case explicit_identity c n p of
     Some i \<Rightarrow> (i, st) | None \<Rightarrow> identity_Get h st)"
  by (simp add: GetWithConfig_def explicit_identity_def)

lemma identity_calls_cached:
  "j < length xs \<Longrightarrow> xs ! j = (h, c, n, p) \<Longrightarrow> explicit_identity c n p = None
     \<Longrightarrow> identity_calls (Some i) xs ! j = i"
proof (induction xs arbitrary: j)
  case (Cons x xs)
  obtain h' c' n' p' where x: "x = (h', c', n', p')" by (cases x)
  show ?case using Cons
    by (cases j) (auto simp: x GetWithConfig_explicit identity_Get_def split: option.splits)
qed simp

lemma identity_calls_ne: "identity_ok st \<Longrightarrow> '''' \<notin> set (identity_calls st xs)"
proof (induction st xs rule: identity_calls.induct)
  case (2 st h c n p xs)
  obtain i st' where g: "GetWithConfig h st c n p = (i, st')" by (cases "GetWithConfig h st c n p")
  show ?case using 2 GetWithConfig_ok [OF 2(2) g] g by auto
qed simp

text \<open>Whatever the sequence of lookups during the life of the process and however the host
  changes between them, no lookup yields the empty identity, and all the lookups without an
  explicit identity, node name or pod name agree with each other: the detected identity is
  fixed by the first of them.
\<close>

theorem identity_is_stable:
  assumes "j < k" and "k < length xs"
    and "xs ! j = (h, c, n, p)" and "explicit_identity c n p = None"
    and "xs ! k = (h', c', n', p')" and "explicit_identity c' n' p' = None"
  shows "identity_calls None xs ! j = identity_calls None xs ! k \<and>
    '''' \<notin> set (identity_calls None xs)"
proof -
  have "identity_calls None xs ! j = identity_calls None xs ! k"
    using assms(1,2,3,5)
  proof (induction xs arbitrary: j k)
    case (Cons x xs)
    obtain h0 c0 n0 p0 where x: "x = (h0, c0, n0, p0)" by (cases x)
    obtain k' where k: "k = Suc k'" using Cons.prems(1) by (cases k) auto
    have eqk: "identity_calls (Some i) xs ! k' = i" for i
      using Cons.prems k assms(6) by (auto intro: identity_calls_cached)
    have eqj: "identity_calls (Some i) xs ! j' = i" if "j = Suc j'" for i j'
      using Cons.prems k that assms(4) by (auto intro: identity_calls_cached)
    show ?case
    proof (cases "explicit_identity c0 n0 p0")
      case None
      then show ?thesis
        by (cases j) (simp_all add: x k eqk eqj GetWithConfig_explicit identity_Get_def Let_def)
    next
      case (Some i0)
      then obtain j' where "j = Suc j'" using Cons.prems(3) assms(4) x by (cases j) auto
      then show ?thesis using Some Cons.IH [of j' k'] Cons.prems k
        by (simp add: x GetWithConfig_explicit)
    qed
  qed simp
  moreover have "'''' \<notin> set (identity_calls None xs)"
    by (rule identity_calls_ne) (simp add: identity_ok_def)
  ultimately show ?thesis ..
qed

definition demo_host :: "string \<Rightarrow> host_env" where
  "demo_host n = \<lparr>he_NODE_NAME = '''', he_POD_NAME = '''', he_addrs = Inl ''no interfaces'',
     he_hostname = Inr n, he_random = Inr []\<rparr>"

theorem identity_is_stable_witness:
  "identity_calls None [(demo_host ''a'', '''', '''', ''''), (demo_host ''b'', '''', '''', '''')] ! 1
     = ''a''"
proof -
  have "identity_calls None [(demo_host ''a'', '''', '''', ''''), (demo_host ''b'', '''', '''', '''')] ! 0
      = identity_calls None [(demo_host ''a'', '''', '''', ''''), (demo_host ''b'', '''', '''', '''')] ! 1"
    using identity_is_stable [of 0 1 "[(demo_host ''a'', '''', '''', ''''), (demo_host ''b'', '''', '''', '''')]"]
    by (simp add: explicit_identity_def)
  then show ?thesis
    by (simp add: GetWithConfig_def identity_Get_def compute_identity_def demo_host_def
        getOutboundIP_def Let_def)
qed

end
