(* ===== verification/Config_Loading.thy ===== *)
theory Config_Loading
  imports Go_Strings "HOL-Library.Word"
begin

unbundle bit_operations_syntax

text \<open>
  \<open>pkg/config\<close> without the reloader: the global configuration with its comparisons, its
  validation and the hot-reloadable part, the two ways of loading it, and the chain of module
  loaders. The YAML, kong, env and mapstructure packages are arguments.
\<close>

section \<open>The configuration\<close>

text \<open>A \<open>float32\<close> is its bit pattern; Go's \<open>==\<close> distinguishes no zeros and no NaN is
  equal to anything.\<close>

type_synonym f32 = "32 word"

definition f32_nan :: "f32 \<Rightarrow> bool" where
  "f32_nan w \<longleftrightarrow> w AND 0x7FFFFFFF > 0x7F800000"

definition f32_zero :: "f32 \<Rightarrow> bool" where
  "f32_zero w \<longleftrightarrow> w AND 0x7FFFFFFF = 0"

definition f32_eq :: "f32 \<Rightarrow> f32 \<Rightarrow> bool" where
  "f32_eq a b \<longleftrightarrow> \<not> f32_nan a \<and> \<not> f32_nan b \<and> (a = b \<or> f32_zero a \<and> f32_zero b)"

record TLSConfig =
  tls_Enabled :: bool
  tls_CertFile :: string
  tls_KeyFile :: string

record AuthConfig =
  auth_Enabled :: bool

record ServerConfig =
  sc_Address :: string
  sc_MetricsPath :: string
  sc_HealthPath :: string
  sc_TLS :: TLSConfig
  sc_Auth :: AuthConfig

record DebugServerConfig =
  ds_Enabled :: bool
  ds_Port :: int
  ds_MetricsPath :: string
  ds_HealthPath :: string

record PprofConfig =
  pp_Enabled :: bool
  pp_Port :: int

record KubernetesConfig =
  kc_Kubeconfig :: string
  kc_QPS :: f32
  kc_Burst :: int

record LeaderElectionConfig =
  lec_Enabled :: bool
  lec_Namespace :: string
  lec_LeaseName :: string
  lec_LeaseDuration :: int
  lec_RenewDeadline :: int
  lec_RetryPeriod :: int

record LoggingConfig =
  log_Level :: string
  log_Format :: string
  log_Debug :: bool

record GlobalConfig =
  gc_ConfigPath :: string
  gc_EnvFile :: string
  gc_Server :: ServerConfig
  gc_DebugServer :: DebugServerConfig
  gc_Pprof :: PprofConfig
  gc_Kubernetes :: KubernetesConfig
  gc_MetricsNamespace :: string
  gc_LeaderElection :: LeaderElectionConfig
  gc_Logging :: LoggingConfig
  gc_InformerResyncPeriod :: int
  gc_EnabledCollectors :: "string list"
  gc_Identity :: string
  gc_NodeName :: string
  gc_PodName :: string

definition TLSConfig_Equal :: "TLSConfig \<Rightarrow> TLSConfig \<Rightarrow> bool" where
  "TLSConfig_Equal c d \<longleftrightarrow> tls_Enabled c = tls_Enabled d \<and> tls_CertFile c = tls_CertFile d \<and>
     tls_KeyFile c = tls_KeyFile d"

definition AuthConfig_Equal :: "AuthConfig \<Rightarrow> AuthConfig \<Rightarrow> bool" where
  "AuthConfig_Equal c d \<longleftrightarrow> auth_Enabled c = auth_Enabled d"

definition ServerConfig_Equal :: "ServerConfig \<Rightarrow> ServerConfig \<Rightarrow> bool" where
  "ServerConfig_Equal c d \<longleftrightarrow> sc_Address c = sc_Address d \<and> sc_MetricsPath c = sc_MetricsPath d \<and>
     sc_HealthPath c = sc_HealthPath d \<and> TLSConfig_Equal (sc_TLS c) (sc_TLS d) \<and>
     AuthConfig_Equal (sc_Auth c) (sc_Auth d)"

definition DebugServerConfig_Equal :: "DebugServerConfig \<Rightarrow> DebugServerConfig \<Rightarrow> bool" where
  "DebugServerConfig_Equal c d \<longleftrightarrow> ds_Enabled c = ds_Enabled d \<and> ds_Port c = ds_Port d \<and>
     ds_MetricsPath c = ds_MetricsPath d \<and> ds_HealthPath c = ds_HealthPath d"

definition PprofConfig_Equal :: "PprofConfig \<Rightarrow> PprofConfig \<Rightarrow> bool" where
  "PprofConfig_Equal c d \<longleftrightarrow> pp_Enabled c = pp_Enabled d \<and> pp_Port c = pp_Port d"

definition KubernetesConfig_Equal :: "KubernetesConfig \<Rightarrow> KubernetesConfig \<Rightarrow> bool" where
  "KubernetesConfig_Equal c d \<longleftrightarrow> kc_Kubeconfig c = kc_Kubeconfig d \<and>
     f32_eq (kc_QPS c) (kc_QPS d) \<and> kc_Burst c = kc_Burst d"

text \<open>No field is forgotten by the comparisons.\<close>

lemma ServerConfig_Equal_eq: "ServerConfig_Equal c d \<longleftrightarrow> c = d"
  by (cases c; cases d; cases "sc_TLS c"; cases "sc_TLS d"; cases "sc_Auth c"; cases "sc_Auth d")
    (auto simp: ServerConfig_Equal_def TLSConfig_Equal_def AuthConfig_Equal_def)

lemma DebugServerConfig_Equal_eq: "DebugServerConfig_Equal c d \<longleftrightarrow> c = d"
  by (cases c; cases d) (auto simp: DebugServerConfig_Equal_def)

lemma PprofConfig_Equal_eq: "PprofConfig_Equal c d \<longleftrightarrow> c = d"
  by (cases c; cases d) (auto simp: PprofConfig_Equal_def)

lemma KubernetesConfig_Equal_eq:
  "\<not> f32_nan (kc_QPS c) \<Longrightarrow> \<not> f32_zero (kc_QPS c) \<Longrightarrow> KubernetesConfig_Equal c d \<longleftrightarrow> c = d"
  by (cases c; cases d) (auto simp: KubernetesConfig_Equal_def f32_eq_def)

definition ApplyHotReload :: "GlobalConfig \<Rightarrow> GlobalConfig \<Rightarrow> GlobalConfig" where
  "ApplyHotReload c n = c\<lparr>
     gc_DebugServer := gc_DebugServer n,
     gc_Pprof := gc_Pprof n,
     gc_Kubernetes := gc_Kubernetes n,
     gc_MetricsNamespace := gc_MetricsNamespace n,
     gc_LeaderElection := gc_LeaderElection n,
     gc_InformerResyncPeriod := gc_InformerResyncPeriod n,
     gc_EnabledCollectors := gc_EnabledCollectors n,
     gc_Identity := gc_Identity n,
     gc_NodeName := gc_NodeName n,
     gc_PodName := gc_PodName n \<rparr>"

text \<open>Seen from the new configuration: only the restart-only fields are taken back.\<close>

lemma ApplyHotReload_new:
  "ApplyHotReload c n = n\<lparr>gc_ConfigPath := gc_ConfigPath c, gc_EnvFile := gc_EnvFile c,
     gc_Server := gc_Server c, gc_Logging := gc_Logging c\<rparr>"
  by (simp add: ApplyHotReload_def)

section \<open>Validation\<close>

definition valid_levels :: "string list" where
  "valid_levels = [''debug'', ''info'', ''warn'', ''error'']"

text \<open>\<open>Validate\<close> changes the configuration: an empty namespace disables leader election.\<close>

definition Validate :: "GlobalConfig \<Rightarrow> err option \<times> GlobalConfig" where
  "Validate c =
     (if sc_Address (gc_Server c) = '''' then (Some ''server.address cannot be empty'', c)
      else
        let le = gc_LeaderElection c in
        if lec_Namespace le = '''' then
          (let c' = (if lec_Enabled le then c\<lparr>gc_LeaderElection := le\<lparr>lec_Enabled := False\<rparr>\<rparr> else c)
           in if log_Level (gc_Logging c') \<notin> set valid_levels
              then (Some (''invalid logging.level: '' @ log_Level (gc_Logging c')), c')
              else (None, c'))
        else if lec_Enabled le \<and> lec_RenewDeadline le \<ge> lec_LeaseDuration le
        then (Some ''leaderElection.renewDeadline must be less than leaseDuration'', c)
        else if log_Level (gc_Logging c) \<notin> set valid_levels
        then (Some (''invalid logging.level: '' @ log_Level (gc_Logging c)), c)
        else (None, c))"

text \<open>What the server relies on after validation.\<close>

definition config_valid :: "GlobalConfig \<Rightarrow> bool" where
  "config_valid c \<longleftrightarrow> sc_Address (gc_Server c) \<noteq> '''' \<and>
     log_Level (gc_Logging c) \<in> {''debug'', ''info'', ''warn'', ''error''} \<and>
     (lec_Enabled (gc_LeaderElection c) \<longrightarrow> lec_Namespace (gc_LeaderElection c) \<noteq> '''' \<and>
        lec_RenewDeadline (gc_LeaderElection c) < lec_LeaseDuration (gc_LeaderElection c))"

section \<open>Loading the global configuration\<close>

text \<open>
  The external parsers: kong on the arguments (with its defaults), \<open>godotenv.Load\<close> on the
  process environment, \<open>yaml.Unmarshal\<close> into a configuration, \<open>env.Parse\<close>, and reading a
  file. Kong may exit the process instead of returning, unless that is disabled.
\<close>

datatype ('a) kong = KongOk 'a | KongErr err | KongExit

record 'e parsers =
  kong_parse :: "bool \<Rightarrow> string list \<Rightarrow> GlobalConfig kong"
  dotenv_load :: "string \<Rightarrow> 'e \<Rightarrow> err option \<times> 'e"
  yaml_into :: "string \<Rightarrow> GlobalConfig \<Rightarrow> GlobalConfig res"
  env_parse :: "'e \<Rightarrow> GlobalConfig \<Rightarrow> GlobalConfig res"
  read_file :: "string \<Rightarrow> string res"

record load_options =
  lo_Args :: "string list"
  lo_ConfigContent :: string
  lo_EnvFile :: string
  lo_DisableExit :: bool

definition LoadFromYAMLContent :: "'e parsers \<Rightarrow> string \<Rightarrow> GlobalConfig \<Rightarrow> GlobalConfig res" where
  "LoadFromYAMLContent P content cfg = (case yaml_into P content cfg of
       Inl e \<Rightarrow> Inl (''failed to unmarshal YAML: '' @ e) | Inr c \<Rightarrow> Inr c)"

definition LoadFromYAML :: "'e parsers \<Rightarrow> string \<Rightarrow> GlobalConfig \<Rightarrow> GlobalConfig res" where
  "LoadFromYAML P path cfg = (case read_file P path of
       Inl e \<Rightarrow> Inl (''failed to read config file: '' @ e)
     | Inr data \<Rightarrow> LoadFromYAMLContent P data cfg)"

text \<open>The YAML overlay of \<open>LoadGlobalConfig\<close>: given content first, then the path.\<close>

definition yaml_overlay :: "'e parsers \<Rightarrow> string \<Rightarrow> GlobalConfig \<Rightarrow> GlobalConfig res" where
  "yaml_overlay P content cfg =
     (if length content > 0
      then (case yaml_into P content cfg of
              Inl e \<Rightarrow> Inl (''failed to parse YAML config: '' @ e) | Inr c \<Rightarrow> Inr c)
      else if gc_ConfigPath cfg \<noteq> ''''
      then (case LoadFromYAML P (gc_ConfigPath cfg) cfg of
              Inl e \<Rightarrow> Inl (''failed to load config from YAML: '' @ e) | Inr c \<Rightarrow> Inr c)
      else Inr cfg)"

text \<open>\<open>None\<close> is the exit of the process; the process environment is threaded.\<close>

definition LoadGlobalConfig :: "'e parsers \<Rightarrow> load_options \<Rightarrow> 'e \<Rightarrow> (GlobalConfig res \<times> 'e) option" where
  "LoadGlobalConfig P opts env =
     (case kong_parse P (lo_DisableExit opts) (lo_Args opts) of
        KongExit \<Rightarrow> None
      | KongErr e \<Rightarrow> Some (Inl (''failed to parse CLI args: '' @ e), env)
      | KongOk cfg \<Rightarrow>
          let env' = (if lo_EnvFile opts \<noteq> '''' then snd (dotenv_load P (lo_EnvFile opts) env) else env)
          in case yaml_overlay P (lo_ConfigContent opts) cfg of
               Inl e \<Rightarrow> Some (Inl e, env')
             | Inr cfg1 \<Rightarrow>
                 (case env_parse P env' cfg1 of
                    Inl e \<Rightarrow> Some (Inl (''failed to parse environment variables: '' @ e), env')
                  | Inr cfg2 \<Rightarrow> Some (Inr cfg2, env')))"

text \<open>\<open>ConfigLoader.Load\<close>, from the zero configuration with its default collectors.\<close>

definition ConfigLoader_Load :: "'e parsers \<Rightarrow> GlobalConfig \<Rightarrow> string \<Rightarrow> string \<Rightarrow> 'e
    \<Rightarrow> GlobalConfig res \<times> 'e" where
  "ConfigLoader_Load P zero configPath envFile env =
     (let env' = (if envFile \<noteq> '''' then snd (dotenv_load P envFile env) else env);
          cfg = zero\<lparr>gc_EnabledCollectors := [''domain'', ''node'', ''pod'', ''imagepull'', ''zombie'']\<rparr>
      in case (if configPath \<noteq> '''' then LoadFromYAML P configPath cfg else Inr cfg) of
           Inl e \<Rightarrow> (Inl (''failed to load config from YAML: '' @ e), env')
         | Inr cfg1 \<Rightarrow> (case env_parse P env' cfg1 of
               Inl e \<Rightarrow> (Inl (''failed to parse environment variables: '' @ e), env')
             | Inr cfg2 \<Rightarrow> (Inr cfg2, env')))"

text \<open>\<open>loadAndValidateConfig\<close> of main.go.\<close>

definition loadAndValidateConfig :: "'e parsers \<Rightarrow> string list \<Rightarrow> string \<Rightarrow> 'e
    \<Rightarrow> (GlobalConfig res \<times> 'e) option" where
  "loadAndValidateConfig P cliArgs content env =
     (case LoadGlobalConfig P \<lparr>lo_Args = cliArgs, lo_ConfigContent = content, lo_EnvFile = '''',
             lo_DisableExit = True\<rparr> env of
        None \<Rightarrow> None
      | Some (Inl e, env') \<Rightarrow> Some (Inl e, env')
      | Some (Inr c, env') \<Rightarrow> Some (case Validate c of
            (Some e, _) \<Rightarrow> (Inl e, env') | (None, c') \<Rightarrow> (Inr c', env')))"

lemma Validate_valid:
  assumes "Validate c2 = (None, c)"
  shows "config_valid c \<and> (c = c2 \<or> lec_Enabled (gc_LeaderElection c2) \<and>
      lec_Namespace (gc_LeaderElection c2) = '''' \<and>
      c = c2\<lparr>gc_LeaderElection := (gc_LeaderElection c2)\<lparr>lec_Enabled := False\<rparr>\<rparr>)"
  using assms by (auto simp: Validate_def Let_def config_valid_def valid_levels_def split: if_splits)

lemma accepted_valid:
  "loadAndValidateConfig P args content env = Some (Inr c, env') \<Longrightarrow> config_valid c"
  using Validate_valid by (auto simp: loadAndValidateConfig_def split: option.splits sum.splits prod.splits)

text \<open>A configuration that a reload accepts is valid, whatever the external parsers return:
  the address is not empty, the log level is one of the four, and if leader election is on
  after validation then it has a namespace and its renew deadline is below the lease duration.
  It is the configuration that the environment overlay, the last stage, produced, except that
  leader election may have been switched off, and nothing is switched off when the namespace
  is set.
\<close>

theorem accepted_config_is_valid:
  assumes "loadAndValidateConfig P args content env = Some (Inr c, env')"
  shows "config_valid c \<and> (\<exists>c0 c1. yaml_overlay P content c0 = Inr c1 \<and>
     (\<exists>c2. env_parse P env' c1 = Inr c2 \<and>
       (c = c2 \<or> lec_Enabled (gc_LeaderElection c2) \<and> lec_Namespace (gc_LeaderElection c2) = '''' \<and>
          c = c2\<lparr>gc_LeaderElection := (gc_LeaderElection c2)\<lparr>lec_Enabled := False\<rparr>\<rparr>)))"
proof -
  obtain c2 where load: "LoadGlobalConfig P \<lparr>lo_Args = args, lo_ConfigContent = content,
        lo_EnvFile = '''', lo_DisableExit = True\<rparr> env = Some (Inr c2, env')"
    and val: "Validate c2 = (None, c)"
    using assms by (auto simp: loadAndValidateConfig_def split: option.splits sum.splits prod.splits)
  obtain c0 c1 where st: "yaml_overlay P content c0 = Inr c1" "env_parse P env' c1 = Inr c2"
    using load by (auto simp: LoadGlobalConfig_def Let_def split: kong.splits sum.splits if_splits)
  from Validate_valid [OF val] st show ?thesis by blast
qed

definition demo_config :: GlobalConfig where
  "demo_config = \<lparr>gc_ConfigPath = '''', gc_EnvFile = ''.env'',
     gc_Server = \<lparr>sc_Address = '':9090'', sc_MetricsPath = ''/metrics'', sc_HealthPath = ''/health'',
       sc_TLS = \<lparr>tls_Enabled = False, tls_CertFile = '''', tls_KeyFile = ''''\<rparr>,
       sc_Auth = \<lparr>auth_Enabled = False\<rparr>\<rparr>,
     gc_DebugServer = \<lparr>ds_Enabled = True, ds_Port = 8080, ds_MetricsPath = ''/metrics'',
       ds_HealthPath = ''/health''\<rparr>,
     gc_Pprof = \<lparr>pp_Enabled = False, pp_Port = 6060\<rparr>,
     gc_Kubernetes = \<lparr>kc_Kubeconfig = '''', kc_QPS = 0x42480000, kc_Burst = 100\<rparr>,
     gc_MetricsNamespace = '''',
     gc_LeaderElection = \<lparr>lec_Enabled = True, lec_Namespace = '''', lec_LeaseName = ''sealos-state-metric'',
       lec_LeaseDuration = 15 * 10 ^ 9, lec_RenewDeadline = 10 * 10 ^ 9, lec_RetryPeriod = 2 * 10 ^ 9\<rparr>,
     gc_Logging = \<lparr>log_Level = ''info'', log_Format = ''text'', log_Debug = False\<rparr>,
     gc_InformerResyncPeriod = 600 * 10 ^ 9, gc_EnabledCollectors = [''domain'', ''node''],
     gc_Identity = '''', gc_NodeName = '''', gc_PodName = ''''\<rparr>"

definition demo_parsers :: "unit parsers" where
  "demo_parsers = \<lparr>kong_parse = (\<lambda>_ _. KongOk demo_config), dotenv_load = (\<lambda>_ e. (None, e)),
     yaml_into = (\<lambda>_ c. Inr (c\<lparr>gc_NodeName := ''n1''\<rparr>)), env_parse = (\<lambda>_ c. Inr c),
     read_file = (\<lambda>_. Inl ''no such file'')\<rparr>"

theorem accepted_config_is_valid_witness:
  "\<exists>c. loadAndValidateConfig demo_parsers [] ''nodeName: n1'' () = Some (Inr c, ()) \<and>
     config_valid c \<and> gc_NodeName c = ''n1''"
proof -
  obtain c where c: "loadAndValidateConfig demo_parsers [] ''nodeName: n1'' () = Some (Inr c, ())"
      "gc_NodeName c = ''n1''"
    by (simp add: loadAndValidateConfig_def LoadGlobalConfig_def demo_parsers_def yaml_overlay_def
        Validate_def demo_config_def valid_levels_def Let_def)
  with accepted_config_is_valid [OF c(1)] show ?thesis by blast
qed

section \<open>Module configuration\<close>

text \<open>YAML values below a module key: mappings, and everything else.\<close>

datatype yaml = YMap "(string \<times> yaml) list" | YScalar string

type_synonym ymap = "(string \<times> yaml) list"

fun split_key_go :: "string \<Rightarrow> string list \<Rightarrow> string \<Rightarrow> string list" where
  "split_key_go current result [] = (if current \<noteq> '''' then result @ [current] else result)"
| "split_key_go current result (c # cs) =
     (if c = CHR ''.''
      then (if current \<noteq> '''' then split_key_go '''' (result @ [current]) cs
            else split_key_go current result cs)
      else split_key_go (current @ [c]) result cs)"

definition splitKey :: "string \<Rightarrow> string list" where
  "splitKey key = (if key = '''' then [] else split_key_go '''' [] key)"

fun navigate :: "ymap \<Rightarrow> string list \<Rightarrow> ymap option" where
  "navigate current [] = Some current"
| "navigate current (k # ks) = (case map_of current k of
     Some (YMap m) \<Rightarrow> navigate m ks
   | _ \<Rightarrow> None)"

definition navigateToKey :: "ymap \<Rightarrow> string \<Rightarrow> ymap option" where
  "navigateToKey data key = navigate data (splitKey key)"

text \<open>A loader changes the target and may report an error; a failed decode may have
  changed part of the target.\<close>

type_synonym 'cfg config_loader = "string \<Rightarrow> 'cfg \<Rightarrow> err option \<times> 'cfg"

definition ModuleConfigLoader :: "(string \<Rightarrow> ymap res) \<Rightarrow> (ymap \<Rightarrow> 'cfg \<Rightarrow> err option \<times> 'cfg)
    \<Rightarrow> string \<Rightarrow> 'cfg config_loader" where
  "ModuleConfigLoader unmarshal decode content moduleKey target =
     (if length content = 0 then (None, target)
      else case unmarshal content of
          Inl e \<Rightarrow> (Some (''failed to unmarshal YAML: '' @ e), target)
        | Inr full \<Rightarrow> (case navigateToKey full moduleKey of
              None \<Rightarrow> (None, target)
            | Some d \<Rightarrow> (case decode d target of
                  (Some e, t) \<Rightarrow> (Some (''failed to decode module config: '' @ e), t)
                | (None, t) \<Rightarrow> (None, t))))"

text \<open>The environment loader; \<open>parse prefix target\<close> is \<open>env.ParseWithOptions\<close>.\<close>

definition env_prefix :: "string \<Rightarrow> string \<Rightarrow> string" where
  "env_prefix custom moduleKey =
     (let derived = ToUpper (ReplaceByte CHR ''.'' CHR ''_'' moduleKey) @ ''_''
      in if custom \<noteq> '''' then custom @ derived else derived)"

definition EnvConfigLoader :: "(string \<Rightarrow> 'cfg \<Rightarrow> err option \<times> 'cfg) \<Rightarrow> string \<Rightarrow> 'cfg config_loader" where
  "EnvConfigLoader parse custom moduleKey target =
     (let p = env_prefix custom moduleKey
      in case parse p target of
           (Some e, t) \<Rightarrow> (Some (''failed to parse environment variables with prefix '' @ p @ '': '' @ e), t)
         | (None, t) \<Rightarrow> (None, t))"

fun run_loaders :: "'cfg config_loader list \<Rightarrow> string \<Rightarrow> 'cfg \<Rightarrow> err list \<times> 'cfg" where
  "run_loaders [] k t = ([], t)"
| "run_loaders (l # ls) k t = (case l k t of
     (Some e, t') \<Rightarrow> (let (es, t'') = run_loaders ls k t' in (e # es, t''))
   | (None, t') \<Rightarrow> run_loaders ls k t')"

text \<open>\<open>%q\<close> is rendered as plain quotes; \<open>errors.Join\<close> separates by newlines.\<close>

definition WrapConfigLoader :: "'cfg config_loader list \<Rightarrow> 'cfg config_loader" where
  "WrapConfigLoader loaders moduleKey target =
     (let (errs, t) = run_loaders loaders moduleKey target
      in (if errs \<noteq> [] then Some (''failed to load module config '' @ [char_of (34::nat)] @ moduleKey @
              [char_of (34::nat)] @ '': '' @ Join [char_of (10::nat)] errs) else None, t))"

definition CompositeConfigLoader :: "'cfg config_loader list \<Rightarrow> 'cfg config_loader" where
  "CompositeConfigLoader loaders moduleKey target =
     (let (errs, t) = run_loaders loaders moduleKey target
      in (if errs \<noteq> [] then Some (''failed to load module config '' @ [char_of (34::nat)] @ moduleKey @
              [char_of (34::nat)] @ '': '' @ Join [char_of (10::nat)] errs) else None, t))"

lemma snd_run_loaders: "snd (run_loaders ls k t) = foldl (\<lambda>u l. snd (l k u)) t ls"
  by (induction ls arbitrary: t) (auto split: prod.splits option.splits, (metis snd_conv)+)

lemma snd_Wrap: "snd (WrapConfigLoader ls k t) = foldl (\<lambda>u l. snd (l k u)) t ls"
  by (simp add: WrapConfigLoader_def snd_run_loaders [symmetric] split: prod.splits)

lemma run_loaders_append:
  "run_loaders (xs @ ys) k t = (let (e1, t1) = run_loaders xs k t; (e2, t2) = run_loaders ys k t1
     in (e1 @ e2, t2))"
  by (induction xs arbitrary: t) (auto split: prod.splits option.splits)

lemma fst_Wrap: "fst (WrapConfigLoader ls k t) = None \<longleftrightarrow> fst (run_loaders ls k t) = []"
  by (simp add: WrapConfigLoader_def split: prod.split)

lemma fst_Wrap_append:
  "fst (WrapConfigLoader (xs @ ys) k t) = None \<longleftrightarrow> fst (WrapConfigLoader xs k t) = None \<and>
     fst (WrapConfigLoader ys k (snd (WrapConfigLoader xs k t))) = None"
  by (simp add: fst_Wrap snd_Wrap snd_run_loaders [symmetric] run_loaders_append split: prod.split)

lemma split_key_go_spec:
  assumes "CHR ''.'' \<notin> set current"
  shows "split_key_go current result s =
    result @ filter (\<lambda>x. x \<noteq> []) (case Split CHR ''.'' s of [] \<Rightarrow> [current] | y # ys \<Rightarrow> (current @ y) # ys)"
  using assms
proof (induction current result s rule: split_key_go.induct)
  case (2 current result c cs)
  show ?case
  proof (cases "Split CHR ''.'' cs")
    case Nil
    then show ?thesis by simp
  next
    case (Cons y ys)
    with 2 show ?thesis by (cases "c = CHR ''.''"; cases "current = []") auto
  qed
qed simp

lemma splitKey_spec: "splitKey key = filter (\<lambda>x. x \<noteq> []) (Split CHR ''.'' key)"
proof (cases "key = []")
  case False
  then show ?thesis
    by (cases "Split CHR ''.'' key") (simp_all add: splitKey_def split_key_go_spec)
qed (simp add: splitKey_def)

lemma Split_Join: "ks \<noteq> [] \<Longrightarrow> (\<forall>k \<in> set ks. c \<notin> set k) \<Longrightarrow> Split c (Join [c] ks) = ks"
proof (induction ks rule: induct_list012)
  case (2 x)
  then show ?case by (simp add: Split_single)
qed (simp_all add: Split_append)

text \<open>Putting a section under a path, the reference for navigation.\<close>

fun yaml_put :: "string list \<Rightarrow> ymap \<Rightarrow> ymap \<Rightarrow> ymap" where
  "yaml_put [] m d = m"
| "yaml_put (k # ks) m d = (k, YMap (yaml_put ks m
     (case map_of d k of Some (YMap m') \<Rightarrow> m' | _ \<Rightarrow> []))) # filter (\<lambda>p. fst p \<noteq> k) d"

lemma navigate_put: "navigate (yaml_put ks m d) ks = Some m"
  by (induction ks arbitrary: d) auto

lemma map_of_filter_other: "k \<noteq> j \<Longrightarrow> map_of (filter (\<lambda>p. fst p \<noteq> j) d) k = map_of d k"
  by (induction d) auto

lemma navigate_put_other:
  "navigate d js = Some r \<Longrightarrow> \<not> prefix js ks \<Longrightarrow> \<not> prefix ks js \<Longrightarrow> navigate (yaml_put ks m d) js = Some r"
proof (induction js arbitrary: d ks)
  case (Cons j js)
  then obtain k ks' where ks: "ks = k # ks'" by (cases ks) auto
  show ?case
  proof (cases "j = k")
    case True
    from Cons.prems(1) obtain m' where "map_of d j = Some (YMap m')" "navigate m' js = Some r"
      by (auto split: option.splits yaml.splits)
    with True Cons ks show ?thesis by auto
  next
    case False
    with Cons.prems(1) ks show ?thesis by (auto simp: map_of_filter_other)
  qed
qed simp

text \<open>Module keys address sections. Splitting a key gives the non-empty segments between
  the dots, so the dotted form of a path of non-empty dotless segments splits back into
  that path, and navigating to the key finds exactly the section that was put under the path,
  while sections under paths that are not comparable with it are found unchanged.
\<close>

theorem module_key_addresses_section:
  assumes "ks \<noteq> []" and "\<forall>k \<in> set ks. k \<noteq> '''' \<and> CHR ''.'' \<notin> set k"
  shows "splitKey (Join ''.'' ks) = ks \<and>
    navigateToKey (yaml_put ks m d) (Join ''.'' ks) = Some m \<and>
    (\<forall>key r. navigateToKey d key = Some r \<and> \<not> prefix (splitKey key) ks \<and> \<not> prefix ks (splitKey key)
       \<longrightarrow> navigateToKey (yaml_put ks m d) key = Some r)"
proof -
  have "filter (\<lambda>x. x \<noteq> []) ks = ks" using assms(2) by simp
  then have s: "splitKey (Join ''.'' ks) = ks"
    using Split_Join [OF assms(1), of "CHR ''.''"] assms(2) by (simp add: splitKey_spec)
  then show ?thesis by (simp add: navigateToKey_def navigate_put navigate_put_other)
qed

theorem module_key_addresses_section_witness:
  "navigateToKey (yaml_put [''collectors'', ''node''] [(''interval'', YScalar ''5s'')] [])
     ''collectors.node'' = Some [(''interval'', YScalar ''5s'')]"
  using module_key_addresses_section [of "[''collectors'', ''node'']" "[(''interval'', YScalar ''5s'')]" "[]"]
  by simp

text \<open>A chain of module loaders runs every loader in the order of addition, a failing one
  included: the errors are those of the failing loaders and appear iff some loader fails, and
  what the last loader to write a setting (\<open>get\<close>) writes is what the module gets, so the
  environment, added last, overrides the file.
\<close>

theorem later_loader_wins:
  assumes "\<forall>t. get (snd (l k t)) = v"
    and "\<forall>l' \<in> set later. \<forall>t. get (snd (l' k t)) = get t"
  shows "get (snd (WrapConfigLoader (earlier @ l # later) k t)) = v \<and>
    (fst (WrapConfigLoader (earlier @ l # later) k t) = None \<longleftrightarrow>
       fst (WrapConfigLoader earlier k t) = None \<and>
       fst (WrapConfigLoader (l # later) k (snd (WrapConfigLoader earlier k t))) = None)"
proof -
  have later: "get (foldl (\<lambda>u l. snd (l k u)) u later) = get u" for u
    using assms(2) by (induction later arbitrary: u) auto
  have "get (snd (WrapConfigLoader (earlier @ l # later) k t)) = v"
    using assms(1) by (simp add: snd_Wrap later)
  then show ?thesis by (simp only: fst_Wrap_append simp_thms)
qed

theorem later_loader_wins_witness:
  "snd (WrapConfigLoader [ModuleConfigLoader (\<lambda>_. Inl ''bad yaml'') (\<lambda>_ t. (None, t)) ''x:'',
      EnvConfigLoader (\<lambda>p t. (None, p)) ''''] ''collectors.node'' ''default'') = ''COLLECTORS_NODE_''"
proof -
  have e: "ToUpper ''collectors_node'' = ''COLLECTORS_NODE''" by code_simp
  have "\<forall>t. id (snd (EnvConfigLoader (\<lambda>p t. (None, p)) '''' ''collectors.node'' t)) = ''COLLECTORS_NODE_''"
    by (simp add: EnvConfigLoader_def env_prefix_def Let_def ReplaceByte_def e)
  from later_loader_wins [where get = id and later = "[]" and k = "''collectors.node''" and
      l = "EnvConfigLoader (\<lambda>p t. (None, p)) ''''" and t = "''default''" and
      earlier = "[ModuleConfigLoader (\<lambda>_. Inl ''bad yaml'') (\<lambda>_ t. (None, t)) ''x:'']", OF this]
  show ?thesis by simp
qed

end
