(* ===== verification/Config_Reloader.thy ===== *)
theory Config_Reloader
  imports Prelude Go_Strings
begin

text \<open>
  \<open>pkg/config/reloader.go\<close>: the goroutine that watches the directory of the configuration file and
  reloads it some time after the last change. The state has the pending timers of
  \<open>time.AfterFunc\<close> with the time they are due; the events are the turns of \<open>watchLoop\<close>, the
  firing of a timer, and the calls from outside, in any interleaving. \<open>filepath.Clean\<close> and
  \<open>filepath.Base\<close> are written out for slash-separated paths.
\<close>

section \<open>Paths\<close>

fun clean_parts :: "bool \<Rightarrow> string list \<Rightarrow> string list \<Rightarrow> string list" where
  "clean_parts rooted out [] = rev out"
| "clean_parts rooted out (p # ps) =
     (if p = '''' \<or> p = ''.'' then clean_parts rooted out ps
      else if p = ''..'' then
        (case out of
           [] \<Rightarrow> if rooted then clean_parts rooted [] ps else clean_parts rooted [''..''] ps
         | q # qs \<Rightarrow> if q = ''..'' then clean_parts rooted (''..'' # out) ps else clean_parts rooted qs ps)
      else clean_parts rooted (p # out) ps)"

definition path_Clean :: "string \<Rightarrow> string" where
  "path_Clean path =
     (let rooted = HasPrefix path ''/''; parts = clean_parts rooted [] (Split CHR ''/'' path);
          body = Join ''/'' parts
      in if rooted then CHR ''/'' # body else if parts = [] then ''.'' else body)"

definition path_Base :: "string \<Rightarrow> string" where
  "path_Base path =
     (if path = '''' then ''.''
      else let p = TrimRight_by (\<lambda>c. c = CHR ''/'') path
           in if p = '''' then ''/'' else last (Split CHR ''/'' p))"

section \<open>The reloader\<close>

record reloader =
  rl_configPath :: string
  rl_debounce :: int
  rl_timer :: "nat option"
  rl_pending :: "(nat \<times> int) list"
  rl_next :: nat
  rl_stopped :: bool
  rl_loop :: bool

definition NewReloader :: "err option \<Rightarrow> string \<Rightarrow> reloader res" where
  "NewReloader newWatcher path = (case newWatcher of
       Some e \<Rightarrow> Inl e
     | None \<Rightarrow> Inr \<lparr>rl_configPath = path, rl_debounce = 3 * 10 ^ 9, rl_timer = None, rl_pending = [],
         rl_next = 0, rl_stopped = False, rl_loop = False\<rparr>)"

definition SetDebounce :: "int \<Rightarrow> reloader \<Rightarrow> reloader" where
  "SetDebounce d r = r\<lparr>rl_debounce := d\<rparr>"

definition reloader_Start :: "err option \<Rightarrow> reloader \<Rightarrow> err option \<times> reloader" where
  "reloader_Start add r = (case add of Some e \<Rightarrow> (Some e, r) | None \<Rightarrow> (None, r\<lparr>rl_loop := True\<rparr>))"

text \<open>\<open>Timer.Stop\<close> takes a timer that has not fired out of the pending ones.\<close>

definition timer_Stop :: "nat option \<Rightarrow> reloader \<Rightarrow> reloader" where
  "timer_Stop t r = (case t of None \<Rightarrow> r
     | Some i \<Rightarrow> r\<lparr>rl_pending := filter (\<lambda>(j, _). j \<noteq> i) (rl_pending r)\<rparr>)"

definition scheduleReload :: "int \<Rightarrow> reloader \<Rightarrow> reloader" where
  "scheduleReload now r =
     (let r1 = timer_Stop (rl_timer r) r
      in r1\<lparr>rl_pending := rl_pending r1 @ [(rl_next r1, now + rl_debounce r1)],
            rl_timer := Some (rl_next r1), rl_next := rl_next r1 + 1\<rparr>)"

text \<open>The once of \<open>Stop\<close> is the flag of the closed channel.\<close>

definition reloader_Stop :: "reloader \<Rightarrow> reloader" where
  "reloader_Stop r = (if rl_stopped r then r else timer_Stop (rl_timer r) (r\<lparr>rl_stopped := True\<rparr>))"

datatype fs_op = FsWrite | FsCreate | FsChmod | FsRemove | FsRename

definition relevant :: "string \<Rightarrow> string \<Rightarrow> fs_op list \<Rightarrow> bool" where
  "relevant configPath name op =
     (let eventPath = path_Clean name;
          isConfigFile = (eventPath = path_Clean configPath \<or> path_Base eventPath = path_Base configPath);
          isDataSymlink = (path_Base eventPath = ''..data'')
      in (isConfigFile \<or> isDataSymlink) \<and> (FsWrite \<in> set op \<or> FsCreate \<in> set op \<or> FsRemove \<in> set op))"

text \<open>The event case of \<open>watchLoop\<close>.\<close>

definition watch_event :: "int \<Rightarrow> string \<Rightarrow> fs_op list \<Rightarrow> reloader \<Rightarrow> reloader" where
  "watch_event now name op r = (if relevant (rl_configPath r) name op then scheduleReload now r else r)"

text \<open>\<open>reload\<close>: reading the file and the callback.\<close>

definition reload :: "string res \<Rightarrow> (string \<Rightarrow> err option) \<Rightarrow> err option" where
  "reload file callback = (case file of Inl e \<Rightarrow> Some e | Inr content \<Rightarrow> callback content)"

section \<open>The running system\<close>

text \<open>\<open>ry_change\<close> is the latest relevant change that no reload has followed, with the debounce time it was
  scheduled with; \<open>ry_log\<close> records for each reload its time and that change.\<close>

record reload_sys =
  ry_reloader :: reloader
  ry_now :: int
  ry_change :: "(int \<times> int) option"
  ry_log :: "(int \<times> (int \<times> int) option) list"

datatype reload_event =
    RlTime int
  | RlFs string "fs_op list"
  | RlWatchError
  | RlExit
  | RlFire nat
  | RlSetDebounce int
  | RlStop

fun reload_step :: "reload_sys \<Rightarrow> reload_event \<Rightarrow> reload_sys option" where
  "reload_step s (RlTime t) = (if t < ry_now s then None else Some (s\<lparr>ry_now := t\<rparr>))"
| "reload_step s (RlFs name op) =
     (if \<not> rl_loop (ry_reloader s) then None
      else Some (s\<lparr>ry_reloader := watch_event (ry_now s) name op (ry_reloader s),
             ry_change := (if relevant (rl_configPath (ry_reloader s)) name op
               then Some (ry_now s, rl_debounce (ry_reloader s)) else ry_change s)\<rparr>))"
| "reload_step s RlWatchError = (if rl_loop (ry_reloader s) then Some s else None)"
| "reload_step s RlExit =
     (if rl_loop (ry_reloader s) then Some (s\<lparr>ry_reloader := (ry_reloader s)\<lparr>rl_loop := False\<rparr>\<rparr>) else None)"
| "reload_step s (RlFire i) = (case map_of (rl_pending (ry_reloader s)) i of
       None \<Rightarrow> None
     | Some due \<Rightarrow>
         if ry_now s < due then None
         else Some (s\<lparr>ry_reloader := (ry_reloader s)\<lparr>rl_pending := filter (\<lambda>(j, _). j \<noteq> i) (rl_pending (ry_reloader s))\<rparr>,
                ry_change := None, ry_log := ry_log s @ [(ry_now s, ry_change s)]\<rparr>))"
| "reload_step s (RlSetDebounce d) = Some (s\<lparr>ry_reloader := SetDebounce d (ry_reloader s)\<rparr>)"
| "reload_step s RlStop = Some (s\<lparr>ry_reloader := reloader_Stop (ry_reloader s)\<rparr>)"

inductive reload_reach :: "reload_sys \<Rightarrow> reload_sys \<Rightarrow> bool" where
  reach_refl: "reload_reach s s"
| reach_step: "reload_reach s t \<Longrightarrow> reload_step t e = Some u \<Longrightarrow> reload_reach s u"

definition reload_init :: "reloader \<Rightarrow> int \<Rightarrow> reload_sys" where
  "reload_init r now = \<lparr>ry_reloader = r, ry_now = now, ry_change = None, ry_log = []\<rparr>"

text \<open>At most one timer is pending. It is the latest one and belongs to the latest change; without a stop it
  is there as long as a change has not been reloaded.\<close>

definition reload_inv :: "reload_sys \<Rightarrow> bool" where
  "reload_inv s \<longleftrightarrow> (let r = ry_reloader s in
     (rl_pending r = [] \<or> (\<exists>i t d. rl_pending r = [(i, t + d)] \<and> rl_timer r = Some i \<and> ry_change s = Some (t, d))) \<and>
     (ry_change s \<noteq> None \<and> \<not> rl_stopped r \<longrightarrow> rl_pending r \<noteq> []) \<and>
     (\<forall>t d. ry_change s = Some (t, d) \<longrightarrow> t \<le> ry_now s) \<and>
     (\<forall>now c. (now, c) \<in> set (ry_log s) \<longrightarrow> (\<exists>t d. c = Some (t, d) \<and> t \<le> now \<and> t + d \<le> now)))"

lemma reload_inv_step:
  assumes "reload_inv s" "reload_step s e = Some s'"
  shows "reload_inv s'"
proof (cases e)
  case (RlTime t)
  then show ?thesis using assms by (auto simp: reload_inv_def Let_def split: if_splits intro: order_trans)
next
  case (RlFs name op)
  show ?thesis
  proof (cases "relevant (rl_configPath (ry_reloader s)) name op")
    case True
    have "rl_pending (timer_Stop (rl_timer (ry_reloader s)) (ry_reloader s)) = []"
      using assms(1) by (auto simp: reload_inv_def Let_def timer_Stop_def split: option.splits)
    then show ?thesis using assms RlFs True
      by (auto simp: reload_inv_def Let_def watch_event_def scheduleReload_def timer_Stop_def split: if_splits option.splits)
  next
    case False
    then show ?thesis using assms RlFs by (auto simp: reload_inv_def watch_event_def split: if_splits)
  qed
next
  case (RlFire i)
  then obtain due where d: "map_of (rl_pending (ry_reloader s)) i = Some due" "due \<le> ry_now s"
    and s': "s' = s\<lparr>ry_reloader := (ry_reloader s)\<lparr>rl_pending := filter (\<lambda>(j, _). j \<noteq> i) (rl_pending (ry_reloader s))\<rparr>,
                ry_change := None, ry_log := ry_log s @ [(ry_now s, ry_change s)]\<rparr>"
    using assms(2) by (auto split: option.splits if_splits)
  obtain t db where p: "rl_pending (ry_reloader s) = [(i, t + db)]" "ry_change s = Some (t, db)" "due = t + db"
    using assms(1) d(1) by (auto simp: reload_inv_def Let_def split: if_splits)
  then show ?thesis using assms(1) d(2) by (auto simp: reload_inv_def Let_def s')
next
  case RlStop
  show ?thesis
  proof (cases "rl_stopped (ry_reloader s)")
    case True
    then show ?thesis using assms RlStop by (simp add: reloader_Stop_def reload_inv_def)
  next
    case False
    have "rl_pending (timer_Stop (rl_timer (ry_reloader s)) (ry_reloader s\<lparr>rl_stopped := True\<rparr>)) = []"
      "rl_stopped (timer_Stop (rl_timer (ry_reloader s)) (ry_reloader s\<lparr>rl_stopped := True\<rparr>))"
      using assms(1) by (auto simp: reload_inv_def Let_def timer_Stop_def split: option.splits)
    then show ?thesis using assms RlStop False by (auto simp: reload_inv_def Let_def reloader_Stop_def)
  qed
qed (use assms in \<open>auto simp: reload_inv_def Let_def SetDebounce_def split: if_splits\<close>)

lemma reload_inv_reach: "reload_reach s t \<Longrightarrow> reload_inv s \<Longrightarrow> reload_inv t"
  by (induction rule: reload_reach.induct) (auto intro: reload_inv_step)

lemma reload_inv_init: "rl_pending r = [] \<Longrightarrow> reload_inv (reload_init r now)"
  by (simp add: reload_inv_def reload_init_def)

text \<open>C9. However changes, timers and stops interleave, every reload comes at least the debounce time after
  the latest change before it, there is never more than one timer, and until the reloader is
  stopped no change is lost: while a change has not been followed by a reload, a timer for it is
  pending and may fire as soon as its time has come.\<close>

theorem reloader_debounces:
  assumes "NewReloader None path = Inr r0" "reloader_Start None r0 = (None, r)"
    and "reload_reach (reload_init r now) s"
  shows "(\<forall>n c. (n, c) \<in> set (ry_log s) \<longrightarrow> (\<exists>t d. c = Some (t, d) \<and> t + d \<le> n)) \<and>
    length (rl_pending (ry_reloader s)) \<le> 1 \<and>
    (\<forall>t d. ry_change s = Some (t, d) \<and> \<not> rl_stopped (ry_reloader s) \<and> t + d \<le> ry_now s \<longrightarrow>
       (\<exists>i s'. reload_step s (RlFire i) = Some s' \<and> ry_log s' = ry_log s @ [(ry_now s, Some (t, d))] \<and>
          ry_change s' = None))"
proof -
  have "rl_pending r = []" using assms(1,2) by (auto simp: NewReloader_def reloader_Start_def)
  then have inv: "reload_inv s" using reload_inv_reach [OF assms(3)] reload_inv_init by blast
  then have a: "\<forall>n c. (n, c) \<in> set (ry_log s) \<longrightarrow> (\<exists>t d. c = Some (t, d) \<and> t + d \<le> n)"
    and b: "length (rl_pending (ry_reloader s)) \<le> 1"
    unfolding reload_inv_def Let_def by (blast, auto)
  have "\<exists>i s'. reload_step s (RlFire i) = Some s' \<and> ry_log s' = ry_log s @ [(ry_now s, Some (t, d))] \<and>
          ry_change s' = None"
    if c: "ry_change s = Some (t, d)" "\<not> rl_stopped (ry_reloader s)" "t + d \<le> ry_now s" for t d
  proof -
    obtain i where i: "rl_pending (ry_reloader s) = [(i, t + d)]"
      using inv c(1,2) by (auto simp: reload_inv_def Let_def)
    show ?thesis by (rule exI [of _ i]) (use i c in simp)
  qed
  with a b show ?thesis by blast
qed

definition demo_reloader :: reloader where
  "demo_reloader = \<lparr>rl_configPath = ''/etc/cfg/config.yaml'', rl_debounce = 3 * 10 ^ 9, rl_timer = None, rl_pending = [],
     rl_next = 0, rl_stopped = False, rl_loop = False\<rparr>"

lemma demo_relevant: "relevant ''/etc/cfg/config.yaml'' ''/etc/cfg/..data'' [FsCreate]"
  by (simp add: relevant_def path_Base_def path_Clean_def TrimRight_by_def HasPrefix_def Let_def)

theorem reloader_debounces_witness:
  "\<exists>s i s'. reload_reach (reload_init (demo_reloader\<lparr>rl_loop := True\<rparr>) 0) s \<and>
     reload_step s (RlFire i) = Some s' \<and> ry_log s' = [(3 * 10 ^ 9, Some (0, 3 * 10 ^ 9))]"
proof -
  let ?r = "demo_reloader\<lparr>rl_loop := True\<rparr>"
  let ?s = "reload_init (scheduleReload 0 ?r) (3 * 10 ^ 9)\<lparr>ry_change := Some (0, 3 * 10 ^ 9)\<rparr>"
  have 1: "reload_step (reload_init ?r 0) (RlFs ''/etc/cfg/..data'' [FsCreate]) =
      Some (reload_init (scheduleReload 0 ?r) 0\<lparr>ry_change := Some (0, 3 * 10 ^ 9)\<rparr>)"
    by (simp add: reload_init_def watch_event_def demo_relevant demo_reloader_def)
  have 2: "reload_step (reload_init (scheduleReload 0 ?r) 0\<lparr>ry_change := Some (0, 3 * 10 ^ 9)\<rparr>) (RlTime (3 * 10 ^ 9)) =
      Some ?s"
    by (simp add: reload_init_def)
  have reach: "reload_reach (reload_init ?r 0) ?s"
    by (rule reach_step [OF reach_step [OF reach_refl 1] 2])
  have n: "NewReloader None ''/etc/cfg/config.yaml'' = Inr demo_reloader" by (simp add: NewReloader_def demo_reloader_def)
  have st: "reloader_Start None demo_reloader = (None, ?r)" by (simp add: reloader_Start_def)
  have "\<not> rl_stopped (ry_reloader ?s)" "ry_change ?s = Some (0, 3 * 10 ^ 9)" "ry_now ?s = 3 * 10 ^ 9" "ry_log ?s = []"
    by (simp_all add: reload_init_def scheduleReload_def timer_Stop_def demo_reloader_def)
  then show ?thesis using reloader_debounces [OF n st reach] reach by (metis add_0 append_Nil order_refl)
qed

section \<open>Stopping\<close>

text \<open>After \<open>Stop\<close> no timer is pending, so nothing is reloaded any more unless the watch loop still
  takes an event that was already queued: then a new timer is set, and the callback can run after
  the stop.\<close>

theorem stop_can_be_overtaken:
  assumes "NewReloader None path = Inr r0" "reloader_Start None r0 = (None, r)"
    and "reload_reach (reload_init r now) s" "\<not> rl_stopped (ry_reloader s)"
    and "rl_loop (ry_reloader s)" "relevant (rl_configPath (ry_reloader s)) name op"
    and "0 \<le> rl_debounce (ry_reloader s)"
  shows "\<exists>s1. reload_step s RlStop = Some s1 \<and> (\<forall>i. reload_step s1 (RlFire i) = None) \<and>
    (\<exists>s2 s3 i s4. reload_step s1 (RlFs name op) = Some s2 \<and>
       reload_step s2 (RlTime (ry_now s + rl_debounce (ry_reloader s))) = Some s3 \<and>
       reload_step s3 (RlFire i) = Some s4 \<and> rl_stopped (ry_reloader s4) \<and> length (ry_log s4) = length (ry_log s) + 1)"
proof -
  have "rl_pending r = []" using assms(1,2) by (auto simp: NewReloader_def reloader_Start_def)
  then have inv: "reload_inv s" using reload_inv_reach [OF assms(3)] reload_inv_init by blast
  let ?r = "ry_reloader s"
  let ?r1 = "timer_Stop (rl_timer ?r) (?r\<lparr>rl_stopped := True\<rparr>)"
  have r1: "rl_pending ?r1 = []" "rl_stopped ?r1" "rl_loop ?r1" "rl_configPath ?r1 = rl_configPath ?r"
    "rl_debounce ?r1 = rl_debounce ?r"
    using inv assms(5) by (auto simp: reload_inv_def Let_def timer_Stop_def split: option.splits)
  let ?s1 = "s\<lparr>ry_reloader := ?r1\<rparr>"
  have s1: "reload_step s RlStop = Some ?s1" using assms(4) by (simp add: reloader_Stop_def)
  let ?r2 = "scheduleReload (ry_now s) ?r1"
  have r2: "rl_pending ?r2 = [(rl_next ?r1, ry_now s + rl_debounce ?r)]" "rl_stopped ?r2"
    using r1 by (simp_all add: scheduleReload_def timer_Stop_def split: option.split)
  let ?s2 = "s\<lparr>ry_reloader := ?r2, ry_change := Some (ry_now s, rl_debounce ?r)\<rparr>"
  have s2: "reload_step ?s1 (RlFs name op) = Some ?s2" using r1 assms(6) by (simp add: watch_event_def)
  let ?s3 = "?s2\<lparr>ry_now := ry_now s + rl_debounce ?r\<rparr>"
  have s3: "reload_step ?s2 (RlTime (ry_now s + rl_debounce ?r)) = Some ?s3" using assms(7) by simp
  obtain s4 where s4: "reload_step ?s3 (RlFire (rl_next ?r1)) = Some s4" "rl_stopped (ry_reloader s4)"
    "length (ry_log s4) = length (ry_log s) + 1"
    using r2 by simp
  have none: "\<forall>i. reload_step ?s1 (RlFire i) = None" using r1(1) by simp
  show ?thesis using s1 none s2 s3 s4 by blast
qed

theorem stop_can_be_overtaken_witness:
  "\<exists>s1 s2. reload_step (reload_init (demo_reloader\<lparr>rl_loop := True\<rparr>) 0) RlStop = Some s1 \<and>
     reload_step s1 (RlFs ''/etc/cfg/..data'' [FsCreate]) = Some s2"
proof -
  let ?r = "demo_reloader\<lparr>rl_loop := True\<rparr>"
  have n: "NewReloader None ''/etc/cfg/config.yaml'' = Inr demo_reloader" by (simp add: NewReloader_def demo_reloader_def)
  have st: "reloader_Start None demo_reloader = (None, ?r)" by (simp add: reloader_Start_def)
  have r: "\<not> rl_stopped (ry_reloader (reload_init ?r 0))" "rl_loop (ry_reloader (reload_init ?r 0))"
    "relevant (rl_configPath (ry_reloader (reload_init ?r 0))) ''/etc/cfg/..data'' [FsCreate]"
    "0 \<le> rl_debounce (ry_reloader (reload_init ?r 0))"
    using demo_relevant by (simp_all add: reload_init_def demo_reloader_def)
  from stop_can_be_overtaken [OF n st reach_refl r] show ?thesis by blast
qed

end
