(* ===== verification/Base_Collector.thy ===== *)
theory Base_Collector
  imports Prelude
begin

text \<open>
  \<open>pkg/collector/base\<close>: the lifecycle that every collector embeds. The state record
  has the fields of \<open>BaseCollector\<close> and the part of the Go runtime that the lifecycle
  touches: the counter that names fresh channels and contexts, the closed channels and the
  cancelled contexts. The operations follow base.go one by one. The second half is the
  system of a collector whose \<open>OnStart\<close> spawns \<open>RunPollLoop\<close> goroutines, as a step
  relation over interleavings.
\<close>

section \<open>State\<close>

record go_rt =
  rt_next :: nat
  rt_closed :: "nat set"
  rt_cancelled :: "ctx_id set"

record base = go_rt +
  bc_name :: string
  bc_requiresLeaderElection :: bool
  bc_waitReadyOnCollect :: bool
  bc_waitReadyTimeout :: int
  bc_started :: bool
  bc_ready :: bool
  bc_readyCh :: "chan option"
  bc_stoppedCh :: "chan option"
  bc_ctx :: "ctx option"
  bc_cancel :: "ctx_id option"
  bc_descs :: "string list"

text \<open>
  \<open>Lifecycle\<close> has four hooks. A hook may read and change the collector (\<open>OnStart\<close> of
  the informer collectors calls \<open>SetReady\<close>), so each hook is a state transformer;
  \<open>OnCollect\<close> sends metrics: an emission is the list of what was sent and, if the hook then
  panicked, the panic.
\<close>

type_synonym 'm emission = "'m list \<times> string option"

record 'm lifecycle =
  OnStart :: "ctx \<Rightarrow> base \<Rightarrow> (err option \<times> base) go"
  OnStop :: "base \<Rightarrow> (err option \<times> base) go"
  OnCollect :: "base \<Rightarrow> 'm emission"
  OnHealth :: "base \<Rightarrow> err option"

text \<open>\<open>LifecycleFuncs\<close>: every hook is optional and a missing one does nothing.\<close>

record 'm lifecycle_funcs =
  StartFunc :: "(ctx \<Rightarrow> base \<Rightarrow> (err option \<times> base) go) option"
  StopFunc :: "(base \<Rightarrow> (err option \<times> base) go) option"
  CollectFunc :: "(base \<Rightarrow> 'm emission) option"
  HealthFunc :: "(base \<Rightarrow> err option) option"

definition LifecycleFuncs :: "'m lifecycle_funcs \<Rightarrow> 'm lifecycle" where
  "LifecycleFuncs lf =
     \<lparr> OnStart = (\<lambda>ctx b. case StartFunc lf of Some f \<Rightarrow> f ctx b | None \<Rightarrow> Ret (None, b)),
       OnStop = (\<lambda>b. case StopFunc lf of Some f \<Rightarrow> f b | None \<Rightarrow> Ret (None, b)),
       OnCollect = (\<lambda>b. case CollectFunc lf of Some f \<Rightarrow> f b | None \<Rightarrow> ([], None)),
       OnHealth = (\<lambda>b. case HealthFunc lf of Some f \<Rightarrow> f b | None \<Rightarrow> None) \<rparr>"

section \<open>Construction\<close>

datatype base_option =
    WithLeaderElection bool
  | WithWaitReadyOnCollect bool
  | WithWaitReadyTimeout int

fun apply_base_option :: "base \<Rightarrow> base_option \<Rightarrow> base" where
  "apply_base_option b (WithLeaderElection required) = b\<lparr>bc_requiresLeaderElection := required\<rparr>"
| "apply_base_option b (WithWaitReadyOnCollect wait) = b\<lparr>bc_waitReadyOnCollect := wait\<rparr>"
| "apply_base_option b (WithWaitReadyTimeout timeout) = b\<lparr>bc_waitReadyTimeout := timeout\<rparr>"

text \<open>Durations are nanoseconds; the default of \<open>WaitReady\<close> in \<open>Collect\<close> is 5 seconds.\<close>

definition NewBaseCollector :: "string \<Rightarrow> base_option list \<Rightarrow> base" where
  "NewBaseCollector name opts =
     foldl apply_base_option
       \<lparr> rt_next = 0, rt_closed = {}, rt_cancelled = {},
         bc_name = name, bc_requiresLeaderElection = True, bc_waitReadyOnCollect = False,
         bc_waitReadyTimeout = 5 * 10 ^ 9, bc_started = False, bc_ready = False,
         bc_readyCh = None, bc_stoppedCh = None, bc_ctx = None, bc_cancel = None,
         bc_descs = [] \<rparr> opts"

section \<open>Channel operations\<close>

definition close_chan :: "chan \<Rightarrow> base \<Rightarrow> base go" where
  "close_chan c b = (if c \<in> rt_closed b then Panic ''close of closed channel''
                     else Ret (b\<lparr>rt_closed := insert c (rt_closed b)\<rparr>))"

definition call_cancel :: "ctx_id \<Rightarrow> base \<Rightarrow> base" where
  "call_cancel i b = b\<lparr>rt_cancelled := insert i (rt_cancelled b)\<rparr>"

section \<open>Start, Stop, SetReady\<close>

text \<open>
  \<open>Start\<close> has two critical sections with the hook between them, outside the lock. They
  are separate definitions because another goroutine can run between them.
\<close>

definition start_locked :: "base \<Rightarrow> ctx \<Rightarrow> base res" where
  "start_locked b ctx =
     (if bc_started b then Inl (''collector '' @ bc_name b @ '' already started'')
      else let n = rt_next b in
        Inr (b\<lparr> rt_next := n + 3,
                bc_ctx := Some (Own n # ctx), bc_cancel := Some (Own n),
                bc_started := True, bc_ready := False,
                bc_readyCh := Some (n + 1), bc_stoppedCh := Some (n + 2) \<rparr>))"

text \<open>The cancellation that \<open>Stop\<close> and the rollback of \<open>Start\<close> share.\<close>

definition cancel_locked :: "base \<Rightarrow> base" where
  "cancel_locked b = (case bc_cancel b of None \<Rightarrow> b
                      | Some i \<Rightarrow> (call_cancel i b)\<lparr>bc_cancel := None\<rparr>)"

definition close_stopped :: "base \<Rightarrow> base go" where
  "close_stopped b = (case bc_stoppedCh b of None \<Rightarrow> Ret b
     | Some c \<Rightarrow> bind_go (close_chan c b) (\<lambda>b'. Ret (b'\<lparr>bc_stoppedCh := None\<rparr>)))"

definition start_rollback :: "base \<Rightarrow> base go" where
  "start_rollback b =
     close_stopped ((cancel_locked b)\<lparr>bc_started := False, bc_ready := False\<rparr>)"

definition Start :: "'m lifecycle option \<Rightarrow> base \<Rightarrow> ctx \<Rightarrow> (err option \<times> base) go" where
  "Start lc b ctx = (case start_locked b ctx of
       Inl e \<Rightarrow> Ret (Some e, b)
     | Inr b1 \<Rightarrow>
         (case lc of
            None \<Rightarrow> Ret (None, b1)
          | Some l \<Rightarrow>
              bind_go (OnStart l (the (bc_ctx b1)) b1) (\<lambda>(e, b2).
                case e of
                  None \<Rightarrow> Ret (None, b2)
                | Some msg \<Rightarrow> bind_go (start_rollback b2) (\<lambda>b3.
                    Ret (Some (''collector '' @ bc_name b @ '' OnStart failed: '' @ msg), b3)))))"

definition stop_locked :: "base \<Rightarrow> base res go" where
  "stop_locked b =
     (if \<not> bc_started b then Ret (Inl (''collector '' @ bc_name b @ '' not started''))
      else bind_go (close_stopped ((cancel_locked b)\<lparr>bc_started := False, bc_ready := False\<rparr>))
             (\<lambda>b'. Ret (Inr b')))"

text \<open>An error of \<open>OnStop\<close> is logged and dropped.\<close>

definition Stop :: "'m lifecycle option \<Rightarrow> base \<Rightarrow> (err option \<times> base) go" where
  "Stop lc b = bind_go (stop_locked b) (\<lambda>r. case r of
       Inl e \<Rightarrow> Ret (Some e, b)
     | Inr b1 \<Rightarrow> (case lc of None \<Rightarrow> Ret (None, b1)
                 | Some l \<Rightarrow> bind_go (OnStop l b1) (\<lambda>(_, b2). Ret (None, b2))))"

definition SetReady :: "base \<Rightarrow> base go" where
  "SetReady b =
     (if bc_ready b then Ret b
      else let b1 = b\<lparr>bc_ready := True\<rparr>
           in case bc_readyCh b1 of None \<Rightarrow> Ret b1 | Some c \<Rightarrow> close_chan c b1)"

definition IsStarted :: "base \<Rightarrow> bool" where "IsStarted b = bc_started b"
definition IsReady :: "base \<Rightarrow> bool" where "IsReady b = bc_ready b"

definition SetRequiresLeaderElection :: "base \<Rightarrow> bool \<Rightarrow> base" where
  "SetRequiresLeaderElection b requires = b\<lparr>bc_requiresLeaderElection := requires\<rparr>"

definition RegisterDesc :: "base \<Rightarrow> string \<Rightarrow> base" where
  "RegisterDesc b d = b\<lparr>bc_descs := bc_descs b @ [d]\<rparr>"

text \<open>A nil descriptor is \<open>None\<close>.\<close>

definition MustRegisterDesc :: "base \<Rightarrow> string option \<Rightarrow> base go" where
  "MustRegisterDesc b d = (case d of
       None \<Rightarrow> Panic (''collector '' @ bc_name b @ '': cannot register nil descriptor'')
     | Some x \<Rightarrow> Ret (RegisterDesc b x))"

definition Describe :: "base \<Rightarrow> string list" where
  "Describe b = bc_descs b"

section \<open>WaitReady, Health, Collect\<close>

text \<open>
  \<open>WaitReady\<close> reads \<open>ready\<close> and the two channels under the lock, then selects. What
  the select can return depends on the runtime at that later moment (\<open>b'\<close>); Go picks any
  of the enabled cases, and blocks when there is none. \<open>ctx\<close> is the caller's context and
  \<open>WaitCtxErr\<close> is its \<open>ctx.Err()\<close>.
\<close>

datatype wait_outcome = WaitOk | WaitErr err | WaitCtxErr

definition wait_select :: "string \<Rightarrow> chan \<Rightarrow> chan \<Rightarrow> base \<Rightarrow> ctx \<Rightarrow> wait_outcome list" where
  "wait_select name rc sc b' ctx =
     (if rc \<in> rt_closed b' then [WaitOk] else []) @
     (if sc \<in> rt_closed b'
      then [WaitErr (''collector '' @ name @ '' stopped before becoming ready'')] else []) @
     (if ctx_done (rt_cancelled b') ctx then [WaitCtxErr] else [])"

definition WaitReady :: "base \<Rightarrow> base \<Rightarrow> ctx \<Rightarrow> wait_outcome list" where
  "WaitReady b b' ctx =
     (if bc_ready b then [WaitOk]
      else case (bc_readyCh b, bc_stoppedCh b) of
          (Some rc, Some sc) \<Rightarrow> wait_select (bc_name b) rc sc b' ctx
        | _ \<Rightarrow> [WaitErr (''collector '' @ bc_name b @ '' not started'')])"

definition Health :: "'m lifecycle option \<Rightarrow> base \<Rightarrow> err option" where
  "Health lc b =
     (if \<not> bc_started b then Some (''collector '' @ bc_name b @ '' not running'')
      else case bc_ctx b of
          None \<Rightarrow> Some (''collector '' @ bc_name b @ '' has nil context'')
        | Some c \<Rightarrow>
            if ctx_done (rt_cancelled b) c
            then Some (''collector '' @ bc_name b @ '' context cancelled'')
            else case lc of None \<Rightarrow> None
               | Some l \<Rightarrow> map_option (\<lambda>e. ''collector '' @ bc_name b @ '' health check failed: '' @ e)
                            (OnHealth l b))"

text \<open>
  \<open>Collect\<close>: \<open>b\<close> is the state when the flags are read, \<open>b'\<close> the state when the wait
  ends and the hook runs, \<open>w\<close> the outcome of \<open>WaitReady\<close> with the timeout context.
\<close>

definition Collect :: "'m lifecycle option \<Rightarrow> base \<Rightarrow> base \<Rightarrow> wait_outcome \<Rightarrow> 'm emission" where
  "Collect lc b b' w =
     (if \<not> bc_started b then ([], None)
      else if (if bc_waitReadyOnCollect b then w \<noteq> WaitOk else \<not> bc_ready b) then ([], None)
      else case lc of None \<Rightarrow> ([], None) | Some l \<Rightarrow> OnCollect l b')"

section \<open>The poll loop\<close>

record poll_options =
  po_Interval :: int
  po_Operation :: string
  po_SlowThreshold :: int
  po_SuccessInfoLog :: bool

text \<open>Defaults of \<open>RunPollLoop\<close>: operation name, interval of a minute, threshold of 500 ms.\<close>

definition poll_defaults :: "poll_options \<Rightarrow> poll_options" where
  "poll_defaults o' =
     o'\<lparr> po_Operation := (if po_Operation o' = '''' then ''collector'' else po_Operation o'),
         po_Interval := (if po_Interval o' \<le> 0 then 60 * 10 ^ 9 else po_Interval o'),
         po_SlowThreshold := (if po_SlowThreshold o' \<le> 0 then 500 * 10 ^ 6
                              else po_SlowThreshold o') \<rparr>"

datatype poll_log = PollFailed err | PollSlow | PollInfo | PollDebug

text \<open>\<open>runPoll\<close>: what one poll logs, from its error and its duration.\<close>

definition runPoll :: "poll_options \<Rightarrow> err option \<Rightarrow> int \<Rightarrow> poll_log" where
  "runPoll o' err duration = (case err of
       Some e \<Rightarrow> PollFailed e
     | None \<Rightarrow> if duration > po_SlowThreshold o' then PollSlow
              else if po_SuccessInfoLog o' then PollInfo else PollDebug)"

text \<open>
  \<open>RunPollLoop\<close> over the collector's own state \<open>'s\<close>: one poll, \<open>SetReady\<close>, then one
  poll per tick until the context is done. Each poll returns its error, its duration and the
  new state; the events are what the select receives, in order.
\<close>

datatype loop_event = Tick | CtxDone

fun poll_loop :: "('s \<Rightarrow> err option \<times> int \<times> 's) \<Rightarrow> poll_options \<Rightarrow> 's \<Rightarrow> loop_event list
    \<Rightarrow> poll_log list \<times> 's" where
  "poll_loop poll o' s [] = ([], s)"
| "poll_loop poll o' s (CtxDone # _) = ([], s)"
| "poll_loop poll o' s (Tick # es) =
     (let (e, d, s') = poll s; (l, s'') = poll_loop poll o' s' es
      in (runPoll o' e d # l, s''))"

definition RunPollLoop :: "('s \<Rightarrow> err option \<times> int \<times> 's) \<Rightarrow> poll_options \<Rightarrow> base \<Rightarrow> 's
    \<Rightarrow> loop_event list \<Rightarrow> (base \<times> poll_log list \<times> 's) go" where
  "RunPollLoop poll opts b s es =
     (let o' = poll_defaults opts; (e, d, s') = poll s
      in bind_go (SetReady b) (\<lambda>b'.
           let (l, s'') = poll_loop poll o' s' es
           in Ret (b', runPoll o' e d # l, s'')))"

section \<open>The invariant of the lifecycle\<close>

text \<open>
  What the fields keep true of each other: the channels are allocated ones, \<open>stoppedCh\<close> is
  open and present exactly while the collector is started, a started collector is ready
  exactly when its \<open>readyCh\<close> is closed, and its own context is not cancelled.
\<close>

definition base_inv :: "base \<Rightarrow> bool" where
  "base_inv b \<longleftrightarrow>
     rt_closed b \<subseteq> {..<rt_next b} \<and>
     (\<forall>n. Own n \<in> rt_cancelled b \<longrightarrow> n < rt_next b) \<and>
     (\<forall>c. bc_readyCh b = Some c \<longrightarrow> c < rt_next b) \<and>
     (\<forall>c. bc_stoppedCh b = Some c \<longrightarrow>
        c < rt_next b \<and> c \<notin> rt_closed b \<and> bc_readyCh b \<noteq> Some c) \<and>
     (bc_started b \<longleftrightarrow> bc_stoppedCh b \<noteq> None) \<and>
     (bc_started b \<longrightarrow> (\<exists>c. bc_readyCh b = Some c \<and> (bc_ready b \<longleftrightarrow> c \<in> rt_closed b))) \<and>
     (bc_started b \<longrightarrow> (\<exists>n cx. bc_ctx b = Some (Own n # cx) \<and> bc_cancel b = Some (Own n) \<and>
        n < rt_next b \<and> Own n \<notin> rt_cancelled b)) \<and>
     (\<not> bc_started b \<longrightarrow> bc_cancel b = None) \<and>
     (bc_started b \<and> bc_ready b \<longrightarrow> bc_readyCh b \<noteq> None) \<and>
     (\<forall>i. bc_cancel b = Some i \<longrightarrow> (\<exists>n. i = Own n \<and> n < rt_next b))"

lemma base_inv_New: "base_inv (NewBaseCollector name opts)"
proof -
  have "base_inv b \<Longrightarrow> base_inv (foldl apply_base_option b opts)" for b
  proof (induction opts arbitrary: b)
    case (Cons x xs)
    have "base_inv (apply_base_option b x)"
      using Cons.prems by (cases x) (simp_all add: base_inv_def)
    then show ?case by (simp add: Cons.IH)
  qed simp
  then show ?thesis by (simp add: NewBaseCollector_def base_inv_def)
qed

lemma start_locked_inv:
  assumes "base_inv b" "start_locked b ctx = Inr b'"
  shows "base_inv b'" "bc_started b'" "\<not> bc_ready b'" "bc_name b' = bc_name b"
    "bc_ctx b' = Some (Own (rt_next b) # ctx)"
  using assms by (fastforce simp: start_locked_def base_inv_def Let_def split: if_splits)+

text \<open>Stopping, as \<open>Stop\<close> and the rollback of \<open>Start\<close> do it, never panics.\<close>

definition stopped_state :: "base \<Rightarrow> base" where
  "stopped_state b = (case bc_stoppedCh b of
       None \<Rightarrow> (cancel_locked b)\<lparr>bc_started := False, bc_ready := False\<rparr>
     | Some c \<Rightarrow> (cancel_locked b)\<lparr>bc_started := False, bc_ready := False,
         rt_closed := insert c (rt_closed b), bc_stoppedCh := None\<rparr>)"

lemma cancel_locked_fields [simp]:
  "bc_stoppedCh (cancel_locked b) = bc_stoppedCh b" "bc_readyCh (cancel_locked b) = bc_readyCh b"
  "rt_closed (cancel_locked b) = rt_closed b" "rt_next (cancel_locked b) = rt_next b"
  "bc_started (cancel_locked b) = bc_started b" "bc_ready (cancel_locked b) = bc_ready b"
  "bc_ctx (cancel_locked b) = bc_ctx b" "bc_cancel (cancel_locked b) = None"
  "bc_name (cancel_locked b) = bc_name b"
  by (simp_all add: cancel_locked_def call_cancel_def split: option.splits)

lemma rt_cancelled_cancel_locked [simp]:
  "rt_cancelled (cancel_locked b) = (case bc_cancel b of None \<Rightarrow> rt_cancelled b
     | Some i \<Rightarrow> insert i (rt_cancelled b))"
  by (simp add: cancel_locked_def call_cancel_def split: option.splits)

lemma stopped_state_fields [simp]:
  "\<not> bc_started (stopped_state b)" "\<not> bc_ready (stopped_state b)"
  "bc_stoppedCh (stopped_state b) = None" "bc_cancel (stopped_state b) = None"
  "bc_ctx (stopped_state b) = bc_ctx b" "bc_readyCh (stopped_state b) = bc_readyCh b"
  "rt_next (stopped_state b) = rt_next b" "bc_name (stopped_state b) = bc_name b"
  "rt_closed (stopped_state b) = (case bc_stoppedCh b of None \<Rightarrow> rt_closed b
     | Some c \<Rightarrow> insert c (rt_closed b))"
  "rt_cancelled (stopped_state b) = (case bc_cancel b of None \<Rightarrow> rt_cancelled b
     | Some i \<Rightarrow> insert i (rt_cancelled b))"
  by (simp_all add: stopped_state_def split: option.splits)

lemma start_rollback_eq: "base_inv b \<Longrightarrow> start_rollback b = Ret (stopped_state b)"
  by (auto simp: start_rollback_def close_stopped_def stopped_state_def close_chan_def
      base_inv_def split: option.splits)

lemma stop_locked_eq:
  "base_inv b \<Longrightarrow> bc_started b \<Longrightarrow> stop_locked b = Ret (Inr (stopped_state b))"
  using start_rollback_eq [of b] by (simp add: stop_locked_def start_rollback_def)

lemma stop_locked_not_started:
  "\<not> bc_started b \<Longrightarrow> stop_locked b = Ret (Inl (''collector '' @ bc_name b @ '' not started''))"
  by (simp add: stop_locked_def)

lemma stopped_state_inv: "base_inv b \<Longrightarrow> base_inv (stopped_state b)"
  by (auto simp: base_inv_def split: option.splits)

lemma SetReady_started:
  assumes "base_inv b" "bc_started b"
  shows "\<exists>b'. SetReady b = Ret b' \<and> base_inv b' \<and> bc_ready b' \<and> bc_started b' \<and>
    bc_readyCh b' = bc_readyCh b \<and> bc_ctx b' = bc_ctx b \<and> rt_closed b \<subseteq> rt_closed b' \<and>
    rt_cancelled b' = rt_cancelled b"
  using assms by (auto simp: SetReady_def close_chan_def base_inv_def Let_def)

lemma SetReady_panics_iff:
  "SetReady b = Panic m \<longleftrightarrow>
     \<not> bc_ready b \<and> (\<exists>c. bc_readyCh b = Some c \<and> c \<in> rt_closed b) \<and>
     m = ''close of closed channel''"
  by (auto simp: SetReady_def close_chan_def Let_def split: option.splits)

lemma SetReady_inv: "base_inv b \<Longrightarrow> SetReady b = Ret b' \<Longrightarrow> base_inv b'"
  by (auto simp: SetReady_def close_chan_def base_inv_def Let_def split: option.splits if_splits)

lemma env_cancel_inv:
  "base_inv b \<Longrightarrow> base_inv (b\<lparr>rt_cancelled := insert (Env i) (rt_cancelled b)\<rparr>)"
  by (simp add: base_inv_def)

section \<open>Interleavings: starts, stops and poll loops\<close>

text \<open>
  A collector whose \<open>OnStart\<close> is \<open>go c.pollLoop(ctx)\<close>, as the polling collectors write
  it. A goroutine is in its first poll (\<open>Polling\<close>), after which it calls \<open>SetReady\<close>, or in
  its tick loop (\<open>Ticking\<close>), which it leaves when its context is done. \<open>sy_failing\<close>
  counts the starts whose hook failed and whose rollback has not run yet; \<open>sy_crash\<close> is
  the panic that took the process down.
\<close>

datatype loop_phase = Polling | Ticking | Exited

record base_sys =
  sy_base :: base
  sy_loops :: "(loop_phase \<times> ctx) list"
  sy_failing :: nat
  sy_crash :: "string option"

datatype sys_event =
    EvStart ctx
  | EvStartFailing ctx
  | EvRollback
  | EvStop
  | EvReady nat
  | EvExit nat
  | EvEnvCancel nat

definition base_sys_init :: "string \<Rightarrow> base_option list \<Rightarrow> base_sys" where
  "base_sys_init name opts =
     \<lparr> sy_base = NewBaseCollector name opts, sy_loops = [], sy_failing = 0, sy_crash = None \<rparr>"

definition crash_or :: "base_sys \<Rightarrow> 'a go \<Rightarrow> ('a \<Rightarrow> base_sys) \<Rightarrow> base_sys" where
  "crash_or s g f = (case g of Panic m \<Rightarrow> s\<lparr>sy_crash := Some m\<rparr> | Ret x \<Rightarrow> f x)"

fun base_event :: "base_sys \<Rightarrow> sys_event \<Rightarrow> base_sys option" where
  "base_event s (EvStart cx) = Some (case start_locked (sy_base s) cx of
       Inl _ \<Rightarrow> s
     | Inr b \<Rightarrow> s\<lparr>sy_base := b, sy_loops := sy_loops s @ [(Polling, the (bc_ctx b))]\<rparr>)"
| "base_event s (EvStartFailing cx) = Some (case start_locked (sy_base s) cx of
       Inl _ \<Rightarrow> s
     | Inr b \<Rightarrow> s\<lparr>sy_base := b, sy_failing := sy_failing s + 1\<rparr>)"
| "base_event s EvRollback =
     (if sy_failing s = 0 then None
      else Some (crash_or s (start_rollback (sy_base s))
             (\<lambda>b. s\<lparr>sy_base := b, sy_failing := sy_failing s - 1\<rparr>)))"
| "base_event s EvStop = Some (crash_or s (stop_locked (sy_base s))
       (\<lambda>r. case r of Inl _ \<Rightarrow> s | Inr b \<Rightarrow> s\<lparr>sy_base := b\<rparr>))"
| "base_event s (EvReady i) =
     (if i < length (sy_loops s) \<and> fst (sy_loops s ! i) = Polling
      then Some (crash_or s (SetReady (sy_base s))
             (\<lambda>b. s\<lparr>sy_base := b,
                    sy_loops := (sy_loops s)[i := (Ticking, snd (sy_loops s ! i))]\<rparr>))
      else None)"
| "base_event s (EvExit i) =
     (if i < length (sy_loops s) \<and> fst (sy_loops s ! i) = Ticking \<and>
         ctx_done (rt_cancelled (sy_base s)) (snd (sy_loops s ! i))
      then Some (s\<lparr>sy_loops := (sy_loops s)[i := (Exited, snd (sy_loops s ! i))]\<rparr>)
      else None)"
| "base_event s (EvEnvCancel i) = Some (s\<lparr>sy_base :=
       (sy_base s)\<lparr>rt_cancelled := insert (Env i) (rt_cancelled (sy_base s))\<rparr>\<rparr>)"

text \<open>Nothing runs after a crash.\<close>

inductive base_step :: "base_sys \<Rightarrow> sys_event \<Rightarrow> base_sys \<Rightarrow> bool" where
  "sy_crash s = None \<Longrightarrow> base_event s e = Some t \<Longrightarrow> base_step s e t"

inductive_cases base_stepE: "base_step s e t"
inductive_simps base_step_iff: "base_step s e t"

inductive base_reach :: "base_sys \<Rightarrow> bool" where
  init: "base_reach (base_sys_init name opts)"
| step: "base_reach s \<Longrightarrow> base_step s e t \<Longrightarrow> base_reach t"

fun base_run :: "base_sys \<Rightarrow> sys_event list \<Rightarrow> base_sys option" where
  "base_run s [] = Some s"
| "base_run s (e # es) =
     (if sy_crash s \<noteq> None then None
      else case base_event s e of None \<Rightarrow> None | Some t \<Rightarrow> base_run t es)"

lemma base_run_reach: "base_reach s \<Longrightarrow> base_run s es = Some t \<Longrightarrow> base_reach t"
proof (induction es arbitrary: s)
  case (Cons e es)
  from Cons.prems(2) obtain u where "base_step s e u" "base_run u es = Some t"
    by (auto split: if_splits option.splits simp: base_step_iff)
  with Cons show ?case by (blast intro: base_reach.step)
qed simp

lemma base_event_inv:
  assumes "base_inv (sy_base s)" "base_event s e = Some t"
  shows "base_inv (sy_base t)"
proof (cases e)
  case (EvStart cx)
  with assms show ?thesis
    by (auto dest: start_locked_inv(1) split: sum.splits)
next
  case (EvStartFailing cx)
  with assms show ?thesis
    by (auto dest: start_locked_inv(1) split: sum.splits)
next
  case EvRollback
  with assms show ?thesis
    by (auto simp: start_rollback_eq crash_or_def stopped_state_inv split: if_splits)
next
  case EvStop
  with assms show ?thesis
    by (cases "bc_started (sy_base s)")
      (auto simp: stop_locked_eq stop_locked_not_started crash_or_def stopped_state_inv)
next
  case (EvReady i)
  with assms show ?thesis
    by (auto simp: crash_or_def SetReady_inv split: if_splits go.splits)
qed (use assms in \<open>auto simp: env_cancel_inv split: if_splits\<close>)

lemma base_reach_inv: "base_reach s \<Longrightarrow> base_inv (sy_base s)"
proof (induction rule: base_reach.induct)
  case (init name opts)
  show ?case by (simp add: base_sys_init_def base_inv_New)
next
  case (step s e t)
  then show ?case by (auto simp: base_step_iff intro: base_event_inv)
qed

lemma base_event_crash:
  assumes "base_inv (sy_base s)" "sy_crash s = None" "base_event s e = Some t" "sy_crash t = Some m"
  shows "\<exists>i. e = EvReady i \<and> \<not> bc_started (sy_base s) \<and> m = ''close of closed channel''"
proof (cases e)
  case EvStop
  with assms show ?thesis
    by (cases "bc_started (sy_base s)")
      (auto simp: stop_locked_eq stop_locked_not_started crash_or_def)
next
  case (EvReady i)
  with assms have "SetReady (sy_base s) = Panic m"
    by (auto simp: crash_or_def split: if_splits go.splits)
  moreover have "\<not> bc_started (sy_base s)"
    using SetReady_started [OF assms(1)] calculation by auto
  ultimately show ?thesis using EvReady by (simp add: SetReady_panics_iff)
qed (use assms in \<open>auto simp: start_rollback_eq crash_or_def split: if_splits sum.splits\<close>)

lemma base_event_closed_mono:
  assumes "base_inv (sy_base s)" "base_event s e = Some t"
  shows "rt_closed (sy_base s) \<subseteq> rt_closed (sy_base t)"
proof (cases e)
  case EvRollback
  with assms show ?thesis
    by (auto simp: start_rollback_eq crash_or_def split: if_splits option.splits)
next
  case EvStop
  with assms show ?thesis
    by (cases "bc_started (sy_base s)")
      (auto simp: stop_locked_eq stop_locked_not_started crash_or_def split: option.splits)
next
  case (EvReady i)
  with assms show ?thesis
    by (auto simp: crash_or_def SetReady_def close_chan_def Let_def
        split: if_splits go.splits option.splits)
qed (use assms in \<open>auto simp: start_locked_def Let_def split: if_splits sum.splits\<close>)

lemma base_run_closed_mono:
  "base_inv (sy_base s) \<Longrightarrow> base_run s es = Some t
     \<Longrightarrow> base_inv (sy_base t) \<and> rt_closed (sy_base s) \<subseteq> rt_closed (sy_base t)"
proof (induction es arbitrary: s)
  case (Cons e es)
  from Cons.prems(2) obtain u where u: "base_event s e = Some u" "base_run u es = Some t"
    by (auto split: if_splits option.splits)
  with Cons.prems(1) have "base_inv (sy_base u)" by (blast intro: base_event_inv)
  with Cons.IH [OF _ u(2)] base_event_closed_mono [OF Cons.prems(1) u(1)] show ?case by blast
qed simp

section \<open>Properties of the lifecycle\<close>

text \<open>C11. In every reachable interleaving of starts, failing starts, rollbacks, stops and poll
  loops the lifecycle invariant holds, \<open>Stop\<close> and the rollback of \<open>Start\<close> never
  panic, \<open>SetReady\<close> of a started collector never panics, and a collector that was started
  and whose parent context is alive is healthy without hooks.
\<close>

theorem lifecycle_invariant:
  assumes "base_reach s"
  shows "base_inv (sy_base s) \<and> returns (stop_locked (sy_base s)) \<and>
    returns (start_rollback (sy_base s)) \<and>
    (bc_started (sy_base s) \<longrightarrow> returns (SetReady (sy_base s))) \<and>
    (\<forall>n cx. bc_started (sy_base s) \<and> bc_ctx (sy_base s) = Some (n # cx) \<and>
       \<not> ctx_done (rt_cancelled (sy_base s)) cx \<longrightarrow> Health None (sy_base s) = None)"
proof -
  have inv: "base_inv (sy_base s)" by (rule base_reach_inv [OF assms])
  have "returns (stop_locked (sy_base s))"
    by (cases "bc_started (sy_base s)") (simp_all add: stop_locked_eq inv stop_locked_not_started)
  moreover have "returns (start_rollback (sy_base s))" by (simp add: start_rollback_eq inv)
  moreover have "bc_started (sy_base s) \<longrightarrow> returns (SetReady (sy_base s))"
    using SetReady_started [OF inv] by auto
  moreover have "Health None (sy_base s) = None"
    if "bc_started (sy_base s)" "bc_ctx (sy_base s) = Some (n # cx)"
      "\<not> ctx_done (rt_cancelled (sy_base s)) cx" for n cx
    using inv that by (auto simp: Health_def base_inv_def)
  ultimately show ?thesis using inv by blast
qed

definition demo_sys :: base_sys where
  "demo_sys = base_sys_init ''domain'' [WithWaitReadyOnCollect True]"

theorem lifecycle_invariant_witness:
  "base_reach demo_sys \<and> base_inv (sy_base demo_sys)"
proof -
  have r: "base_reach demo_sys" unfolding demo_sys_def by (rule base_reach.init)
  from lifecycle_invariant [OF r] r show ?thesis by blast
qed

text \<open>C12. The only panic of the lifecycle is \<open>SetReady\<close> called by a poll loop after the
  collector was stopped: a step that crashes the process is the end of the first poll of some
  loop, and the collector is not started at that moment.
\<close>

theorem crash_only_from_stale_SetReady:
  assumes "base_reach s" and "base_step s e t" and "sy_crash t = Some m"
  shows "\<exists>i. e = EvReady i \<and> \<not> bc_started (sy_base s) \<and> \<not> bc_ready (sy_base s) \<and>
    m = ''close of closed channel''"
proof -
  from assms(2) have c: "sy_crash s = None" and ev: "base_event s e = Some t"
    by (auto elim: base_stepE)
  from base_event_crash [OF base_reach_inv [OF assms(1)] c ev assms(3)]
  obtain i where i: "e = EvReady i" "\<not> bc_started (sy_base s)" "m = ''close of closed channel''"
    by blast
  moreover have "\<not> bc_ready (sy_base s)"
    using ev assms(3) c i(1) by (auto simp: crash_or_def SetReady_def split: if_splits)
  ultimately show ?thesis by blast
qed

definition stale_run :: "sys_event list" where
  "stale_run = [EvStart [], EvStop, EvStart [], EvReady 0, EvStop]"

definition stale_sys :: base_sys where
  "stale_sys = the (base_run demo_sys stale_run)"

lemmas base_eval = demo_sys_def stale_run_def base_sys_init_def NewBaseCollector_def
  start_locked_def stop_locked_def start_rollback_def close_stopped_def cancel_locked_def
  call_cancel_def close_chan_def SetReady_def crash_or_def Let_def

lemma stale_run_ok: "base_run demo_sys stale_run = Some stale_sys"
  unfolding stale_sys_def by (simp add: base_eval)

theorem crash_only_from_stale_SetReady_witness:
  "\<exists>t m i. base_step stale_sys (EvReady 1) t \<and> sy_crash t = Some m \<and> EvReady 1 = EvReady i \<and>
     \<not> bc_started (sy_base stale_sys)"
proof -
  have r: "base_reach stale_sys"
    using base_run_reach [OF base_reach.init stale_run_ok [unfolded demo_sys_def]] .
  obtain t where t: "base_step stale_sys (EvReady 1) t" "sy_crash t = Some ''close of closed channel''"
    unfolding stale_sys_def base_step_iff by (simp add: base_eval)
  from crash_only_from_stale_SetReady [OF r t] t show ?thesis by blast
qed

section \<open>Waiters and first polls\<close>

text \<open>The two channels of a cycle are allocated side by side.\<close>

definition chan_pair :: "base \<Rightarrow> bool" where
  "chan_pair b \<longleftrightarrow> (\<forall>rc sc. bc_readyCh b = Some rc \<and> bc_stoppedCh b = Some sc \<longrightarrow> sc = rc + 1)"

lemma base_event_chan_pair:
  assumes "base_inv (sy_base s)" "chan_pair (sy_base s)" "base_event s e = Some t"
  shows "chan_pair (sy_base t)"
proof (cases e)
  case EvRollback
  with assms show ?thesis
    by (auto simp: start_rollback_eq crash_or_def chan_pair_def split: if_splits option.splits)
next
  case EvStop
  with assms show ?thesis
    by (cases "bc_started (sy_base s)")
      (auto simp: stop_locked_eq stop_locked_not_started crash_or_def chan_pair_def
        split: option.splits)
next
  case (EvReady i)
  with assms show ?thesis
    by (auto simp: crash_or_def SetReady_def close_chan_def Let_def chan_pair_def
        split: if_splits go.splits option.splits)
qed (use assms in \<open>auto simp: start_locked_def Let_def chan_pair_def split: if_splits sum.splits\<close>)

lemma base_reach_chan_pair: "base_reach s \<Longrightarrow> chan_pair (sy_base s)"
proof (induction rule: base_reach.induct)
  case (init name opts)
  have "bc_stoppedCh (foldl apply_base_option b opts) = bc_stoppedCh b" for b
  proof (induction opts arbitrary: b)
    case (Cons x xs)
    then show ?case by (cases x) simp_all
  qed simp
  then show ?case by (simp add: base_sys_init_def NewBaseCollector_def chan_pair_def)
next
  case (step s e t)
  then show ?case
    by (auto simp: base_step_iff dest: base_reach_inv intro: base_event_chan_pair)
qed

text \<open>The cycle with channels \<open>rc\<close> and \<open>sc\<close> is over or is the current one.\<close>

definition cycle_kept :: "chan \<Rightarrow> chan \<Rightarrow> base \<Rightarrow> bool" where
  "cycle_kept rc sc b \<longleftrightarrow> sc \<in> rt_closed b \<or>
     (bc_started b \<and> bc_readyCh b = Some rc \<and> bc_stoppedCh b = Some sc)"

lemma base_event_cycle_kept:
  assumes "base_inv (sy_base s)" "cycle_kept rc sc (sy_base s)" "base_event s e = Some t"
  shows "cycle_kept rc sc (sy_base t)"
proof (cases e)
  case EvRollback
  with assms show ?thesis
    by (auto simp: start_rollback_eq crash_or_def cycle_kept_def split: if_splits option.splits)
next
  case EvStop
  with assms show ?thesis
    by (cases "bc_started (sy_base s)")
      (auto simp: stop_locked_eq stop_locked_not_started crash_or_def cycle_kept_def
        split: option.splits)
next
  case (EvReady i)
  with assms show ?thesis
    by (auto simp: crash_or_def SetReady_def close_chan_def Let_def cycle_kept_def
        split: if_splits go.splits option.splits)
qed (use assms in \<open>auto simp: start_locked_def Let_def cycle_kept_def split: if_splits sum.splits\<close>)

lemma base_run_cycle_kept:
  "base_inv (sy_base s) \<Longrightarrow> cycle_kept rc sc (sy_base s) \<Longrightarrow> base_run s es = Some t
     \<Longrightarrow> cycle_kept rc sc (sy_base t)"
proof (induction es arbitrary: s)
  case (Cons e es)
  from Cons.prems(3) obtain u where u: "base_event s e = Some u" "base_run u es = Some t"
    by (auto split: if_splits option.splits)
  show ?case
    by (rule Cons.IH [OF base_event_inv [OF Cons.prems(1) u(1)]
          base_event_cycle_kept [OF Cons.prems(1,2) u(1)] u(2)])
qed simp

text \<open>C13. A \<open>WaitReady\<close> call is never forgotten: one that began waiting in some cycle stays
  blocked, at any later moment of any interleaving, exactly while that cycle is still the
  current one, is not ready, and the caller's context is alive. A stop, a rollback, a restart,
  the readiness of its cycle and the end of its context each release it.
\<close>

theorem waiters_are_released:
  assumes "base_reach s" and "bc_started (sy_base s)" and "\<not> bc_ready (sy_base s)"
    and "base_run s es = Some t"
  shows "WaitReady (sy_base s) (sy_base t) cx = [] \<longleftrightarrow>
     bc_started (sy_base t) \<and> \<not> bc_ready (sy_base t) \<and>
     bc_readyCh (sy_base t) = bc_readyCh (sy_base s) \<and> \<not> ctx_done (rt_cancelled (sy_base t)) cx"
proof -
  have inv: "base_inv (sy_base s)" and pair: "chan_pair (sy_base t)"
    using base_reach_inv base_reach_chan_pair base_run_reach [OF assms(1,4)] assms(1) by auto
  have invt: "base_inv (sy_base t)"
    by (rule base_reach_inv [OF base_run_reach [OF assms(1,4)]])
  obtain rc sc where ch: "bc_readyCh (sy_base s) = Some rc" "bc_stoppedCh (sy_base s) = Some sc"
    using inv assms(2) by (auto simp: base_inv_def)
  have sc: "sc = rc + 1"
    using base_reach_chan_pair [OF assms(1)] ch by (simp add: chan_pair_def)
  have kept: "cycle_kept rc sc (sy_base t)"
    by (rule base_run_cycle_kept [OF inv _ assms(4)]) (simp add: cycle_kept_def ch assms(2))
  have ready: "bc_started (sy_base t) \<and> bc_readyCh (sy_base t) = Some rc \<Longrightarrow>
      sc \<notin> rt_closed (sy_base t) \<and> (bc_ready (sy_base t) \<longleftrightarrow> rc \<in> rt_closed (sy_base t))"
    using invt pair sc by (auto simp: base_inv_def chan_pair_def)
  have "WaitReady (sy_base s) (sy_base t) cx = [] \<longleftrightarrow> rc \<notin> rt_closed (sy_base t) \<and>
      sc \<notin> rt_closed (sy_base t) \<and> \<not> ctx_done (rt_cancelled (sy_base t)) cx"
    using assms(3) ch by (auto simp: WaitReady_def wait_select_def)
  with kept ready ch show ?thesis by (auto simp: cycle_kept_def)
qed

theorem waiters_are_released_witness:
  "\<exists>s t. base_reach s \<and> base_run s [EvStop] = Some t \<and>
     WaitReady (sy_base s) (sy_base t) [] \<noteq> [] \<and> WaitReady (sy_base s) (sy_base s) [] = []"
proof -
  define s where "s = the (base_event demo_sys (EvStart []))"
  have s: "base_run demo_sys [EvStart []] = Some s" unfolding s_def by (simp add: base_eval)
  have r: "base_reach s" using base_run_reach [OF base_reach.init s [unfolded demo_sys_def]] .
  have st: "bc_started (sy_base s)" "\<not> bc_ready (sy_base s)" unfolding s_def by (simp_all add: base_eval)
  obtain t where t: "base_run s [EvStop] = Some t" "\<not> bc_started (sy_base t)"
    unfolding s_def by (simp add: base_eval)
  have "WaitReady (sy_base s) (sy_base t) [] \<noteq> []"
    using waiters_are_released [OF r st t(1)] t(2) by blast
  moreover have "WaitReady (sy_base s) (sy_base s) [] = []"
    using waiters_are_released [OF r st, of "[]" s "[]"] st by simp
  ultimately show ?thesis using r t(1) by blast
qed

text \<open>
  A start is calm when no earlier loop is still in its first poll. In calm runs there is at
  most one loop in its first poll, and the channel it will close is open.
\<close>

fun calm_event :: "base_sys \<Rightarrow> sys_event \<Rightarrow> bool" where
  "calm_event s (EvStart cx) = (Polling \<notin> fst ` set (sy_loops s))"
| "calm_event s (EvStartFailing cx) = (Polling \<notin> fst ` set (sy_loops s))"
| "calm_event s _ = True"

fun calm_run :: "base_sys \<Rightarrow> sys_event list \<Rightarrow> bool" where
  "calm_run s [] = True"
| "calm_run s (e # es) = (calm_event s e \<and>
     (case base_event s e of None \<Rightarrow> False | Some t \<Rightarrow> calm_run t es))"

text \<open>The loops that are in their first poll.\<close>

definition pollers :: "(loop_phase \<times> ctx) list \<Rightarrow> nat set" where
  "pollers ls = {i. i < length ls \<and> fst (ls ! i) = Polling}"

lemma pollers_append: "pollers (ls @ [(Polling, c)]) = insert (length ls) (pollers ls)"
  by (auto simp: pollers_def nth_append)

lemma pollers_update: "p \<noteq> Polling \<Longrightarrow> pollers (ls[i := (p, c)]) = pollers ls - {i}"
  by (cases "i < length ls") (auto simp: pollers_def nth_list_update split: if_splits)

lemma polling_nth: "Polling \<in> fst ` set ls \<longleftrightarrow> pollers ls \<noteq> {}"
  unfolding pollers_def set_map [symmetric] in_set_conv_nth by auto

definition calm_inv :: "base_sys \<Rightarrow> bool" where
  "calm_inv s \<longleftrightarrow>
     base_inv (sy_base s) \<and> sy_crash s = None \<and>
     (\<forall>i \<in> pollers (sy_loops s). \<forall>j \<in> pollers (sy_loops s). i = j) \<and>
     (pollers (sy_loops s) \<noteq> {} \<longrightarrow> \<not> bc_ready (sy_base s) \<and>
        (\<exists>rc. bc_readyCh (sy_base s) = Some rc \<and> rc \<notin> rt_closed (sy_base s)))"

lemma calm_inv_start:
  assumes "calm_inv s" "Polling \<notin> fst ` set (sy_loops s)"
    "start_locked (sy_base s) cx = Inr b"
  shows "calm_inv (s\<lparr>sy_base := b, sy_loops := sy_loops s @ [(Polling, c)]\<rparr>)"
    "calm_inv (s\<lparr>sy_base := b, sy_failing := n\<rparr>)"
proof -
  have b: "base_inv b" "\<not> bc_ready b" "bc_readyCh b = Some (rt_next (sy_base s) + 1)"
    "rt_closed b = rt_closed (sy_base s)"
    using assms by (auto simp: calm_inv_def dest: start_locked_inv)
      (auto simp: start_locked_def Let_def split: if_splits)
  moreover have "rt_next (sy_base s) + 1 \<notin> rt_closed (sy_base s)"
    using assms(1) by (auto simp: calm_inv_def base_inv_def)
  ultimately show "calm_inv (s\<lparr>sy_base := b, sy_loops := sy_loops s @ [(Polling, c)]\<rparr>)"
    using assms(1,2) by (simp add: calm_inv_def polling_nth pollers_append)
  show "calm_inv (s\<lparr>sy_base := b, sy_failing := n\<rparr>)"
    using b assms(1,2) by (simp add: calm_inv_def polling_nth)
qed

lemma calm_inv_stopped:
  assumes "calm_inv s"
  shows "calm_inv (s\<lparr>sy_base := stopped_state (sy_base s), sy_failing := n\<rparr>)"
proof -
  let ?b = "stopped_state (sy_base s)"
  have base: "base_inv (sy_base s)" using assms by (simp add: calm_inv_def)
  have "\<not> bc_ready ?b" "bc_readyCh ?b = bc_readyCh (sy_base s)"
    by (simp_all add: stopped_state_def cancel_locked_def call_cancel_def split: option.split)
  moreover have "rt_closed ?b \<subseteq> rt_closed (sy_base s) \<union> set_option (bc_stoppedCh (sy_base s))"
    by (auto simp: stopped_state_def cancel_locked_def call_cancel_def split: option.split)
  moreover have "bc_stoppedCh (sy_base s) = Some c \<Longrightarrow> bc_readyCh (sy_base s) \<noteq> Some c" for c
    using base by (auto simp: base_inv_def)
  ultimately have "\<not> bc_ready ?b" "bc_readyCh (sy_base s) = Some rc \<Longrightarrow> rc \<notin> rt_closed (sy_base s) \<Longrightarrow>
      bc_readyCh ?b = Some rc \<and> rc \<notin> rt_closed ?b" for rc
    by (auto elim!: option.set_cases)
  with assms stopped_state_inv [OF base] show ?thesis by (auto simp: calm_inv_def)
qed

lemma calm_event_inv:
  assumes "calm_inv s" "calm_event s e" "base_event s e = Some t"
  shows "calm_inv t"
proof (cases e)
  case (EvStart cx)
  with assms show ?thesis by (auto simp: calm_inv_start(1) split: sum.splits)
next
  case (EvStartFailing cx)
  with assms show ?thesis by (auto simp: calm_inv_start(2) split: sum.splits)
next
  case EvRollback
  with assms have "t = s\<lparr>sy_base := stopped_state (sy_base s), sy_failing := sy_failing s - 1\<rparr>"
    by (auto simp: calm_inv_def start_rollback_eq crash_or_def split: if_splits)
  then show ?thesis by (simp only: calm_inv_stopped [OF assms(1)])
next
  case EvStop
  have "calm_inv (s\<lparr>sy_base := stopped_state (sy_base s)\<rparr>)"
    using calm_inv_stopped [OF assms(1), of "sy_failing s"] by simp
  with EvStop assms show ?thesis
    by (cases "bc_started (sy_base s)")
      (auto simp: calm_inv_def stop_locked_eq stop_locked_not_started crash_or_def)
next
  case (EvReady i)
  with assms(3) have i: "i < length (sy_loops s)" "fst (sy_loops s ! i) = Polling"
    by (auto split: if_splits)
  then have p: "i \<in> pollers (sy_loops s)" by (simp add: pollers_def)
  then obtain rc where rc: "\<not> bc_ready (sy_base s)" "bc_readyCh (sy_base s) = Some rc"
      "rc \<notin> rt_closed (sy_base s)"
    using assms(1) by (auto simp: calm_inv_def)
  then obtain b where b: "SetReady (sy_base s) = Ret b"
    by (simp add: SetReady_def close_chan_def)
  have t: "t = s\<lparr>sy_base := b, sy_loops := (sy_loops s)[i := (Ticking, snd (sy_loops s ! i))]\<rparr>"
    using EvReady assms(3) i b by (simp add: crash_or_def)
  have "pollers (sy_loops s) - {i} = {}" using assms(1) p by (auto simp: calm_inv_def)
  then have none: "pollers ((sy_loops s)[i := (Ticking, c)]) = {}" for c by (simp add: pollers_update)
  have "base_inv b" "sy_crash s = None"
    using SetReady_inv b assms(1) by (auto simp: calm_inv_def)
  with none show ?thesis unfolding t by (simp add: calm_inv_def)
next
  case (EvExit i)
  with assms(3) have i: "i < length (sy_loops s)" "fst (sy_loops s ! i) = Ticking"
    and t: "t = s\<lparr>sy_loops := (sy_loops s)[i := (Exited, snd (sy_loops s ! i))]\<rparr>"
    by (auto split: if_splits)
  have "pollers ((sy_loops s)[i := (Exited, c)]) = pollers (sy_loops s)" for c
    using i by (simp add: pollers_update) (auto simp: pollers_def)
  with assms(1) show ?thesis unfolding t by (simp add: calm_inv_def)
next
  case (EvEnvCancel i)
  with assms show ?thesis by (auto simp: calm_inv_def env_cancel_inv)
qed

lemma calm_run_inv: "calm_inv s \<Longrightarrow> calm_run s es \<Longrightarrow> \<exists>t. base_run s es = Some t \<and> calm_inv t"
proof (induction es arbitrary: s)
  case (Cons e es)
  from Cons.prems(2) obtain u where u: "calm_event s e" "base_event s e = Some u" "calm_run u es"
    by (auto split: option.splits)
  have "calm_inv u" by (rule calm_event_inv [OF Cons.prems(1) u(1,2)])
  from Cons.IH [OF this u(3)] Cons.prems(1) u(2) show ?case by (auto simp: calm_inv_def)
qed simp

text \<open>C15. As long as no start overlaps the first poll of an earlier loop, a collector never
  crashes, however starts, failing starts, rollbacks, stops, loop exits and cancellations
  interleave, and a collector that is started and ready has no first poll outstanding: ready
  means that the data of the current cycle is there. The overlapping case is the one of the
  property on crashes.
\<close>

theorem calm_runs_are_safe:
  assumes "calm_run (base_sys_init name opts) es"
  shows "\<exists>t. base_run (base_sys_init name opts) es = Some t \<and> sy_crash t = None \<and>
    (bc_started (sy_base t) \<and> bc_ready (sy_base t) \<longrightarrow> Polling \<notin> fst ` set (sy_loops t))"
proof -
  have "calm_inv (base_sys_init name opts)"
    by (simp add: calm_inv_def base_sys_init_def base_inv_New pollers_def)
  from calm_run_inv [OF this assms] show ?thesis by (auto simp: calm_inv_def polling_nth)
qed

theorem calm_runs_are_safe_witness:
  "calm_run demo_sys [EvStart [], EvStop, EvReady 0, EvStart []] \<and> \<not> calm_run demo_sys stale_run \<and>
   (\<exists>t. base_run demo_sys [EvStart [], EvStop, EvReady 0, EvStart []] = Some t \<and> sy_crash t = None)"
proof -
  have c: "calm_run demo_sys [EvStart [], EvStop, EvReady 0, EvStart []]"
    by (simp add: base_eval)
  moreover have "\<not> calm_run demo_sys stale_run" by (simp add: base_eval)
  ultimately show ?thesis using calm_runs_are_safe [OF c [unfolded demo_sys_def]]
    unfolding demo_sys_def by blast
qed

end
