(* ===== verification/Collector_Registry.thy ===== *)
theory Collector_Registry
  imports Base_Collector Identity Config_Loading "HOL-Library.Multiset"
begin

text \<open>
  \<open>pkg/registry\<close> and the interface of \<open>pkg/collector/interfaces.go\<close>: creation of the enabled
  collectors from their factories, starting and stopping them by leadership requirement, and
  the Prometheus collector that gathers from all of them. The registry calls its collectors
  through an interface value; \<open>collector_contract\<close> states what the calls promise, and the
  collectors that embed \<open>BaseCollector\<close> are its instance.
\<close>

section \<open>The collector interface\<close>

record ('c, 'm) collector_iface =
  ci_requires :: "'c \<Rightarrow> bool"
  ci_start :: "ctx \<Rightarrow> 'c \<Rightarrow> (err option \<times> 'c) go"
  ci_stop :: "'c \<Rightarrow> (err option \<times> 'c) go"
  ci_describe :: "'c \<Rightarrow> string list"
  ci_collect :: "'c \<Rightarrow> 'm emission"
  ci_health :: "'c \<Rightarrow> err option"

definition nil_deref :: "'a go" where
  "nil_deref = Panic ''invalid memory address or nil pointer dereference''"

record client_config =
  cl_Kubeconfig :: string
  cl_QPS :: f32
  cl_Burst :: int

record factory_context =
  fc_Ctx :: ctx
  fc_Content :: "string option"
  fc_ClientProvider :: "client_config option"
  fc_Identity :: string
  fc_NodeName :: string
  fc_PodName :: string
  fc_MetricsNamespace :: string
  fc_InformerResyncPeriod :: int
  fc_collector :: string

record init_config =
  ic_Ctx :: ctx
  ic_ClientProvider :: "client_config option"
  ic_ConfigContent :: string
  ic_Identity :: string
  ic_NodeName :: string
  ic_PodName :: string
  ic_MetricsNamespace :: string
  ic_InformerResyncPeriod :: int
  ic_EnabledCollectors :: "string list"

section \<open>The registry\<close>

text \<open>A factory returns an interface value or an error; the interface value may be nil
  (\<open>None\<close>).\<close>

type_synonym 'c factory = "factory_context \<Rightarrow> 'c option res"

record 'c registry =
  rg_factories :: "string \<Rightarrow> 'c factory option"
  rg_collectors :: "string \<Rightarrow> 'c option option"
  rg_failed :: "string \<Rightarrow> err option"
  rg_instance :: string

definition GetRegistry :: "'c registry" where
  "GetRegistry = \<lparr>rg_factories = Map.empty, rg_collectors = Map.empty, rg_failed = Map.empty,
     rg_instance = ''''\<rparr>"

definition Register :: "string \<Rightarrow> 'c factory \<Rightarrow> 'c registry \<Rightarrow> 'c registry" where
  "Register name f r = r\<lparr>rg_factories := (rg_factories r)(name \<mapsto> f)\<rparr>"

definition MustRegister :: "string \<Rightarrow> 'c factory option \<Rightarrow> 'c registry \<Rightarrow> 'c registry go" where
  "MustRegister name f r =
     (if name = '''' then Panic ''collector name cannot be empty''
      else case f of None \<Rightarrow> Panic (''collector factory for '' @ name @ '' cannot be nil'')
         | Some g \<Rightarrow> Ret (Register name g r))"

definition factory_ctx :: "init_config \<Rightarrow> string \<Rightarrow> string \<Rightarrow> factory_context" where
  "factory_ctx cfg instance name =
     \<lparr> fc_Ctx = ic_Ctx cfg,
       fc_Content = (if length (ic_ConfigContent cfg) > 0 then Some (ic_ConfigContent cfg) else None),
       fc_ClientProvider = ic_ClientProvider cfg, fc_Identity = instance,
       fc_NodeName = ic_NodeName cfg, fc_PodName = ic_PodName cfg,
       fc_MetricsNamespace = ic_MetricsNamespace cfg,
       fc_InformerResyncPeriod = ic_InformerResyncPeriod cfg, fc_collector = name \<rparr>"

text \<open>One pass over the enabled names, in their order.\<close>

definition create_one :: "init_config \<Rightarrow> 'c registry \<Rightarrow> string \<Rightarrow> 'c registry" where
  "create_one cfg r name = (case rg_factories r name of
       None \<Rightarrow> r\<lparr>rg_failed := (rg_failed r)(name \<mapsto> ''collector factory not found'')\<rparr>
     | Some factory \<Rightarrow> (case factory (factory_ctx cfg (rg_instance r) name) of
           Inl e \<Rightarrow> r\<lparr>rg_failed := (rg_failed r)(name \<mapsto> e)\<rparr>
         | Inr c \<Rightarrow> r\<lparr>rg_collectors := (rg_collectors r)(name \<mapsto> c)\<rparr>))"

text \<open>The identity comes from the package \<open>identity\<close>, whose cache is threaded.\<close>

definition createCollectors :: "host_env \<Rightarrow> init_config \<Rightarrow> 'c registry \<Rightarrow> identity_state
    \<Rightarrow> 'c registry \<times> identity_state" where
  "createCollectors h cfg r st =
     (let (i, st') = GetWithConfig h st (ic_Identity cfg) (ic_NodeName cfg) (ic_PodName cfg)
      in (foldl (create_one cfg) (r\<lparr>rg_instance := i\<rparr>) (ic_EnabledCollectors cfg), st'))"

definition Initialize :: "host_env \<Rightarrow> init_config \<Rightarrow> 'c registry \<Rightarrow> identity_state
    \<Rightarrow> err option \<times> 'c registry \<times> identity_state" where
  "Initialize h cfg r st =
     (if rg_collectors r \<noteq> Map.empty then (Some ''registry already initialized'', r, st)
      else (None, createCollectors h cfg r st))"

definition Reinitialize :: "host_env \<Rightarrow> init_config \<Rightarrow> 'c registry \<Rightarrow> identity_state
    \<Rightarrow> 'c registry \<times> identity_state" where
  "Reinitialize h cfg r st =
     createCollectors h cfg (r\<lparr>rg_collectors := Map.empty, rg_failed := Map.empty\<rparr>) st"

section \<open>Starting and stopping\<close>

text \<open>
  The loops over the map visit the names in some order, an argument that enumerates the
  domain. A method call on a nil interface value panics.
\<close>

definition iter_order :: "string list \<Rightarrow> (string \<Rightarrow> 'v option) \<Rightarrow> bool" where
  "iter_order ns m \<longleftrightarrow> distinct ns \<and> set ns = dom m"

fun select_names :: "('c, 'm) collector_iface \<Rightarrow> (string \<Rightarrow> 'c option option) \<Rightarrow> bool option
    \<Rightarrow> string list \<Rightarrow> string list go" where
  "select_names I cs req [] = Ret []"
| "select_names I cs req (n # ns) =
     bind_go (case req of None \<Rightarrow> Ret True
              | Some b \<Rightarrow> (case cs n of Some (Some c) \<Rightarrow> Ret (b = ci_requires I c) | _ \<Rightarrow> nil_deref))
       (\<lambda>take. bind_go (select_names I cs req ns) (\<lambda>rest. Ret (if take then n # rest else rest)))"

text \<open>Calling one method, \<open>Start\<close> or \<open>Stop\<close>, on each name in turn, collecting the errors.\<close>

fun call_each :: "('c \<Rightarrow> (err option \<times> 'c) go) \<Rightarrow> string \<Rightarrow> string list \<Rightarrow> (string \<Rightarrow> 'c option option)
    \<Rightarrow> (err list \<times> (string \<Rightarrow> 'c option option)) go" where
  "call_each f verb [] cs = Ret ([], cs)"
| "call_each f verb (n # ns) cs = (case cs n of
     Some (Some c) \<Rightarrow> bind_go (f c) (\<lambda>(e, c').
       bind_go (call_each f verb ns (cs(n \<mapsto> Some c'))) (\<lambda>(es, cs'). Ret (case e of
           None \<Rightarrow> (es, cs')
         | Some m \<Rightarrow> ((''failed to '' @ verb @ '' collector '' @ n @ '': '' @ m) # es, cs'))))
   | _ \<Rightarrow> nil_deref)"

definition errs_result :: "string \<Rightarrow> err list \<Rightarrow> err option" where
  "errs_result verb errs = (if errs = [] then None
     else Some (''failed to '' @ verb @ '' '' @ Itoa (int (length errs)) @ '' collector(s): ['' @
            Join '' '' errs @ '']''))"

definition call_selected :: "('c, 'm) collector_iface \<Rightarrow> ('c \<Rightarrow> (err option \<times> 'c) go) \<Rightarrow> string
    \<Rightarrow> bool option \<Rightarrow> string list \<Rightarrow> 'c registry \<Rightarrow> (err option \<times> 'c registry) go" where
  "call_selected I f verb req ns r =
     (if rg_collectors r = Map.empty then Ret (None, r)
      else bind_go (select_names I (rg_collectors r) req ns) (\<lambda>sel.
           bind_go (call_each f verb sel (rg_collectors r)) (\<lambda>(errs, cs).
             Ret (errs_result verb errs, r\<lparr>rg_collectors := cs\<rparr>))))"

definition startCollectors :: "('c, 'm) collector_iface \<Rightarrow> ctx \<Rightarrow> bool option \<Rightarrow> string list
    \<Rightarrow> 'c registry \<Rightarrow> (err option \<times> 'c registry) go" where
  "startCollectors I ctx req ns r = call_selected I (ci_start I ctx) ''start'' req ns r"

definition registry_Start :: "('c, 'm) collector_iface \<Rightarrow> ctx \<Rightarrow> string list
    \<Rightarrow> 'c registry \<Rightarrow> (err option \<times> 'c registry) go" where
  "registry_Start I ctx ns r = startCollectors I ctx None ns r"

definition StartNonLeaderCollectors :: "('c, 'm) collector_iface \<Rightarrow> ctx \<Rightarrow> string list
    \<Rightarrow> 'c registry \<Rightarrow> (err option \<times> 'c registry) go" where
  "StartNonLeaderCollectors I ctx ns r = startCollectors I ctx (Some False) ns r"

definition StartLeaderCollectors :: "('c, 'm) collector_iface \<Rightarrow> ctx \<Rightarrow> string list
    \<Rightarrow> 'c registry \<Rightarrow> (err option \<times> 'c registry) go" where
  "StartLeaderCollectors I ctx ns r = startCollectors I ctx (Some True) ns r"

definition registry_Stop :: "('c, 'm) collector_iface \<Rightarrow> string list
    \<Rightarrow> 'c registry \<Rightarrow> (err option \<times> 'c registry) go" where
  "registry_Stop I ns r = call_selected I (ci_stop I) ''stop'' None ns r"

definition StopLeaderCollectors :: "('c, 'm) collector_iface \<Rightarrow> string list
    \<Rightarrow> 'c registry \<Rightarrow> (err option \<times> 'c registry) go" where
  "StopLeaderCollectors I ns r = call_selected I (ci_stop I) ''stop'' (Some True) ns r"

definition StopNonLeaderCollectors :: "('c, 'm) collector_iface \<Rightarrow> string list
    \<Rightarrow> 'c registry \<Rightarrow> (err option \<times> 'c registry) go" where
  "StopNonLeaderCollectors I ns r = call_selected I (ci_stop I) ''stop'' (Some False) ns r"

definition call_one :: "('c \<Rightarrow> (err option \<times> 'c) go) \<Rightarrow> string \<Rightarrow> 'c registry
    \<Rightarrow> (err option \<times> 'c registry) go" where
  "call_one f name r = (case rg_collectors r name of
       None \<Rightarrow> Ret (Some (''collector '' @ name @ '' not found''), r)
     | Some None \<Rightarrow> nil_deref
     | Some (Some c) \<Rightarrow> bind_go (f c) (\<lambda>(e, c').
         Ret (e, r\<lparr>rg_collectors := (rg_collectors r)(name \<mapsto> Some c')\<rparr>)))"

definition StartCollector :: "('c, 'm) collector_iface \<Rightarrow> ctx \<Rightarrow> string \<Rightarrow> 'c registry
    \<Rightarrow> (err option \<times> 'c registry) go" where
  "StartCollector I ctx name r = call_one (ci_start I ctx) name r"

definition StopCollector :: "('c, 'm) collector_iface \<Rightarrow> string \<Rightarrow> 'c registry
    \<Rightarrow> (err option \<times> 'c registry) go" where
  "StopCollector I name r = call_one (ci_stop I) name r"

text \<open>\<open>sort.Strings\<close> orders byte lists lexicographically, as the library order on strings does.\<close>

definition ListCollectorsByLeaderRequirement :: "('c, 'm) collector_iface \<Rightarrow> bool \<Rightarrow> string list
    \<Rightarrow> 'c registry \<Rightarrow> string list go" where
  "ListCollectorsByLeaderRequirement I req ns r =
     bind_go (select_names I (rg_collectors r) (Some req) ns) (\<lambda>sel. Ret (sort sel))"

definition ListCollectors :: "string list \<Rightarrow> 'c registry \<Rightarrow> string list" where
  "ListCollectors ns r = filter (\<lambda>n. rg_collectors r n \<noteq> None) ns"

section \<open>The Prometheus collector\<close>

text \<open>
  What reaches Prometheus: metrics of the collectors, wrapped with the instance when it is not
  empty, and the two metrics about each collector's run. The collectors run concurrently;
  \<open>ns\<close> is the order in which they finish, \<open>durations\<close> how long each took.
\<close>

datatype 'm prom_metric =
    Plain 'm
  | WithInstance 'm string
  | CollectorDuration string int string
  | CollectorSuccess string int string

record collector_result =
  cr_name :: string
  cr_duration :: int
  cr_success :: bool

definition slowCollectorThreshold :: int where
  "slowCollectorThreshold = 500 * 10 ^ 6"

text \<open>A nil collector panics inside the recovered function, like any other panic.\<close>

definition collectFromCollector :: "('c, 'm) collector_iface \<Rightarrow> string \<Rightarrow> 'c option \<Rightarrow> int
    \<Rightarrow> 'm list \<times> collector_result" where
  "collectFromCollector I name c duration =
     (let (ms, p) = (case c of None \<Rightarrow> ([], Some ''nil'') | Some x \<Rightarrow> ci_collect I x)
      in (ms, \<lparr>cr_name = name, cr_duration = duration, cr_success = (p = None)\<rparr>))"

definition emitCollectorMetrics :: "string \<Rightarrow> collector_result list \<Rightarrow> 'm prom_metric list" where
  "emitCollectorMetrics instance results = concat (map (\<lambda>res.
     [CollectorDuration (cr_name res) (cr_duration res) instance,
      CollectorSuccess (cr_name res) (if cr_success res then 1 else 0) instance]) results)"

definition wrapMetricsWithInstance :: "string \<Rightarrow> 'm list \<Rightarrow> 'm prom_metric list" where
  "wrapMetricsWithInstance instance ms = map (\<lambda>m. WithInstance m instance) ms"

definition prom_Collect :: "('c, 'm) collector_iface \<Rightarrow> string list \<Rightarrow> (string \<Rightarrow> int)
    \<Rightarrow> 'c registry \<Rightarrow> 'm prom_metric list" where
  "prom_Collect I ns durations r =
     (let instance = rg_instance r;
          runs = map (\<lambda>n. collectFromCollector I n (the (rg_collectors r n)) (durations n)) ns;
          ms = concat (map fst runs)
      in (if instance \<noteq> '''' then wrapMetricsWithInstance instance ms else map Plain ms) @
         emitCollectorMetrics instance (map snd runs))"

text \<open>\<open>metricWithInstance.Write\<close>: the labels of the wrapped metric, then the instance;
  an error of the inner write is returned before the label is added.\<close>

definition write_with_instance :: "(string \<times> string) list res \<Rightarrow> string \<Rightarrow> (string \<times> string) list res" where
  "write_with_instance inner instance = (case inner of
     Inl e \<Rightarrow> Inl e | Inr labels \<Rightarrow> Inr (labels @ [(''instance'', instance)]))"

definition prom_Describe :: "('c, 'm) collector_iface \<Rightarrow> string list \<Rightarrow> 'c registry \<Rightarrow> string list go" where
  "prom_Describe I ns r =
     (if \<exists>n \<in> set ns. rg_collectors r n = Some None then nil_deref
      else Ret ([''collector_duration_seconds'', ''collector_success''] @
        concat (map (\<lambda>n. case rg_collectors r n of Some (Some c) \<Rightarrow> ci_describe I c | _ \<Rightarrow> []) ns)))"

section \<open>Calls on well-behaved collectors, pointwise\<close>

definition outcome :: "('c \<Rightarrow> (err option \<times> 'c) go) \<Rightarrow> 'c \<Rightarrow> err option \<times> 'c" where
  "outcome f c = (case f c of Ret p \<Rightarrow> p | Panic _ \<Rightarrow> (None, c))"

definition matches :: "('c, 'm) collector_iface \<Rightarrow> bool option \<Rightarrow> 'c \<Rightarrow> bool" where
  "matches I req c \<longleftrightarrow> (case req of None \<Rightarrow> True | Some b \<Rightarrow> b = ci_requires I c)"

definition updated :: "('c \<Rightarrow> (err option \<times> 'c) go) \<Rightarrow> ('c \<Rightarrow> bool) \<Rightarrow> (string \<Rightarrow> 'c option option)
    \<Rightarrow> string \<Rightarrow> 'c option option" where
  "updated f P cs k = (case cs k of
     Some (Some c) \<Rightarrow> Some (Some (if P c then snd (outcome f c) else c)) | x \<Rightarrow> x)"

definition errs_of :: "('c \<Rightarrow> (err option \<times> 'c) go) \<Rightarrow> string \<Rightarrow> (string \<Rightarrow> 'c option option)
    \<Rightarrow> string list \<Rightarrow> err list" where
  "errs_of f verb cs ns = concat (map (\<lambda>n. case cs n of
       Some (Some c) \<Rightarrow> (case fst (outcome f c) of None \<Rightarrow> []
          | Some m \<Rightarrow> [''failed to '' @ verb @ '' collector '' @ n @ '': '' @ m])
     | _ \<Rightarrow> []) ns)"

definition slots_ok :: "('c \<Rightarrow> bool) \<Rightarrow> (string \<Rightarrow> 'c option option) \<Rightarrow> bool" where
  "slots_ok P cs \<longleftrightarrow> (\<forall>n s. cs n = Some s \<longrightarrow> (\<exists>c. s = Some c \<and> P c))"

lemma slots_okD: "slots_ok P cs \<Longrightarrow> n \<in> dom cs \<Longrightarrow> \<exists>c. cs n = Some (Some c) \<and> P c"
  by (auto simp: slots_ok_def)

lemma slots_ok_nil: "slots_ok P cs \<Longrightarrow> cs n \<noteq> Some None"
  by (auto simp: slots_ok_def)

lemma errs_of_Nil: "slots_ok P cs \<Longrightarrow> set ns \<subseteq> dom cs \<Longrightarrow>
  errs_of f verb cs ns = [] \<longleftrightarrow>
    (\<forall>n \<in> set ns. \<forall>c. cs n = Some (Some c) \<longrightarrow> fst (outcome f c) = None)"
  by (force simp: errs_of_def split: option.splits)

lemma select_names_eq:
  assumes "slots_ok P cs" "set ns \<subseteq> dom cs"
  shows "select_names I cs req ns =
    Ret (filter (\<lambda>n. case cs n of Some (Some c) \<Rightarrow> matches I req c | _ \<Rightarrow> False) ns)"
  using assms(2)
proof (induction ns)
  case (Cons n ns)
  obtain c where "cs n = Some (Some c)" using slots_okD [OF assms(1), of n] Cons.prems by auto
  with Cons show ?case by (cases req) (simp_all add: matches_def)
qed simp

lemma errs_of_upd: "n \<notin> set ns \<Longrightarrow> errs_of f verb (cs(n := x)) ns = errs_of f verb cs ns"
  unfolding errs_of_def by (rule arg_cong [where f = concat], rule map_cong) auto

lemma call_each_eq:
  assumes "distinct ns" "\<forall>n \<in> set ns. \<exists>c. cs n = Some (Some c) \<and> returns (f c)"
  shows "call_each f verb ns cs = Ret (errs_of f verb cs ns,
    \<lambda>k. if k \<in> set ns then updated f (\<lambda>_. True) cs k else cs k)"
  using assms
proof (induction ns arbitrary: cs)
  case (Cons n ns)
  obtain c where c: "cs n = Some (Some c)" "returns (f c)" using Cons.prems(2) by auto
  then obtain e c' where f: "f c = Ret (e, c')" by (auto simp: returns_def split: go.splits)
  have n: "n \<notin> set ns" "distinct ns" using Cons.prems(1) by auto
  have "call_each f verb ns (cs(n \<mapsto> Some c')) = Ret (errs_of f verb cs ns,
      \<lambda>k. if k \<in> set ns then updated f (\<lambda>_. True) (cs(n \<mapsto> Some c')) k else (cs(n \<mapsto> Some c')) k)"
  proof -
    have "\<forall>m \<in> set ns. \<exists>c. (cs(n \<mapsto> Some c')) m = Some (Some c) \<and> returns (f c)"
      using Cons.prems(2) n(1) by auto
    from Cons.IH [OF n(2) this] show ?thesis by (simp only: errs_of_upd [OF n(1)])
  qed
  moreover have "errs_of f verb cs (n # ns) = (case e of None \<Rightarrow> errs_of f verb cs ns
      | Some m \<Rightarrow> (''failed to '' @ verb @ '' collector '' @ n @ '': '' @ m) # errs_of f verb cs ns)"
    using c(1) f by (simp add: errs_of_def outcome_def split: option.split)
  ultimately show ?case using c f n(1)
    by (auto simp: outcome_def updated_def fun_eq_iff split: option.splits)
qed (simp add: errs_of_def)

lemma call_selected_eq:
  assumes "iter_order ns (rg_collectors r)" "slots_ok (\<lambda>c. returns (f c)) (rg_collectors r)"
  shows "call_selected I f verb req ns r =
    Ret (errs_result verb (errs_of f verb (rg_collectors r)
           (filter (\<lambda>n. case rg_collectors r n of Some (Some c) \<Rightarrow> matches I req c | _ \<Rightarrow> False) ns)),
         r\<lparr>rg_collectors := updated f (matches I req) (rg_collectors r)\<rparr>)"
proof (cases "rg_collectors r = Map.empty")
  case True
  with assms(1) have "ns = []" by (simp add: iter_order_def)
  with True show ?thesis
    by (simp add: call_selected_def errs_of_def errs_result_def updated_def fun_eq_iff
        registry.surjective)
next
  case False
  let ?sel = "filter (\<lambda>n. case rg_collectors r n of Some (Some c) \<Rightarrow> matches I req c | _ \<Rightarrow> False) ns"
  have ns: "distinct ?sel" "set ?sel \<subseteq> dom (rg_collectors r)" "set ns = dom (rg_collectors r)"
    using assms(1) by (auto simp: iter_order_def)
  have "(\<lambda>k. if k \<in> set ?sel then updated f (\<lambda>_. True) (rg_collectors r) k else rg_collectors r k)
      = updated f (matches I req) (rg_collectors r)"
    using ns(3) by (auto simp: updated_def fun_eq_iff split: option.splits)
  with False ns show ?thesis
    using select_names_eq [OF assms(2), of ns I req] call_each_eq [OF ns(1), of "rg_collectors r" f verb]
      slots_okD [OF assms(2)]
    by (auto simp: call_selected_def)
qed

lemma errs_of_selected:
  "errs_of f verb cs (filter (\<lambda>n. case cs n of Some (Some c) \<Rightarrow> matches I req c | _ \<Rightarrow> False) ns) = []
     \<longleftrightarrow> (\<forall>n \<in> set ns. \<forall>c. cs n = Some (Some c) \<and> matches I req c \<longrightarrow> fst (outcome f c) = None)"
  by (induction ns) (auto simp: errs_of_def split: option.splits)

lemma errs_result_None: "errs_result verb es = None \<longleftrightarrow> es = []"
  by (simp add: errs_result_def)

lemma call_selected_ok:
  assumes "iter_order ns (rg_collectors r)" "slots_ok (\<lambda>c. returns (f c)) (rg_collectors r)"
  shows "\<exists>e. call_selected I f verb req ns r =
      Ret (e, r\<lparr>rg_collectors := updated f (matches I req) (rg_collectors r)\<rparr>) \<and>
    (e = None \<longleftrightarrow> (\<forall>n c. rg_collectors r n = Some (Some c) \<and> matches I req c
        \<longrightarrow> fst (outcome f c) = None))"
proof -
  have "set ns = dom (rg_collectors r)" using assms(1) by (simp add: iter_order_def)
  then have "(\<forall>n \<in> set ns. \<forall>c. rg_collectors r n = Some (Some c) \<and> matches I req c \<longrightarrow>
      fst (outcome f c) = None) \<longleftrightarrow> (\<forall>n c. rg_collectors r n = Some (Some c) \<and> matches I req c \<longrightarrow>
      fst (outcome f c) = None)" by blast
  then have "errs_of f verb (rg_collectors r)
      (filter (\<lambda>n. case rg_collectors r n of Some (Some c) \<Rightarrow> matches I req c | _ \<Rightarrow> False) ns) = []
    \<longleftrightarrow> (\<forall>n c. rg_collectors r n = Some (Some c) \<and> matches I req c \<longrightarrow> fst (outcome f c) = None)"
    by (simp only: errs_of_selected)
  then show ?thesis unfolding call_selected_eq [OF assms] errs_result_None [symmetric, where verb = verb] by blast
qed

section \<open>The contract of a collector\<close>

text \<open>
  What the registry relies on: \<open>good\<close> is what every method keeps, \<open>running\<close> is what a
  successful start establishes. A start of a running collector fails and changes nothing, a
  failed start leaves it not running, a stop always leaves it not running.
\<close>

locale collector_contract =
  fixes I :: "('c, 'm) collector_iface"
    and good :: "'c \<Rightarrow> bool"
    and running :: "'c \<Rightarrow> bool"
  assumes start_law: "good c \<Longrightarrow> \<exists>e c'. ci_start I ctx c = Ret (e, c') \<and> good c' \<and>
      ci_requires I c' = ci_requires I c \<and>
      (if running c then e \<noteq> None \<and> c' = c else (e = None \<longleftrightarrow> running c'))"
    and stop_law: "good c \<Longrightarrow> \<exists>e c'. ci_stop I c = Ret (e, c') \<and> good c' \<and>
      ci_requires I c' = ci_requires I c \<and> \<not> running c' \<and> (e = None \<longleftrightarrow> running c)"
begin

lemma start_returns: "good c \<Longrightarrow> returns (ci_start I ctx c)"
  using start_law [of c ctx] by auto

lemma stop_returns: "good c \<Longrightarrow> returns (ci_stop I c)"
  using stop_law [of c] by auto

lemma start_outcome:
  assumes "good c"
  shows "good (snd (outcome (ci_start I ctx) c))"
    "ci_requires I (snd (outcome (ci_start I ctx) c)) = ci_requires I c"
    "fst (outcome (ci_start I ctx) c) = None \<Longrightarrow> running (snd (outcome (ci_start I ctx) c))"
    "running c \<Longrightarrow> fst (outcome (ci_start I ctx) c) \<noteq> None"
  using start_law [OF assms, of ctx] by (auto simp: outcome_def split: if_splits)

lemma stop_outcome:
  assumes "good c"
  shows "good (snd (outcome (ci_stop I) c))"
    "ci_requires I (snd (outcome (ci_stop I) c)) = ci_requires I c"
    "\<not> running (snd (outcome (ci_stop I) c))"
    "fst (outcome (ci_stop I) c) = None \<longleftrightarrow> running c"
  using stop_law [OF assms] by (auto simp: outcome_def)

lemma slots_returns:
  assumes "slots_ok good cs"
  shows "slots_ok (\<lambda>c. returns (ci_start I ctx c)) cs" "slots_ok (\<lambda>c. returns (ci_stop I c)) cs"
  using assms start_returns stop_returns by (fastforce simp: slots_ok_def)+

lemma updated_good:
  assumes "slots_ok good cs"
  shows "slots_ok good (updated (ci_start I ctx) P cs)" "slots_ok good (updated (ci_stop I) P cs)"
  using assms start_outcome(1) stop_outcome(1)
  by (fastforce simp: slots_ok_def updated_def split: option.splits)+

lemma dom_updated [simp]: "dom (updated f P cs) = dom cs"
  by (auto simp: updated_def dom_def split: option.splits)

text \<open>Starting the collectors that need no leader and then the others is starting all.\<close>

lemma updated_split:
  assumes "slots_ok good cs"
  shows "updated (ci_start I ctx) (matches I (Some True)) (updated (ci_start I ctx) (matches I (Some False)) cs)
    = updated (ci_start I ctx) (matches I None) cs"
  using assms start_outcome(2)
  by (fastforce simp: slots_ok_def updated_def matches_def fun_eq_iff split: option.splits)

lemma start_eq:
  assumes "iter_order ns (rg_collectors r)" "slots_ok good (rg_collectors r)"
  shows "\<exists>e. startCollectors I ctx req ns r =
      Ret (e, r\<lparr>rg_collectors := updated (ci_start I ctx) (matches I req) (rg_collectors r)\<rparr>) \<and>
    (e = None \<longleftrightarrow> (\<forall>n c. rg_collectors r n = Some (Some c) \<and> matches I req c
        \<longrightarrow> fst (outcome (ci_start I ctx) c) = None))"
  unfolding startCollectors_def by (rule call_selected_ok [OF assms(1) slots_returns(1) [OF assms(2)]])

lemma stop_eq:
  assumes "iter_order ns (rg_collectors r)" "slots_ok good (rg_collectors r)"
  shows "\<exists>e. call_selected I (ci_stop I) ''stop'' req ns r =
      Ret (e, r\<lparr>rg_collectors := updated (ci_stop I) (matches I req) (rg_collectors r)\<rparr>) \<and>
    (e = None \<longleftrightarrow> (\<forall>n c. rg_collectors r n = Some (Some c) \<and> matches I req c \<longrightarrow> running c))"
proof -
  have "fst (outcome (ci_stop I) c) = None \<longleftrightarrow> running c" if "rg_collectors r n = Some (Some c)" for n c
    using slots_okD [OF assms(2), of n] that stop_outcome(4) by auto
  then have "(\<forall>n c. rg_collectors r n = Some (Some c) \<and> matches I req c \<longrightarrow>
        fst (outcome (ci_stop I) c) = None) \<longleftrightarrow>
      (\<forall>n c. rg_collectors r n = Some (Some c) \<and> matches I req c \<longrightarrow> running c)" by blast
  with call_selected_ok [OF assms(1) slots_returns(2) [OF assms(2)], of I "''stop''" req]
  show ?thesis by simp
qed

lemma leader_split:
  assumes "iter_order ns (rg_collectors r)" "iter_order ms (rg_collectors r)"
    "iter_order ks (rg_collectors r)" "slots_ok good (rg_collectors r)"
  shows "\<exists>e1 r1 e2 e r'. StartNonLeaderCollectors I ctx ns r = Ret (e1, r1) \<and>
    StartLeaderCollectors I ctx ms r1 = Ret (e2, r') \<and> registry_Start I ctx ks r = Ret (e, r') \<and>
    (e = None \<longleftrightarrow> e1 = None \<and> e2 = None) \<and>
    (e = None \<longrightarrow> (\<forall>n. rg_collectors r n \<noteq> None \<longrightarrow>
       (\<exists>c. rg_collectors r' n = Some (Some c) \<and> running c)))"
proof -
  let ?st = "ci_start I ctx" and ?cs = "rg_collectors r"
  define r1 where "r1 = r\<lparr>rg_collectors := updated ?st (matches I (Some False)) ?cs\<rparr>"
  obtain e1 where e1: "startCollectors I ctx (Some False) ns r = Ret (e1, r1)"
    "e1 = None \<longleftrightarrow> (\<forall>n c. ?cs n = Some (Some c) \<and> \<not> ci_requires I c \<longrightarrow> fst (outcome ?st c) = None)"
    using start_eq [OF assms(1,4), of ctx "Some False"] by (auto simp: r1_def matches_def)
  have r1: "iter_order ms (rg_collectors r1)" "slots_ok good (rg_collectors r1)"
    using assms(2,4) by (simp_all add: r1_def iter_order_def updated_good)
  have leaders: "rg_collectors r1 n = Some (Some c) \<and> ci_requires I c \<longleftrightarrow>
      ?cs n = Some (Some c) \<and> ci_requires I c" for n c
    using start_outcome(2) slots_okD [OF assms(4), of n]
    by (cases "?cs n") (auto simp: r1_def updated_def matches_def split: if_splits option.splits)
  obtain e2 where e2: "startCollectors I ctx (Some True) ms r1 =
      Ret (e2, r\<lparr>rg_collectors := updated ?st (matches I None) ?cs\<rparr>)"
    "e2 = None \<longleftrightarrow> (\<forall>n c. ?cs n = Some (Some c) \<and> ci_requires I c \<longrightarrow> fst (outcome ?st c) = None)"
    using start_eq [OF r1, of ctx "Some True"] updated_split [OF assms(4), of ctx] leaders
    by (auto simp: r1_def matches_def)
  obtain e where e: "startCollectors I ctx None ks r =
      Ret (e, r\<lparr>rg_collectors := updated ?st (matches I None) ?cs\<rparr>)"
    "e = None \<longleftrightarrow> (\<forall>n c. ?cs n = Some (Some c) \<longrightarrow> fst (outcome ?st c) = None)"
    using start_eq [OF assms(3,4), of ctx None] by (auto simp: matches_def)
  have "\<exists>c'. updated ?st (matches I None) ?cs n = Some (Some c') \<and> running c'"
    if en: "e = None" and n: "?cs n \<noteq> None" for n
  proof -
    obtain c where "?cs n = Some (Some c)" "good c" using slots_okD [OF assms(4), of n] n by auto
    then show ?thesis using en e(2) start_outcome(3) by (auto simp: updated_def matches_def)
  qed
  moreover have "e = None \<longleftrightarrow> e1 = None \<and> e2 = None" using e(2) e1(2) e2(2) by blast
  ultimately show ?thesis using e1(1) e2(1) e(1)
    by (auto simp: StartNonLeaderCollectors_def StartLeaderCollectors_def registry_Start_def)
qed

lemma stop_all:
  assumes "iter_order ns (rg_collectors r)" "slots_ok good (rg_collectors r)"
  shows "\<exists>e r'. registry_Stop I ns r = Ret (e, r') \<and> slots_ok (\<lambda>c. good c \<and> \<not> running c) (rg_collectors r') \<and>
    dom (rg_collectors r') = dom (rg_collectors r) \<and>
    (e = None \<longleftrightarrow> slots_ok running (rg_collectors r))"
proof -
  obtain e where e: "call_selected I (ci_stop I) ''stop'' None ns r =
      Ret (e, r\<lparr>rg_collectors := updated (ci_stop I) (matches I None) (rg_collectors r)\<rparr>)"
    "e = None \<longleftrightarrow> (\<forall>n c. rg_collectors r n = Some (Some c) \<longrightarrow> running c)"
    using stop_eq [OF assms, of None] by (auto simp: matches_def)
  have "slots_ok (\<lambda>c. good c \<and> \<not> running c) (updated (ci_stop I) (matches I None) (rg_collectors r))"
    using assms(2) stop_outcome(1,3)
    by (fastforce simp: slots_ok_def updated_def matches_def split: option.splits)
  moreover have "e = None \<longleftrightarrow> slots_ok running (rg_collectors r)"
    using e(2) assms(2) by (fastforce simp: slots_ok_def)
  ultimately show ?thesis using e(1) by (auto simp: registry_Stop_def)
qed

lemma stop_non_leader:
  assumes "iter_order ns (rg_collectors r)" "slots_ok good (rg_collectors r)"
  shows "\<exists>e r'. StopNonLeaderCollectors I ns r = Ret (e, r') \<and>
    (\<forall>n c. rg_collectors r n = Some (Some c) \<longrightarrow> (\<exists>c'. rg_collectors r' n = Some (Some c') \<and>
       ci_requires I c' = ci_requires I c \<and> (if ci_requires I c then c' = c else \<not> running c')))"
proof -
  obtain e where e: "call_selected I (ci_stop I) ''stop'' (Some False) ns r =
      Ret (e, r\<lparr>rg_collectors := updated (ci_stop I) (matches I (Some False)) (rg_collectors r)\<rparr>)"
    using stop_eq [OF assms, of "Some False"] by auto
  moreover have "good c" if "rg_collectors r n = Some (Some c)" for n c
    using assms(2) that by (fastforce simp: slots_ok_def)
  ultimately show ?thesis using stop_outcome(2,3)
    by (auto simp: StopNonLeaderCollectors_def updated_def matches_def)
qed

end

section \<open>Collectors that embed the base collector\<close>

record 'm coll =
  co_lc :: "'m lifecycle option"
  co_base :: base

definition base_iface :: "('m coll, 'm) collector_iface" where
  "base_iface = \<lparr>
     ci_requires = (\<lambda>c. bc_requiresLeaderElection (co_base c)),
     ci_start = (\<lambda>ctx c. bind_go (Start (co_lc c) (co_base c) ctx) (\<lambda>(e, b). Ret (e, c\<lparr>co_base := b\<rparr>))),
     ci_stop = (\<lambda>c. bind_go (Stop (co_lc c) (co_base c)) (\<lambda>(e, b). Ret (e, c\<lparr>co_base := b\<rparr>))),
     ci_describe = (\<lambda>c. Describe (co_base c)),
     ci_collect = (\<lambda>c. Collect (co_lc c) (co_base c) (co_base c) WaitOk),
     ci_health = (\<lambda>c. Health (co_lc c) (co_base c)) \<rparr>"

text \<open>Hooks that return, keep the lifecycle invariant and do not start or stop the
  collector they belong to.\<close>

definition good_lifecycle :: "'m lifecycle option \<Rightarrow> bool" where
  "good_lifecycle lc \<longleftrightarrow> (case lc of None \<Rightarrow> True | Some l \<Rightarrow>
     (\<forall>b ctx. base_inv b \<and> bc_started b \<longrightarrow> (\<exists>e b'. OnStart l ctx b = Ret (e, b') \<and> base_inv b' \<and>
        bc_started b' \<and> bc_requiresLeaderElection b' = bc_requiresLeaderElection b)) \<and>
     (\<forall>b. base_inv b \<and> \<not> bc_started b \<longrightarrow> (\<exists>e b'. OnStop l b = Ret (e, b') \<and> base_inv b' \<and>
        \<not> bc_started b' \<and> bc_requiresLeaderElection b' = bc_requiresLeaderElection b)))"

definition coll_good :: "'m coll \<Rightarrow> bool" where
  "coll_good c \<longleftrightarrow> base_inv (co_base c) \<and> good_lifecycle (co_lc c)"

lemma stopped_state_requires [simp]:
  "bc_requiresLeaderElection (stopped_state b) = bc_requiresLeaderElection b"
  by (simp add: stopped_state_def cancel_locked_def call_cancel_def split: option.splits)

lemma good_OnStart:
  "good_lifecycle (Some l) \<Longrightarrow> base_inv b \<Longrightarrow> bc_started b \<Longrightarrow> \<exists>e b'. OnStart l ctx b = Ret (e, b') \<and>
     base_inv b' \<and> bc_started b' \<and> bc_requiresLeaderElection b' = bc_requiresLeaderElection b"
  by (simp add: good_lifecycle_def)

lemma good_OnStop:
  "good_lifecycle (Some l) \<Longrightarrow> base_inv b \<Longrightarrow> \<not> bc_started b \<Longrightarrow> \<exists>e b'. OnStop l b = Ret (e, b') \<and>
     base_inv b' \<and> \<not> bc_started b' \<and> bc_requiresLeaderElection b' = bc_requiresLeaderElection b"
  by (simp add: good_lifecycle_def)

lemma Start_good:
  assumes "base_inv b" "good_lifecycle lc"
  shows "\<exists>e b'. Start lc b ctx = Ret (e, b') \<and> base_inv b' \<and>
    bc_requiresLeaderElection b' = bc_requiresLeaderElection b \<and>
    (if bc_started b then e \<noteq> None \<and> b' = b else (e = None \<longleftrightarrow> bc_started b'))"
proof (cases "start_locked b ctx")
  case (Inl e)
  then show ?thesis using assms(1) by (auto simp: Start_def start_locked_def Let_def split: if_splits)
next
  case (Inr b1)
  note b1 = start_locked_inv [OF assms(1) Inr]
  have ns: "\<not> bc_started b" and req: "bc_requiresLeaderElection b1 = bc_requiresLeaderElection b"
    using Inr by (auto simp: start_locked_def Let_def split: if_splits)
  show ?thesis
  proof (cases lc)
    case None
    then show ?thesis using Inr b1 ns req by (simp add: Start_def)
  next
    case (Some l)
    then obtain e b2 where "OnStart l (the (bc_ctx b1)) b1 = Ret (e, b2)" "base_inv b2" "bc_started b2"
        "bc_requiresLeaderElection b2 = bc_requiresLeaderElection b"
      using good_OnStart [of l b1 "the (bc_ctx b1)"] assms(2) b1 req by auto
    then show ?thesis using Some Inr ns
      by (cases e) (auto simp: Start_def start_rollback_eq stopped_state_inv)
  qed
qed

lemma Stop_good:
  assumes "base_inv b" "good_lifecycle lc"
  shows "\<exists>e b'. Stop lc b = Ret (e, b') \<and> base_inv b' \<and>
    bc_requiresLeaderElection b' = bc_requiresLeaderElection b \<and> \<not> bc_started b' \<and>
    (e = None \<longleftrightarrow> bc_started b)"
proof (cases "bc_started b")
  case False
  then show ?thesis using assms(1) by (simp add: Stop_def stop_locked_not_started)
next
  case True
  show ?thesis
  proof (cases lc)
    case None
    then show ?thesis using True assms(1) by (simp add: Stop_def stop_locked_eq stopped_state_inv)
  next
    case (Some l)
    then obtain e b2 where "OnStop l (stopped_state b) = Ret (e, b2)" "base_inv b2" "\<not> bc_started b2"
        "bc_requiresLeaderElection b2 = bc_requiresLeaderElection b"
      using good_OnStop [of l "stopped_state b"] assms(2) stopped_state_inv [OF assms(1)] by auto
    then show ?thesis using True Some assms(1) by (simp add: Stop_def stop_locked_eq)
  qed
qed

interpretation bc: collector_contract "base_iface :: ('m coll, 'm) collector_iface" coll_good
  "\<lambda>c. bc_started (co_base c)"
proof
  fix c :: "'m coll" and ctx
  assume g: "coll_good c"
  obtain e b where "Start (co_lc c) (co_base c) ctx = Ret (e, b)" "base_inv b"
      "bc_requiresLeaderElection b = bc_requiresLeaderElection (co_base c)"
      "if bc_started (co_base c) then e \<noteq> None \<and> b = co_base c else (e = None \<longleftrightarrow> bc_started b)"
    using Start_good g unfolding coll_good_def by metis
  then show "\<exists>e c'. ci_start base_iface ctx c = Ret (e, c') \<and> coll_good c' \<and>
      ci_requires base_iface c' = ci_requires base_iface c \<and>
      (if bc_started (co_base c) then e \<noteq> None \<and> c' = c else (e = None \<longleftrightarrow> bc_started (co_base c')))"
    using g by (auto simp: base_iface_def coll_good_def split: if_splits)
next
  fix c :: "'m coll"
  assume g: "coll_good c"
  obtain e b where "Stop (co_lc c) (co_base c) = Ret (e, b)" "base_inv b"
      "bc_requiresLeaderElection b = bc_requiresLeaderElection (co_base c)"
      "\<not> bc_started b" "e = None \<longleftrightarrow> bc_started (co_base c)"
    using Stop_good g unfolding coll_good_def by metis
  then show "\<exists>e c'. ci_stop base_iface c = Ret (e, c') \<and> coll_good c' \<and>
      ci_requires base_iface c' = ci_requires base_iface c \<and> \<not> bc_started (co_base c') \<and>
      (e = None \<longleftrightarrow> bc_started (co_base c))"
    using g by (auto simp: base_iface_def coll_good_def)
qed

section \<open>Properties of the registry\<close>

lemma create_one_fields:
  "rg_factories (create_one cfg r n) = rg_factories r" "rg_instance (create_one cfg r n) = rg_instance r"
  by (simp_all add: create_one_def split: option.splits sum.splits)

definition created :: "init_config \<Rightarrow> 'c registry \<Rightarrow> string \<Rightarrow> 'c option res" where
  "created cfg r n = (case rg_factories r n of None \<Rightarrow> Inl ''collector factory not found''
     | Some f \<Rightarrow> f (factory_ctx cfg (rg_instance r) n))"

lemma foldl_create_one:
  "rg_factories (foldl (create_one cfg) r ns) = rg_factories r \<and>
   rg_instance (foldl (create_one cfg) r ns) = rg_instance r \<and>
   rg_collectors (foldl (create_one cfg) r ns) = (\<lambda>n. if n \<in> set ns
     then (case created cfg r n of Inr c \<Rightarrow> Some c | Inl _ \<Rightarrow> rg_collectors r n) else rg_collectors r n) \<and>
   rg_failed (foldl (create_one cfg) r ns) = (\<lambda>n. if n \<in> set ns
     then (case created cfg r n of Inl e \<Rightarrow> Some e | Inr _ \<Rightarrow> rg_failed r n) else rg_failed r n)"
proof (induction ns arbitrary: r)
  case (Cons n ns)
  have c: "created cfg (create_one cfg r n) m = created cfg r m" for m
    by (simp add: created_def create_one_fields split: option.split)
  show ?case
    by (simp add: Cons.IH c create_one_fields)
      (auto simp: create_one_def created_def fun_eq_iff split: option.splits sum.splits)
qed simp

text \<open>C16. After a reinitialization every enabled collector is accounted for, whatever was there
  before: it is among the collectors if its factory produced it and among the failed ones, with
  the error, if not; never in both, nothing else is in either, and the instance is not empty.
  A second \<open>Initialize\<close> is refused as long as there are collectors, and changes nothing.
\<close>

theorem reinitialize_accounts_for_all:
  assumes "identity_ok st" and "Reinitialize h cfg r st = (r', st')"
  shows "dom (rg_collectors r') \<union> dom (rg_failed r') = set (ic_EnabledCollectors cfg) \<and>
    dom (rg_collectors r') \<inter> dom (rg_failed r') = {} \<and>
    (\<forall>n \<in> set (ic_EnabledCollectors cfg).
       (case rg_factories r n of
          None \<Rightarrow> rg_failed r' n = Some ''collector factory not found''
        | Some f \<Rightarrow> (case f (factory_ctx cfg (rg_instance r') n) of
              Inr c \<Rightarrow> rg_collectors r' n = Some c | Inl e \<Rightarrow> rg_failed r' n = Some e))) \<and>
    rg_instance r' \<noteq> '''' \<and>
    (\<forall>r2 c2 st2. dom (rg_collectors r2) \<noteq> {} \<longrightarrow>
       Initialize h c2 r2 st2 = (Some ''registry already initialized'', r2, st2))"
proof -
  obtain i s where g: "GetWithConfig h st (ic_Identity cfg) (ic_NodeName cfg) (ic_PodName cfg) = (i, s)"
    by fastforce
  define r0 where "r0 = r\<lparr>rg_collectors := Map.empty, rg_failed := Map.empty, rg_instance := i\<rparr>"
  have r': "r' = foldl (create_one cfg) r0 (ic_EnabledCollectors cfg)"
    using assms(2) g by (simp add: Reinitialize_def createCollectors_def r0_def)
  have f: "rg_factories r0 = rg_factories r" "rg_instance r0 = i" "rg_collectors r0 = Map.empty"
    "rg_failed r0 = Map.empty" by (simp_all add: r0_def)
  note * = foldl_create_one [of cfg r0 "ic_EnabledCollectors cfg", folded r', unfolded f]
  have i: "rg_instance r' = i" "i \<noteq> ''''" using * GetWithConfig_ok(1) [OF assms(1) g] by auto
  have 1: "n \<in> dom (rg_collectors r') \<longleftrightarrow> n \<in> set (ic_EnabledCollectors cfg) \<and> \<not> isl (created cfg r0 n)"
    "n \<in> dom (rg_failed r') \<longleftrightarrow> n \<in> set (ic_EnabledCollectors cfg) \<and> isl (created cfg r0 n)" for n
  proof -
    have "rg_collectors r' n = (if n \<in> set (ic_EnabledCollectors cfg)
        then (case created cfg r0 n of Inr c \<Rightarrow> Some c | Inl _ \<Rightarrow> None) else None)"
      "rg_failed r' n = (if n \<in> set (ic_EnabledCollectors cfg)
        then (case created cfg r0 n of Inl e \<Rightarrow> Some e | Inr _ \<Rightarrow> None) else None)"
      using * by simp_all
    then show "n \<in> dom (rg_collectors r') \<longleftrightarrow> n \<in> set (ic_EnabledCollectors cfg) \<and> \<not> isl (created cfg r0 n)"
      "n \<in> dom (rg_failed r') \<longleftrightarrow> n \<in> set (ic_EnabledCollectors cfg) \<and> isl (created cfg r0 n)"
      by (simp_all add: domIff split: sum.split)
  qed
  have 2: "\<forall>n \<in> set (ic_EnabledCollectors cfg). (case rg_factories r n of
          None \<Rightarrow> rg_failed r' n = Some ''collector factory not found''
        | Some f \<Rightarrow> (case f (factory_ctx cfg (rg_instance r') n) of
              Inr c \<Rightarrow> rg_collectors r' n = Some c | Inl e \<Rightarrow> rg_failed r' n = Some e))"
    using * by (auto simp: created_def f split: option.splits sum.splits)
  have 3: "\<forall>r2 c2 st2. dom (rg_collectors r2) \<noteq> {} \<longrightarrow>
       Initialize h c2 r2 st2 = (Some ''registry already initialized'', r2, st2)"
    by (auto simp: Initialize_def)
  have 4: "dom (rg_collectors r') \<union> dom (rg_failed r') = set (ic_EnabledCollectors cfg)"
    "dom (rg_collectors r') \<inter> dom (rg_failed r') = {}" using 1 by blast+
  have 5: "rg_instance r' \<noteq> ''''" using i by simp
  show ?thesis using 2 3 4 5 by (intro conjI) assumption+
qed

definition demo_coll :: "bool \<Rightarrow> nat coll" where
  "demo_coll leader = \<lparr>co_lc = None, co_base = NewBaseCollector ''x'' [WithLeaderElection leader]\<rparr>"

definition demo_registry :: "nat coll registry" where
  "demo_registry = GetRegistry\<lparr>rg_factories := [''node'' \<mapsto> \<lambda>_. Inr (Some (demo_coll False)),
     ''domain'' \<mapsto> \<lambda>_. Inr (Some (demo_coll True)), ''crds'' \<mapsto> \<lambda>_. Inr None,
     ''lvm'' \<mapsto> \<lambda>_. Inl ''no node name'']\<rparr>"

definition demo_init :: "string list \<Rightarrow> init_config" where
  "demo_init enabled = \<lparr>ic_Ctx = [], ic_ClientProvider = None, ic_ConfigContent = '''',
     ic_Identity = ''i'', ic_NodeName = '''', ic_PodName = '''', ic_MetricsNamespace = '''',
     ic_InformerResyncPeriod = 0, ic_EnabledCollectors = enabled\<rparr>"

theorem reinitialize_accounts_for_all_witness:
  "\<exists>r'. Reinitialize (demo_host ''h'') (demo_init [''node'', ''lvm'', ''nope'']) demo_registry None = (r', None) \<and>
     dom (rg_collectors r') \<union> dom (rg_failed r') = {''node'', ''lvm'', ''nope''} \<and>
     rg_failed r' ''lvm'' = Some ''no node name''"
proof -
  obtain r' where r': "Reinitialize (demo_host ''h'') (demo_init [''node'', ''lvm'', ''nope'']) demo_registry None
      = (r', None)"
    by (simp add: Reinitialize_def createCollectors_def GetWithConfig_def demo_init_def)
  have "identity_ok None" by (simp add: identity_ok_def)
  note all = reinitialize_accounts_for_all [OF this r']
  have "dom (rg_collectors r') \<union> dom (rg_failed r') = {''node'', ''lvm'', ''nope''}"
    using all [THEN conjunct1] by (simp add: demo_init_def)
  moreover have "rg_failed r' ''lvm'' = Some ''no node name''"
    using all [THEN conjunct2, THEN conjunct2, THEN conjunct1]
    by (simp add: demo_init_def demo_registry_def)
  ultimately show ?thesis using r' by blast
qed

text \<open>C1. Leader election partitions the collectors: starting those that need no leader and then
  those that do, in whatever orders the maps are iterated, ends in the same registry as
  starting all of them, reports an error exactly if starting all does, and without an error
  every collector runs.
\<close>

theorem leader_split_starts_all:
  fixes r :: "'m coll registry"
  assumes "iter_order ns (rg_collectors r)" and "iter_order ms (rg_collectors r)"
    and "iter_order ks (rg_collectors r)" and "slots_ok coll_good (rg_collectors r)"
  shows "\<exists>e1 r1 e2 e r'. StartNonLeaderCollectors base_iface ctx ns r = Ret (e1, r1) \<and>
    StartLeaderCollectors base_iface ctx ms r1 = Ret (e2, r') \<and>
    registry_Start base_iface ctx ks r = Ret (e, r') \<and>
    (e = None \<longleftrightarrow> e1 = None \<and> e2 = None) \<and>
    (e = None \<longrightarrow> (\<forall>n. rg_collectors r n \<noteq> None \<longrightarrow>
       (\<exists>c. rg_collectors r' n = Some (Some c) \<and> bc_started (co_base c))))"
  by (rule bc.leader_split [OF assms])

definition two_colls :: "string \<Rightarrow> nat coll option option" where
  "two_colls = [''node'' \<mapsto> Some (demo_coll False), ''domain'' \<mapsto> Some (demo_coll True)]"

lemma two_colls_ok: "iter_order [''node'', ''domain''] two_colls" "iter_order [''domain'', ''node''] two_colls"
  "slots_ok coll_good two_colls"
  by (auto simp: two_colls_def iter_order_def slots_ok_def demo_coll_def coll_good_def
      base_inv_New good_lifecycle_def split: if_splits)

theorem leader_split_starts_all_witness:
  "\<exists>e r'. registry_Start base_iface [] [''domain'', ''node''] (demo_registry\<lparr>rg_collectors := two_colls\<rparr>)
     = Ret (e, r')"
  using leader_split_starts_all [where r = "demo_registry\<lparr>rg_collectors := two_colls\<rparr>" and ctx = "[]",
      simplified, OF two_colls_ok(1) two_colls_ok(2) two_colls_ok(2) two_colls_ok(3)] by blast

text \<open>C2. After \<open>Stop\<close> no collector of the registry is running, none is lost, and the error is
  absent exactly when all of them had been running; \<open>StopNonLeaderCollectors\<close> leaves the
  collectors that need a leader alone and none of the others running.
\<close>

theorem registry_stop_leaves_none_running:
  fixes r :: "'m coll registry"
  assumes "iter_order ns (rg_collectors r)" and "slots_ok coll_good (rg_collectors r)"
  shows "(\<exists>e r'. registry_Stop base_iface ns r = Ret (e, r') \<and>
      slots_ok (\<lambda>c. coll_good c \<and> \<not> bc_started (co_base c)) (rg_collectors r') \<and>
      dom (rg_collectors r') = dom (rg_collectors r) \<and>
      (e = None \<longleftrightarrow> slots_ok (\<lambda>c. bc_started (co_base c)) (rg_collectors r))) \<and>
    (\<exists>e r'. StopNonLeaderCollectors base_iface ns r = Ret (e, r') \<and>
      (\<forall>n c. rg_collectors r n = Some (Some c) \<longrightarrow> (\<exists>c'. rg_collectors r' n = Some (Some c') \<and>
         ci_requires base_iface c' = ci_requires base_iface c \<and>
         (if ci_requires base_iface c then c' = c else \<not> bc_started (co_base c')))))"
  using bc.stop_all [OF assms] bc.stop_non_leader [OF assms] by blast

theorem registry_stop_leaves_none_running_witness:
  "\<exists>e r'. registry_Stop base_iface [''node'', ''domain''] (demo_registry\<lparr>rg_collectors := two_colls\<rparr>)
     = Ret (e, r') \<and> e \<noteq> None"
proof -
  have "\<not> slots_ok (\<lambda>c. bc_started (co_base c)) two_colls"
    by (simp add: slots_ok_def two_colls_def demo_coll_def NewBaseCollector_def exI [of _ "''node''"])
  then show ?thesis
    using registry_stop_leaves_none_running [where r = "demo_registry\<lparr>rg_collectors := two_colls\<rparr>",
        simplified, OF two_colls_ok(1) two_colls_ok(3)] by auto
qed

lemma call_each_nil: "n \<in> set ns \<Longrightarrow> cs n = Some None \<Longrightarrow> \<not> returns (call_each f verb ns cs)"
proof (induction ns arbitrary: cs)
  case (Cons m ns)
  show ?case
  proof (cases "cs m")
    case None
    then show ?thesis by (simp add: nil_deref_def)
  next
    case (Some so)
    show ?thesis
    proof (cases so)
      case None
      then show ?thesis using Some by (simp add: nil_deref_def)
    next
      case (Some c)
      have "\<not> returns (call_each f verb ns (cs(m \<mapsto> Some c')))" for c'
        by (rule Cons.IH [where cs = "cs(m \<mapsto> Some c')"])
          (use Some \<open>cs m = Some so\<close> Cons.prems in auto)
      then have "\<exists>p. call_each f verb ns (cs(m \<mapsto> Some c')) = Panic p" for c'
        by (metis go.exhaust returns_simps(1))
      then show ?thesis using Some \<open>cs m = Some so\<close>
        by (cases "f c") (auto, metis bind_go.simps(2) returns_simps(2))
    qed
  qed
qed simp

lemma select_names_None: "select_names I cs None ns = Ret ns"
  by (induction ns) simp_all

lemma select_names_nil:
  "n \<in> set ns \<Longrightarrow> cs n = Some None \<Longrightarrow> \<not> returns (select_names I cs (Some b) ns)"
proof (induction ns)
  case (Cons m ns)
  show ?case
  proof (cases "m = n")
    case True
    then show ?thesis using Cons.prems by (simp add: nil_deref_def)
  next
    case False
    with Cons obtain p where "select_names I cs (Some b) ns = Panic p"
      by (metis go.exhaust returns_simps(1) set_ConsD)
    then show ?thesis by (auto simp: nil_deref_def split: option.splits)
  qed
qed simp

lemma call_selected_nil:
  assumes "iter_order ns (rg_collectors r)" "rg_collectors r n = Some None"
  shows "\<not> returns (call_selected I g verb q ns r)"
proof -
  have n: "n \<in> set ns" "rg_collectors r \<noteq> Map.empty" using assms by (auto simp: iter_order_def)
  show ?thesis
  proof (cases q)
    case None
    obtain p where "call_each g verb ns (rg_collectors r) = Panic p"
      using call_each_nil [where cs = "rg_collectors r", OF n(1) assms(2)] by (metis go.exhaust returns_simps(1))
    then show ?thesis using None n(2) by (simp add: call_selected_def select_names_None)
  next
    case (Some b)
    obtain p where "select_names I (rg_collectors r) (Some b) ns = Panic p"
      using select_names_nil [where cs = "rg_collectors r", OF n(1) assms(2)] by (metis go.exhaust returns_simps(1))
    then show ?thesis using Some n(2) by (simp add: call_selected_def)
  qed
qed

text \<open>A factory that returns neither a collector nor an error poisons the registry: the nil
  interface value is stored as a collector, and then every start and every stop of the
  registry panics, in any iteration order and with any leadership filter.
\<close>

theorem nil_collector_panics:
  assumes "rg_factories r name = Some f" and "name \<in> set (ic_EnabledCollectors cfg)"
    and "\<forall>fc. f fc = Inr None" and "Reinitialize h cfg r st = (r', st')"
    and "iter_order ns (rg_collectors r')"
  shows "rg_collectors r' name = Some None \<and>
    \<not> returns (startCollectors I ctx req ns r') \<and> \<not> returns (registry_Stop I ns r')"
proof -
  obtain i s where g: "GetWithConfig h st (ic_Identity cfg) (ic_NodeName cfg) (ic_PodName cfg) = (i, s)"
    by fastforce
  define r0 where "r0 = r\<lparr>rg_collectors := Map.empty, rg_failed := Map.empty, rg_instance := i\<rparr>"
  have r': "r' = foldl (create_one cfg) r0 (ic_EnabledCollectors cfg)"
    using assms(4) g by (simp add: Reinitialize_def createCollectors_def r0_def)
  have "created cfg r0 name = Inr None" using assms(1,3) by (simp add: created_def r0_def)
  then have c: "rg_collectors r' name = Some None"
    using foldl_create_one [of cfg r0 "ic_EnabledCollectors cfg", folded r'] assms(2) by simp
  show ?thesis by (simp add: c startCollectors_def registry_Stop_def call_selected_nil [OF assms(5) c])
qed

theorem nil_collector_panics_witness:
  "\<exists>r'. Reinitialize (demo_host ''h'') (demo_init [''crds'']) demo_registry None = (r', None) \<and>
     \<not> returns (registry_Start base_iface [] [''crds''] r')"
proof -
  obtain r' where r': "Reinitialize (demo_host ''h'') (demo_init [''crds'']) demo_registry None = (r', None)"
    "rg_collectors r' = [''crds'' \<mapsto> None]"
    by (simp add: Reinitialize_def createCollectors_def GetWithConfig_def demo_init_def create_one_def
        demo_registry_def)
  have "iter_order [''crds''] (rg_collectors r')" by (simp add: r'(2) iter_order_def)
  from nil_collector_panics [where name = "''crds''" and f = "\<lambda>_. Inr None" and ctx = "[]" and req = None
      and I = "base_iface :: (nat coll, nat) collector_iface", OF _ _ _ r'(1) this]
  have "\<not> returns (registry_Start base_iface [] [''crds''] r')"
    unfolding registry_Start_def by (simp add: demo_registry_def demo_init_def)
  with r'(1) show ?thesis by (intro exI conjI)
qed

lemma mset_concat_map_perm: "mset ns = mset ms \<Longrightarrow> mset (concat (map f ns)) = mset (concat (map f ms))"
  unfolding mset_concat map_map sum_mset_sum_list [symmetric] mset_map by simp

text \<open>C3. A scrape gathers from every collector exactly once, whatever the order in which they
  finish: each metric a collector sent is passed on, those sent before a panic included, with
  the instance attached when there is one; a panic or a nil collector is confined to its
  own collector, which gets success 0 while every other one gets success 1; two finishing
  orders give the same multiset of metrics.
\<close>

theorem scrape_isolates_panics:
  fixes I :: "('c, 'm) collector_iface"
  assumes "iter_order ns (rg_collectors r)"
  shows "(\<forall>n c. rg_collectors r n = Some (Some c) \<longrightarrow>
      (\<forall>m \<in> set (fst (ci_collect I c)).
         (if rg_instance r = '''' then Plain m else WithInstance m (rg_instance r))
           \<in> set (prom_Collect I ns d r)) \<and>
      CollectorSuccess n (if snd (ci_collect I c) = None then 1 else 0) (rg_instance r)
        \<in> set (prom_Collect I ns d r)) \<and>
    (\<forall>n. rg_collectors r n = Some None \<longrightarrow>
      CollectorSuccess n 0 (rg_instance r) \<in> set (prom_Collect I ns d r)) \<and>
    (\<forall>n v v' i i'. CollectorSuccess n v i \<in> set (prom_Collect I ns d r) \<and>
      CollectorSuccess n v' i' \<in> set (prom_Collect I ns d r) \<longrightarrow> v = v') \<and>
    (\<forall>ms. iter_order ms (rg_collectors r) \<longrightarrow>
      mset (prom_Collect I ms d r) = mset (prom_Collect I ns d r))"
proof -
  define run where "run n = collectFromCollector I n (the (rg_collectors r n)) (d n)" for n
  define wrap where "wrap = (\<lambda>m :: 'm. if rg_instance r = '''' then Plain m else WithInstance m (rg_instance r))"
  have P: "prom_Collect I ms d r = map wrap (concat (map (\<lambda>n. fst (run n)) ms)) @
      concat (map (\<lambda>n. [CollectorDuration n (cr_duration (snd (run n))) (rg_instance r),
        CollectorSuccess n (if cr_success (snd (run n)) then 1 else 0) (rg_instance r)]) ms)" for ms
  proof -
    have "cr_name (snd (run n)) = n" for n by (simp add: run_def collectFromCollector_def split: prod.split)
    then show ?thesis
      by (simp add: prom_Collect_def Let_def run_def [symmetric] wrap_def wrapMetricsWithInstance_def
          emitCollectorMetrics_def comp_def)
  qed
  have S: "CollectorSuccess n v i \<in> set (prom_Collect I ms d r) \<longleftrightarrow>
      n \<in> set ms \<and> v = (if cr_success (snd (run n)) then 1 else 0) \<and> i = rg_instance r" for n v i ms
    unfolding P by (auto simp: wrap_def)
  have run: "run n = (fst (ci_collect I c), \<lparr>cr_name = n, cr_duration = d n,
      cr_success = (snd (ci_collect I c) = None)\<rparr>)" if "rg_collectors r n = Some (Some c)" for n c
    using that by (simp add: run_def collectFromCollector_def split: prod.split)
  have nil: "run n = ([], \<lparr>cr_name = n, cr_duration = d n, cr_success = False\<rparr>)"
    if "rg_collectors r n = Some None" for n
    using that by (simp add: run_def collectFromCollector_def)
  have mem: "n \<in> set ns" if "rg_collectors r n = Some s" for n s
    using assms that by (auto simp: iter_order_def)
  have "wrap m \<in> set (prom_Collect I ns d r)"
    if "rg_collectors r n = Some (Some c)" "m \<in> set (fst (ci_collect I c))" for n c m
    unfolding P using mem [OF that(1)] run [OF that(1)] that(2) by force
  moreover have "mset (prom_Collect I ms d r) = mset (prom_Collect I ns d r)"
    if "iter_order ms (rg_collectors r)" for ms
  proof -
    have "mset ms = mset ns"
      using that assms set_eq_iff_mset_eq_distinct [of ms ns] by (simp add: iter_order_def)
    then show ?thesis unfolding P
      by (simp only: mset_append mset_map mset_concat_map_perm [of ms ns])
  qed
  ultimately show ?thesis
    using S run nil mem unfolding wrap_def by (auto split: if_splits)
qed

definition panicky :: "(bool, nat) collector_iface" where
  "panicky = \<lparr>ci_requires = (\<lambda>_. False), ci_start = (\<lambda>_ c. Ret (None, c)), ci_stop = (\<lambda>c. Ret (None, c)),
     ci_describe = (\<lambda>_. []), ci_collect = (\<lambda>c. ([1, 2], if c then Some ''boom'' else None)),
     ci_health = (\<lambda>_. None)\<rparr>"

theorem scrape_isolates_panics_witness:
  "CollectorSuccess ''a'' 0 ''i'' \<in> set (prom_Collect panicky [''a'', ''b''] (\<lambda>_. 0)
     (GetRegistry\<lparr>rg_collectors := [''a'' \<mapsto> Some True, ''b'' \<mapsto> Some False], rg_instance := ''i''\<rparr>)) \<and>
   CollectorSuccess ''b'' 1 ''i'' \<in> set (prom_Collect panicky [''a'', ''b''] (\<lambda>_. 0)
     (GetRegistry\<lparr>rg_collectors := [''a'' \<mapsto> Some True, ''b'' \<mapsto> Some False], rg_instance := ''i''\<rparr>))"
proof -
  define r where "r = GetRegistry\<lparr>rg_collectors := [''a'' \<mapsto> Some True, ''b'' \<mapsto> Some False],
      rg_instance := ''i''\<rparr>"
  have o': "iter_order [''a'', ''b''] (rg_collectors r)" by (auto simp: r_def iter_order_def)
  have "rg_collectors r ''a'' = Some (Some True)" "rg_collectors r ''b'' = Some (Some False)"
    "rg_instance r = ''i''" by (simp_all add: r_def)
  with scrape_isolates_panics [OF o', THEN conjunct1, rule_format, of _ _ panicky "\<lambda>_. 0"]
  show ?thesis unfolding r_def [symmetric] by (force simp: panicky_def)
qed

end
