(* ===== verification/Metrics_Server.thy ===== *)
theory Metrics_Server
  imports Collector_Registry Config_Loading
begin

text \<open>
  \<open>server\<close> and \<open>pkg/leaderelection\<close>: initialization, the per-collector leader electors and
  their lease names, hot reload, shutdown of the collectors, and the health and leader
  handlers. The state is the record \<open>server\<close>; what the server asks of its surroundings
  (the host, listening on an address, creating a Kubernetes client, SHA-256) is the record
  \<open>srv_env\<close>; the orders in which Go visits its maps are arguments.
\<close>

section \<open>Lease names\<close>

definition dash :: char where "dash = CHR ''-''"

definition sanitizeLeasePart :: "string \<Rightarrow> string" where
  "sanitizeLeasePart value =
     (let v = Trim_by (\<lambda>c. c = dash) (ToLower value)
      in if v = '''' then ''collector'' else v)"

text \<open>The constant \<open>maxNameLength\<close> is 63; \<open>sha\<close> is SHA-256.\<close>

definition collectorLeaseName :: "(string \<Rightarrow> nat list) \<Rightarrow> string \<Rightarrow> string \<Rightarrow> string" where
  "collectorLeaseName sha baseLeaseName collectorName =
     (let raw = baseLeaseName @ ''-'' @ collectorName
      in if length raw \<le> 63 then raw
         else
           let hashSuffix = hex_encode (take 4 (sha raw));
               collectorPart = (let p = sanitizeLeasePart collectorName
                                in if length p > 16 then take 16 p else p);
               suffix = collectorPart @ ''-'' @ hashSuffix;
               prefixBudget = 63 - int (length suffix) - 1
           in if prefixBudget \<le> 0
              then (if length suffix > 63 then take 63 suffix else suffix)
              else
                let p0 = sanitizeLeasePart baseLeaseName;
                    p1 = (if int (length p0) > prefixBudget then take (nat prefixBudget) p0 else p0);
                    p2 = Trim_by (\<lambda>c. c = dash) p1
                in if p2 = '''' then suffix else p2 @ ''-'' @ suffix)"

lemma length_sanitized_take: "length (let p = sanitizeLeasePart x in if length p > 16 then take 16 p else p) \<le> 16"
  by (simp add: Let_def)

lemma sanitize_first: "sanitizeLeasePart x \<noteq> '''' \<and> hd (sanitizeLeasePart x) \<noteq> dash"
  using Trim_by_edges(1) [of "\<lambda>c. c = dash" "ToLower x"]
  by (auto simp: sanitizeLeasePart_def Let_def dash_def)

lemma hex_digit_not_dash: "n < 16 \<Longrightarrow> hex_digit n \<noteq> dash"
proof
  assume n: "n < 16" and "hex_digit n = dash"
  then have "of_char (hex_digit n) = (45 :: nat)" by (simp add: dash_def)
  with n show False by (auto simp: hex_digit_def of_char_of split: if_splits)
qed

text \<open>A lease name always fits the 63 characters that Kubernetes allows. A short combination
  is used as it is; a long one keeps neither of its parts empty, does not start or end with a
  dash, and ends with a dash and the eight hexadecimal digits of the hash of the full
  combination.
\<close>

theorem lease_name_fits:
  assumes "length (sha (b @ ''-'' @ c)) = 32"
  shows "length (collectorLeaseName sha b c) \<le> 63 \<and>
    (length b + length c < 63 \<longrightarrow> collectorLeaseName sha b c = b @ ''-'' @ c) \<and>
    (length b + length c \<ge> 63 \<longrightarrow>
       (\<exists>p. p \<noteq> '''' \<and> collectorLeaseName sha b c = p @ ''-'' @ hex_encode (take 4 (sha (b @ ''-'' @ c)))) \<and>
       hd (collectorLeaseName sha b c) \<noteq> dash \<and> last (collectorLeaseName sha b c) \<noteq> dash)"
proof (cases "length b + length c < 63")
  case True
  then show ?thesis by (simp add: collectorLeaseName_def Let_def)
next
  case False
  define h where "h = hex_encode (take 4 (sha (b @ ''-'' @ c)))"
  define cp where "cp = (let p = sanitizeLeasePart c in if length p > 16 then take 16 p else p)"
  define s where "s = cp @ ''-'' @ h"
  define p2 where "p2 = Trim_by (\<lambda>x. x = dash) (let p0 = sanitizeLeasePart b in
      if int (length p0) > 62 - int (length s) then take (nat (62 - int (length s))) p0 else p0)"
  have h8: "length h = 8" using assms(1) by (simp add: h_def)
  have cp: "length cp \<le> 16" "cp \<noteq> ''''" "hd cp \<noteq> dash"
    using sanitize_first [of c] by (auto simp: cp_def Let_def hd_take)
  have budget: "62 - int (length s) > 0" using h8 cp(1) by (simp add: s_def)
  have eq: "collectorLeaseName sha b c = (if p2 = '''' then s else p2 @ ''-'' @ s)"
    using False budget unfolding collectorLeaseName_def
    by (simp add: Let_def s_def [unfolded cp_def h_def Let_def] p2_def)
  have "length p2 \<le> nat (62 - int (length s))"
    unfolding p2_def by (rule order.trans [OF length_Trim_by]) (auto simp: Let_def)
  with budget have len: "length (collectorLeaseName sha b c) \<le> 63"
    using h8 cp(1) by (auto simp: eq s_def)
  obtain ys y where y: "h = ys @ [hex_digit y]" "y < 16"
  proof -
    obtain xs x where t: "take 4 (sha (b @ ''-'' @ c)) = xs @ [x]"
      using assms(1) by (cases "take 4 (sha (b @ ''-'' @ c))" rule: rev_cases) auto
    have "h = (hex_encode xs @ [hex_digit (x div 16)]) @ [hex_digit (x mod 16)]"
      unfolding h_def t by (simp add: hex_encode_def)
    then show ?thesis by (rule that) simp
  qed
  have last: "last h \<noteq> dash" "h \<noteq> ''''" using y hex_digit_not_dash by auto
  have "hd (collectorLeaseName sha b c) \<noteq> dash"
    using cp Trim_by_edges(1) [of "\<lambda>x. x = dash"] by (auto simp: eq s_def p2_def)
  moreover have "\<exists>p. p \<noteq> '''' \<and> collectorLeaseName sha b c = p @ ''-'' @ h"
    using cp(2) by (auto simp: eq s_def intro: exI [of _ cp] exI [of _ "p2 @ ''-'' @ cp"])
  moreover have "last (collectorLeaseName sha b c) \<noteq> dash"
    using last by (auto simp: eq s_def)
  ultimately show ?thesis using len False unfolding h_def by auto
qed

theorem lease_name_fits_witness:
  "length (collectorLeaseName (\<lambda>_. replicate 32 171) (replicate 60 CHR ''a'') ''database'') \<le> 63"
  using lease_name_fits [of "\<lambda>_. replicate 32 171" "replicate 60 CHR ''a''" "''database''"] by simp

section \<open>Leader electors\<close>

record elector_config =
  elc_Namespace :: string
  elc_LeaseName :: string
  elc_Identity :: string
  elc_LeaseDuration :: int
  elc_RenewDeadline :: int
  elc_RetryPeriod :: int

record elector =
  el_config :: elector_config
  el_isLeader :: bool
  el_currentLeader :: string

text \<open>\<open>client\<close> is \<open>None\<close> for a nil client; the configuration is never nil here.\<close>

definition NewLeaderElector :: "elector_config \<Rightarrow> nat option \<Rightarrow> elector res" where
  "NewLeaderElector cfg client =
     (if elc_Identity cfg = '''' then Inl ''identity cannot be empty''
      else if client = None then Inl ''client cannot be nil''
      else Inr \<lparr>el_config = cfg, el_isLeader = False, el_currentLeader = ''''\<rparr>)"

section \<open>The server\<close>

record srv_env =
  ev_host :: host_env
  ev_listen :: "string \<Rightarrow> err option"
  ev_kube :: "client_config \<Rightarrow> nat option res"
  ev_sha256 :: "string \<Rightarrow> nat list"

text \<open>\<open>sv_debug\<close> is the debug server: its address and whether it is listening.\<close>

record 'c server =
  sv_config :: GlobalConfig
  sv_configContent :: string
  sv_registry :: "'c registry"
  sv_identity :: identity_state
  sv_clientProvider :: "client_config option"
  sv_serverCtx :: "ctx option"
  sv_leaderElectors :: "string \<Rightarrow> elector option"
  sv_debug :: "(string \<times> bool) option"

definition server_New :: "'c registry \<Rightarrow> identity_state \<Rightarrow> GlobalConfig \<Rightarrow> string \<Rightarrow> 'c server" where
  "server_New r st cfg content = \<lparr>sv_config = cfg, sv_configContent = content, sv_registry = r,
     sv_identity = st, sv_clientProvider = None, sv_serverCtx = None,
     sv_leaderElectors = Map.empty, sv_debug = None\<rparr>"

definition NewClientProvider :: "GlobalConfig \<Rightarrow> client_config" where
  "NewClientProvider cfg = \<lparr>cl_Kubeconfig = kc_Kubeconfig (gc_Kubernetes cfg),
     cl_QPS = kc_QPS (gc_Kubernetes cfg), cl_Burst = kc_Burst (gc_Kubernetes cfg)\<rparr>"

definition getKubernetesClient :: "srv_env \<Rightarrow> 'c server \<Rightarrow> nat option res" where
  "getKubernetesClient E s = (case sv_clientProvider s of
     None \<Rightarrow> Inl ''client provider not initialized'' | Some p \<Rightarrow> ev_kube E p)"

definition buildInitConfig :: "'c server \<Rightarrow> init_config" where
  "buildInitConfig s = (let c = sv_config s in
     \<lparr>ic_Ctx = (case sv_serverCtx s of Some cx \<Rightarrow> cx | None \<Rightarrow> []),
      ic_ClientProvider = sv_clientProvider s, ic_ConfigContent = sv_configContent s,
      ic_Identity = gc_Identity c, ic_NodeName = gc_NodeName c, ic_PodName = gc_PodName c,
      ic_MetricsNamespace = gc_MetricsNamespace c,
      ic_InformerResyncPeriod = gc_InformerResyncPeriod c,
      ic_EnabledCollectors = gc_EnabledCollectors c\<rparr>)"

definition buildLeaderElectionConfig :: "srv_env \<Rightarrow> 'c server \<Rightarrow> string
    \<Rightarrow> elector_config \<times> identity_state" where
  "buildLeaderElectionConfig E s collectorName =
     (let c = sv_config s; le = gc_LeaderElection c;
          (i, st) = GetWithConfig (ev_host E) (sv_identity s) (gc_Identity c) (gc_NodeName c) (gc_PodName c)
      in (\<lparr>elc_Namespace = lec_Namespace le,
           elc_LeaseName = collectorLeaseName (ev_sha256 E) (lec_LeaseName le) collectorName,
           elc_Identity = i, elc_LeaseDuration = lec_LeaseDuration le,
           elc_RenewDeadline = lec_RenewDeadline le, elc_RetryPeriod = lec_RetryPeriod le\<rparr>, st))"

text \<open>
  The loop of \<open>setupLeaderElections\<close>: one handle per name. When a constructor fails the
  handles made so far are cancelled and waited for, and none is kept.
\<close>

fun make_electors :: "srv_env \<Rightarrow> nat option \<Rightarrow> string list \<Rightarrow> 'c server
    \<Rightarrow> (string \<Rightarrow> elector option) \<Rightarrow> err option \<times> 'c server" where
  "make_electors E client [] s handles = (None, s\<lparr>sv_leaderElectors := handles\<rparr>)"
| "make_electors E client (n # ns) s handles =
     (let (cfg, st) = buildLeaderElectionConfig E s n; s' = s\<lparr>sv_identity := st\<rparr>
      in case NewLeaderElector cfg client of
           Inl e \<Rightarrow> (Some (''failed to create leader elector for collector '' @ n @ '': '' @ e), s')
         | Inr el \<Rightarrow> make_electors E client ns s' (handles(n \<mapsto> el)))"

definition setupLeaderElections :: "('c, 'm) collector_iface \<Rightarrow> srv_env \<Rightarrow> string list \<Rightarrow> 'c server
    \<Rightarrow> (err option \<times> 'c server) go" where
  "setupLeaderElections I E ns s = (case getKubernetesClient E s of
       Inl e \<Rightarrow> Ret (Some (''failed to get Kubernetes client for leader election: '' @ e), s)
     | Inr client \<Rightarrow>
         bind_go (ListCollectorsByLeaderRequirement I True ns (sv_registry s)) (\<lambda>names.
           if names = [] then Ret (None, s) else Ret (make_electors E client names s Map.empty)))"

text \<open>
  Cancelling an elector ends its \<open>Run\<close>, whose documented last act is \<open>OnStoppedLeading\<close>;
  that callback stops the collector and logs the error. \<open>ns\<close> is the order of the waits.
\<close>

fun stop_electors :: "('c, 'm) collector_iface \<Rightarrow> string list \<Rightarrow> 'c registry \<Rightarrow> 'c registry go" where
  "stop_electors I [] r = Ret r"
| "stop_electors I (n # ns) r = bind_go (StopCollector I n r) (\<lambda>(_, r'). stop_electors I ns r')"

definition stopLeaderElections :: "('c, 'm) collector_iface \<Rightarrow> string list \<Rightarrow> 'c server \<Rightarrow> 'c server go" where
  "stopLeaderElections I ns s =
     bind_go (stop_electors I ns (sv_registry s)) (\<lambda>r.
       Ret (s\<lparr>sv_registry := r, sv_leaderElectors := Map.empty\<rparr>))"

definition isCollectorLeader :: "'c server \<Rightarrow> string \<Rightarrow> bool" where
  "isCollectorLeader s n = (case sv_leaderElectors s n of None \<Rightarrow> False | Some e \<Rightarrow> el_isLeader e)"

section \<open>Starting, stopping and reloading the collectors\<close>

text \<open>
  The orders in which one reload visits its maps: each is a ranking of names, and a map is
  visited in the order of its names in the ranking.
\<close>

record orders =
  od_electors :: "string list"
  od_stop :: "string list"
  od_start :: "string list"
  od_list :: "string list"

definition order_of :: "string list \<Rightarrow> (string \<Rightarrow> 'v option) \<Rightarrow> string list" where
  "order_of ranking m = filter (\<lambda>n. m n \<noteq> None) ranking"

definition server_startCollectors :: "('c, 'm) collector_iface \<Rightarrow> srv_env \<Rightarrow> orders \<Rightarrow> 'c server
    \<Rightarrow> (err option \<times> 'c server) go" where
  "server_startCollectors I E od s =
     (let cx = (case sv_serverCtx s of Some cx \<Rightarrow> cx | None \<Rightarrow> []) in
      if \<not> lec_Enabled (gc_LeaderElection (sv_config s))
      then bind_go (registry_Start I cx (order_of (od_start od) (rg_collectors (sv_registry s))) (sv_registry s)) (\<lambda>(e, r).
             Ret (e, s\<lparr>sv_registry := r\<rparr>))
      else bind_go (StartNonLeaderCollectors I cx (order_of (od_start od) (rg_collectors (sv_registry s))) (sv_registry s)) (\<lambda>(_, r).
             setupLeaderElections I E (order_of (od_list od) (rg_collectors r)) (s\<lparr>sv_registry := r\<rparr>)))"

definition server_stopCollectors :: "('c, 'm) collector_iface \<Rightarrow> orders \<Rightarrow> 'c server
    \<Rightarrow> (err option \<times> 'c server) go" where
  "server_stopCollectors I od s =
     (if lec_Enabled (gc_LeaderElection (sv_config s))
      then bind_go (stopLeaderElections I (order_of (od_electors od) (sv_leaderElectors s)) s) (\<lambda>s1.
             bind_go (StopNonLeaderCollectors I (order_of (od_stop od) (rg_collectors (sv_registry s1))) (sv_registry s1)) (\<lambda>(e, r).
               Ret (e, s1\<lparr>sv_registry := r\<rparr>)))
      else bind_go (registry_Stop I (order_of (od_stop od) (rg_collectors (sv_registry s))) (sv_registry s)) (\<lambda>(e, r).
             Ret (e, s\<lparr>sv_registry := r\<rparr>)))"

definition reinitializeAndStartCollectors :: "('c, 'm) collector_iface \<Rightarrow> srv_env \<Rightarrow> orders \<Rightarrow> 'c server
    \<Rightarrow> (err option \<times> 'c server) go" where
  "reinitializeAndStartCollectors I E od s =
     (let (r, st) = Reinitialize (ev_host E) (buildInitConfig s) (sv_registry s) (sv_identity s)
      in bind_go (server_startCollectors I E od (s\<lparr>sv_registry := r, sv_identity := st\<rparr>)) (\<lambda>(e, s').
           Ret (map_option (\<lambda>m. ''failed to start collectors: '' @ m) e, s')))"

definition debug_address :: "GlobalConfig \<Rightarrow> string" where
  "debug_address c = ''127.0.0.1:'' @ Itoa (ds_Port (gc_DebugServer c))"

text \<open>A running debug server is stopped first; \<open>Stop\<close> of an HTTP server never fails. The
  handler of the debug server has no authentication and cannot fail to be built.\<close>

definition reloadDebugServer :: "srv_env \<Rightarrow> 'c server \<Rightarrow> err option \<times> 'c server" where
  "reloadDebugServer E s =
     (let s1 = s\<lparr>sv_debug := None\<rparr>
      in if ds_Enabled (gc_DebugServer (sv_config s1))
         then (let addr = debug_address (sv_config s1)
               in case ev_listen E addr of
                    Some e \<Rightarrow> (Some (''failed to start debug server: '' @ e), s1\<lparr>sv_debug := Some (addr, False)\<rparr>)
                  | None \<Rightarrow> (None, s1\<lparr>sv_debug := Some (addr, True)\<rparr>))
         else (None, s1))"

text \<open>The middle of \<open>Reload\<close>: the comparisons are made before the new configuration is
  applied; a failing debug server is logged.\<close>

definition reload_config :: "srv_env \<Rightarrow> string \<Rightarrow> GlobalConfig \<Rightarrow> 'c server \<Rightarrow> 'c server" where
  "reload_config E newContent newConfig s1 =
     (let k8sChanged = \<not> KubernetesConfig_Equal (gc_Kubernetes (sv_config s1)) (gc_Kubernetes newConfig);
          debugChanged = \<not> DebugServerConfig_Equal (gc_DebugServer (sv_config s1)) (gc_DebugServer newConfig);
          s2 = s1\<lparr>sv_config := ApplyHotReload (sv_config s1) newConfig, sv_configContent := newContent\<rparr>;
          s3 = (if debugChanged then snd (reloadDebugServer E s2) else s2)
      in if k8sChanged then s3\<lparr>sv_clientProvider := Some (NewClientProvider (sv_config s3))\<rparr> else s3)"

definition Reload :: "('c, 'm) collector_iface \<Rightarrow> srv_env \<Rightarrow> orders \<Rightarrow> string \<Rightarrow> GlobalConfig \<Rightarrow> 'c server
    \<Rightarrow> (err option \<times> 'c server) go" where
  "Reload I E od newContent newConfig s =
     (if sv_serverCtx s = None then Ret (Some ''server not running, context is nil'', s)
      else bind_go (server_stopCollectors I od s) (\<lambda>(_, s1).
        bind_go (reinitializeAndStartCollectors I E od (reload_config E newContent newConfig s1)) (\<lambda>(e, s5).
          Ret (map_option (\<lambda>m. ''failed to reinitialize collectors: '' @ m) e, s5))))"

definition Init :: "('c, 'm) collector_iface \<Rightarrow> srv_env \<Rightarrow> orders \<Rightarrow> ctx \<Rightarrow> 'c server
    \<Rightarrow> (err option \<times> 'c server) go" where
  "Init I E od cx s =
     (let s1 = s\<lparr>sv_serverCtx := Some cx, sv_clientProvider := Some (NewClientProvider (sv_config s))\<rparr>
      in case Initialize (ev_host E) (buildInitConfig s1) (sv_registry s1) (sv_identity s1) of
           (Some e, r, st) \<Rightarrow> Ret (Some (''failed to initialize collectors: '' @ e), s1\<lparr>sv_registry := r, sv_identity := st\<rparr>)
         | (None, r, st) \<Rightarrow> server_startCollectors I E od (s1\<lparr>sv_registry := r, sv_identity := st\<rparr>))"

text \<open>The collector part of \<open>Shutdown\<close>; its errors are logged.\<close>

definition Shutdown :: "('c, 'm) collector_iface \<Rightarrow> orders \<Rightarrow> 'c server \<Rightarrow> 'c server go" where
  "Shutdown I od s = bind_go (server_stopCollectors I od (s\<lparr>sv_debug :=
       map_option (\<lambda>(a, _). (a, False)) (sv_debug s)\<rparr>)) (\<lambda>(_, s'). Ret s')"

section \<open>Handlers\<close>

definition should_check :: "('c, 'm) collector_iface \<Rightarrow> 'c server \<Rightarrow> string \<Rightarrow> 'c \<Rightarrow> bool" where
  "should_check I s n c =
     (if \<not> lec_Enabled (gc_LeaderElection (sv_config s)) then True
      else if ci_requires I c then isCollectorLeader s n else True)"

fun health_loop :: "('c, 'm) collector_iface \<Rightarrow> 'c server \<Rightarrow> string list \<Rightarrow> (string \<times> err) list go" where
  "health_loop I s [] = Ret []"
| "health_loop I s (n # ns) = (case rg_collectors (sv_registry s) n of
     Some (Some c) \<Rightarrow> bind_go (health_loop I s ns) (\<lambda>rest. Ret (
        if should_check I s n c then (case ci_health I c of Some e \<Rightarrow> (n, e) # rest | None \<Rightarrow> rest)
        else rest))
   | _ \<Rightarrow> nil_deref)"

text \<open>The response: status code, the flag \<open>status\<close> and the entries of \<open>unhealthy\<close>.
  \<open>ns\<close> and \<open>fs\<close> are the orders of the collectors and of the failed collectors.\<close>

definition handleHealth :: "('c, 'm) collector_iface \<Rightarrow> string list \<Rightarrow> string list \<Rightarrow> 'c server
    \<Rightarrow> (nat \<times> bool \<times> (string \<times> err) list) go" where
  "handleHealth I ns fs s =
     bind_go (health_loop I s ns) (\<lambda>bad.
       let unhealthy = bad @ map (\<lambda>f. (f, the (rg_failed (sv_registry s) f))) fs;
           allHealthy = (unhealthy = [])
       in Ret (if allHealthy then 200 else 503, allHealthy, unhealthy))"

definition handleLeader :: "string list \<Rightarrow> 'c server \<Rightarrow> bool \<times> bool \<times> (string \<times> bool \<times> string \<times> string \<times> string) list" where
  "handleLeader ns s =
     (if \<not> lec_Enabled (gc_LeaderElection (sv_config s)) then (False, True, [])
      else let statuses = concat (map (\<lambda>n. case sv_leaderElectors s n of None \<Rightarrow> []
             | Some e \<Rightarrow> [(n, el_isLeader e, el_currentLeader e, elc_Identity (el_config e),
                          elc_LeaseName (el_config e))]) ns)
           in (True, (\<exists>(_, l, _) \<in> set statuses. l), statuses))"

section \<open>Events of the electors\<close>

text \<open>The callbacks that \<open>LeaderElector.Run\<close> installs, together with those of the server. The flag \<open>current\<close> tells whether
  the elector that calls is the one in the map of the server; an elector that has been replaced or removed keeps its state
  to itself, but the closures act on the registry of the server all the same.\<close>

datatype elector_event =
    StartedLeading string ctx
  | StoppedLeading string
  | NewLeader string string

fun elector_name :: "elector_event \<Rightarrow> string" where
  "elector_name (StartedLeading n cx) = n"
| "elector_name (StoppedLeading n) = n"
| "elector_name (NewLeader n i) = n"

definition mark_elector :: "bool \<Rightarrow> (elector \<Rightarrow> elector) \<Rightarrow> string \<Rightarrow> 'c server \<Rightarrow> 'c server" where
  "mark_elector current f n s = (if current then s\<lparr>sv_leaderElectors :=
     (sv_leaderElectors s)(n := map_option f (sv_leaderElectors s n))\<rparr> else s)"

fun elector_callback :: "('c, 'm) collector_iface \<Rightarrow> bool \<Rightarrow> elector_event \<Rightarrow> 'c server \<Rightarrow> 'c server go" where
  "elector_callback I current (StartedLeading n cx) s =
     (let s1 = mark_elector current (\<lambda>el. el\<lparr>el_isLeader := True\<rparr>) n s
      in bind_go (StartCollector I cx n (sv_registry s1)) (\<lambda>(_, r). Ret (s1\<lparr>sv_registry := r\<rparr>)))"
| "elector_callback I current (StoppedLeading n) s =
     (let s1 = mark_elector current (\<lambda>el. el\<lparr>el_isLeader := False\<rparr>) n s
      in bind_go (StopCollector I n (sv_registry s1)) (\<lambda>(_, r). Ret (s1\<lparr>sv_registry := r\<rparr>)))"
| "elector_callback I current (NewLeader n i) s = Ret (mark_elector current (\<lambda>el. el\<lparr>el_currentLeader := i\<rparr>) n s)"

text \<open>\<open>OnStoppedLeading\<close> is run before \<open>Run\<close> returns, which the server waits for, but \<open>OnStartedLeading\<close> has a goroutine
  of its own. It is in time when its elector is still the one in the map.\<close>

definition in_time :: "bool \<Rightarrow> elector_event \<Rightarrow> 'c server \<Rightarrow> bool" where
  "in_time current ev s \<longleftrightarrow> (case ev of
     StartedLeading n cx \<Rightarrow> current \<and> sv_leaderElectors s n \<noteq> None | _ \<Rightarrow> True)"

lemma mark_elector_fields [simp]:
  "sv_registry (mark_elector b f n s) = sv_registry s" "sv_config (mark_elector b f n s) = sv_config s"
  "sv_identity (mark_elector b f n s) = sv_identity s" "sv_serverCtx (mark_elector b f n s) = sv_serverCtx s"
  "sv_leaderElectors (mark_elector b f n s) k = None \<longleftrightarrow> sv_leaderElectors s k = None"
  "(\<exists>el. sv_leaderElectors (mark_elector b f n s) k = Some el) \<longleftrightarrow> (\<exists>el. sv_leaderElectors s k = Some el)"
  by (simp_all add: mark_elector_def)

section \<open>The server against the contract of its collectors\<close>

lemma order_of_iter: "distinct pi \<Longrightarrow> dom m \<subseteq> set pi \<Longrightarrow> iter_order (order_of pi m) m"
  by (auto simp: iter_order_def order_of_def)

definition orders_cover :: "orders \<Rightarrow> string set \<Rightarrow> bool" where
  "orders_cover od N \<longleftrightarrow> distinct (od_electors od) \<and> N \<subseteq> set (od_electors od) \<and>
     distinct (od_stop od) \<and> N \<subseteq> set (od_stop od) \<and> distinct (od_start od) \<and> N \<subseteq> set (od_start od) \<and>
     distinct (od_list od) \<and> N \<subseteq> set (od_list od)"

lemma make_electors_frame:
  "make_electors E client ns s h = (e, s') \<Longrightarrow>
     sv_config s' = sv_config s \<and> sv_configContent s' = sv_configContent s \<and>
     sv_registry s' = sv_registry s \<and> sv_serverCtx s' = sv_serverCtx s \<and>
     sv_clientProvider s' = sv_clientProvider s \<and> sv_debug s' = sv_debug s \<and>
     (identity_ok (sv_identity s) \<longrightarrow> identity_ok (sv_identity s')) \<and>
     (sv_leaderElectors s' = sv_leaderElectors s \<or>
      dom (sv_leaderElectors s') \<subseteq> dom h \<union> set ns)"
proof (induction ns arbitrary: s h)
  case (Cons n ns)
  obtain cfg st where b: "buildLeaderElectionConfig E s n = (cfg, st)" by fastforce
  have st: "identity_ok (sv_identity s) \<longrightarrow> identity_ok st"
    using b GetWithConfig_ok(2) by (auto simp: buildLeaderElectionConfig_def Let_def split: prod.splits)
  show ?case
  proof (cases "NewLeaderElector cfg client")
    case (Inl m)
    then show ?thesis using Cons.prems b st by (auto simp: Let_def)
  next
    case (Inr el)
    then have "make_electors E client ns (s\<lparr>sv_identity := st\<rparr>) (h(n \<mapsto> el)) = (e, s')"
      using Cons.prems b by (simp add: Let_def)
    from Cons.IH [OF this] st show ?thesis by auto
  qed
qed auto

context collector_contract
begin

lemma call_stop:
  assumes "slots_ok good (rg_collectors r)"
  shows "\<exists>e r'. StopCollector I n r = Ret (e, r') \<and> slots_ok good (rg_collectors r') \<and>
    dom (rg_collectors r') = dom (rg_collectors r) \<and> rg_factories r' = rg_factories r \<and>
    (\<forall>k c. rg_collectors r k = Some (Some c) \<longrightarrow> (\<exists>c'. rg_collectors r' k = Some (Some c') \<and>
       ci_requires I c' = ci_requires I c \<and> (k = n \<or> \<not> running c \<longrightarrow> \<not> running c')))"
proof (cases "rg_collectors r n")
  case None
  then show ?thesis using assms by (auto simp: StopCollector_def call_one_def)
next
  case (Some so)
  then obtain c where c: "so = Some c" "good c" using assms by (auto simp: slots_ok_def)
  from stop_law [OF c(2)] obtain e c' where s: "ci_stop I c = Ret (e, c')" "good c'"
    "ci_requires I c' = ci_requires I c" "\<not> running c'" by auto
  with Some c assms show ?thesis
    by (auto simp: StopCollector_def call_one_def slots_ok_def)
qed

lemma stop_electors_ok:
  assumes "slots_ok good (rg_collectors r)"
  shows "\<exists>r'. stop_electors I ns r = Ret r' \<and> slots_ok good (rg_collectors r') \<and>
    dom (rg_collectors r') = dom (rg_collectors r) \<and> rg_factories r' = rg_factories r \<and>
    (\<forall>k c. rg_collectors r k = Some (Some c) \<longrightarrow> (\<exists>c'. rg_collectors r' k = Some (Some c') \<and>
       ci_requires I c' = ci_requires I c \<and> (k \<in> set ns \<or> \<not> running c \<longrightarrow> \<not> running c')))"
  using assms
proof (induction ns arbitrary: r)
  case Nil
  then show ?case by auto
next
  case (Cons n ns)
  from call_stop [OF Cons.prems, of n] obtain e r1 where r1: "StopCollector I n r = Ret (e, r1)"
    "slots_ok good (rg_collectors r1)" "dom (rg_collectors r1) = dom (rg_collectors r)"
    "rg_factories r1 = rg_factories r"
    "\<And>k c. rg_collectors r k = Some (Some c) \<Longrightarrow> \<exists>c'. rg_collectors r1 k = Some (Some c') \<and>
       ci_requires I c' = ci_requires I c \<and> (k = n \<or> \<not> running c \<longrightarrow> \<not> running c')"
    by auto
  from Cons.IH [OF r1(2)] obtain r2 where r2: "stop_electors I ns r1 = Ret r2"
    "slots_ok good (rg_collectors r2)" "dom (rg_collectors r2) = dom (rg_collectors r1)"
    "rg_factories r2 = rg_factories r1"
    "\<And>k c. rg_collectors r1 k = Some (Some c) \<Longrightarrow> \<exists>c'. rg_collectors r2 k = Some (Some c') \<and>
       ci_requires I c' = ci_requires I c \<and> (k \<in> set ns \<or> \<not> running c \<longrightarrow> \<not> running c')"
    by auto
  have "\<exists>c'. rg_collectors r2 k = Some (Some c') \<and> ci_requires I c' = ci_requires I c \<and>
      (k \<in> set (n # ns) \<or> \<not> running c \<longrightarrow> \<not> running c')" if "rg_collectors r k = Some (Some c)" for k c
    using r1(5) [OF that] r2(5) by fastforce
  with r1 r2 show ?case by auto
qed

text \<open>The part of the state that leader election relies on: a running collector that needs
  a leader has an elector that will stop it.\<close>

definition covered :: "'c server \<Rightarrow> bool" where
  "covered s \<longleftrightarrow> slots_ok good (rg_collectors (sv_registry s)) \<and>
     (lec_Enabled (gc_LeaderElection (sv_config s)) \<longrightarrow>
        (\<forall>n c. rg_collectors (sv_registry s) n = Some (Some c) \<and> ci_requires I c \<and> running c
           \<longrightarrow> sv_leaderElectors s n \<noteq> None))"

lemma stopCollectors_clean:
  assumes "covered s" "orders_cover od (dom (rg_collectors (sv_registry s)) \<union> dom (sv_leaderElectors s))"
  shows "\<exists>e s1. server_stopCollectors I od s = Ret (e, s1) \<and>
    slots_ok (\<lambda>c. good c \<and> \<not> running c) (rg_collectors (sv_registry s1)) \<and>
    rg_factories (sv_registry s1) = rg_factories (sv_registry s) \<and>
    sv_config s1 = sv_config s \<and> sv_identity s1 = sv_identity s \<and> sv_serverCtx s1 = sv_serverCtx s \<and>
    sv_clientProvider s1 = sv_clientProvider s"
proof (cases "lec_Enabled (gc_LeaderElection (sv_config s))")
  case False
  have "iter_order (order_of (od_stop od) (rg_collectors (sv_registry s))) (rg_collectors (sv_registry s))"
    using assms(2) by (intro order_of_iter) (auto simp: orders_cover_def)
  from stop_eq [OF this, of None] assms(1) obtain e where
    e: "call_selected I (ci_stop I) ''stop'' None (order_of (od_stop od) (rg_collectors (sv_registry s)))
      (sv_registry s) = Ret (e, (sv_registry s)\<lparr>rg_collectors :=
        updated (ci_stop I) (matches I None) (rg_collectors (sv_registry s))\<rparr>)"
    by (auto simp: covered_def)
  have "slots_ok (\<lambda>c. good c \<and> \<not> running c)
      (updated (ci_stop I) (matches I None) (rg_collectors (sv_registry s)))"
    using assms(1) stop_outcome(1,3)
    by (fastforce simp: covered_def slots_ok_def updated_def matches_def split: option.splits)
  with e False show ?thesis by (simp add: server_stopCollectors_def registry_Stop_def)
next
  case True
  let ?es = "order_of (od_electors od) (sv_leaderElectors s)"
  have es: "set ?es = dom (sv_leaderElectors s)"
    using assms(2) by (auto simp: order_of_def orders_cover_def)
  have good: "slots_ok good (rg_collectors (sv_registry s))" using assms(1) by (simp add: covered_def)
  from stop_electors_ok [OF good, of ?es] obtain r1 where r1: "stop_electors I ?es (sv_registry s) = Ret r1"
    "slots_ok good (rg_collectors r1)" "dom (rg_collectors r1) = dom (rg_collectors (sv_registry s))"
    "rg_factories r1 = rg_factories (sv_registry s)"
    "\<And>k c. rg_collectors (sv_registry s) k = Some (Some c) \<Longrightarrow> \<exists>c'. rg_collectors r1 k = Some (Some c') \<and>
       ci_requires I c' = ci_requires I c \<and> (k \<in> set ?es \<or> \<not> running c \<longrightarrow> \<not> running c')" by auto
  have leaders: "\<not> running c'" if c': "rg_collectors r1 k = Some (Some c')" "ci_requires I c'" for k c'
  proof -
    have "k \<in> dom (rg_collectors (sv_registry s))" using r1(3) c'(1) by blast
    then obtain c where c: "rg_collectors (sv_registry s) k = Some (Some c)"
      using slots_okD [OF good] by blast
    then show ?thesis using r1(5) [OF c] c' assms(1) True es by (fastforce simp: covered_def)
  qed
  let ?ns = "order_of (od_stop od) (rg_collectors r1)"
  have "iter_order ?ns (rg_collectors r1)"
    using assms(2) r1(3) by (intro order_of_iter) (auto simp: orders_cover_def)
  from stop_eq [OF this r1(2), of "Some False"] obtain e where
    e: "call_selected I (ci_stop I) ''stop'' (Some False) ?ns r1 = Ret (e, r1\<lparr>rg_collectors :=
        updated (ci_stop I) (matches I (Some False)) (rg_collectors r1)\<rparr>)" by auto
  have "slots_ok (\<lambda>c. good c \<and> \<not> running c)
      (updated (ci_stop I) (matches I (Some False)) (rg_collectors r1))"
    unfolding slots_ok_def
  proof (intro allI impI)
    fix n so assume u: "updated (ci_stop I) (matches I (Some False)) (rg_collectors r1) n = Some so"
    then have "rg_collectors r1 n \<noteq> None" by (auto simp: updated_def split: option.splits)
    then obtain c where "rg_collectors r1 n = Some (Some c)" "good c"
      using slots_okD [OF r1(2), of n] by auto
    then show "\<exists>c. so = Some c \<and> good c \<and> \<not> running c"
      using u leaders [of n c] stop_outcome(1,3) [of c] by (auto simp: updated_def matches_def)
  qed
  with e r1 True show ?thesis
    by (simp add: server_stopCollectors_def stopLeaderElections_def StopNonLeaderCollectors_def)
qed

text \<open>Starting fresh collectors, with or without leader election, restores \<open>covered\<close>.\<close>

lemma startCollectors_covered:
  assumes "slots_ok (\<lambda>c. good c \<and> \<not> running c) (rg_collectors (sv_registry s))"
    and "orders_cover od (dom (rg_collectors (sv_registry s)))" "identity_ok (sv_identity s)"
  shows "\<exists>e s'. server_startCollectors I E od s = Ret (e, s') \<and> covered s' \<and>
    sv_config s' = sv_config s \<and> sv_configContent s' = sv_configContent s \<and>
    identity_ok (sv_identity s') \<and> sv_serverCtx s' = sv_serverCtx s \<and>
    rg_factories (sv_registry s') = rg_factories (sv_registry s) \<and>
    rg_failed (sv_registry s') = rg_failed (sv_registry s) \<and>
    dom (rg_collectors (sv_registry s')) = dom (rg_collectors (sv_registry s))"
proof -
  define cx where "cx = (case sv_serverCtx s of Some cx \<Rightarrow> cx | None \<Rightarrow> [])"
  let ?cs = "rg_collectors (sv_registry s)" and ?ns = "order_of (od_start od) (rg_collectors (sv_registry s))"
  have good: "slots_ok good ?cs" using assms(1) by (fastforce simp: slots_ok_def)
  have ns: "iter_order ?ns ?cs"
    using assms(2) by (intro order_of_iter) (auto simp: orders_cover_def)
  show ?thesis
  proof (cases "lec_Enabled (gc_LeaderElection (sv_config s))")
    case False
    from start_eq [OF ns good, of cx None] obtain e where "startCollectors I cx None ?ns (sv_registry s) =
        Ret (e, (sv_registry s)\<lparr>rg_collectors := updated (ci_start I cx) (matches I None) ?cs\<rparr>)" by auto
    then show ?thesis using False assms(3) updated_good(1) [OF good]
      by (simp add: server_startCollectors_def registry_Start_def cx_def [symmetric] covered_def)
  next
    case True
    define r1 where "r1 = (sv_registry s)\<lparr>rg_collectors := updated (ci_start I cx) (matches I (Some False)) ?cs\<rparr>"
    from start_eq [OF ns good, of cx "Some False"] obtain e where
      e: "startCollectors I cx (Some False) ?ns (sv_registry s) = Ret (e, r1)" by (auto simp: r1_def)
    have g1: "slots_ok good (rg_collectors r1)" using updated_good(1) [OF good] by (simp add: r1_def)
    have nr: "\<not> running c" if "rg_collectors r1 n = Some (Some c)" "ci_requires I c" for n c
    proof -
      have "?cs n \<noteq> None" using that(1) by (auto simp: r1_def updated_def split: option.splits)
      then obtain c0 where "?cs n = Some (Some c0)" "good c0" "\<not> running c0"
        using slots_okD [OF assms(1), of n] by auto
      then show ?thesis using that start_outcome(2) [of c0 cx]
        by (auto simp: r1_def updated_def matches_def split: if_splits)
    qed
    define s1 where "s1 = s\<lparr>sv_registry := r1\<rparr>"
    have cov: "covered s2" if "sv_registry s2 = r1" for s2
      using that g1 nr by (auto simp: covered_def)
    have start: "server_startCollectors I E od s =
        setupLeaderElections I E (order_of (od_list od) (rg_collectors r1)) s1"
      using True e by (simp add: server_startCollectors_def StartNonLeaderCollectors_def
          cx_def [symmetric] s1_def)
    have sel: "\<exists>names. ListCollectorsByLeaderRequirement I True (order_of (od_list od) (rg_collectors r1)) r1 = Ret names"
    proof -
      have "set (order_of (od_list od) (rg_collectors r1)) \<subseteq> dom (rg_collectors r1)"
        by (auto simp: order_of_def)
      from select_names_eq [OF g1 this, of I "Some True"] show ?thesis
        by (simp add: ListCollectorsByLeaderRequirement_def)
    qed
    then obtain names where names: "ListCollectorsByLeaderRequirement I True
        (order_of (od_list od) (rg_collectors r1)) (sv_registry s1) = Ret names" by (auto simp: s1_def)
    obtain e2 s2 where s2: "setupLeaderElections I E (order_of (od_list od) (rg_collectors r1)) s1 = Ret (e2, s2)"
      "sv_registry s2 = r1" "sv_config s2 = sv_config s" "sv_configContent s2 = sv_configContent s"
      "identity_ok (sv_identity s2)" "sv_serverCtx s2 = sv_serverCtx s"
    proof (cases "getKubernetesClient E s1")
      case (Inl m)
      then show ?thesis using that assms(3) by (simp add: setupLeaderElections_def s1_def)
    next
      case (Inr client)
      obtain e3 s3 where m: "make_electors E client names s1 Map.empty = (e3, s3)" by fastforce
      from make_electors_frame [OF m] that [of e3 s3] that [of None s1] Inr names m assms(3)
      show ?thesis by (cases "names = []") (simp_all add: setupLeaderElections_def s1_def)
    qed
    with start cov show ?thesis by (auto simp: r1_def)
  qed
qed

lemma callback_covered:
  assumes "covered s" "in_time current ev s"
  shows "\<exists>s'. elector_callback I current ev s = Ret s' \<and> covered s' \<and> sv_config s' = sv_config s \<and>
    sv_identity s' = sv_identity s \<and> sv_serverCtx s' = sv_serverCtx s \<and>
    rg_factories (sv_registry s') = rg_factories (sv_registry s)"
proof (cases ev)
  case (StartedLeading n cx)
  have el: "sv_leaderElectors s n \<noteq> None" using assms(2) StartedLeading by (simp add: in_time_def)
  show ?thesis
  proof (cases "rg_collectors (sv_registry s) n")
    case None
    then show ?thesis using StartedLeading assms
      by (auto simp: StartCollector_def call_one_def covered_def Let_def)
  next
    case (Some so)
    then obtain c where c: "so = Some c" "good c"
      using assms by (auto simp: covered_def slots_ok_def)
    from start_law [OF c(2), of cx] obtain e c' where "ci_start I cx c = Ret (e, c')" "good c'" by auto
    with c Some StartedLeading el assms show ?thesis
      by (auto simp: StartCollector_def call_one_def covered_def slots_ok_def Let_def)
  qed
next
  case (StoppedLeading n)
  from assms have g: "slots_ok good (rg_collectors (sv_registry s))" by (simp add: covered_def)
  from call_stop [OF g, of n] obtain e r' where r': "StopCollector I n (sv_registry s) = Ret (e, r')"
    "slots_ok good (rg_collectors r')" "rg_factories r' = rg_factories (sv_registry s)"
    "dom (rg_collectors r') = dom (rg_collectors (sv_registry s))"
    "\<And>k c. rg_collectors (sv_registry s) k = Some (Some c) \<Longrightarrow> \<exists>c'. rg_collectors r' k = Some (Some c') \<and>
       ci_requires I c' = ci_requires I c \<and> (k = n \<or> \<not> running c \<longrightarrow> \<not> running c')" by auto
  have "sv_leaderElectors s k \<noteq> None" if "lec_Enabled (gc_LeaderElection (sv_config s))"
      "rg_collectors r' k = Some (Some c')" "ci_requires I c'" "running c'" for k c'
  proof -
    have "k \<in> dom (rg_collectors (sv_registry s))" using r'(4) that(2) by blast
    then obtain c where "rg_collectors (sv_registry s) k = Some (Some c)"
      using slots_okD [OF g] by blast
    with r'(5) [OF this] that assms show ?thesis by (fastforce simp: covered_def)
  qed
  then show ?thesis using r'(1-3) StoppedLeading by (auto simp: covered_def Let_def)
next
  case (NewLeader n i)
  then show ?thesis using assms by (auto simp: covered_def)
qed

end

section \<open>Reachable servers\<close>

text \<open>The collectors that the factories give are not running. A factory may also fail, or return neither a collector nor an
  error, as the one of the custom resources does when none are configured.\<close>

definition factories_ok :: "'m coll registry \<Rightarrow> bool" where
  "factories_ok r \<longleftrightarrow> (\<forall>n f fc c. rg_factories r n = Some f \<and> f fc = Inr (Some c) \<longrightarrow>
     coll_good c \<and> \<not> bc_started (co_base c))"

text \<open>The states of a server that was initialized without an error, under callbacks of its electors that are in time and
  reloads that return.\<close>

inductive server_reach :: "srv_env \<Rightarrow> 'm coll server \<Rightarrow> bool" for E where
  init: "factories_ok r \<Longrightarrow> rg_collectors r = Map.empty \<Longrightarrow> identity_ok st \<Longrightarrow>
    orders_cover od (set (gc_EnabledCollectors cfg)) \<Longrightarrow>
    Init base_iface E od cx (server_New r st cfg content) = Ret (None, s) \<Longrightarrow> server_reach E s"
| callback: "server_reach E s \<Longrightarrow> in_time current ev s \<Longrightarrow> elector_callback base_iface current ev s = Ret s' \<Longrightarrow>
    server_reach E s'"
| reload: "server_reach E s \<Longrightarrow>
    orders_cover od (dom (rg_collectors (sv_registry s)) \<union> dom (sv_leaderElectors s) \<union>
      set (gc_EnabledCollectors new)) \<Longrightarrow>
    Reload base_iface E od content new s = Ret (e, s') \<Longrightarrow> server_reach E s'"

definition server_inv :: "'m coll server \<Rightarrow> bool" where
  "server_inv s \<longleftrightarrow> bc.covered s \<and> factories_ok (sv_registry s) \<and> identity_ok (sv_identity s) \<and>
     sv_serverCtx s \<noteq> None"

text \<open>What the collectors are given when a reload creates them, and the names whose factory then returns nil.\<close>

definition new_context :: "srv_env \<Rightarrow> string \<Rightarrow> GlobalConfig \<Rightarrow> 'c server \<Rightarrow> string \<Rightarrow> factory_context" where
  "new_context E content new s n = (let cfg = buildInitConfig (reload_config E content new s)
     in factory_ctx cfg (fst (GetWithConfig (ev_host E) (sv_identity s) (ic_Identity cfg) (ic_NodeName cfg) (ic_PodName cfg))) n)"

definition makes_nil :: "srv_env \<Rightarrow> string \<Rightarrow> GlobalConfig \<Rightarrow> 'c server \<Rightarrow> string \<Rightarrow> bool" where
  "makes_nil E content new s n \<longleftrightarrow> n \<in> set (gc_EnabledCollectors new) \<and>
     (\<exists>f. rg_factories (sv_registry s) n = Some f \<and> f (new_context E content new s n) = Inr None)"

lemma created_fresh:
  assumes "factories_ok r" "rg_collectors r = Map.empty" "identity_ok st"
    "createCollectors h cfg r st = (r', st')"
  shows "\<forall>n. rg_collectors r' n \<noteq> Some None \<Longrightarrow>
      slots_ok (\<lambda>c. coll_good c \<and> \<not> bc_started (co_base c)) (rg_collectors r')"
    "factories_ok r'" "identity_ok st'"
    "dom (rg_collectors r') \<subseteq> set (ic_EnabledCollectors cfg)"
    "rg_collectors r' n = Some None \<longleftrightarrow> n \<in> set (ic_EnabledCollectors cfg) \<and> (\<exists>f. rg_factories r n = Some f \<and>
       f (factory_ctx cfg (fst (GetWithConfig h st (ic_Identity cfg) (ic_NodeName cfg) (ic_PodName cfg))) n) = Inr None)"
proof -
  obtain i where g: "GetWithConfig h st (ic_Identity cfg) (ic_NodeName cfg) (ic_PodName cfg) = (i, st')"
    and r': "r' = foldl (create_one cfg) (r\<lparr>rg_instance := i\<rparr>) (ic_EnabledCollectors cfg)"
    using assms(4) by (auto simp: createCollectors_def split: prod.splits)
  note * = foldl_create_one [of cfg "r\<lparr>rg_instance := i\<rparr>" "ic_EnabledCollectors cfg", folded r']
  show "identity_ok st'" by (rule GetWithConfig_ok(2) [OF assms(3) g])
  show "factories_ok r'" using assms(1) * by (simp add: factories_ok_def)
  show "dom (rg_collectors r') \<subseteq> set (ic_EnabledCollectors cfg)"
    using * assms(2) by (auto split: if_splits)
  have made: "rg_collectors r' n = Some so \<longleftrightarrow> n \<in> set (ic_EnabledCollectors cfg) \<and>
      (\<exists>f. rg_factories r n = Some f \<and> f (factory_ctx cfg i n) = Inr so)" for n so
    using * assms(2) by (auto simp: created_def split: if_splits sum.splits option.splits)
  show "rg_collectors r' n = Some None \<longleftrightarrow> n \<in> set (ic_EnabledCollectors cfg) \<and> (\<exists>f. rg_factories r n = Some f \<and>
       f (factory_ctx cfg (fst (GetWithConfig h st (ic_Identity cfg) (ic_NodeName cfg) (ic_PodName cfg))) n) = Inr None)"
    by (simp add: made g)
  show "slots_ok (\<lambda>c. coll_good c \<and> \<not> bc_started (co_base c)) (rg_collectors r')"
    if nil: "\<forall>n. rg_collectors r' n \<noteq> Some None"
    unfolding slots_ok_def
  proof (intro allI impI)
    fix n so assume so: "rg_collectors r' n = Some so"
    then obtain c where "so = Some c" using nil by (cases so) auto
    then show "\<exists>c. so = Some c \<and> coll_good c \<and> \<not> bc_started (co_base c)"
      using so assms(1) unfolding made factories_ok_def by blast
  qed
qed

text \<open>A nil collector makes the start panic, with leader election and without.\<close>

lemma bind_go_panics: "\<not> returns m \<Longrightarrow> \<not> returns (bind_go m f)"
  by (cases m) simp_all

lemma start_nil:
  assumes "orders_cover od (dom (rg_collectors (sv_registry s)))" "rg_collectors (sv_registry s) n = Some None"
  shows "\<not> returns (server_startCollectors I E od s)"
proof -
  have ns: "iter_order (order_of (od_start od) (rg_collectors (sv_registry s))) (rg_collectors (sv_registry s))"
    using assms(1) by (intro order_of_iter) (auto simp: orders_cover_def)
  have "\<not> returns (startCollectors I cx q (order_of (od_start od) (rg_collectors (sv_registry s))) (sv_registry s))" for cx q
    unfolding startCollectors_def by (rule call_selected_nil [OF ns assms(2)])
  then show ?thesis
    by (simp add: server_startCollectors_def registry_Start_def StartNonLeaderCollectors_def Let_def bind_go_panics)
qed

lemma factories_ok_cong: "rg_factories r = rg_factories r' \<Longrightarrow> factories_ok r = factories_ok r'"
  by (simp add: factories_ok_def)

lemma Reinitialize_dom:
  assumes "Reinitialize h cfg r st = (r', st')"
  shows "dom (rg_collectors r') \<union> dom (rg_failed r') = set (ic_EnabledCollectors cfg)"
proof -
  obtain i where r': "r' = foldl (create_one cfg)
      (r\<lparr>rg_collectors := Map.empty, rg_failed := Map.empty, rg_instance := i\<rparr>) (ic_EnabledCollectors cfg)"
    using assms by (auto simp: Reinitialize_def createCollectors_def split: prod.splits)
  define r0 where "r0 = r\<lparr>rg_collectors := Map.empty, rg_failed := Map.empty, rg_instance := i\<rparr>"
  note * = foldl_create_one [of cfg r0 "ic_EnabledCollectors cfg", folded r' [folded r0_def]]
  have "n \<in> dom (rg_collectors r') \<union> dom (rg_failed r') \<longleftrightarrow> n \<in> set (ic_EnabledCollectors cfg)" for n
    using * by (simp add: domIff r0_def split: sum.split)
  then show ?thesis by blast
qed

text \<open>The second half of a reload, from the state after the stop.\<close>

lemma reload_from_stopped:
  assumes "factories_ok (sv_registry s1)" "identity_ok (sv_identity s1)"
    "orders_cover od (set (gc_EnabledCollectors (sv_config s1)))"
    "Reinitialize (ev_host E) (buildInitConfig s1) (sv_registry s1) (sv_identity s1) = (r, st)"
  shows "\<forall>n. rg_collectors r n \<noteq> Some None \<Longrightarrow>
    \<exists>e s'. reinitializeAndStartCollectors base_iface E od s1 = Ret (e, s') \<and>
    bc.covered s' \<and> factories_ok (sv_registry s') \<and> identity_ok (sv_identity s') \<and>
    sv_config s' = sv_config s1 \<and> sv_configContent s' = sv_configContent s1 \<and>
    sv_serverCtx s' = sv_serverCtx s1 \<and>
    dom (rg_collectors (sv_registry s')) \<union> dom (rg_failed (sv_registry s'))
      = set (gc_EnabledCollectors (sv_config s1))"
    "rg_collectors r n = Some None \<Longrightarrow> \<not> returns (reinitializeAndStartCollectors base_iface E od s1)"
    "rg_collectors r n = Some None \<longleftrightarrow> n \<in> set (gc_EnabledCollectors (sv_config s1)) \<and>
       (\<exists>f. rg_factories (sv_registry s1) n = Some f \<and> f (factory_ctx (buildInitConfig s1)
         (fst (GetWithConfig (ev_host E) (sv_identity s1) (ic_Identity (buildInitConfig s1)) (ic_NodeName (buildInitConfig s1))
           (ic_PodName (buildInitConfig s1)))) n) = Inr None)"
proof -
  have en: "ic_EnabledCollectors (buildInitConfig s1) = gc_EnabledCollectors (sv_config s1)"
    by (simp add: buildInitConfig_def Let_def)
  let ?r0 = "(sv_registry s1)\<lparr>rg_collectors := Map.empty, rg_failed := Map.empty\<rparr>"
  have c: "createCollectors (ev_host E) (buildInitConfig s1) ?r0 (sv_identity s1) = (r, st)" "factories_ok ?r0"
    "rg_collectors ?r0 = Map.empty"
    using assms(1,4) by (simp_all add: Reinitialize_def factories_ok_def)
  note fresh = created_fresh [OF c(2,3) assms(2) c(1), unfolded en]
  show "rg_collectors r n = Some None \<longleftrightarrow> n \<in> set (gc_EnabledCollectors (sv_config s1)) \<and>
       (\<exists>f. rg_factories (sv_registry s1) n = Some f \<and> f (factory_ctx (buildInitConfig s1)
         (fst (GetWithConfig (ev_host E) (sv_identity s1) (ic_Identity (buildInitConfig s1)) (ic_NodeName (buildInitConfig s1))
           (ic_PodName (buildInitConfig s1)))) n) = Inr None)" using fresh(5) by simp
  let ?s = "s1\<lparr>sv_registry := r, sv_identity := st\<rparr>"
  have cover: "orders_cover od (dom (rg_collectors (sv_registry ?s)))"
    using assms(3) fresh(4) by (auto simp: orders_cover_def)
  show "\<not> returns (reinitializeAndStartCollectors base_iface E od s1)" if "rg_collectors r n = Some None"
  proof -
    have "\<not> returns (server_startCollectors base_iface E od ?s)" using start_nil [OF cover, of n] that by simp
    then obtain p where "server_startCollectors base_iface E od ?s = Panic p"
      by (cases "server_startCollectors base_iface E od ?s") simp_all
    then show ?thesis by (simp add: reinitializeAndStartCollectors_def assms(4))
  qed
  show "\<exists>e s'. reinitializeAndStartCollectors base_iface E od s1 = Ret (e, s') \<and>
    bc.covered s' \<and> factories_ok (sv_registry s') \<and> identity_ok (sv_identity s') \<and>
    sv_config s' = sv_config s1 \<and> sv_configContent s' = sv_configContent s1 \<and>
    sv_serverCtx s' = sv_serverCtx s1 \<and>
    dom (rg_collectors (sv_registry s')) \<union> dom (rg_failed (sv_registry s'))
      = set (gc_EnabledCollectors (sv_config s1))" if nil: "\<forall>n. rg_collectors r n \<noteq> Some None"
  proof -
    from bc.startCollectors_covered [OF _ cover, of E] fresh(1) [OF nil] fresh(3) obtain e s' where
      s': "server_startCollectors base_iface E od ?s = Ret (e, s')" "bc.covered s'"
      "sv_config s' = sv_config s1" "sv_configContent s' = sv_configContent s1"
      "identity_ok (sv_identity s')" "sv_serverCtx s' = sv_serverCtx s1"
      "rg_factories (sv_registry s') = rg_factories r" "rg_failed (sv_registry s') = rg_failed r"
      "dom (rg_collectors (sv_registry s')) = dom (rg_collectors r)" by auto
    have "dom (rg_collectors r) \<union> dom (rg_failed r) = set (gc_EnabledCollectors (sv_config s1))"
      using Reinitialize_dom [OF assms(4)] by (simp add: en)
    with s' fresh(2) factories_ok_cong [OF s'(7)] show ?thesis
      by (simp add: reinitializeAndStartCollectors_def assms(4))
  qed
qed

lemma reloadDebugServer_frame:
  "sv_config (snd (reloadDebugServer E s)) = sv_config s"
  "sv_configContent (snd (reloadDebugServer E s)) = sv_configContent s"
  "sv_registry (snd (reloadDebugServer E s)) = sv_registry s"
  "sv_identity (snd (reloadDebugServer E s)) = sv_identity s"
  "sv_serverCtx (snd (reloadDebugServer E s)) = sv_serverCtx s"
  by (simp_all add: reloadDebugServer_def Let_def split: option.splits)

lemma reload_config_init:
  assumes "sv_config s1 = sv_config s" "sv_serverCtx s1 = sv_serverCtx s" "sv_clientProvider s1 = sv_clientProvider s"
  shows "buildInitConfig (reload_config E content new s1) = buildInitConfig (reload_config E content new s)"
  using assms by (simp add: buildInitConfig_def reload_config_def reloadDebugServer_def Let_def split: option.split)

lemma Reload_ok:
  assumes "server_inv s" "orders_cover od (dom (rg_collectors (sv_registry s)) \<union> dom (sv_leaderElectors s) \<union>
      set (gc_EnabledCollectors new))"
  shows "\<exists>e1 s1. server_stopCollectors base_iface od s = Ret (e1, s1) \<and>
    slots_ok (\<lambda>c. \<not> bc_started (co_base c)) (rg_collectors (sv_registry s1))"
    "makes_nil E content new s n \<Longrightarrow> \<not> returns (Reload base_iface E od content new s)"
    "\<forall>n. \<not> makes_nil E content new s n \<Longrightarrow> \<exists>e s'. Reload base_iface E od content new s = Ret (e, s') \<and> server_inv s' \<and>
      sv_config s' = ApplyHotReload (sv_config s) new \<and> sv_configContent s' = content \<and>
      dom (rg_collectors (sv_registry s')) \<union> dom (rg_failed (sv_registry s')) = set (gc_EnabledCollectors new)"
proof -
  have cov: "bc.covered s" "orders_cover od (dom (rg_collectors (sv_registry s)) \<union> dom (sv_leaderElectors s))"
    "orders_cover od (set (gc_EnabledCollectors new))"
    using assms by (auto simp: server_inv_def orders_cover_def)
  from bc.stopCollectors_clean [OF cov(1,2)] obtain e1 s1 where s1: "server_stopCollectors base_iface od s = Ret (e1, s1)"
    "slots_ok (\<lambda>c. coll_good c \<and> \<not> bc_started (co_base c)) (rg_collectors (sv_registry s1))"
    "rg_factories (sv_registry s1) = rg_factories (sv_registry s)"
    "sv_config s1 = sv_config s" "sv_identity s1 = sv_identity s" "sv_serverCtx s1 = sv_serverCtx s"
    "sv_clientProvider s1 = sv_clientProvider s" by auto
  have "slots_ok (\<lambda>c. \<not> bc_started (co_base c)) (rg_collectors (sv_registry s1))"
    using s1(2) by (fastforce simp: slots_ok_def)
  then show "\<exists>e1 s1. server_stopCollectors base_iface od s = Ret (e1, s1) \<and>
    slots_ok (\<lambda>c. \<not> bc_started (co_base c)) (rg_collectors (sv_registry s1))" using s1(1) by blast
  define s4 where "s4 = reload_config E content new s1"
  have s4: "sv_config s4 = ApplyHotReload (sv_config s) new" "sv_configContent s4 = content"
    "sv_registry s4 = sv_registry s1" "sv_identity s4 = sv_identity s" "sv_serverCtx s4 = sv_serverCtx s"
    using s1 by (simp_all add: s4_def reload_config_def Let_def reloadDebugServer_frame)
  have en: "gc_EnabledCollectors (sv_config s4) = gc_EnabledCollectors new"
    by (simp add: s4(1) ApplyHotReload_def)
  have built: "buildInitConfig s4 = buildInitConfig (reload_config E content new s)"
    unfolding s4_def by (rule reload_config_init [OF s1(4,6,7)])
  have inv4: "factories_ok (sv_registry s4)" "identity_ok (sv_identity s4)" "orders_cover od (set (gc_EnabledCollectors (sv_config s4)))"
    using assms(1) factories_ok_cong [OF s1(3)] s4(3,4) cov(3) en by (simp_all add: server_inv_def)
  obtain r st where r: "Reinitialize (ev_host E) (buildInitConfig s4) (sv_registry s4) (sv_identity s4) = (r, st)" by fastforce
  note half = reload_from_stopped [OF inv4 r]
  have nil: "rg_collectors r n = Some None \<longleftrightarrow> makes_nil E content new s n" for n
    by (simp add: half(3) en makes_nil_def new_context_def Let_def s4(3,4) s1(3) built)
  have reload: "Reload base_iface E od content new s = bind_go (reinitializeAndStartCollectors base_iface E od s4) (\<lambda>(e, s5).
      Ret (map_option (\<lambda>m. ''failed to reinitialize collectors: '' @ m) e, s5))"
    using assms(1) s1(1) by (auto simp: Reload_def server_inv_def s4_def)
  show "\<not> returns (Reload base_iface E od content new s)" if "makes_nil E content new s n"
  proof -
    have "\<not> returns (reinitializeAndStartCollectors base_iface E od s4)"
      by (rule half(2) [OF nil [THEN iffD2, OF that]])
    then show ?thesis by (simp add: reload bind_go_panics)
  qed
  show "\<exists>e s'. Reload base_iface E od content new s = Ret (e, s') \<and> server_inv s' \<and>
      sv_config s' = ApplyHotReload (sv_config s) new \<and> sv_configContent s' = content \<and>
      dom (rg_collectors (sv_registry s')) \<union> dom (rg_failed (sv_registry s')) = set (gc_EnabledCollectors new)"
    if none: "\<forall>n. \<not> makes_nil E content new s n"
  proof -
    obtain e s' where "reinitializeAndStartCollectors base_iface E od s4 = Ret (e, s')" "bc.covered s'"
      "factories_ok (sv_registry s')" "identity_ok (sv_identity s')" "sv_config s' = sv_config s4"
      "sv_configContent s' = sv_configContent s4" "sv_serverCtx s' = sv_serverCtx s4"
      "dom (rg_collectors (sv_registry s')) \<union> dom (rg_failed (sv_registry s')) = set (gc_EnabledCollectors new)"
      using half(1) none nil en by auto
    then show ?thesis using s4 assms(1) by (simp add: reload server_inv_def)
  qed
qed

lemma server_reach_inv: "server_reach E s \<Longrightarrow> server_inv s"
proof (induction rule: server_reach.induct)
  case (init r st od cfg cx content s)
  define s1 where "s1 = (server_New r st cfg content)\<lparr>sv_serverCtx := Some cx,
      sv_clientProvider := Some (NewClientProvider cfg)\<rparr>"
  obtain r2 st2 where r2: "createCollectors (ev_host E) (buildInitConfig s1) r st = (r2, st2)" by fastforce
  have en: "ic_EnabledCollectors (buildInitConfig s1) = gc_EnabledCollectors cfg"
    by (simp add: buildInitConfig_def Let_def s1_def server_New_def)
  note fresh = created_fresh [OF init(1,2,3) r2, unfolded en]
  let ?s2 = "s1\<lparr>sv_registry := r2, sv_identity := st2\<rparr>"
  have start: "server_startCollectors base_iface E od ?s2 = Ret (None, s)"
    using init(2,5) r2 by (simp add: Init_def Initialize_def s1_def server_New_def Let_def)
  have cover: "orders_cover od (dom (rg_collectors (sv_registry ?s2)))"
    using init(4) fresh(4) by (auto simp: orders_cover_def)
  have "\<forall>n. rg_collectors r2 n \<noteq> Some None"
  proof (intro allI notI)
    fix n assume "rg_collectors r2 n = Some None"
    then show False using start_nil [OF cover, of n base_iface E] start by simp
  qed
  from bc.startCollectors_covered [of ?s2, OF _ cover, of E] fresh(1) [OF this] fresh(2,3) start
  show ?case using factories_ok_cong [of "sv_registry s" r2]
    by (simp add: server_inv_def s1_def)
next
  case (callback s current ev s')
  then have "bc.covered s" by (simp add: server_inv_def)
  from bc.callback_covered [OF this callback.hyps(2)] callback.hyps(3) callback.IH show ?case
    using factories_ok_cong [of "sv_registry s'" "sv_registry s"] by (simp add: server_inv_def)
next
  case (reload s od new content e s')
  have "\<forall>n. \<not> makes_nil E content new s n"
    using Reload_ok(2) [OF reload.IH reload.hyps(2), of E content] reload.hyps(3) by auto
  from Reload_ok(3) [OF reload.IH reload.hyps(2) this] reload.hyps(3) show ?case by auto
qed

section \<open>Properties of the server\<close>

text \<open>C4. A reload of a server, in any state that it can reach when no elector starts a collector after it was stopped. When it
  stops the old collectors, in whatever orders, none of them is left running, whether leader election was on
  or off. If the factory of a newly enabled name returns neither a collector nor an error, the reload panics. Otherwise
  it returns; the configuration is the new one except for the listening server, the
  logging and the file paths, the new content is kept, and the collectors together with the
  failed ones are exactly the newly enabled names. Every state a reload can leave, failed
  starts included, is again one from which the same holds.\<close>

theorem reload_is_clean:
  fixes s :: "'m coll server"
  assumes "server_reach E s"
    and "orders_cover od (dom (rg_collectors (sv_registry s)) \<union> dom (sv_leaderElectors s) \<union>
      set (gc_EnabledCollectors new))"
  shows "(\<exists>e1 s1. server_stopCollectors base_iface od s = Ret (e1, s1) \<and>
      slots_ok (\<lambda>c. \<not> bc_started (co_base c)) (rg_collectors (sv_registry s1))) \<and>
    ((\<exists>n. makes_nil E content new s n) \<longrightarrow> (\<exists>p. Reload base_iface E od content new s = Panic p)) \<and>
    ((\<forall>n. \<not> makes_nil E content new s n) \<longrightarrow>
      (\<exists>e s'. Reload base_iface E od content new s = Ret (e, s') \<and> server_reach E s' \<and>
        sv_config s' = new\<lparr>gc_ConfigPath := gc_ConfigPath (sv_config s), gc_EnvFile := gc_EnvFile (sv_config s),
          gc_Server := gc_Server (sv_config s), gc_Logging := gc_Logging (sv_config s)\<rparr> \<and>
        sv_configContent s' = content \<and>
        dom (rg_collectors (sv_registry s')) \<union> dom (rg_failed (sv_registry s')) = set (gc_EnabledCollectors new)))"
proof -
  note ok = Reload_ok [OF server_reach_inv [OF assms(1)] assms(2)]
  have "\<exists>p. Reload base_iface E od content new s = Panic p" if "makes_nil E content new s n" for n
    using ok(2) [OF that] by (cases "Reload base_iface E od content new s") simp_all
  moreover have "server_reach E s'" if "Reload base_iface E od content new s = Ret (e, s')" for e s'
    by (rule server_reach.reload [OF assms that])
  ultimately show ?thesis using ok(1) ok(3) [of E content] unfolding ApplyHotReload_new by blast
qed

text \<open>The condition on the electors is needed. \<open>OnStartedLeading\<close> runs in a goroutine of its own, so it may come after its
  elector has been stopped and removed: then it starts a collector that nobody leads, and the next stop with leader
  election passes it by, since it has no elector and needs a leader.\<close>

lemma demo_start:
  obtains e c where "ci_start base_iface cx (demo_coll leader) = Ret (e, c)" "bc_started (co_base c)" "coll_good c"
    "bc_requiresLeaderElection (co_base c) = leader"
proof -
  have new: "coll_good (demo_coll leader)" "\<not> bc_started (co_base (demo_coll leader))"
    "bc_requiresLeaderElection (co_base (demo_coll leader)) = leader"
    by (simp_all add: demo_coll_def coll_good_def base_inv_New good_lifecycle_def) (simp_all add: NewBaseCollector_def)
  from bc.start_law [OF new(1), of cx] obtain e c where c: "ci_start base_iface cx (demo_coll leader) = Ret (e, c)"
    "coll_good c" "ci_requires base_iface c = ci_requires base_iface (demo_coll leader)" "e = None \<longleftrightarrow> bc_started (co_base c)"
    using new(2) by auto
  moreover have "e = None" using c(1)
    by (simp add: base_iface_def demo_coll_def Start_def start_locked_def NewBaseCollector_def split: if_splits)
  ultimately show ?thesis using that new(3) by (simp add: base_iface_def)
qed

lemma late_leader_runs_on:
  fixes s :: "nat coll server"
  assumes "rg_collectors (sv_registry s) = two_colls" "sv_leaderElectors s = Map.empty"
    "lec_Enabled (gc_LeaderElection (sv_config s))" "orders_cover od {''node'', ''domain''}"
  shows "\<exists>s1 e s2 c. elector_callback base_iface False (StartedLeading ''domain'' []) s = Ret s1 \<and>
    server_stopCollectors base_iface od s1 = Ret (e, s2) \<and>
    rg_collectors (sv_registry s2) ''domain'' = Some (Some c) \<and> bc_started (co_base c)"
proof -
  obtain c e0 where c: "ci_start base_iface [] (demo_coll True) = Ret (e0, c)" "bc_started (co_base c)"
    "coll_good c" "bc_requiresLeaderElection (co_base c)"
    using demo_start [of "[]" True] by metis
  define s1 where "s1 = s\<lparr>sv_registry := (sv_registry s)\<lparr>rg_collectors := two_colls(''domain'' \<mapsto> Some c)\<rparr>\<rparr>"
  have cb: "elector_callback base_iface False (StartedLeading ''domain'' []) s = Ret s1"
    using c(1) assms(1) by (simp add: mark_elector_def StartCollector_def call_one_def two_colls_def s1_def Let_def)
  have cs: "rg_collectors (sv_registry s1) = two_colls(''domain'' \<mapsto> Some c)" "sv_leaderElectors s1 = Map.empty"
    "sv_config s1 = sv_config s" using assms(2) by (simp_all add: s1_def)
  let ?ns = "order_of (od_stop od) (rg_collectors (sv_registry s1))"
  have ns: "iter_order ?ns (rg_collectors (sv_registry s1))"
    using assms(4) by (intro order_of_iter) (auto simp: orders_cover_def cs(1) two_colls_def)
  have good: "slots_ok coll_good (rg_collectors (sv_registry s1))"
    using two_colls_ok c(3) unfolding cs(1) by (auto simp: slots_ok_def)
  from bc.stop_eq [OF ns good, of "Some False"] obtain e where
    e: "call_selected base_iface (ci_stop base_iface) ''stop'' (Some False) ?ns (sv_registry s1) = Ret (e, (sv_registry s1)\<lparr>rg_collectors :=
        updated (ci_stop base_iface) (matches base_iface (Some False)) (rg_collectors (sv_registry s1))\<rparr>)" by auto
  define s2 where "s2 = s1\<lparr>sv_leaderElectors := Map.empty, sv_registry := (sv_registry s1)\<lparr>rg_collectors :=
        updated (ci_stop base_iface) (matches base_iface (Some False)) (rg_collectors (sv_registry s1))\<rparr>\<rparr>"
  have "order_of (od_electors od) (sv_leaderElectors s1) = []" by (simp add: order_of_def cs(2))
  then have "server_stopCollectors base_iface od s1 = Ret (e, s2)"
    using e assms(3) by (simp add: server_stopCollectors_def stopLeaderElections_def StopNonLeaderCollectors_def cs(3) s2_def)
  moreover have "rg_collectors (sv_registry s2) ''domain'' = Some (Some c)"
    using c(4) by (simp add: s2_def cs(1) updated_def matches_def base_iface_def)
  ultimately show ?thesis using cb c(2) by blast
qed

definition demo_env :: srv_env where
  "demo_env = \<lparr>ev_host = demo_host ''h'', ev_listen = (\<lambda>_. None), ev_kube = (\<lambda>_. Inr (Some 0)),
     ev_sha256 = (\<lambda>_. replicate 32 0)\<rparr>"

definition demo_orders :: orders where
  "demo_orders = \<lparr>od_electors = [''node'', ''domain''], od_stop = [''domain'', ''node''],
     od_start = [''node'', ''domain''], od_list = [''node'', ''domain'']\<rparr>"

definition demo_reg :: "nat coll registry" where
  "demo_reg = GetRegistry\<lparr>rg_factories := [''node'' \<mapsto> \<lambda>_. Inr (Some (demo_coll False)),
     ''domain'' \<mapsto> \<lambda>_. Inr (Some (demo_coll True))]\<rparr>"

lemma demo_reg_ok: "factories_ok demo_reg"
  by (simp add: factories_ok_def demo_reg_def demo_coll_def coll_good_def base_inv_New
      good_lifecycle_def) (simp add: NewBaseCollector_def)

lemma demo_never_nil:
  "rg_factories (sv_registry s) = rg_factories demo_reg \<Longrightarrow> \<not> makes_nil E content new s n"
  by (auto simp: makes_nil_def demo_reg_def split: if_splits)

lemma demo_reached: "\<exists>s :: nat coll server. server_reach demo_env s \<and>
  dom (rg_collectors (sv_registry s)) \<union> dom (sv_leaderElectors s) \<subseteq> {''node'', ''domain''} \<and>
  rg_factories (sv_registry s) = rg_factories demo_reg"
proof -
  define cfg where "cfg = demo_config\<lparr>gc_EnabledCollectors := [],
      gc_LeaderElection := (gc_LeaderElection demo_config)\<lparr>lec_Enabled := False\<rparr>\<rparr>"
  have empty: "rg_collectors demo_reg = Map.empty" "identity_ok None"
    by (simp_all add: demo_reg_def GetRegistry_def identity_ok_def)
  have le: "\<not> lec_Enabled (gc_LeaderElection cfg)" "gc_EnabledCollectors cfg = []" by (simp_all add: cfg_def)
  obtain i x where g: "GetWithConfig (ev_host demo_env) None (gc_Identity cfg) (gc_NodeName cfg)
      (gc_PodName cfg) = (i, x)" by fastforce
  obtain s where s: "Init base_iface demo_env demo_orders [] (server_New demo_reg None cfg '''') = Ret (None, s)"
    "rg_collectors (sv_registry s) = Map.empty" "sv_leaderElectors s = Map.empty"
    "rg_factories (sv_registry s) = rg_factories demo_reg"
    using le empty(1) g
    by (simp add: Init_def Initialize_def server_New_def Let_def createCollectors_def buildInitConfig_def
        server_startCollectors_def registry_Start_def startCollectors_def call_selected_def)
  have "orders_cover demo_orders (set (gc_EnabledCollectors cfg))"
    by (simp add: le(2) orders_cover_def demo_orders_def)
  from server_reach.init [OF demo_reg_ok empty this s(1)] s(2-4) show ?thesis by auto
qed

theorem reload_is_clean_witness:
  "\<exists>s e s'. Reload base_iface demo_env demo_orders ''x'' demo_config (s :: nat coll server) = Ret (e, s') \<and>
     sv_configContent s' = ''x'' \<and>
     dom (rg_collectors (sv_registry s')) \<union> dom (rg_failed (sv_registry s')) = {''domain'', ''node''}"
proof -
  obtain s :: "nat coll server" where s: "server_reach demo_env s"
    "dom (rg_collectors (sv_registry s)) \<union> dom (sv_leaderElectors s) \<subseteq> {''node'', ''domain''}"
    "rg_factories (sv_registry s) = rg_factories demo_reg"
    using demo_reached by auto
  have en: "set (gc_EnabledCollectors demo_config) = {''domain'', ''node''}" by (simp add: demo_config_def)
  have "orders_cover demo_orders (dom (rg_collectors (sv_registry s)) \<union> dom (sv_leaderElectors s) \<union>
      set (gc_EnabledCollectors demo_config))"
    using s(2) unfolding en by (auto simp: orders_cover_def demo_orders_def)
  from reload_is_clean [OF s(1) this, of "''x''"] demo_never_nil [OF s(3)] en show ?thesis by metis
qed

lemma health_loop_eq:
  assumes "slots_ok P (rg_collectors (sv_registry s))" "set ns \<subseteq> dom (rg_collectors (sv_registry s))"
  shows "\<exists>bad. health_loop I s ns = Ret bad \<and> set bad = {(n, e). n \<in> set ns \<and>
    (\<exists>c. rg_collectors (sv_registry s) n = Some (Some c) \<and> should_check I s n c \<and> ci_health I c = Some e)}"
  using assms(2)
proof (induction ns)
  case (Cons n ns)
  then obtain bad where bad: "health_loop I s ns = Ret bad" "set bad = {(n, e). n \<in> set ns \<and>
      (\<exists>c. rg_collectors (sv_registry s) n = Some (Some c) \<and> should_check I s n c \<and> ci_health I c = Some e)}"
    by auto
  obtain c where "rg_collectors (sv_registry s) n = Some (Some c)"
    using slots_okD [OF assms(1), of n] Cons.prems by auto
  with bad show ?case by (auto split: option.splits)
qed simp

text \<open>C17. The health endpoint answers, without panicking, 200 exactly when no collector failed to
  initialize and every collector this instance is responsible for is healthy. Responsible
  means: leader election is off, or the collector needs no leader, or this instance leads it.
  The listed entries are exactly the unhealthy ones among those and the failed ones, whatever
  the iteration orders.
\<close>

theorem health_reports_responsible:
  fixes s :: "'m coll server"
  assumes "slots_ok coll_good (rg_collectors (sv_registry s))"
    and "iter_order ns (rg_collectors (sv_registry s))" and "iter_order fs (rg_failed (sv_registry s))"
  shows "\<exists>code flag entries. handleHealth base_iface ns fs s = Ret (code, flag, entries) \<and>
    (code = 200 \<longleftrightarrow> flag) \<and> (code \<noteq> 200 \<longrightarrow> code = 503) \<and>
    (flag \<longleftrightarrow> rg_failed (sv_registry s) = Map.empty \<and>
       (\<forall>n c. rg_collectors (sv_registry s) n = Some (Some c) \<and>
          (lec_Enabled (gc_LeaderElection (sv_config s)) \<and> bc_requiresLeaderElection (co_base c)
             \<longrightarrow> (\<exists>el. sv_leaderElectors s n = Some el \<and> el_isLeader el))
          \<longrightarrow> Health (co_lc c) (co_base c) = None)) \<and>
    set entries = {(n, e). rg_failed (sv_registry s) n = Some e} \<union>
      {(n, e). \<exists>c. rg_collectors (sv_registry s) n = Some (Some c) \<and>
         (lec_Enabled (gc_LeaderElection (sv_config s)) \<and> bc_requiresLeaderElection (co_base c)
             \<longrightarrow> (\<exists>el. sv_leaderElectors s n = Some el \<and> el_isLeader el)) \<and>
         Health (co_lc c) (co_base c) = Some e}"
proof -
  have ns: "set ns = dom (rg_collectors (sv_registry s))" using assms(2) by (simp add: iter_order_def)
  have fs: "set fs = dom (rg_failed (sv_registry s))" using assms(3) by (simp add: iter_order_def)
  have sc: "should_check base_iface s n c \<longleftrightarrow> (lec_Enabled (gc_LeaderElection (sv_config s)) \<and>
      bc_requiresLeaderElection (co_base c) \<longrightarrow> (\<exists>el. sv_leaderElectors s n = Some el \<and> el_isLeader el))"
    for n and c :: "'m coll"
    by (auto simp: should_check_def base_iface_def isCollectorLeader_def split: option.splits)
  have h: "ci_health base_iface c = Health (co_lc c) (co_base c)" for c :: "'m coll"
    by (simp add: base_iface_def)
  define failed where "failed = map (\<lambda>f. (f, the (rg_failed (sv_registry s) f))) fs"
  obtain bad where bad: "health_loop base_iface s ns = Ret bad"
    "set bad = {(n, e). \<exists>c. rg_collectors (sv_registry s) n = Some (Some c) \<and> should_check base_iface s n c \<and>
       ci_health base_iface c = Some e}"
  proof -
    have "{(n, e). n \<in> set ns \<and> (\<exists>c. rg_collectors (sv_registry s) n = Some (Some c) \<and>
        should_check base_iface s n c \<and> ci_health base_iface c = Some e)} =
      {(n, e). \<exists>c. rg_collectors (sv_registry s) n = Some (Some c) \<and> should_check base_iface s n c \<and>
        ci_health base_iface c = Some e}" unfolding ns by auto
    with health_loop_eq [OF assms(1), of ns base_iface] ns that show ?thesis by auto
  qed
  have f: "set failed = {(n, e). rg_failed (sv_registry s) n = Some e}"
    using fs by (auto simp: failed_def image_iff dom_def)
  have hh: "handleHealth base_iface ns fs s = Ret (if bad @ failed = [] then 200 else 503,
      bad @ failed = [], bad @ failed)"
    using bad(1) by (simp add: handleHealth_def failed_def [symmetric] Let_def)
  have "failed = [] \<longleftrightarrow> rg_failed (sv_registry s) = Map.empty"
    using fs by (simp add: failed_def) (metis dom_eq_empty_conv set_empty)
  moreover have "bad = [] \<longleftrightarrow> (\<forall>n c. rg_collectors (sv_registry s) n = Some (Some c) \<and>
      should_check base_iface s n c \<longrightarrow> ci_health base_iface c = None)"
  proof -
    have "bad = [] \<longleftrightarrow> set bad = {}" by simp
    also have "\<dots> \<longleftrightarrow> (\<forall>n c. rg_collectors (sv_registry s) n = Some (Some c) \<and>
      should_check base_iface s n c \<longrightarrow> ci_health base_iface c = None)"
      unfolding bad(2) by (auto simp: not_Some_eq [symmetric] simp del: not_Some_eq)
    finally show ?thesis .
  qed
  ultimately have flag: "bad @ failed = [] \<longleftrightarrow> rg_failed (sv_registry s) = Map.empty \<and>
      (\<forall>n c. rg_collectors (sv_registry s) n = Some (Some c) \<and>
      should_check base_iface s n c \<longrightarrow> ci_health base_iface c = None)" by auto
  have entries: "set (bad @ failed) = {(n, e). rg_failed (sv_registry s) n = Some e} \<union>
      {(n, e). \<exists>c. rg_collectors (sv_registry s) n = Some (Some c) \<and> should_check base_iface s n c \<and>
       ci_health base_iface c = Some e}" using bad(2) f by auto
  show ?thesis unfolding hh
    by (rule exI [of _ "if bad @ failed = [] then 200 else 503"], rule exI [of _ "bad @ failed = []"],
        rule exI [of _ "bad @ failed"])
      (intro conjI, simp, simp, simp, rule flag [unfolded sc h], rule entries [unfolded sc h])
qed

theorem health_reports_responsible_witness:
  "\<exists>flag entries. handleHealth base_iface [''node'', ''domain''] [] (server_New
     (demo_reg\<lparr>rg_collectors := two_colls\<rparr>) None demo_config '''') = Ret (503, flag, entries)"
proof -
  define s where "s = server_New (demo_reg\<lparr>rg_collectors := two_colls\<rparr>) None demo_config ''''"
  have s: "slots_ok coll_good (rg_collectors (sv_registry s))"
    "iter_order [''node'', ''domain''] (rg_collectors (sv_registry s))"
    "iter_order [] (rg_failed (sv_registry s))"
    using two_colls_ok by (simp_all add: s_def server_New_def demo_reg_def GetRegistry_def iter_order_def)
  have bad: "rg_collectors (sv_registry s) ''node'' = Some (Some (demo_coll False)) \<and>
      \<not> bc_requiresLeaderElection (co_base (demo_coll False)) \<and>
      Health (co_lc (demo_coll False)) (co_base (demo_coll False)) \<noteq> None"
    by (simp add: s_def server_New_def two_colls_def demo_coll_def NewBaseCollector_def Health_def)
  note ok = health_reports_responsible [OF s]
  then obtain code flag entries where h:
    "handleHealth base_iface [''node'', ''domain''] [] s = Ret (code, flag, entries)"
    "code = 200 \<longleftrightarrow> flag" "code \<noteq> 200 \<longrightarrow> code = 503"
    "flag \<longrightarrow> (\<forall>n c. rg_collectors (sv_registry s) n = Some (Some c) \<and>
       (lec_Enabled (gc_LeaderElection (sv_config s)) \<and> bc_requiresLeaderElection (co_base c)
          \<longrightarrow> (\<exists>el. sv_leaderElectors s n = Some el \<and> el_isLeader el))
       \<longrightarrow> Health (co_lc c) (co_base c) = None)"
    by (elim exE conjE) blast
  have "\<not> flag"
    using h(4) [THEN mp, THEN spec [of _ "''node''"], THEN spec [of _ "demo_coll False"]] bad by auto
  with h(1-3) show ?thesis unfolding s_def by auto
qed

end
