(* ===== verification/HTTP_Servers.thy ===== *)
theory HTTP_Servers
  imports Prelude Go_Strings "HOL-Library.Multiset"
begin

text \<open>
  \<open>pkg/httpserver\<close>, \<open>pkg/pprof\<close> and \<open>pkg/tlscache\<close>: servers that are started, stopped and
  restarted at run time, and the certificate cache behind the TLS listeners. The network is the map
  from bound addresses to listeners; \<open>refuse\<close> tells which addresses the system refuses for
  other reasons. A stop that times out closes the listener by force, so both endings of
  \<open>Shutdown\<close> release the address.
\<close>

section \<open>The network\<close>

record net =
  nt_bound :: "string \<Rightarrow> nat option"
  nt_next :: nat

definition listen :: "(string \<Rightarrow> err option) \<Rightarrow> string \<Rightarrow> net \<Rightarrow> (nat \<times> net) res" where
  "listen refuse addr w = (case refuse addr of
       Some e \<Rightarrow> Inl e
     | None \<Rightarrow> (case nt_bound w addr of
           Some _ \<Rightarrow> Inl ''address already in use''
         | None \<Rightarrow> Inr (nt_next w, w\<lparr>nt_bound := (nt_bound w)(addr \<mapsto> nt_next w), nt_next := nt_next w + 1\<rparr>)))"

text \<open>Closing a listener frees its address.\<close>

definition unlisten :: "nat \<Rightarrow> net \<Rightarrow> net" where
  "unlisten l w = w\<lparr>nt_bound := (\<lambda>a. if nt_bound w a = Some l then None else nt_bound w a)\<rparr>"

definition net_ok :: "net \<Rightarrow> bool" where
  "net_ok w \<longleftrightarrow> (\<forall>a l. nt_bound w a = Some l \<longrightarrow> l < nt_next w) \<and>
     (\<forall>a b l. nt_bound w a = Some l \<and> nt_bound w b = Some l \<longrightarrow> a = b)"

lemma listen_Inr:
  assumes "listen refuse addr w = Inr (l, w')" "net_ok w"
  shows "net_ok w'" "nt_bound w addr = None" "nt_bound w' = (nt_bound w)(addr \<mapsto> l)" "refuse addr = None"
    "l = nt_next w"
proof -
  have l: "nt_bound w addr = None" "refuse addr = None" "l = nt_next w"
    "w' = w\<lparr>nt_bound := (nt_bound w)(addr \<mapsto> nt_next w), nt_next := nt_next w + 1\<rparr>"
    using assms(1) by (auto simp: listen_def split: option.splits)
  then show "nt_bound w addr = None" "nt_bound w' = (nt_bound w)(addr \<mapsto> l)" "refuse addr = None" "l = nt_next w"
    by simp_all
  have "nt_bound w a \<noteq> Some (nt_next w)" for a using assms(2) by (auto simp: net_ok_def)
  then show "net_ok w'" using assms(2) unfolding l(4) net_ok_def by (auto simp: less_Suc_eq)
qed

lemma unlisten_bound:
  "net_ok w \<Longrightarrow> nt_bound w a = Some l \<Longrightarrow> nt_bound (unlisten l w) = (nt_bound w)(a := None)"
  by (auto simp: unlisten_def net_ok_def fun_eq_iff)

lemma unlisten_ok: "net_ok w \<Longrightarrow> net_ok (unlisten l w)"
  by (auto simp: unlisten_def net_ok_def split: if_splits)

section \<open>The HTTP server\<close>

record http_config =
  hc_Address :: string
  hc_TLS :: bool
  hc_ReadHeaderTimeout :: int
  hc_Name :: string

text \<open>\<open>hs_server\<close> is the listener of a running server; the fields \<open>server\<close>, \<open>listener\<close>,
  \<open>ctx\<close>, \<open>cancel\<close> and \<open>done\<close> of the code are set and cleared together.\<close>

record http_server =
  hs_config :: http_config
  hs_server :: "nat option"

definition http_New :: "http_config \<Rightarrow> http_server" where
  "http_New c =
     (let c1 = (if hc_ReadHeaderTimeout c = 0 then c\<lparr>hc_ReadHeaderTimeout := 10 * 10 ^ 9\<rparr> else c);
          c2 = (if hc_Name c1 = '''' then c1\<lparr>hc_Name := ''http''\<rparr> else c1)
      in \<lparr>hs_config = c2, hs_server = None\<rparr>)"

definition http_Start :: "(string \<Rightarrow> err option) \<Rightarrow> http_server \<Rightarrow> net \<Rightarrow> err option \<times> http_server \<times> net" where
  "http_Start refuse s w =
     (if hs_server s \<noteq> None then (Some (hc_Name (hs_config s) @ '' server already running''), s, w)
      else case listen refuse (hc_Address (hs_config s)) w of
        Inl e \<Rightarrow> (Some (''failed to create '' @ hc_Name (hs_config s) @ '' listener on '' @
                     hc_Address (hs_config s) @ '': '' @ e), s, w)
      | Inr (l, w') \<Rightarrow> (None, s\<lparr>hs_server := Some l\<rparr>, w'))"

definition http_Stop :: "http_server \<Rightarrow> net \<Rightarrow> err option \<times> http_server \<times> net" where
  "http_Stop s w = (case hs_server s of
       None \<Rightarrow> (None, s, w)
     | Some l \<Rightarrow> (None, s\<lparr>hs_server := None\<rparr>, unlisten l w))"

text \<open>A server and the network agree.\<close>

definition http_ok :: "http_server \<Rightarrow> net \<Rightarrow> bool" where
  "http_ok s w \<longleftrightarrow> net_ok w \<and>
     (\<forall>l. hs_server s = Some l \<longrightarrow> nt_bound w (hc_Address (hs_config s)) = Some l)"

lemma http_Start_ok:
  assumes "http_ok s w" "http_Start refuse s w = (e, s', w')"
  shows "http_ok s' w'" "hs_config s' = hs_config s" "e = None \<longleftrightarrow> hs_server s = None \<and> hs_server s' \<noteq> None"
    "e \<noteq> None \<Longrightarrow> s' = s \<and> w' = w" "a \<noteq> hc_Address (hs_config s) \<Longrightarrow> nt_bound w' a = nt_bound w a"
proof -
  consider (run) l where "hs_server s = Some l" "e \<noteq> None" "s' = s" "w' = w"
    | (refused) "hs_server s = None" "e \<noteq> None" "s' = s" "w' = w"
    | (ok) l where "hs_server s = None" "listen refuse (hc_Address (hs_config s)) w = Inr (l, w')"
        "e = None" "s' = s\<lparr>hs_server := Some l\<rparr>"
    using assms(2) by (fastforce simp: http_Start_def split: if_splits sum.splits prod.splits)
  note c = this
  show "http_ok s' w'" using c assms(1)
    by cases (auto simp: http_ok_def dest: listen_Inr)
  show "hs_config s' = hs_config s" "e = None \<longleftrightarrow> hs_server s = None \<and> hs_server s' \<noteq> None"
    "e \<noteq> None \<Longrightarrow> s' = s \<and> w' = w" using c by (cases; simp)+
  show "nt_bound w' a = nt_bound w a" if "a \<noteq> hc_Address (hs_config s)"
    using c that assms(1) by cases (auto simp: http_ok_def dest: listen_Inr)
qed

lemma http_Stop_ok:
  assumes "http_ok s w" "http_Stop s w = (e, s', w')"
  shows "http_ok s' w'" "e = None" "hs_server s' = None" "hs_config s' = hs_config s"
    "hs_server s \<noteq> None \<Longrightarrow> nt_bound w' = (nt_bound w)(hc_Address (hs_config s) := None)"
    "hs_server s = None \<Longrightarrow> w' = w"
  using assms by (auto simp: http_Stop_def http_ok_def unlisten_ok unlisten_bound split: option.splits)

section \<open>The pprof server\<close>

record pprof_server =
  pf_port :: int
  pf_server :: "nat option"

definition pprof_NewServer :: "int \<Rightarrow> pprof_server" where
  "pprof_NewServer port = \<lparr>pf_port = port, pf_server = None\<rparr>"

definition pprof_addr :: "int \<Rightarrow> string" where
  "pprof_addr port = ''127.0.0.1:'' @ Itoa port"

definition pprof_Start :: "(string \<Rightarrow> err option) \<Rightarrow> pprof_server \<Rightarrow> net \<Rightarrow> err option \<times> pprof_server \<times> net" where
  "pprof_Start refuse s w =
     (if pf_server s \<noteq> None then (Some ''pprof server already running'', s, w)
      else case listen refuse (pprof_addr (pf_port s)) w of
        Inl e \<Rightarrow> (Some (''failed to create pprof listener on '' @ pprof_addr (pf_port s) @ '': '' @ e), s, w)
      | Inr (l, w') \<Rightarrow> (None, s\<lparr>pf_server := Some l\<rparr>, w'))"

definition pprof_Stop :: "pprof_server \<Rightarrow> net \<Rightarrow> err option \<times> pprof_server \<times> net" where
  "pprof_Stop s w = (case pf_server s of
       None \<Rightarrow> (None, s, w)
     | Some l \<Rightarrow> (None, s\<lparr>pf_server := None\<rparr>, unlisten l w))"

definition pprof_Reload :: "(string \<Rightarrow> err option) \<Rightarrow> int \<Rightarrow> pprof_server \<Rightarrow> net \<Rightarrow> err option \<times> pprof_server \<times> net" where
  "pprof_Reload refuse port s w =
     (let portChanged = pf_port s \<noteq> port; wasRunning = pf_server s \<noteq> None
      in if \<not> portChanged \<and> wasRunning then (None, s, w)
         else case pprof_Stop s w of
           (Some e, s1, w1) \<Rightarrow> (Some (''failed to stop pprof server: '' @ e), s1, w1)
         | (None, s1, w1) \<Rightarrow>
             (case pprof_Start refuse (s1\<lparr>pf_port := port\<rparr>) w1 of
                (Some e, s2, w2) \<Rightarrow> (Some (''failed to start pprof server: '' @ e), s2, w2)
              | (None, s2, w2) \<Rightarrow> (None, s2, w2)))"

definition pprof_ok :: "pprof_server \<Rightarrow> net \<Rightarrow> bool" where
  "pprof_ok s w \<longleftrightarrow> net_ok w \<and> (\<forall>l. pf_server s = Some l \<longrightarrow> nt_bound w (pprof_addr (pf_port s)) = Some l)"

lemma pprof_Start_ok:
  assumes "pprof_ok s w" "pf_server s = None" "pprof_Start refuse s w = (e, s', w')"
  shows "pprof_ok s' w'" "pf_port s' = pf_port s" "(e = None) = (pf_server s' \<noteq> None)"
    "e \<noteq> None \<Longrightarrow> w' = w" "a \<noteq> pprof_addr (pf_port s) \<Longrightarrow> nt_bound w' a = nt_bound w a"
    "e = None \<longleftrightarrow> refuse (pprof_addr (pf_port s)) = None \<and> nt_bound w (pprof_addr (pf_port s)) = None"
proof -
  consider (refused) x where "listen refuse (pprof_addr (pf_port s)) w = Inl x" "e \<noteq> None" "s' = s" "w' = w"
    | (ok) l where "listen refuse (pprof_addr (pf_port s)) w = Inr (l, w')" "e = None" "s' = s\<lparr>pf_server := Some l\<rparr>"
    using assms(2,3) by (fastforce simp: pprof_Start_def split: if_splits sum.splits prod.splits)
  note c = this
  show "pprof_ok s' w'" using c assms(1) by cases (auto simp: pprof_ok_def dest: listen_Inr)
  show "pf_port s' = pf_port s" "(e = None) = (pf_server s' \<noteq> None)" "e \<noteq> None \<Longrightarrow> w' = w"
    using c assms(2) by (cases; simp)+
  show "nt_bound w' a = nt_bound w a" if "a \<noteq> pprof_addr (pf_port s)"
    using c that assms(1) by cases (auto simp: pprof_ok_def dest: listen_Inr)
  show "e = None \<longleftrightarrow> refuse (pprof_addr (pf_port s)) = None \<and> nt_bound w (pprof_addr (pf_port s)) = None"
    using c by cases (auto simp: listen_def split: option.splits)
qed

lemma pprof_Stop_ok:
  assumes "pprof_ok s w" "pprof_Stop s w = (e, s', w')"
  shows "pprof_ok s' w'" "e = None" "pf_server s' = None" "pf_port s' = pf_port s"
    "nt_bound w' = (if pf_server s = None then nt_bound w else (nt_bound w)(pprof_addr (pf_port s) := None))"
  using assms by (auto simp: pprof_Stop_def pprof_ok_def unlisten_ok unlisten_bound split: option.splits)

lemma pprof_Reload_ok:
  assumes "pprof_ok s w" "pprof_Reload refuse port s w = (e, s', w')"
  shows "pprof_ok s' w' \<and> pf_port s' = port"
proof (cases "pf_port s = port \<and> pf_server s \<noteq> None")
  case True
  then show ?thesis using assms by (simp add: pprof_Reload_def)
next
  case False
  obtain e1 s1 w1 where stop: "pprof_Stop s w = (e1, s1, w1)" by (metis prod_cases3)
  note 1 = pprof_Stop_ok [OF assms(1) stop]
  obtain e2 s2 w2 where start: "pprof_Start refuse (s1\<lparr>pf_port := port\<rparr>) w1 = (e2, s2, w2)" by (metis prod_cases3)
  have "pprof_ok (s1\<lparr>pf_port := port\<rparr>) w1" "pf_server (s1\<lparr>pf_port := port\<rparr>) = None"
    using 1(1,3) by (simp_all add: pprof_ok_def)
  from pprof_Start_ok(1,2) [OF this start] show ?thesis
    using False stop start 1(2) assms(2) by (cases e2) (auto simp: pprof_Reload_def Let_def)
qed

text \<open>C24. Reloading the profiling server either leaves it alone, when it runs and the port is the same, or
  releases the old port and listens on the new one. It fails only when the new port cannot be
  bound; then nothing is bound any more, the new port is remembered, and the next reload tries
  again. No other address is touched.\<close>

theorem pprof_reload_moves:
  assumes "pprof_ok s w"
  shows "\<exists>e s' w'. pprof_Reload refuse port s w = (e, s', w') \<and> pprof_ok s' w' \<and> pf_port s' = port \<and>
    (e = None \<longleftrightarrow> pf_server s' \<noteq> None) \<and>
    (pf_server s \<noteq> None \<and> pf_port s = port \<longrightarrow> s' = s \<and> w' = w) \<and>
    (e = None \<longleftrightarrow> (pf_server s \<noteq> None \<and> pf_port s = port) \<or> refuse (pprof_addr port) = None \<and>
       (nt_bound w (pprof_addr port) = None \<or> pf_server s \<noteq> None \<and> pprof_addr (pf_port s) = pprof_addr port)) \<and>
    (pf_server s \<noteq> None \<and> pprof_addr (pf_port s) \<noteq> pprof_addr port \<longrightarrow> nt_bound w' (pprof_addr (pf_port s)) = None) \<and>
    (\<forall>a. a \<noteq> pprof_addr (pf_port s) \<and> a \<noteq> pprof_addr port \<longrightarrow> nt_bound w' a = nt_bound w a)"
proof (cases "pf_port s = port \<and> pf_server s \<noteq> None")
  case True
  then show ?thesis using assms by (simp add: pprof_Reload_def)
next
  case False
  obtain e1 s1 w1 where stop: "pprof_Stop s w = (e1, s1, w1)" by (metis prod_cases3)
  note 1 = pprof_Stop_ok [OF assms stop]
  obtain e2 s2 w2 where start: "pprof_Start refuse (s1\<lparr>pf_port := port\<rparr>) w1 = (e2, s2, w2)" by (metis prod_cases3)
  have ok: "pprof_ok (s1\<lparr>pf_port := port\<rparr>) w1" using 1(1,3) by (simp add: pprof_ok_def)
  have none: "pf_server (s1\<lparr>pf_port := port\<rparr>) = None" using 1(3) by simp
  note 2 = pprof_Start_ok [OF ok none start]
  obtain e where r: "pprof_Reload refuse port s w = (e, s2, w2)" "e = None \<longleftrightarrow> e2 = None"
    using False stop start 1(2) by (cases e2) (auto simp: pprof_Reload_def Let_def)
  have port: "pf_port s2 = port" using 2(2) by simp
  have e2: "e2 = None \<longleftrightarrow> refuse (pprof_addr port) = None \<and>
      (nt_bound w (pprof_addr port) = None \<or> pf_server s \<noteq> None \<and> pprof_addr (pf_port s) = pprof_addr port)"
    using 2(6) 1(5) by auto
  have other: "nt_bound w2 a = nt_bound w1 a" if "a \<noteq> pprof_addr port" for a
    using 2(5) [of a] that by simp
  have old: "nt_bound w2 (pprof_addr (pf_port s)) = None"
    if "pf_server s \<noteq> None" "pprof_addr (pf_port s) \<noteq> pprof_addr port"
    using other [OF that(2)] 1(5) that(1) by simp
  have rest: "nt_bound w2 a = nt_bound w a" if "a \<noteq> pprof_addr (pf_port s)" "a \<noteq> pprof_addr port" for a
    using other [OF that(2)] 1(5) that(1) by simp
  show ?thesis
  proof (intro exI [of _ e] exI [of _ s2] exI [of _ w2] conjI)
    show "e = None \<longleftrightarrow> pf_server s2 \<noteq> None" using r(2) 2(3) by simp
    show "e = None \<longleftrightarrow> (pf_server s \<noteq> None \<and> pf_port s = port) \<or> refuse (pprof_addr port) = None \<and>
       (nt_bound w (pprof_addr port) = None \<or> pf_server s \<noteq> None \<and> pprof_addr (pf_port s) = pprof_addr port)"
      using r(2) e2 False by blast
  qed (use r(1) 2(1) port False old rest in auto)
qed

definition empty_net :: net where
  "empty_net = \<lparr>nt_bound = Map.empty, nt_next = 0\<rparr>"

theorem pprof_reload_moves_witness:
  "\<exists>e s' w'. pprof_Reload (\<lambda>_. None) 6061 (pprof_NewServer 6060) empty_net = (e, s', w') \<and>
     e = None \<and> pf_server s' \<noteq> None"
proof -
  have "pprof_ok (pprof_NewServer 6060) empty_net"
    by (simp add: pprof_ok_def net_ok_def pprof_NewServer_def empty_net_def)
  from pprof_reload_moves [OF this, of "\<lambda>_. None" 6061] show ?thesis
    by (auto simp: empty_net_def)
qed

section \<open>The certificate cache\<close>

text \<open>Two goroutines load the pair, and the mutex is held for the store only. So each has its own place: it waits at its
  \<open>select\<close>, it has read a pair that it has not stored yet, or it has ended.\<close>

datatype 'cert tls_loop = Waiting | Loaded 'cert | LoopEnded

record 'cert tls_cache =
  tc_cert :: "'cert option"
  tc_stopped :: bool
  tc_watch :: "'cert tls_loop"
  tc_poll :: "'cert tls_loop"

text \<open>\<open>loadCertificate\<close> in its two parts; \<open>disk\<close> is the result of reading the key pair.\<close>

definition readCertificate :: "'cert res \<Rightarrow> 'cert res" where
  "readCertificate disk = (case disk of Inl e \<Rightarrow> Inl (''failed to load certificate: '' @ e) | Inr cert \<Rightarrow> Inr cert)"

definition storeCertificate :: "'cert \<Rightarrow> 'cert tls_cache \<Rightarrow> 'cert tls_cache" where
  "storeCertificate cert c = c\<lparr>tc_cert := Some cert\<rparr>"

definition loadCertificate :: "'cert res \<Rightarrow> 'cert tls_cache \<Rightarrow> err option \<times> 'cert tls_cache" where
  "loadCertificate disk c = (case readCertificate disk of
       Inl e \<Rightarrow> (Some e, c)
     | Inr cert \<Rightarrow> (None, storeCertificate cert c))"

text \<open>The errors of the watcher are those of \<open>NewWatcher\<close> and of the two \<open>Add\<close> calls. The loops start when there was none.\<close>

definition tls_New :: "err option \<Rightarrow> 'cert res \<Rightarrow> err option \<Rightarrow> err option \<Rightarrow> 'cert tls_cache res" where
  "tls_New newWatcher disk addCert addKey = (case newWatcher of
       Some e \<Rightarrow> Inl (''failed to create file watcher: '' @ e)
     | None \<Rightarrow> (case loadCertificate disk \<lparr>tc_cert = None, tc_stopped = False, tc_watch = Waiting, tc_poll = Waiting\<rparr> of
           (Some e, c) \<Rightarrow> Inl e
         | (None, c) \<Rightarrow> (case addCert of
               Some e \<Rightarrow> Inl (''failed to watch cert file: '' @ e)
             | None \<Rightarrow> (case addKey of
                   Some e \<Rightarrow> Inl (''failed to watch key file: '' @ e)
                 | None \<Rightarrow> Inr c))))"

definition GetCertificate :: "'cert tls_cache \<Rightarrow> 'cert res" where
  "GetCertificate c = (case tc_cert c of None \<Rightarrow> Inl ''no certificate loaded'' | Some x \<Rightarrow> Inr x)"

definition tls_Stop :: "'cert tls_cache \<Rightarrow> 'cert tls_cache go" where
  "tls_Stop c = (if tc_stopped c then Panic ''close of closed channel'' else Ret (c\<lparr>tc_stopped := True\<rparr>))"

datatype fs_op = FsWrite | FsCreate | FsChmod | FsRemove | FsRename

text \<open>What can happen: an event of the watcher with what the pair on disk reads as, an error of it, a tick of the poll with
  what it reads, the two stores, the ends of the loops and a call of \<open>Stop\<close>.\<close>

datatype 'cert tls_event =
    WatchEvent "fs_op list" "'cert res"
  | WatchError
  | WatchStore
  | WatchEnd
  | PollTick "'cert res"
  | PollStore
  | PollEnd
  | StopCalled

text \<open>A step is possible or not: a loop that has read a pair stores it before anything else, and a loop ends at its
  \<open>select\<close> once the cache was stopped, though it may still take an event or a tick that is ready too.\<close>

definition tls_step :: "'cert tls_event \<Rightarrow> 'cert tls_cache \<Rightarrow> 'cert tls_cache option" where
  "tls_step ev c = (case ev of
       WatchEvent op disk \<Rightarrow>
         (case tc_watch c of Waiting \<Rightarrow>
            (if set op \<inter> {FsWrite, FsCreate, FsChmod, FsRemove} \<noteq> {} then
               (case readCertificate disk of Inl e \<Rightarrow> Some c | Inr x \<Rightarrow> Some (c\<lparr>tc_watch := Loaded x\<rparr>))
             else Some c)
          | _ \<Rightarrow> None)
     | WatchError \<Rightarrow> (case tc_watch c of Waiting \<Rightarrow> Some c | _ \<Rightarrow> None)
     | WatchStore \<Rightarrow> (case tc_watch c of Loaded x \<Rightarrow> Some ((storeCertificate x c)\<lparr>tc_watch := Waiting\<rparr>) | _ \<Rightarrow> None)
     | WatchEnd \<Rightarrow> (case tc_watch c of Waiting \<Rightarrow> if tc_stopped c then Some (c\<lparr>tc_watch := LoopEnded\<rparr>) else None | _ \<Rightarrow> None)
     | PollTick disk \<Rightarrow>
         (case tc_poll c of Waiting \<Rightarrow>
            (case readCertificate disk of Inl e \<Rightarrow> Some c | Inr x \<Rightarrow> Some (c\<lparr>tc_poll := Loaded x\<rparr>))
          | _ \<Rightarrow> None)
     | PollStore \<Rightarrow> (case tc_poll c of Loaded x \<Rightarrow> Some ((storeCertificate x c)\<lparr>tc_poll := Waiting\<rparr>) | _ \<Rightarrow> None)
     | PollEnd \<Rightarrow> (case tc_poll c of Waiting \<Rightarrow> if tc_stopped c then Some (c\<lparr>tc_poll := LoopEnded\<rparr>) else None | _ \<Rightarrow> None)
     | StopCalled \<Rightarrow> (case tls_Stop c of Ret c' \<Rightarrow> Some c' | Panic e \<Rightarrow> None))"

fun tls_run :: "'cert tls_event list \<Rightarrow> 'cert tls_cache \<Rightarrow> 'cert tls_cache option" where
  "tls_run [] c = Some c"
| "tls_run (ev # evs) c = (case tls_step ev c of None \<Rightarrow> None | Some c' \<Rightarrow> tls_run evs c')"

text \<open>The pairs that were read without an error, and the pairs that are read and not stored. Loads do not overlap when
  none begins while there is such a pair.\<close>

fun disk_of :: "'cert tls_event \<Rightarrow> 'cert list" where
  "disk_of (WatchEvent op (Inr x)) = (if set op \<inter> {FsWrite, FsCreate, FsChmod, FsRemove} \<noteq> {} then [x] else [])"
| "disk_of (PollTick (Inr x)) = [x]"
| "disk_of _ = []"

fun loaded :: "'cert tls_loop \<Rightarrow> 'cert list" where
  "loaded (Loaded x) = [x]"
| "loaded _ = []"

definition unstored :: "'cert tls_cache \<Rightarrow> 'cert list" where
  "unstored c = loaded (tc_watch c) @ loaded (tc_poll c)"

fun loads_apart :: "'cert tls_event list \<Rightarrow> 'cert tls_cache \<Rightarrow> bool" where
  "loads_apart [] c = True"
| "loads_apart (ev # evs) c \<longleftrightarrow> (disk_of ev \<noteq> [] \<longrightarrow> unstored c = []) \<and>
     (case tls_step ev c of None \<Rightarrow> True | Some c' \<Rightarrow> loads_apart evs c')"

text \<open>A step reads a pair, or stores one that was read, or changes neither.\<close>

lemma tls_step_cases:
  assumes "tls_step ev c = Some c'"
  shows "tc_cert c' = tc_cert c \<and> disk_of ev \<noteq> [] \<and> mset (unstored c') = mset (disk_of ev @ unstored c) \<and> length (disk_of ev) = 1
    \<or> (\<exists>x. disk_of ev = [] \<and> tc_cert c' = Some x \<and> mset (unstored c) = add_mset x (mset (unstored c')))
    \<or> disk_of ev = [] \<and> tc_cert c' = tc_cert c \<and> unstored c' = unstored c"
  using assms
  by (cases ev rule: disk_of.cases; cases "tc_watch c"; cases "tc_poll c")
    (auto simp: tls_step_def readCertificate_def storeCertificate_def tls_Stop_def unstored_def split: if_splits sum.splits)

lemma tls_run_served:
  assumes "tls_run evs c = Some c'" "tc_cert c = Some x" "set (unstored c) \<subseteq> K" "x \<in> K"
  shows "\<exists>y. tc_cert c' = Some y \<and> y \<in> K \<union> set (concat (map disk_of evs))"
  using assms
proof (induction evs arbitrary: c x K)
  case (Cons ev evs)
  obtain c1 where c1: "tls_step ev c = Some c1" "tls_run evs c1 = Some c'"
    using Cons.prems(1) by (auto split: option.splits)
  let ?K = "K \<union> set (disk_of ev)"
  have "\<exists>z. tc_cert c1 = Some z \<and> z \<in> ?K \<and> set (unstored c1) \<subseteq> ?K"
    using tls_step_cases [OF c1(1)]
  proof (elim disjE exE conjE)
    assume a: "tc_cert c1 = tc_cert c" "mset (unstored c1) = mset (disk_of ev @ unstored c)"
    have "set (unstored c1) = set (disk_of ev @ unstored c)" using mset_eq_setD [OF a(2)] .
    then show ?thesis using a(1) Cons.prems(2-4) by auto
  next
    fix z assume a: "tc_cert c1 = Some z" "mset (unstored c) = add_mset z (mset (unstored c1))"
    have "set (unstored c) = insert z (set (unstored c1))" using arg_cong [OF a(2), of set_mset] by simp
    then show ?thesis using a(1) Cons.prems(3) by auto
  next
    assume "tc_cert c1 = tc_cert c" "unstored c1 = unstored c"
    then show ?thesis using Cons.prems(2-4) by auto
  qed
  then obtain z where z: "tc_cert c1 = Some z" "set (unstored c1) \<subseteq> ?K" "z \<in> ?K" by blast
  from Cons.IH [OF c1(2) z] show ?case by (simp add: Un_assoc)
qed simp

lemma tls_run_newest:
  assumes "tls_run evs c = Some c'" "loads_apart evs c" "tc_cert c = Some x" "length (unstored c) \<le> 1"
  shows "last (the (tc_cert c') # unstored c') = last (last (x # unstored c) # concat (map disk_of evs))"
  using assms
proof (induction evs arbitrary: c x)
  case (Cons ev evs)
  obtain c1 where c1: "tls_step ev c = Some c1" "tls_run evs c1 = Some c'" "loads_apart evs c1"
    using Cons.prems(1,2) by (auto split: option.splits)
  show ?case using tls_step_cases [OF c1(1)]
  proof (elim disjE exE conjE)
    assume a: "tc_cert c1 = tc_cert c" "disk_of ev \<noteq> []" "mset (unstored c1) = mset (disk_of ev @ unstored c)"
      "length (disk_of ev) = 1"
    then obtain y where y: "disk_of ev = [y]" by (cases "disk_of ev") auto
    have none: "unstored c = []" using Cons.prems(2) a(2) by simp
    then have u: "unstored c1 = [y]" using a(3) y by simp
    show ?thesis using Cons.IH [OF c1(2,3), of x] a(1) Cons.prems(3) u none y by simp
  next
    fix z assume a: "disk_of ev = []" "tc_cert c1 = Some z" "mset (unstored c) = add_mset z (mset (unstored c1))"
    have "length (unstored c) = Suc (length (unstored c1))" using arg_cong [OF a(3), of size] by simp
    then have u: "unstored c1 = []" using Cons.prems(4) by simp
    then have "unstored c = [z]" using a(3) by simp
    then show ?thesis using Cons.IH [OF c1(2,3) a(2)] u a(1) by simp
  next
    assume "disk_of ev = []" "tc_cert c1 = tc_cert c" "unstored c1 = unstored c"
    then show ?thesis using Cons.IH [OF c1(2,3), of x] Cons.prems(3,4) by simp
  qed
qed simp

text \<open>C27. A cache that could be created always answers a handshake with a certificate, whatever its two loops do and
  however their steps mix: it is the first pair or one that was read later without an error, since unreadable or
  mismatched files never take away the certificate in use. Take any moment with no pair between its reading and its
  storing: if from then on the loads do not overlap, the next such moment has the newest pair that was read.\<close>

theorem tls_serves_last_good:
  assumes "tls_New nw (Inr x) ac ak = Inr c" "tls_run evs c = Some c1" "tls_run evs' c1 = Some c2"
  shows "\<exists>y z. GetCertificate c1 = Inr y \<and> y \<in> set (x # concat (map disk_of evs)) \<and> GetCertificate c2 = Inr z
    \<and> (unstored c1 = [] \<and> loads_apart evs' c1 \<and> unstored c2 = [] \<longrightarrow> z = last (y # concat (map disk_of evs')))"
proof -
  have c: "tc_cert c = Some x" "unstored c = []"
    using assms(1) by (auto simp: tls_New_def loadCertificate_def readCertificate_def storeCertificate_def unstored_def split: option.splits)
  obtain y where y: "tc_cert c1 = Some y" "y \<in> {x} \<union> set (concat (map disk_of evs))"
    using tls_run_served [OF assms(2) c(1), of "{x}"] c(2) by auto
  obtain z where z: "tc_cert c2 = Some z"
    using tls_run_served [OF assms(3) y(1), of UNIV] by auto
  have "z = last (y # concat (map disk_of evs'))" if "unstored c1 = []" "loads_apart evs' c1" "unstored c2 = []"
    using tls_run_newest [OF assms(3) that(2) y(1)] that(1,3) z by simp
  then show ?thesis using y z by (auto simp: GetCertificate_def)
qed

text \<open>When they overlap, an older pair replaces a newer one: the poll has read the first pair before the files were
  changed, and stores it after the watcher has stored the second.\<close>

lemma tls_older_overwrites:
  assumes "tls_New nw (Inr (1::nat)) ac ak = Inr c"
  shows "\<exists>c'. tls_run [PollTick (Inr 1), WatchEvent [FsWrite] (Inr 2), WatchStore, PollStore] c = Some c'
    \<and> GetCertificate c' = Inr 1"
  using assms by (auto simp: tls_New_def loadCertificate_def readCertificate_def storeCertificate_def tls_step_def
      GetCertificate_def split: option.splits)

theorem tls_serves_last_good_witness:
  "\<exists>c. tls_run [WatchEvent [FsRemove] (Inl ''no such file''), PollTick (Inr (2::nat)), PollStore, WatchEvent [FsRename] (Inr 3)]
     \<lparr>tc_cert = Some 1, tc_stopped = False, tc_watch = Waiting, tc_poll = Waiting\<rparr> = Some c \<and> GetCertificate c = Inr 2"
proof -
  let ?c = "\<lparr>tc_cert = Some (1::nat), tc_stopped = False, tc_watch = Waiting, tc_poll = Waiting\<rparr>"
  let ?evs = "[WatchEvent [FsRemove] (Inl ''no such file''), PollTick (Inr (2::nat)), PollStore, WatchEvent [FsRename] (Inr 3)]"
  have new: "tls_New None (Inr (1::nat)) None None = Inr ?c"
    by (simp add: tls_New_def loadCertificate_def readCertificate_def storeCertificate_def)
  have run: "tls_run ?evs ?c = Some (?c\<lparr>tc_cert := Some 2\<rparr>)" "loads_apart ?evs ?c"
    by (simp_all add: tls_step_def readCertificate_def storeCertificate_def unstored_def)
  have none: "tls_run [] ?c = Some ?c" by simp
  from tls_serves_last_good [OF new none run(1)] show ?thesis using run by (auto simp: unstored_def)
qed

end
