(* ===== verification/Auth_Cache.thy ===== *)
theory Auth_Cache
  imports Prelude Go_Strings
begin

text \<open>
  \<open>pkg/auth\<close>: the middleware that authenticates bearer tokens with TokenReview and authorizes
  requests with SubjectAccessReview, both behind caches with expiry times. Times are integers in
  nanoseconds. The API server, the digest and the backoff helper are outside: a call is given the
  answers of the attempts that the helper made, the digest is a parameter. Requests run
  concurrently, so a request sees the cache in one state when it looks up its token and in another
  when it looks up its decision; what it stores is a list of cache operations.
\<close>

section \<open>State\<close>

record user_info =
  ui_Username :: string
  ui_UID :: string
  ui_Groups :: "string list"

record token_review =
  tr_Authenticated :: bool
  tr_Error :: string
  tr_User :: user_info

record authenticator =
  au_authCache :: "string \<Rightarrow> (user_info \<times> int) option"
  au_authzCache :: "string \<Rightarrow> (bool \<times> int) option"

definition NewAuthenticator :: authenticator where
  "NewAuthenticator = \<lparr>au_authCache = Map.empty, au_authzCache = Map.empty\<rparr>"

abbreviation second :: int where "second \<equiv> 1000000000"

definition drop_expired :: "int \<Rightarrow> (string \<Rightarrow> ('v \<times> int) option) \<Rightarrow> (string \<Rightarrow> ('v \<times> int) option)" where
  "drop_expired now m = (\<lambda>k. case m k of None \<Rightarrow> None | Some (v, e) \<Rightarrow> if now > e then None else Some (v, e))"

definition cleanupExpiredEntries :: "int \<Rightarrow> authenticator \<Rightarrow> authenticator" where
  "cleanupExpiredEntries now a =
     a\<lparr>au_authCache := drop_expired now (au_authCache a), au_authzCache := drop_expired now (au_authzCache a)\<rparr>"

section \<open>Calls with retries\<close>

text \<open>The closure of the backoff helper over the answers of its attempts: it remembers the last error and
  stops at the first answer. The helper makes at most five attempts, and none or fewer when the
  context ends.\<close>

fun attempts :: "'r res list \<Rightarrow> err option \<Rightarrow> 'r option \<times> err option" where
  "attempts [] lastErr = (None, lastErr)"
| "attempts (Inl e # rs) lastErr = attempts rs (Some e)"
| "attempts (Inr r # rs) lastErr = (Some r, lastErr)"

definition err_text :: "err option \<Rightarrow> string" where
  "err_text e = (case e of None \<Rightarrow> ''%!w(<nil>)'' | Some m \<Rightarrow> m)"

definition authenticateToken :: "token_review res list \<Rightarrow> user_info res" where
  "authenticateToken answers = (case attempts answers None of
       (None, lastErr) \<Rightarrow> Inl (''failed to call TokenReview API after retries: '' @ err_text lastErr)
     | (Some r, _) \<Rightarrow>
         if \<not> tr_Authenticated r then Inl (''token authentication failed: '' @ tr_Error r)
         else Inr (tr_User r))"

definition authorizeRequest :: "bool res list \<Rightarrow> bool res" where
  "authorizeRequest answers = (case attempts answers None of
       (None, lastErr) \<Rightarrow> Inl (''failed to call SubjectAccessReview API after retries: '' @ err_text lastErr)
     | (Some allowed, _) \<Rightarrow> Inr allowed)"

section \<open>Cached calls\<close>

definition hashToken :: "(string \<Rightarrow> nat list) \<Rightarrow> string \<Rightarrow> string" where
  "hashToken sha token = hex_encode (sha token)"

definition authz_key :: "string \<Rightarrow> string \<Rightarrow> string \<Rightarrow> string" where
  "authz_key user path verb = user @ '':'' @ path @ '':'' @ verb"

datatype cache_op =
    StoreAuth string user_info int
  | StoreAuthz user_info string string bool int
  | Cleanup int

definition authz_ttl :: "bool \<Rightarrow> int" where
  "authz_ttl allowed = (if allowed then 300 * second else 30 * second)"

fun apply_op :: "(string \<Rightarrow> nat list) \<Rightarrow> cache_op \<Rightarrow> authenticator \<Rightarrow> authenticator" where
  "apply_op sha (StoreAuth token u now) a =
     a\<lparr>au_authCache := (au_authCache a)(hashToken sha token \<mapsto> (u, now + 60 * second))\<rparr>"
| "apply_op sha (StoreAuthz u path verb allowed now) a =
     a\<lparr>au_authzCache := (au_authzCache a)(authz_key (ui_Username u) path verb \<mapsto> (allowed, now + authz_ttl allowed))\<rparr>"
| "apply_op sha (Cleanup now) a = cleanupExpiredEntries now a"

definition hit :: "int \<Rightarrow> (string \<Rightarrow> ('v \<times> int) option) \<Rightarrow> string \<Rightarrow> 'v option" where
  "hit now m k = (case m k of Some (v, e) \<Rightarrow> if now < e then Some v else None | None \<Rightarrow> None)"

text \<open>\<open>a\<close> and \<open>now\<close> are the cache and the time at the lookup, \<open>now'\<close> the time at which the
  result is stored.\<close>

definition authenticateTokenCached :: "(string \<Rightarrow> nat list) \<Rightarrow> authenticator \<Rightarrow> int \<Rightarrow> int
    \<Rightarrow> token_review res list \<Rightarrow> string \<Rightarrow> user_info res \<times> cache_op list" where
  "authenticateTokenCached sha a now now' answers token =
     (case hit now (au_authCache a) (hashToken sha token) of
        Some u \<Rightarrow> (Inr u, [])
      | None \<Rightarrow> (case authenticateToken answers of
            Inl e \<Rightarrow> (Inl e, [])
          | Inr u \<Rightarrow> (Inr u, [StoreAuth token u now'])))"

definition authorizeRequestCached :: "authenticator \<Rightarrow> int \<Rightarrow> int \<Rightarrow> bool res list \<Rightarrow> user_info
    \<Rightarrow> string \<Rightarrow> string \<Rightarrow> bool res \<times> cache_op list" where
  "authorizeRequestCached a now now' answers u path method =
     (let verb = ToLower method in
      case hit now (au_authzCache a) (authz_key (ui_Username u) path verb) of
        Some allowed \<Rightarrow> (Inr allowed, [])
      | None \<Rightarrow> (case authorizeRequest answers of
            Inl e \<Rightarrow> (Inl e, [])
          | Inr allowed \<Rightarrow> (Inr allowed, [StoreAuthz u path verb allowed now'])))"

section \<open>The middleware\<close>

definition extractBearerToken :: "string \<Rightarrow> string" where
  "extractBearerToken auth =
     (if auth = '''' then '''' else if \<not> HasPrefix auth ''Bearer '' then '''' else TrimPrefix auth ''Bearer '')"

datatype response = Next | HttpError nat string

record request =
  rq_Authorization :: string
  rq_Path :: string
  rq_Method :: string

text \<open>What one request meets: the caches and the times at its two lookups, the times of its two stores
  and the answers of the API server.\<close>

record meeting =
  mt_a1 :: authenticator
  mt_now1 :: int
  mt_now1' :: int
  mt_reviews :: "token_review res list"
  mt_a2 :: authenticator
  mt_now2 :: int
  mt_now2' :: int
  mt_accesses :: "bool res list"

definition Middleware :: "(string \<Rightarrow> nat list) \<Rightarrow> meeting \<Rightarrow> request \<Rightarrow> response \<times> cache_op list" where
  "Middleware sha m r =
     (let token = extractBearerToken (rq_Authorization r) in
      if token = '''' then (HttpError 401 ''Unauthorized: no bearer token provided'', [])
      else case authenticateTokenCached sha (mt_a1 m) (mt_now1 m) (mt_now1' m) (mt_reviews m) token of
        (Inl e, ops) \<Rightarrow> (HttpError 401 (''Unauthorized: '' @ e), ops)
      | (Inr u, ops) \<Rightarrow>
          (case authorizeRequestCached (mt_a2 m) (mt_now2 m) (mt_now2' m) (mt_accesses m) u (rq_Path r) (rq_Method r) of
             (Inl e, ops') \<Rightarrow> (HttpError 500 (''Internal error: '' @ e), ops @ ops')
           | (Inr allowed, ops') \<Rightarrow>
               (if \<not> allowed then HttpError 403 ''Forbidden: insufficient permissions'' else Next, ops @ ops')))"

section \<open>What a cache holds\<close>

definition after_ops :: "(string \<Rightarrow> nat list) \<Rightarrow> cache_op list \<Rightarrow> authenticator" where
  "after_ops sha ops = fold (apply_op sha) ops NewAuthenticator"

lemma after_ops_snoc: "after_ops sha (ops @ [x]) = apply_op sha x (after_ops sha ops)"
  by (simp add: after_ops_def)

lemma after_ops_Nil: "after_ops sha [] = NewAuthenticator"
  by (simp add: after_ops_def)

lemma drop_expired_Some: "drop_expired now m k = Some x \<Longrightarrow> m k = Some x"
  by (auto simp: drop_expired_def split: option.splits if_splits)

lemma drop_expired_hit: "now' \<le> now \<Longrightarrow> hit now (drop_expired now' m) k = hit now m k"
  by (auto simp: drop_expired_def hit_def split: option.splits)

lemma auth_entry_stored:
  assumes "au_authCache (after_ops sha ops) k = Some (u, e)"
  shows "\<exists>token t. StoreAuth token u t \<in> set ops \<and> hashToken sha token = k \<and> e = t + 60 * second"
  using assms
proof (induction ops rule: rev_induct)
  case (snoc x ops)
  then show ?case
    by (cases x) (auto simp: after_ops_snoc cleanupExpiredEntries_def dest: drop_expired_Some split: if_splits)
qed (simp add: after_ops_Nil NewAuthenticator_def)

lemma authz_entry_stored:
  assumes "au_authzCache (after_ops sha ops) k = Some (b, e)"
  shows "\<exists>u path verb t. StoreAuthz u path verb b t \<in> set ops \<and> authz_key (ui_Username u) path verb = k \<and>
    e = t + authz_ttl b"
  using assms
proof (induction ops rule: rev_induct)
  case (snoc x ops)
  then show ?case
    by (cases x) (auto simp: after_ops_snoc cleanupExpiredEntries_def dest: drop_expired_Some split: if_splits)
qed (simp add: after_ops_Nil NewAuthenticator_def)

section \<open>Keys\<close>

lemma split_at_unique:
  "c \<notin> set a \<Longrightarrow> c \<notin> set a' \<Longrightarrow> a @ c # b = a' @ c # b' \<Longrightarrow> a = a' \<and> b = b'"
proof (induction a arbitrary: a')
  case Nil
  then show ?case by (cases a') auto
next
  case (Cons x a)
  then show ?case by (cases a') auto
qed

lemma split_at_last_unique:
  assumes "c \<notin> set b" "c \<notin> set b'" "a @ c # b = a' @ c # b'"
  shows "a = a' \<and> b = b'"
proof -
  have "rev b @ c # rev a = rev b' @ c # rev a'"
    using arg_cong [OF assms(3), of rev] by simp
  with assms(1,2) split_at_unique [of c "rev b" "rev b'" "rev a" "rev a'"] show ?thesis by simp
qed

text \<open>The parts of a decision key can be told apart when the user name has no slash, the path begins with
  one and the verb has no colon.\<close>

definition key_parts :: "string \<Rightarrow> string \<Rightarrow> string \<Rightarrow> bool" where
  "key_parts user path verb \<longleftrightarrow> CHR ''/'' \<notin> set user \<and> (\<exists>p. path = CHR ''/'' # p) \<and> CHR '':'' \<notin> set verb"

lemma authz_key_inj:
  assumes "key_parts u p v" "key_parts u' p' v'" "authz_key u p v = authz_key u' p' v'"
  shows "u = u' \<and> p = p' \<and> v = v'"
proof -
  obtain q q' where q: "p = CHR ''/'' # q" "p' = CHR ''/'' # q'" using assms(1,2) by (auto simp: key_parts_def)
  have v: "CHR '':'' \<notin> set v" "CHR '':'' \<notin> set v'" using assms(1,2) by (simp_all add: key_parts_def)
  have "(u @ '':'' @ p) @ CHR '':'' # v = (u' @ '':'' @ p') @ CHR '':'' # v'"
    using assms(3) by (simp add: authz_key_def)
  from split_at_last_unique [OF v this] have 1: "u @ '':'' @ p = u' @ '':'' @ p'" "v = v'" by blast+
  then have "(u @ '':'') @ CHR ''/'' # q = (u' @ '':'') @ CHR ''/'' # q'" using q by simp
  from split_at_unique [OF _ _ this] have "u @ '':'' = u' @ '':'' \<and> q = q'"
    using assms(1,2) by (simp add: key_parts_def)
  with 1 q show ?thesis by simp
qed

lemma to_lower_colon: "to_lower c = CHR '':'' \<Longrightarrow> c = CHR '':''"
proof -
  assume a: "to_lower c = CHR '':''"
  show ?thesis
  proof (cases "65 \<le> (of_char c :: nat) \<and> (of_char c :: nat) \<le> 90")
    case True
    then have "(of_char (to_lower c) :: nat) = of_char c + 32" by (simp add: to_lower_def)
    then show ?thesis using a True by simp
  next
    case False
    then show ?thesis using a by (auto simp: to_lower_def)
  qed
qed

lemma lower_no_colon: "CHR '':'' \<notin> set s \<Longrightarrow> CHR '':'' \<notin> set (ToLower s)"
  unfolding ToLower_def set_map by (metis imageE to_lower_colon)

section \<open>Who is let in\<close>

lemma hit_Some: "hit now m k = Some v \<Longrightarrow> \<exists>e. m k = Some (v, e) \<and> now < e"
  by (auto simp: hit_def split: option.splits if_splits)

lemma authenticated:
  assumes "authenticateTokenCached sha (after_ops sha ops) now now' answers token = (Inr u, new)"
  shows "(\<exists>token' t. StoreAuth token' u t \<in> set ops \<and> hashToken sha token' = hashToken sha token \<and>
      now < t + 60 * second \<and> new = []) \<or>
    (\<exists>r. fst (attempts answers None) = Some r \<and> tr_Authenticated r \<and> tr_User r = u \<and> new = [StoreAuth token u now'])"
  using assms
  by (auto simp: authenticateTokenCached_def authenticateToken_def dest!: hit_Some auth_entry_stored
      split: option.splits sum.splits prod.splits if_splits) blast

lemma authorized:
  assumes "authorizeRequestCached (after_ops sha ops) now now' answers u path method = (Inr b, new)"
  shows "(\<exists>u' path' verb t. StoreAuthz u' path' verb b t \<in> set ops \<and> now < t + authz_ttl b \<and>
      authz_key (ui_Username u') path' verb = authz_key (ui_Username u) path (ToLower method) \<and> new = []) \<or>
    (fst (attempts answers None) = Some b \<and> new = [StoreAuthz u path (ToLower method) b now'])"
  using assms
  by (auto simp: authorizeRequestCached_def authorizeRequest_def Let_def dest!: hit_Some authz_entry_stored
      split: option.splits sum.splits prod.splits)

definition users_of :: "cache_op list \<Rightarrow> token_review res list \<Rightarrow> user_info set" where
  "users_of ops rs = {u. \<exists>token t. StoreAuth token u t \<in> set ops} \<union> {tr_User r |r. Inr r \<in> set rs}"

lemma attempts_member: "fst (attempts rs e) = Some r \<Longrightarrow> Inr r \<in> set rs"
  by (induction rs e rule: attempts.induct) auto

text \<open>C8. Whatever the other requests did to the caches before its two lookups, a request is let in only
  with a token that the API server has confirmed as some user, now or in an answer stored in the
  last minute, and only if the server has allowed, now or in an answer stored in the last five
  minutes, a user of that name the same path and verb. It must be assumed that the digest does not
  collide on the stored tokens and that the parts of a key can be told apart.\<close>

theorem let_in_is_authorized:
  fixes r :: request
  defines "token \<equiv> extractBearerToken (rq_Authorization r)"
  assumes "mt_a1 m = after_ops sha ops1" "mt_a2 m = after_ops sha ops2"
    and "Middleware sha m r = (Next, new)"
    and "\<And>token' u t. StoreAuth token' u t \<in> set ops1 \<Longrightarrow> hashToken sha token' = hashToken sha token \<Longrightarrow> token' = token"
    and "\<And>u path verb b t. StoreAuthz u path verb b t \<in> set ops2 \<Longrightarrow> key_parts (ui_Username u) path verb"
    and "\<And>u. u \<in> users_of ops1 (mt_reviews m) \<Longrightarrow> key_parts (ui_Username u) (rq_Path r) (rq_Method r)"
  shows "\<exists>u u'. token \<noteq> '''' \<and> ui_Username u' = ui_Username u \<and>
    ((\<exists>t. StoreAuth token u t \<in> set ops1 \<and> mt_now1 m < t + 60 * second) \<or>
     (\<exists>rv. fst (attempts (mt_reviews m) None) = Some rv \<and> tr_Authenticated rv \<and> tr_User rv = u)) \<and>
    ((\<exists>t. StoreAuthz u' (rq_Path r) (ToLower (rq_Method r)) True t \<in> set ops2 \<and> mt_now2 m < t + 300 * second) \<or>
     (fst (attempts (mt_accesses m) None) = Some True \<and> u' = u))"
proof -
  obtain u n1 n2 where tok: "token \<noteq> ''''" and
    1: "authenticateTokenCached sha (after_ops sha ops1) (mt_now1 m) (mt_now1' m) (mt_reviews m) token = (Inr u, n1)" and
    2: "authorizeRequestCached (after_ops sha ops2) (mt_now2 m) (mt_now2' m) (mt_accesses m) u (rq_Path r) (rq_Method r) = (Inr True, n2)"
    using assms(2-4) by (auto simp: Middleware_def token_def Let_def split: if_splits prod.splits sum.splits)
  have first: "(\<exists>t. StoreAuth token u t \<in> set ops1 \<and> mt_now1 m < t + 60 * second) \<or>
     (\<exists>rv. fst (attempts (mt_reviews m) None) = Some rv \<and> tr_Authenticated rv \<and> tr_User rv = u)"
    using authenticated [OF 1] assms(5) by blast
  then have "u \<in> users_of ops1 (mt_reviews m)"
    using attempts_member by (force simp: users_of_def)
  then have key: "key_parts (ui_Username u) (rq_Path r) (ToLower (rq_Method r))"
    using assms(7) [of u] lower_no_colon by (simp add: key_parts_def)
  have "\<exists>u'. ui_Username u' = ui_Username u \<and>
    ((\<exists>t. StoreAuthz u' (rq_Path r) (ToLower (rq_Method r)) True t \<in> set ops2 \<and> mt_now2 m < t + 300 * second) \<or>
     (fst (attempts (mt_accesses m) None) = Some True \<and> u' = u))"
    using authorized [OF 2]
  proof (elim disjE exE conjE)
    fix u' path' verb t
    assume a: "StoreAuthz u' path' verb True t \<in> set ops2" "mt_now2 m < t + authz_ttl True"
      "authz_key (ui_Username u') path' verb = authz_key (ui_Username u) (rq_Path r) (ToLower (rq_Method r))"
    from authz_key_inj [OF assms(6) [OF a(1)] key a(3)] a(1,2) show ?thesis
      by (auto simp: authz_ttl_def)
  qed auto
  with tok first show ?thesis by blast
qed

section \<open>What a request stores\<close>

text \<open>C22. A request stores nothing but what the API server answered to it: a user only when the token was
  authenticated, a decision only when there was one, so failed calls and rejected tokens are never
  cached. Each decision is stored under the path and the verb of the request and under the user that this
  request was authenticated as, by the cache or by the server. Without a token nothing is stored and the answer
  is a 401 in which neither the caches nor the API server play a part.\<close>

theorem stores_only_answers:
  assumes "Middleware sha m r = (resp, new)"
  shows "(\<forall>token u t. StoreAuth token u t \<in> set new \<longrightarrow> token = extractBearerToken (rq_Authorization r) \<and>
      authenticateToken (mt_reviews m) = Inr u \<and> t = mt_now1' m) \<and>
    (\<forall>u path verb b t. StoreAuthz u path verb b t \<in> set new \<longrightarrow> path = rq_Path r \<and> verb = ToLower (rq_Method r) \<and>
      (hit (mt_now1 m) (au_authCache (mt_a1 m)) (hashToken sha (extractBearerToken (rq_Authorization r))) = Some u \<or>
        StoreAuth (extractBearerToken (rq_Authorization r)) u (mt_now1' m) \<in> set new) \<and>
      authorizeRequest (mt_accesses m) = Inr b \<and> t = mt_now2' m \<and> (resp = Next \<longleftrightarrow> b)) \<and>
    (extractBearerToken (rq_Authorization r) = '''' \<longrightarrow> new = [] \<and> (\<exists>msg. resp = HttpError 401 msg) \<and>
      (\<forall>m'. Middleware sha m' r = (resp, new)))"
proof -
  let ?token = "extractBearerToken (rq_Authorization r)"
  let ?hit = "hit (mt_now1 m) (au_authCache (mt_a1 m)) (hashToken sha ?token)"
  obtain r1 n1 where 1: "authenticateTokenCached sha (mt_a1 m) (mt_now1 m) (mt_now1' m) (mt_reviews m) ?token = (r1, n1)"
    by (cases "authenticateTokenCached sha (mt_a1 m) (mt_now1 m) (mt_now1' m) (mt_reviews m) ?token")
  have n1: "n1 = [] \<and> (\<forall>u. r1 = Inr u \<longrightarrow> ?hit = Some u)
      \<or> (\<exists>u. r1 = Inr u \<and> authenticateToken (mt_reviews m) = Inr u \<and> n1 = [StoreAuth ?token u (mt_now1' m)])"
    using 1 by (auto simp: authenticateTokenCached_def split: option.splits sum.splits)
  have n2: "n2 = [] \<or> (\<exists>b. r2 = Inr b \<and> authorizeRequest (mt_accesses m) = Inr b \<and>
      n2 = [StoreAuthz u (rq_Path r) (ToLower (rq_Method r)) b (mt_now2' m)])"
    if "authorizeRequestCached (mt_a2 m) (mt_now2 m) (mt_now2' m) (mt_accesses m) u (rq_Path r) (rq_Method r) = (r2, n2)"
    for u r2 n2
    using that by (auto simp: authorizeRequestCached_def Let_def split: option.splits sum.splits)
  show ?thesis
  proof (cases "?token = ''''")
    case True
    then show ?thesis using assms by (auto simp: Middleware_def Let_def)
  next
    case False
    show ?thesis
    proof (cases r1)
      case (Inl e)
      then show ?thesis using assms False 1 n1 by (auto simp: Middleware_def Let_def)
    next
      case (Inr u)
      obtain r2 n2' where 2: "authorizeRequestCached (mt_a2 m) (mt_now2 m) (mt_now2' m) (mt_accesses m) u (rq_Path r) (rq_Method r) = (r2, n2')"
        by (cases "authorizeRequestCached (mt_a2 m) (mt_now2 m) (mt_now2' m) (mt_accesses m) u (rq_Path r) (rq_Method r)")
      have new: "new = n1 @ n2'" and resp: "r2 = Inr b \<Longrightarrow> resp = Next \<longleftrightarrow> b" for b
        using assms False 1 2 Inr by (auto simp: Middleware_def Let_def split: sum.splits if_splits)
      have a: "StoreAuth token u' t \<in> set new \<Longrightarrow> token = ?token \<and> authenticateToken (mt_reviews m) = Inr u' \<and> t = mt_now1' m"
        for token u' t
        using n1 n2 [OF 2] unfolding new by (elim disjE) auto
      have who: "?hit = Some u \<or> StoreAuth ?token u (mt_now1' m) \<in> set new"
        using n1 Inr unfolding new by auto
      have b: "StoreAuthz u' path verb b t \<in> set new \<Longrightarrow> path = rq_Path r \<and> verb = ToLower (rq_Method r) \<and> u' = u \<and>
          authorizeRequest (mt_accesses m) = Inr b \<and> t = mt_now2' m \<and> r2 = Inr b" for u' path verb b t
        using n1 n2 [OF 2] unfolding new by (elim disjE) auto
      show ?thesis using a b resp False who by blast
    qed
  qed
qed

section \<open>Clean-up changes no answer\<close>

definition is_cleanup :: "cache_op \<Rightarrow> bool" where
  "is_cleanup x \<longleftrightarrow> (case x of Cleanup _ \<Rightarrow> True | _ \<Rightarrow> False)"

lemma is_cleanup_simps [simp]:
  "is_cleanup (Cleanup t)" "\<not> is_cleanup (StoreAuth a u t)" "\<not> is_cleanup (StoreAuthz u p v b t)"
  by (simp_all add: is_cleanup_def)

lemma hit_upd: "hit now m j = hit now m' j \<Longrightarrow> hit now (m(k \<mapsto> x)) j = hit now (m'(k \<mapsto> x)) j"
  by (simp add: hit_def)

lemma cleanup_hits:
  assumes "\<forall>t. Cleanup t \<in> set ops \<longrightarrow> t \<le> now"
  shows "hit now (au_authCache (after_ops sha ops)) k =
      hit now (au_authCache (after_ops sha (filter (\<lambda>x. \<not> is_cleanup x) ops))) k \<and>
    hit now (au_authzCache (after_ops sha ops)) k =
      hit now (au_authzCache (after_ops sha (filter (\<lambda>x. \<not> is_cleanup x) ops))) k"
  using assms
proof (induction ops arbitrary: k rule: rev_induct)
  case (snoc x ops)
  then have IH: "hit now (au_authCache (after_ops sha ops)) k =
      hit now (au_authCache (after_ops sha (filter (\<lambda>x. \<not> is_cleanup x) ops))) k"
    "hit now (au_authzCache (after_ops sha ops)) k =
      hit now (au_authzCache (after_ops sha (filter (\<lambda>x. \<not> is_cleanup x) ops))) k" for k
    by auto
  show ?case
    using snoc.prems by (cases x)
      (simp_all add: after_ops_snoc cleanupExpiredEntries_def drop_expired_hit IH hit_upd [OF IH(1)] hit_upd [OF IH(2)]
        del: fun_upd_apply)
qed simp

text \<open>The goroutine that removes expired entries is invisible: every request gets the answer and makes
  the stores that it would with a cache from which nothing was ever removed.\<close>

theorem cleanup_is_invisible:
  assumes "mt_a1 m = after_ops sha ops1" "mt_a2 m = after_ops sha ops2"
    and "\<forall>t. Cleanup t \<in> set ops1 \<longrightarrow> t \<le> mt_now1 m" "\<forall>t. Cleanup t \<in> set ops2 \<longrightarrow> t \<le> mt_now2 m"
  shows "Middleware sha m r = Middleware sha (m\<lparr>
    mt_a1 := after_ops sha (filter (\<lambda>x. \<not> is_cleanup x) ops1),
    mt_a2 := after_ops sha (filter (\<lambda>x. \<not> is_cleanup x) ops2)\<rparr>) r"
proof -
  let ?m = "m\<lparr>mt_a1 := after_ops sha (filter (\<lambda>x. \<not> is_cleanup x) ops1),
    mt_a2 := after_ops sha (filter (\<lambda>x. \<not> is_cleanup x) ops2)\<rparr>"
  have 1: "authenticateTokenCached sha (mt_a1 m) (mt_now1 m) n rs token =
      authenticateTokenCached sha (mt_a1 ?m) (mt_now1 m) n rs token" for n rs token
    using cleanup_hits [OF assms(3)] assms(1) by (simp add: authenticateTokenCached_def)
  have 2: "authorizeRequestCached (mt_a2 m) (mt_now2 m) n rs u p v =
      authorizeRequestCached (mt_a2 ?m) (mt_now2 m) n rs u p v" for n rs u p v
    using cleanup_hits [OF assms(4)] assms(2) by (simp add: authorizeRequestCached_def)
  show ?thesis by (simp add: Middleware_def Let_def 1 2 split: prod.split sum.split)
qed

section \<open>Concrete runs\<close>

definition demo_user :: user_info where
  "demo_user = \<lparr>ui_Username = ''prometheus'', ui_UID = ''1'', ui_Groups = []\<rparr>"

definition demo_sha :: "string \<Rightarrow> nat list" where
  "demo_sha s = map of_char s"

definition demo_ops :: "cache_op list" where
  "demo_ops = [StoreAuth ''t'' demo_user 0, Cleanup second,
     StoreAuthz demo_user ''/metrics'' ''get'' True second, Cleanup (2 * second)]"

definition demo_meeting :: meeting where
  "demo_meeting = \<lparr>mt_a1 = after_ops demo_sha demo_ops, mt_now1 = 2 * second, mt_now1' = 3 * second, mt_reviews = [],
     mt_a2 = after_ops demo_sha demo_ops, mt_now2 = 4 * second, mt_now2' = 5 * second, mt_accesses = []\<rparr>"

definition demo_request :: request where
  "demo_request = \<lparr>rq_Authorization = ''Bearer t'', rq_Path = ''/metrics'', rq_Method = ''GET''\<rparr>"

lemma demo_let_in: "Middleware demo_sha demo_meeting demo_request = (Next, [])"
  by code_simp

theorem let_in_is_authorized_witness:
  "\<exists>u. extractBearerToken (rq_Authorization demo_request) \<noteq> '''' \<and>
     (\<exists>t. StoreAuth ''t'' u t \<in> set demo_ops \<and> mt_now1 demo_meeting < t + 60 * second)"
proof -
  have tok: "extractBearerToken (rq_Authorization demo_request) = ''t''" by code_simp
  have "\<exists>u u'. ''t'' \<noteq> '''' \<and> ui_Username u' = ui_Username u \<and>
    ((\<exists>t. StoreAuth ''t'' u t \<in> set demo_ops \<and> mt_now1 demo_meeting < t + 60 * second) \<or>
     (\<exists>rv. fst (attempts (mt_reviews demo_meeting) None) = Some rv \<and> tr_Authenticated rv \<and> tr_User rv = u)) \<and>
    ((\<exists>t. StoreAuthz u' (rq_Path demo_request) (ToLower (rq_Method demo_request)) True t \<in> set demo_ops \<and>
        mt_now2 demo_meeting < t + 300 * second) \<or>
     (fst (attempts (mt_accesses demo_meeting) None) = Some True \<and> u' = u))"
    unfolding tok [symmetric]
  proof (rule let_in_is_authorized [OF _ _ demo_let_in])
    show "mt_a1 demo_meeting = after_ops demo_sha demo_ops" "mt_a2 demo_meeting = after_ops demo_sha demo_ops"
      by (simp_all add: demo_meeting_def)
    show "token' = extractBearerToken (rq_Authorization demo_request)" if "StoreAuth token' u t \<in> set demo_ops" for token' u t
      using that by (simp add: tok demo_ops_def)
    show "key_parts (ui_Username u) path verb" if "StoreAuthz u path verb b t \<in> set demo_ops" for u path verb b t
      using that by (simp add: demo_ops_def key_parts_def demo_user_def)
    show "key_parts (ui_Username u) (rq_Path demo_request) (rq_Method demo_request)"
      if "u \<in> users_of demo_ops (mt_reviews demo_meeting)" for u
      using that by (auto simp: users_of_def demo_ops_def demo_meeting_def key_parts_def demo_user_def demo_request_def)
  qed
  moreover have "fst (attempts (mt_reviews demo_meeting) None) = None" by (simp add: demo_meeting_def)
  ultimately show ?thesis unfolding tok by force
qed

theorem stores_only_answers_witness:
  "\<exists>msg. Middleware demo_sha demo_meeting (demo_request\<lparr>rq_Authorization := ''Basic t''\<rparr>) = (HttpError 401 msg, [])"
proof -
  have b: "extractBearerToken (rq_Authorization (demo_request\<lparr>rq_Authorization := ''Basic t''\<rparr>)) = ''''" by code_simp
  obtain resp new where m: "Middleware demo_sha demo_meeting (demo_request\<lparr>rq_Authorization := ''Basic t''\<rparr>) = (resp, new)"
    by (cases "Middleware demo_sha demo_meeting (demo_request\<lparr>rq_Authorization := ''Basic t''\<rparr>)")
  from stores_only_answers [OF m] b obtain msg where "resp = HttpError 401 msg" "new = []" by blast
  with m show ?thesis by blast
qed

theorem cleanup_is_invisible_witness:
  "Middleware demo_sha (demo_meeting\<lparr>
     mt_a1 := after_ops demo_sha (filter (\<lambda>x. \<not> is_cleanup x) demo_ops),
     mt_a2 := after_ops demo_sha (filter (\<lambda>x. \<not> is_cleanup x) demo_ops)\<rparr>) demo_request = (Next, [])"
proof -
  have "\<forall>t. Cleanup t \<in> set demo_ops \<longrightarrow> t \<le> mt_now1 demo_meeting"
    "\<forall>t. Cleanup t \<in> set demo_ops \<longrightarrow> t \<le> mt_now2 demo_meeting"
    by (auto simp: demo_ops_def demo_meeting_def)
  from cleanup_is_invisible [OF _ _ this, of demo_sha demo_request] demo_let_in show ?thesis
    by (simp add: demo_meeting_def)
qed

end
