(* ===== verification/Main_Program.thy ===== *)
theory Main_Program
  imports Metrics_Server HTTP_Servers
begin

text \<open>
  \<open>main.go\<close> and \<open>pkg/logger\<close>: what a change of the configuration file does to the running process.
  The callback loads and validates the new configuration, then applies it to the logger, to the
  profiling server and to the metrics server, in this order.
\<close>

section \<open>The logger\<close>

datatype log_level = DebugLevel | InfoLevel | WarnLevel | ErrorLevel

datatype log_formatter = JSONFormatter | TextFormatter bool bool

record logger =
  lg_level :: log_level
  lg_reportCaller :: bool
  lg_formatter :: log_formatter

record log_options =
  lo_Debug :: bool
  lo_Level :: string
  lo_Format :: string

datatype log_option = WithDebug bool | WithLevel string | WithFormat string

fun apply_log_option :: "log_options \<Rightarrow> log_option \<Rightarrow> log_options" where
  "apply_log_option o' (WithDebug b) = o'\<lparr>lo_Debug := b\<rparr>"
| "apply_log_option o' (WithLevel l) = o'\<lparr>lo_Level := l\<rparr>"
| "apply_log_option o' (WithFormat f) = o'\<lparr>lo_Format := f\<rparr>"

definition resolveOptions :: "log_option list \<Rightarrow> log_options" where
  "resolveOptions opts = foldl apply_log_option \<lparr>lo_Debug = False, lo_Level = ''info'', lo_Format = ''text''\<rparr> opts"

text \<open>The text formatter has the fields \<open>ForceQuote\<close> and \<open>DisableQuote\<close> that depend on the options.\<close>

definition configure :: "log_options \<Rightarrow> logger" where
  "configure o' =
     (let level = ToLower (lo_Level o')
      in \<lparr>lg_level = (if level = ''debug'' then DebugLevel else if level = ''info'' then InfoLevel
             else if level = ''warn'' then WarnLevel else if level = ''error'' then ErrorLevel else InfoLevel),
          lg_reportCaller = (lo_Debug o' \<or> level = ''debug''),
          lg_formatter = (if lo_Format o' = ''json'' then JSONFormatter
             else TextFormatter (lo_Debug o') (\<not> lo_Debug o'))\<rparr>)"

text \<open>\<open>InitLog\<close> configures the given logger and the global one alike.\<close>

definition InitLog :: "log_option list \<Rightarrow> logger \<times> logger" where
  "InitLog opts = (let o' = resolveOptions opts in (configure o', configure o'))"

section \<open>The callback\<close>

record ('e, 'c) process =
  pr_env :: 'e
  pr_logger :: "logger \<times> logger"
  pr_pprof :: "pprof_server option"
  pr_detached :: "pprof_server list"
  pr_net :: net
  pr_server :: "'c server"

definition reloadLogger :: "GlobalConfig \<Rightarrow> logger \<times> logger" where
  "reloadLogger cfg = InitLog [WithDebug (log_Debug (gc_Logging cfg)), WithLevel (log_Level (gc_Logging cfg)),
     WithFormat (log_Format (gc_Logging cfg))]"

text \<open>A server started here is not kept by the process: it joins the detached ones.\<close>

definition reloadPprofServer :: "(string \<Rightarrow> err option) \<Rightarrow> GlobalConfig \<Rightarrow> pprof_server option \<Rightarrow> net
    \<Rightarrow> pprof_server option \<times> pprof_server list \<times> net" where
  "reloadPprofServer refuse cfg ps w = (case ps of
       Some s \<Rightarrow>
         if \<not> pp_Enabled (gc_Pprof cfg) then (case pprof_Stop s w of (_, s', w') \<Rightarrow> (Some s', [], w'))
         else (case pprof_Reload refuse (pp_Port (gc_Pprof cfg)) s w of (_, s', w') \<Rightarrow> (Some s', [], w'))
     | None \<Rightarrow>
         if pp_Enabled (gc_Pprof cfg)
         then (case pprof_Start refuse (pprof_NewServer (pp_Port (gc_Pprof cfg))) w of
                 (e, s', w') \<Rightarrow> (None, if e = None then [s'] else [], w'))
         else (None, [], w))"

text \<open>\<open>None\<close> is an exit of the process inside the argument parser.\<close>

definition handleReload :: "('c, 'm) collector_iface \<Rightarrow> srv_env \<Rightarrow> orders \<Rightarrow> 'e parsers \<Rightarrow> (string \<Rightarrow> err option)
    \<Rightarrow> string list \<Rightarrow> string \<Rightarrow> ('e, 'c) process \<Rightarrow> (err option \<times> ('e, 'c) process) go option" where
  "handleReload I E od P refuse cliArgs content p =
     (case loadAndValidateConfig P cliArgs content (pr_env p) of
        None \<Rightarrow> None
      | Some (Inl e, env') \<Rightarrow> Some (Ret (Some e, p\<lparr>pr_env := env'\<rparr>))
      | Some (Inr cfg, env') \<Rightarrow>
          (case reloadPprofServer refuse cfg (pr_pprof p) (pr_net p) of (ps, det, w) \<Rightarrow>
             Some (bind_go (Reload I E od content cfg (pr_server p)) (\<lambda>(e, s').
               Ret (e, p\<lparr>pr_env := env', pr_logger := reloadLogger cfg, pr_pprof := ps,
                 pr_detached := pr_detached p @ det, pr_net := w, pr_server := s'\<rparr>)))))"

section \<open>Properties\<close>

lemma reloadPprof_kept:
  assumes "pprof_ok s w" "reloadPprofServer refuse cfg (Some s) w = (ps, det, w')"
  shows "\<exists>s'. ps = Some s' \<and> det = [] \<and> pprof_ok s' w' \<and>
    (\<not> pp_Enabled (gc_Pprof cfg) \<longrightarrow> pf_server s' = None) \<and>
    (pp_Enabled (gc_Pprof cfg) \<longrightarrow> pf_port s' = pp_Port (gc_Pprof cfg))"
proof (cases "pp_Enabled (gc_Pprof cfg)")
  case False
  obtain e s1 w1 where st: "pprof_Stop s w = (e, s1, w1)" by (metis prod_cases3)
  from pprof_Stop_ok [OF assms(1) st] False st assms(2) show ?thesis
    by (auto simp: reloadPprofServer_def)
next
  case True
  obtain e s1 w1 where st: "pprof_Reload refuse (pp_Port (gc_Pprof cfg)) s w = (e, s1, w1)" by (metis prod_cases3)
  from pprof_Reload_ok [OF assms(1) st] True st assms(2) show ?thesis
    by (auto simp: reloadPprofServer_def)
qed

lemma reloadPprof_detached:
  assumes "net_ok w" "reloadPprofServer refuse cfg None w = (ps, det, w')"
  shows "ps = None \<and> (\<not> pp_Enabled (gc_Pprof cfg) \<longrightarrow> det = [] \<and> w' = w) \<and>
    (\<forall>s \<in> set det. pprof_ok s w' \<and> pf_server s \<noteq> None \<and> pf_port s = pp_Port (gc_Pprof cfg)) \<and>
    (det = [] \<longleftrightarrow> \<not> pp_Enabled (gc_Pprof cfg) \<or> nt_bound w (pprof_addr (pp_Port (gc_Pprof cfg))) \<noteq> None \<or>
       refuse (pprof_addr (pp_Port (gc_Pprof cfg))) \<noteq> None) \<and> length det \<le> 1"
proof (cases "pp_Enabled (gc_Pprof cfg)")
  case False
  then show ?thesis using assms(2) by (auto simp: reloadPprofServer_def)
next
  case True
  let ?s0 = "pprof_NewServer (pp_Port (gc_Pprof cfg))"
  obtain e s where start: "pprof_Start refuse ?s0 w = (e, s, w')" "det = (if e = None then [s] else [])" "ps = None"
    using assms(2) True by (auto simp: reloadPprofServer_def split: prod.splits)
  have ok: "pprof_ok ?s0 w" "pf_server ?s0 = None" using assms(1) by (simp_all add: pprof_ok_def pprof_NewServer_def)
  note st = pprof_Start_ok [OF ok start(1)]
  have port: "pf_port ?s0 = pp_Port (gc_Pprof cfg)" by (simp add: pprof_NewServer_def)
  show ?thesis using st start(2,3) True port by (auto split: if_splits)
qed


text \<open>A profiling server that a reload starts cannot be stopped any more: when the process was started
  without one, every later reload, also one that switches profiling off, leaves its port bound,
  and a reload that changes the port binds another one.\<close>

theorem detached_pprof_stays:
  assumes "net_ok w" "reloadPprofServer refuse cfg None w = (ps, [s], w1)"
    and "reloadPprofServer refuse' cfg' None w1 = (ps', det, w2)"
  shows "pp_Enabled (gc_Pprof cfg) \<and> ps = None \<and> ps' = None \<and>
    nt_bound w2 (pprof_addr (pp_Port (gc_Pprof cfg))) = pf_server s \<and> pf_server s \<noteq> None"
proof -
  have en: "pp_Enabled (gc_Pprof cfg)" and ps: "ps = None" "ps' = None"
    using assms(2,3) by (auto simp: reloadPprofServer_def split: if_splits prod.splits)
  let ?s0 = "pprof_NewServer (pp_Port (gc_Pprof cfg))"
  obtain e where start: "pprof_Start refuse ?s0 w = (e, s, w1)" and "e = None"
    using assms(2) en by (auto simp: reloadPprofServer_def split: if_splits prod.splits)
  have ok0: "pprof_ok ?s0 w" "pf_server ?s0 = None" using assms(1) by (simp_all add: pprof_ok_def pprof_NewServer_def)
  note 1 = pprof_Start_ok [OF ok0 start]
  obtain l where l: "pf_server s = Some l" using 1(3) \<open>e = None\<close> by auto
  have port: "pf_port s = pp_Port (gc_Pprof cfg)" using 1(2) by (simp add: pprof_NewServer_def)
  have bound: "nt_bound w1 (pprof_addr (pp_Port (gc_Pprof cfg))) = Some l" "net_ok w1"
    using 1(1) l port by (simp_all add: pprof_ok_def)
  have "nt_bound w2 (pprof_addr (pp_Port (gc_Pprof cfg))) = Some l"
  proof (cases "pp_Enabled (gc_Pprof cfg')")
    case True
    let ?t0 = "pprof_NewServer (pp_Port (gc_Pprof cfg'))"
    obtain e' t where start': "pprof_Start refuse' ?t0 w1 = (e', t, w2)"
      using assms(3) True by (auto simp: reloadPprofServer_def split: prod.splits)
    have ok: "pprof_ok ?t0 w1" "pf_server ?t0 = None" using bound(2) by (simp_all add: pprof_ok_def pprof_NewServer_def)
    note 2 = pprof_Start_ok [OF ok start']
    have pt: "pf_port ?t0 = pp_Port (gc_Pprof cfg')" by (simp add: pprof_NewServer_def)
    show ?thesis
    proof (cases "pprof_addr (pp_Port (gc_Pprof cfg)) = pprof_addr (pp_Port (gc_Pprof cfg'))")
      case True
      then have "e' \<noteq> None" using 2(6) bound(1) pt by auto
      then show ?thesis using 2(4) bound(1) by simp
    next
      case False
      then show ?thesis using 2(5) bound(1) pt by simp
    qed
  next
    case False
    then show ?thesis using assms(3) bound(1) by (simp add: reloadPprofServer_def)
  qed
  with en ps l show ?thesis by simp
qed

section \<open>Concrete runs\<close>


theorem detached_pprof_stays_witness:
  "\<exists>ps s w1 ps' det w2 l. reloadPprofServer (\<lambda>_. None) (demo_config\<lparr>gc_Pprof := \<lparr>pp_Enabled = True, pp_Port = 6060\<rparr>\<rparr>) None empty_net = (ps, [s], w1) \<and>
     reloadPprofServer (\<lambda>_. None) (demo_config\<lparr>gc_Pprof := \<lparr>pp_Enabled = False, pp_Port = 6060\<rparr>\<rparr>) None w1 = (ps', det, w2) \<and>
     nt_bound w2 (pprof_addr 6060) = Some l"
proof -
  have net: "net_ok empty_net" by (simp add: net_ok_def empty_net_def)
  obtain ps s w1 where 1: "reloadPprofServer (\<lambda>_. None) (demo_config\<lparr>gc_Pprof := \<lparr>pp_Enabled = True, pp_Port = 6060\<rparr>\<rparr>) None empty_net = (ps, [s], w1)"
    by (simp add: reloadPprofServer_def pprof_Start_def pprof_NewServer_def listen_def empty_net_def)
  obtain ps' det w2 where 2: "reloadPprofServer (\<lambda>_. None) (demo_config\<lparr>gc_Pprof := \<lparr>pp_Enabled = False, pp_Port = 6060\<rparr>\<rparr>) None w1 = (ps', det, w2)"
    by (metis prod_cases3)
  from detached_pprof_stays [OF net 1 2] 1 2 show ?thesis by auto
qed

end
