(* ===== verification/Go_Float.thy ===== *)
theory Go_Float
  imports Complex_Main "HOL-Library.Log_Nat"
begin

text \<open>
  \<open>float64\<close>: not a number, the two infinities, and the finite values as rationals (the two
  zeros are one). \<open>round64\<close> is rounding to the nearest double with ties to even, which is what
  converting an integer, adding and multiplying do to the exact result.
\<close>

datatype float64 = NaN | Inf bool | Fin rat

definition round_even :: "rat \<Rightarrow> int" where
  "round_even x = (let f = \<lfloor>x\<rfloor>; d = x - of_int f
     in if d < 1 / 2 then f else if d > 1 / 2 then f + 1 else if even f then f else f + 1)"

definition pow2 :: "int \<Rightarrow> rat" where
  "pow2 e = (if e \<ge> 0 then 2 ^ nat e else 1 / 2 ^ nat (- e))"

text \<open>The exponent \<open>e\<close> with \<open>2^e \<le> a < 2^(e+1)\<close> of a positive rational \<open>n / d\<close>.\<close>

definition exponent_of :: "int \<Rightarrow> int \<Rightarrow> int" where
  "exponent_of n d = (let k = bitlen n - bitlen d
     in if of_int n \<ge> of_int d * pow2 k then k else k - 1)"

definition round64 :: "rat \<Rightarrow> float64" where
  "round64 r = (if r = 0 then Fin 0 else
     let (n, d) = quotient_of \<bar>r\<bar>;
         q = max (exponent_of n d - 52) (- 1074);
         v = of_int (round_even (\<bar>r\<bar> / pow2 q)) * pow2 q
     in if v \<ge> 2 ^ 1024 then Inf (r < 0) else Fin (if r < 0 then - v else v))"

definition float_of_int :: "int \<Rightarrow> float64" where
  "float_of_int i = round64 (of_int i)"

lemma round_even_int [simp]: "round_even (of_int i) = i"
  by (simp add: round_even_def)

lemma pow2_pos: "pow2 e > 0"
  by (simp add: pow2_def)

lemma exponent_of_int: "0 < n \<Longrightarrow> exponent_of n 1 = bitlen n - 1"
proof -
  assume n: "0 < n"
  have b: "bitlen n \<ge> 1" using bitlen_nonneg [of n] bitlen_eq_zero_iff [of n] n by linarith
  have "n < 2 ^ nat (bitlen n)" using bitlen_bounds [OF n] by simp
  then have lt: "(of_int n :: rat) < 2 ^ nat (bitlen n)"
    by (metis of_int_less_iff of_int_numeral of_int_power)
  have k: "bitlen n - bitlen 1 = bitlen n - 1" by (simp add: compute_bitlen [of 1])
  have "2 ^ nat (bitlen n - 1) \<le> n" using bitlen_bounds [OF n] by simp
  then have "(2 :: rat) ^ nat (bitlen n - 1) \<le> of_int n"
    by (metis of_int_le_iff of_int_numeral of_int_power)
  then show ?thesis using b k by (simp add: exponent_of_def pow2_def)
qed

text \<open>Integers of fewer than 53 bits are converted exactly.\<close>

lemma float_of_int_exact:
  assumes "\<bar>i\<bar> < 2 ^ 53"
  shows "float_of_int i = Fin (of_int i)"
proof (cases "i = 0")
  case True
  then show ?thesis by (simp add: float_of_int_def round64_def)
next
  case False
  have "(of_int \<bar>i\<bar> :: rat) = Fract \<bar>i\<bar> 1" by (rule of_int_rat)
  then have q: "quotient_of \<bar>of_int i\<bar> = (\<bar>i\<bar>, 1)"
    by (simp add: quotient_of_Fract normalize_def)
  have "bitlen \<bar>i\<bar> \<le> 53" using assms bitlen_le_iff_power [of "\<bar>i\<bar>" 53] by simp
  then have e: "exponent_of \<bar>i\<bar> 1 - 52 \<le> 0" using exponent_of_int [of "\<bar>i\<bar>"] False by simp
  define k where "k = max (exponent_of \<bar>i\<bar> 1 - 52) (- 1074)"
  have k: "k \<le> 0" using e by (simp add: k_def)
  have "\<bar>of_int i :: rat\<bar> / pow2 k = of_int (\<bar>i\<bar> * 2 ^ nat (- k))"
    using k by (cases "k = 0") (simp_all add: pow2_def)
  then have v: "of_int (round_even (\<bar>of_int i\<bar> / pow2 k)) * pow2 k = \<bar>of_int i :: rat\<bar>"
    using k by (simp only: round_even_int) (simp add: pow2_def)
  have "\<bar>of_int i :: rat\<bar> < 2 ^ 53"
    using assms by (metis of_int_abs of_int_less_iff of_int_numeral of_int_power)
  also have "(2 :: rat) ^ 53 \<le> 2 ^ 1024" by (rule power_increasing) simp_all
  finally have "\<not> \<bar>of_int i :: rat\<bar> \<ge> 2 ^ 1024" by (simp only: not_le)
  then show ?thesis using False
    unfolding float_of_int_def round64_def q Let_def prod.case k_def [symmetric] v
    by (simp only: if_False of_int_eq_0_iff) (simp only: abs_if minus_minus split: if_split, simp)
qed

end
