(* ===== verification/Prom_Client.thy ===== *)
theory Prom_Client
  imports Prelude Go_Float
begin

text \<open>
  What the collectors use of the Prometheus client library: descriptors, samples, and the record
  \<open>prom\<close> of the library's name builder, its check of a descriptor and the constructor of a
  constant sample, with the documented law of that constructor. A scrape in which a name and its label
  values occur twice is refused by the library's gatherer, so \<open>no_duplicates\<close> is what every collector
  owes to it. The helpers that turn a truth value or a duration into a sample's value are shared too.
\<close>

section \<open>Descriptors and samples\<close>

record desc =
  d_fqName :: string
  d_help :: string
  d_labels :: "string list"

record pmetric =
  pm_desc :: desc
  pm_value :: float64
  pm_labels :: "string list"

record prom =
  pr_BuildFQName :: "string \<Rightarrow> string \<Rightarrow> string \<Rightarrow> string"
  pr_desc_ok :: "desc \<Rightarrow> bool"
  pr_MustNewConstMetric :: "desc \<Rightarrow> float64 \<Rightarrow> string list \<Rightarrow> pmetric go"

abbreviation const_metric :: "prom \<Rightarrow> desc \<Rightarrow> float64 \<Rightarrow> string list \<Rightarrow> pmetric go" where
  "const_metric \<equiv> pr_MustNewConstMetric"

text \<open>As documented, \<open>MustNewConstMetric\<close> panics for a broken descriptor and for a number of label
  values other than that of the descriptor's labels. A descriptor is usable when it is not broken.\<close>

definition metric_law :: "prom \<Rightarrow> bool" where
  "metric_law P \<longleftrightarrow> (\<forall>d v ls.
     if pr_desc_ok P d \<and> length ls = length (d_labels d)
     then const_metric P d v ls = Ret \<lparr>pm_desc = d, pm_value = v, pm_labels = ls\<rparr>
     else \<not> returns (const_metric P d v ls))"

definition usable :: "prom \<Rightarrow> desc \<Rightarrow> bool" where
  "usable P d \<longleftrightarrow> metric_law P \<and> pr_desc_ok P d"

lemma const_metric_Ret:
  "usable P d \<Longrightarrow> length ls = length (d_labels d) \<Longrightarrow>
     const_metric P d v ls = Ret \<lparr>pm_desc = d, pm_value = v, pm_labels = ls\<rparr>"
  by (simp add: metric_law_def usable_def)

lemma const_metric_Panic:
  assumes "usable P d" "length ls \<noteq> length (d_labels d)"
  shows "\<exists>msg. const_metric P d v ls = Panic msg"
proof -
  have "\<not> returns (const_metric P d v ls)" using assms unfolding metric_law_def usable_def by metis
  then show ?thesis by (cases "const_metric P d v ls") simp_all
qed

lemma const_metric_result:
  "usable P d \<Longrightarrow> const_metric P d v ls = Ret x \<Longrightarrow>
     pm_desc x = d \<and> length (pm_labels x) = length (d_labels d)"
  using const_metric_Ret [of P d ls v] const_metric_Panic [of P d ls v]
  by (cases "length ls = length (d_labels d)") auto

text \<open>\<open>BuildFQName\<close>, as documented, joins the parts that are not empty by underscores.\<close>

definition fq_law :: "prom \<Rightarrow> bool" where
  "fq_law P \<longleftrightarrow> (\<forall>ns sub n. n \<noteq> [] \<longrightarrow> pr_BuildFQName P ns sub n
     = (if ns = [] then [] else ns @ ''_'') @ (if sub = [] then [] else sub @ ''_'') @ n)"

lemma fq_inject:
  "fq_law P \<Longrightarrow> n \<noteq> [] \<Longrightarrow> m \<noteq> [] \<Longrightarrow> pr_BuildFQName P ns sub n = pr_BuildFQName P ns sub m \<longleftrightarrow> n = m"
  by (simp add: fq_law_def)

section \<open>Values\<close>

definition boolToFloat64 :: "bool \<Rightarrow> float64" where
  "boolToFloat64 b = (if b then Fin 1 else Fin 0)"

text \<open>\<open>Duration.Seconds\<close>: the whole seconds plus the nanoseconds, each as a double.\<close>

definition Seconds :: "int \<Rightarrow> float64" where
  "Seconds d = (let sec = sgn d * (\<bar>d\<bar> div 10 ^ 9); nsec = sgn d * (\<bar>d\<bar> mod 10 ^ 9) in
     case (float_of_int sec, round64 (of_int nsec / 10 ^ 9)) of (Fin a, Fin b) \<Rightarrow> round64 (a + b) | _ \<Rightarrow> NaN)"

section \<open>Scrapes\<close>

text \<open>What a hook that sends its samples one after the other has sent, and the panic that ended it.\<close>

fun emit :: "'m go list \<Rightarrow> 'm list \<times> string option" where
  "emit [] = ([], None)"
| "emit (Ret m # gs) = (let (ms, p) = emit gs in (m # ms, p))"
| "emit (Panic e # gs) = ([], Some e)"

lemma emit_Ret: "emit (map Ret ms) = (ms, None)"
  by (induction ms) auto

text \<open>Samples of usable descriptors with the right number of labels are all sent.\<close>

definition sample :: "desc \<Rightarrow> float64 \<Rightarrow> string list \<Rightarrow> pmetric" where
  "sample d v ls = \<lparr>pm_desc = d, pm_value = v, pm_labels = ls\<rparr>"

lemma emit_const:
  assumes "\<And>d v ls. (d, v, ls) \<in> set xs \<Longrightarrow> usable P d \<and> length ls = length (d_labels d)"
  shows "emit (map (\<lambda>(d, v, ls). const_metric P d v ls) xs) = (map (\<lambda>(d, v, ls). sample d v ls) xs, None)"
proof -
  have "map (\<lambda>(d, v, ls). const_metric P d v ls) xs = map Ret (map (\<lambda>(d, v, ls). sample d v ls) xs)"
    using assms const_metric_Ret by (auto simp: sample_def)
  then show ?thesis by (simp only: emit_Ret)
qed

definition series :: "pmetric \<Rightarrow> string \<times> string list" where
  "series m = (d_fqName (pm_desc m), pm_labels m)"

definition no_duplicates :: "pmetric list \<Rightarrow> bool" where
  "no_duplicates ms \<longleftrightarrow> distinct (map series ms)"

lemma series_sample [simp]: "series (sample d v ls) = (d_fqName d, ls)"
  by (simp add: series_def sample_def)

text \<open>Samples that all have the same name, in terms of their labels.\<close>

lemma no_duplicates_append:
  assumes "no_duplicates xs" "no_duplicates ys"
    "\<And>x y. x \<in> set xs \<Longrightarrow> y \<in> set ys \<Longrightarrow> series x \<noteq> series y"
  shows "no_duplicates (xs @ ys)"
  using assms by (fastforce simp: no_duplicates_def)

lemma no_duplicates_concat:
  assumes "distinct ks" "\<And>k. k \<in> set ks \<Longrightarrow> no_duplicates (f k)"
    "\<And>j k x y. j \<in> set ks \<Longrightarrow> k \<in> set ks \<Longrightarrow> j \<noteq> k \<Longrightarrow> x \<in> set (f j) \<Longrightarrow> y \<in> set (f k) \<Longrightarrow> series x \<noteq> series y"
  shows "no_duplicates (concat (map f ks))"
  using assms
proof (induction ks)
  case (Cons k ks)
  have rest: "no_duplicates (concat (map f ks))"
    by (rule Cons.IH) (use Cons.prems in \<open>simp_all, blast\<close>)
  have "series x \<noteq> series y" if x: "x \<in> set (f k)" and y: "y \<in> set (concat (map f ks))" for x y
  proof -
    obtain j where "j \<in> set ks" "y \<in> set (f j)" using y by auto
    then show ?thesis using Cons.prems(1) Cons.prems(3) [of k j x y] x by auto
  qed
  then show ?case using no_duplicates_append [OF _ rest] Cons.prems(2) by simp
qed (simp add: no_duplicates_def)

text \<open>A row is a sample that is still to be made; the hooks send rows for every entry of a map.\<close>

type_synonym row = "desc \<times> float64 \<times> string list"

abbreviation row_sample :: "row \<Rightarrow> pmetric" where
  "row_sample \<equiv> \<lambda>(d, v, ls). sample d v ls"

lemma entries_distinct_keys:
  "entries_of es m \<Longrightarrow> x \<in> set es \<Longrightarrow> y \<in> set es \<Longrightarrow> x \<noteq> y \<Longrightarrow> fst x \<noteq> fst y"
  by (auto simp: entries_of_def distinct_map inj_on_def)

lemma no_duplicates_entries:
  assumes "entries_of es m" "\<And>k v. m k = Some v \<Longrightarrow> no_duplicates (map row_sample (rows v))"
    "\<And>j k u v s t. m j = Some u \<Longrightarrow> m k = Some v \<Longrightarrow> j \<noteq> k \<Longrightarrow> s \<in> set (map row_sample (rows u)) \<Longrightarrow>
       t \<in> set (map row_sample (rows v)) \<Longrightarrow> series s \<noteq> series t"
  shows "no_duplicates (concat (map (\<lambda>x. map row_sample (rows (snd x))) es))"
proof (rule no_duplicates_concat)
  show "distinct es" using assms(1) by (auto simp: entries_of_def distinct_map)
  have look: "m (fst x) = Some (snd x)" if "x \<in> set es" for x
    using that entries_of_mem [OF assms(1), of "fst x" "snd x"] by simp
  show "no_duplicates (map row_sample (rows (snd x)))" if "x \<in> set es" for x
    using assms(2) look [OF that] by blast
  show "series s \<noteq> series t" if "x \<in> set es" "y \<in> set es" "x \<noteq> y" "s \<in> set (map row_sample (rows (snd x)))"
      "t \<in> set (map row_sample (rows (snd y)))" for x y s t
    using assms(3) [OF look [OF that(1)] look [OF that(2)] entries_distinct_keys [OF assms(1) that(1-3)] that(4,5)] .
qed

section \<open>A client that obeys the laws\<close>

definition demo_prom :: prom where
  "demo_prom = \<lparr>pr_BuildFQName = (\<lambda>ns sub n. (if ns = [] then [] else ns @ ''_'')
       @ (if sub = [] then [] else sub @ ''_'') @ n),
     pr_desc_ok = (\<lambda>d. True),
     pr_MustNewConstMetric = (\<lambda>d v ls. if length ls = length (d_labels d)
       then Ret \<lparr>pm_desc = d, pm_value = v, pm_labels = ls\<rparr> else Panic ''inconsistent label cardinality'')\<rparr>"

lemma demo_prom_laws [simp]: "fq_law demo_prom" "usable demo_prom d"
  by (simp_all add: demo_prom_def fq_law_def usable_def metric_law_def)

end
