(* ===== verification/CRD_Store.thy ===== *)
theory CRD_Store
  imports Go_Strings Prom_Client
begin

text \<open>
  \<open>pkg/collector/crds\<close>: the field helpers, the compilation of metric configurations and the
  metric store that derives series and aggregated counts from custom resources. The objects are
  those of the package \<open>unstructured\<close>; its accessors are the record \<open>uns\<close>. The
  Prometheus client is that of \<open>Prom_Client\<close>.
\<close>

section \<open>Objects and helpers\<close>

text \<open>A decoded JSON value; the integer types of Go are one constructor. Entries of a map are
  in the order of one iteration over it.\<close>

datatype any =
    AStr string
  | ABool bool
  | AInt int
  | AFloat float64
  | AMap "(string \<times> any) list"
  | ASlice "any list"
  | ANil

text \<open>\<open>NestedString\<close> yields the empty string, the others \<open>None\<close>, when the field is missing
  or has another type.\<close>

record 'o uns =
  un_GetName :: "'o \<Rightarrow> string"
  un_GetNamespace :: "'o \<Rightarrow> string"
  un_GetResourceVersion :: "'o \<Rightarrow> string"
  un_NestedString :: "'o \<Rightarrow> string list \<Rightarrow> string"
  un_NestedField :: "'o \<Rightarrow> string list \<Rightarrow> any option"
  un_NestedMap :: "'o \<Rightarrow> string list \<Rightarrow> (string \<times> any) list option"
  un_NestedSlice :: "'o \<Rightarrow> string list \<Rightarrow> any list option"

definition ExtractFieldString :: "'o uns \<Rightarrow> 'o \<Rightarrow> string \<Rightarrow> string" where
  "ExtractFieldString U obj path =
     (if path = '''' then '''' else un_NestedString U obj (Split CHR ''.'' path))"

text \<open>\<open>pf\<close> is the value \<open>strconv.ParseFloat\<close> returns, its error being dropped.\<close>

definition ToFloat64 :: "(string \<Rightarrow> float64) \<Rightarrow> any \<Rightarrow> float64" where
  "ToFloat64 pf v = (case v of
       AFloat f \<Rightarrow> f
     | AInt i \<Rightarrow> float_of_int i
     | ABool b \<Rightarrow> Fin (if b then 1 else 0)
     | AStr s \<Rightarrow> pf s
     | _ \<Rightarrow> Fin 0)"

definition ExtractFieldFloat :: "(string \<Rightarrow> float64) \<Rightarrow> 'o uns \<Rightarrow> 'o \<Rightarrow> string \<Rightarrow> float64" where
  "ExtractFieldFloat pf U obj path =
     (if path = '''' then Fin 0
      else case un_NestedField U obj (Split CHR ''.'' path) of
             None \<Rightarrow> Fin 0 | Some v \<Rightarrow> ToFloat64 pf v)"

definition ExtractFieldMap :: "'o uns \<Rightarrow> 'o \<Rightarrow> string \<Rightarrow> (string \<times> any) list" where
  "ExtractFieldMap U obj path =
     (if path = '''' then []
      else case un_NestedMap U obj (Split CHR ''.'' path) of None \<Rightarrow> [] | Some m \<Rightarrow> m)"

definition ExtractFieldSlice :: "'o uns \<Rightarrow> 'o \<Rightarrow> string \<Rightarrow> any list" where
  "ExtractFieldSlice U obj path =
     (if path = '''' then []
      else case un_NestedSlice U obj (Split CHR ''.'' path) of None \<Rightarrow> [] | Some xs \<Rightarrow> xs)"

definition GetSortedKeys :: "(string \<times> string) list \<Rightarrow> string list" where
  "GetSortedKeys m = sort (map fst m)"

definition GetSortedValues :: "(string \<times> string) list \<Rightarrow> string list" where
  "GetSortedValues m = map (\<lambda>k. the (map_of m k)) (GetSortedKeys m)"

section \<open>Metrics and their compilation\<close>

record condition_config =
  cc_TypeField :: string
  cc_StatusField :: string
  cc_ReasonField :: string

record metric_config =
  mc_Type :: string
  mc_Name :: string
  mc_Help :: string
  mc_Path :: string
  mc_Labels :: "(string \<times> string) list"
  mc_ValueLabel :: string
  mc_ValuePath :: string
  mc_KeyLabel :: string
  mc_Condition :: "condition_config option"

record crd_config =
  crd_Name :: string
  crd_Resource :: string
  crd_Namespaces :: "string list"
  crd_ResyncPeriod :: int
  crd_CommonLabels :: "(string \<times> string) list"
  crd_Metrics :: "metric_config list"

record compiled_metric =
  cm_config :: metric_config
  cm_desc :: desc
  cm_labelPaths :: "string list"
  cm_typeField :: string
  cm_statusField :: string
  cm_reasonField :: string

definition labelOrDefault :: "string \<Rightarrow> string \<Rightarrow> string" where
  "labelOrDefault label def = (if label = '''' then def else label)"

text \<open>The label names of a metric by its type; \<open>None\<close> is an unknown type.\<close>

definition label_names :: "string list \<Rightarrow> metric_config \<Rightarrow> string list option" where
  "label_names common mc =
     (if mc_Type mc = ''info'' then Some (common @ GetSortedKeys (mc_Labels mc))
      else if mc_Type mc = ''gauge'' then Some common
      else if mc_Type mc = ''count'' then Some [labelOrDefault (mc_ValueLabel mc) ''value'']
      else if mc_Type mc = ''string_state''
      then Some (common @ [labelOrDefault (mc_ValueLabel mc) ''state''])
      else if mc_Type mc = ''map_state''
      then Some (common @ [labelOrDefault (mc_KeyLabel mc) ''key'', labelOrDefault (mc_ValueLabel mc) ''state''])
      else if mc_Type mc = ''map_gauge'' then Some (common @ [labelOrDefault (mc_KeyLabel mc) ''key''])
      else if mc_Type mc = ''conditions'' then Some (common @ [''type'', ''status'', ''reason''])
      else None)"

definition compileMetric :: "prom \<Rightarrow> string \<Rightarrow> string list \<Rightarrow> metric_config \<Rightarrow> compiled_metric option" where
  "compileMetric P metricPrefix common mc = (case label_names common mc of
       None \<Rightarrow> None
     | Some ls \<Rightarrow>
         let field = (\<lambda>sel def. if mc_Type mc = ''conditions''
               then (case mc_Condition mc of None \<Rightarrow> def
                     | Some c \<Rightarrow> if sel c \<noteq> '''' then sel c else def)
               else '''')
         in Some \<lparr> cm_config = mc,
              cm_desc = \<lparr>d_fqName = pr_BuildFQName P metricPrefix '''' (mc_Name mc),
                d_help = mc_Help mc, d_labels = ls\<rparr>,
              cm_labelPaths = (if mc_Type mc = ''info'' then GetSortedValues (mc_Labels mc) else []),
              cm_typeField = field cc_TypeField ''type'',
              cm_statusField = field cc_StatusField ''status'',
              cm_reasonField = field cc_ReasonField ''reason'' \<rparr>)"

section \<open>The store\<close>

record object_metrics =
  om_series :: "pmetric list"
  om_counts :: "(string \<times> string) list"

record metric_store =
  ms_commonLabelPaths :: "string list"
  ms_metrics :: "compiled_metric list"
  ms_descriptors :: "string \<Rightarrow> desc option"
  ms_namespaces :: "string list"
  ms_objects :: "string \<Rightarrow> object_metrics option"
  ms_countValues :: "string \<Rightarrow> (string \<Rightarrow> int option) option"
  ms_countMetrics :: "string \<Rightarrow> (string \<Rightarrow> pmetric option) option"
  ms_AddCount :: int
  ms_UpdateCount :: int
  ms_DeleteCount :: int

definition makeNamespaceSet :: "string list \<Rightarrow> string list" where
  "makeNamespaceSet ns = remdups (filter (\<lambda>n. n \<noteq> '''') ns)"

definition newMetricStore :: "prom \<Rightarrow> crd_config option \<Rightarrow> string \<Rightarrow> metric_store res" where
  "newMetricStore P cfg metricPrefix = (case cfg of
       None \<Rightarrow> Inl ''crd config cannot be nil''
     | Some c \<Rightarrow>
         let pre = (if metricPrefix = '''' then ''sealos'' else metricPrefix);
             cms = List.map_filter (compileMetric P pre (GetSortedKeys (crd_CommonLabels c))) (crd_Metrics c)
         in Inr \<lparr> ms_commonLabelPaths = GetSortedValues (crd_CommonLabels c),
              ms_metrics = cms,
              ms_descriptors = map_of (rev (map (\<lambda>m. (mc_Name (cm_config m), cm_desc m)) cms)),
              ms_namespaces = makeNamespaceSet (crd_Namespaces c),
              ms_objects = Map.empty, ms_countValues = Map.empty, ms_countMetrics = Map.empty,
              ms_AddCount = 0, ms_UpdateCount = 0, ms_DeleteCount = 0 \<rparr>)"

definition resourceKey :: "'o uns \<Rightarrow> 'o \<Rightarrow> string" where
  "resourceKey U obj = (if un_GetNamespace U obj = '''' then un_GetName U obj
     else un_GetNamespace U obj @ ''/'' @ un_GetName U obj)"

definition namespaceAllowed :: "metric_store \<Rightarrow> string \<Rightarrow> bool" where
  "namespaceAllowed s ns \<longleftrightarrow> ms_namespaces s = [] \<or> ns \<in> set (ms_namespaces s)"

definition extractCommonLabels :: "metric_store \<Rightarrow> 'o uns \<Rightarrow> 'o \<Rightarrow> string list" where
  "extractCommonLabels s U obj = map (ExtractFieldString U obj) (ms_commonLabelPaths s)"

subsection \<open>Series of one object\<close>

definition buildInfoMetric :: "prom \<Rightarrow> 'o uns \<Rightarrow> 'o \<Rightarrow> compiled_metric \<Rightarrow> string list \<Rightarrow> pmetric go" where
  "buildInfoMetric P U obj m common =
     const_metric P (cm_desc m) (Fin 1) (common @ map (ExtractFieldString U obj) (cm_labelPaths m))"

definition buildGaugeMetric :: "prom \<Rightarrow> (string \<Rightarrow> float64) \<Rightarrow> 'o uns \<Rightarrow> 'o \<Rightarrow> compiled_metric
    \<Rightarrow> string list \<Rightarrow> pmetric go" where
  "buildGaugeMetric P pf U obj m common =
     const_metric P (cm_desc m) (ExtractFieldFloat pf U obj (mc_Path (cm_config m))) common"

definition buildStringStateMetric :: "prom \<Rightarrow> 'o uns \<Rightarrow> 'o \<Rightarrow> compiled_metric \<Rightarrow> string list \<Rightarrow> pmetric go" where
  "buildStringStateMetric P U obj m common =
     const_metric P (cm_desc m) (Fin 1) (common @ [ExtractFieldString U obj (mc_Path (cm_config m))])"

text \<open>A Go type assertion to \<open>string\<close> that drops the second result; a missing key gives nil.\<close>

definition entry_string :: "(string \<times> any) list \<Rightarrow> string \<Rightarrow> string" where
  "entry_string m k = (case map_of m k of Some (AStr s) \<Rightarrow> s | _ \<Rightarrow> '''')"

definition map_states :: "(string \<times> any) list \<Rightarrow> string \<Rightarrow> (string \<times> string) list" where
  "map_states es valuePath = concat (map (\<lambda>(key, entry). case entry of
       AMap m \<Rightarrow> if entry_string m valuePath = '''' then [] else [(key, entry_string m valuePath)]
     | _ \<Rightarrow> []) es)"

definition buildMapStateMetrics :: "prom \<Rightarrow> 'o uns \<Rightarrow> 'o \<Rightarrow> compiled_metric \<Rightarrow> string list \<Rightarrow> pmetric list go" where
  "buildMapStateMetrics P U obj m common =
     go_map (\<lambda>(key, st). const_metric P (cm_desc m) (Fin 1) (common @ [key, st]))
       (map_states (ExtractFieldMap U obj (mc_Path (cm_config m))) (mc_ValuePath (cm_config m)))"

definition map_gauges :: "(string \<Rightarrow> float64) \<Rightarrow> (string \<times> any) list \<Rightarrow> string \<Rightarrow> (string \<times> float64) list" where
  "map_gauges pf es valuePath = concat (map (\<lambda>(key, entry). case entry of
       AMap m \<Rightarrow> [(key, case map_of m valuePath of Some v \<Rightarrow> ToFloat64 pf v | None \<Rightarrow> Fin 0)]
     | _ \<Rightarrow> []) es)"

definition buildMapGaugeMetrics :: "prom \<Rightarrow> (string \<Rightarrow> float64) \<Rightarrow> 'o uns \<Rightarrow> 'o \<Rightarrow> compiled_metric
    \<Rightarrow> string list \<Rightarrow> pmetric list go" where
  "buildMapGaugeMetrics P pf U obj m common =
     go_map (\<lambda>(key, v). const_metric P (cm_desc m) v (common @ [key]))
       (map_gauges pf (ExtractFieldMap U obj (mc_Path (cm_config m))) (mc_ValuePath (cm_config m)))"

definition condition_rows :: "compiled_metric \<Rightarrow> any list \<Rightarrow> (string \<times> string \<times> string) list" where
  "condition_rows m cs = concat (map (\<lambda>c. case c of
       AMap e \<Rightarrow> if entry_string e (cm_typeField m) = '''' then []
                else [(entry_string e (cm_typeField m), entry_string e (cm_statusField m),
                       entry_string e (cm_reasonField m))]
     | _ \<Rightarrow> []) cs)"

definition buildConditionMetrics :: "prom \<Rightarrow> 'o uns \<Rightarrow> 'o \<Rightarrow> compiled_metric \<Rightarrow> string list \<Rightarrow> pmetric list go" where
  "buildConditionMetrics P U obj m common =
     go_map (\<lambda>(t, st, r). const_metric P (cm_desc m) (Fin (if EqualFold st ''true'' then 1 else 0))
         (common @ [t, st, r]))
       (condition_rows m (ExtractFieldSlice U obj (mc_Path (cm_config m))))"

text \<open>One iteration of the loop over the metrics.\<close>

definition build_one :: "prom \<Rightarrow> (string \<Rightarrow> float64) \<Rightarrow> 'o uns \<Rightarrow> 'o \<Rightarrow> string list \<Rightarrow> object_metrics
    \<Rightarrow> compiled_metric \<Rightarrow> object_metrics go" where
  "build_one P pf U obj common res m =
     (let ty = mc_Type (cm_config m);
          one = (\<lambda>g. bind_go g (\<lambda>x. Ret (res\<lparr>om_series := om_series res @ [x]\<rparr>)));
          many = (\<lambda>g. bind_go g (\<lambda>xs. Ret (res\<lparr>om_series := om_series res @ xs\<rparr>)))
      in if ty = ''info'' then one (buildInfoMetric P U obj m common)
         else if ty = ''gauge'' then one (buildGaugeMetric P pf U obj m common)
         else if ty = ''count'' then
           (let v = ExtractFieldString U obj (mc_Path (cm_config m))
            in Ret (if v \<noteq> '''' then res\<lparr>om_counts := om_counts res @ [(mc_Name (cm_config m), v)]\<rparr> else res))
         else if ty = ''string_state'' then one (buildStringStateMetric P U obj m common)
         else if ty = ''map_state'' then many (buildMapStateMetrics P U obj m common)
         else if ty = ''map_gauge'' then many (buildMapGaugeMetrics P pf U obj m common)
         else if ty = ''conditions'' then many (buildConditionMetrics P U obj m common)
         else Ret res)"

fun build_loop :: "prom \<Rightarrow> (string \<Rightarrow> float64) \<Rightarrow> 'o uns \<Rightarrow> 'o \<Rightarrow> string list \<Rightarrow> object_metrics
    \<Rightarrow> compiled_metric list \<Rightarrow> object_metrics go" where
  "build_loop P pf U obj common res [] = Ret res"
| "build_loop P pf U obj common res (m # ms) =
     bind_go (build_one P pf U obj common res m) (\<lambda>res'. build_loop P pf U obj common res' ms)"

text \<open>\<open>None\<close> is the second result \<open>false\<close>.\<close>

definition buildObjectMetrics :: "prom \<Rightarrow> (string \<Rightarrow> float64) \<Rightarrow> 'o uns \<Rightarrow> metric_store \<Rightarrow> 'o
    \<Rightarrow> object_metrics option go" where
  "buildObjectMetrics P pf U s obj =
     (if \<not> namespaceAllowed s (un_GetNamespace U obj) then Ret None
      else bind_go (build_loop P pf U obj (extractCommonLabels s U obj) \<lparr>om_series = [], om_counts = []\<rparr>
             (ms_metrics s)) (\<lambda>r. Ret (Some r)))"

subsection \<open>Counting\<close>

definition refreshCountMetric :: "prom \<Rightarrow> string \<Rightarrow> string \<Rightarrow> metric_store \<Rightarrow> metric_store go" where
  "refreshCountMetric P m v s = (case ms_descriptors s m of
       None \<Rightarrow> Ret s
     | Some d \<Rightarrow>
         let count = (case ms_countValues s m of Some vs \<Rightarrow> (case vs v of Some n \<Rightarrow> n | None \<Rightarrow> 0) | None \<Rightarrow> 0)
         in bind_go (const_metric P d (float_of_int count) [v]) (\<lambda>pm.
              case ms_countMetrics s m of
                None \<Rightarrow> Panic ''assignment to entry in nil map''
              | Some ms \<Rightarrow> Ret (s\<lparr>ms_countMetrics := (ms_countMetrics s)(m \<mapsto> ms(v \<mapsto> pm))\<rparr>)))"

definition addCount :: "prom \<Rightarrow> string \<times> string \<Rightarrow> metric_store \<Rightarrow> metric_store go" where
  "addCount P p s =
     (let (m, v) = p;
          vs = (case ms_countValues s m of None \<Rightarrow> Map.empty | Some vs \<Rightarrow> vs);
          ms = (case ms_countMetrics s m of None \<Rightarrow> Map.empty | Some ms \<Rightarrow> ms);
          n = (case vs v of None \<Rightarrow> 0 | Some n \<Rightarrow> n)
      in refreshCountMetric P m v (s\<lparr>
           ms_countValues := (ms_countValues s)(m \<mapsto> vs(v \<mapsto> n + 1)),
           ms_countMetrics := (ms_countMetrics s)(m \<mapsto> ms)\<rparr>))"

definition removeCount :: "prom \<Rightarrow> string \<times> string \<Rightarrow> metric_store \<Rightarrow> metric_store go" where
  "removeCount P p s =
     (let (m, v) = p in
      case ms_countValues s m of
        None \<Rightarrow> Ret s
      | Some vs \<Rightarrow>
          let n = (case vs v of None \<Rightarrow> 0 | Some n \<Rightarrow> n) - 1
          in if n \<le> 0
             then Ret (s\<lparr>ms_countValues := (ms_countValues s)(m \<mapsto> vs(v := None)),
                 ms_countMetrics := (case ms_countMetrics s m of None \<Rightarrow> ms_countMetrics s
                   | Some ms \<Rightarrow> (ms_countMetrics s)(m \<mapsto> ms(v := None)))\<rparr>)
             else refreshCountMetric P m v (s\<lparr>ms_countValues := (ms_countValues s)(m \<mapsto> vs(v \<mapsto> n))\<rparr>))"

fun fold_go :: "('a \<Rightarrow> 's \<Rightarrow> 's go) \<Rightarrow> 'a list \<Rightarrow> 's \<Rightarrow> 's go" where
  "fold_go f [] s = Ret s"
| "fold_go f (x # xs) s = bind_go (f x s) (\<lambda>s'. fold_go f xs s')"

definition removeLocked :: "prom \<Rightarrow> string \<Rightarrow> metric_store \<Rightarrow> metric_store go" where
  "removeLocked P key s =
     bind_go (fold_go (removeCount P) (case ms_objects s key of None \<Rightarrow> [] | Some om \<Rightarrow> om_counts om) s)
       (\<lambda>s'. Ret (s'\<lparr>ms_objects := (ms_objects s')(key := None)\<rparr>))"

section \<open>Events\<close>

definition upsert :: "prom \<Rightarrow> (string \<Rightarrow> float64) \<Rightarrow> 'o uns \<Rightarrow> 'o option \<Rightarrow> metric_store \<Rightarrow> metric_store go" where
  "upsert P pf U obj s = (case obj of
       None \<Rightarrow> Ret s
     | Some ob \<Rightarrow>
         let key = resourceKey U ob in
         bind_go (buildObjectMetrics P pf U s ob) (\<lambda>new.
           let exists = (ms_objects s key \<noteq> None) in
           bind_go (if exists then removeLocked P key s else Ret s) (\<lambda>s1.
             case new of
               None \<Rightarrow> Ret (if exists then s1\<lparr>ms_DeleteCount := ms_DeleteCount s1 + 1\<rparr> else s1)
             | Some om \<Rightarrow>
                 bind_go (fold_go (addCount P) (om_counts om)
                     (s1\<lparr>ms_objects := (ms_objects s1)(key \<mapsto> om)\<rparr>)) (\<lambda>s2.
                   Ret (if exists then s2\<lparr>ms_UpdateCount := ms_UpdateCount s2 + 1\<rparr>
                        else s2\<lparr>ms_AddCount := ms_AddCount s2 + 1\<rparr>)))))"

definition store_Delete :: "prom \<Rightarrow> 'o uns \<Rightarrow> 'o option \<Rightarrow> metric_store \<Rightarrow> metric_store go" where
  "store_Delete P U obj s = (case obj of
       None \<Rightarrow> Ret s
     | Some ob \<Rightarrow>
         if ms_objects s (resourceKey U ob) = None then Ret s
         else bind_go (removeLocked P (resourceKey U ob) s) (\<lambda>s'.
                Ret (s'\<lparr>ms_DeleteCount := ms_DeleteCount s' + 1\<rparr>)))"

text \<open>\<open>snapshotMetrics\<close>: \<open>ks\<close>, \<open>ms\<close> and \<open>vs m\<close> are the orders of the three loops.\<close>

definition snapshotMetrics :: "string list \<Rightarrow> string list \<Rightarrow> (string \<Rightarrow> string list) \<Rightarrow> metric_store \<Rightarrow> pmetric list" where
  "snapshotMetrics ks ms vs s =
     concat (map (\<lambda>k. om_series (the (ms_objects s k))) ks) @
     concat (map (\<lambda>m. map (\<lambda>v. the (the (ms_countMetrics s m) v)) (vs m)) ms)"

definition RequiredPaths :: "metric_store \<Rightarrow> string list" where
  "RequiredPaths s = rev (foldl (\<lambda>acc p. if p = '''' \<or> p \<in> set acc then acc else p # acc) []
     (ms_commonLabelPaths s @ concat (map (\<lambda>m. mc_Path (cm_config m) # cm_labelPaths m) (ms_metrics s))))"

section \<open>Counting is exact\<close>

definition lookup2 :: "(string \<Rightarrow> (string \<Rightarrow> 'v option) option) \<Rightarrow> string \<Rightarrow> string \<Rightarrow> 'v option" where
  "lookup2 f m v = (case f m of None \<Rightarrow> None | Some g \<Rightarrow> g v)"

definition count_metric :: "desc \<Rightarrow> nat \<Rightarrow> string \<Rightarrow> pmetric" where
  "count_metric d n v = \<lparr>pm_desc = d, pm_value = float_of_int (int n), pm_labels = [v]\<rparr>"

text \<open>The two count maps show the multiplicities \<open>c\<close>.\<close>

definition counted :: "metric_store \<Rightarrow> (string \<times> string \<Rightarrow> nat) \<Rightarrow> bool" where
  "counted s c \<longleftrightarrow>
     (\<forall>m v. lookup2 (ms_countValues s) m v = (if c (m, v) = 0 then None else Some (int (c (m, v))))) \<and>
     (\<forall>m v. lookup2 (ms_countMetrics s) m v = (if c (m, v) = 0 then None
        else map_option (\<lambda>d. count_metric d (c (m, v)) v) (ms_descriptors s m))) \<and>
     (\<forall>m. ms_countValues s m = None \<longleftrightarrow> ms_countMetrics s m = None)"

definition count_ok :: "prom \<Rightarrow> metric_store \<Rightarrow> string \<times> string \<Rightarrow> bool" where
  "count_ok P s p \<longleftrightarrow> (\<exists>d. ms_descriptors s (fst p) = Some d \<and> usable P d \<and> length (d_labels d) = 1)"

definition counts_changed :: "metric_store \<Rightarrow> metric_store \<Rightarrow> bool" where
  "counts_changed s s' \<longleftrightarrow>
     s' = s\<lparr>ms_countValues := ms_countValues s', ms_countMetrics := ms_countMetrics s'\<rparr>"

lemma counts_changed_trans [trans]: "counts_changed a b \<Longrightarrow> counts_changed b c \<Longrightarrow> counts_changed a c"
  by (cases a; cases b; cases c) (simp add: counts_changed_def)

lemma counts_changed_refl [simp]: "counts_changed s s"
  by (simp add: counts_changed_def)

lemma counts_changed_fields:
  "counts_changed s s' \<Longrightarrow> ms_objects s' = ms_objects s \<and> ms_descriptors s' = ms_descriptors s \<and>
     ms_metrics s' = ms_metrics s \<and> ms_namespaces s' = ms_namespaces s \<and>
     ms_commonLabelPaths s' = ms_commonLabelPaths s \<and> ms_AddCount s' = ms_AddCount s \<and>
     ms_UpdateCount s' = ms_UpdateCount s \<and> ms_DeleteCount s' = ms_DeleteCount s"
  by (cases s; cases s') (simp add: counts_changed_def)

lemma lookup2_upd: "lookup2 (f(m \<mapsto> g)) k v = (if k = m then g v else lookup2 f k v)"
  by (simp add: lookup2_def)

lemma addCount_counted:
  assumes "counted s c" "count_ok P s p"
  shows "\<exists>s'. addCount P p s = Ret s' \<and> counted s' (c(p := c p + 1)) \<and> counts_changed s s'"
proof -
  obtain m v where p: "p = (m, v)" by (cases p)
  obtain d where d: "ms_descriptors s m = Some d" "usable P d" "length (d_labels d) = 1"
    using assms(2) p by (auto simp: count_ok_def)
  define vs where "vs = (case ms_countValues s m of None \<Rightarrow> Map.empty | Some vs \<Rightarrow> vs)"
  define ms where "ms = (case ms_countMetrics s m of None \<Rightarrow> Map.empty | Some ms \<Rightarrow> ms)"
  have vs: "vs w = lookup2 (ms_countValues s) m w" and ms: "ms w = lookup2 (ms_countMetrics s) m w" for w
    by (simp_all add: vs_def ms_def lookup2_def split: option.split)
  have n: "(case vs v of None \<Rightarrow> 0 | Some n \<Rightarrow> n) = int (c (m, v))"
    using assms(1) by (simp add: vs counted_def)
  define s' where "s' = s\<lparr>ms_countValues := (ms_countValues s)(m \<mapsto> vs(v \<mapsto> int (c (m, v)) + 1)),
      ms_countMetrics := (ms_countMetrics s)(m \<mapsto> ms(v \<mapsto> count_metric d (c (m, v) + 1) v))\<rparr>"
  have "addCount P p s = Ret s'"
    using d n by (simp add: addCount_def p vs_def [symmetric] ms_def [symmetric] refreshCountMetric_def
        const_metric_Ret s'_def count_metric_def Let_def add.commute)
  moreover have "counted s' (c(p := c p + 1))"
    using assms(1) d vs ms unfolding counted_def s'_def p by (auto simp: lookup2_upd)
  moreover have "counts_changed s s'" by (simp add: counts_changed_def s'_def)
  ultimately show ?thesis by blast
qed

lemma removeCount_counted:
  assumes "counted s c" "count_ok P s p" "c p > 0"
  shows "\<exists>s'. removeCount P p s = Ret s' \<and> counted s' (c(p := c p - 1)) \<and> counts_changed s s'"
proof -
  obtain m v where p: "p = (m, v)" by (cases p)
  obtain d where d: "ms_descriptors s m = Some d" "usable P d" "length (d_labels d) = 1"
    using assms(2) p by (auto simp: count_ok_def)
  have l: "lookup2 (ms_countValues s) m v = Some (int (c (m, v)))"
    using assms(1,3) p by (simp add: counted_def)
  then obtain vs where vs: "ms_countValues s m = Some vs" "vs v = Some (int (c (m, v)))"
    by (auto simp: lookup2_def split: option.splits)
  then obtain ms where ms: "ms_countMetrics s m = Some ms"
  proof -
    have "ms_countMetrics s m \<noteq> None" using assms(1) vs(1) unfolding counted_def by (metis option.distinct(1))
    then show ?thesis using that by blast
  qed
  have vs': "vs w = lookup2 (ms_countValues s) m w" and ms': "ms w = lookup2 (ms_countMetrics s) m w" for w
    using vs ms by (simp_all add: lookup2_def)
  show ?thesis
  proof (cases "c (m, v) = 1")
    case True
    define s' where "s' = s\<lparr>ms_countValues := (ms_countValues s)(m \<mapsto> vs(v := None)),
        ms_countMetrics := (ms_countMetrics s)(m \<mapsto> ms(v := None))\<rparr>"
    have "removeCount P p s = Ret s'"
      using vs ms True by (simp add: removeCount_def p s'_def)
    moreover have "counted s' (c(p := c p - 1))"
      using assms(1) True vs' ms' unfolding counted_def s'_def p by (auto simp: lookup2_upd)
    moreover have "counts_changed s s'" by (simp add: counts_changed_def s'_def)
    ultimately show ?thesis by blast
  next
    case False
    with assms(3) p have gt: "c (m, v) > 1" by simp
    define s' where "s' = s\<lparr>ms_countValues := (ms_countValues s)(m \<mapsto> vs(v \<mapsto> int (c (m, v)) - 1)),
        ms_countMetrics := (ms_countMetrics s)(m \<mapsto> ms(v \<mapsto> count_metric d (c (m, v) - 1) v))\<rparr>"
    have "removeCount P p s = Ret s'"
      using vs ms d gt by (simp add: removeCount_def p s'_def refreshCountMetric_def const_metric_Ret
          count_metric_def of_nat_diff)
    moreover have "counted s' (c(p := c p - 1))"
      using assms(1) gt vs' ms' d unfolding counted_def s'_def p by (auto simp: lookup2_upd of_nat_diff)
    moreover have "counts_changed s s'" by (simp add: counts_changed_def s'_def)
    ultimately show ?thesis by blast
  qed
qed

lemma count_ok_cong: "counts_changed s s' \<Longrightarrow> count_ok P s' p = count_ok P s p"
  by (auto simp: count_ok_def dest: counts_changed_fields)

lemma add_all_counted:
  assumes "counted s c" "\<forall>p \<in> set ps. count_ok P s p"
  shows "\<exists>s'. fold_go (addCount P) ps s = Ret s' \<and> counted s' (\<lambda>p. c p + count_list ps p) \<and>
    counts_changed s s'"
  using assms
proof (induction ps arbitrary: s c)
  case (Cons p ps)
  then obtain s1 where s1: "addCount P p s = Ret s1" "counted s1 (c(p := c p + 1))" "counts_changed s s1"
    using addCount_counted [of s c P p] by auto
  moreover have "\<forall>q \<in> set ps. count_ok P s1 q" using Cons.prems(2) count_ok_cong [OF s1(3)] by simp
  ultimately obtain s2 where s2: "fold_go (addCount P) ps s1 = Ret s2"
    "counted s2 (\<lambda>q. (c(p := c p + 1)) q + count_list ps q)" "counts_changed s1 s2"
    using Cons.IH by blast
  have "(\<lambda>q. (c(p := c p + 1)) q + count_list ps q) = (\<lambda>q. c q + count_list (p # ps) q)"
    by (auto simp: fun_eq_iff)
  with s1 s2 show ?case using counts_changed_trans by auto
qed simp

lemma remove_all_counted:
  assumes "counted s (\<lambda>p. c p + count_list ps p)" "\<forall>p \<in> set ps. count_ok P s p"
  shows "\<exists>s'. fold_go (removeCount P) ps s = Ret s' \<and> counted s' c \<and> counts_changed s s'"
  using assms
proof (induction ps arbitrary: s)
  case (Cons p ps)
  let ?c = "\<lambda>q. c q + count_list (p # ps) q"
  obtain s1 where s1: "removeCount P p s = Ret s1" "counted s1 (?c(p := ?c p - 1))" "counts_changed s s1"
    using removeCount_counted [OF Cons.prems(1), of P p] Cons.prems(2) by auto
  have "?c(p := ?c p - 1) = (\<lambda>q. c q + count_list ps q)" by (auto simp: fun_eq_iff)
  with s1 have "counted s1 (\<lambda>q. c q + count_list ps q)" by simp
  moreover have "\<forall>q \<in> set ps. count_ok P s1 q" using Cons.prems(2) count_ok_cong [OF s1(3)] by simp
  ultimately obtain s2 where "fold_go (removeCount P) ps s1 = Ret s2" "counted s2 c" "counts_changed s1 s2"
    using Cons.IH by blast
  with s1 show ?case using counts_changed_trans by auto
qed simp

section \<open>Label arity\<close>

definition expected_arity :: "nat \<Rightarrow> compiled_metric \<Rightarrow> nat" where
  "expected_arity n m = (let ty = mc_Type (cm_config m) in
     if ty = ''info'' then n + length (cm_labelPaths m) else if ty = ''gauge'' then n
     else if ty = ''count'' then 1 else if ty = ''string_state'' then n + 1
     else if ty = ''map_state'' then n + 2 else if ty = ''map_gauge'' then n + 1 else n + 3)"

definition store_wf :: "prom \<Rightarrow> metric_store \<Rightarrow> bool" where
  "store_wf P s \<longleftrightarrow> distinct (map (\<lambda>m. mc_Name (cm_config m)) (ms_metrics s)) \<and>
     (\<forall>m \<in> set (ms_metrics s). usable P (cm_desc m) \<and>
        length (d_labels (cm_desc m)) = expected_arity (length (ms_commonLabelPaths s)) m \<and>
        ms_descriptors s (mc_Name (cm_config m)) = Some (cm_desc m))"

lemma compileMetric_arity:
  "compileMetric P pre common mc = Some m \<Longrightarrow>
     cm_config m = mc \<and> length (d_labels (cm_desc m)) = expected_arity (length common) m"
  by (auto simp: compileMetric_def label_names_def expected_arity_def GetSortedValues_def Let_def
      split: if_splits)

lemma newMetricStore_wf:
  assumes "newMetricStore P (Some c) pre = Inr s" "distinct (map mc_Name (crd_Metrics c))"
    "\<forall>m \<in> set (ms_metrics s). usable P (cm_desc m)"
  shows "store_wf P s"
proof -
  define pre' where "pre' = (if pre = '''' then ''sealos'' else pre)"
  define f where "f = compileMetric P pre' (GetSortedKeys (crd_CommonLabels c))"
  have ms: "ms_metrics s = List.map_filter f (crd_Metrics c)"
    "ms_descriptors s = map_of (rev (map (\<lambda>m. (mc_Name (cm_config m), cm_desc m)) (ms_metrics s)))"
    "ms_commonLabelPaths s = GetSortedValues (crd_CommonLabels c)"
    using assms(1) by (auto simp: newMetricStore_def Let_def f_def pre'_def)
  have f: "f mc = Some m \<Longrightarrow> cm_config m = mc \<and>
      length (d_labels (cm_desc m)) = expected_arity (length (ms_commonLabelPaths s)) m" for mc m
    using compileMetric_arity [of P pre' "GetSortedKeys (crd_CommonLabels c)" mc m]
    by (simp add: f_def ms(3) GetSortedValues_def)
  have sub: "set (map (\<lambda>m. mc_Name (cm_config m)) (List.map_filter f xs)) \<subseteq> mc_Name ` set xs" for xs
    using f by (induction xs) (auto simp: List.map_filter_simps split: option.splits)
  have dist: "distinct (map (\<lambda>m. mc_Name (cm_config m)) (List.map_filter f xs))"
    if "distinct (map mc_Name xs)" for xs
    using that
  proof (induction xs)
    case (Cons x xs)
    show ?case
    proof (cases "f x")
      case None
      then show ?thesis using Cons by (simp add: List.map_filter_simps)
    next
      case (Some m)
      moreover from this f have "cm_config m = x" by blast
      moreover have "mc_Name x \<notin> set (map (\<lambda>m. mc_Name (cm_config m)) (List.map_filter f xs))"
        using sub [of xs] Cons.prems by auto
      ultimately show ?thesis using Cons by (simp add: List.map_filter_simps)
    qed
  qed (simp add: List.map_filter_simps)
  have d: "distinct (map (\<lambda>m. mc_Name (cm_config m)) (ms_metrics s))"
    using dist [OF assms(2)] by (simp add: ms(1))
  have "ms_descriptors s (mc_Name (cm_config m)) = Some (cm_desc m)" if "m \<in> set (ms_metrics s)" for m
  proof -
    have "distinct (map fst (rev (map (\<lambda>m. (mc_Name (cm_config m), cm_desc m)) (ms_metrics s))))"
      using d by (simp add: rev_map [symmetric] comp_def)
    moreover have "(mc_Name (cm_config m), cm_desc m) \<in>
        set (rev (map (\<lambda>m. (mc_Name (cm_config m), cm_desc m)) (ms_metrics s)))" using that by simp
    ultimately show ?thesis unfolding ms(2) by (rule map_of_is_SomeI)
  qed
  moreover have "length (d_labels (cm_desc m)) = expected_arity (length (ms_commonLabelPaths s)) m"
    if m: "m \<in> set (ms_metrics s)" for m
  proof -
    obtain mc where "f mc = Some m" using m unfolding ms(1) List.map_filter_def by auto
    then show ?thesis using f by blast
  qed
  ultimately show ?thesis using d assms(3) by (simp add: store_wf_def)
qed

definition contribution :: "'o uns \<Rightarrow> 'o \<Rightarrow> compiled_metric \<Rightarrow> (string \<times> string) list" where
  "contribution U obj m = (let v = ExtractFieldString U obj (mc_Path (cm_config m))
     in if mc_Type (cm_config m) = ''count'' \<and> v \<noteq> '''' then [(mc_Name (cm_config m), v)] else [])"

lemma go_map_const:
  assumes "usable P d" "\<And>x. length (g x) = length (d_labels d)"
  shows "\<exists>ys. go_map (\<lambda>x. const_metric P d (f x) (g x)) xs = Ret ys"
  by (rule exI, rule go_map_Ret) (simp add: const_metric_Ret assms)

lemma build_many_ok:
  assumes "usable P (cm_desc m)" "length (d_labels (cm_desc m)) = expected_arity (length common) m"
  shows "mc_Type (cm_config m) = ''map_state'' \<Longrightarrow> \<exists>ys. buildMapStateMetrics P U obj m common = Ret ys"
    "mc_Type (cm_config m) = ''map_gauge'' \<Longrightarrow> \<exists>ys. buildMapGaugeMetrics P pf U obj m common = Ret ys"
    "mc_Type (cm_config m) = ''conditions'' \<Longrightarrow> \<exists>ys. buildConditionMetrics P U obj m common = Ret ys"
  unfolding buildMapStateMetrics_def buildMapGaugeMetrics_def buildConditionMetrics_def case_prod_unfold
  by (rule go_map_const; simp add: assms expected_arity_def)+

lemma build_one_ok:
  assumes "usable P (cm_desc m)" "length (d_labels (cm_desc m)) = expected_arity (length common) m"
  shows "\<exists>xs. build_one P pf U obj common res m = Ret (res\<lparr>om_series := om_series res @ xs,
    om_counts := om_counts res @ contribution U obj m\<rparr>)"
proof -
  consider "mc_Type (cm_config m) = ''info''" | "mc_Type (cm_config m) = ''gauge''"
    | "mc_Type (cm_config m) = ''count''" | "mc_Type (cm_config m) = ''string_state''"
    | "mc_Type (cm_config m) = ''map_state''" | "mc_Type (cm_config m) = ''map_gauge''"
    | "mc_Type (cm_config m) = ''conditions''"
    | "mc_Type (cm_config m) \<notin> {''info'', ''gauge'', ''count'', ''string_state'', ''map_state'', ''map_gauge'', ''conditions''}"
    by blast
  then show ?thesis
  proof cases
    case 5
    from build_many_ok(1) [OF assms 5] obtain ys where "buildMapStateMetrics P U obj m common = Ret ys" ..
    then show ?thesis using 5 by (auto simp: build_one_def contribution_def Let_def)
  next
    case 6
    from build_many_ok(2) [OF assms 6] obtain ys where "buildMapGaugeMetrics P pf U obj m common = Ret ys" ..
    then show ?thesis using 6 by (auto simp: build_one_def contribution_def Let_def)
  next
    case 7
    from build_many_ok(3) [OF assms 7] obtain ys where "buildConditionMetrics P U obj m common = Ret ys" ..
    then show ?thesis using 7 by (auto simp: build_one_def contribution_def Let_def)
  qed (use assms in \<open>auto simp: build_one_def contribution_def Let_def buildInfoMetric_def buildGaugeMetric_def
      buildStringStateMetric_def const_metric_Ret expected_arity_def intro: exI [of _ "[]"]\<close>)
qed

lemma build_loop_ok:
  assumes "\<forall>m \<in> set ms. usable P (cm_desc m) \<and> length (d_labels (cm_desc m)) = expected_arity (length common) m"
  shows "\<exists>xs. build_loop P pf U obj common res ms = Ret (res\<lparr>om_series := om_series res @ xs,
    om_counts := om_counts res @ concat (map (contribution U obj) ms)\<rparr>)"
  using assms
proof (induction ms arbitrary: res)
  case Nil
  show ?case by (rule exI [of _ "[]"]) simp
next
  case (Cons m ms)
  obtain xs where x: "build_one P pf U obj common res m = Ret (res\<lparr>om_series := om_series res @ xs,
      om_counts := om_counts res @ contribution U obj m\<rparr>)"
    using build_one_ok [of P m common pf U obj res] Cons.prems by auto
  from Cons.IH [of "res\<lparr>om_series := om_series res @ xs,
      om_counts := om_counts res @ contribution U obj m\<rparr>"] Cons.prems
  obtain ys where "build_loop P pf U obj common (res\<lparr>om_series := om_series res @ xs,
      om_counts := om_counts res @ contribution U obj m\<rparr>) ms = Ret (res\<lparr>om_series := om_series res @ xs @ ys,
      om_counts := om_counts res @ contribution U obj m @ concat (map (contribution U obj) ms)\<rparr>)"
    by auto
  with x show ?case by auto
qed

text \<open>What the store keeps of an object.\<close>

definition built :: "prom \<Rightarrow> (string \<Rightarrow> float64) \<Rightarrow> 'o uns \<Rightarrow> metric_store \<Rightarrow> 'o \<Rightarrow> object_metrics option" where
  "built P pf U s obj = (case buildObjectMetrics P pf U s obj of Ret r \<Rightarrow> r | Panic _ \<Rightarrow> None)"

lemma build_ok:
  assumes "store_wf P s"
  shows "buildObjectMetrics P pf U s obj = Ret (built P pf U s obj)"
    "built P pf U s obj = None \<longleftrightarrow> \<not> namespaceAllowed s (un_GetNamespace U obj)"
    "built P pf U s obj = Some om \<Longrightarrow> om_counts om = concat (map (contribution U obj) (ms_metrics s))"
proof -
  have "\<forall>m \<in> set (ms_metrics s). usable P (cm_desc m) \<and>
      length (d_labels (cm_desc m)) = expected_arity (length (extractCommonLabels s U obj)) m"
    using assms by (simp add: store_wf_def extractCommonLabels_def)
  from build_loop_ok [OF this, of pf U obj "\<lparr>om_series = [], om_counts = []\<rparr>"] obtain xs where
    b: "build_loop P pf U obj (extractCommonLabels s U obj) \<lparr>om_series = [], om_counts = []\<rparr> (ms_metrics s) =
      Ret \<lparr>om_series = xs, om_counts = concat (map (contribution U obj) (ms_metrics s))\<rparr>" by auto
  then show "buildObjectMetrics P pf U s obj = Ret (built P pf U s obj)"
    "built P pf U s obj = None \<longleftrightarrow> \<not> namespaceAllowed s (un_GetNamespace U obj)"
    by (simp_all add: built_def buildObjectMetrics_def)
  show "om_counts om = concat (map (contribution U obj) (ms_metrics s))" if "built P pf U s obj = Some om"
    using that b by (auto simp: built_def buildObjectMetrics_def split: if_splits)
qed

lemma contributions_ok:
  assumes "store_wf P s" "p \<in> set (concat (map (contribution U obj) (ms_metrics s)))"
  shows "count_ok P s p"
  using assms
  by (auto simp: contribution_def count_ok_def store_wf_def expected_arity_def Let_def split: if_splits)

lemma built_counts_ok:
  assumes "store_wf P s0" "built P pf U s0 ob = Some om" "ms_descriptors s = ms_descriptors s0"
  shows "\<forall>p \<in> set (om_counts om). count_ok P s p"
proof
  fix p assume "p \<in> set (om_counts om)"
  then have "count_ok P s0 p"
    using contributions_ok [OF assms(1)] build_ok(3) [OF assms(1,2)] by simp
  then show "count_ok P s p" using assms(3) by (simp add: count_ok_def)
qed

section \<open>The store against its specification\<close>

text \<open>
  The specification: the live objects, by key. An event with an object of an allowed namespace
  makes it the live one under its key; a deletion, and an event with an object of another
  namespace, removes the key.
\<close>

datatype 'o store_event = Upserted "'o option" | Deleted "'o option"

fun store_step :: "prom \<Rightarrow> (string \<Rightarrow> float64) \<Rightarrow> 'o uns \<Rightarrow> 'o store_event \<Rightarrow> metric_store \<Rightarrow> metric_store go" where
  "store_step P pf U (Upserted obj) s = upsert P pf U obj s"
| "store_step P pf U (Deleted obj) s = store_Delete P U obj s"

definition watched :: "string list \<Rightarrow> string \<Rightarrow> bool" where
  "watched nss ns \<longleftrightarrow> (\<forall>n \<in> set nss. n = '''') \<or> (ns \<noteq> '''' \<and> ns \<in> set nss)"

fun live_step :: "'o uns \<Rightarrow> string list \<Rightarrow> 'o store_event \<Rightarrow> (string \<Rightarrow> 'o option) \<Rightarrow> (string \<Rightarrow> 'o option)" where
  "live_step U nss (Upserted (Some ob)) L =
     (if watched nss (un_GetNamespace U ob) then L(resourceKey U ob \<mapsto> ob)
      else L(resourceKey U ob := None))"
| "live_step U nss (Deleted (Some ob)) L = L(resourceKey U ob := None)"
| "live_step U nss _ L = L"

definition live_objects :: "'o uns \<Rightarrow> string list \<Rightarrow> 'o store_event list \<Rightarrow> (string \<Rightarrow> 'o option)" where
  "live_objects U nss es = fold (live_step U nss) es Map.empty"

definition total :: "(string \<Rightarrow> object_metrics option) \<Rightarrow> string \<times> string \<Rightarrow> nat" where
  "total objs p = (\<Sum>k \<in> dom objs. count_list (om_counts (the (objs k))) p)"

lemma total_add:
  assumes "finite (dom objs)" "objs k = None"
  shows "total (objs(k \<mapsto> om)) p = total objs p + count_list (om_counts om) p"
proof -
  have "total (objs(k \<mapsto> om)) p = count_list (om_counts om) p +
      (\<Sum>j \<in> dom objs. count_list (om_counts (the ((objs(k \<mapsto> om)) j))) p)"
    using assms by (simp add: total_def domIff)
  also have "(\<Sum>j \<in> dom objs. count_list (om_counts (the ((objs(k \<mapsto> om)) j))) p) = total objs p"
    unfolding total_def using assms(2) by (intro sum.cong) auto
  finally show ?thesis by (simp only: add.commute)
qed

lemma total_remove:
  assumes "finite (dom objs)" "objs k = Some om"
  shows "total objs p = total (objs(k := None)) p + count_list (om_counts om) p"
  using total_add [of "objs(k := None)" k om p] assms by (simp add: fun_upd_idem)

text \<open>The refinement relation between a store started as \<open>s0\<close> and the live objects, without the
  statistics, which \<open>store_rel\<close> adds.\<close>

definition store_core :: "prom \<Rightarrow> (string \<Rightarrow> float64) \<Rightarrow> 'o uns \<Rightarrow> metric_store \<Rightarrow> metric_store
    \<Rightarrow> (string \<Rightarrow> 'o option) \<Rightarrow> bool" where
  "store_core P pf U s0 s L \<longleftrightarrow>
     ms_commonLabelPaths s = ms_commonLabelPaths s0 \<and> ms_metrics s = ms_metrics s0 \<and>
     ms_descriptors s = ms_descriptors s0 \<and> ms_namespaces s = ms_namespaces s0 \<and>
     finite (dom L) \<and>
     (\<forall>k. ms_objects s k = (case L k of None \<Rightarrow> None | Some ob \<Rightarrow> built P pf U s0 ob)) \<and>
     (\<forall>k ob. L k = Some ob \<longrightarrow> namespaceAllowed s0 (un_GetNamespace U ob)) \<and>
     counted s (total (ms_objects s))"

definition store_rel :: "prom \<Rightarrow> (string \<Rightarrow> float64) \<Rightarrow> 'o uns \<Rightarrow> metric_store \<Rightarrow> metric_store
    \<Rightarrow> (string \<Rightarrow> 'o option) \<Rightarrow> bool" where
  "store_rel P pf U s0 s L \<longleftrightarrow> store_core P pf U s0 s L \<and>
     ms_AddCount s - ms_DeleteCount s = int (card (dom L))"

lemma built_cong:
  assumes "ms_commonLabelPaths s = ms_commonLabelPaths s0" "ms_metrics s = ms_metrics s0"
    "ms_namespaces s = ms_namespaces s0"
  shows "buildObjectMetrics P pf U s ob = buildObjectMetrics P pf U s0 ob"
  using assms by (simp add: buildObjectMetrics_def namespaceAllowed_def extractCommonLabels_def)

lemma store_core_dom:
  assumes "store_wf P s0" "store_core P pf U s0 s L"
  shows "ms_objects s k = None \<longleftrightarrow> L k = None"
  using assms build_ok(2) [OF assms(1), of pf U]
  by (auto simp: store_core_def split: option.splits)

lemma removeLocked_rel:
  assumes "store_wf P s0" "store_core P pf U s0 s L" "L k \<noteq> None"
  shows "\<exists>s'. removeLocked P k s = Ret s' \<and>
    store_core P pf U s0 s' (L(k := None)) \<and>
    ms_AddCount s' = ms_AddCount s \<and> ms_DeleteCount s' = ms_DeleteCount s"
proof -
  note R = assms(2) [unfolded store_core_def]
  obtain ob where ob: "L k = Some ob" using assms(3) by auto
  then obtain om where om: "ms_objects s k = Some om" "built P pf U s0 ob = Some om"
    using R store_core_dom [OF assms(1,2), of k] by (auto split: option.splits)
  have dom: "dom (ms_objects s) = dom L" unfolding dom_def using store_core_dom [OF assms(1,2)] by simp
  have fin: "finite (dom (ms_objects s))" using R dom by simp
  have eq: "total (ms_objects s) = (\<lambda>p. total ((ms_objects s)(k := None)) p + count_list (om_counts om) p)"
    by (rule ext) (rule total_remove [OF fin om(1)])
  have "counted s (total (ms_objects s))" using R by blast
  then have "counted s (\<lambda>p. total ((ms_objects s)(k := None)) p + count_list (om_counts om) p)"
    by (simp only: eq)
  moreover have "\<forall>p \<in> set (om_counts om). count_ok P s p"
    using built_counts_ok [OF assms(1) om(2)] R by blast
  ultimately obtain s1 where s1: "fold_go (removeCount P) (om_counts om) s = Ret s1"
    "counted s1 (total ((ms_objects s)(k := None)))" "counts_changed s s1"
    using remove_all_counted by blast
  note f = counts_changed_fields [OF s1(3)]
  let ?s2 = "s1\<lparr>ms_objects := (ms_objects s1)(k := None)\<rparr>"
  have c2: "counted ?s2 (total (ms_objects ?s2))" using s1(2) f by (simp add: counted_def)
  have "store_core P pf U s0 ?s2 (L(k := None))"
    using R c2 f by (auto simp: store_core_def counted_def)
  with s1(1) om(1) f show ?thesis by (simp add: removeLocked_def)
qed

lemma insert_rel:
  assumes "store_wf P s0" "store_core P pf U s0 s L" "L k = None" "built P pf U s0 ob = Some om"
    "k = resourceKey U ob"
  shows "\<exists>s'. fold_go (addCount P) (om_counts om) (s\<lparr>ms_objects := (ms_objects s)(k \<mapsto> om)\<rparr>) = Ret s' \<and>
    store_core P pf U s0 s' (L(k \<mapsto> ob)) \<and>
    ms_AddCount s' = ms_AddCount s \<and> ms_DeleteCount s' = ms_DeleteCount s"
proof -
  note R = assms(2) [unfolded store_core_def]
  have dom: "dom (ms_objects s) = dom L" unfolding dom_def using store_core_dom [OF assms(1,2)] by simp
  have fin: "finite (dom (ms_objects s))" using R dom by simp
  have none: "ms_objects s k = None" using store_core_dom [OF assms(1,2)] assms(3) by simp
  let ?s1 = "s\<lparr>ms_objects := (ms_objects s)(k \<mapsto> om)\<rparr>"
  have "counted ?s1 (total (ms_objects s))" using R by (simp add: counted_def)
  moreover have "\<forall>p \<in> set (om_counts om). count_ok P ?s1 p"
    using built_counts_ok [OF assms(1,4), of ?s1] R by simp
  ultimately obtain s2 where s2: "fold_go (addCount P) (om_counts om) ?s1 = Ret s2"
    "counted s2 (\<lambda>p. total (ms_objects s) p + count_list (om_counts om) p)" "counts_changed ?s1 s2"
    using add_all_counted by blast
  note f = counts_changed_fields [OF s2(3)]
  have c2: "counted s2 (total (ms_objects s2))"
  proof -
    have "total (ms_objects s2) = (\<lambda>p. total (ms_objects s) p + count_list (om_counts om) p)"
      using f total_add [OF fin none, of om] by auto
    then show ?thesis using s2(2) by simp
  qed
  have "namespaceAllowed s0 (un_GetNamespace U ob)"
    using build_ok(2) [OF assms(1), of pf U ob] assms(4) by simp
  then have "store_core P pf U s0 s2 (L(k \<mapsto> ob))"
    using R c2 f assms(4,5) by (auto simp: store_core_def)
  with s2(1) f show ?thesis by auto
qed

lemma store_core_stats:
  assumes "store_core P pf U s0 s L"
  shows "store_core P pf U s0 (s\<lparr>ms_AddCount := a\<rparr>) L" "store_core P pf U s0 (s\<lparr>ms_UpdateCount := a\<rparr>) L"
    "store_core P pf U s0 (s\<lparr>ms_DeleteCount := a\<rparr>) L"
  using assms by (simp_all add: store_core_def counted_def)

lemma card_dom_upd:
  assumes "finite (dom L)"
  shows "L k = None \<Longrightarrow> card (dom (L(k \<mapsto> x))) = card (dom L) + 1"
    "L k \<noteq> None \<Longrightarrow> card (dom (L(k \<mapsto> x))) = card (dom L)"
    "L k \<noteq> None \<Longrightarrow> int (card (dom (L(k := None)))) = int (card (dom L)) - 1"
proof -
  show "L k = None \<Longrightarrow> card (dom (L(k \<mapsto> x))) = card (dom L) + 1"
    using assms by (simp add: domIff)
  show "L k \<noteq> None \<Longrightarrow> card (dom (L(k \<mapsto> x))) = card (dom L)"
    by (simp add: domIff insert_absorb)
  assume "L k \<noteq> None"
  then have kd: "k \<in> dom L" by auto
  with assms have "card (dom L) > 0" by (auto simp: card_gt_0_iff)
  with kd assms show "int (card (dom (L(k := None)))) = int (card (dom L)) - 1"
    by (simp add: card_Diff_singleton of_nat_diff)
qed

text \<open>A removal and an insertion, as the events use them.\<close>

lemma delete_rel:
  assumes "store_wf P s0" "store_rel P pf U s0 s L"
  shows "\<exists>s'. store_Delete P U (Some ob) s = Ret s' \<and> store_rel P pf U s0 s' (L(resourceKey U ob := None))"
proof (cases "L (resourceKey U ob)")
  case None
  moreover have "ms_objects s (resourceKey U ob) = None"
    using store_core_dom [OF assms(1), of pf U s L "resourceKey U ob"] assms(2) None by (simp add: store_rel_def)
  ultimately show ?thesis using assms(2) by (simp add: store_Delete_def fun_upd_idem)
next
  case (Some old)
  have core: "store_core P pf U s0 s L" and fin: "finite (dom L)"
    using assms(2) by (simp_all add: store_rel_def store_core_def)
  obtain s' where "removeLocked P (resourceKey U ob) s = Ret s'"
    "store_core P pf U s0 s' (L(resourceKey U ob := None))"
    "ms_AddCount s' = ms_AddCount s" "ms_DeleteCount s' = ms_DeleteCount s"
    using removeLocked_rel [OF assms(1) core, of "resourceKey U ob"] Some by blast
  moreover have "ms_objects s (resourceKey U ob) \<noteq> None"
    using store_core_dom [OF assms(1) core, of "resourceKey U ob"] Some by simp
  ultimately show ?thesis
    using assms(2) card_dom_upd(3) [OF fin, of "resourceKey U ob"] Some
    by (auto simp: store_Delete_def store_rel_def store_core_stats)
qed

lemma upsert_forbidden:
  assumes "store_wf P s0" "store_rel P pf U s0 s L" "\<not> namespaceAllowed s0 (un_GetNamespace U ob)"
  shows "upsert P pf U (Some ob) s = store_Delete P U (Some ob) s"
proof -
  have "\<not> namespaceAllowed s (un_GetNamespace U ob)"
    using assms(2,3) by (simp add: store_rel_def store_core_def namespaceAllowed_def)
  then show ?thesis
    by (simp add: upsert_def store_Delete_def buildObjectMetrics_def Let_def)
qed

lemma upsert_allowed_rel:
  assumes "store_wf P s0" "store_rel P pf U s0 s L" "namespaceAllowed s0 (un_GetNamespace U ob)"
  shows "\<exists>s'. upsert P pf U (Some ob) s = Ret s' \<and> store_rel P pf U s0 s' (L(resourceKey U ob \<mapsto> ob))"
proof -
  let ?k = "resourceKey U ob"
  have core: "store_core P pf U s0 s L" and fin: "finite (dom L)"
    and stat: "ms_AddCount s - ms_DeleteCount s = int (card (dom L))"
    using assms(2) by (simp_all add: store_rel_def store_core_def)
  have b: "buildObjectMetrics P pf U s ob = Ret (built P pf U s0 ob)"
    using built_cong [of s s0 P pf U ob] build_ok(1) [OF assms(1), of pf U ob] core
    by (simp add: store_core_def)
  obtain om where om: "built P pf U s0 ob = Some om"
    using build_ok(2) [OF assms(1), of pf U ob] assms(3) by auto
  have ex: "(ms_objects s ?k \<noteq> None) = (L ?k \<noteq> None)" using store_core_dom [OF assms(1) core, of ?k] by simp
  obtain s1 where s1: "(if L ?k \<noteq> None then removeLocked P ?k s else Ret s) = Ret s1"
    "store_core P pf U s0 s1 (L(?k := None))"
    "ms_AddCount s1 = ms_AddCount s" "ms_DeleteCount s1 = ms_DeleteCount s"
  proof (cases "L ?k = None")
    case True
    then show ?thesis using core by (intro that [of s]) (simp_all add: fun_upd_idem)
  next
    case False
    then show ?thesis using removeLocked_rel [OF assms(1) core False] that by auto
  qed
  obtain s2 where s2: "fold_go (addCount P) (om_counts om) (s1\<lparr>ms_objects := (ms_objects s1)(?k \<mapsto> om)\<rparr>) = Ret s2"
    "store_core P pf U s0 s2 (L(?k \<mapsto> ob))"
    "ms_AddCount s2 = ms_AddCount s" "ms_DeleteCount s2 = ms_DeleteCount s"
    using insert_rel [OF assms(1) s1(2) _ om refl] s1(3,4) by auto
  show ?thesis
  proof (cases "L ?k = None")
    case True
    have "store_rel P pf U s0 (s2\<lparr>ms_AddCount := ms_AddCount s2 + 1\<rparr>) (L(?k \<mapsto> ob))"
      using s2 stat card_dom_upd(1) [OF fin True, of ob] by (simp add: store_rel_def store_core_stats)
    then show ?thesis using b om ex s1(1) s2(1) True by (simp add: upsert_def Let_def)
  next
    case False
    have "store_rel P pf U s0 (s2\<lparr>ms_UpdateCount := ms_UpdateCount s2 + 1\<rparr>) (L(?k \<mapsto> ob))"
      using s2 stat card_dom_upd(2) [OF fin False, of ob] by (simp add: store_rel_def store_core_stats)
    then show ?thesis using b om ex s1(1) s2(1) False by (simp add: upsert_def Let_def)
  qed
qed

lemma store_step_rel:
  assumes "store_wf P s0" "store_rel P pf U s0 s L"
    "\<And>ns. namespaceAllowed s0 ns = watched nss ns"
  shows "\<exists>s'. store_step P pf U e s = Ret s' \<and> store_rel P pf U s0 s' (live_step U nss e L)"
proof (cases "(U, nss, e, L)" rule: live_step.cases)
  case (1 U' nss' ob L')
  then show ?thesis
    using upsert_allowed_rel [OF assms(1,2), of ob] upsert_forbidden [OF assms(1,2), of ob]
      delete_rel [OF assms(1,2), of ob] assms(3) by auto
next
  case (2 U' nss' ob L')
  then show ?thesis using delete_rel [OF assms(1,2), of ob] by simp
qed (use assms(2) in \<open>auto simp: upsert_def store_Delete_def\<close>)

lemma store_run_rel:
  assumes "store_wf P s0" "store_rel P pf U s0 s L"
    "\<And>ns. namespaceAllowed s0 ns = watched nss ns"
  shows "\<exists>s'. fold_go (store_step P pf U) es s = Ret s' \<and>
    store_rel P pf U s0 s' (fold (live_step U nss) es L)"
  using assms(2)
proof (induction es arbitrary: s L)
  case (Cons e es)
  then show ?case using store_step_rel [OF assms(1) Cons.prems assms(3), of e] by fastforce
qed simp

lemma watched_allowed:
  "newMetricStore P (Some c) pre = Inr s0 \<Longrightarrow>
     namespaceAllowed s0 ns \<longleftrightarrow> watched (crd_Namespaces c) ns"
  by (auto simp: newMetricStore_def Let_def namespaceAllowed_def watched_def makeNamespaceSet_def
      filter_empty_conv)

lemma newMetricStore_rel:
  assumes "newMetricStore P (Some c) pre = Inr s0"
  shows "store_rel P pf U s0 s0 Map.empty"
  using assms by (auto simp: newMetricStore_def Let_def store_rel_def store_core_def counted_def
      lookup2_def total_def)

text \<open>How often a metric counts a value among the live objects.\<close>

definition live_count :: "'o uns \<Rightarrow> (string \<Rightarrow> 'o option) \<Rightarrow> metric_config \<Rightarrow> string \<Rightarrow> nat" where
  "live_count U L mc v = card {k. \<exists>ob. L k = Some ob \<and> mc_Type mc = ''count'' \<and>
     v \<noteq> '''' \<and> ExtractFieldString U ob (mc_Path mc) = v}"

lemma count_list_concat: "count_list (concat xss) p = sum_list (map (\<lambda>xs. count_list xs p) xss)"
  by (induction xss) simp_all

lemma contribution_one:
  "count_list (contribution U ob m) (n, v) = (if n = mc_Name (cm_config m) \<and>
     mc_Type (cm_config m) = ''count'' \<and> v \<noteq> '''' \<and>
     ExtractFieldString U ob (mc_Path (cm_config m)) = v then 1 else 0)"
  by (auto simp: contribution_def Let_def)

lemma contribution_count:
  assumes "distinct (map (\<lambda>m. mc_Name (cm_config m)) ms)" "m \<in> set ms"
  shows "count_list (concat (map (contribution U ob) ms)) (mc_Name (cm_config m), v) =
    (if mc_Type (cm_config m) = ''count'' \<and> v \<noteq> '''' \<and>
       ExtractFieldString U ob (mc_Path (cm_config m)) = v then 1 else 0)"
  using assms
proof (induction ms)
  case (Cons m' ms)
  have other: "count_list (concat (map (contribution U ob) xs)) (n, v) = 0"
    if "n \<notin> (\<lambda>m. mc_Name (cm_config m)) ` set xs" for xs n
    using that by (induction xs) (auto simp: contribution_one)
  show ?case
  proof (cases "m = m'")
    case True
    have "mc_Name (cm_config m') \<notin> (\<lambda>m. mc_Name (cm_config m)) ` set ms" using Cons.prems(1) by simp
    from other [OF this] show ?thesis by (simp add: True contribution_one)
  next
    case False
    then have m: "m \<in> set ms" using Cons.prems(2) by simp
    then have "mc_Name (cm_config m) \<in> (\<lambda>m. mc_Name (cm_config m)) ` set ms" by (rule imageI)
    with Cons.prems(1) have "mc_Name (cm_config m) \<noteq> mc_Name (cm_config m')" by auto
    with m have "m \<in> set ms" "mc_Name (cm_config m) \<noteq> mc_Name (cm_config m')" by blast+
    then show ?thesis using Cons by (simp add: contribution_one)
  qed
qed simp

lemma total_live_count:
  assumes "store_wf P s0" "store_core P pf U s0 s L" "m \<in> set (ms_metrics s0)"
  shows "total (ms_objects s) (mc_Name (cm_config m), v) = live_count U L (cm_config m) v"
proof -
  let ?p = "(mc_Name (cm_config m), v)"
  let ?ok = "\<lambda>ob. mc_Type (cm_config m) = ''count'' \<and> v \<noteq> '''' \<and>
       ExtractFieldString U ob (mc_Path (cm_config m)) = v"
  have fin: "finite (dom L)" using assms(2) by (simp add: store_core_def)
  have dom: "dom (ms_objects s) = dom L" unfolding dom_def using store_core_dom [OF assms(1,2)] by simp
  have one: "count_list (om_counts (the (ms_objects s k))) ?p = (if ?ok (the (L k)) then 1 else 0)"
    if k: "k \<in> dom L" for k
  proof -
    obtain ob where ob: "L k = Some ob" using k by blast
    then obtain om where om: "ms_objects s k = Some om" "built P pf U s0 ob = Some om"
      using assms(2) store_core_dom [OF assms(1,2), of k] by (auto simp: store_core_def)
    have "distinct (map (\<lambda>m. mc_Name (cm_config m)) (ms_metrics s0))" using assms(1) by (simp add: store_wf_def)
    from contribution_count [OF this assms(3), of U ob v] show ?thesis
      using build_ok(3) [OF assms(1) om(2)] om(1) ob by simp
  qed
  have "total (ms_objects s) ?p = (\<Sum>k \<in> dom L. if ?ok (the (L k)) then 1 else 0)"
    unfolding total_def dom by (rule sum.cong [OF refl one])
  also have "\<dots> = card {k \<in> dom L. ?ok (the (L k))}"
    using sum.inter_filter [OF fin, of "\<lambda>_. 1::nat" "\<lambda>k. ?ok (the (L k))"] by simp
  also have "{k \<in> dom L. ?ok (the (L k))} = {k. \<exists>ob. L k = Some ob \<and> ?ok ob}" by auto
  finally show ?thesis by (simp add: live_count_def)
qed

lemma newMetricStore_count_metrics:
  "newMetricStore P (Some c) pre = Inr s0 \<Longrightarrow> mc \<in> set (crd_Metrics c) \<Longrightarrow> mc_Type mc = ''count'' \<Longrightarrow>
     \<exists>m \<in> set (ms_metrics s0). cm_config m = mc"
proof -
  assume a: "newMetricStore P (Some c) pre = Inr s0" "mc \<in> set (crd_Metrics c)" "mc_Type mc = ''count''"
  define f where "f = compileMetric P (if pre = '''' then ''sealos'' else pre) (GetSortedKeys (crd_CommonLabels c))"
  have "ms_metrics s0 = List.map_filter f (crd_Metrics c)"
    using a(1) by (auto simp: newMetricStore_def Let_def f_def)
  moreover obtain m where "f mc = Some m" "cm_config m = mc"
    using a(3) by (simp add: f_def compileMetric_def label_names_def)
  ultimately show "\<exists>m \<in> set (ms_metrics s0). cm_config m = mc"
    using a(2) unfolding List.map_filter_def by (auto intro!: bexI [of _ m] rev_image_eqI [of mc])
qed

text \<open>C5. The metric store refines the set of live objects: for every sequence of informer events no
  handler panics (the label arity of every metric type agrees with its descriptor), the store
  holds exactly the series built from each live object, each count metric shows for every
  non-empty value the number of live objects with that value (and no sample when there is
  none), and the added minus the deleted objects are the live ones.\<close>

theorem store_refines_live_objects:
  assumes "newMetricStore P (Some c) pre = Inr s0"
    and "distinct (map mc_Name (crd_Metrics c))"
    and "\<forall>m \<in> set (ms_metrics s0). usable P (cm_desc m)"
  shows "\<exists>s. fold_go (store_step P pf U) es s0 = Ret s \<and>
    (\<forall>k. ms_objects s k = (case live_objects U (crd_Namespaces c) es k of
         None \<Rightarrow> None | Some ob \<Rightarrow> built P pf U s0 ob)) \<and>
    (\<forall>mc \<in> set (crd_Metrics c). mc_Type mc = ''count'' \<longrightarrow> (\<exists>d. ms_descriptors s0 (mc_Name mc) = Some d \<and>
       (\<forall>v. let n = live_count U (live_objects U (crd_Namespaces c) es) mc v in
         lookup2 (ms_countMetrics s) (mc_Name mc) v = (if n = 0 then None else Some (count_metric d n v))))) \<and>
    ms_AddCount s - ms_DeleteCount s = int (card (dom (live_objects U (crd_Namespaces c) es)))"
proof -
  have wf: "store_wf P s0" using newMetricStore_wf [OF assms]  .
  obtain s where s: "fold_go (store_step P pf U) es s0 = Ret s"
    "store_rel P pf U s0 s (live_objects U (crd_Namespaces c) es)"
    using store_run_rel [OF wf newMetricStore_rel [OF assms(1)] watched_allowed [OF assms(1)], of pf U es]
    unfolding live_objects_def by blast
  let ?L = "live_objects U (crd_Namespaces c) es"
  have core: "store_core P pf U s0 s ?L" using s(2) by (simp add: store_rel_def)
  have "\<exists>d. ms_descriptors s0 (mc_Name mc) = Some d \<and> (\<forall>v. let n = live_count U ?L mc v in
         lookup2 (ms_countMetrics s) (mc_Name mc) v = (if n = 0 then None else Some (count_metric d n v)))"
    if mc: "mc \<in> set (crd_Metrics c)" "mc_Type mc = ''count''" for mc
  proof -
    obtain m where m: "m \<in> set (ms_metrics s0)" "cm_config m = mc"
      using newMetricStore_count_metrics [OF assms(1) mc] by blast
    have d: "ms_descriptors s0 (mc_Name mc) = Some (cm_desc m)" using wf m by (auto simp: store_wf_def)
    have "ms_descriptors s = ms_descriptors s0" "counted s (total (ms_objects s))"
      using core by (simp_all add: store_core_def)
    then have "lookup2 (ms_countMetrics s) (mc_Name mc) v = (let n = live_count U ?L mc v in
        if n = 0 then None else Some (count_metric (cm_desc m) n v))" for v
      using total_live_count [OF wf core m(1), of v] d m(2) by (simp add: counted_def Let_def)
    with d show ?thesis by (simp add: Let_def)
  qed
  moreover have "\<forall>k. ms_objects s k = (case ?L k of None \<Rightarrow> None | Some ob \<Rightarrow> built P pf U s0 ob)"
    using core unfolding store_core_def by blast
  ultimately show ?thesis using s by (intro exI [of _ s] conjI) (simp_all add: store_rel_def)
qed

definition plain_uns :: "(string \<times> string \<times> string) uns" where
  "plain_uns = \<lparr>un_GetName = (\<lambda>(ns, n, ph). n), un_GetNamespace = (\<lambda>(ns, n, ph). ns),
     un_GetResourceVersion = (\<lambda>_. ''1''),
     un_NestedString = (\<lambda>(ns, n, ph) p. if p = [''status'', ''phase''] then ph else ''''),
     un_NestedField = (\<lambda>_ _. None), un_NestedMap = (\<lambda>_ _. None), un_NestedSlice = (\<lambda>_ _. None)\<rparr>"

definition phase_metric :: metric_config where
  "phase_metric = \<lparr>mc_Type = ''count'', mc_Name = ''phase'', mc_Help = '''', mc_Path = ''status.phase'',
     mc_Labels = [], mc_ValueLabel = '''', mc_ValuePath = '''', mc_KeyLabel = '''', mc_Condition = None\<rparr>"

definition phase_config :: crd_config where
  "phase_config = \<lparr>crd_Name = ''p'', crd_Resource = ''ps'', crd_Namespaces = [''a''],
     crd_ResyncPeriod = 0, crd_CommonLabels = [], crd_Metrics = [phase_metric]\<rparr>"

definition plain_prom :: prom where
  "plain_prom = \<lparr>pr_BuildFQName = (\<lambda>a b c. a @ ''_'' @ c), pr_desc_ok = (\<lambda>_. True),
     pr_MustNewConstMetric = (\<lambda>d v ls. if length ls = length (d_labels d)
       then Ret \<lparr>pm_desc = d, pm_value = v, pm_labels = ls\<rparr> else Panic ''inconsistent label cardinality'')\<rparr>"

lemma plain_prom_usable: "usable plain_prom d"
  by (simp add: usable_def metric_law_def plain_prom_def)

definition phase_store :: metric_store where
  "phase_store = (case newMetricStore plain_prom (Some phase_config) '''' of Inr s \<Rightarrow> s | Inl _ \<Rightarrow> undefined)"

lemma phase_store: "newMetricStore plain_prom (Some phase_config) '''' = Inr phase_store"
  by (simp add: newMetricStore_def phase_store_def Let_def)

theorem store_refines_live_objects_witness:
  "\<exists>s. fold_go (store_step plain_prom (\<lambda>_. Fin 0) plain_uns)
       [Upserted (Some (''a'', ''x'', ''Pending'')), Upserted (Some (''a'', ''y'', ''Running'')),
        Upserted (Some (''b'', ''z'', ''Running'')), Upserted (Some (''a'', ''x'', ''Running'')),
        Deleted (Some (''a'', ''y'', ''Running''))] phase_store = Ret s \<and>
     ms_AddCount s - ms_DeleteCount s = 1"
proof -
  let ?es = "[Upserted (Some (''a'', ''x'', ''Pending'')), Upserted (Some (''a'', ''y'', ''Running'')),
        Upserted (Some (''b'', ''z'', ''Running'')), Upserted (Some (''a'', ''x'', ''Running'')),
        Deleted (Some (''a'', ''y'', ''Running''))]"
  have "dom (live_objects plain_uns (crd_Namespaces phase_config) ?es) = {''a/x''}"
    by (auto simp: live_objects_def watched_def plain_uns_def phase_config_def resourceKey_def split: if_splits)
  then show ?thesis
    using store_refines_live_objects [OF phase_store, of "\<lambda>_. Fin 0" plain_uns ?es]
    by (fastforce simp: phase_config_def plain_prom_usable)
qed

section \<open>What a scrape sees\<close>

text \<open>\<open>metricCountLocked\<close>, the capacity of the snapshot, is its length.\<close>

definition metricCountLocked :: "string list \<Rightarrow> string list \<Rightarrow> (string \<Rightarrow> string list) \<Rightarrow> metric_store \<Rightarrow> nat" where
  "metricCountLocked ks ms vs s =
     foldl (\<lambda>n m. n + length (vs m)) (foldl (\<lambda>n k. n + length (om_series (the (ms_objects s k)))) 0 ks) ms"

lemma foldl_length: "foldl (\<lambda>n x. n + length (f x)) a xs = a + length (concat (map f xs))"
  by (induction xs arbitrary: a) simp_all

lemma metricCount_is_length: "metricCountLocked ks ms vs s = length (snapshotMetrics ks ms vs s)"
  by (simp add: metricCountLocked_def snapshotMetrics_def foldl_length length_concat comp_def)

definition well_described :: "metric_store \<Rightarrow> pmetric \<Rightarrow> bool" where
  "well_described s x \<longleftrightarrow> (\<exists>m \<in> set (ms_metrics s). pm_desc x = cm_desc m) \<and>
     length (pm_labels x) = length (d_labels (pm_desc x))"

lemma go_map_const_result:
  "usable P d \<Longrightarrow> go_map (\<lambda>x. const_metric P d (f x) (g x)) xs = Ret ys \<Longrightarrow> y \<in> set ys \<Longrightarrow>
     pm_desc y = d \<and> length (pm_labels y) = length (d_labels d)"
  by (induction xs arbitrary: ys) (auto simp: bind_go_Ret_iff dest: const_metric_result)

lemma build_one_described:
  assumes "build_one P pf U obj common res m = Ret res'" "x \<in> set (om_series res')" "usable P (cm_desc m)"
  shows "x \<in> set (om_series res) \<or> pm_desc x = cm_desc m \<and> length (pm_labels x) = length (d_labels (cm_desc m))"
proof -
  have many: "buildMapStateMetrics P U obj m common = Ret ys \<or> buildMapGaugeMetrics P pf U obj m common = Ret ys \<or>
      buildConditionMetrics P U obj m common = Ret ys \<Longrightarrow> x \<in> set ys \<Longrightarrow>
      pm_desc x = cm_desc m \<and> length (pm_labels x) = length (d_labels (cm_desc m))" for ys
    unfolding buildMapStateMetrics_def buildMapGaugeMetrics_def buildConditionMetrics_def case_prod_unfold
    by (elim disjE) (erule (1) go_map_const_result [OF assms(3)])+
  have one: "buildInfoMetric P U obj m common = Ret y \<or> buildGaugeMetric P pf U obj m common = Ret y \<or>
      buildStringStateMetric P U obj m common = Ret y \<Longrightarrow>
      pm_desc y = cm_desc m \<and> length (pm_labels y) = length (d_labels (cm_desc m))" for y
    unfolding buildInfoMetric_def buildGaugeMetric_def buildStringStateMetric_def using const_metric_result [OF assms(3)] by blast
  consider "om_series res' = om_series res"
    | y where "buildInfoMetric P U obj m common = Ret y \<or> buildGaugeMetric P pf U obj m common = Ret y \<or>
        buildStringStateMetric P U obj m common = Ret y" "om_series res' = om_series res @ [y]"
    | ys where "buildMapStateMetrics P U obj m common = Ret ys \<or> buildMapGaugeMetrics P pf U obj m common = Ret ys \<or>
        buildConditionMetrics P U obj m common = Ret ys" "om_series res' = om_series res @ ys"
    using assms(1) by (auto simp: build_one_def Let_def bind_go_Ret_iff split: if_splits)
  then show ?thesis
  proof cases
    case 2
    with one [OF 2(1)] assms(2) show ?thesis by auto
  next
    case 3
    with many [OF 3(1)] assms(2) show ?thesis by auto
  qed (use assms(2) in simp)
qed

lemma build_loop_described:
  "build_loop P pf U obj common res ms = Ret res' \<Longrightarrow> x \<in> set (om_series res') \<Longrightarrow> \<forall>m \<in> set ms. usable P (cm_desc m) \<Longrightarrow>
     x \<in> set (om_series res) \<or> (\<exists>m \<in> set ms. pm_desc x = cm_desc m \<and> length (pm_labels x) = length (d_labels (cm_desc m)))"
proof (induction ms arbitrary: res)
  case (Cons m ms)
  then obtain r where r: "build_one P pf U obj common res m = Ret r" "build_loop P pf U obj common r ms = Ret res'"
    by (auto simp: bind_go_Ret_iff)
  from Cons.IH [OF r(2) Cons.prems(2)] build_one_described [OF r(1), of x] Cons.prems(3) show ?case by auto
qed simp

lemma built_described:
  assumes "built P pf U s obj = Some om" "x \<in> set (om_series om)" "\<forall>m \<in> set (ms_metrics s). usable P (cm_desc m)"
  shows "well_described s x"
proof -
  obtain r where "build_loop P pf U obj (extractCommonLabels s U obj) \<lparr>om_series = [], om_counts = []\<rparr> (ms_metrics s) = Ret r"
    "om = r"
    using assms(1) by (auto simp: built_def buildObjectMetrics_def bind_go_Ret_iff split: go.splits if_splits)
  from build_loop_described [OF this(1), of x] this(2) assms(2,3) obtain m where
    "m \<in> set (ms_metrics s)" "pm_desc x = cm_desc m" "length (pm_labels x) = length (d_labels (cm_desc m))" by auto
  then show ?thesis by (auto simp: well_described_def)
qed

lemma total_zero:
  assumes "store_wf P s0" "store_core P pf U s0 s L" "total (ms_objects s) (n, v) \<noteq> 0"
  shows "\<exists>m \<in> set (ms_metrics s0). mc_Name (cm_config m) = n"
proof -
  have "\<exists>k \<in> dom (ms_objects s). count_list (om_counts (the (ms_objects s k))) (n, v) \<noteq> 0"
    using assms(3) unfolding total_def by (meson sum.neutral)
  then obtain k om where om: "ms_objects s k = Some om" "count_list (om_counts om) (n, v) \<noteq> 0" by force
  then obtain ob where "built P pf U s0 ob = Some om"
    using assms(2) by (auto simp: store_core_def split: option.splits)
  then have "om_counts om = concat (map (contribution U ob) (ms_metrics s0))" by (rule build_ok(3) [OF assms(1)])
  moreover have "(n, v) \<in> set (om_counts om)" using om(2) count_notin by fastforce
  ultimately show ?thesis by (auto simp: contribution_def Let_def split: if_splits)
qed


lemmas store_eval = phase_store_def newMetricStore_def plain_prom_def phase_config_def phase_metric_def
  List.map_filter_simps compileMetric_def label_names_def labelOrDefault_def GetSortedKeys_def
  GetSortedValues_def makeNamespaceSet_def upsert_def plain_uns_def resourceKey_def buildObjectMetrics_def
  namespaceAllowed_def extractCommonLabels_def build_one_def ExtractFieldString_def addCount_def
  refreshCountMetric_def Let_def

definition phase_desc :: desc where
  "phase_desc = \<lparr>d_fqName = ''sealos_phase'', d_help = '''', d_labels = [''value'']\<rparr>"

definition phase_store_x :: metric_store where
  "phase_store_x = phase_store\<lparr>
     ms_objects := [''a/x'' \<mapsto> \<lparr>om_series = [], om_counts = [(''phase'', ''Pending'')]\<rparr>],
     ms_countValues := [''phase'' \<mapsto> [''Pending'' \<mapsto> 1]],
     ms_countMetrics := [''phase'' \<mapsto> [''Pending'' \<mapsto> count_metric phase_desc 1 ''Pending'']],
     ms_AddCount := 1\<rparr>"

lemma phase_store_x:
  "fold_go (store_step plain_prom (\<lambda>_. Fin 0) plain_uns) [Upserted (Some (''a'', ''x'', ''Pending''))] phase_store
     = Ret phase_store_x"
  by (simp add: store_eval phase_store_x_def count_metric_def phase_desc_def)


text \<open>Two metrics of one name share a descriptor: nothing in the configuration is checked for it, and
  when the later one has other labels, the first object that the earlier count metric counts
  makes the informer's handler panic.\<close>

theorem shared_name_panics:
  assumes "newMetricStore P (Some c) pre = Inr s0"
    and "crd_Metrics c = [a, b]" "mc_Name a = mc_Name b" "mc_Type a = ''count''"
    and "mc_Type b = ''string_state''" "crd_CommonLabels c \<noteq> []" "watched (crd_Namespaces c) (un_GetNamespace U ob)"
    and "ExtractFieldString U ob (mc_Path a) \<noteq> ''''" "\<forall>d. usable P d"
  shows "\<exists>msg. store_step P pf U (Upserted (Some ob)) s0 = Panic msg"
proof -
  let ?pre = "if pre = '''' then ''sealos'' else pre"
  let ?ks = "GetSortedKeys (crd_CommonLabels c)"
  obtain ma where ma: "compileMetric P ?pre ?ks a = Some ma" "cm_config ma = a" "length (d_labels (cm_desc ma)) = 1"
    using assms(4) by (simp add: compileMetric_def label_names_def)
  obtain mb where mb: "compileMetric P ?pre ?ks b = Some mb" "cm_config mb = b"
    "length (d_labels (cm_desc mb)) = length (crd_CommonLabels c) + 1"
    using assms(5) by (simp add: compileMetric_def label_names_def GetSortedKeys_def)
  have s0: "ms_metrics s0 = [ma, mb]" "ms_descriptors s0 (mc_Name a) = Some (cm_desc mb)"
    "ms_commonLabelPaths s0 = GetSortedValues (crd_CommonLabels c)" "ms_objects s0 = Map.empty"
    "ms_countValues s0 = Map.empty" "ms_countMetrics s0 = Map.empty"
    using assms(1,2,3) ma(1,2) mb(1,2) by (auto simp: newMetricStore_def Let_def List.map_filter_simps)
  have ns: "namespaceAllowed s0 (un_GetNamespace U ob)" using watched_allowed [OF assms(1)] assms(7) by simp
  let ?common = "extractCommonLabels s0 U ob"
  have len: "length ?common = length (crd_CommonLabels c)"
    by (simp add: extractCommonLabels_def s0(3) GetSortedValues_def GetSortedKeys_def)
  let ?v = "ExtractFieldString U ob (mc_Path a)"
  obtain y where y: "buildStringStateMetric P U ob mb ?common = Ret y"
    using assms(9) mb(3) len by (simp add: buildStringStateMetric_def const_metric_Ret)
  have b: "buildObjectMetrics P pf U s0 ob = Ret (Some \<lparr>om_series = [y], om_counts = [(mc_Name a, ?v)]\<rparr>)"
    using ns y assms(4,5,8) ma(2) mb(2) by (simp add: buildObjectMetrics_def s0(1) build_one_def Let_def)
  have panic: "\<exists>msg. const_metric P (cm_desc mb) x [?v] = Panic msg" for x
    using const_metric_Panic [of P "cm_desc mb" "[?v]" x] mb(3) assms(6,9) by simp
  then obtain msg where "const_metric P (cm_desc mb) (float_of_int 1) [?v] = Panic msg" by blast
  then show ?thesis
    using b s0(2,4-6) by (simp add: upsert_def Let_def addCount_def refreshCountMetric_def)
qed

definition twin_config :: crd_config where
  "twin_config = phase_config\<lparr>crd_CommonLabels := [(''ns'', ''metadata.namespace'')],
     crd_Metrics := [phase_metric, phase_metric\<lparr>mc_Type := ''string_state''\<rparr>]\<rparr>"

theorem shared_name_panics_witness:
  "\<exists>s0 msg. newMetricStore plain_prom (Some twin_config) '''' = Inr s0 \<and>
     store_step plain_prom (\<lambda>_. Fin 0) plain_uns (Upserted (Some (''a'', ''x'', ''Pending''))) s0 = Panic msg"
proof -
  obtain s0 where s0: "newMetricStore plain_prom (Some twin_config) '''' = Inr s0"
    by (simp add: newMetricStore_def Let_def)
  show ?thesis
    using s0 shared_name_panics [OF s0, of phase_metric "phase_metric\<lparr>mc_Type := ''string_state''\<rparr>" plain_uns
        "(''a'', ''x'', ''Pending'')" "\<lambda>_. Fin 0"]
    by (auto simp: twin_config_def phase_config_def phase_metric_def watched_def plain_uns_def
        ExtractFieldString_def plain_prom_usable)
qed

end
