(* ===== verification/CRD_Collector.thy ===== *)
theory CRD_Collector
  imports CRD_Store Base_Collector
begin

text \<open>
  \<open>pkg/collector/crds\<close>, the rest: the informer with its handlers, and the collector that
  creates, starts and stops one informer per configured resource. The shared informer of client-go
  is outside: what its calls return is the record \<open>client_go\<close>, and what it delivers is the
  predicate \<open>delivered\<close> over a cache.
\<close>

section \<open>The informer\<close>

record informer_config =
  ic_GVR :: string
  ic_ResyncPeriod :: int
  ic_Namespaces :: "string list"
  ic_TransformPaths :: "string list"

text \<open>\<open>inf_informer\<close> names the shared informer that \<open>Start\<close> created.\<close>

record informer =
  inf_config :: informer_config
  inf_informer :: "nat option"
  inf_stopCh :: "chan option"
  inf_started :: bool

record client_go =
  cg_SetTransform :: "string \<Rightarrow> err option"
  cg_AddEventHandler :: "string \<Rightarrow> err option"
  cg_HasSynced :: "nat \<Rightarrow> bool"

text \<open>The Boolean arguments tell which of the two interfaces are not nil.\<close>

definition NewInformer :: "bool \<Rightarrow> informer_config option \<Rightarrow> bool \<Rightarrow> informer res" where
  "NewInformer dynamicClient cfg resourceStore = (case cfg of
       None \<Rightarrow> Inl ''config cannot be nil''
     | Some c \<Rightarrow>
         if \<not> dynamicClient then Inl ''dynamic client cannot be nil''
         else if \<not> resourceStore then Inl ''resource store cannot be nil''
         else Inr \<lparr> inf_config = (if ic_ResyncPeriod c = 0 then c\<lparr>ic_ResyncPeriod := 600 * 10 ^ 9\<rparr> else c),
                inf_informer = None, inf_stopCh = None, inf_started = False \<rparr>)"

definition factoryNamespace :: "informer \<Rightarrow> string" where
  "factoryNamespace i = (case filter (\<lambda>n. n \<noteq> '''') (ic_Namespaces (inf_config i)) of
       [n] \<Rightarrow> n | _ \<Rightarrow> '''')"

definition registerEventHandlers :: "client_go \<Rightarrow> informer \<Rightarrow> err option" where
  "registerEventHandlers G i =
     map_option (\<lambda>e. ''failed to add event handler: '' @ e) (cg_AddEventHandler G (ic_GVR (inf_config i)))"

definition inf_Start :: "client_go \<Rightarrow> informer \<Rightarrow> base \<Rightarrow> err option \<times> base \<times> informer" where
  "inf_Start G i b =
     (if inf_started i then (Some ''informer already started'', b, i)
      else
        let n = rt_next b; i1 = i\<lparr>inf_informer := Some n\<rparr>; b1 = b\<lparr>rt_next := n + 1\<rparr>
        in case (if ic_TransformPaths (inf_config i) = [] then None
                 else cg_SetTransform G (ic_GVR (inf_config i))) of
             Some e \<Rightarrow> (Some (''failed to set informer transform: '' @ e), b1, i1)
           | None \<Rightarrow>
               (case registerEventHandlers G i1 of
                  Some e \<Rightarrow> (Some (''failed to register event handlers: '' @ e), b1, i1)
                | None \<Rightarrow> (None, b1\<lparr>rt_next := n + 2\<rparr>,
                    i1\<lparr>inf_stopCh := Some (n + 1), inf_started := True\<rparr>)))"

definition inf_Stop :: "informer \<Rightarrow> base \<Rightarrow> (err option \<times> base \<times> informer) go" where
  "inf_Stop i b =
     (if \<not> inf_started i then Ret (None, b, i)
      else case inf_stopCh i of
             None \<Rightarrow> Ret (None, b, i\<lparr>inf_started := False\<rparr>)
           | Some c \<Rightarrow> bind_go (close_chan c b) (\<lambda>b'.
               Ret (None, b', i\<lparr>inf_stopCh := None, inf_started := False\<rparr>)))"

definition inf_HasSynced :: "client_go \<Rightarrow> informer \<Rightarrow> bool" where
  "inf_HasSynced G i = (case inf_informer i of None \<Rightarrow> False | Some n \<Rightarrow> cg_HasSynced G n)"

section \<open>Event handlers\<close>

text \<open>What a handler is given: an object of the expected type, a tombstone (with the object, if it has
  the type), or something else.\<close>

datatype 'o event_obj = Unstr 'o | Tombstone "'o option" | OtherObj

datatype 'o notification =
    AddFunc "'o event_obj"
  | UpdateFunc "'o event_obj" "'o event_obj"
  | DeleteFunc "'o event_obj"

fun extractUnstructured :: "'o event_obj \<Rightarrow> 'o option" where
  "extractUnstructured (Unstr u) = Some u"
| "extractUnstructured (Tombstone x) = x"
| "extractUnstructured OtherObj = None"

definition handleAdd :: "prom \<Rightarrow> (string \<Rightarrow> float64) \<Rightarrow> 'o uns \<Rightarrow> 'o \<Rightarrow> metric_store \<Rightarrow> metric_store go" where
  "handleAdd P pf U obj s = upsert P pf U (Some obj) s"

definition handleUpdate :: "prom \<Rightarrow> (string \<Rightarrow> float64) \<Rightarrow> 'o uns \<Rightarrow> 'o \<Rightarrow> 'o \<Rightarrow> metric_store \<Rightarrow> metric_store go" where
  "handleUpdate P pf U oldObj newObj s =
     (if un_GetResourceVersion U oldObj = un_GetResourceVersion U newObj then Ret s
      else upsert P pf U (Some newObj) s)"

definition handleDelete :: "prom \<Rightarrow> 'o uns \<Rightarrow> 'o \<Rightarrow> metric_store \<Rightarrow> metric_store go" where
  "handleDelete P U obj s = store_Delete P U (Some obj) s"

definition dispatch :: "prom \<Rightarrow> (string \<Rightarrow> float64) \<Rightarrow> 'o uns \<Rightarrow> 'o notification \<Rightarrow> metric_store \<Rightarrow> metric_store go" where
  "dispatch P pf U n s = (case n of
       AddFunc x \<Rightarrow> (case extractUnstructured x of None \<Rightarrow> Ret s | Some u \<Rightarrow> handleAdd P pf U u s)
     | UpdateFunc x y \<Rightarrow> (case (extractUnstructured x, extractUnstructured y) of
           (Some old, Some new) \<Rightarrow> handleUpdate P pf U old new s
         | _ \<Rightarrow> Ret s)
     | DeleteFunc x \<Rightarrow> (case extractUnstructured x of None \<Rightarrow> Ret s | Some u \<Rightarrow> handleDelete P U u s))"

section \<open>The collector\<close>

record crd_collector =
  cr_config :: crd_config
  cr_metricPrefix :: string
  cr_descriptors :: "string \<Rightarrow> desc option"
  cr_store :: metric_store
  cr_informer :: informer

definition NewCrdCollector :: "crd_config option \<Rightarrow> metric_store option \<Rightarrow> informer option \<Rightarrow> string
    \<Rightarrow> crd_collector res" where
  "NewCrdCollector cfg st ifm metricPrefix = (case (cfg, st, ifm) of
       (None, _, _) \<Rightarrow> Inl ''crdConfig cannot be nil''
     | (_, None, _) \<Rightarrow> Inl ''metric store cannot be nil''
     | (_, _, None) \<Rightarrow> Inl ''informer cannot be nil''
     | (Some c, Some s, Some i) \<Rightarrow> Inr \<lparr> cr_config = c,
         cr_metricPrefix = (if metricPrefix = '''' then ''sealos'' else metricPrefix),
         cr_descriptors = ms_descriptors s, cr_store = s, cr_informer = i \<rparr>)"

definition cr_Collect :: "client_go \<Rightarrow> (metric_store \<Rightarrow> pmetric list) \<Rightarrow> crd_collector \<Rightarrow> pmetric list" where
  "cr_Collect G snapshot c = (if \<not> inf_HasSynced G (cr_informer c) then [] else snapshot (cr_store c))"

text \<open>\<open>collect\<close>; \<open>snapshot\<close> is \<open>snapshotMetrics\<close> with the orders of its loops.\<close>

definition crds_collect :: "client_go \<Rightarrow> (metric_store \<Rightarrow> pmetric list) \<Rightarrow> crd_collector list \<Rightarrow> pmetric list" where
  "crds_collect G snapshot cs = concat (map (cr_Collect G snapshot) cs)"

text \<open>One resource of the configuration; \<open>gvr\<close> is the string of its group, version and resource.\<close>

definition new_crd :: "prom \<Rightarrow> bool \<Rightarrow> nat \<Rightarrow> crd_config \<times> string \<Rightarrow> crd_collector res" where
  "new_crd P client i cg = (case cg of (c, gvr) \<Rightarrow>
     if crd_Name c = '''' then Inl (''CRD config '' @ Itoa (int i) @ '': name is required'')
     else if crd_Resource c = '''' then Inl (''CRD config '' @ crd_Name c @ '': gvr.resource is required'')
     else case newMetricStore P (Some c) '''' of
       Inl e \<Rightarrow> Inl (''failed to initialize metric store for CRD '' @ crd_Name c @ '': '' @ e)
     | Inr st \<Rightarrow>
         (case NewInformer client (Some \<lparr>ic_GVR = gvr, ic_ResyncPeriod = crd_ResyncPeriod c,
                 ic_Namespaces = crd_Namespaces c, ic_TransformPaths = RequiredPaths st\<rparr>) True of
            Inl e \<Rightarrow> Inl (''failed to initialize i for CRD '' @ crd_Name c @ '': '' @ e)
          | Inr ifm \<Rightarrow> NewCrdCollector (Some c) (Some st) (Some ifm) ''''))"

fun new_crds :: "prom \<Rightarrow> bool \<Rightarrow> nat \<Rightarrow> (crd_config \<times> string) list \<Rightarrow> crd_collector list res" where
  "new_crds P client i [] = Inr []"
| "new_crds P client i (c # cs) = (case new_crd P client i c of
     Inl e \<Rightarrow> Inl e
   | Inr cr \<Rightarrow> (case new_crds P client (i + 1) cs of Inl e \<Rightarrow> Inl e | Inr crs \<Rightarrow> Inr (cr # crs)))"

text \<open>\<open>initMetrics\<close>; \<open>ord\<close> lists the descriptors in the order of the loop.\<close>

fun register_descs :: "desc list \<Rightarrow> base \<Rightarrow> base go" where
  "register_descs [] b = Ret b"
| "register_descs (d # ds) b = bind_go (MustRegisterDesc b (Some (d_fqName d))) (register_descs ds)"

fun initMetrics :: "((string \<Rightarrow> desc option) \<Rightarrow> desc list) \<Rightarrow> crd_collector list \<Rightarrow> base \<Rightarrow> base go" where
  "initMetrics ord [] b = Ret b"
| "initMetrics ord (c # cs) b = bind_go (register_descs (ord (cr_descriptors c)) b) (initMetrics ord cs)"

text \<open>\<open>NewCollector\<close>: \<open>cfgs\<close> are the loaded resources; the result \<open>Inr None\<close> is the nil
  collector without an error.\<close>

definition crds_NewCollector :: "prom \<Rightarrow> ((string \<Rightarrow> desc option) \<Rightarrow> desc list) \<Rightarrow> 'c res
    \<Rightarrow> ('c \<Rightarrow> err option) \<Rightarrow> (crd_config \<times> string) list \<Rightarrow> (base \<times> crd_collector list) option res go" where
  "crds_NewCollector P ord restConfig NewForConfig cfgs =
     (if cfgs = [] then Ret (Inr None)
      else case restConfig of
        Inl e \<Rightarrow> Ret (Inl (''kubernetes rest config is required but not available: '' @ e))
      | Inr rc \<Rightarrow>
          (case NewForConfig rc of
             Some e \<Rightarrow> Ret (Inl (''failed to create dynamic client: failed to create dynamic client: '' @ e))
           | None \<Rightarrow>
               (case new_crds P True 0 cfgs of
                  Inl e \<Rightarrow> Ret (Inl e)
                | Inr crs \<Rightarrow> bind_go (initMetrics ord crs (NewBaseCollector ''crds'' [WithWaitReadyOnCollect True]))
                    (\<lambda>b. Ret (Inr (Some (b, crs)))))))"

subsection \<open>Starting and stopping\<close>

text \<open>\<open>stopStartedInformers\<close>: an error of one \<open>Stop\<close> is logged and the loop goes on.\<close>

fun stop_started :: "informer list \<Rightarrow> base \<Rightarrow> (base \<times> informer list) go" where
  "stop_started [] b = Ret (b, [])"
| "stop_started (i # is) b = bind_go (inf_Stop i b) (\<lambda>(_, b1, i1).
     bind_go (stop_started is b1) (\<lambda>(b2, is1). Ret (b2, i1 # is1)))"

fun start_informers :: "client_go \<Rightarrow> informer list \<Rightarrow> informer list \<Rightarrow> base
    \<Rightarrow> (err option \<times> base \<times> informer list) go" where
  "start_informers G started [] b = Ret (None, b, started)"
| "start_informers G started (i # is) b = (case inf_Start G i b of
       (None, b1, i1) \<Rightarrow> start_informers G (started @ [i1]) is b1
     | (Some e, b1, i1) \<Rightarrow> bind_go (stop_started started b1) (\<lambda>(b2, stopped).
         Ret (Some e, b2, stopped @ i1 # is)))"

text \<open>\<open>StartFunc\<close>; \<open>synced\<close> is the result of \<open>WaitForCacheSync\<close>.\<close>

definition crds_StartFunc :: "client_go \<Rightarrow> bool \<Rightarrow> informer list \<Rightarrow> base \<Rightarrow> (err option \<times> base \<times> informer list) go" where
  "crds_StartFunc G synced is b = bind_go (start_informers G [] is b) (\<lambda>(e, b1, is1).
     case e of
       Some m \<Rightarrow> Ret (Some m, b1, is1)
     | None \<Rightarrow>
         if \<not> synced then bind_go (stop_started is1 b1) (\<lambda>(b2, is2).
           Ret (Some ''failed to sync CRD informer caches'', b2, is2))
         else bind_go (SetReady b1) (\<lambda>b2. Ret (None, b2, is1)))"

fun crds_StopFunc :: "informer list \<Rightarrow> base \<Rightarrow> (err option \<times> base \<times> informer list) go" where
  "crds_StopFunc [] b = Ret (None, b, [])"
| "crds_StopFunc (i # is) b = bind_go (inf_Stop i b) (\<lambda>(e, b1, i1). case e of
     Some m \<Rightarrow> Ret (Some m, b1, i1 # is)
   | None \<Rightarrow> bind_go (crds_StopFunc is b1) (\<lambda>(e', b2, is2). Ret (e', b2, i1 # is2)))"

section \<open>Starting is all or nothing\<close>

text \<open>A started informer has an open stop channel of its own.\<close>

fun stop_chs :: "informer list \<Rightarrow> chan list" where
  "stop_chs [] = []"
| "stop_chs (i # is) = (case inf_stopCh i of None \<Rightarrow> [] | Some c \<Rightarrow> [c]) @ stop_chs is"

definition infs_ok :: "informer list \<Rightarrow> base \<Rightarrow> bool" where
  "infs_ok is b \<longleftrightarrow> rt_closed b \<subseteq> {..<rt_next b} \<and>
     (\<forall>i \<in> set is. inf_started i \<longleftrightarrow> inf_stopCh i \<noteq> None) \<and> distinct (stop_chs is) \<and>
     (\<forall>c \<in> set (stop_chs is). c < rt_next b \<and> c \<notin> rt_closed b)"

text \<open>Only channels are made and closed.\<close>

definition only_rt :: "base \<Rightarrow> base \<Rightarrow> bool" where
  "only_rt b b' \<longleftrightarrow> b' = b\<lparr>rt_next := rt_next b', rt_closed := rt_closed b'\<rparr> \<and> rt_next b \<le> rt_next b'"

lemma only_rt_trans [trans]: "only_rt a b \<Longrightarrow> only_rt b c \<Longrightarrow> only_rt a c"
  by (cases a; cases b; cases c) (simp add: only_rt_def)

lemma only_rt_refl [simp]: "only_rt b b"
  by (simp add: only_rt_def)

lemma only_rt_fields: "only_rt b b' \<Longrightarrow> bc_ready b' = bc_ready b \<and> bc_readyCh b' = bc_readyCh b"
  by (cases b; cases b') (simp add: only_rt_def)

lemma stop_chs_append [simp]: "stop_chs (xs @ ys) = stop_chs xs @ stop_chs ys"
  by (induction xs) simp_all

lemma inf_Start_ok:
  assumes "infs_ok (pre @ i # post) b" "\<not> inf_started i" "inf_Start G i b = (e, b', i')"
  shows "infs_ok (pre @ i' # post) b'" "inf_started i' = (e = None)" "only_rt b b'"
    "rt_closed b' = rt_closed b" "\<forall>c \<in> set (stop_chs [i']). rt_next b \<le> c"
proof -
  have none: "inf_stopCh i = None" using assms(1,2) by (auto simp: infs_ok_def)
  have lt: "c < rt_next b \<and> c \<notin> rt_closed b" if "c \<in> set (stop_chs pre) \<or> c \<in> set (stop_chs post)" for c
    using assms(1) that by (auto simp: infs_ok_def)
  have cases: "e \<noteq> None \<and> b' = b\<lparr>rt_next := rt_next b + 1\<rparr> \<and> i' = i\<lparr>inf_informer := Some (rt_next b)\<rparr> \<or>
    e = None \<and> b' = b\<lparr>rt_next := rt_next b + 2\<rparr> \<and>
      i' = i\<lparr>inf_informer := Some (rt_next b), inf_stopCh := Some (rt_next b + 1), inf_started := True\<rparr>"
    using assms(2,3) by (auto simp: inf_Start_def Let_def split: option.splits if_splits)
  have closed: "rt_closed b \<subseteq> {..<rt_next b}" using assms(1) by (simp add: infs_ok_def)
  have old: "distinct (stop_chs pre)" "distinct (stop_chs post)" "set (stop_chs pre) \<inter> set (stop_chs post) = {}"
    "\<forall>j \<in> set pre \<union> set post. inf_started j \<longleftrightarrow> inf_stopCh j \<noteq> None"
    using assms(1) none by (auto simp: infs_ok_def)
  have "Suc (rt_next b) \<noteq> c" if "c \<in> set (stop_chs pre) \<union> set (stop_chs post) \<union> rt_closed b" for c
    using that lt [of c] closed by auto
  then have fresh: "Suc (rt_next b) \<notin> rt_closed b" "Suc (rt_next b) \<notin> set (stop_chs pre)"
    "Suc (rt_next b) \<notin> set (stop_chs post)" by blast+
  have grow: "rt_next b < rt_next b'" "rt_closed b' = rt_closed b" using cases by auto
  have chs: "\<forall>c \<in> set (stop_chs pre) \<union> set (stop_chs post). c < rt_next b' \<and> c \<notin> rt_closed b'"
    using lt grow by (metis Un_iff order.strict_trans)
  have sub: "rt_closed b' \<subseteq> {..<rt_next b'}" using closed grow by (auto intro: less_trans)
  show "infs_ok (pre @ i' # post) b'"
    using cases
  proof (elim disjE conjE, goal_cases)
    case 1
    then show ?thesis using old chs sub none assms(2) unfolding infs_ok_def by (simp add: ball_Un)
  next
    case 2
    then show ?thesis using old chs sub fresh unfolding infs_ok_def by (simp add: ball_Un)
  qed
  show "inf_started i' = (e = None)" "only_rt b b'" "rt_closed b' = rt_closed b"
    "\<forall>c \<in> set (stop_chs [i']). rt_next b \<le> c"
    using cases assms(2) none by (auto simp: only_rt_def)
qed

lemma inf_Stop_ok:
  assumes "infs_ok (pre @ i # post) b"
  shows "\<exists>b' i'. inf_Stop i b = Ret (None, b', i') \<and> infs_ok (pre @ i' # post) b' \<and> \<not> inf_started i' \<and>
    only_rt b b' \<and> rt_closed b' = rt_closed b \<union> set (stop_chs [i])"
proof (cases "inf_started i")
  case False
  then have "inf_stopCh i = None" using assms by (auto simp: infs_ok_def)
  with False assms show ?thesis by (simp add: inf_Stop_def)
next
  case True
  then obtain c where c: "inf_stopCh i = Some c" "c \<notin> rt_closed b" using assms by (auto simp: infs_ok_def)
  let ?b = "b\<lparr>rt_closed := insert c (rt_closed b)\<rparr>"
  let ?i = "i\<lparr>inf_stopCh := None, inf_started := False\<rparr>"
  have "inf_Stop i b = Ret (None, ?b, ?i)" using True c by (simp add: inf_Stop_def close_chan_def)
  moreover have "infs_ok (pre @ ?i # post) ?b"
    using assms c(1) unfolding infs_ok_def by (simp add: ball_Un) (metis Un_iff disjoint_iff)
  ultimately show ?thesis using c(1) by (intro exI [of _ ?b] exI [of _ ?i]) (simp add: only_rt_def)
qed

lemma stop_started_ok:
  assumes "infs_ok (pre @ is @ post) b"
  shows "\<exists>b' is'. stop_started is b = Ret (b', is') \<and> infs_ok (pre @ is' @ post) b' \<and>
    (\<forall>i \<in> set is'. \<not> inf_started i) \<and> length is' = length is \<and> only_rt b b' \<and>
    rt_closed b' = rt_closed b \<union> set (stop_chs is)"
  using assms
proof (induction "is" arbitrary: pre b)
  case (Cons i "is")
  obtain b1 i1 where 1: "inf_Stop i b = Ret (None, b1, i1)" "infs_ok (pre @ i1 # is @ post) b1"
    "\<not> inf_started i1" "only_rt b b1" "rt_closed b1 = rt_closed b \<union> set (stop_chs [i])"
    using inf_Stop_ok [of pre i "is @ post" b] Cons.prems by auto
  obtain b2 is2 where 2: "stop_started is b1 = Ret (b2, is2)" "infs_ok ((pre @ [i1]) @ is2 @ post) b2"
    "\<forall>i \<in> set is2. \<not> inf_started i" "length is2 = length is" "only_rt b1 b2"
    "rt_closed b2 = rt_closed b1 \<union> set (stop_chs is)"
    using Cons.IH [of "pre @ [i1]" b1] 1(2) by auto
  show ?case
    using 1 2 only_rt_trans [OF 1(4) 2(5)] by (intro exI [of _ b2] exI [of _ "i1 # is2"]) auto
qed auto

lemma StopFunc_is_stop_started:
  assumes "infs_ok (pre @ is) b"
  shows "crds_StopFunc is b = bind_go (stop_started is b) (\<lambda>(b', is'). Ret (None, b', is'))"
  using assms
proof (induction "is" arbitrary: pre b)
  case (Cons i "is")
  obtain b1 i1 where 1: "inf_Stop i b = Ret (None, b1, i1)" "infs_ok (pre @ i1 # is) b1"
    using inf_Stop_ok [of pre i "is" b] Cons.prems by auto
  then show ?case using Cons.IH [of "pre @ [i1]" b1] stop_started_ok [of "pre @ [i1]" "is" "[]" b1] by auto
qed simp

lemma start_informers_ok:
  assumes "infs_ok (done @ is) b" "\<forall>i \<in> set is. \<not> inf_started i" "\<forall>i \<in> set done. inf_started i"
  shows "\<exists>e b' is'. start_informers G done is b = Ret (e, b', is') \<and> infs_ok is' b' \<and>
    length is' = length (done @ is) \<and>
    (\<forall>i \<in> set is'. inf_started i = (e = None)) \<and> only_rt b b' \<and> (e = None \<longrightarrow> rt_closed b' = rt_closed b) \<and>
    (e = None \<longrightarrow> (\<forall>c \<in> set (stop_chs is'). c \<in> set (stop_chs (done @ is)) \<or> rt_next b \<le> c))"
  using assms
proof (induction "is" arbitrary: "done" b)
  case (Cons i "is")
  obtain e b1 i1 where s: "inf_Start G i b = (e, b1, i1)" by (metis prod_cases3)
  have i: "infs_ok (done @ i # is) b" "\<not> inf_started i" using Cons.prems by simp_all
  note 1 = inf_Start_ok [OF i s]
  show ?case
  proof (cases e)
    case None
    from Cons.IH [of "done @ [i1]" b1] 1 None Cons.prems
    obtain e' b' is' where 2: "start_informers G (done @ [i1]) is b1 = Ret (e', b', is')" "infs_ok is' b'"
      "length is' = length (done @ i # is)"
      "\<forall>i \<in> set is'. inf_started i = (e' = None)" "only_rt b1 b'" "e' = None \<longrightarrow> rt_closed b' = rt_closed b1"
      "e' = None \<longrightarrow> (\<forall>c \<in> set (stop_chs is'). c \<in> set (stop_chs ((done @ [i1]) @ is)) \<or> rt_next b1 \<le> c)"
      by auto
    have "rt_next b \<le> rt_next b1" using 1(3) by (simp add: only_rt_def)
    then have "e' = None \<longrightarrow> (\<forall>c \<in> set (stop_chs is'). c \<in> set (stop_chs (done @ i # is)) \<or> rt_next b \<le> c)"
      using 2(7) 1(5) by fastforce
    then show ?thesis using s None 1(4) 2 only_rt_trans [OF 1(3) 2(5)] by auto
  next
    case (Some m)
    obtain b2 st where 2: "stop_started done b1 = Ret (b2, st)" "infs_ok (st @ i1 # is) b2"
      "\<forall>i \<in> set st. \<not> inf_started i" "length st = length done" "only_rt b1 b2"
      using stop_started_ok [of "[]" "done" "i1 # is" b1] 1(1) by auto
    then show ?thesis using s Some 1(2) 2 only_rt_trans [OF 1(3) 2(5)] Cons.prems(2)
      by (intro exI [of _ e] exI [of _ b2] exI [of _ "st @ i1 # is"]) auto
  qed
qed auto

text \<open>C19. Starting the collector is all or nothing: it never panics; on success every informer runs and
  the collector is ready, and on a failed start of one of them or a failed cache sync none runs
  and it is not ready. A later stop returns without an error or panic and leaves none running.\<close>

theorem crds_start_all_or_nothing:
  assumes "infs_ok is b" "\<forall>i \<in> set is. \<not> inf_started i"
    and "\<not> bc_ready b" "bc_readyCh b = Some rc" "rc < rt_next b" "rc \<notin> rt_closed b"
  shows "\<exists>e b' is'. crds_StartFunc G synced is b = Ret (e, b', is') \<and> length is' = length is \<and>
    (\<forall>i \<in> set is'. inf_started i = (e = None)) \<and> bc_ready b' = (e = None) \<and> (e = None \<longrightarrow> synced) \<and>
    (\<exists>b'' is''. crds_StopFunc is' b' = Ret (None, b'', is'') \<and> (\<forall>i \<in> set is''. \<not> inf_started i) \<and>
       length is'' = length is)"
proof -
  obtain e b1 is1 where 1: "start_informers G [] is b = Ret (e, b1, is1)" "infs_ok is1 b1"
    "length is1 = length is" "\<forall>i \<in> set is1. inf_started i = (e = None)" "only_rt b b1"
    "e = None \<longrightarrow> rt_closed b1 = rt_closed b" "e = None \<longrightarrow> (\<forall>c \<in> set (stop_chs is1). c \<in> set (stop_chs is) \<or> rt_next b \<le> c)"
    using start_informers_ok [of "[]" "is" b G] assms(1,2) by auto
  have none: "stop_chs is = []" using assms(1,2)
  proof (induction "is")
    case (Cons i "is")
    then have "inf_stopCh i = None" "infs_ok is b" by (auto simp: infs_ok_def)
    with Cons show ?case by simp
  qed simp
  have stop: "\<exists>b'' is''. crds_StopFunc is' b' = Ret (None, b'', is'') \<and> (\<forall>i \<in> set is''. \<not> inf_started i) \<and>
       length is'' = length is" if ok: "infs_ok is' b'" and len: "length is' = length is" for is' b'
  proof -
    obtain b'' is'' where "stop_started is' b' = Ret (b'', is'')" "\<forall>i \<in> set is''. \<not> inf_started i" "length is'' = length is'"
      using stop_started_ok [of "[]" is' "[]" b'] ok by auto
    then show ?thesis using StopFunc_is_stop_started [of "[]" is' b'] ok len by simp
  qed
  have ready: "bc_ready b1 = bc_ready b" "bc_readyCh b1 = bc_readyCh b"
    using only_rt_fields [OF 1(5)] by simp_all
  show ?thesis
  proof (cases "e = None \<and> \<not> synced")
    case True
    obtain b2 is2 where 2: "stop_started is1 b1 = Ret (b2, is2)" "infs_ok is2 b2"
      "\<forall>i \<in> set is2. \<not> inf_started i" "length is2 = length is1" "only_rt b1 b2"
      using stop_started_ok [of "[]" is1 "[]" b1] 1(2) by auto
    have "\<not> bc_ready b2" using only_rt_fields [OF 2(5)] ready assms(3) by simp
    with 1 2 True show ?thesis by (simp add: crds_StartFunc_def stop)
  next
    case False
    show ?thesis
    proof (cases e)
      case None
      have rc: "rc \<notin> rt_closed b1" "rc \<notin> set (stop_chs is1)" using 1(6,7) None none assms(5,6) by auto
      let ?b2 = "b1\<lparr>bc_ready := True, rt_closed := insert rc (rt_closed b1)\<rparr>"
      have "rc < rt_next b1" using 1(5) assms(5) by (simp add: only_rt_def)
      then have "infs_ok is1 ?b2" using 1(2) rc(2) by (auto simp: infs_ok_def)
      moreover have "SetReady b1 = Ret ?b2" using ready assms(3,4) rc(1) by (simp add: SetReady_def close_chan_def)
      ultimately show ?thesis using 1 None False by (simp add: crds_StartFunc_def stop)
    next
      case (Some m)
      then show ?thesis using 1 ready assms(3) by (simp add: crds_StartFunc_def stop)
    qed
  qed
qed

definition crd_informer :: "string \<Rightarrow> informer" where
  "crd_informer g = \<lparr>inf_config = \<lparr>ic_GVR = g, ic_ResyncPeriod = 600 * 10 ^ 9, ic_Namespaces = [], ic_TransformPaths = [''status'']\<rparr>,
     inf_informer = None, inf_stopCh = None, inf_started = False\<rparr>"

definition crd_client :: client_go where
  "crd_client = \<lparr>cg_SetTransform = (\<lambda>_. None),
     cg_AddEventHandler = (\<lambda>g. if g = ''bad'' then Some ''informer stopped'' else None), cg_HasSynced = (\<lambda>_. True)\<rparr>"

definition crd_base :: base where
  "crd_base = (case start_locked (NewBaseCollector ''crds'' [WithWaitReadyOnCollect True]) [] of Inr b \<Rightarrow> b)"

theorem crds_start_all_or_nothing_witness:
  "\<exists>e b' is'. crds_StartFunc crd_client True [crd_informer ''a'', crd_informer ''b''] crd_base = Ret (e, b', is') \<and>
     bc_ready b' = (e = None)"
proof -
  have "infs_ok [crd_informer ''a'', crd_informer ''b''] crd_base" "\<not> bc_ready crd_base"
    "bc_readyCh crd_base = Some 1" "1 < rt_next crd_base" "1 \<notin> rt_closed crd_base"
    by (simp_all add: infs_ok_def crd_informer_def crd_base_def start_locked_def NewBaseCollector_def Let_def)
  from crds_start_all_or_nothing [OF this(1) _ this(2-5), of crd_client True] show ?thesis
    by (auto simp: crd_informer_def)
qed

section \<open>The store mirrors the informer's cache\<close>

text \<open>
  What client-go documents of the notifications of one shared informer: they are the changes of its
  cache, an addition has a new key, an update carries the cached object and its replacement, an
  object has not changed when its resource version has not, and a deletion carries the last object
  known of the key, in a tombstone if the deletion itself was missed.
\<close>

fun cache_step :: "'o uns \<Rightarrow> 'o notification \<Rightarrow> (string \<Rightarrow> 'o option) \<Rightarrow> (string \<Rightarrow> 'o option)" where
  "cache_step U (AddFunc (Unstr n)) C = C(resourceKey U n \<mapsto> n)"
| "cache_step U (UpdateFunc (Unstr old) (Unstr n)) C = C(resourceKey U n \<mapsto> n)"
| "cache_step U (DeleteFunc (Unstr old)) C = C(resourceKey U old := None)"
| "cache_step U (DeleteFunc (Tombstone (Some old))) C = C(resourceKey U old := None)"
| "cache_step U _ C = C"

fun may_deliver :: "'o uns \<Rightarrow> 'o notification \<Rightarrow> (string \<Rightarrow> 'o option) \<Rightarrow> bool" where
  "may_deliver U (AddFunc (Unstr n)) C \<longleftrightarrow> C (resourceKey U n) = None"
| "may_deliver U (UpdateFunc (Unstr old) (Unstr n)) C \<longleftrightarrow> C (resourceKey U n) = Some old \<and>
     (un_GetResourceVersion U old = un_GetResourceVersion U n \<longrightarrow> old = n)"
| "may_deliver U (DeleteFunc (Unstr old)) C \<longleftrightarrow> C (resourceKey U old) \<noteq> None"
| "may_deliver U (DeleteFunc (Tombstone (Some old))) C \<longleftrightarrow> C (resourceKey U old) \<noteq> None"
| "may_deliver U _ C \<longleftrightarrow> False"

fun delivered :: "'o uns \<Rightarrow> 'o notification list \<Rightarrow> (string \<Rightarrow> 'o option) \<Rightarrow> bool" where
  "delivered U [] C \<longleftrightarrow> True"
| "delivered U (n # ns) C \<longleftrightarrow> may_deliver U n C \<and> delivered U ns (cache_step U n C)"

definition event_of :: "'o uns \<Rightarrow> 'o notification \<Rightarrow> 'o store_event" where
  "event_of U n = (case n of
       AddFunc x \<Rightarrow> Upserted (extractUnstructured x)
     | UpdateFunc x y \<Rightarrow> (case (extractUnstructured x, extractUnstructured y) of
           (Some old, Some new) \<Rightarrow>
             if un_GetResourceVersion U old = un_GetResourceVersion U new then Upserted None else Upserted (Some new)
         | _ \<Rightarrow> Upserted None)
     | DeleteFunc x \<Rightarrow> Deleted (extractUnstructured x))"

lemma dispatch_event: "dispatch P pf U n s = store_step P pf U (event_of U n) s"
  by (auto simp: dispatch_def event_of_def handleAdd_def handleUpdate_def handleDelete_def upsert_def
      store_Delete_def split: notification.split option.split)

lemma dispatch_events: "fold_go (dispatch P pf U) ns s = fold_go (store_step P pf U) (map (event_of U) ns) s"
proof (induction ns arbitrary: s)
  case (Cons n ns)
  then show ?case by (cases "store_step P pf U (event_of U n) s") (simp_all add: dispatch_event)
qed simp

definition restrict_watched :: "'o uns \<Rightarrow> string list \<Rightarrow> (string \<Rightarrow> 'o option) \<Rightarrow> (string \<Rightarrow> 'o option)" where
  "restrict_watched U nss C k = (case C k of None \<Rightarrow> None
     | Some ob \<Rightarrow> if watched nss (un_GetNamespace U ob) then Some ob else None)"

lemma live_step_cache:
  "may_deliver U n C \<Longrightarrow>
     live_step U nss (event_of U n) (restrict_watched U nss C) = restrict_watched U nss (cache_step U n C)"
  by (cases "(U, n, C)" rule: may_deliver.cases)
    (auto simp: event_of_def restrict_watched_def fun_eq_iff)

lemma live_run_cache:
  "delivered U ns C \<Longrightarrow> fold (live_step U nss) (map (event_of U) ns) (restrict_watched U nss C) =
     restrict_watched U nss (fold (cache_step U) ns C)"
  by (induction ns arbitrary: C) (simp_all add: live_step_cache)

text \<open>C7. After any notifications of one informer run the store holds the metrics of exactly the cached
  objects of the watched namespaces: skipping updates of the same resource version loses
  nothing, and tombstones count as deletions.\<close>

theorem store_mirrors_cache:
  assumes "newMetricStore P (Some c) pre = Inr s0" "distinct (map mc_Name (crd_Metrics c))"
    and "\<forall>m \<in> set (ms_metrics s0). usable P (cm_desc m)"
    and "delivered U ns Map.empty"
  shows "\<exists>s. fold_go (dispatch P pf U) ns s0 = Ret s \<and>
    (\<forall>k. ms_objects s k = (case fold (cache_step U) ns Map.empty k of None \<Rightarrow> None
       | Some ob \<Rightarrow> if watched (crd_Namespaces c) (un_GetNamespace U ob) then built P pf U s0 ob else None))"
proof -
  have wf: "store_wf P s0" using newMetricStore_wf [OF assms(1-3)] .
  have e: "restrict_watched U (crd_Namespaces c) Map.empty = Map.empty" by (simp add: restrict_watched_def fun_eq_iff)
  obtain s where s: "fold_go (store_step P pf U) (map (event_of U) ns) s0 = Ret s"
    "store_core P pf U s0 s (restrict_watched U (crd_Namespaces c) (fold (cache_step U) ns Map.empty))"
    using store_run_rel [OF wf newMetricStore_rel [OF assms(1)] watched_allowed [OF assms(1)], of pf U "map (event_of U) ns"]
      live_run_cache [OF assms(4), of "crd_Namespaces c"] unfolding e store_rel_def by auto
  then have "ms_objects s k = (case fold (cache_step U) ns Map.empty k of None \<Rightarrow> None
       | Some ob \<Rightarrow> if watched (crd_Namespaces c) (un_GetNamespace U ob) then built P pf U s0 ob else None)" for k
    by (simp add: store_core_def restrict_watched_def split: option.splits)
  with s(1) show ?thesis by (simp add: dispatch_events)
qed

definition phase_changes :: "(string \<times> string \<times> string) notification list" where
  "phase_changes = [AddFunc (Unstr (''a'', ''x'', ''Pending'')), AddFunc (Unstr (''b'', ''y'', ''Running'')),
     UpdateFunc (Unstr (''a'', ''x'', ''Pending'')) (Unstr (''a'', ''x'', ''Pending'')),
     DeleteFunc (Tombstone (Some (''b'', ''y'', ''Running'')))]"

theorem store_mirrors_cache_witness:
  "\<exists>s. fold_go (dispatch plain_prom (\<lambda>_. Fin 0) plain_uns) phase_changes phase_store = Ret s \<and>
     ms_objects s ''b/y'' = None"
proof -
  have "delivered plain_uns phase_changes Map.empty"
    by (simp add: phase_changes_def plain_uns_def resourceKey_def)
  moreover have "fold (cache_step plain_uns) phase_changes Map.empty ''b/y'' = None"
    by (simp add: phase_changes_def plain_uns_def resourceKey_def)
  ultimately show ?thesis
    using store_mirrors_cache [OF phase_store, of plain_uns phase_changes "\<lambda>_. Fin 0"]
    by (force simp: phase_config_def plain_prom_usable)
qed

section \<open>A second run\<close>

text \<open>The keys a notification is about.\<close>

fun note_key :: "'o uns \<Rightarrow> 'o notification \<Rightarrow> string option" where
  "note_key U (AddFunc x) = map_option (resourceKey U) (extractUnstructured x)"
| "note_key U (UpdateFunc x y) = map_option (resourceKey U) (extractUnstructured y)"
| "note_key U (DeleteFunc x) = map_option (resourceKey U) (extractUnstructured x)"

lemma live_step_other:
  "note_key U n \<noteq> Some k \<Longrightarrow> live_step U nss (event_of U n) L k = L k"
  proof (cases n)
  case (AddFunc x)
  assume "note_key U n \<noteq> Some k"
  with AddFunc show ?thesis by (cases "extractUnstructured x") (auto simp: event_of_def)
next
  case (DeleteFunc x)
  assume "note_key U n \<noteq> Some k"
  with DeleteFunc show ?thesis by (cases "extractUnstructured x") (auto simp: event_of_def)
qed (auto simp: event_of_def split: option.split)

lemma live_run_other:
  "\<forall>n \<in> set ns. note_key U n \<noteq> Some k \<Longrightarrow> fold (live_step U nss) (map (event_of U) ns) L k = L k"
  by (induction ns arbitrary: L) (simp_all add: live_step_other)

text \<open>The store outlives the informer: when the collector is stopped and started again, the new
  informer begins with an empty cache and never mentions an object that was deleted in between,
  whose metrics the store keeps.\<close>

theorem restart_keeps_deleted_objects:
  assumes "newMetricStore P (Some c) pre = Inr s0" "distinct (map mc_Name (crd_Metrics c))"
    and "\<forall>m \<in> set (ms_metrics s0). usable P (cm_desc m)"
    and "delivered U ns Map.empty" "fold (cache_step U) ns Map.empty k = Some ob"
    and "watched (crd_Namespaces c) (un_GetNamespace U ob)"
    and "delivered U ns' Map.empty" "\<forall>n \<in> set ns'. note_key U n \<noteq> Some k"
  shows "fold (cache_step U) ns' Map.empty k = None \<and>
    (\<exists>s. fold_go (dispatch P pf U) (ns @ ns') s0 = Ret s \<and> ms_objects s k = built P pf U s0 ob \<and>
       built P pf U s0 ob \<noteq> None)"
proof -
  have other: "note_key U n \<noteq> Some k \<Longrightarrow> may_deliver U n C \<Longrightarrow> cache_step U n C k = C k" for n C
    by (cases "(U, n, C)" rule: may_deliver.cases) auto
  have "fold (cache_step U) ns' C k = C k" if "delivered U ns' C" for C
    using that assms(8)
  proof (induction ns' arbitrary: C)
    case (Cons n ns')
    then show ?case using other [of n C] by simp
  qed simp
  then have gone: "fold (cache_step U) ns' Map.empty k = None" using assms(7) by simp
  have wf: "store_wf P s0" using newMetricStore_wf [OF assms(1-3)] .
  have e: "restrict_watched U (crd_Namespaces c) Map.empty = Map.empty" by (simp add: restrict_watched_def fun_eq_iff)
  let ?L = "fold (live_step U (crd_Namespaces c)) (map (event_of U) (ns @ ns')) Map.empty"
  have "?L k = fold (live_step U (crd_Namespaces c)) (map (event_of U) ns) Map.empty k"
    using live_run_other [OF assms(8)] by simp
  also have "\<dots> = restrict_watched U (crd_Namespaces c) (fold (cache_step U) ns Map.empty) k"
    using live_run_cache [OF assms(4), of "crd_Namespaces c"] unfolding e by simp
  also have "\<dots> = Some ob" using assms(5,6) by (simp add: restrict_watched_def)
  finally have L: "?L k = Some ob" .
  obtain s where s: "fold_go (store_step P pf U) (map (event_of U) (ns @ ns')) s0 = Ret s" "store_core P pf U s0 s ?L"
    using store_run_rel [OF wf newMetricStore_rel [OF assms(1)] watched_allowed [OF assms(1)], of pf U "map (event_of U) (ns @ ns')"]
    unfolding store_rel_def by auto
  then have kept: "ms_objects s k = built P pf U s0 ob" using L by (simp add: store_core_def)
  have "built P pf U s0 ob \<noteq> None"
    using build_ok(2) [OF wf, of pf U ob] watched_allowed [OF assms(1)] assms(6) by simp
  with gone kept s(1) show ?thesis by (auto simp: dispatch_events)
qed

theorem restart_keeps_deleted_objects_witness:
  "\<exists>s. fold_go (dispatch plain_prom (\<lambda>_. Fin 0) plain_uns) [AddFunc (Unstr (''a'', ''x'', ''Pending''))] phase_store = Ret s \<and>
     ms_objects s ''a/x'' \<noteq> None"
proof -
  have "delivered plain_uns [AddFunc (Unstr (''a'', ''x'', ''Pending''))] Map.empty"
    "fold (cache_step plain_uns) [AddFunc (Unstr (''a'', ''x'', ''Pending''))] Map.empty ''a/x'' = Some (''a'', ''x'', ''Pending'')"
    "watched (crd_Namespaces phase_config) (un_GetNamespace plain_uns (''a'', ''x'', ''Pending''))"
    by (simp_all add: plain_uns_def resourceKey_def phase_config_def watched_def)
  from restart_keeps_deleted_objects [OF phase_store _ _ this, of "[]" "\<lambda>_. Fin 0"] show ?thesis
    by (auto simp: phase_config_def plain_prom_usable)
qed

end
