(* ===== verification/CRD_Transform.thy ===== *)
theory CRD_Transform
  imports CRD_Collector "HOL-Library.AList"
begin

text \<open>
  The transformation that \<open>informer.go\<close> installs in the shared informer of a custom resource: the cache keeps the
  identity of an object and the fields that the metric store reads, and nothing else. The theorem is that the metrics
  cannot tell the difference. What \<open>unstructured\<close> documents of its accessors is the premise \<open>uns_laws\<close>.
\<close>

section \<open>JSON values\<close>

type_synonym jmap = "(string \<times> any) list"

fun json_sub :: "any \<Rightarrow> string list \<Rightarrow> any option" where
  "json_sub v [] = Some v"
| "json_sub (AMap m) (k # ks) = (case map_of m k of None \<Rightarrow> None | Some v \<Rightarrow> json_sub v ks)"
| "json_sub _ (k # ks) = None"

text \<open>Storing at a path makes the maps on the way that are missing, and does nothing when something else is there.\<close>

fun json_put :: "any \<Rightarrow> string list \<Rightarrow> jmap \<Rightarrow> jmap" where
  "json_put v [] m = m"
| "json_put v [k] m = AList.update k v m"
| "json_put v (k # k' # ks) m = (case map_of m k of
       None \<Rightarrow> AList.update k (AMap (json_put v (k' # ks) [])) m
     | Some (AMap m') \<Rightarrow> AList.update k (AMap (json_put v (k' # ks) m')) m
     | Some _ \<Rightarrow> m)"

definition del_meta :: "string \<Rightarrow> jmap \<Rightarrow> jmap" where
  "del_meta f m = (case map_of m ''metadata'' of
       Some (AMap mm) \<Rightarrow> AList.update ''metadata'' (AMap (AList.delete f mm)) m | _ \<Rightarrow> m)"

text \<open>A value is a part of another when maps may lack entries and all else is equal.\<close>

inductive part_of :: "any \<Rightarrow> any \<Rightarrow> bool" where
  part_refl: "part_of v v"
| part_map: "(\<And>k v. map_of m k = Some v \<Longrightarrow> \<exists>v'. map_of m' k = Some v' \<and> part_of v v') \<Longrightarrow> part_of (AMap m) (AMap m')"

inductive_cases part_of_mapE: "part_of x (AMap m')"
inductive_cases part_of_map_leftE: "part_of (AMap m) y"

lemma part_of_entry:
  "part_of (AMap m) (AMap m') \<Longrightarrow> map_of m k = Some v \<Longrightarrow> \<exists>v'. map_of m' k = Some v' \<and> part_of v v'"
  by (erule part_of_mapE) (auto intro: part_refl)

lemma part_of_map_right: "part_of x (AMap m') \<Longrightarrow> \<exists>m. x = AMap m"
  by (erule part_of_mapE) auto

lemma part_of_map_left: "part_of (AMap m) y \<Longrightarrow> \<exists>m'. y = AMap m'"
  by (erule part_of_map_leftE) auto

lemma part_of_sub: "part_of x y \<Longrightarrow> json_sub x p = Some v \<Longrightarrow> \<exists>w. json_sub y p = Some w \<and> part_of v w"
proof (induction p arbitrary: x y)
  case (Cons k ks)
  then obtain m where x: "x = AMap m" by (cases x) auto
  then obtain m' where y: "y = AMap m'" using Cons.prems(1) x part_of_map_left by blast
  obtain u where u: "map_of m k = Some u" "json_sub u ks = Some v" using Cons.prems(2) x by (auto split: option.splits)
  then obtain u' where "map_of m' k = Some u'" "part_of u u'" using part_of_entry Cons.prems(1) x y by blast
  then show ?case using Cons.IH [OF _ u(2)] y by auto
qed simp

lemma update_same: "map_of m k = Some v \<Longrightarrow> AList.update k v m = m"
  by (induction m) (auto split: if_splits)

lemma json_put_same: "json_sub (AMap m) p = Some v \<Longrightarrow> json_put v p m = m"
proof (induction v p m rule: json_put.induct)
  case (3 v k k' ks m)
  obtain u where u: "map_of m k = Some u" "json_sub u (k' # ks) = Some v" using "3.prems" by (auto split: option.splits)
  then obtain m' where "u = AMap m'" by (cases u) auto
  then show ?case using u "3.IH"(2) by (simp add: update_same)
qed (auto simp: update_same split: option.splits)

text \<open>Storing what the other value has at the path keeps the relation, and fixes the path.\<close>

lemma part_map_update:
  assumes "part_of (AMap d) (AMap s)" "map_of s k = Some y" "part_of x y"
  shows "part_of (AMap (AList.update k x d)) (AMap s)"
proof (rule part_map)
  fix j v assume "map_of (AList.update k x d) j = Some v"
  then show "\<exists>v'. map_of s j = Some v' \<and> part_of v v'"
    using assms part_of_entry [OF assms(1)] by (auto simp: update_conv split: if_splits)
qed

lemma part_of_empty: "part_of (AMap []) (AMap s)"
  by (rule part_map) simp

lemma json_put_part:
  "part_of (AMap d) (AMap s) \<Longrightarrow> json_sub (AMap s) p = Some v \<Longrightarrow> p \<noteq> [] \<Longrightarrow>
     part_of (AMap (json_put v p d)) (AMap s) \<and> json_sub (AMap (json_put v p d)) p = Some v"
proof (induction v p d arbitrary: s rule: json_put.induct)
  case (2 v k m)
  then show ?case using part_map_update [OF 2(1) _ part_refl] by (auto simp: update_conv split: option.splits)
next
  case (3 v k k' ks d)
  obtain s' where s': "map_of s k = Some (AMap s')" "json_sub (AMap s') (k' # ks) = Some v"
  proof -
    obtain u where u: "map_of s k = Some u" "json_sub u (k' # ks) = Some v" using "3.prems" by (auto split: option.splits)
    then show ?thesis using that by (cases u) auto
  qed
  show ?case
  proof (cases "map_of d k")
    case None
    note IH = "3.IH"(1) [OF None part_of_empty s'(2)]
    then show ?thesis using None part_map_update [OF "3.prems"(1) s'(1)] by (auto simp: update_conv)
  next
    case (Some u)
    then have "part_of u (AMap s')" using part_of_entry [OF "3.prems"(1) Some] s'(1) by simp
    then obtain d' where u: "u = AMap d'" "part_of (AMap d') (AMap s')" using part_of_map_right by blast
    note IH = "3.IH"(2) [OF Some u(1) u(2) s'(2)]
    then show ?thesis using Some u part_map_update [OF "3.prems"(1) s'(1)] by (auto simp: update_conv)
  qed
qed simp

text \<open>Paths that were fixed stay so.\<close>

lemma json_put_keeps:
  "part_of (AMap d) (AMap s) \<Longrightarrow> json_sub (AMap s) p = Some v \<Longrightarrow> json_sub (AMap d) q = json_sub (AMap s) q \<Longrightarrow>
     json_sub (AMap (json_put v p d)) q = json_sub (AMap s) q"
proof (induction v p d arbitrary: s q rule: json_put.induct)
  case (2 v k d)
  show ?case
  proof (cases q)
    case Nil
    then show ?thesis using "2.prems" json_put_same [of s "[k]" v] by simp
  next
    case (Cons j js)
    then show ?thesis using "2.prems" by (auto simp: update_conv split: option.splits)
  qed
next
  case (3 v k k' ks d)
  obtain s' where s': "map_of s k = Some (AMap s')" "json_sub (AMap s') (k' # ks) = Some v"
  proof -
    obtain u where u: "map_of s k = Some u" "json_sub u (k' # ks) = Some v" using "3.prems" by (auto split: option.splits)
    then show ?thesis using that by (cases u) auto
  qed
  show ?case
  proof (cases q)
    case Nil
    then have "d = s" using "3.prems"(3) by simp
    then show ?thesis using json_put_same [OF "3.prems"(2)] by simp
  next
    case (Cons j js)
    show ?thesis
    proof (cases "map_of d k")
      case None
      show ?thesis
      proof (cases "j = k")
        case True
        then have "json_sub (AMap s') js = None" using "3.prems"(3) Cons None s'(1) by simp
        moreover from this have "json_sub (AMap []) js = None" by (cases js) auto
        ultimately show ?thesis using "3.IH"(1) [OF None part_of_empty s'(2), of js] True Cons None s'(1) by (simp add: update_conv)
      next
        case False
        then show ?thesis using "3.prems"(3) Cons None by (simp add: update_conv)
      qed
    next
      case (Some u)
      then have "part_of u (AMap s')" using part_of_entry [OF "3.prems"(1) Some] s'(1) by simp
      then obtain d' where u: "u = AMap d'" "part_of (AMap d') (AMap s')" using part_of_map_right by blast
      then show ?thesis using "3.IH"(2) [OF Some u(1) u(2) s'(2), of js] "3.prems"(3) Cons Some s'(1)
        by (auto simp: update_conv)
    qed
  qed
qed simp

section \<open>The transformation\<close>

text \<open>The object behind an \<open>Unstructured\<close> and the functions of that package. A nested copy is \<open>None\<close> when the
  field is missing or there is an error; the error of a store is dropped.\<close>

record 'o uns_maps =
  um_Object :: "'o \<Rightarrow> jmap"
  um_of :: "jmap \<Rightarrow> 'o"
  um_NestedFieldCopy :: "jmap \<Rightarrow> string list \<Rightarrow> any option"
  um_SetNestedField :: "any \<Rightarrow> string list \<Rightarrow> jmap \<Rightarrow> jmap"
  um_GetUID :: "'o \<Rightarrow> string"
  um_GetGeneration :: "'o \<Rightarrow> int"
  um_SetName :: "string \<Rightarrow> jmap \<Rightarrow> jmap"
  um_SetNamespace :: "string \<Rightarrow> jmap \<Rightarrow> jmap"
  um_SetUID :: "string \<Rightarrow> jmap \<Rightarrow> jmap"
  um_SetResourceVersion :: "string \<Rightarrow> jmap \<Rightarrow> jmap"
  um_SetGeneration :: "int \<Rightarrow> jmap \<Rightarrow> jmap"

definition copyNestedField :: "'o uns_maps \<Rightarrow> jmap \<Rightarrow> string \<Rightarrow> jmap \<Rightarrow> jmap" where
  "copyNestedField M src path dst =
     (if path = [] then dst
      else let parts = Split CHR ''.'' path in
        case um_NestedFieldCopy M src parts of
          None \<Rightarrow> dst
        | Some v \<Rightarrow> um_SetNestedField M v parts dst)"

definition transform_uns :: "'o uns \<Rightarrow> 'o uns_maps \<Rightarrow> string list \<Rightarrow> 'o \<Rightarrow> 'o" where
  "transform_uns U M paths u =
     (let t = um_SetName M (un_GetName U u) [];
          t = um_SetNamespace M (un_GetNamespace U u) t;
          t = um_SetUID M (um_GetUID M u) t;
          t = um_SetResourceVersion M (un_GetResourceVersion U u) t;
          t = um_SetGeneration M (um_GetGeneration M u) t
      in um_of M (foldl (\<lambda>d path. copyNestedField M (um_Object M u) path d) t paths))"

text \<open>An object of another type passes as it is.\<close>

fun transformObject :: "'o uns \<Rightarrow> 'o uns_maps \<Rightarrow> string list \<Rightarrow> 'o event_obj \<Rightarrow> 'o event_obj" where
  "transformObject U M paths (Unstr u) = Unstr (transform_uns U M paths u)"
| "transformObject U M paths obj = obj"

text \<open>What the package documents: the accessors read and write the nested maps; a name and the other strings of the
  metadata are removed when they are set to the empty string, and so is the generation when it is set to zero.\<close>

definition text_at :: "any option \<Rightarrow> string" where
  "text_at v = (case v of Some (AStr t) \<Rightarrow> t | _ \<Rightarrow> [])"

definition int_at :: "any option \<Rightarrow> int" where
  "int_at v = (case v of Some (AInt i) \<Rightarrow> i | _ \<Rightarrow> 0)"

definition set_meta :: "string \<Rightarrow> any option \<Rightarrow> jmap \<Rightarrow> jmap" where
  "set_meta f v m = (case v of None \<Rightarrow> del_meta f m | Some x \<Rightarrow> json_put x [''metadata'', f] m)"

definition text_field :: "string \<Rightarrow> any option" where
  "text_field t = (if t = [] then None else Some (AStr t))"

definition int_field :: "int \<Rightarrow> any option" where
  "int_field i = (if i = 0 then None else Some (AInt i))"

definition json_get :: "jmap \<Rightarrow> string list \<Rightarrow> any option" where
  "json_get m p = json_sub (AMap m) p"

definition uns_laws :: "'o uns \<Rightarrow> 'o uns_maps \<Rightarrow> bool" where
  "uns_laws U M \<longleftrightarrow>
     (\<forall>m. um_Object M (um_of M m) = m)
   \<and> (\<forall>m p. um_NestedFieldCopy M m p = json_get m p) \<and> (\<forall>v p m. um_SetNestedField M v p m = json_put v p m)
   \<and> (\<forall>u. un_GetName U u = text_at (json_get (um_Object M u) [''metadata'', ''name'']))
   \<and> (\<forall>u. un_GetNamespace U u = text_at (json_get (um_Object M u) [''metadata'', ''namespace'']))
   \<and> (\<forall>u. um_GetUID M u = text_at (json_get (um_Object M u) [''metadata'', ''uid'']))
   \<and> (\<forall>u. un_GetResourceVersion U u = text_at (json_get (um_Object M u) [''metadata'', ''resourceVersion'']))
   \<and> (\<forall>u. um_GetGeneration M u = int_at (json_get (um_Object M u) [''metadata'', ''generation'']))
   \<and> um_SetName M = (\<lambda>t. set_meta ''name'' (text_field t)) \<and> um_SetNamespace M = (\<lambda>t. set_meta ''namespace'' (text_field t))
   \<and> um_SetUID M = (\<lambda>t. set_meta ''uid'' (text_field t))
   \<and> um_SetResourceVersion M = (\<lambda>t. set_meta ''resourceVersion'' (text_field t))
   \<and> um_SetGeneration M = (\<lambda>i. set_meta ''generation'' (int_field i))
   \<and> (\<forall>u p. un_NestedString U u p = text_at (json_get (um_Object M u) p))
   \<and> (\<forall>u p. un_NestedField U u p = json_get (um_Object M u) p)
   \<and> (\<forall>u p. un_NestedMap U u p = (case json_get (um_Object M u) p of Some (AMap m) \<Rightarrow> Some m | _ \<Rightarrow> None))
   \<and> (\<forall>u p. un_NestedSlice U u p = (case json_get (um_Object M u) p of Some (ASlice xs) \<Rightarrow> Some xs | _ \<Rightarrow> None))"

section \<open>What the transformation keeps\<close>

text \<open>The part \<open>d\<close> of \<open>s\<close> agrees with it at the paths \<open>D\<close>.\<close>

definition keeps :: "jmap \<Rightarrow> string list set \<Rightarrow> jmap \<Rightarrow> bool" where
  "keeps s D d \<longleftrightarrow> part_of (AMap d) (AMap s) \<and> (\<forall>q \<in> D. json_get d q = json_get s q)"

lemma keeps_put: "keeps s D d \<Longrightarrow> json_get s p = Some v \<Longrightarrow> p \<noteq> [] \<Longrightarrow> keeps s (insert p D) (json_put v p d)"
  using json_put_part [of d s p v] json_put_keeps [of d s p v] by (auto simp: keeps_def json_get_def)

lemma keeps_absent: "keeps s D d \<Longrightarrow> json_get s p = None \<Longrightarrow> keeps s (insert p D) d"
  using part_of_sub [of "AMap d" "AMap s" p] by (cases "json_get d p") (auto simp: keeps_def json_get_def)

lemma keeps_copy:
  assumes "uns_laws U M" "keeps s D d" "path \<noteq> []"
  shows "keeps s (insert (Split CHR ''.'' path) D) (copyNestedField M s path d)"
  using assms keeps_put [OF assms(2), of "Split CHR ''.'' path"] keeps_absent [OF assms(2), of "Split CHR ''.'' path"]
  by (auto simp: copyNestedField_def uns_laws_def Let_def split: option.split)

lemma keeps_copies:
  assumes "uns_laws U M" "keeps s D d"
  shows "keeps s (D \<union> Split CHR ''.'' ` {path \<in> set paths. path \<noteq> []}) (foldl (\<lambda>d path. copyNestedField M s path d) d paths)"
  using assms(2)
proof (induction paths arbitrary: D d)
  case (Cons path paths)
  show ?case
  proof (cases "path = []")
    case True
    then have "{q \<in> set (path # paths). q \<noteq> []} = {q \<in> set paths. q \<noteq> []}" by auto
    then show ?thesis using Cons.IH [OF Cons.prems] True by (simp add: copyNestedField_def)
  next
    case False
    have "insert (Split CHR ''.'' path) D \<union> Split CHR ''.'' ` {q \<in> set paths. q \<noteq> []}
        = D \<union> Split CHR ''.'' ` {q \<in> set (path # paths). q \<noteq> []}" using False by auto
    then show ?thesis using Cons.IH [OF keeps_copy [OF assms(1) Cons.prems False]] by simp
  qed
qed simp

lemma del_meta_part: "part_of (AMap d) (AMap s) \<Longrightarrow> part_of (AMap (del_meta f d)) (AMap s)"
proof -
  assume p: "part_of (AMap d) (AMap s)"
  show ?thesis
  proof (cases "map_of d ''metadata''")
    case None
    then show ?thesis using p by (simp add: del_meta_def)
  next
    case (Some x)
    obtain y where y: "map_of s ''metadata'' = Some y" "part_of x y" using part_of_entry [OF p Some] by blast
    show ?thesis
    proof (cases x)
      case (AMap mm)
      then obtain mm' where mm': "y = AMap mm'" using y(2) AMap part_of_map_left by blast
      have "part_of (AMap (AList.delete f mm)) (AMap mm')"
        by (rule part_map) (use part_of_entry [of mm mm'] y(2) mm' AMap in \<open>auto simp: delete_conv' split: if_splits\<close>)
      then show ?thesis using part_map_update [OF p y(1)] Some AMap mm' by (simp add: del_meta_def)
    qed (use p Some in \<open>simp_all add: del_meta_def\<close>)
  qed
qed

lemma del_meta_other: "g \<noteq> f \<Longrightarrow> json_get (del_meta f d) [''metadata'', g] = json_get d [''metadata'', g]"
  by (auto simp: json_get_def del_meta_def update_conv delete_conv' split: option.splits any.splits)

text \<open>Setting a field of the metadata to what the object has there, or removing it when the object has no such field of
  the right type.\<close>

lemma keeps_set_meta:
  assumes "keeps s ((\<lambda>g. [''metadata'', g]) ` G) d" "f \<notin> G" "v \<noteq> None \<Longrightarrow> json_get s [''metadata'', f] = v"
  shows "keeps s ((\<lambda>g. [''metadata'', g]) ` (if v = None then G else insert f G)) (set_meta f v d)"
proof (cases v)
  case None
  then show ?thesis using assms(1,2) del_meta_part [of d s f] del_meta_other [of _ f d]
    by (fastforce simp: set_meta_def keeps_def)
next
  case (Some x)
  then show ?thesis using keeps_put [OF assms(1), of "[''metadata'', f]" x] assms(3) by (simp add: set_meta_def)
qed

text \<open>Where the object has no text at a path, neither has a part of it.\<close>

lemma text_part: "keeps s D d \<Longrightarrow> text_at (json_get s q) = [] \<Longrightarrow> text_at (json_get d q) = []"
proof -
  assume k: "keeps s D d" and e: "text_at (json_get s q) = []"
  show ?thesis
  proof (cases "json_get d q")
    case (Some x)
    then obtain y where y: "json_get s q = Some y" "part_of x y"
      using k part_of_sub [of "AMap d" "AMap s" q x] by (auto simp: keeps_def json_get_def)
    from y(2) show ?thesis by cases (use e Some y(1) in \<open>auto simp: text_at_def\<close>)
  qed (simp add: text_at_def)
qed

lemma text_kept: "keeps s D d \<Longrightarrow> q \<in> D \<or> text_at (json_get s q) = [] \<Longrightarrow> text_at (json_get d q) = text_at (json_get s q)"
  using text_part [of s D d q] by (auto simp: keeps_def)

text \<open>The identity of the object after the setters: a field that the object has is there, one that it lacks is not.\<close>

definition meta_text :: "jmap \<Rightarrow> string \<Rightarrow> string" where
  "meta_text s f = text_at (json_get s [''metadata'', f])"

lemma field_present:
  "text_field (text_at v) \<noteq> None \<Longrightarrow> v = text_field (text_at v)" "int_field (int_at v) \<noteq> None \<Longrightarrow> v = int_field (int_at v)"
  by (auto simp: text_field_def text_at_def int_field_def int_at_def split: option.splits any.splits if_splits)

lemma keeps_none: "keeps s {} []"
  by (simp add: keeps_def part_of_empty)

lemma keeps_fewer: "keeps s D d \<Longrightarrow> D' \<subseteq> D \<Longrightarrow> keeps s D' d"
  by (auto simp: keeps_def)

lemma transform_keeps:
  assumes "uns_laws U M"
  defines "s u \<equiv> um_Object M u"
  shows "\<exists>G. keeps (s u) ((\<lambda>g. [''metadata'', g]) ` G \<union> Split CHR ''.'' ` {path \<in> set paths. path \<noteq> []})
      (um_Object M (transform_uns U M paths u))
    \<and> (\<forall>f \<in> {''name'', ''namespace'', ''resourceVersion''}. f \<in> G \<or> meta_text (s u) f = [])"
proof -
  note laws = assms(1) [unfolded uns_laws_def]
  let ?s = "s u" and ?pre = "\<lambda>G. (\<lambda>g. [''metadata'', g]) ` G"
  let ?v = "\<lambda>f. text_field (meta_text ?s f)"
  have v: "json_get ?s [''metadata'', f] = ?v f" if "?v f \<noteq> None" for f
    using field_present(1) [of "json_get ?s [''metadata'', f]"] that by (simp add: meta_text_def)
  define t1 where "t1 = set_meta ''name'' (?v ''name'') []"
  define t2 where "t2 = set_meta ''namespace'' (?v ''namespace'') t1"
  define t3 where "t3 = set_meta ''uid'' (?v ''uid'') t2"
  define t4 where "t4 = set_meta ''resourceVersion'' (?v ''resourceVersion'') t3"
  define t5 where "t5 = set_meta ''generation'' (int_field (int_at (json_get ?s [''metadata'', ''generation'']))) t4"
  define add where "add f G = (if ?v f = None then G else insert f G)" for f G
  define G3 where "G3 = add ''uid'' (add ''namespace'' (add ''name'' {}))"
  define G4 where "G4 = add ''resourceVersion'' G3"
  have sub: "add f G \<subseteq> insert f G" for f G by (auto simp: add_def)
  have G3: "G3 \<subseteq> {''uid'', ''namespace'', ''name''}"
    using sub [of "''name''" "{}"] sub [of "''namespace''" "add ''name'' {}"] sub [of "''uid''" "add ''namespace'' (add ''name'' {})"]
    unfolding G3_def by blast
  then have G4: "G4 \<subseteq> {''resourceVersion'', ''uid'', ''namespace'', ''name''}"
    using sub [of "''resourceVersion''" G3] unfolding G4_def by blast
  have "keeps ?s (?pre {}) []" using keeps_none by simp
  from keeps_set_meta [OF this, of "''name''" "?v ''name''"] v
  have k1: "keeps ?s (?pre (add ''name'' {})) t1" by (simp add: t1_def add_def)
  from keeps_set_meta [OF k1, of "''namespace''" "?v ''namespace''"] v sub [of "''name''" "{}"]
  have k2: "keeps ?s (?pre (add ''namespace'' (add ''name'' {}))) t2" by (auto simp: t2_def add_def)
  have "''uid'' \<notin> add ''namespace'' (add ''name'' {})" by (simp add: add_def)
  from keeps_set_meta [OF k2 this, of "?v ''uid''"] v
  have k3: "keeps ?s (?pre G3) t3" by (simp add: t3_def G3_def add_def [of "''uid''"])
  have "''resourceVersion'' \<notin> G3" using G3 by auto
  from keeps_set_meta [OF k3 this, of "?v ''resourceVersion''"] v
  have k4: "keeps ?s (?pre G4) t4" by (simp add: t4_def G4_def add_def [of "''resourceVersion''"])
  have "''generation'' \<notin> G4" using G4 by auto
  from keeps_set_meta [OF k4 this, of "int_field (int_at (json_get ?s [''metadata'', ''generation'']))"]
  have k5: "keeps ?s (?pre G4) t5"
    using field_present(2) [of "json_get ?s [''metadata'', ''generation'']"] unfolding t5_def
    by (auto elim: keeps_fewer split: if_splits)
  have "um_Object M (transform_uns U M paths u) = foldl (\<lambda>d path. copyNestedField M ?s path d) t5 paths"
    using laws by (simp add: transform_uns_def Let_def s_def t1_def t2_def t3_def t4_def t5_def meta_text_def)
  then have "keeps ?s (?pre G4 \<union> Split CHR ''.'' ` {path \<in> set paths. path \<noteq> []}) (um_Object M (transform_uns U M paths u))"
    using keeps_copies [OF assms(1) k5] by simp
  moreover have "f \<in> G4 \<or> meta_text ?s f = []" if "f \<in> {''name'', ''namespace'', ''resourceVersion''}" for f
    using that by (auto simp: G4_def G3_def add_def text_field_def split: if_splits)
  ultimately show ?thesis by blast
qed

text \<open>So the transformed object has the name, namespace and resource version of the original and the same values at the
  paths that are kept.\<close>

lemma transform_same:
  assumes "uns_laws U M"
  shows "un_GetName U (transform_uns U M paths u) = un_GetName U u"
    "un_GetNamespace U (transform_uns U M paths u) = un_GetNamespace U u"
    "un_GetResourceVersion U (transform_uns U M paths u) = un_GetResourceVersion U u"
    "p = [] \<or> p \<in> set paths \<Longrightarrow> ExtractFieldString U (transform_uns U M paths u) p = ExtractFieldString U u p
       \<and> ExtractFieldFloat pf U (transform_uns U M paths u) p = ExtractFieldFloat pf U u p
       \<and> ExtractFieldMap U (transform_uns U M paths u) p = ExtractFieldMap U u p
       \<and> ExtractFieldSlice U (transform_uns U M paths u) p = ExtractFieldSlice U u p"
proof -
  obtain G where G: "keeps (um_Object M u) ((\<lambda>g. [''metadata'', g]) ` G \<union> Split CHR ''.'' ` {path \<in> set paths. path \<noteq> []})
      (um_Object M (transform_uns U M paths u))"
    "\<forall>f \<in> {''name'', ''namespace'', ''resourceVersion''}. f \<in> G \<or> meta_text (um_Object M u) f = []"
    using transform_keeps [OF assms] by blast
  have m: "meta_text (um_Object M (transform_uns U M paths u)) f = meta_text (um_Object M u) f"
    if "f \<in> {''name'', ''namespace'', ''resourceVersion''}" for f
    using text_kept [OF G(1), of "[''metadata'', f]"] G(2) that by (auto simp: meta_text_def)
  show "un_GetName U (transform_uns U M paths u) = un_GetName U u"
    "un_GetNamespace U (transform_uns U M paths u) = un_GetNamespace U u"
    "un_GetResourceVersion U (transform_uns U M paths u) = un_GetResourceVersion U u"
    using m [of "''name''"] m [of "''namespace''"] m [of "''resourceVersion''"] assms by (simp_all add: uns_laws_def meta_text_def)
  show "ExtractFieldString U (transform_uns U M paths u) p = ExtractFieldString U u p
       \<and> ExtractFieldFloat pf U (transform_uns U M paths u) p = ExtractFieldFloat pf U u p
       \<and> ExtractFieldMap U (transform_uns U M paths u) p = ExtractFieldMap U u p
       \<and> ExtractFieldSlice U (transform_uns U M paths u) p = ExtractFieldSlice U u p" if p: "p = [] \<or> p \<in> set paths"
  proof (cases "p = []")
    case True
    then show ?thesis
      by (simp add: ExtractFieldString_def ExtractFieldFloat_def ExtractFieldMap_def ExtractFieldSlice_def)
  next
    case False
    then have "json_get (um_Object M (transform_uns U M paths u)) (Split CHR ''.'' p) = json_get (um_Object M u) (Split CHR ''.'' p)"
      using G(1) p by (auto simp: keeps_def)
    then show ?thesis using assms False
      by (simp add: uns_laws_def ExtractFieldString_def ExtractFieldFloat_def ExtractFieldMap_def ExtractFieldSlice_def)
  qed
qed

section \<open>The metrics cannot tell\<close>

lemma RequiredPaths_set:
  "set (RequiredPaths s) = {p \<in> set (ms_commonLabelPaths s @ concat (map (\<lambda>m. mc_Path (cm_config m) # cm_labelPaths m) (ms_metrics s))).
     p \<noteq> []}"
proof -
  have "set (foldl (\<lambda>acc p. if p = [] \<or> p \<in> set acc then acc else p # acc) acc ps) = set acc \<union> {p \<in> set ps. p \<noteq> []}"
    for acc ps :: "string list"
    by (induction ps arbitrary: acc) auto
  from this [of "[]"] show ?thesis by (simp only: RequiredPaths_def set_rev list.set Un_empty_left)
qed

lemma required:
  "p \<in> set (ms_commonLabelPaths s) \<Longrightarrow> p = [] \<or> p \<in> set (RequiredPaths s)"
  "m \<in> set (ms_metrics s) \<Longrightarrow> p = mc_Path (cm_config m) \<or> p \<in> set (cm_labelPaths m) \<Longrightarrow> p = [] \<or> p \<in> set (RequiredPaths s)"
  by (auto simp: RequiredPaths_set)

lemma build_one_same:
  assumes "uns_laws U M" "m \<in> set (ms_metrics s)"
  shows "build_one P pf U (transform_uns U M (RequiredPaths s) u) common res m = build_one P pf U u common res m"
proof -
  note t = transform_same(4) [OF assms(1) required(2) [OF assms(2)], of _ u pf]
  have ls: "map (ExtractFieldString U (transform_uns U M (RequiredPaths s) u)) (cm_labelPaths m)
      = map (ExtractFieldString U u) (cm_labelPaths m)" using t by simp
  show ?thesis using t [of "mc_Path (cm_config m)"]
    by (simp add: build_one_def buildInfoMetric_def buildGaugeMetric_def buildStringStateMetric_def buildMapStateMetrics_def
        buildMapGaugeMetrics_def buildConditionMetrics_def ls Let_def)
qed

lemma build_same:
  assumes "uns_laws U M"
  shows "buildObjectMetrics P pf U s (transform_uns U M (RequiredPaths s) u) = buildObjectMetrics P pf U s u"
proof -
  have "build_loop P pf U (transform_uns U M (RequiredPaths s) u) common res ms = build_loop P pf U u common res ms"
    if "set ms \<subseteq> set (ms_metrics s)" for common res ms
    using that
  proof (induction ms arbitrary: res)
    case (Cons m ms)
    then have "(\<lambda>res'. build_loop P pf U (transform_uns U M (RequiredPaths s) u) common res' ms)
        = (\<lambda>res'. build_loop P pf U u common res' ms)" by (simp add: fun_eq_iff)
    then show ?case using build_one_same [OF assms, of m s P pf u common res] Cons.prems by simp
  qed simp
  moreover have "extractCommonLabels s U (transform_uns U M (RequiredPaths s) u) = extractCommonLabels s U u"
    using transform_same(4) [OF assms required(1)] by (simp add: extractCommonLabels_def)
  ultimately show ?thesis using transform_same(2) [OF assms] by (simp add: buildObjectMetrics_def)
qed

lemma key_same: "uns_laws U M \<Longrightarrow> resourceKey U (transform_uns U M paths u) = resourceKey U u"
  using transform_same(1,2) [of U M paths u] by (simp add: resourceKey_def)

text \<open>The events do not change what the store reads.\<close>

definition same_reads :: "metric_store \<Rightarrow> metric_store \<Rightarrow> bool" where
  "same_reads s t \<longleftrightarrow> ms_commonLabelPaths t = ms_commonLabelPaths s \<and> ms_metrics t = ms_metrics s"

lemma same_reads_trans: "same_reads s t \<Longrightarrow> same_reads t u \<Longrightarrow> same_reads s u"
  by (simp add: same_reads_def)

lemma same_reads_count:
  "refreshCountMetric P m v s = Ret t \<Longrightarrow> same_reads s t" "addCount P mv s = Ret t \<Longrightarrow> same_reads s t"
  "removeCount P mv s = Ret t \<Longrightarrow> same_reads s t"
  by (auto simp: refreshCountMetric_def addCount_def removeCount_def same_reads_def Let_def bind_go_Ret_iff
      split: option.splits if_splits prod.splits)

lemma same_reads_fold: "(\<And>x a b. f x a = Ret b \<Longrightarrow> same_reads a b) \<Longrightarrow> fold_go f xs s = Ret t \<Longrightarrow> same_reads s t"
proof (induction xs arbitrary: s)
  case (Cons x xs)
  then obtain u where "f x s = Ret u" "fold_go f xs u = Ret t" by (auto simp: bind_go_Ret_iff)
  then show ?case using Cons same_reads_trans by blast
qed (simp add: same_reads_def)

lemma same_reads_removeLocked: "removeLocked P k s = Ret t \<Longrightarrow> same_reads s t"
proof -
  assume "removeLocked P k s = Ret t"
  then obtain u where u: "fold_go (removeCount P) (case ms_objects s k of None \<Rightarrow> [] | Some om \<Rightarrow> om_counts om) s = Ret u"
    "t = u\<lparr>ms_objects := (ms_objects u)(k := None)\<rparr>" by (auto simp: removeLocked_def bind_go_Ret_iff)
  have "same_reads s u" by (rule same_reads_fold [OF same_reads_count(3) u(1)])
  then show ?thesis by (simp add: u(2) same_reads_def)
qed

lemma same_reads_upsert: "upsert P pf U obj s = Ret t \<Longrightarrow> same_reads s t"
proof (cases obj)
  case (Some ob)
  assume "upsert P pf U obj s = Ret t"
  then obtain new s1 where s1: "(if ms_objects s (resourceKey U ob) \<noteq> None then removeLocked P (resourceKey U ob) s else Ret s) = Ret s1"
    and t: "(case new of None \<Rightarrow> Ret (if ms_objects s (resourceKey U ob) \<noteq> None then s1\<lparr>ms_DeleteCount := ms_DeleteCount s1 + 1\<rparr> else s1)
       | Some om \<Rightarrow> bind_go (fold_go (addCount P) (om_counts om) (s1\<lparr>ms_objects := (ms_objects s1)(resourceKey U ob \<mapsto> om)\<rparr>)) (\<lambda>s2.
           Ret (if ms_objects s (resourceKey U ob) \<noteq> None then s2\<lparr>ms_UpdateCount := ms_UpdateCount s2 + 1\<rparr>
                else s2\<lparr>ms_AddCount := ms_AddCount s2 + 1\<rparr>))) = Ret t"
    unfolding upsert_def Some Let_def bind_go_Ret_iff option.case by blast
  have 1: "same_reads s s1" using s1 same_reads_removeLocked by (auto simp: same_reads_def split: if_splits)
  show ?thesis
  proof (cases new)
    case None
    then show ?thesis using t 1 by (auto simp: same_reads_def split: if_splits)
  next
    case (Some om)
    then obtain s2 where s2: "fold_go (addCount P) (om_counts om) (s1\<lparr>ms_objects := (ms_objects s1)(resourceKey U ob \<mapsto> om)\<rparr>) = Ret s2"
      "same_reads s2 t" using t by (auto simp: bind_go_Ret_iff same_reads_def split: if_splits)
    have "same_reads (s1\<lparr>ms_objects := (ms_objects s1)(resourceKey U ob \<mapsto> om)\<rparr>) s2"
      by (rule same_reads_fold [OF same_reads_count(2) s2(1)])
    then show ?thesis using 1 s2(2) by (simp add: same_reads_def)
  qed
qed (simp add: upsert_def same_reads_def)

lemma same_reads_Delete: "store_Delete P U obj s = Ret t \<Longrightarrow> same_reads s t"
proof (cases obj)
  case (Some ob)
  assume "store_Delete P U obj s = Ret t"
  then show ?thesis using Some same_reads_removeLocked [of P "resourceKey U ob" s]
    by (fastforce simp: store_Delete_def bind_go_Ret_iff same_reads_def split: if_splits)
qed (simp add: store_Delete_def same_reads_def)

lemma same_reads_dispatch: "dispatch P pf U n s = Ret t \<Longrightarrow> same_reads s t"
  using same_reads_upsert same_reads_Delete
  by (cases "event_of U n") (fastforce simp: dispatch_event)+

text \<open>What the handlers are given when the transformation is installed. The object in a tombstone comes from the
  cache, so it went through it too.\<close>

fun transformed_event :: "'o uns \<Rightarrow> 'o uns_maps \<Rightarrow> string list \<Rightarrow> 'o event_obj \<Rightarrow> 'o event_obj" where
  "transformed_event U M paths (Tombstone x) = Tombstone (map_option (transform_uns U M paths) x)"
| "transformed_event U M paths obj = transformObject U M paths obj"

fun transformed_note :: "'o uns \<Rightarrow> 'o uns_maps \<Rightarrow> string list \<Rightarrow> 'o notification \<Rightarrow> 'o notification" where
  "transformed_note U M paths (AddFunc x) = AddFunc (transformed_event U M paths x)"
| "transformed_note U M paths (UpdateFunc x y) = UpdateFunc (transformed_event U M paths x) (transformed_event U M paths y)"
| "transformed_note U M paths (DeleteFunc x) = DeleteFunc (transformed_event U M paths x)"

lemma extract_transformed:
  "extractUnstructured (transformed_event U M paths x) = map_option (transform_uns U M paths) (extractUnstructured x)"
  by (cases x) simp_all

lemma upsert_same: "uns_laws U M \<Longrightarrow> upsert P pf U (Some (transform_uns U M (RequiredPaths s) u)) s = upsert P pf U (Some u) s"
  by (simp add: upsert_def build_same key_same)

lemma Delete_same: "uns_laws U M \<Longrightarrow> store_Delete P U (Some (transform_uns U M paths u)) s = store_Delete P U (Some u) s"
  by (simp add: store_Delete_def key_same)

lemma dispatch_same: "uns_laws U M \<Longrightarrow> dispatch P pf U (transformed_note U M (RequiredPaths s) n) s = dispatch P pf U n s"
  by (cases n) (auto simp: dispatch_def extract_transformed handleAdd_def handleUpdate_def handleDelete_def upsert_same
      Delete_same transform_same(3) split: option.split)

lemma same_reads_paths: "same_reads s t \<Longrightarrow> RequiredPaths t = RequiredPaths s"
  by (simp add: same_reads_def RequiredPaths_def)

text \<open>C33. Dropping the unused fields of the cached objects cannot be seen in the metrics: with the paths that the store
  asks for, the store is after any notifications the same as if the objects had kept all their fields.\<close>

theorem transform_is_invisible:
  assumes "uns_laws U M" "paths = RequiredPaths s"
  shows "fold_go (dispatch P pf U) (map (transformed_note U M paths) ns) s = fold_go (dispatch P pf U) ns s"
  using assms(2)
proof (induction ns arbitrary: s)
  case (Cons n ns)
  have d: "dispatch P pf U (transformed_note U M paths n) s = dispatch P pf U n s"
    using dispatch_same [OF assms(1)] Cons.prems by simp
  show ?case
  proof (cases "dispatch P pf U n s")
    case (Ret t)
    then have "paths = RequiredPaths t" using same_reads_paths [OF same_reads_dispatch] Cons.prems by metis
    then show ?thesis using Cons.IH d Ret by simp
  qed (simp add: d)
qed simp

section \<open>A concrete object\<close>

text \<open>Objects that are their maps.\<close>

definition map_uns :: "jmap uns" where
  "map_uns = \<lparr>un_GetName = (\<lambda>u. text_at (json_get u [''metadata'', ''name''])),
     un_GetNamespace = (\<lambda>u. text_at (json_get u [''metadata'', ''namespace''])),
     un_GetResourceVersion = (\<lambda>u. text_at (json_get u [''metadata'', ''resourceVersion''])),
     un_NestedString = (\<lambda>u p. text_at (json_get u p)), un_NestedField = json_get,
     un_NestedMap = (\<lambda>u p. case json_get u p of Some (AMap m) \<Rightarrow> Some m | _ \<Rightarrow> None),
     un_NestedSlice = (\<lambda>u p. case json_get u p of Some (ASlice xs) \<Rightarrow> Some xs | _ \<Rightarrow> None)\<rparr>"

definition map_maps :: "jmap uns_maps" where
  "map_maps = \<lparr>um_Object = id, um_of = id, um_NestedFieldCopy = json_get, um_SetNestedField = json_put,
     um_GetUID = (\<lambda>u. text_at (json_get u [''metadata'', ''uid''])),
     um_GetGeneration = (\<lambda>u. int_at (json_get u [''metadata'', ''generation''])),
     um_SetName = (\<lambda>t. set_meta ''name'' (text_field t)), um_SetNamespace = (\<lambda>t. set_meta ''namespace'' (text_field t)),
     um_SetUID = (\<lambda>t. set_meta ''uid'' (text_field t)),
     um_SetResourceVersion = (\<lambda>t. set_meta ''resourceVersion'' (text_field t)),
     um_SetGeneration = (\<lambda>i. set_meta ''generation'' (int_field i))\<rparr>"

lemma map_laws: "uns_laws map_uns map_maps"
  by (simp add: uns_laws_def map_uns_def map_maps_def)

definition running_pod :: jmap where
  "running_pod = [(''metadata'', AMap [(''name'', AStr ''x''), (''namespace'', AStr ''a''), (''labels'', AMap [])]),
     (''spec'', AMap [(''size'', AInt 3)]), (''status'', AMap [(''phase'', AStr ''Running''), (''note'', AStr ''n'')])]"

theorem transform_is_invisible_witness:
  "fold_go (dispatch plain_prom (\<lambda>_. Fin 0) map_uns)
      [AddFunc (Unstr [(''metadata'', AMap [(''name'', AStr ''x''), (''namespace'', AStr ''a'')]),
         (''status'', AMap [(''phase'', AStr ''Running'')])])] phase_store
    = fold_go (dispatch plain_prom (\<lambda>_. Fin 0) map_uns) [AddFunc (Unstr running_pod)] phase_store"
proof -
  have "RequiredPaths phase_store = [''status.phase'']"
    by (simp add: RequiredPaths_def phase_store_def newMetricStore_def phase_config_def phase_metric_def compileMetric_def
        label_names_def GetSortedValues_def GetSortedKeys_def map_filter_def Let_def)
  moreover have "transform_uns map_uns map_maps [''status.phase''] running_pod
      = [(''metadata'', AMap [(''name'', AStr ''x''), (''namespace'', AStr ''a'')]), (''status'', AMap [(''phase'', AStr ''Running'')])]"
    by (simp add: transform_uns_def map_uns_def map_maps_def running_pod_def set_meta_def text_field_def int_field_def text_at_def
        int_at_def json_get_def copyNestedField_def del_meta_def Let_def)
  ultimately show ?thesis
    using transform_is_invisible [OF map_laws refl, where P = plain_prom and pf = "\<lambda>_. Fin 0" and s = phase_store
      and ns = "[AddFunc (Unstr running_pod)]"] by simp
qed

end
