(* ===== verification/Domain_Classifier.thy ===== *)
theory Domain_Classifier
  imports Go_Strings
begin

text \<open>
  \<open>pkg/collector/domain/classifier.go\<close>: the classification of the error texts of a check. The
  patterns of the source are case-insensitive regular expressions without anchors whose only operators
  are \<open>.*\<close> and the class \<open>[0-9]\<close>, so a pattern is the list of the pieces between its \<open>.*\<close>,
  each a list of atoms.
\<close>

section \<open>Patterns\<close>

datatype atom = Chr char | Digit

type_synonym regexp = "atom list list"

definition lit :: "string \<Rightarrow> atom list" where
  "lit s = map Chr s"

text \<open>\<open>(?i)\<close>: a letter stands for both of its cases.\<close>

fun atom_matches :: "atom \<Rightarrow> char \<Rightarrow> bool" where
  "atom_matches (Chr p) c \<longleftrightarrow> to_lower p = to_lower c"
| "atom_matches Digit c \<longleftrightarrow> is_digit c"

text \<open>What is left of the text after a piece at its front.\<close>

fun match_piece :: "atom list \<Rightarrow> string \<Rightarrow> string option" where
  "match_piece [] s = Some s"
| "match_piece (a # p) [] = None"
| "match_piece (a # p) (c # s) = (if atom_matches a c then match_piece p s else None)"

text \<open>\<open>match_here\<close> matches at the front of the text, \<open>match_after\<close> behind a \<open>.*\<close>, which
  crosses anything but a line feed.\<close>

function match_here :: "regexp \<Rightarrow> string \<Rightarrow> bool"
  and match_after :: "regexp \<Rightarrow> string \<Rightarrow> bool" where
  "match_here [] s \<longleftrightarrow> True"
| "match_here (p # ps) s \<longleftrightarrow> (case match_piece p s of None \<Rightarrow> False
     | Some r \<Rightarrow> ps = [] \<or> match_after ps r)"
| "match_after ps s \<longleftrightarrow> match_here ps s
     \<or> (case s of [] \<Rightarrow> False | c # r \<Rightarrow> c \<noteq> CHR 0x0A \<and> match_after ps r)"
  by pat_completeness auto
termination
  by (relation "measures [\<lambda>x. case x of Inl (ps, s) \<Rightarrow> length ps | Inr (ps, s) \<Rightarrow> length ps,
                          \<lambda>x. case x of Inl (ps, s) \<Rightarrow> 0 | Inr (ps, s) \<Rightarrow> Suc (length s)]") auto

fun MatchString :: "regexp \<Rightarrow> string \<Rightarrow> bool" where
  "MatchString r [] \<longleftrightarrow> match_here r []"
| "MatchString r (c # s) \<longleftrightarrow> match_here r (c # s) \<or> MatchString r s"

definition matchesAny :: "string \<Rightarrow> regexp list \<Rightarrow> bool" where
  "matchesAny text patterns \<longleftrightarrow> list_ex (\<lambda>r. MatchString r text) patterns"

section \<open>The classifier\<close>

datatype ErrorType =
    ConnectionRefused | Timeout | DNSError | DNSNoSuchHost | DNSNoAnswer | HTTPClientError
  | HTTPServerError | SSLError | NetworkError | NoResolvedIP | CertExpired | CertNotFound | CertInvalid
  | CertHostnameMismatch | UnknownError | NoError

definition connectionRefusedPatterns :: "regexp list" where
  "connectionRefusedPatterns = [[lit ''connection refused''], [lit ''dial tcp'', lit ''connection refused'']]"

definition timeoutPatterns :: "regexp list" where
  "timeoutPatterns = [[lit ''timeout''], [lit ''context deadline exceeded''], [lit ''i/o timeout''],
     [lit ''request timeout'']]"

definition dnsErrorPatterns :: "regexp list" where
  "dnsErrorPatterns = [[lit ''dns'', lit ''fail''], [lit ''lookup'', lit ''fail''],
     [lit ''name resolution fail'']]"

definition dnsNoSuchHostPatterns :: "regexp list" where
  "dnsNoSuchHostPatterns = [[lit ''no such host'']]"

definition dnsNoAnswerPatterns :: "regexp list" where
  "dnsNoAnswerPatterns = [[lit ''no ips resolved''], [lit ''returned no ips''], [lit ''no answer'']]"

definition httpClientErrorPatterns :: "regexp list" where
  "httpClientErrorPatterns = [[lit ''40'' @ [Digit]], [lit ''not found''], [lit ''unauthorized''],
     [lit ''forbidden'']]"

definition httpServerErrorPatterns :: "regexp list" where
  "httpServerErrorPatterns = [[lit ''50'' @ [Digit]], [lit ''internal server error''], [lit ''bad gateway''],
     [lit ''service unavailable''], [lit ''unexpected status code'']]"

definition sslErrorPatterns :: "regexp list" where
  "sslErrorPatterns = [[lit ''ssl'', lit ''error''], [lit ''tls'', lit ''handshake''],
     [lit ''certificate'', lit ''verify''], [lit ''failed to verify certificate''],
     [lit ''unknown authority'']]"

definition networkErrorPatterns :: "regexp list" where
  "networkErrorPatterns = [[lit ''network'', lit ''unreachable''], [lit ''connection'', lit ''reset''],
     [lit ''broken pipe''], [lit ''EOF'']]"

definition certExpiredPatterns :: "regexp list" where
  "certExpiredPatterns = [[lit ''certificate'', lit ''expired''], [lit ''cert'', lit ''expired'']]"

definition certNotFoundPatterns :: "regexp list" where
  "certNotFoundPatterns = [[lit ''certificate'', lit ''not found''], [lit ''no'', lit ''certificate'']]"

definition certInvalidPatterns :: "regexp list" where
  "certInvalidPatterns = [[lit ''certificate'', lit ''invalid''], [lit ''invalid'', lit ''certificate''],
     [lit ''bad certificate'']]"

definition certHostnameMismatchPatterns :: "regexp list" where
  "certHostnameMismatchPatterns = [[lit ''hostname'', lit ''mismatch''],
     [lit ''certificate'', lit ''valid'', lit ''name''], [lit ''certificate is valid for'']]"

definition ClassifyHTTPError :: "string \<Rightarrow> ErrorType" where
  "ClassifyHTTPError errorMsg =
     (if errorMsg = '''' then NoError
      else let t = ToLower errorMsg in
        if matchesAny t dnsNoSuchHostPatterns then DNSNoSuchHost
        else if matchesAny t dnsNoAnswerPatterns then DNSNoAnswer
        else if matchesAny t connectionRefusedPatterns then ConnectionRefused
        else if matchesAny t timeoutPatterns then Timeout
        else if matchesAny t dnsErrorPatterns then DNSError
        else if matchesAny t httpClientErrorPatterns then HTTPClientError
        else if matchesAny t httpServerErrorPatterns then HTTPServerError
        else if matchesAny t sslErrorPatterns then SSLError
        else if matchesAny t networkErrorPatterns then NetworkError
        else UnknownError)"

definition ClassifyDNSError :: "string \<Rightarrow> ErrorType" where
  "ClassifyDNSError errorMsg =
     (if errorMsg = '''' then DNSError
      else let t = ToLower errorMsg in
        if matchesAny t timeoutPatterns then Timeout
        else if matchesAny t dnsNoSuchHostPatterns then DNSNoSuchHost
        else if matchesAny t dnsNoAnswerPatterns then DNSNoAnswer
        else if matchesAny t dnsErrorPatterns then DNSError
        else DNSError)"

definition ClassifyCertError :: "string \<Rightarrow> ErrorType" where
  "ClassifyCertError errorMsg =
     (if errorMsg = '''' then NoError
      else let t = ToLower errorMsg in
        if matchesAny t connectionRefusedPatterns then ConnectionRefused
        else if matchesAny t timeoutPatterns then Timeout
        else if matchesAny t dnsErrorPatterns then DNSError
        else if matchesAny t networkErrorPatterns then NetworkError
        else if matchesAny t certExpiredPatterns then CertExpired
        else if matchesAny t certNotFoundPatterns then CertNotFound
        else if matchesAny t certHostnameMismatchPatterns then CertHostnameMismatch
        else if matchesAny t certInvalidPatterns then CertInvalid
        else if matchesAny t sslErrorPatterns then SSLError
        else UnknownError)"

section \<open>Matching\<close>

declare match_after.simps [simp del]

text \<open>A pattern without digits that matches a text followed by digits matches the text.\<close>

definition is_letter_like :: "atom \<Rightarrow> bool" where
  "is_letter_like a \<longleftrightarrow> (case a of Chr c \<Rightarrow> \<not> is_digit c | Digit \<Rightarrow> False)"

lemma to_lower_digit: "is_digit c \<Longrightarrow> to_lower c = c"
  by (auto simp: is_digit_def to_lower_def)

lemma to_lower_is_digit: "is_digit (to_lower p) \<longleftrightarrow> is_digit p"
proof -
  have "(of_char (to_lower p) :: nat) = (if 65 \<le> (of_char p :: nat) \<and> (of_char p :: nat) \<le> 90
      then of_char p + 32 else of_char p)"
    by (auto simp: to_lower_def Let_def of_char_of)
  then show ?thesis by (auto simp: is_digit_def split: if_splits)
qed

lemma letter_no_digit: "is_letter_like a \<Longrightarrow> is_digit c \<Longrightarrow> \<not> atom_matches a c"
  using to_lower_is_digit to_lower_digit by (cases a) (auto simp: is_letter_like_def)

definition digit_free :: "regexp \<Rightarrow> bool" where
  "digit_free r \<longleftrightarrow> list_all (\<lambda>p. p \<noteq> [] \<and> list_all is_letter_like p) r"

lemma match_piece_digits:
  assumes "list_all is_letter_like p" "list_all is_digit ds"
  shows "match_piece p (s @ ds) = map_option (\<lambda>r. r @ ds) (match_piece p s)"
  using assms(1)
proof (induction p s rule: match_piece.induct)
  case (2 a p)
  then show ?case using assms(2) by (cases ds) (auto simp: letter_no_digit)
qed auto

lemma match_here_digits_only:
  assumes "digit_free r" "r \<noteq> []" "list_all is_digit ds"
  shows "\<not> match_here r ds"
proof -
  obtain a p ps where "r = (a # p) # ps" "is_letter_like a"
    using assms(1,2) by (cases r) (auto simp: digit_free_def neq_Nil_conv)
  then show ?thesis using assms(3) by (cases ds) (auto simp: letter_no_digit)
qed

lemma match_after_digits_only:
  "digit_free r \<Longrightarrow> r \<noteq> [] \<Longrightarrow> list_all is_digit ds \<Longrightarrow> \<not> match_after r ds"
  by (induction ds) (auto simp: match_after.simps match_here_digits_only simp del: match_here.simps)

lemma match_digits:
  assumes "list_all is_digit ds"
  shows "digit_free r \<Longrightarrow> r \<noteq> [] \<Longrightarrow> match_here r (s @ ds) = match_here r s"
    and "digit_free r \<Longrightarrow> r \<noteq> [] \<Longrightarrow> match_after r (s @ ds) = match_after r s"
proof (induction r s and r s rule: match_here_match_after.induct)
  case (2 p ps s)
  then show ?case
    using assms by (cases ps) (auto simp: digit_free_def match_piece_digits split: option.splits)
next
  case (3 ps s)
  then show ?case
    using assms match_after_digits_only [OF 3(3,4) assms] match_here_digits_only [OF 3(3,4)]
    by (cases s) (auto simp: match_after.simps [of ps "_ # _"] match_after.simps [of ps "[]"]
        simp del: match_here.simps)
qed simp

lemma MatchString_digits:
  assumes "digit_free r" "r \<noteq> []" "list_all is_digit ds"
  shows "MatchString r (s @ ds) = MatchString r s"
proof (induction s)
  case Nil
  have "\<not> MatchString r ds" using assms
    by (induction ds) (auto simp: match_here_digits_only simp del: match_here.simps)
  then show ?case using match_here_digits_only [OF assms(1,2), of "[]"] by simp
next
  case (Cons c s)
  then show ?case using match_digits(1) [OF assms(3,1,2), of "c # s"] by simp
qed

lemma matchesAny_digits:
  assumes "list_all (\<lambda>r. digit_free r \<and> r \<noteq> []) rs" "list_all is_digit ds"
  shows "matchesAny (s @ ds) rs = matchesAny s rs"
  using assms(1) MatchString_digits [OF _ _ assms(2)]
  by (induction rs) (auto simp: matchesAny_def)

lemma three_digits:
  assumes "100 \<le> n" "n \<le> 999"
  shows "Itoa (int n) = [digit_char (n div 100), digit_char (n div 10 mod 10), digit_char (n mod 10)]"
proof -
  have "n div 10 div 10 < 10" "\<not> n div 10 < 10" "\<not> n < 10" using assms by auto
  then show ?thesis
    using dec_string.simps [of "n"] dec_string.simps [of "n div 10"] dec_string.simps [of "n div 10 div 10"]
    by (simp add: Itoa_def div_mult2_eq [symmetric])
qed

definition status_text :: string where
  "status_text = ''unexpected status code: ''"

text \<open>None of the patterns that are tried before those of the status codes occurs in the text, and the
  patterns of the status codes only see its digits.\<close>

lemma status_text_patterns:
  "\<not> matchesAny status_text dnsNoSuchHostPatterns" "\<not> matchesAny status_text dnsNoAnswerPatterns"
  "\<not> matchesAny status_text connectionRefusedPatterns" "\<not> matchesAny status_text timeoutPatterns"
  "\<not> matchesAny status_text dnsErrorPatterns" "\<not> matchesAny status_text (tl httpClientErrorPatterns)"
  "matchesAny status_text (tl httpServerErrorPatterns)"
  by code_simp+

lemma status_text_digit_free:
  "list_all (\<lambda>r. digit_free r \<and> r \<noteq> []) (dnsNoSuchHostPatterns @ dnsNoAnswerPatterns
     @ connectionRefusedPatterns @ timeoutPatterns @ dnsErrorPatterns @ tl httpClientErrorPatterns
     @ tl httpServerErrorPatterns)"
  by code_simp

lemma status_text_lower: "ToLower status_text = status_text"
  by code_simp

lemma digit_char_eq: "a < 10 \<Longrightarrow> b < 10 \<Longrightarrow> digit_char a = digit_char b \<longleftrightarrow> a = b"
  by (metis digit_char_props(2))

lemma digit_chars: "CHR ''0'' = digit_char 0" "CHR ''4'' = digit_char 4" "CHR ''5'' = digit_char 5"
  by code_simp+

lemma three_match:
  assumes "a < 10" "b < 10" "c < 10" "d < 10"
  shows "MatchString [lit [digit_char d, CHR ''0''] @ [Digit]] [digit_char a, digit_char b, digit_char c]
      \<longleftrightarrow> a = d \<and> b = 0"
  using assms by (auto simp: lit_def to_lower_digit digit_char_eq digit_chars(1))

text \<open>A number between two bounds of the form \<open>d00\<close>, \<open>d09\<close> as a pattern.\<close>

lemma hundred_pattern:
  assumes "100 \<le> n" "n \<le> 999" "d \<in> {4, 5}"
  shows "MatchString [lit [digit_char d, CHR ''0''] @ [Digit]] (status_text @ Itoa (int n))
      \<longleftrightarrow> 100 * d \<le> n \<and> n \<le> 100 * d + 9"
proof -
  have dd: "is_digit (digit_char d)" using assms(3) by auto
  have skip: "MatchString [lit [digit_char d, CHR ''0''] @ [Digit]] (s @ ds)
      = MatchString [lit [digit_char d, CHR ''0''] @ [Digit]] ds"
    if "list_all (\<lambda>c. \<not> is_digit c) s" for s ds
    using that dd
  proof (induction s)
    case (Cons c s)
    then have "to_lower (digit_char d) \<noteq> to_lower c"
      using to_lower_is_digit [of "digit_char d"] to_lower_is_digit [of c] by auto
    with Cons show ?case by (simp add: lit_def)
  qed simp
  have "list_all (\<lambda>c. \<not> is_digit c) status_text" by code_simp
  note eq = skip [OF this, of "Itoa (int n)", unfolded three_digits [OF assms(1,2)]]
  have "n div 100 < 10" "n div 10 mod 10 < 10" "n mod 10 < 10" "d < 10" using assms by auto
  note eq' = three_match [OF this]
  have "MatchString [lit [digit_char d, CHR ''0''] @ [Digit]] (status_text @ Itoa (int n))
      \<longleftrightarrow> n div 100 = d \<and> n div 10 mod 10 = 0"
    unfolding three_digits [OF assms(1,2)] eq eq' ..
  also have "\<dots> \<longleftrightarrow> 100 * d \<le> n \<and> n \<le> 100 * d + 9"
  proof -
    have "n div 100 = n div 10 div 10" by (simp add: div_mult2_eq [symmetric])
    then have "n div 100 = d \<and> n div 10 mod 10 = 0 \<longleftrightarrow> n div 10 = 10 * d" by auto
    also have "\<dots> \<longleftrightarrow> 100 * d \<le> n \<and> n \<le> 100 * d + 9" by linarith
    finally show ?thesis .
  qed
  finally show ?thesis .
qed

lemma status_classified:
  assumes "100 \<le> n" "n \<le> 999"
  shows "ClassifyHTTPError (status_text @ Itoa (int n))
      = (if 400 \<le> n \<and> n \<le> 409 then HTTPClientError else HTTPServerError)"
proof -
  have ds: "list_all is_digit (Itoa (int n))"
    using dec_string_digits [of n] by (simp add: Itoa_def)
  have low: "ToLower (status_text @ Itoa (int n)) = status_text @ Itoa (int n)"
    using ds status_text_lower by (simp add: ToLower_def list_all_iff to_lower_digit map_idI)
  note same = matchesAny_digits [OF _ ds, of _ status_text]
  have free: "list_all (\<lambda>r. digit_free r \<and> r \<noteq> []) p"
    if "p \<in> {dnsNoSuchHostPatterns, dnsNoAnswerPatterns, connectionRefusedPatterns, timeoutPatterns,
        dnsErrorPatterns, tl httpClientErrorPatterns, tl httpServerErrorPatterns}" for p
    using status_text_digit_free that by auto
  have client: "matchesAny t httpClientErrorPatterns \<longleftrightarrow>
      MatchString [lit [digit_char 4, CHR ''0''] @ [Digit]] t \<or> matchesAny t (tl httpClientErrorPatterns)" for t
    by (simp add: matchesAny_def httpClientErrorPatterns_def digit_chars)
  have server: "matchesAny t httpServerErrorPatterns \<longleftrightarrow>
      MatchString [lit [digit_char 5, CHR ''0''] @ [Digit]] t \<or> matchesAny t (tl httpServerErrorPatterns)" for t
    by (simp add: matchesAny_def httpServerErrorPatterns_def digit_chars)
  have ne: "status_text \<noteq> []" by (simp add: status_text_def)
  show ?thesis
    unfolding ClassifyHTTPError_def Let_def low
    using ne same free status_text_patterns hundred_pattern [OF assms, of 4]
    by (simp add: client server)
qed

end
