(* ===== verification/Go_Net.thy ===== *)
theory Go_Net
  imports Go_Strings
begin

text \<open>
  The parts of Go's \<open>net\<close> package that the components use, with the quoting of \<open>fmt\<close>'s
  \<open>%q\<close>: splitting and joining of \<open>host:port\<close>, and the reading and printing of IP addresses. An
  address is its sixteen bytes; an IPv4 address is one of the block \<open>::ffff:0:0/96\<close>.
\<close>

section \<open>Quoting\<close>

definition quote_char :: "char \<Rightarrow> string" where
  "quote_char c = (let n = of_char c :: nat in
     if c = CHR 0x5C \<or> c = CHR 0x22 then [CHR 0x5C, c]
     else if n = 7 then CHR 0x5C # ''a'' else if n = 8 then CHR 0x5C # ''b''
     else if n = 9 then CHR 0x5C # ''t'' else if n = 10 then CHR 0x5C # ''n''
     else if n = 11 then CHR 0x5C # ''v'' else if n = 12 then CHR 0x5C # ''f''
     else if n = 13 then CHR 0x5C # ''r''
     else if n < 32 \<or> n = 127 then CHR 0x5C # CHR ''x'' # hex_encode [n]
     else [c])"

definition Quote :: "string \<Rightarrow> string" where
  "Quote s = CHR 0x22 # concat (map quote_char s) @ [CHR 0x22]"

section \<open>Hosts and ports\<close>

datatype addr_error =
    MissingPort | TooManyColons | MissingBracket | UnexpectedOpen | UnexpectedClose

definition addr_error_text :: "addr_error \<Rightarrow> string" where
  "addr_error_text e = (case e of
       MissingPort \<Rightarrow> ''missing port in address''
     | TooManyColons \<Rightarrow> ''too many colons in address''
     | MissingBracket \<Rightarrow> ''missing '' @ [CHR 0x27] @ '']'' @ [CHR 0x27] @ '' in address''
     | UnexpectedOpen \<Rightarrow> ''unexpected '' @ [CHR 0x27] @ ''['' @ [CHR 0x27] @ '' in address''
     | UnexpectedClose \<Rightarrow> ''unexpected '' @ [CHR 0x27] @ '']'' @ [CHR 0x27] @ '' in address'')"

definition SplitHostPort :: "string \<Rightarrow> addr_error + string \<times> string" where
  "SplitHostPort hp = (case LastIndexByte hp CHR '':'' of
       None \<Rightarrow> Inl MissingPort
     | Some i \<Rightarrow>
        (let finish = (\<lambda>host j k.
               if CHR ''['' \<in> set (drop j hp) then Inl UnexpectedOpen
               else if CHR '']'' \<in> set (drop k hp) then Inl UnexpectedClose
               else Inr (host, drop (Suc i) hp))
         in if hp ! 0 = CHR ''['' then
              (case IndexByte hp CHR '']'' of
                 None \<Rightarrow> Inl MissingBracket
               | Some e \<Rightarrow>
                   if Suc e = length hp then Inl MissingPort
                   else if Suc e = i then finish (take (e - 1) (drop 1 hp)) 1 (Suc e)
                   else if hp ! Suc e = CHR '':'' then Inl TooManyColons
                   else Inl MissingPort)
            else if CHR '':'' \<in> set (take i hp) then Inl TooManyColons
            else finish (take i hp) 0 0))"

definition JoinHostPort :: "string \<Rightarrow> string \<Rightarrow> string" where
  "JoinHostPort host port =
     (if CHR '':'' \<in> set host then ''['' @ host @ '']:'' @ port else host @ '':'' @ port)"

lemma SplitHostPort_plain:
  assumes "CHR '':'' \<notin> set h" "CHR ''['' \<notin> set h \<union> set p" "CHR '']'' \<notin> set h \<union> set p" "CHR '':'' \<notin> set p"
  shows "SplitHostPort (h @ CHR '':'' # p) = Inr (h, p)"
proof -
  have "(h @ CHR '':'' # p) ! 0 \<noteq> CHR ''[''" using assms(2) by (cases h) auto
  then show ?thesis
    using assms by (simp add: SplitHostPort_def LastIndexByte_append Let_def)
qed

lemma SplitHostPort_bracketed:
  assumes "CHR ''['' \<notin> set h \<union> set p" "CHR '']'' \<notin> set h \<union> set p" "CHR '':'' \<notin> set p"
  shows "SplitHostPort (CHR ''['' # h @ CHR '']'' # CHR '':'' # p) = Inr (h, p)"
proof -
  have l: "LastIndexByte (CHR ''['' # h @ CHR '']'' # CHR '':'' # p) CHR '':'' = Some (length h + 2)"
    using LastIndexByte_append [of "CHR '':''" p "CHR ''['' # h @ [CHR '']'']"] assms(3) by simp
  have i: "IndexByte (h @ CHR '']'' # CHR '':'' # p) CHR '']'' = Some (length h)"
    using IndexByte_append [of "CHR '']''" h "CHR '':'' # p"] assms(2) by simp
  show ?thesis
    using assms by (simp add: SplitHostPort_def l i Let_def)
qed

lemma SplitHostPort_Join:
  assumes "CHR ''['' \<notin> set h \<union> set p" "CHR '']'' \<notin> set h \<union> set p" "CHR '':'' \<notin> set p"
  shows "SplitHostPort (JoinHostPort h p) = Inr (h, p)"
  using assms SplitHostPort_plain SplitHostPort_bracketed by (simp add: JoinHostPort_def)

section \<open>IP addresses\<close>

type_synonym ip = "nat list"

text \<open>A field of a dotted address: one to three digits, no leading zero, at most 255.\<close>

definition parse_octet :: "string \<Rightarrow> nat option" where
  "parse_octet s = (if s \<noteq> [] \<and> list_all is_digit s \<and> length s \<le> 3 \<and> (s = ''0'' \<or> hd s \<noteq> CHR ''0'')
       \<and> dec_val s \<le> 255 then Some (dec_val s) else None)"

definition parseIPv4Fields :: "string \<Rightarrow> nat list option" where
  "parseIPv4Fields s = (case Split CHR ''.'' s of
       [a, b, c, d] \<Rightarrow> (case (parse_octet a, parse_octet b, parse_octet c, parse_octet d) of
           (Some w, Some x, Some y, Some z) \<Rightarrow> Some [w, x, y, z] | _ \<Rightarrow> None)
     | _ \<Rightarrow> None)"

definition hex_val :: "char \<Rightarrow> nat option" where
  "hex_val c = (let n = of_char c :: nat in
     if 48 \<le> n \<and> n \<le> 57 then Some (n - 48)
     else if 97 \<le> n \<and> n \<le> 102 then Some (n - 87)
     else if 65 \<le> n \<and> n \<le> 70 then Some (n - 55) else None)"

definition hex_prefix :: "string \<Rightarrow> string" where
  "hex_prefix s = takeWhile (\<lambda>c. hex_val c \<noteq> None) s"

text \<open>The loop over the groups of an IPv6 address: the bytes so far, the place of the \<open>::\<close>
  and the rest of the text. A turn adds two bytes, so eight turns are all there are.\<close>

fun ipv6_groups :: "nat \<Rightarrow> nat list \<Rightarrow> nat option \<Rightarrow> string \<Rightarrow> (nat list \<times> nat option \<times> string) option" where
  "ipv6_groups 0 b e s = Some (b, e, s)"
| "ipv6_groups (Suc fuel) b e s =
     (let h = hex_prefix s; r = drop (length h) s;
          acc = foldl (\<lambda>n c. 16 * n + the (hex_val c)) 0 h
      in if length h > 4 \<or> h = [] then None
         else if r \<noteq> [] \<and> hd r = CHR ''.'' then
           (if e = None \<and> length b \<noteq> 12 \<or> length b + 4 > 16 then None
            else map_option (\<lambda>q. (b @ q, e, [])) (parseIPv4Fields s))
         else let b' = b @ [acc div 256, acc mod 256] in
           case r of
             [] \<Rightarrow> Some (b', e, [])
           | [c] \<Rightarrow> None
           | c # d # t \<Rightarrow> if c \<noteq> CHR '':'' then None
               else if d = CHR '':'' then
                 (if e \<noteq> None then None
                  else if t = [] then Some (b', Some (length b'), [])
                  else ipv6_groups fuel b' (Some (length b')) t)
               else ipv6_groups fuel b' e (d # t))"

definition ipv6_expand :: "nat list \<times> nat option \<times> string \<Rightarrow> ip option" where
  "ipv6_expand x = (case x of (b, e, s) \<Rightarrow>
     if s \<noteq> [] then None
     else if length b < 16 then
       (case e of None \<Rightarrow> None | Some k \<Rightarrow> Some (take k b @ replicate (16 - length b) 0 @ drop k b))
     else if e \<noteq> None then None else Some b)"

definition parseIPv6 :: "string \<Rightarrow> ip option" where
  "parseIPv6 s =
     (if HasPrefix s ''::'' then
        (if drop 2 s = [] then Some (replicate 16 0)
         else Option.bind (ipv6_groups 8 [] (Some 0) (drop 2 s)) ipv6_expand)
      else Option.bind (ipv6_groups 8 [] None s) ipv6_expand)"

definition v4_prefix :: "nat list" where
  "v4_prefix = replicate 10 0 @ [255, 255]"

text \<open>\<open>net.ParseIP\<close>: the first of \<open>.\<close>, \<open>:\<close> and \<open>%\<close> decides; a zone is refused.\<close>

definition ParseIP :: "string \<Rightarrow> ip option" where
  "ParseIP s = (case dropWhile (\<lambda>c. c \<notin> set ''.:%'') s of
       [] \<Rightarrow> None
     | c # _ \<Rightarrow> if c = CHR ''.'' then map_option (\<lambda>q. v4_prefix @ q) (parseIPv4Fields s)
         else if c = CHR '':'' \<and> CHR ''%'' \<notin> set s then parseIPv6 s else None)"

definition is_To4 :: "ip \<Rightarrow> bool" where
  "is_To4 p \<longleftrightarrow> take 12 p = v4_prefix"

text \<open>\<open>IP.String\<close>: dotted for IPv4; else eight groups with the first of the longest runs of at
  least two zeros written \<open>::\<close>.\<close>

definition hex_string :: "nat \<Rightarrow> string" where
  "hex_string n = (let ds = [n div 4096, n div 256 mod 16, n div 16 mod 16, n mod 16]
     in map hex_digit (case dropWhile (\<lambda>d. d = 0) ds of [] \<Rightarrow> [0] | xs \<Rightarrow> xs))"

definition zero_run :: "nat list \<Rightarrow> nat \<times> nat" where
  "zero_run gs = foldl (\<lambda>(st, len) i. let l = length (takeWhile (\<lambda>g. g = 0) (drop i gs))
      in if l \<ge> 2 \<and> l > len then (i, l) else (st, len)) (8, 0) [0..<8]"

definition ip_String :: "ip \<Rightarrow> string" where
  "ip_String p =
     (if is_To4 p then Join ''.'' (map dec_string (drop 12 p))
      else let gs = map (\<lambda>i. 256 * p ! (2 * i) + p ! (2 * i + 1)) [0..<8];
               (st, len) = zero_run gs
           in if len = 0 then Join '':'' (map hex_string gs)
              else Join '':'' (map hex_string (take st gs)) @ ''::''
                   @ Join '':'' (map hex_string (drop (st + len) gs)))"

end
