(* ===== verification/Domain_Config.thy ===== *)
theory Domain_Config
  imports Go_Net
begin

text \<open>
  \<open>pkg/collector/domain/config.go\<close> and \<open>runtime.go\<close>: the configured domains, their parsing and
  validation, and from \<open>http.go\<close> the functions on targets, methods and paths. The decoding of a map
  entry is the third-party package \<open>mapstructure\<close>, the record \<open>decoder\<close>; its constructor
  only fails for a result that is not a pointer.
\<close>

lemma Trim_by_fixed:
  assumes "s \<noteq> []" "\<not> p (hd s)" "\<not> p (last s)"
  shows "Trim_by p s = s"
proof -
  have "dropWhile p s = s" using assms(1,2) by (cases s) auto
  moreover have "dropWhile p (rev s) = rev s" using assms(1,3) by (cases s rule: rev_cases) auto
  ultimately show ?thesis by (simp add: Trim_by_def TrimLeft_by_def TrimRight_by_def)
qed

section \<open>Configuration\<close>

datatype 'm entry = EString string | EMap 'm | EOther string

record 'm domain_config =
  dcf_Domains :: "'m entry list"
  dcf_DomainsEnv :: "string list"
  dcf_CheckTimeout :: int
  dcf_CheckInterval :: int
  dcf_DialRetries :: int
  dcf_IncludeCertCheck :: bool
  dcf_IncludeHTTPCheck :: bool
  dcf_IncludeIPv4 :: bool
  dcf_IncludeIPv6 :: bool

definition domain_NewDefaultConfig :: "'m domain_config" where
  "domain_NewDefaultConfig = \<lparr>dcf_Domains = [], dcf_DomainsEnv = [], dcf_CheckTimeout = 30 * 1000000000,
     dcf_CheckInterval = 60 * 1000000000, dcf_DialRetries = 3, dcf_IncludeCertCheck = True,
     dcf_IncludeHTTPCheck = True, dcf_IncludeIPv4 = True, dcf_IncludeIPv6 = True\<rparr>"

record domain_target =
  dt_Host :: string
  dt_Port :: int

record monitored_domain =
  md_endpoint :: string
  md_target :: domain_target
  md_ips :: "string list"
  md_skipTLSVerify :: bool
  md_followHTTPRedirects :: bool
  md_httpMethod :: string
  md_httpPath :: string
  md_httpHeaders :: "(string \<times> string) list"
  md_expectedStatusCodes :: "int list"

definition no_target :: domain_target where
  "no_target = \<lparr>dt_Host = [], dt_Port = 0\<rparr>"

definition no_domain :: monitored_domain where
  "no_domain = \<lparr>md_endpoint = [], md_target = no_target, md_ips = [], md_skipTLSVerify = False,
     md_followHTTPRedirects = False, md_httpMethod = [], md_httpPath = [], md_httpHeaders = [],
     md_expectedStatusCodes = []\<rparr>"

record monitored_domain_config =
  mdc_Endpoint :: string
  mdc_IPs :: "string list"
  mdc_SkipTLSVerify :: bool
  mdc_FollowHTTPRedirects :: "bool option"
  mdc_HTTPPath :: string
  mdc_HTTPMethod :: string
  mdc_HTTPHeaders :: "(string \<times> string) list"
  mdc_ExpectedStatusCodes :: "int list"

record runtime_config =
  rc_domains :: "monitored_domain list"
  rc_checkTimeout :: int
  rc_checkInterval :: int
  rc_dialRetries :: int
  rc_includeCertCheck :: bool
  rc_includeHTTPCheck :: bool
  rc_includeIPv4 :: bool
  rc_includeIPv6 :: bool

record 'm decoder =
  de_Decode :: "'m \<Rightarrow> monitored_domain_config res"
  de_show :: "'m \<Rightarrow> string"

section \<open>Targets\<close>

definition parsePort :: "string \<Rightarrow> string \<Rightarrow> int res" where
  "parsePort port original = (case Atoi port of
       None \<Rightarrow> Inl (''invalid domain endpoint '' @ Quote original @ '': invalid port '' @ Quote port)
     | Some n \<Rightarrow> if n < 1 \<or> n > 65535
         then Inl (''invalid domain endpoint '' @ Quote original @ '': port '' @ Itoa n @ '' out of range'')
         else Inr n)"

definition unbracket :: "string \<Rightarrow> string" where
  "unbracket host = TrimSuffix (TrimPrefix (TrimSpace host) ''['') '']''"

definition newDomainTarget :: "string \<Rightarrow> int \<Rightarrow> string \<Rightarrow> domain_target res" where
  "newDomainTarget host port original =
     (let h = unbracket host in
      if h = '''' then Inl (''invalid domain endpoint '' @ Quote original @ '': host is empty'')
      else if port < 1 \<or> port > 65535
      then Inl (''invalid domain endpoint '' @ Quote original @ '': port '' @ Itoa port @ '' out of range'')
      else Inr \<lparr>dt_Host = h, dt_Port = port\<rparr>)"

definition parseDomainTarget :: "string \<Rightarrow> domain_target res" where
  "parseDomainTarget value =
     (let raw = TrimSpace value;
          invalid = (\<lambda>m. Inl (''invalid domain endpoint '' @ Quote value @ '': '' @ m))
      in if raw = '''' then Inr no_target
         else if Contains raw ''://'' \<or> list_ex (\<lambda>c. c \<in> set ''/?#'') raw
         then invalid ''only host or host:port is supported''
         else case SplitHostPort raw of
           Inr (host, port) \<Rightarrow> (case parsePort port value of
               Inl e \<Rightarrow> Inl e | Inr portNum \<Rightarrow> newDomainTarget host portNum value)
         | Inl MissingPort \<Rightarrow> newDomainTarget raw 443 value
         | Inl TooManyColons \<Rightarrow>
             if ParseIP raw \<noteq> None then newDomainTarget raw 443 value
             else invalid ''IPv6 addresses with ports must use [host]:port''
         | Inl e \<Rightarrow> invalid (''address '' @ raw @ '': '' @ addr_error_text e))"

section \<open>Domains\<close>

fun normalize_ips :: "string \<Rightarrow> string set \<Rightarrow> string list \<Rightarrow> string list \<Rightarrow> string list res" where
  "normalize_ips endpoint seen ips [] = Inr ips"
| "normalize_ips endpoint seen ips (x # xs) =
     (let v = TrimSpace x in
      if v = '''' then normalize_ips endpoint seen ips xs
      else case ParseIP v of
          None \<Rightarrow> Inl (''invalid domain entry '' @ Quote endpoint @ '': invalid ip '' @ Quote v)
        | Some p \<Rightarrow> let n = ip_String p in
            if n \<in> seen then normalize_ips endpoint seen ips xs
            else normalize_ips endpoint (insert n seen) (ips @ [n]) xs)"

definition normalizeDomainIPs :: "string list \<Rightarrow> string \<Rightarrow> string list res" where
  "normalizeDomainIPs values endpoint = normalize_ips endpoint {} [] values"

fun normalize_codes :: "int set \<Rightarrow> int list \<Rightarrow> int list \<Rightarrow> int list res" where
  "normalize_codes seen codes [] = Inr codes"
| "normalize_codes seen codes (c # cs) =
     (if c < 100 \<or> c > 599
      then Inl (''invalid expected HTTP status code '' @ Itoa c @ '': must be between 100 and 599'')
      else if c \<in> seen then normalize_codes seen codes cs
      else normalize_codes (insert c seen) (codes @ [c]) cs)"

definition normalizeExpectedStatusCodes :: "int list \<Rightarrow> int list res" where
  "normalizeExpectedStatusCodes statusCodes = normalize_codes {} [] statusCodes"

definition parseMonitoredDomainString :: "string \<Rightarrow> monitored_domain res" where
  "parseMonitoredDomainString value =
     (let endpoint = TrimSpace value in
      if endpoint = '''' then Inr no_domain
      else case parseDomainTarget endpoint of
          Inl e \<Rightarrow> Inl e
        | Inr target \<Rightarrow> Inr \<lparr>md_endpoint = endpoint, md_target = target, md_ips = [],
            md_skipTLSVerify = False, md_followHTTPRedirects = True, md_httpMethod = ''GET'',
            md_httpPath = ''/'', md_httpHeaders = [], md_expectedStatusCodes = []\<rparr>)"

definition with_options :: "monitored_domain_config \<Rightarrow> monitored_domain \<Rightarrow> monitored_domain" where
  "with_options cfg d = d
     \<lparr>md_skipTLSVerify := mdc_SkipTLSVerify cfg,
      md_followHTTPRedirects := (case mdc_FollowHTTPRedirects cfg of
          None \<Rightarrow> md_followHTTPRedirects d | Some b \<Rightarrow> b),
      md_httpMethod := (if TrimSpace (mdc_HTTPMethod cfg) \<noteq> '''' then ToUpper (TrimSpace (mdc_HTTPMethod cfg))
          else md_httpMethod d),
      md_httpPath := (if TrimSpace (mdc_HTTPPath cfg) \<noteq> '''' then TrimSpace (mdc_HTTPPath cfg)
          else md_httpPath d),
      md_httpHeaders := (if mdc_HTTPHeaders cfg \<noteq> [] then mdc_HTTPHeaders cfg else md_httpHeaders d)\<rparr>"

definition parseMonitoredDomainMap :: "'m decoder \<Rightarrow> 'm \<Rightarrow> monitored_domain res" where
  "parseMonitoredDomainMap D value = (case de_Decode D value of
       Inl e \<Rightarrow> Inl (''invalid domain entry '' @ de_show D value @ '': '' @ e)
     | Inr cfg \<Rightarrow>
         if TrimSpace (mdc_Endpoint cfg) = '''' then Inl ''invalid domain entry: endpoint is required''
         else case parseMonitoredDomainString (mdc_Endpoint cfg) of
           Inl e \<Rightarrow> Inl e
         | Inr d \<Rightarrow>
             if md_endpoint d = '''' then Inr no_domain
             else case normalizeDomainIPs (mdc_IPs cfg) (mdc_Endpoint cfg) of
               Inl e \<Rightarrow> Inl e
             | Inr ips \<Rightarrow>
                 let d' = with_options cfg (d\<lparr>md_ips := ips\<rparr>) in
                 if mdc_ExpectedStatusCodes cfg \<noteq> []
                 then case normalizeExpectedStatusCodes (mdc_ExpectedStatusCodes cfg) of
                     Inl e \<Rightarrow> Inl e
                   | Inr codes \<Rightarrow> Inr (d'\<lparr>md_expectedStatusCodes := codes\<rparr>)
                 else Inr d')"

definition parseMonitoredDomain :: "'m decoder \<Rightarrow> 'm entry \<Rightarrow> monitored_domain res" where
  "parseMonitoredDomain D value = (case value of
       EString s \<Rightarrow> parseMonitoredDomainString s
     | EMap m \<Rightarrow> parseMonitoredDomainMap D m
     | EOther t \<Rightarrow> Inl (''invalid domain entry type '' @ t))"

fun parseMonitoredDomains :: "'m decoder \<Rightarrow> 'm entry list \<Rightarrow> monitored_domain list res" where
  "parseMonitoredDomains D [] = Inr []"
| "parseMonitoredDomains D (v # vs) = (case parseMonitoredDomain D v of
       Inl e \<Rightarrow> Inl e
     | Inr d \<Rightarrow> (case parseMonitoredDomains D vs of
           Inl e \<Rightarrow> Inl e
         | Inr ds \<Rightarrow> Inr (if md_endpoint d = '''' then ds else d # ds)))"

definition normalizeDialRetries :: "int \<Rightarrow> int" where
  "normalizeDialRetries retries = (if retries < 1 then 1 else retries)"

definition newRuntimeConfig :: "'m decoder \<Rightarrow> 'm domain_config \<Rightarrow> runtime_config res" where
  "newRuntimeConfig D cfg =
     (let items = (if dcf_DomainsEnv cfg \<noteq> [] then map EString (dcf_DomainsEnv cfg) else dcf_Domains cfg)
      in case parseMonitoredDomains D items of
        Inl e \<Rightarrow> Inl e
      | Inr ds \<Rightarrow> Inr \<lparr>rc_domains = ds, rc_checkTimeout = dcf_CheckTimeout cfg,
          rc_checkInterval = dcf_CheckInterval cfg, rc_dialRetries = normalizeDialRetries (dcf_DialRetries cfg),
          rc_includeCertCheck = dcf_IncludeCertCheck cfg, rc_includeHTTPCheck = dcf_IncludeHTTPCheck cfg,
          rc_includeIPv4 = dcf_IncludeIPv4 cfg, rc_includeIPv6 = dcf_IncludeIPv6 cfg\<rparr>)"

section \<open>What parsing establishes\<close>

lemma newDomainTarget_ok:
  "newDomainTarget host port v = Inr t \<Longrightarrow> dt_Host t \<noteq> '''' \<and> 1 \<le> dt_Port t \<and> dt_Port t \<le> 65535"
  by (auto simp: newDomainTarget_def Let_def split: if_splits)

definition endpoint_ok :: "string \<Rightarrow> bool" where
  "endpoint_ok s \<longleftrightarrow> s \<noteq> '''' \<and> set s \<inter> set ''/?#'' = {}"

lemma parseDomainTarget_ok:
  assumes "parseDomainTarget v = Inr t" "TrimSpace v \<noteq> ''''"
  shows "dt_Host t \<noteq> '''' \<and> 1 \<le> dt_Port t \<and> dt_Port t \<le> 65535 \<and> set (TrimSpace v) \<inter> set ''/?#'' = {}"
proof -
  have "\<exists>host port. newDomainTarget host port v = Inr t"
    using assms by (auto simp: parseDomainTarget_def Let_def split: if_splits sum.splits addr_error.splits; blast)
  moreover have "set (TrimSpace v) \<inter> set ''/?#'' = {}"
    using assms by (auto simp: parseDomainTarget_def Let_def list_ex_iff split: if_splits)
  ultimately show ?thesis using newDomainTarget_ok by blast
qed

definition normal_ip :: "string \<Rightarrow> bool" where
  "normal_ip s \<longleftrightarrow> (\<exists>v p. ParseIP v = Some p \<and> s = ip_String p)"

lemma normal_ipI: "ParseIP v = Some p \<Longrightarrow> normal_ip (ip_String p)"
  by (auto simp: normal_ip_def)

lemma normalize_ips_ok:
  "normalize_ips e seen ips xs = Inr r \<Longrightarrow> distinct ips \<Longrightarrow> seen = set ips \<Longrightarrow> \<forall>s \<in> set ips. normal_ip s \<Longrightarrow>
     distinct r \<and> (\<forall>s \<in> set r. normal_ip s)"
proof (induction xs arbitrary: seen ips)
  case (Cons x xs)
  consider (skip) "normalize_ips e seen ips xs = Inr r"
    | (new) p where "ParseIP (TrimSpace x) = Some p" "ip_String p \<notin> seen"
        "normalize_ips e (insert (ip_String p) seen) (ips @ [ip_String p]) xs = Inr r"
    using Cons.prems(1) by (auto simp: Let_def split: if_splits option.splits)
  then show ?case
  proof cases
    case skip
    then show ?thesis using Cons by blast
  next
    case new
    show ?thesis
      by (rule Cons.IH [OF new(3)]) (use Cons.prems new normal_ipI in auto)
  qed
qed simp

lemma normalize_codes_ok:
  "normalize_codes seen cs xs = Inr r \<Longrightarrow> distinct cs \<Longrightarrow> seen = set cs \<Longrightarrow> set cs \<subseteq> {100..599} \<Longrightarrow>
     distinct r \<and> set r \<subseteq> {100..599}"
  by (induction seen cs xs rule: normalize_codes.induct) (auto split: if_splits)

definition domain_ok :: "monitored_domain \<Rightarrow> bool" where
  "domain_ok d \<longleftrightarrow> endpoint_ok (md_endpoint d)
     \<and> dt_Host (md_target d) \<noteq> '''' \<and> 1 \<le> dt_Port (md_target d) \<and> dt_Port (md_target d) \<le> 65535
     \<and> distinct (md_ips d) \<and> (\<forall>s \<in> set (md_ips d). normal_ip s)
     \<and> distinct (md_expectedStatusCodes d) \<and> set (md_expectedStatusCodes d) \<subseteq> {100..599}
     \<and> md_httpMethod d \<noteq> '''' \<and> md_httpPath d \<noteq> ''''"

lemma parse_string_ok:
  assumes "parseMonitoredDomainString v = Inr d" "md_endpoint d \<noteq> ''''"
  shows "domain_ok d \<and> md_ips d = []"
proof -
  let ?e = "TrimSpace v"
  have e: "?e \<noteq> ''''" using assms by (auto simp: parseMonitoredDomainString_def no_domain_def)
  have idem: "TrimSpace ?e = ?e"
    using Trim_by_fixed [of ?e is_space] Trim_by_edges [of is_space v] e by (simp add: TrimSpace_def)
  obtain t where t: "parseDomainTarget ?e = Inr t" "md_target d = t" "md_endpoint d = ?e" "md_ips d = []"
      "md_expectedStatusCodes d = []" "md_httpMethod d = ''GET''" "md_httpPath d = ''/''"
    using assms(1) e by (auto simp: parseMonitoredDomainString_def Let_def split: sum.splits)
  from parseDomainTarget_ok [OF t(1)] show ?thesis
    using e by (simp add: t idem domain_ok_def endpoint_ok_def)
qed

lemma with_options_fields [simp]:
  "md_endpoint (with_options cfg d) = md_endpoint d" "md_target (with_options cfg d) = md_target d"
  "md_ips (with_options cfg d) = md_ips d"
  "md_expectedStatusCodes (with_options cfg d) = md_expectedStatusCodes d"
  by (simp_all add: with_options_def)

lemma with_options_nonempty:
  "md_httpMethod d \<noteq> '''' \<Longrightarrow> md_httpMethod (with_options cfg d) \<noteq> ''''"
  "md_httpPath d \<noteq> '''' \<Longrightarrow> md_httpPath (with_options cfg d) \<noteq> ''''"
  by (auto simp: with_options_def ToUpper_def)

lemma parse_map_ok:
  assumes "parseMonitoredDomainMap D v = Inr d" "md_endpoint d \<noteq> ''''"
  shows "domain_ok d"
proof -
  obtain cfg where cfg: "de_Decode D v = Inr cfg" "TrimSpace (mdc_Endpoint cfg) \<noteq> ''''"
    using assms(1) by (auto simp: parseMonitoredDomainMap_def split: sum.splits if_splits)
  obtain d0 where d0: "parseMonitoredDomainString (mdc_Endpoint cfg) = Inr d0"
    using assms(1) cfg by (auto simp: parseMonitoredDomainMap_def split: sum.splits)
  have e: "md_endpoint d0 \<noteq> ''''"
    using assms cfg d0 by (auto simp: parseMonitoredDomainMap_def no_domain_def)
  obtain ips where ips: "normalizeDomainIPs (mdc_IPs cfg) (mdc_Endpoint cfg) = Inr ips"
    using assms(1) cfg d0 e by (auto simp: parseMonitoredDomainMap_def split: sum.splits)
  let ?d = "with_options cfg (d0\<lparr>md_ips := ips\<rparr>)"
  have ok: "domain_ok ?d"
    using parse_string_ok [OF d0 e] normalize_ips_ok [OF ips [unfolded normalizeDomainIPs_def]]
      with_options_nonempty [of "d0\<lparr>md_ips := ips\<rparr>" cfg] by (simp add: domain_ok_def)
  consider "d = ?d"
    | codes where "normalizeExpectedStatusCodes (mdc_ExpectedStatusCodes cfg) = Inr codes"
        "d = ?d\<lparr>md_expectedStatusCodes := codes\<rparr>"
    using assms(1) cfg d0 e ips
    by (auto simp: parseMonitoredDomainMap_def Let_def split: sum.splits if_splits)
  then show ?thesis
  proof cases
    case 2
    then show ?thesis
      using ok normalize_codes_ok [OF 2(1) [unfolded normalizeExpectedStatusCodes_def]]
      by (simp add: domain_ok_def)
  qed (simp add: ok)
qed

lemma parse_domains_ok:
  "parseMonitoredDomains D vs = Inr ds \<Longrightarrow> d \<in> set ds \<Longrightarrow> domain_ok d"
proof (induction vs arbitrary: ds)
  case (Cons v vs)
  have "domain_ok d'" if "parseMonitoredDomain D v = Inr d'" "md_endpoint d' \<noteq> ''''" for d'
    using that parse_string_ok parse_map_ok by (auto simp: parseMonitoredDomain_def split: entry.splits)
  then show ?case using Cons by (auto split: sum.splits if_splits)
qed simp

lemma runtime_domains_ok:
  "newRuntimeConfig D cfg = Inr rc \<Longrightarrow> d \<in> set (rc_domains rc) \<Longrightarrow> domain_ok d"
  using parse_domains_ok by (auto simp: newRuntimeConfig_def Let_def split: sum.splits)

text \<open>A configuration that is accepted gives only checkable domains: an endpoint that is not empty and has
  none of the characters of a URL, a host, a port in range, configured addresses that are the distinct
  normal forms of valid addresses, distinct status codes between 100 and 599, a method and a path, and at
  least one dial attempt. The domains given by the environment replace those of the file.\<close>

theorem accepted_domains_are_checkable:
  assumes "newRuntimeConfig D cfg = Inr rc"
  shows "(\<forall>d \<in> set (rc_domains rc). domain_ok d) \<and> 1 \<le> rc_dialRetries rc
    \<and> (dcf_DomainsEnv cfg \<noteq> [] \<longrightarrow>
         parseMonitoredDomains D (map EString (dcf_DomainsEnv cfg)) = Inr (rc_domains rc))"
  using assms runtime_domains_ok [OF assms]
  by (auto simp: newRuntimeConfig_def normalizeDialRetries_def Let_def split: sum.splits)

definition demo_decoder :: "unit decoder" where
  "demo_decoder = \<lparr>de_Decode = (\<lambda>_. Inr \<lparr>mdc_Endpoint = ''a.io'', mdc_IPs = [''::0'', '' ::''],
     mdc_SkipTLSVerify = False, mdc_FollowHTTPRedirects = None, mdc_HTTPPath = [], mdc_HTTPMethod = ''head'',
     mdc_HTTPHeaders = [], mdc_ExpectedStatusCodes = [204, 200, 204]\<rparr>), de_show = (\<lambda>_. ''map'')\<rparr>"

definition demo_runtime :: runtime_config where
  "demo_runtime = \<lparr>rc_domains = [\<lparr>md_endpoint = ''a.io'', md_target = \<lparr>dt_Host = ''a.io'', dt_Port = 443\<rparr>,
     md_ips = [''::''], md_skipTLSVerify = False, md_followHTTPRedirects = True, md_httpMethod = ''HEAD'',
     md_httpPath = ''/'', md_httpHeaders = [], md_expectedStatusCodes = [204, 200]\<rparr>],
     rc_checkTimeout = 30000000000, rc_checkInterval = 60000000000, rc_dialRetries = 1,
     rc_includeCertCheck = True, rc_includeHTTPCheck = True, rc_includeIPv4 = True, rc_includeIPv6 = True\<rparr>"

lemma demo_runtime:
  "newRuntimeConfig demo_decoder (domain_NewDefaultConfig\<lparr>dcf_Domains := [EString ''  '', EMap ()],
     dcf_DialRetries := - 2\<rparr>) = Inr demo_runtime"
  by code_simp

lemma accepted_domains_are_checkable_witness:
  "domain_ok (hd (rc_domains demo_runtime)) \<and> 1 \<le> rc_dialRetries demo_runtime"
  using accepted_domains_are_checkable [OF demo_runtime] by (simp add: demo_runtime_def)

end
