(* ===== verification/Domain_Check.thy ===== *)
theory Domain_Check
  imports Domain_Classifier Domain_Config
begin

text \<open>
  \<open>pkg/collector/domain\<close>: the checks of one domain (\<open>http.go\<close>, \<open>dns.go\<close>, \<open>tls.go\<close>,
  \<open>checker.go\<close>). The network is the record \<open>network\<close>: what the resolver, the HTTP client and
  the TLS dialer answer. The HTTP client is given the function that its transport's dial hooks
  compute, so that where a request goes is part of the model. Of \<open>net/url\<close> the model has what is
  used: the parsing of a request path that begins with a slash and the printing of an https URL.
\<close>

section \<open>Request targets\<close>

definition formatHTTPSAuthority :: "string \<Rightarrow> int \<Rightarrow> string" where
  "formatHTTPSAuthority host port =
     (if port = 443 then (if Contains host '':'' then ''['' @ host @ '']'' else host)
      else JoinHostPort host (Itoa port))"

definition normalizeHTTPMethod :: "string \<Rightarrow> string" where
  "normalizeHTTPMethod method =
     (let m = ToUpper (TrimSpace method) in if m = '''' then ''GET'' else m)"

text \<open>Percent encoding.\<close>

fun unescape :: "string \<Rightarrow> string res" where
  "unescape [] = Inr []"
| "unescape (c # s) =
     (if c = CHR ''%'' then
        (case s of
           a # b # t \<Rightarrow> (case (hex_val a, hex_val b) of
               (Some x, Some y) \<Rightarrow> (case unescape t of Inl e \<Rightarrow> Inl e
                   | Inr r \<Rightarrow> Inr (char_of (16 * x + y) # r))
             | _ \<Rightarrow> Inl (''invalid URL escape '' @ Quote (c # a # [b])))
         | _ \<Rightarrow> Inl (''invalid URL escape '' @ Quote (c # s)))
      else case unescape s of Inl e \<Rightarrow> Inl e | Inr r \<Rightarrow> Inr (c # r))"

definition upper_hex :: "nat \<Rightarrow> char" where
  "upper_hex n = to_upper (hex_digit n)"

definition escape :: "string \<Rightarrow> string \<Rightarrow> string" where
  "escape allowed s = concat (map (\<lambda>c. let n = of_char c :: nat in
     if is_digit c \<or> 65 \<le> n \<and> n \<le> 90 \<or> 97 \<le> n \<and> n \<le> 122 \<or> c \<in> set ''-_.~'' \<or> c \<in> set allowed
     then [c] else [CHR ''%'', upper_hex (n div 16), upper_hex (n mod 16)]) s)"

definition path_chars :: string where "path_chars = ''$&+,/:;=@''"
definition host_chars :: string where "host_chars = ''!$&()*+,;=:[]<>'' @ [CHR 0x27, CHR 0x22]"

record url =
  url_Path :: string
  url_RawQuery :: string

definition is_ctl :: "char \<Rightarrow> bool" where
  "is_ctl c \<longleftrightarrow> (of_char c :: nat) < 32 \<or> of_char c = (127 :: nat)"

text \<open>\<open>url.ParseRequestURI\<close> of a text that begins with a slash: it has no scheme, host or user, so
  the later tests of the source for those do not apply.\<close>

definition parse_path :: "string \<Rightarrow> url res" where
  "parse_path raw =
     (let fail = (\<lambda>m. Inl (''parse '' @ Quote raw @ '': '' @ m));
          rest = takeWhile (\<lambda>c. c \<noteq> CHR ''?'') raw;
          query = drop (Suc (length rest)) raw
      in if list_ex is_ctl raw then fail ''net/url: invalid control character in URL''
         else case unescape rest of
             Inl e \<Rightarrow> fail e
           | Inr p \<Rightarrow> Inr \<lparr>url_Path = p, url_RawQuery = query\<rparr>)"

definition normalizeHTTPPath :: "string \<Rightarrow> url res" where
  "normalizeHTTPPath path =
     (let p = TrimSpace path; q = (if p = '''' then ''/'' else p) in
      if Contains q ''://'' \<or> HasPrefix q ''//'' then Inl ''absolute URLs are not supported''
      else case parse_path (if HasPrefix q ''/'' then q else ''/'' @ q) of
          Inl e \<Rightarrow> Inl e
        | Inr u \<Rightarrow> Inr (if url_Path u = '''' then u\<lparr>url_Path := ''/''\<rparr> else u))"

definition https_url :: "string \<Rightarrow> url \<Rightarrow> string" where
  "https_url host u =
     (let p = escape path_chars (url_Path u) in
      ''https://'' @ escape host_chars host
        @ (if p \<noteq> '''' \<and> hd p \<noteq> CHR ''/'' \<and> host \<noteq> '''' then ''/'' else '''') @ p
        @ (if url_RawQuery u \<noteq> '''' then ''?'' @ url_RawQuery u else ''''))"

definition buildHTTPCheckURL :: "string \<Rightarrow> int \<Rightarrow> string \<Rightarrow> string res" where
  "buildHTTPCheckURL host port path = (case normalizeHTTPPath path of
       Inl e \<Rightarrow> Inl e
     | Inr u \<Rightarrow> Inr (https_url (formatHTTPSAuthority host port) u))"

definition validateHTTPHostname :: "string \<Rightarrow> err option" where
  "validateHTTPHostname host =
     (if TrimSpace host = '''' then Some ''host is empty''
      else if list_ex (\<lambda>c. c \<in> set ''/?#@'') host
      then Some (''host '' @ Quote host @ '' contains invalid characters'')
      else None)"

definition validateHTTPMonitoringTarget :: "string \<Rightarrow> int \<Rightarrow> string \<Rightarrow> err option" where
  "validateHTTPMonitoringTarget host port ip =
     (if port < 1 \<or> port > 65535 then Some (''port '' @ Itoa port @ '' out of range'')
      else if ParseIP ip = None then Some (''invalid IP '' @ Quote ip)
      else if ParseIP host = None then validateHTTPHostname host
      else None)"

definition isExpectedHTTPStatus :: "int \<Rightarrow> int list \<Rightarrow> bool" where
  "isExpectedHTTPStatus statusCode expected =
     (if expected = [] then 200 \<le> statusCode \<and> statusCode < 500 else statusCode \<in> set expected)"

definition normalizeHTTPHostname :: "string \<Rightarrow> string" where
  "normalizeHTTPHostname host = TrimSuffix (TrimPrefix (TrimSpace host) ''['') '']''"

definition sameHTTPHostname :: "string \<Rightarrow> string \<Rightarrow> bool" where
  "sameHTTPHostname left right = EqualFold (normalizeHTTPHostname left) (normalizeHTTPHostname right)"

section \<open>Dialing\<close>

text \<open>The attempts of \<open>retryHTTPDialContext\<close>: attempt \<open>i\<close> has a result and tells whether the context
  is done after it. The closure returns a connection or the last error.\<close>

fun retry_from :: "(nat \<Rightarrow> 'c res \<times> bool) \<Rightarrow> nat \<Rightarrow> nat \<Rightarrow> err option \<Rightarrow> 'c option \<times> err option" where
  "retry_from dial i 0 lastErr = (None, lastErr)"
| "retry_from dial i (Suc n) lastErr = (case dial i of
       (Inr c, _) \<Rightarrow> (Some c, None)
     | (Inl e, done) \<Rightarrow> if done then (None, Some e) else retry_from dial (Suc i) n (Some e))"

definition retryHTTPDialContext :: "(nat \<Rightarrow> 'c res \<times> bool) \<Rightarrow> int \<Rightarrow> 'c option \<times> err option" where
  "retryHTTPDialContext dial retries = retry_from dial 0 (nat (if retries < 1 then 1 else retries)) None"

text \<open>The dial hooks of the transport: an address whose host is the monitored one is dialed at the
  given IP, any other as it is. The TLS hook also fixes the server name.\<close>

definition dial_address :: "string \<Rightarrow> string \<Rightarrow> string \<Rightarrow> string res" where
  "dial_address host ip addr = (case SplitHostPort addr of
       Inl e \<Rightarrow> Inl (''address '' @ addr @ '': '' @ addr_error_text e)
     | Inr (dialHost, dialPort) \<Rightarrow>
         Inr (if sameHTTPHostname dialHost host then JoinHostPort ip dialPort else addr))"

definition dial_server_name :: "string \<Rightarrow> string res" where
  "dial_server_name addr = (case SplitHostPort addr of
       Inl e \<Rightarrow> Inl (''address '' @ addr @ '': '' @ addr_error_text e)
     | Inr (dialHost, dialPort) \<Rightarrow> Inr (normalizeHTTPHostname dialHost))"

section \<open>The network\<close>

record http_request =
  rq_Method :: string
  rq_URL :: string
  rq_Host :: string
  rq_Headers :: "(string \<times> string) list"
  rq_FollowRedirects :: bool
  rq_SkipVerify :: bool
  rq_Timeout :: int
  rq_Retries :: int
  rq_Dial :: "string \<Rightarrow> string res"
  rq_ServerName :: "string \<Rightarrow> string res"

record x509 =
  x_CommonName :: string
  x_Issuer :: string
  x_NotBefore :: int
  x_NotAfter :: int

text \<open>What a dialer returns: a TLS connection with the peer's certificates, or another connection.\<close>

datatype conn = TLSConn "x509 list" | PlainConn

record tls_dial =
  td_Addr :: string
  td_ServerName :: string
  td_SkipVerify :: bool
  td_Timeout :: int

record network =
  nw_LookupHost :: "string \<Rightarrow> int \<Rightarrow> string list res"
  nw_NewRequest :: "string \<Rightarrow> string \<Rightarrow> err option"
  nw_Do :: "http_request \<Rightarrow> int res \<times> int"
  nw_DialTLS :: "tls_dial \<Rightarrow> nat \<Rightarrow> conn res \<times> bool"
  nw_now :: int

section \<open>HTTP\<close>

record http_check_result =
  hr_Success :: bool
  hr_ResponseTime :: int
  hr_StatusCode :: int
  hr_Error :: string

record http_check_options =
  ho_Method :: string
  ho_Path :: string
  ho_Headers :: "(string \<times> string) list"
  ho_ExpectedStatusCodes :: "int list"
  ho_FollowRedirects :: bool

definition http_failure :: "string \<Rightarrow> http_check_result" where
  "http_failure e = \<lparr>hr_Success = False, hr_ResponseTime = 0, hr_StatusCode = 0, hr_Error = e\<rparr>"

definition http_request_of :: "string \<Rightarrow> int \<Rightarrow> string \<Rightarrow> bool \<Rightarrow> int \<Rightarrow> int \<Rightarrow> http_check_options \<Rightarrow> string
    \<Rightarrow> http_request" where
  "http_request_of host port ip skip timeout retries opts requestURL =
     \<lparr>rq_Method = normalizeHTTPMethod (ho_Method opts), rq_URL = requestURL,
      rq_Host = formatHTTPSAuthority host port, rq_Headers = ho_Headers opts,
      rq_FollowRedirects = ho_FollowRedirects opts, rq_SkipVerify = skip, rq_Timeout = timeout,
      rq_Retries = retries, rq_Dial = dial_address host ip, rq_ServerName = dial_server_name\<rparr>"

definition checkHTTPWithIPAndOptions :: "network \<Rightarrow> string \<Rightarrow> int \<Rightarrow> string \<Rightarrow> bool \<Rightarrow> int \<Rightarrow> int
    \<Rightarrow> http_check_options \<Rightarrow> http_check_result" where
  "checkHTTPWithIPAndOptions N host port ip skip timeout retries opts =
     (case validateHTTPMonitoringTarget host port ip of
        Some e \<Rightarrow> http_failure (''invalid request target: '' @ e)
      | None \<Rightarrow> (case buildHTTPCheckURL host port (ho_Path opts) of
          Inl e \<Rightarrow> http_failure (''invalid request path: '' @ e)
        | Inr requestURL \<Rightarrow> (case nw_NewRequest N (normalizeHTTPMethod (ho_Method opts)) requestURL of
            Some e \<Rightarrow> http_failure (''failed to create request: '' @ e)
          | None \<Rightarrow> (case nw_Do N (http_request_of host port ip skip timeout retries opts requestURL) of
              (Inl e, t) \<Rightarrow> (http_failure (''request failed: '' @ e))\<lparr>hr_ResponseTime := t\<rparr>
            | (Inr code, t) \<Rightarrow>
                if \<not> isExpectedHTTPStatus code (ho_ExpectedStatusCodes opts)
                then \<lparr>hr_Success = False, hr_ResponseTime = t, hr_StatusCode = code,
                      hr_Error = ''unexpected status code: '' @ Itoa code\<rparr>
                else \<lparr>hr_Success = True, hr_ResponseTime = t, hr_StatusCode = code, hr_Error = []\<rparr>))))"

section \<open>DNS\<close>

definition filterIPsByFamily :: "string list \<Rightarrow> bool \<Rightarrow> bool \<Rightarrow> string list" where
  "filterIPsByFamily ips includeIPv4 includeIPv6 =
     (if includeIPv4 \<and> includeIPv6 then ips
      else filter (\<lambda>ip. case ParseIP ip of None \<Rightarrow> False
             | Some p \<Rightarrow> if is_To4 p then includeIPv4 else includeIPv6) ips)"

record dns_check_result =
  dr_Success :: bool
  dr_IPs :: "string list"
  dr_Error :: string

definition checkDNSWithFilter :: "network \<Rightarrow> string \<Rightarrow> int \<Rightarrow> bool \<Rightarrow> bool \<Rightarrow> dns_check_result" where
  "checkDNSWithFilter N host timeout includeIPv4 includeIPv6 = (case nw_LookupHost N host timeout of
       Inl e \<Rightarrow> \<lparr>dr_Success = False, dr_IPs = [], dr_Error = ''DNS lookup failed: '' @ e\<rparr>
     | Inr ips \<Rightarrow> let f = filterIPsByFamily ips includeIPv4 includeIPv6
         in \<lparr>dr_Success = (f \<noteq> []), dr_IPs = f, dr_Error = []\<rparr>)"

section \<open>Certificates\<close>

record cert_info =
  ci_CommonName :: string
  ci_Issuer :: string
  ci_NotBefore :: int
  ci_NotAfter :: int
  ci_ExpiresIn :: int
  ci_IsValid :: bool

text \<open>\<open>Time.Sub\<close> saturates at the bounds of a duration.\<close>

definition time_Sub :: "int \<Rightarrow> int \<Rightarrow> int" where
  "time_Sub t u = max (- (2 ^ 63)) (min (2 ^ 63 - 1) (t - u))"

definition cert_info_of :: "int \<Rightarrow> x509 \<Rightarrow> cert_info" where
  "cert_info_of now c = \<lparr>ci_CommonName = x_CommonName c, ci_Issuer = x_Issuer c,
     ci_NotBefore = x_NotBefore c, ci_NotAfter = x_NotAfter c, ci_ExpiresIn = time_Sub (x_NotAfter c) now,
     ci_IsValid = (x_NotBefore c < now \<and> now < x_NotAfter c)\<rparr>"

definition getTLSCertWithIPAndRetries :: "network \<Rightarrow> string \<Rightarrow> int \<Rightarrow> string \<Rightarrow> bool \<Rightarrow> int \<Rightarrow> int
    \<Rightarrow> cert_info res" where
  "getTLSCertWithIPAndRetries N host port ip skip timeout retries =
     (case validateHTTPMonitoringTarget host port ip of
        Some e \<Rightarrow> Inl (''invalid request target: '' @ e)
      | None \<Rightarrow>
        (case retryHTTPDialContext (nw_DialTLS N \<lparr>td_Addr = JoinHostPort ip (Itoa port),
             td_ServerName = host, td_SkipVerify = skip, td_Timeout = timeout\<rparr>) retries of
           (_, Some e) \<Rightarrow> Inl (''failed to dial: '' @ e)
         | (None, None) \<Rightarrow> Inl ''not a TLS connection''
         | (Some PlainConn, None) \<Rightarrow> Inl ''not a TLS connection''
         | (Some (TLSConn []), None) \<Rightarrow> Inl ''no certificates found''
         | (Some (TLSConn (c # cs)), None) \<Rightarrow> Inr (cert_info_of (nw_now N) c)))"

section \<open>The checker\<close>

record domain_health =
  dh_Domain :: string
  dh_ResolveOk :: bool
  dh_IPCount :: int
  dh_HealthyIPs :: int
  dh_UnhealthyIPs :: int
  dh_LastChecked :: int

text \<open>The empty error type of the source is \<open>None\<close>.\<close>

record ip_health =
  ih_Domain :: string
  ih_IP :: string
  ih_DNSChecked :: bool
  ih_DNSOk :: bool
  ih_DNSError :: string
  ih_DNSErrorType :: "ErrorType option"
  ih_HTTPChecked :: bool
  ih_HTTPOk :: bool
  ih_HTTPError :: string
  ih_HTTPErrorType :: "ErrorType option"
  ih_ResponseTime :: int
  ih_CertChecked :: bool
  ih_CertOk :: bool
  ih_CertError :: string
  ih_CertErrorType :: "ErrorType option"
  ih_CertExpiry :: int
  ih_LastChecked :: int

record domain_checker =
  dk_timeout :: int
  dk_checkHTTP :: bool
  dk_checkDNS :: bool
  dk_checkCert :: bool
  dk_includeIPv4 :: bool
  dk_includeIPv6 :: bool
  dk_dialRetries :: int

definition NewDomainChecker :: "int \<Rightarrow> bool \<Rightarrow> bool \<Rightarrow> bool \<Rightarrow> bool \<Rightarrow> bool \<Rightarrow> int \<Rightarrow> domain_checker" where
  "NewDomainChecker timeout http dns cert v4 v6 retries =
     \<lparr>dk_timeout = timeout, dk_checkHTTP = http, dk_checkDNS = dns, dk_checkCert = cert,
      dk_includeIPv4 = v4, dk_includeIPv6 = v6, dk_dialRetries = normalizeDialRetries retries\<rparr>"

definition new_ip_health :: "string \<Rightarrow> string \<Rightarrow> bool \<Rightarrow> string \<Rightarrow> ErrorType option \<Rightarrow> int \<Rightarrow> ip_health" where
  "new_ip_health domain ip dnsOk dnsError dnsType now =
     \<lparr>ih_Domain = domain, ih_IP = ip, ih_DNSChecked = True, ih_DNSOk = dnsOk, ih_DNSError = dnsError,
      ih_DNSErrorType = dnsType, ih_HTTPChecked = False, ih_HTTPOk = False, ih_HTTPError = [],
      ih_HTTPErrorType = None, ih_ResponseTime = 0, ih_CertChecked = False, ih_CertOk = False,
      ih_CertError = [], ih_CertErrorType = None, ih_CertExpiry = 0, ih_LastChecked = now\<rparr>"

definition options_of :: "monitored_domain \<Rightarrow> http_check_options" where
  "options_of d = \<lparr>ho_Method = md_httpMethod d, ho_Path = md_httpPath d, ho_Headers = md_httpHeaders d,
     ho_ExpectedStatusCodes = md_expectedStatusCodes d, ho_FollowRedirects = md_followHTTPRedirects d\<rparr>"

definition http_part :: "network \<Rightarrow> domain_checker \<Rightarrow> monitored_domain \<Rightarrow> string \<Rightarrow> ip_health \<Rightarrow> ip_health" where
  "http_part N dc d ip h =
     (let r = checkHTTPWithIPAndOptions N (dt_Host (md_target d)) (dt_Port (md_target d)) ip
                (md_skipTLSVerify d) (dk_timeout dc) (dk_dialRetries dc) (options_of d)
      in h\<lparr>ih_HTTPChecked := True, ih_HTTPOk := hr_Success r, ih_HTTPError := hr_Error r,
           ih_ResponseTime := hr_ResponseTime r,
           ih_HTTPErrorType := (if \<not> hr_Success r \<and> hr_Error r \<noteq> ''''
              then Some (ClassifyHTTPError (hr_Error r)) else None)\<rparr>)"

definition cert_part :: "network \<Rightarrow> domain_checker \<Rightarrow> monitored_domain \<Rightarrow> string \<Rightarrow> ip_health \<Rightarrow> ip_health" where
  "cert_part N dc d ip h =
     (case getTLSCertWithIPAndRetries N (dt_Host (md_target d)) (dt_Port (md_target d)) ip
             (md_skipTLSVerify d) (dk_timeout dc) (dk_dialRetries dc) of
        Inl e \<Rightarrow> h\<lparr>ih_CertChecked := True, ih_CertOk := False, ih_CertError := e,
                   ih_CertErrorType := Some (ClassifyCertError e)\<rparr>
      | Inr ci \<Rightarrow>
          let h' = h\<lparr>ih_CertChecked := True, ih_CertOk := ci_IsValid ci, ih_CertExpiry := ci_ExpiresIn ci\<rparr> in
          if \<not> ci_IsValid ci
          then h'\<lparr>ih_CertError := ''certificate expired or not yet valid'',
                  ih_CertErrorType := Some CertExpired\<rparr>
          else h'\<lparr>ih_CertErrorType := None\<rparr>)"

definition runIPChecks :: "network \<Rightarrow> domain_checker \<Rightarrow> monitored_domain \<Rightarrow> string \<Rightarrow> ip_health \<Rightarrow> ip_health" where
  "runIPChecks N dc d ip h =
     (let h1 = (if dk_checkHTTP dc then http_part N dc d ip h else h)
      in if dk_checkCert dc then cert_part N dc d ip h1 else h1)"

text \<open>
  The checks of the addresses: one after the other for at most one address, else by up to ten workers that
  take indices from a channel. Each check writes only its own record, so the order of the workers
  does not matter; \<open>enq\<close> is the number of indices that were handed out before the context was
  done (all of them when it is not), and \<open>Ns i\<close> the network as the check of index \<open>i\<close> sees it.
\<close>

definition worker_count :: "nat \<Rightarrow> nat" where
  "worker_count n = min n 10"

definition check_addresses :: "(nat \<Rightarrow> network) \<Rightarrow> nat \<Rightarrow> domain_checker \<Rightarrow> monitored_domain \<Rightarrow> int
    \<Rightarrow> string list \<Rightarrow> ip_health list" where
  "check_addresses Ns enq dc d now ips =
     map (\<lambda>i. let ip = ips ! i; h = new_ip_health (md_endpoint d) ip True [] None now
              in if worker_count (length ips) \<le> 1 \<or> i < enq then runIPChecks (Ns i) dc d ip h else h)
         [0..<length ips]"

definition is_healthy :: "domain_checker \<Rightarrow> ip_health \<Rightarrow> bool" where
  "is_healthy dc h \<longleftrightarrow> (dk_checkHTTP dc \<longrightarrow> ih_HTTPOk h) \<and> (dk_checkCert dc \<longrightarrow> ih_CertOk h)"

definition empty_filter_text :: string where
  "empty_filter_text = ''DNS resolution returned no IPs after IP family filtering''"

definition summarize :: "domain_checker \<Rightarrow> monitored_domain \<Rightarrow> int \<Rightarrow> ip_health list \<Rightarrow> domain_health" where
  "summarize dc d now hs =
     (let healthy = int (length (filter (is_healthy dc) hs))
      in \<lparr>dh_Domain = md_endpoint d, dh_ResolveOk = True, dh_IPCount = int (length hs),
          dh_HealthyIPs = healthy, dh_UnhealthyIPs = int (length hs) - healthy, dh_LastChecked = now\<rparr>)"

definition CheckIPs :: "network \<Rightarrow> (nat \<Rightarrow> network) \<Rightarrow> nat \<Rightarrow> domain_checker \<Rightarrow> monitored_domain
    \<Rightarrow> domain_health \<times> ip_health list" where
  "CheckIPs N Ns enq dc d =
     (let now = nw_now N;
          none = \<lparr>dh_Domain = md_endpoint d, dh_ResolveOk = True, dh_IPCount = 0, dh_HealthyIPs = 0,
                  dh_UnhealthyIPs = 0, dh_LastChecked = now\<rparr>;
          run = (\<lambda>ips. let hs = check_addresses Ns enq dc d now ips in (summarize dc d now hs, hs))
      in if md_ips d = [] \<and> (dk_checkDNS dc \<or> dk_checkHTTP dc) then
           (let r = checkDNSWithFilter N (dt_Host (md_target d)) (dk_timeout dc)
                      (dk_includeIPv4 dc) (dk_includeIPv6 dc) in
            if \<not> dr_Success r
            then (none\<lparr>dh_ResolveOk := False\<rparr>,
                  [new_ip_health (md_endpoint d) [] False (dr_Error r) (Some (ClassifyDNSError (dr_Error r))) now])
            else if dr_IPs r = []
            then (none, [new_ip_health (md_endpoint d) [] False empty_filter_text
                           (Some (ClassifyDNSError empty_filter_text)) now])
            else run (dr_IPs r))
         else run (md_ips d))"

section \<open>Endpoints are printed and read back\<close>

lemma Contains_single: "Contains s [c] \<longleftrightarrow> c \<in> set s"
  by (auto simp: Contains_def sublist_def in_set_conv_decomp)

lemma Contains_set: "Contains s t \<Longrightarrow> set t \<subseteq> set s"
  by (auto simp: Contains_def sublist_def)

lemma unbracket_plain:
  assumes "TrimSpace h = h" "CHR ''['' \<notin> set h" "CHR '']'' \<notin> set h"
  shows "unbracket h = h"
  using assms
  by (auto simp: unbracket_def TrimPrefix_def TrimSuffix_def HasPrefix_def HasSuffix_def prefix_def suffix_def)

lemma unbracket_bracketed:
  assumes "CHR '']'' \<notin> set h"
  shows "unbracket (CHR ''['' # h @ [CHR '']'']) = h"
proof -
  have "TrimSpace (CHR ''['' # h @ [CHR '']'']) = CHR ''['' # h @ [CHR '']'']"
    unfolding TrimSpace_def by (rule Trim_by_fixed) (simp_all add: is_space_def)
  then show ?thesis
    by (simp add: unbracket_def TrimPrefix_def TrimSuffix_def HasPrefix_def HasSuffix_def)
qed

lemma digit_props:
  assumes "is_digit c"
  shows "\<not> is_space c" "c \<notin> set ''[]/?#:''"
  using assms by (auto simp: is_digit_def is_space_def)

lemma Itoa_digits: "0 \<le> i \<Longrightarrow> list_all is_digit (Itoa i) \<and> Itoa i \<noteq> []"
  using dec_string_digits by (simp add: Itoa_def)

definition host_ok :: "string \<Rightarrow> bool" where
  "host_ok h \<longleftrightarrow> h \<noteq> '''' \<and> TrimSpace h = h \<and> set h \<inter> set ''[]/?#'' = {}"

lemma authority_shape:
  assumes "host_ok h" "1 \<le> p"
  shows "TrimSpace (formatHTTPSAuthority h p) = formatHTTPSAuthority h p"
    "formatHTTPSAuthority h p \<noteq> ''''" "set (formatHTTPSAuthority h p) \<inter> set ''/?#'' = {}"
proof -
  have h: "h \<noteq> []" "\<not> is_space (hd h)" "\<not> is_space (last h)"
    using assms(1) Trim_by_edges [of is_space h] by (auto simp: host_ok_def TrimSpace_def)
  have d: "\<forall>c \<in> set (Itoa p). is_digit c" "Itoa p \<noteq> []"
    using Itoa_digits [of p] assms(2) by (auto simp: list_all_iff)
  have l: "\<not> is_space (last (Itoa p))" using d digit_props by simp
  have b: "\<not> is_space CHR ''[''" "\<not> is_space CHR '']''" by (simp_all add: is_space_def)
  show "formatHTTPSAuthority h p \<noteq> ''''"
    using h by (simp add: formatHTTPSAuthority_def JoinHostPort_def)
  then show "TrimSpace (formatHTTPSAuthority h p) = formatHTTPSAuthority h p"
    unfolding TrimSpace_def
  proof (rule Trim_by_fixed)
    show "\<not> is_space (hd (formatHTTPSAuthority h p))"
      using h b by (simp add: formatHTTPSAuthority_def JoinHostPort_def)
    show "\<not> is_space (last (formatHTTPSAuthority h p))"
      using h b d(2) l by (simp add: formatHTTPSAuthority_def JoinHostPort_def)
  qed
  show "set (formatHTTPSAuthority h p) \<inter> set ''/?#'' = {}"
    using assms(1) d digit_props(2)
    by (auto simp: formatHTTPSAuthority_def JoinHostPort_def host_ok_def)
qed

lemma SplitHostPort_no_colon: "CHR '':'' \<notin> set h \<Longrightarrow> SplitHostPort h = Inl MissingPort"
  using LastIndexByte_None [of h "CHR '':''"] by (simp add: SplitHostPort_def)

lemma SplitHostPort_only_brackets:
  assumes "CHR '']'' \<notin> set h" "CHR '':'' \<in> set h"
  shows "SplitHostPort (CHR ''['' # h @ [CHR '']'']) = Inl MissingPort"
proof -
  obtain i where i: "LastIndexByte (CHR ''['' # h @ [CHR '']'']) CHR '':'' = Some i"
    using LastIndexByte_None [of "CHR ''['' # h @ [CHR '']'']" "CHR '':''"] assms(2) by auto
  have "IndexByte (h @ [CHR '']'']) CHR '']'' = Some (length h)"
    using IndexByte_append [of "CHR '']''" h "[]"] assms(1) by simp
  then show ?thesis using i by (simp add: SplitHostPort_def Let_def)
qed

text \<open>The authority that a request is sent to, printed from a host and a port, is read back by the
  parser of endpoints as the same host and port: the default port is left out and supplied again, and
  an IPv6 address is put into brackets and taken out of them.\<close>

theorem authority_round_trip:
  assumes "host_ok h" "1 \<le> p" "p \<le> 65535"
  shows "parseDomainTarget (formatHTTPSAuthority h p) = Inr \<lparr>dt_Host = h, dt_Port = p\<rparr>"
proof -
  let ?a = "formatHTTPSAuthority h p"
  note shape = authority_shape [OF assms(1,2)]
  have clean: "\<not> Contains ?a ''://''" "\<not> list_ex (\<lambda>c. c \<in> set ''/?#'') ?a"
    using shape(3) Contains_set [of ?a "''://''"] by (auto simp: list_ex_iff)
  have h: "h \<noteq> []" "TrimSpace h = h" "CHR ''['' \<notin> set h" "CHR '']'' \<notin> set h"
    using assms(1) by (auto simp: host_ok_def)
  have made: "newDomainTarget g q v = Inr \<lparr>dt_Host = h, dt_Port = q\<rparr>"
    if "unbracket g = h" "1 \<le> q" "q \<le> 65535" for g q v
    using that h by (simp add: newDomainTarget_def)
  note parse = parseDomainTarget_def [of ?a, unfolded shape(1)]
  show ?thesis
  proof (cases "p = 443")
    case True
    have "SplitHostPort ?a = Inl MissingPort" "unbracket ?a = h"
      using True h SplitHostPort_no_colon [of h] SplitHostPort_only_brackets [OF h(4)]
        unbracket_plain [OF h(2-4)] unbracket_bracketed [OF h(4)]
      by (cases "CHR '':'' \<in> set h"; simp add: formatHTTPSAuthority_def Contains_single)+
    then show ?thesis
      unfolding parse using True clean shape(2) made [of ?a 443] by simp
  next
    case False
    have d: "\<forall>c \<in> set (Itoa p). is_digit c" using Itoa_digits [of p] assms(2) by (auto simp: list_all_iff)
    then have "set (Itoa p) \<inter> set ''[]/?#:'' = {}" using digit_props(2) by blast
    then have "SplitHostPort ?a = Inr (h, Itoa p)"
      using False h SplitHostPort_Join [of h "Itoa p"] by (auto simp: formatHTTPSAuthority_def)
    moreover have "parsePort (Itoa p) ?a = Inr p"
      using assms Atoi_Itoa [of p] by (simp add: parsePort_def)
    ultimately show ?thesis
      using clean shape(2) made [OF unbracket_plain [OF h(2-4)] assms(2,3)]
      by (simp add: parse)
  qed
qed

lemma authority_round_trip_witness:
  "parseDomainTarget (formatHTTPSAuthority ''2001:db8::1'' 443) = Inr \<lparr>dt_Host = ''2001:db8::1'', dt_Port = 443\<rparr>
   \<and> formatHTTPSAuthority ''2001:db8::1'' 443 = ''[2001:db8::1]''
   \<and> parseDomainTarget (formatHTTPSAuthority ''a.io'' 8443) = Inr \<lparr>dt_Host = ''a.io'', dt_Port = 8443\<rparr>"
proof -
  have "host_ok ''2001:db8::1''" "host_ok ''a.io''" by code_simp+
  moreover have "formatHTTPSAuthority ''2001:db8::1'' 443 = ''[2001:db8::1]''" by code_simp
  ultimately show ?thesis
    using authority_round_trip [of "''2001:db8::1''" 443] authority_round_trip [of "''a.io''" 8443] by simp
qed

section \<open>What a check reports\<close>

lemma cert_part_http:
  "ih_HTTPChecked (cert_part N dc d ip h) = ih_HTTPChecked h" "ih_HTTPOk (cert_part N dc d ip h) = ih_HTTPOk h"
  "ih_HTTPErrorType (cert_part N dc d ip h) = ih_HTTPErrorType h"
  "ih_HTTPError (cert_part N dc d ip h) = ih_HTTPError h"
  "ih_ResponseTime (cert_part N dc d ip h) = ih_ResponseTime h"
  by (auto simp: cert_part_def Let_def split: sum.splits)

lemma cert_part_names:
  "ih_Domain (cert_part N dc d ip h) = ih_Domain h" "ih_IP (cert_part N dc d ip h) = ih_IP h"
  "ih_DNSChecked (cert_part N dc d ip h) = ih_DNSChecked h" "ih_DNSOk (cert_part N dc d ip h) = ih_DNSOk h"
  by (auto simp: cert_part_def Let_def split: sum.splits)

lemma runIPChecks_names [simp]:
  "ih_Domain (runIPChecks N dc d ip h) = ih_Domain h" "ih_IP (runIPChecks N dc d ip h) = ih_IP h"
  "ih_DNSChecked (runIPChecks N dc d ip h) = ih_DNSChecked h" "ih_DNSOk (runIPChecks N dc d ip h) = ih_DNSOk h"
  by (simp_all add: runIPChecks_def http_part_def Let_def cert_part_names)

lemma new_ip_health_names [simp]:
  "ih_Domain (new_ip_health e ip ok m t now) = e" "ih_IP (new_ip_health e ip ok m t now) = ip"
  "ih_DNSChecked (new_ip_health e ip ok m t now)" "ih_DNSOk (new_ip_health e ip ok m t now) = ok"
  by (simp_all add: new_ip_health_def)

text \<open>The HTTP check of an address gets an answer.\<close>

definition answers :: "network \<Rightarrow> domain_checker \<Rightarrow> monitored_domain \<Rightarrow> string \<Rightarrow> int \<Rightarrow> int \<Rightarrow> bool" where
  "answers N dc d ip code t \<longleftrightarrow>
     (let host = dt_Host (md_target d); port = dt_Port (md_target d) in
      validateHTTPMonitoringTarget host port ip = None \<and>
      (case buildHTTPCheckURL host port (md_httpPath d) of Inl e \<Rightarrow> False
       | Inr u \<Rightarrow> nw_NewRequest N (normalizeHTTPMethod (md_httpMethod d)) u = None
           \<and> nw_Do N (http_request_of host port ip (md_skipTLSVerify d) (dk_timeout dc) (dk_dialRetries dc)
                 (options_of d) u) = (Inr code, t)))"

lemma http_result:
  assumes "answers N dc d ip code t"
  shows "checkHTTPWithIPAndOptions N (dt_Host (md_target d)) (dt_Port (md_target d)) ip (md_skipTLSVerify d)
      (dk_timeout dc) (dk_dialRetries dc) (options_of d)
    = (if isExpectedHTTPStatus code (md_expectedStatusCodes d)
       then \<lparr>hr_Success = True, hr_ResponseTime = t, hr_StatusCode = code, hr_Error = []\<rparr>
       else \<lparr>hr_Success = False, hr_ResponseTime = t, hr_StatusCode = code,
             hr_Error = status_text @ Itoa code\<rparr>)"
  using assms
  by (auto simp: status_text_def answers_def checkHTTPWithIPAndOptions_def options_of_def Let_def split: sum.splits)

text \<open>An answered HTTP check succeeds exactly for an expected status, by default one from 200 to 499,
  and records the response time. An unexpected status is classified by its code, but a client error only
  from 400 to 409: every other one, such as 418 or a redirect that was not expected, is reported as a
  server error.\<close>

theorem answered_check_is_classified:
  assumes "dk_checkHTTP dc" "answers N dc d ip (int code) t" "100 \<le> code" "code \<le> 999"
  shows "let h' = runIPChecks N dc d ip h in
    ih_HTTPChecked h' \<and> ih_ResponseTime h' = t
    \<and> ih_HTTPOk h' = (if md_expectedStatusCodes d = [] then 200 \<le> code \<and> code < 500
                      else int code \<in> set (md_expectedStatusCodes d))
    \<and> ih_HTTPErrorType h' = (if ih_HTTPOk h' then None
         else if 400 \<le> code \<and> code \<le> 409 then Some HTTPClientError else Some HTTPServerError)"
proof -
  let ?s = "status_text @ Itoa (int code)"
  have ne: "status_text \<noteq> []" by (simp add: status_text_def)
  have "(200 \<le> int code) = (200 \<le> code)" "(int code < 500) = (code < 500)" by simp_all
  then show ?thesis
    unfolding runIPChecks_def http_part_def http_result [OF assms(2)]
    using assms(1) ne status_classified [OF assms(3,4)]
    by (simp add: Let_def cert_part_http isExpectedHTTPStatus_def)
qed

definition teapot_network :: "int \<Rightarrow> network" where
  "teapot_network code = \<lparr>nw_LookupHost = (\<lambda>h t. if h = ''a.io'' then Inr [''10.0.0.1'', ''::1'', ''10.0.0.1'']
       else Inl ''no such host''),
     nw_NewRequest = (\<lambda>m u. None), nw_Do = (\<lambda>r. (Inr code, 7)),
     nw_DialTLS = (\<lambda>a n. (if n = 0 then Inl ''connection refused''
         else Inr (TLSConn [\<lparr>x_CommonName = ''a.io'', x_Issuer = ''ca'', x_NotBefore = 0, x_NotAfter = 100\<rparr>]), False)),
     nw_now = 40\<rparr>"

definition teapot_domain :: monitored_domain where
  "teapot_domain = \<lparr>md_endpoint = ''a.io'', md_target = \<lparr>dt_Host = ''a.io'', dt_Port = 443\<rparr>,
     md_ips = [], md_skipTLSVerify = False, md_followHTTPRedirects = True, md_httpMethod = ''GET'',
     md_httpPath = ''/x'', md_httpHeaders = [], md_expectedStatusCodes = [200]\<rparr>"

definition teapot_checker :: domain_checker where
  "teapot_checker = NewDomainChecker 30 True True True True False 2"

lemma teapot_answers: "answers (teapot_network 418) teapot_checker teapot_domain ''10.0.0.1'' 418 7"
  by code_simp

lemma answered_check_is_classified_witness:
  "let h = runIPChecks (teapot_network 418) teapot_checker teapot_domain ''10.0.0.1''
             (new_ip_health ''a.io'' ''10.0.0.1'' True [] None 0)
   in \<not> ih_HTTPOk h \<and> ih_HTTPErrorType h = Some HTTPServerError"
  using answered_check_is_classified [of teapot_checker "teapot_network 418" teapot_domain "''10.0.0.1''" 418 7
      "new_ip_health ''a.io'' ''10.0.0.1'' True [] None 0"] teapot_answers
  by (simp add: Let_def teapot_checker_def NewDomainChecker_def teapot_domain_def)

text \<open>What a check should report: with the addresses that are configured or resolved and pass the family
  filter, one record for each, in their order; without any, one record of the failure.\<close>

definition addresses :: "network \<Rightarrow> domain_checker \<Rightarrow> monitored_domain \<Rightarrow> string + string list" where
  "addresses N dc d =
     (if md_ips d = [] \<and> (dk_checkDNS dc \<or> dk_checkHTTP dc)
      then (case nw_LookupHost N (dt_Host (md_target d)) (dk_timeout dc) of
          Inl e \<Rightarrow> Inl (''DNS lookup failed: '' @ e)
        | Inr ips \<Rightarrow> let f = filterIPsByFamily ips (dk_includeIPv4 dc) (dk_includeIPv6 dc)
            in if f = [] then Inl [] else Inr f)
      else Inr (md_ips d))"

definition checked :: "nat \<Rightarrow> nat \<Rightarrow> nat \<Rightarrow> bool" where
  "checked enq n i \<longleftrightarrow> n \<le> 1 \<or> i < enq"

lemma CheckIPs_addresses:
  "CheckIPs N Ns enq dc d = (case addresses N dc d of
     Inl e \<Rightarrow> (\<lparr>dh_Domain = md_endpoint d, dh_ResolveOk = False, dh_IPCount = 0, dh_HealthyIPs = 0,
                dh_UnhealthyIPs = 0, dh_LastChecked = nw_now N\<rparr>,
              [new_ip_health (md_endpoint d) [] False e (Some (ClassifyDNSError e)) (nw_now N)])
   | Inr ips \<Rightarrow> let hs = check_addresses Ns enq dc d (nw_now N) ips
               in (summarize dc d (nw_now N) hs, hs))"
  by (auto simp: CheckIPs_def addresses_def checkDNSWithFilter_def Let_def split: sum.splits)

lemma check_addresses_nth:
  assumes "i < length ips"
  shows "check_addresses Ns enq dc d now ips ! i =
    (let h = new_ip_health (md_endpoint d) (ips ! i) True [] None now
     in if checked enq (length ips) i then runIPChecks (Ns i) dc d (ips ! i) h else h)"
proof -
  have "worker_count (length ips) \<le> 1 \<longleftrightarrow> length ips \<le> 1" by (auto simp: worker_count_def)
  then show ?thesis using assms by (simp add: check_addresses_def checked_def Let_def)
qed

lemma check_addresses_length [simp]: "length (check_addresses Ns enq dc d now ips) = length ips"
  by (simp add: check_addresses_def)

lemma check_addresses_record:
  assumes "h \<in> set (check_addresses Ns enq dc d now ips)"
  shows "ih_Domain h = md_endpoint d \<and> ih_DNSOk h \<and> ih_DNSChecked h"
  using assms by (auto simp: check_addresses_def Let_def)

lemma check_addresses_IPs [simp]: "map ih_IP (check_addresses Ns enq dc d now ips) = ips"
  by (rule nth_equalityI) (simp_all add: check_addresses_nth Let_def)

lemma unchecked_unhealthy:
  "is_healthy dc (new_ip_health e ip True [] None now) \<longleftrightarrow> \<not> dk_checkHTTP dc \<and> \<not> dk_checkCert dc"
  by (auto simp: is_healthy_def new_ip_health_def)

text \<open>A check accounts for every address of the domain: one record for each, in order, checked unless the
  context ended before its turn, in which case it counts as unhealthy when any check is enabled; healthy
  and unhealthy addresses add up to the count, and a healthy one passed every enabled check. When the
  resolution fails or the family filter leaves no address, the domain is reported as not resolved with one
  record of the failure; in the second case that record has no error text and the type of a general DNS
  error, as the branch meant for it is not reached.\<close>

theorem check_accounts_for_every_address:
  shows "case addresses N dc d of
     Inl e \<Rightarrow> let (dh, hs) = CheckIPs N Ns enq dc d in
        \<not> dh_ResolveOk dh \<and> dh_IPCount dh = 0 \<and> dh_HealthyIPs dh = 0
        \<and> hs = [new_ip_health (md_endpoint d) [] False e (Some (ClassifyDNSError e)) (nw_now N)]
        \<and> (e = [] \<longrightarrow> map ih_DNSErrorType hs = [Some DNSError])
   | Inr ips \<Rightarrow> let (dh, hs) = CheckIPs N Ns enq dc d in
        dh_ResolveOk dh \<and> map ih_IP hs = ips
        \<and> dh_IPCount dh = int (length ips) \<and> dh_HealthyIPs dh + dh_UnhealthyIPs dh = dh_IPCount dh
        \<and> dh_HealthyIPs dh = int (length (filter (is_healthy dc) hs)) \<and> 0 \<le> dh_UnhealthyIPs dh
        \<and> (\<forall>i < length ips.
             let h = new_ip_health (md_endpoint d) (ips ! i) True [] None (nw_now N) in
             if checked enq (length ips) i then hs ! i = runIPChecks (Ns i) dc d (ips ! i) h
             else hs ! i = h \<and> (dk_checkHTTP dc \<or> dk_checkCert dc \<longrightarrow> \<not> is_healthy dc (hs ! i)))"
proof (cases "addresses N dc d")
  case (Inl e)
  then show ?thesis
    by (simp add: CheckIPs_addresses ClassifyDNSError_def new_ip_health_def)
next
  case (Inr ips)
  let ?hs = "check_addresses Ns enq dc d (nw_now N) ips"
  have "length (filter (is_healthy dc) ?hs) \<le> length ips"
    using length_filter_le [of "is_healthy dc" ?hs] by simp
  then show ?thesis
    by (simp add: Inr CheckIPs_addresses summarize_def check_addresses_nth unchecked_unhealthy Let_def)
qed

lemma check_accounts_for_every_address_witness:
  "map ih_DNSErrorType (snd (CheckIPs (teapot_network 200) (\<lambda>i. teapot_network 200) 9
      (teapot_checker\<lparr>dk_includeIPv4 := False\<rparr>) teapot_domain)) = [Some DNSError]
   \<and> map ih_IP (snd (CheckIPs (teapot_network 200) (\<lambda>i. teapot_network 200) 9 teapot_checker teapot_domain))
     = [''10.0.0.1'', ''10.0.0.1'']"
proof -
  have "addresses (teapot_network 200) (teapot_checker\<lparr>dk_includeIPv4 := False\<rparr>) teapot_domain = Inl []"
    "addresses (teapot_network 200) teapot_checker teapot_domain = Inr [''10.0.0.1'', ''10.0.0.1'']"
    by code_simp+
  then show ?thesis
    using check_accounts_for_every_address
        [of "teapot_network 200" "\<lambda>i. teapot_network 200" 9 "teapot_checker\<lparr>dk_includeIPv4 := False\<rparr>" teapot_domain]
      check_accounts_for_every_address
        [of "teapot_network 200" "\<lambda>i. teapot_network 200" 9 teapot_checker teapot_domain]
    by (simp add: split_beta ClassifyDNSError_def new_ip_health_def)
qed

end
