(* ===== verification/Domain_Collector.thy ===== *)
theory Domain_Collector
  imports Domain_Check Base_Collector Prom_Client "HOL-Library.Multiset"
begin

text \<open>
  \<open>pkg/collector/domain/domain.go\<close> and \<open>factory.go\<close>: the collector that checks every configured
  domain on each turn of the poll loop, replaces its two maps and emits them. The domains of a poll
  are checked concurrently, each by its own goroutine that stores its results under a lock, so a
  poll is given the domains in the order in which their checks ended, each with the network that its
  checks saw. The maps are iterated in the order of given lists of their entries.
\<close>

section \<open>State\<close>

record domain_descs =
  dd_health :: desc
  dd_dns :: desc
  dd_status :: desc
  dd_expiry :: desc
  dd_response :: desc

record domain_collector =
  dcl_runtime :: runtime_config
  dcl_checker :: domain_checker
  dcl_ips :: "string \<Rightarrow> ip_health option"
  dcl_domains :: "string \<Rightarrow> domain_health option"
  dcl_descs :: domain_descs

definition domain_desc :: "prom \<Rightarrow> string \<Rightarrow> string \<Rightarrow> string \<Rightarrow> string list \<Rightarrow> desc" where
  "domain_desc P ns n help labels = \<lparr>d_fqName = pr_BuildFQName P ns ''domain'' n, d_help = help, d_labels = labels\<rparr>"

definition domain_descs_of :: "prom \<Rightarrow> string \<Rightarrow> domain_descs" where
  "domain_descs_of P ns =
     \<lparr>dd_health = domain_desc P ns ''health'' ''Domain-level health metrics'' [''domain'', ''type''],
      dd_dns = domain_desc P ns ''dns_status'' ''Domain DNS status (1=ok, 0=error)'' [''domain'', ''error_type''],
      dd_status = domain_desc P ns ''status'' ''Domain IP status (1=ok, 0=error)''
         [''domain'', ''ip'', ''check_type'', ''error_type''],
      dd_expiry = domain_desc P ns ''cert_expiry_seconds'' ''Domain certificate expiry in seconds''
         [''domain'', ''ip'', ''error_type''],
      dd_response = domain_desc P ns ''response_time_seconds'' ''Domain IP response time in seconds''
         [''domain'', ''ip'']\<rparr>"

definition domain_desc_list :: "domain_descs \<Rightarrow> desc list" where
  "domain_desc_list D = [dd_health D, dd_dns D, dd_status D, dd_expiry D, dd_response D]"

text \<open>\<open>initMetrics\<close> builds the descriptors and registers them with the base collector.\<close>

fun register_all :: "desc list \<Rightarrow> base \<Rightarrow> base go" where
  "register_all [] b = Ret b"
| "register_all (d # ds) b = bind_go (MustRegisterDesc b (Some (d_fqName d))) (register_all ds)"

definition domain_initMetrics :: "prom \<Rightarrow> string \<Rightarrow> base \<Rightarrow> (domain_descs \<times> base) go" where
  "domain_initMetrics P ns b =
     (let D = domain_descs_of P ns in bind_go (register_all (domain_desc_list D) b) (\<lambda>b'. Ret (D, b')))"

text \<open>\<open>load\<close> is \<open>LoadModuleConfig\<close> on the section of the collector; its error is only logged.\<close>

definition domain_NewCollector :: "prom \<Rightarrow> string \<Rightarrow> 'm decoder \<Rightarrow> ('m domain_config \<Rightarrow> 'm domain_config \<times> err option)
    \<Rightarrow> (domain_collector \<times> base) res go" where
  "domain_NewCollector P ns D load = (case newRuntimeConfig D (fst (load domain_NewDefaultConfig)) of
       Inl e \<Rightarrow> Ret (Inl e)
     | Inr rc \<Rightarrow>
         bind_go (domain_initMetrics P ns (NewBaseCollector ''domain'' [WithWaitReadyOnCollect True]))
           (\<lambda>(descs, b). Ret (Inr
              (\<lparr>dcl_runtime = rc,
                dcl_checker = NewDomainChecker (rc_checkTimeout rc) (rc_includeHTTPCheck rc) True
                  (rc_includeCertCheck rc) (rc_includeIPv4 rc) (rc_includeIPv6 rc) (rc_dialRetries rc),
                dcl_ips = Map.empty, dcl_domains = Map.empty, dcl_descs = descs\<rparr>, b))))"

definition domain_HasSynced :: "domain_collector \<Rightarrow> bool" where
  "domain_HasSynced c = True"

definition domain_Interval :: "domain_collector \<Rightarrow> int" where
  "domain_Interval c = rc_checkInterval (dcl_runtime c)"

section \<open>Polling\<close>

definition ipKey :: "string \<Rightarrow> string \<Rightarrow> string" where
  "ipKey domain ip = domain @ ''/'' @ ip"

record poll_turn =
  pt_domain :: monitored_domain
  pt_network :: network
  pt_networks :: "nat \<Rightarrow> network"
  pt_enqueued :: nat

definition checked_domain :: "domain_checker \<Rightarrow> poll_turn \<Rightarrow> domain_health \<times> ip_health list" where
  "checked_domain dc t = CheckIPs (pt_network t) (pt_networks t) (pt_enqueued t) dc (pt_domain t)"

definition store_ips :: "ip_health list \<Rightarrow> (string \<Rightarrow> ip_health option) \<Rightarrow> (string \<Rightarrow> ip_health option)" where
  "store_ips hs m = foldl (\<lambda>m h. m(ipKey (ih_Domain h) (ih_IP h) \<mapsto> h)) m hs"

definition store_result :: "domain_checker
    \<Rightarrow> (string \<Rightarrow> domain_health option) \<times> (string \<Rightarrow> ip_health option) \<Rightarrow> poll_turn
    \<Rightarrow> (string \<Rightarrow> domain_health option) \<times> (string \<Rightarrow> ip_health option)" where
  "store_result dc maps t = (case maps of (ds, is) \<Rightarrow> case checked_domain dc t of (dh, hs) \<Rightarrow>
     (ds(md_endpoint (pt_domain t) \<mapsto> dh), store_ips hs is))"

text \<open>The turns are the configured domains, each once, in the order in which their checks end.\<close>

definition domain_Poll :: "poll_turn list \<Rightarrow> domain_collector \<Rightarrow> domain_collector" where
  "domain_Poll turns c =
     (if rc_domains (dcl_runtime c) = [] then c
      else case foldl (store_result (dcl_checker c)) (Map.empty, Map.empty) turns of
        (ds, is) \<Rightarrow> c\<lparr>dcl_ips := is, dcl_domains := ds\<rparr>)"

definition poll_of :: "domain_collector \<Rightarrow> poll_turn list \<Rightarrow> bool" where
  "poll_of c turns \<longleftrightarrow> mset (map pt_domain turns) = mset (rc_domains (dcl_runtime c))"

text \<open>The poll loop over the turns of each poll, with the durations of the polls.\<close>

definition poll_next :: "(poll_turn list \<times> int) list \<times> domain_collector
    \<Rightarrow> err option \<times> int \<times> (poll_turn list \<times> int) list \<times> domain_collector" where
  "poll_next s = (case s of ([], c) \<Rightarrow> (None, 0, [], c) | ((ts, d) # rest, c) \<Rightarrow> (None, d, rest, domain_Poll ts c))"

definition domain_poll_options :: "domain_collector \<Rightarrow> poll_options" where
  "domain_poll_options c = \<lparr>po_Interval = rc_checkInterval (dcl_runtime c), po_Operation = ''domain'',
     po_SlowThreshold = 0, po_SuccessInfoLog = False\<rparr>"

definition domain_pollLoop :: "base \<Rightarrow> (poll_turn list \<times> int) list \<times> domain_collector \<Rightarrow> loop_event list
    \<Rightarrow> (base \<times> poll_log list \<times> (poll_turn list \<times> int) list \<times> domain_collector) go" where
  "domain_pollLoop b s es = RunPollLoop poll_next (domain_poll_options (snd s)) b s es"

section \<open>Emission\<close>

definition error_type_text :: "ErrorType option \<Rightarrow> string" where
  "error_type_text t = (case t of None \<Rightarrow> '''' | Some e \<Rightarrow> (case e of
       ConnectionRefused \<Rightarrow> ''ConnectionRefused'' | Timeout \<Rightarrow> ''Timeout'' | DNSError \<Rightarrow> ''DNSError''
     | DNSNoSuchHost \<Rightarrow> ''DNSNoSuchHost'' | DNSNoAnswer \<Rightarrow> ''DNSNoAnswer''
     | HTTPClientError \<Rightarrow> ''HTTPClientError'' | HTTPServerError \<Rightarrow> ''HTTPServerError''
     | SSLError \<Rightarrow> ''SSLError'' | NetworkError \<Rightarrow> ''NetworkError'' | NoResolvedIP \<Rightarrow> ''NoResolvedIP''
     | CertExpired \<Rightarrow> ''CertExpired'' | CertNotFound \<Rightarrow> ''CertNotFound'' | CertInvalid \<Rightarrow> ''CertInvalid''
     | CertHostnameMismatch \<Rightarrow> ''CertHostnameMismatch'' | UnknownError \<Rightarrow> ''Unknown'' | NoError \<Rightarrow> ''None''))"

definition health_rows :: "domain_descs \<Rightarrow> domain_health \<Rightarrow> row list" where
  "health_rows D h =
     [(dd_health D, boolToFloat64 (dh_ResolveOk h), [dh_Domain h, ''resolve'']),
      (dd_health D, float_of_int (dh_IPCount h), [dh_Domain h, ''ip_count'']),
      (dd_health D, float_of_int (dh_HealthyIPs h), [dh_Domain h, ''healthy_ips'']),
      (dd_health D, float_of_int (dh_UnhealthyIPs h), [dh_Domain h, ''unhealthy_ips''])]"

fun dns_rows :: "domain_descs \<Rightarrow> string set \<Rightarrow> ip_health list \<Rightarrow> row list" where
  "dns_rows D emitted [] = []"
| "dns_rows D emitted (h # hs) =
     (if ih_DNSChecked h \<and> ih_Domain h \<notin> emitted
      then (dd_dns D, boolToFloat64 (ih_DNSOk h), [ih_Domain h, error_type_text (ih_DNSErrorType h)])
             # dns_rows D (insert (ih_Domain h) emitted) hs
      else dns_rows D emitted hs)"

definition ip_rows :: "runtime_config \<Rightarrow> domain_descs \<Rightarrow> ip_health \<Rightarrow> row list" where
  "ip_rows rc D h =
     (if rc_includeHTTPCheck rc \<and> ih_HTTPChecked h
      then (dd_status D, boolToFloat64 (ih_HTTPOk h),
              [ih_Domain h, ih_IP h, ''http'', error_type_text (ih_HTTPErrorType h)])
           # (if ih_HTTPOk h then [(dd_response D, Seconds (ih_ResponseTime h), [ih_Domain h, ih_IP h])] else [])
      else [])
     @ (if rc_includeCertCheck rc \<and> ih_CertChecked h
        then (dd_status D, boolToFloat64 (ih_CertOk h),
                [ih_Domain h, ih_IP h, ''cert'', error_type_text (ih_CertErrorType h)])
             # (if ih_CertOk h \<and> ih_CertExpiry h > 0
                then [(dd_expiry D, Seconds (ih_CertExpiry h),
                        [ih_Domain h, ih_IP h, error_type_text (ih_CertErrorType h)])] else [])
        else [])"

text \<open>\<open>ds\<close>, \<open>is\<close> and \<open>is'\<close> are the entries in the order of the three loops.\<close>

definition collect_rows :: "domain_collector \<Rightarrow> (string \<times> domain_health) list \<Rightarrow> (string \<times> ip_health) list
    \<Rightarrow> (string \<times> ip_health) list \<Rightarrow> row list" where
  "collect_rows c ds is is' =
     concat (map (health_rows (dcl_descs c) \<circ> snd) ds)
     @ dns_rows (dcl_descs c) {} (map snd is)
     @ concat (map (ip_rows (dcl_runtime c) (dcl_descs c) \<circ> snd) is')"

definition domain_collect :: "prom \<Rightarrow> domain_collector \<Rightarrow> (string \<times> domain_health) list \<Rightarrow> (string \<times> ip_health) list
    \<Rightarrow> (string \<times> ip_health) list \<Rightarrow> pmetric list \<times> string option" where
  "domain_collect P c ds is is' = emit (map (\<lambda>(d, v, ls). const_metric P d v ls) (collect_rows c ds is is'))"

section \<open>The maps after a poll\<close>

lemma CheckIPs_Domain:
  assumes "CheckIPs N Ns enq dc d = (dh, hs)"
  shows "dh_Domain dh = md_endpoint d" "h \<in> set hs \<Longrightarrow> ih_Domain h = md_endpoint d"
  using assms check_addresses_record [of h Ns enq dc d "nw_now N"]
  by (auto simp: CheckIPs_addresses summarize_def Let_def split: sum.splits)

abbreviation turn_endpoint :: "poll_turn \<Rightarrow> string" where
  "turn_endpoint t \<equiv> md_endpoint (pt_domain t)"

lemma checked_Domain: "h \<in> set (snd (checked_domain dc t)) \<Longrightarrow> ih_Domain h = turn_endpoint t"
  using CheckIPs_Domain(2) [of "pt_network t" "pt_networks t" "pt_enqueued t" dc "pt_domain t"]
  by (simp add: checked_domain_def prod_eq_iff)

lemma store_ips_simps [simp]:
  "store_ips [] m = m" "store_ips (h # hs) m = store_ips hs (m(ipKey (ih_Domain h) (ih_IP h) \<mapsto> h))"
  by (simp_all add: store_ips_def)

definition ips_keyed :: "(string \<Rightarrow> ip_health option) \<Rightarrow> bool" where
  "ips_keyed m \<longleftrightarrow> (\<forall>k h. m k = Some h \<longrightarrow> k = ipKey (ih_Domain h) (ih_IP h))"

lemma ips_keyed_simps [simp]:
  "ips_keyed Map.empty" "ips_keyed m \<Longrightarrow> ips_keyed (m(ipKey (ih_Domain h) (ih_IP h) \<mapsto> h))"
  by (auto simp: ips_keyed_def)

lemma store_ips_keyed: "ips_keyed m \<Longrightarrow> ips_keyed (store_ips hs m)"
  by (induction hs arbitrary: m) simp_all

definition maps_keyed :: "(string \<Rightarrow> domain_health option) \<times> (string \<Rightarrow> ip_health option) \<Rightarrow> bool" where
  "maps_keyed maps \<longleftrightarrow> (\<forall>k h. fst maps k = Some h \<longrightarrow> dh_Domain h = k)
     \<and> ips_keyed (snd maps)"

definition col_inv :: "domain_collector \<Rightarrow> bool" where
  "col_inv c \<longleftrightarrow> (\<forall>k h. dcl_domains c k = Some h \<longrightarrow> dh_Domain h = k)
     \<and> ips_keyed (dcl_ips c)"

lemma store_result_keyed:
  assumes "maps_keyed maps"
  shows "maps_keyed (store_result dc maps t)"
proof -
  obtain dh hs where r: "checked_domain dc t = (dh, hs)" by (cases "checked_domain dc t")
  then have "dh_Domain dh = md_endpoint (pt_domain t)"
    using CheckIPs_Domain(1) unfolding checked_domain_def by blast
  moreover have "store_result dc maps t
      = ((fst maps)(md_endpoint (pt_domain t) \<mapsto> dh), store_ips hs (snd maps))"
    using r by (simp add: store_result_def split_beta)
  ultimately show ?thesis using assms store_ips_keyed by (simp add: maps_keyed_def)
qed

lemma foldl_keyed: "maps_keyed maps \<Longrightarrow> maps_keyed (foldl (store_result dc) maps turns)"
  by (induction turns arbitrary: maps) (simp_all add: store_result_keyed)

lemma col_inv_Poll: "col_inv c \<Longrightarrow> col_inv (domain_Poll turns c)"
  using foldl_keyed [of "(Map.empty, Map.empty)" "dcl_checker c" turns]
  by (auto simp: domain_Poll_def col_inv_def maps_keyed_def split_beta)

lemma domain_Poll_fields [simp]:
  "dcl_runtime (domain_Poll turns c) = dcl_runtime c" "dcl_checker (domain_Poll turns c) = dcl_checker c"
  "dcl_descs (domain_Poll turns c) = dcl_descs c"
  by (simp_all add: domain_Poll_def split_beta)

definition after_polls :: "poll_turn list list \<Rightarrow> domain_collector \<Rightarrow> domain_collector" where
  "after_polls polls c = foldl (\<lambda>c ts. domain_Poll ts c) c polls"

lemma after_polls_inv:
  "col_inv c \<Longrightarrow> col_inv (after_polls polls c) \<and> dcl_descs (after_polls polls c) = dcl_descs c"
  by (induction polls arbitrary: c) (simp_all add: after_polls_def col_inv_Poll)

lemma NewCollector_ok:
  assumes "domain_NewCollector P ns D load = Ret (Inr (c, b))"
  shows "col_inv c" "dcl_descs c = domain_descs_of P ns"
  using assms
  by (auto simp: domain_NewCollector_def domain_initMetrics_def Let_def col_inv_def go_simps split: sum.splits)

section \<open>A scrape\<close>

lemma descs_arity:
  "length (d_labels (dd_health (domain_descs_of P ns))) = 2" "length (d_labels (dd_dns (domain_descs_of P ns))) = 2"
  "length (d_labels (dd_status (domain_descs_of P ns))) = 4" "length (d_labels (dd_expiry (domain_descs_of P ns))) = 3"
  "length (d_labels (dd_response (domain_descs_of P ns))) = 2"
  by (simp_all add: domain_descs_of_def domain_desc_def)

lemma descs_names:
  assumes "fq_law P"
  shows "distinct (map d_fqName (domain_desc_list (domain_descs_of P ns)))"
  using assms by (simp add: domain_desc_list_def domain_descs_of_def domain_desc_def fq_inject)

lemma dns_rows_set:
  "r \<in> set (dns_rows D E hs) \<Longrightarrow> \<exists>v e t. r = (dd_dns D, v, [e, t]) \<and> e \<notin> E"
  by (induction D E hs rule: dns_rows.induct) (auto split: if_splits)

lemma dns_rows_distinct: "no_duplicates (map row_sample (dns_rows D E hs))"
proof (induction D E hs rule: dns_rows.induct)
  case (2 D E h hs)
  have "ih_Domain h \<noteq> e" if "(dd_dns D, v, [e, t]) \<in> set (dns_rows D (insert (ih_Domain h) E) hs)" for v e t
    using dns_rows_set [OF that] by auto
  then show ?case
    using 2 dns_rows_set [of _ D "insert (ih_Domain h) E" hs] by (fastforce simp: no_duplicates_def)
qed (simp add: no_duplicates_def)

lemma health_rows_set:
  "r \<in> set (health_rows D h) \<Longrightarrow> \<exists>v t. r = (dd_health D, v, [dh_Domain h, t])"
  by (auto simp: health_rows_def)

lemma health_samples:
  "s \<in> set (map row_sample (health_rows D h)) \<Longrightarrow> \<exists>v t. s = sample (dd_health D) v [dh_Domain h, t]"
  by (auto simp: health_rows_def)

lemma ip_rows_set:
  "r \<in> set (ip_rows rc D h) \<Longrightarrow> fst r \<in> {dd_status D, dd_response D, dd_expiry D}
     \<and> (\<exists>ls. snd (snd r) = ih_Domain h # ih_IP h # ls)"
  by (auto simp: ip_rows_def split: if_splits)

lemma ip_rows_distinct:
  assumes "distinct (map d_fqName (domain_desc_list D))"
  shows "no_duplicates (map row_sample (ip_rows rc D h))"
  using assms by (auto simp: ip_rows_def no_duplicates_def domain_desc_list_def)

lemma rows_arity:
  "(d, v, ls) \<in> set (collect_rows c ds is is') \<Longrightarrow> dcl_descs c = domain_descs_of P ns \<Longrightarrow>
     d \<in> set (domain_desc_list (domain_descs_of P ns)) \<and> length ls = length (d_labels d)"
  by (auto simp: collect_rows_def health_rows_def ip_rows_def domain_desc_list_def descs_arity
      dest!: dns_rows_set split: if_splits)

definition domain_prom_ok :: "prom \<Rightarrow> string \<Rightarrow> bool" where
  "domain_prom_ok P ns \<longleftrightarrow> fq_law P \<and> list_all (usable P) (domain_desc_list (domain_descs_of P ns))"

lemma health_part_clean:
  assumes "col_inv c" "entries_of ds (dcl_domains c)"
  shows "no_duplicates (concat (map (\<lambda>x. map row_sample (health_rows D (snd x))) ds))"
proof (rule no_duplicates_entries [OF assms(2)])
  show "no_duplicates (map row_sample (health_rows D h))" for h
    by (simp add: health_rows_def no_duplicates_def)
next
  fix j k u v s t
  assume x: "dcl_domains c j = Some u" "dcl_domains c k = Some v" "j \<noteq> k"
    "s \<in> set (map row_sample (health_rows D u))" "t \<in> set (map row_sample (health_rows D v))"
  then have "dh_Domain u \<noteq> dh_Domain v" using assms(1) by (auto simp: col_inv_def)
  then show "series s \<noteq> series t" using health_samples [OF x(4)] health_samples [OF x(5)] by auto
qed

lemma ip_samples:
  "s \<in> set (map row_sample (ip_rows rc D h)) \<Longrightarrow> \<exists>d v ls. s = sample d v (ih_Domain h # ih_IP h # ls)"
  using ip_rows_set by fastforce

lemma ip_part_clean:
  assumes "col_inv c" "entries_of is (dcl_ips c)" "distinct (map d_fqName (domain_desc_list D))"
  shows "no_duplicates (concat (map (\<lambda>x. map row_sample (ip_rows rc D (snd x))) is))"
proof (rule no_duplicates_entries [OF assms(2) ip_rows_distinct [OF assms(3)]])
  fix j k u v s t
  assume x: "dcl_ips c j = Some u" "dcl_ips c k = Some v" "j \<noteq> k"
    "s \<in> set (map row_sample (ip_rows rc D u))" "t \<in> set (map row_sample (ip_rows rc D v))"
  then have "ih_Domain u \<noteq> ih_Domain v \<or> ih_IP u \<noteq> ih_IP v"
    using assms(1) unfolding col_inv_def ips_keyed_def by metis
  then show "series s \<noteq> series t" using ip_samples [OF x(4)] ip_samples [OF x(5)] by auto
qed

lemma rows_clean:
  assumes "col_inv c" "entries_of ds (dcl_domains c)" "entries_of is (dcl_ips c)" "entries_of is' (dcl_ips c)"
    "distinct (map d_fqName (domain_desc_list (dcl_descs c)))"
  shows "no_duplicates (map row_sample (collect_rows c ds is is'))"
proof -
  let ?D = "dcl_descs c"
  let ?H = "concat (map (\<lambda>x. map row_sample (health_rows ?D (snd x))) ds)"
  let ?N = "map row_sample (dns_rows ?D {} (map snd is))"
  let ?I = "concat (map (\<lambda>x. map row_sample (ip_rows (dcl_runtime c) ?D (snd x))) is')"
  have eq: "map row_sample (collect_rows c ds is is') = ?H @ ?N @ ?I"
    by (simp add: collect_rows_def map_concat comp_def)
  have H: "fst (series s) = d_fqName (dd_health ?D)" if "s \<in> set ?H" for s
    using that health_rows_set by fastforce
  have N: "fst (series s) = d_fqName (dd_dns ?D)" if "s \<in> set ?N" for s
    using that dns_rows_set by fastforce
  have I: "fst (series s) \<in> d_fqName ` {dd_status ?D, dd_response ?D, dd_expiry ?D}" if "s \<in> set ?I" for s
    using that ip_rows_set by fastforce
  have names: "d_fqName (dd_health ?D) \<noteq> d_fqName (dd_dns ?D)"
    "d_fqName (dd_health ?D) \<notin> d_fqName ` {dd_status ?D, dd_response ?D, dd_expiry ?D}"
    "d_fqName (dd_dns ?D) \<notin> d_fqName ` {dd_status ?D, dd_response ?D, dd_expiry ?D}"
    using assms(5) by (auto simp: domain_desc_list_def)
  have "series x \<noteq> series y" if "x \<in> set ?N" "y \<in> set ?I" for x y
    using N [OF that(1)] I [OF that(2)] names(3) by metis
  then have rest: "no_duplicates (?N @ ?I)"
    by (intro no_duplicates_append dns_rows_distinct ip_part_clean [OF assms(1,4,5)])
  have "series x \<noteq> series y" if x: "x \<in> set ?H" and y: "y \<in> set (?N @ ?I)" for x y
  proof -
    have "fst (series y) = d_fqName (dd_dns ?D)
        \<or> fst (series y) \<in> d_fqName ` {dd_status ?D, dd_response ?D, dd_expiry ?D}"
      using y N I unfolding set_append by blast
    then show ?thesis using H [OF x] names(1,2) by metis
  qed
  then show ?thesis
    unfolding eq by (intro no_duplicates_append [OF health_part_clean [OF assms(1,2)] rest])
qed

text \<open>Whatever was polled since the collector was made, and in whatever order the maps are iterated, a
  scrape ends without a panic and sends no series twice, so the gatherer of the client library accepts it.\<close>

theorem domain_scrape_is_clean:
  assumes "domain_NewCollector P ns D load = Ret (Inr (c0, b))" "domain_prom_ok P ns"
    "c = after_polls polls c0"
    "entries_of ds (dcl_domains c)" "entries_of is (dcl_ips c)" "entries_of is' (dcl_ips c)"
  shows "\<exists>ms. domain_collect P c ds is is' = (ms, None) \<and> no_duplicates ms"
proof -
  note new = NewCollector_ok [OF assms(1)]
  have c: "col_inv c" "dcl_descs c = domain_descs_of P ns"
    using after_polls_inv [OF new(1)] new(2) assms(3) by simp_all
  have "usable P d \<and> length ls = length (d_labels d)" if "(d, v, ls) \<in> set (collect_rows c ds is is')" for d v ls
    using rows_arity [OF that c(2)] assms(2) by (auto simp: domain_prom_ok_def list_all_iff)
  then have sent: "emit (map (\<lambda>(d, v, ls). const_metric P d v ls) (collect_rows c ds is is'))
      = (map row_sample (collect_rows c ds is is'), None)"
    by (rule emit_const)
  have "distinct (map d_fqName (domain_desc_list (dcl_descs c)))"
    using descs_names assms(2) c(2) by (simp add: domain_prom_ok_def)
  from rows_clean [OF c(1) assms(4-6) this] show ?thesis
    unfolding domain_collect_def sent by blast
qed

lemma demo_prom_ok: "domain_prom_ok demo_prom ns"
  by (simp add: domain_prom_ok_def domain_desc_list_def)

definition demo_collector :: domain_collector where
  "demo_collector = \<lparr>dcl_runtime = demo_runtime, dcl_checker = NewDomainChecker 30000000000 True True True True True 1,
     dcl_ips = Map.empty, dcl_domains = Map.empty, dcl_descs = domain_descs_of demo_prom ''sealos''\<rparr>"

definition demo_base :: base where
  "demo_base = (NewBaseCollector ''domain'' [WithWaitReadyOnCollect True])
     \<lparr>bc_descs := map d_fqName (domain_desc_list (domain_descs_of demo_prom ''sealos''))\<rparr>"

definition demo_turn :: poll_turn where
  "demo_turn = \<lparr>pt_domain = hd (rc_domains demo_runtime), pt_network = teapot_network 204,
     pt_networks = (\<lambda>i. teapot_network 204), pt_enqueued = 1\<rparr>"

lemma demo_collector:
  "domain_NewCollector demo_prom ''sealos'' demo_decoder (\<lambda>cfg. (cfg\<lparr>dcf_Domains := [EString ''  '', EMap ()],
      dcf_DialRetries := - 2\<rparr>, None)) = Ret (Inr (demo_collector, demo_base))"
  by (simp add: domain_NewCollector_def demo_runtime domain_initMetrics_def domain_desc_list_def
      MustRegisterDesc_def RegisterDesc_def Let_def demo_base_def NewBaseCollector_def demo_collector_def)
    (simp add: demo_runtime_def)

lemma domain_scrape_is_clean_witness:
  "\<exists>ms. domain_collect demo_prom (domain_Poll [demo_turn] demo_collector)
      [(''a.io'', fst (checked_domain (dcl_checker demo_collector) demo_turn))]
      [(''a.io/::'', hd (snd (checked_domain (dcl_checker demo_collector) demo_turn)))]
      [(''a.io/::'', hd (snd (checked_domain (dcl_checker demo_collector) demo_turn)))] = (ms, None)
    \<and> no_duplicates ms"
proof -
  let ?r = "checked_domain (dcl_checker demo_collector) demo_turn"
  let ?c = "after_polls [[demo_turn]] demo_collector"
  obtain dh hs where r: "?r = (dh, hs)" by (cases ?r)
  have "addresses (pt_network demo_turn) (dcl_checker demo_collector) (pt_domain demo_turn) = Inr [''::'']"
    by (simp add: addresses_def demo_turn_def demo_runtime_def)
  then have "map ih_IP hs = [''::'']"
    using r by (auto simp: checked_domain_def CheckIPs_addresses Let_def)
  then obtain h where h: "hs = [h]" "ih_IP h = ''::''" by (cases hs) auto
  moreover have "ih_Domain x = turn_endpoint demo_turn" if "x \<in> set hs" for x
    using checked_Domain [of x "dcl_checker demo_collector" demo_turn] that r by simp
  ultimately have h: "hs = [h]" "ih_Domain h = ''a.io''" "ih_IP h = ''::''"
    by (simp_all add: demo_turn_def demo_runtime_def)
  have "rc_domains demo_runtime \<noteq> []" "md_endpoint (pt_domain demo_turn) = ''a.io''"
    by (simp_all add: demo_turn_def demo_runtime_def)
  then have "dcl_domains ?c = [''a.io'' \<mapsto> dh]" "dcl_ips ?c = [''a.io/::'' \<mapsto> h]"
    using r h by (simp_all add: after_polls_def domain_Poll_def store_result_def demo_collector_def ipKey_def)
  then have "entries_of [(''a.io'', fst ?r)] (dcl_domains ?c)" "entries_of [(''a.io/::'', hd (snd ?r))] (dcl_ips ?c)"
    using r h by (simp_all add: entries_of_def)
  from domain_scrape_is_clean [OF demo_collector demo_prom_ok refl this(1) this(2) this(2)] show ?thesis
    by (simp add: after_polls_def)
qed

section \<open>The content of the maps\<close>

definition slash_free :: "string \<Rightarrow> bool" where
  "slash_free s \<longleftrightarrow> CHR ''/'' \<notin> set s"

lemma ipKey_inject:
  "slash_free a \<Longrightarrow> slash_free b \<Longrightarrow> ipKey a p = ipKey b q \<longleftrightarrow> a = b \<and> p = q"
proof (induction a arbitrary: b)
  case Nil
  then show ?case by (cases b) (auto simp: ipKey_def slash_free_def)
next
  case (Cons x a)
  then show ?case by (cases b) (auto simp: ipKey_def slash_free_def)
qed

text \<open>The last record of an address among those of a domain.\<close>

definition last_for :: "ip_health list \<Rightarrow> string \<Rightarrow> ip_health option" where
  "last_for hs = map_of (rev (map (\<lambda>h. (ih_IP h, h)) hs))"

lemma last_for_simps [simp]:
  "last_for [] ip = None"
  "last_for (h # hs) ip = (case last_for hs ip of None \<Rightarrow> if ip = ih_IP h then Some h else None | Some x \<Rightarrow> Some x)"
  by (simp_all add: last_for_def map_add_def split: option.splits)

lemma store_ips_lookup:
  assumes "\<And>h. h \<in> set hs \<Longrightarrow> ih_Domain h = e" "slash_free e" "slash_free k"
  shows "store_ips hs m (ipKey k ip)
    = (if k = e then (case last_for hs ip of None \<Rightarrow> m (ipKey k ip) | Some h \<Rightarrow> Some h) else m (ipKey k ip))"
  using assms(1)
proof (induction hs arbitrary: m)
  case (Cons h hs)
  define m' where "m' = m(ipKey (ih_Domain h) (ih_IP h) \<mapsto> h)"
  have "m' (ipKey k ip) = (if k = e \<and> ip = ih_IP h then Some h else m (ipKey k ip))"
    using ipKey_inject [OF assms(3,2)] Cons.prems by (simp add: m'_def)
  moreover have "store_ips (h # hs) m = store_ips hs m'" by (simp add: m'_def)
  ultimately show ?case using Cons.IH [of m'] Cons.prems
    by (cases "k = e") (auto split: option.splits)
qed simp

lemma store_ips_dom:
  "store_ips hs m k \<noteq> None \<Longrightarrow> m k \<noteq> None \<or> (\<exists>h \<in> set hs. k = ipKey (ih_Domain h) (ih_IP h))"
proof (induction hs arbitrary: m)
  case (Cons h hs)
  from Cons.IH [OF Cons.prems [unfolded store_ips_simps]] show ?case by (auto split: if_splits)
qed simp

lemma store_result_eq:
  "store_result dc maps t = ((fst maps)(turn_endpoint t \<mapsto> fst (checked_domain dc t)),
     store_ips (snd (checked_domain dc t)) (snd maps))"
  by (simp add: store_result_def split_beta)

lemma last_for_append:
  "last_for (xs @ ys) ip = (case last_for ys ip of None \<Rightarrow> last_for xs ip | Some h \<Rightarrow> Some h)"
  by (induction xs) (auto split: option.splits)

text \<open>The checks of one endpoint, in the order in which they ended, and all their records.\<close>

definition turns_of :: "string \<Rightarrow> poll_turn list \<Rightarrow> poll_turn list" where
  "turns_of k turns = filter (\<lambda>t. turn_endpoint t = k) turns"

definition records_of :: "domain_checker \<Rightarrow> poll_turn list \<Rightarrow> ip_health list" where
  "records_of dc turns = concat (map (\<lambda>t. snd (checked_domain dc t)) turns)"

lemma foldl_content:
  fixes dc turns
  defines "r \<equiv> foldl (store_result dc) (Map.empty, Map.empty) turns"
  assumes "\<And>t. t \<in> set turns \<Longrightarrow> slash_free (turn_endpoint t)"
  shows "fst r k = (if turns_of k turns = [] then None else Some (fst (checked_domain dc (last (turns_of k turns)))))"
    "slash_free k \<Longrightarrow> snd r (ipKey k ip) = last_for (records_of dc (turns_of k turns)) ip"
    "snd r x \<noteq> None \<Longrightarrow> \<exists>t \<in> set turns. \<exists>ip. x = ipKey (turn_endpoint t) ip"
  unfolding r_def using assms(2)
proof (induction turns arbitrary: k ip x rule: rev_induct)
  case Nil
  { case 1 show ?case by (simp add: turns_of_def) }
  { case 2 then show ?case by (simp add: turns_of_def records_of_def) }
  { case 3 then show ?case by simp }
next
  case (snoc u us)
  let ?m = "foldl (store_result dc) (Map.empty, Map.empty) us"
  have step: "foldl (store_result dc) (Map.empty, Map.empty) (us @ [u])
      = ((fst ?m)(turn_endpoint u \<mapsto> fst (checked_domain dc u)), store_ips (snd (checked_domain dc u)) (snd ?m))"
    by (simp only: foldl_append foldl.simps store_result_eq)
  { case 1
    have "fst ?m k = (if turns_of k us = [] then None else Some (fst (checked_domain dc (last (turns_of k us)))))"
      using 1 by (intro snoc.IH(1)) simp
    then show ?case unfolding step by (simp add: turns_of_def) }
  { case 2
    have k: "slash_free k" "slash_free (turn_endpoint u)" using 2 by simp_all
    have IH: "snd ?m (ipKey k ip) = last_for (records_of dc (turns_of k us)) ip"
      using 2 by (intro snoc.IH(2)) simp_all
    have look: "store_ips (snd (checked_domain dc u)) (snd ?m) (ipKey k ip) = (if k = turn_endpoint u
        then (case last_for (snd (checked_domain dc u)) ip of None \<Rightarrow> snd ?m (ipKey k ip) | Some h \<Rightarrow> Some h)
        else snd ?m (ipKey k ip))"
      using checked_Domain k by (intro store_ips_lookup) auto
    show ?case unfolding step snd_conv look IH
      by (cases "last_for (snd (checked_domain dc u)) ip") (simp_all add: turns_of_def records_of_def last_for_append) }
  { case (3 x)
    then have "snd ?m x \<noteq> None \<or> (\<exists>h \<in> set (snd (checked_domain dc u)). x = ipKey (ih_Domain h) (ih_IP h))"
      unfolding step snd_conv by (intro store_ips_dom)
    moreover have "snd ?m x \<noteq> None \<Longrightarrow> \<exists>t \<in> set us. \<exists>ip. x = ipKey (turn_endpoint t) ip"
      using 3 by (intro snoc.IH(3)) simp_all
    ultimately show ?case using checked_Domain by fastforce }
qed

lemma turns_of_mem [simp]: "t \<in> set (turns_of k turns) \<longleftrightarrow> t \<in> set turns \<and> turn_endpoint t = k"
  by (auto simp: turns_of_def)

lemma turns_of_distinct:
  assumes "distinct (map turn_endpoint turns)" "t \<in> set turns"
  shows "turns_of (turn_endpoint t) turns = [t]"
  using assms by (induction turns) (auto simp: turns_of_def filter_empty_conv rev_image_eqI)

text \<open>C34. After a poll the maps hold exactly its results: an endpoint is reported if and only if it is configured, with
  the outcome of the one of its checks that ended last, and each of its addresses with the last record of its checks
  for it; nothing of earlier polls is left, and different endpoints never collide, since an accepted endpoint has no
  slash. When no endpoint is configured twice, which the parsing does not make sure, each has the results of its own
  check, whatever the order in which the checks ended.\<close>

theorem poll_reports_every_domain:
  assumes "newRuntimeConfig D cfg = Inr (dcl_runtime c)" "poll_of c turns" "c' = domain_Poll turns c"
    "rc_domains (dcl_runtime c) \<noteq> []"
  shows "dom (dcl_domains c') = md_endpoint ` set (rc_domains (dcl_runtime c))
    \<and> (\<forall>t \<in> set turns. let mine = turns_of (turn_endpoint t) turns in
         dcl_domains c' (turn_endpoint t) = Some (fst (checked_domain (dcl_checker c) (last mine)))
       \<and> (\<forall>ip. dcl_ips c' (ipKey (turn_endpoint t) ip) = last_for (records_of (dcl_checker c) mine) ip)
       \<and> (distinct (map md_endpoint (rc_domains (dcl_runtime c))) \<longrightarrow> mine = [t]))
    \<and> (\<forall>k \<in> dom (dcl_ips c'). \<exists>t \<in> set turns. \<exists>ip. k = ipKey (turn_endpoint t) ip)"
proof -
  let ?r = "foldl (store_result (dcl_checker c)) (Map.empty, Map.empty) turns"
  have c': "dcl_domains c' = fst ?r" "dcl_ips c' = snd ?r"
    using assms(3,4) by (simp_all add: domain_Poll_def split_beta)
  have m: "mset (map turn_endpoint turns) = mset (map md_endpoint (rc_domains (dcl_runtime c)))"
    using assms(2) unfolding poll_of_def by (metis (no_types, lifting) map_map comp_def mset_map map_eq_conv)
  then have d: "turn_endpoint ` set turns = md_endpoint ` set (rc_domains (dcl_runtime c))"
    using mset_eq_setD [OF m] by simp
  have one: "turns_of (turn_endpoint t) turns = [t]"
    if "distinct (map md_endpoint (rc_domains (dcl_runtime c)))" "t \<in> set turns" for t
    using turns_of_distinct [OF _ that(2)] that(1) mset_eq_imp_distinct_iff [OF m] by blast
  have ok: "endpoint_ok (md_endpoint x)" if "x \<in> set (rc_domains (dcl_runtime c))" for x
    using runtime_domains_ok [OF assms(1) that] by (simp add: domain_ok_def)
  have s: "slash_free (turn_endpoint t)" if "t \<in> set turns" for t
  proof -
    have "turn_endpoint t \<in> md_endpoint ` set (rc_domains (dcl_runtime c))" using that d by blast
    then show ?thesis using ok by (auto simp: endpoint_ok_def slash_free_def)
  qed
  note content = foldl_content [OF s, where dc = "dcl_checker c"]
  have some: "turns_of k turns \<noteq> [] \<longleftrightarrow> k \<in> turn_endpoint ` set turns" for k
    by (auto simp: turns_of_def filter_empty_conv)
  have "dom (dcl_domains c') = md_endpoint ` set (rc_domains (dcl_runtime c))"
    using content(1) some unfolding c' d [symmetric] by (auto simp: dom_def)
  moreover have "dcl_domains c' (turn_endpoint t) = Some (fst (checked_domain (dcl_checker c) (last (turns_of (turn_endpoint t) turns))))"
    "dcl_ips c' (ipKey (turn_endpoint t) ip) = last_for (records_of (dcl_checker c) (turns_of (turn_endpoint t) turns)) ip"
    if "t \<in> set turns" for t ip
    using content(1,2) s [OF that] some [of "turn_endpoint t"] that c' by simp_all
  moreover have "\<forall>k \<in> dom (dcl_ips c'). \<exists>t \<in> set turns. \<exists>ip. k = ipKey (turn_endpoint t) ip"
    using content(3) c' by (simp add: dom_def)
  ultimately show ?thesis using one by (simp add: Let_def)
qed

lemma poll_reports_every_domain_witness:
  "dom (dcl_domains (domain_Poll [demo_turn] demo_collector)) = {''a.io''}
   \<and> dcl_domains (domain_Poll [demo_turn] demo_collector) (turn_endpoint demo_turn)
       = Some (fst (checked_domain (dcl_checker demo_collector) demo_turn))"
proof -
  have r: "dcl_runtime demo_collector = demo_runtime" by (simp add: demo_collector_def)
  have "poll_of demo_collector [demo_turn]" by (simp add: poll_of_def r demo_turn_def demo_runtime_def)
  note ok = demo_runtime [folded r] this refl
  have d: "rc_domains (dcl_runtime demo_collector) \<noteq> []"
    "md_endpoint ` set (rc_domains (dcl_runtime demo_collector)) = {''a.io''}"
    by (simp_all add: r demo_runtime_def)
  show ?thesis
    using poll_reports_every_domain [OF ok d(1)] d(2) by (simp add: turns_of_def Let_def)
qed

end
