(* ===== verification/Database_Check.thy ===== *)
theory Database_Check
  imports Go_Net Prom_Client "HOL-Library.Multiset"
begin

text \<open>
  \<open>pkg/collector/database\<close>: the secrets that describe databases, the cache that keeps trimmed copies of
  them, and the check of one database: \<open>secret_cache.go\<close>, \<open>connectors.go\<close>, \<open>preflight.go\<close>, the
  four connectors, and from \<open>database.go\<close> the check and the collection of the tasks. The API server and
  the database drivers are the record \<open>db_world\<close>. A nil map and an empty one are both the empty map.
\<close>

section \<open>Secrets\<close>

record secret =
  se_Name :: string
  se_Namespace :: string
  se_Labels :: "string \<Rightarrow> string option"
  se_ResourceVersion :: string
  se_Type :: string
  se_Data :: "string \<Rightarrow> string option"
  se_Immutable :: "bool option"

datatype DatabaseType = MySQL | PostgreSQL | MongoDB | Redis | OtherType string

definition cachedSecretDataKeys :: "string list" where
  "cachedSecretDataKeys = [''username'', ''password'', ''host'', ''port'', ''endpoint'', ''url'']"

definition cachedSecretLabelKeys :: "string list" where
  "cachedSecretLabelKeys = [''apps.kubeblocks.io/cluster-type'', ''app.kubernetes.io/name'']"

definition trimSecretLabels :: "(string \<Rightarrow> string option) \<Rightarrow> (string \<Rightarrow> string option)" where
  "trimSecretLabels labels = (\<lambda>k. if k \<in> set cachedSecretLabelKeys then labels k else None)"

definition trimSecretData :: "(string \<Rightarrow> string option) \<Rightarrow> (string \<Rightarrow> string option)" where
  "trimSecretData data = (\<lambda>k. if k \<in> set cachedSecretDataKeys then data k else None)"

definition trimSecretForCache :: "secret \<Rightarrow> secret" where
  "trimSecretForCache s =
     s\<lparr>se_Labels := trimSecretLabels (se_Labels s), se_Data := trimSecretData (se_Data s)\<rparr>"

definition matchesType :: "secret \<Rightarrow> DatabaseType \<Rightarrow> bool" where
  "matchesType s ty = (case ty of
       MySQL \<Rightarrow> se_Labels s ''apps.kubeblocks.io/cluster-type'' = Some ''mysql''
     | PostgreSQL \<Rightarrow> se_Labels s ''app.kubernetes.io/name'' = Some ''postgresql''
     | MongoDB \<Rightarrow> se_Labels s ''apps.kubeblocks.io/cluster-type'' = Some ''mongodb''
     | Redis \<Rightarrow> se_Labels s ''apps.kubeblocks.io/cluster-type'' = Some ''redis''
     | OtherType _ \<Rightarrow> False)"

definition credential_suffix :: string where
  "credential_suffix = ''-conn-credential''"

definition isCredentialSecret :: "secret \<Rightarrow> DatabaseType \<Rightarrow> bool" where
  "isCredentialSecret s ty = (case ty of OtherType _ \<Rightarrow> False
     | _ \<Rightarrow> length (se_Name s) > length credential_suffix
          \<and> drop (length (se_Name s) - length credential_suffix) (se_Name s) = credential_suffix)"

definition extractDatabaseName :: "secret \<Rightarrow> DatabaseType \<Rightarrow> string" where
  "extractDatabaseName s ty = (case ty of OtherType _ \<Rightarrow> se_Name s
     | _ \<Rightarrow> if length (se_Name s) > length credential_suffix
          then take (length (se_Name s) - length credential_suffix) (se_Name s) else se_Name s)"

text \<open>\<open>GetSecrets\<close> and \<open>GetCacheSize\<close> over the stores of the informers.\<close>

definition GetSecrets :: "secret list list \<Rightarrow> DatabaseType \<Rightarrow> (secret \<Rightarrow> DatabaseType \<Rightarrow> bool) \<Rightarrow> secret list" where
  "GetSecrets stores ty isCredential =
     concat (map (filter (\<lambda>s. matchesType s ty \<and> isCredential s ty)) stores)"

definition GetCacheSize :: "secret list list \<Rightarrow> nat" where
  "GetCacheSize stores = sum_list (map length stores)"

section \<open>Identifiers\<close>

definition decodeSecret :: "(string \<Rightarrow> string option) \<Rightarrow> string \<Rightarrow> string res" where
  "decodeSecret data key = (case data key of
       None \<Rightarrow> Inl (''key '' @ key @ '' not found in secret'') | Some v \<Rightarrow> Inr v)"

definition identifier_char :: "char \<Rightarrow> bool" where
  "identifier_char c \<longleftrightarrow> (let n = of_char c :: nat in
     is_digit c \<or> 65 \<le> n \<and> n \<le> 90 \<or> 97 \<le> n \<and> n \<le> 122 \<or> c \<in> set ''_-'')"

definition sanitizeIdentifier :: "string \<Rightarrow> string res" where
  "sanitizeIdentifier identifier =
     (if identifier = '''' \<or> \<not> list_all identifier_char identifier
      then Inl ''invalid identifier: contains illegal characters''
      else if length identifier > 64 then Inl ''identifier too long: max 64 characters''
      else Inr identifier)"

definition quoteIdentifier :: "string \<Rightarrow> string \<Rightarrow> string" where
  "quoteIdentifier identifier dbType =
     (if dbType = ''mysql'' then [CHR 0x60] @ identifier @ [CHR 0x60]
      else if dbType = ''postgres'' then [CHR 0x22] @ identifier @ [CHR 0x22]
      else identifier)"

text \<open>A template is the text before and after its only \<open>%s\<close>.\<close>

definition buildSafeDDL :: "string \<times> string \<Rightarrow> string \<Rightarrow> string \<Rightarrow> string res" where
  "buildSafeDDL template identifier dbType = (case sanitizeIdentifier identifier of
       Inl e \<Rightarrow> Inl (''identifier sanitization failed: '' @ e)
     | Inr s \<Rightarrow> Inr (fst template @ quoteIdentifier s dbType @ snd template))"

section \<open>Connection information\<close>

definition buildFullEndpoint :: "string \<Rightarrow> string \<Rightarrow> string \<Rightarrow> string" where
  "buildFullEndpoint host port namespace =
     (if \<not> Contains host ''.svc.cluster.local'' then
        (if Contains host ''.'' then host @ ''.svc.cluster.local:'' @ port
         else host @ ''.'' @ namespace @ ''.svc.cluster.local:'' @ port)
      else host @ '':'' @ port)"

definition split_endpoint :: "string \<Rightarrow> string \<Rightarrow> string \<times> string" where
  "split_endpoint endpoint dflt =
     (if Contains endpoint '':'' then let parts = Split CHR '':'' endpoint in (parts ! 0, parts ! 1)
      else (endpoint, dflt))"

record connection_info =
  co_Username :: string
  co_password :: string
  co_Host :: string
  co_Port :: string
  co_Endpoint :: string
  co_DSN :: string

text \<open>The fields are decoded one after the other, the first missing one being the error.\<close>

fun decode_fields :: "(string \<Rightarrow> string option) \<Rightarrow> string list \<Rightarrow> string list res" where
  "decode_fields data [] = Inr []"
| "decode_fields data (k # ks) = (case decodeSecret data k of
       Inl e \<Rightarrow> Inl (''failed to get '' @ k @ '': '' @ e)
     | Inr v \<Rightarrow> (case decode_fields data ks of Inl e \<Rightarrow> Inl e | Inr vs \<Rightarrow> Inr (v # vs)))"

definition parseMySQLConnectionInfo :: "secret \<Rightarrow> connection_info res" where
  "parseMySQLConnectionInfo s =
     (case decode_fields (se_Data s) [''username'', ''password'', ''endpoint''] of
        Inr [user, pass, endpoint] \<Rightarrow>
          let (host, port) = split_endpoint endpoint ''3306'';
              full = buildFullEndpoint host port (se_Namespace s)
          in Inr \<lparr>co_Username = user, co_password = pass, co_Host = host, co_Port = port, co_Endpoint = full,
                  co_DSN = user @ '':'' @ pass @ ''@tcp('' @ full @ '')/''\<rparr>
      | Inr _ \<Rightarrow> Inl '''' | Inl e \<Rightarrow> Inl e)"

text \<open>\<open>int(d.Seconds())\<close> truncates.\<close>

definition int_of_float :: "float64 \<Rightarrow> int" where
  "int_of_float f = (case f of Fin r \<Rightarrow> if r \<ge> 0 then \<lfloor>r\<rfloor> else \<lceil>r\<rceil> | _ \<Rightarrow> 0)"

definition parsePostgreSQLConnectionInfo :: "int \<Rightarrow> secret \<Rightarrow> string \<Rightarrow> connection_info res" where
  "parsePostgreSQLConnectionInfo timeout s namespace =
     (case decode_fields (se_Data s) [''username'', ''password'', ''host'', ''port''] of
        Inr [user, pass, host, port] \<Rightarrow>
          let full = buildFullEndpoint host port namespace
          in Inr \<lparr>co_Username = user, co_password = pass, co_Host = host, co_Port = port, co_Endpoint = full,
                  co_DSN = ''postgresql://'' @ user @ '':'' @ pass @ ''@'' @ full
                    @ ''/postgres?sslmode=disable&connect_timeout='' @ Itoa (int_of_float (Seconds timeout))\<rparr>
      | Inr _ \<Rightarrow> Inl '''' | Inl e \<Rightarrow> Inl e)"

definition parseMongoDBConnectionInfo :: "secret \<Rightarrow> string \<Rightarrow> connection_info res" where
  "parseMongoDBConnectionInfo s namespace =
     (case decode_fields (se_Data s) [''username'', ''password'', ''endpoint''] of
        Inr [user, pass, endpoint] \<Rightarrow>
          let (host, port) = split_endpoint endpoint ''27017'';
              full = buildFullEndpoint host port namespace
          in Inr \<lparr>co_Username = user, co_password = pass, co_Host = host, co_Port = port, co_Endpoint = full,
                  co_DSN = ''mongodb://'' @ user @ '':'' @ pass @ ''@'' @ full\<rparr>
      | Inr _ \<Rightarrow> Inl '''' | Inl e \<Rightarrow> Inl e)"

definition parseRedisConnectionInfo :: "secret \<Rightarrow> string \<Rightarrow> connection_info res" where
  "parseRedisConnectionInfo s namespace =
     (case decode_fields (se_Data s) [''password'', ''endpoint''] of
        Inr [pass, endpoint] \<Rightarrow>
          let (host, port) = split_endpoint endpoint ''6379'';
              full = buildFullEndpoint host port namespace
          in Inr \<lparr>co_Username = [], co_password = pass, co_Host = host, co_Port = port, co_Endpoint = full,
                  co_DSN = full\<rparr>
      | Inr _ \<Rightarrow> Inl '''' | Inl e \<Rightarrow> Inl e)"

section \<open>The world\<close>

text \<open>Services and endpoints of the API server (the addresses of each subset), the drivers' opening of a
  connection and ping, and the clock: the time of the check and how long it took.\<close>

record db_world =
  dw_service :: "string \<Rightarrow> string \<Rightarrow> err option"
  dw_endpoints :: "string \<Rightarrow> string \<Rightarrow> string list list res"
  dw_open :: "DatabaseType \<Rightarrow> connection_info \<Rightarrow> int \<Rightarrow> err option"
  dw_ping :: "DatabaseType \<Rightarrow> connection_info \<Rightarrow> int \<Rightarrow> err option"
  dw_now :: int
  dw_elapsed :: int

definition connect :: "db_world \<Rightarrow> DatabaseType \<Rightarrow> string \<Rightarrow> int \<Rightarrow> connection_info res \<Rightarrow> err option" where
  "connect W ty name timeout parsed = (case parsed of
       Inl e \<Rightarrow> Some (''failed to parse connection info: '' @ e)
     | Inr ci \<Rightarrow> (case dw_open W ty ci timeout of
           Some e \<Rightarrow> Some (''failed to open connection: '' @ e)
         | None \<Rightarrow> map_option (\<lambda>e. ''failed to ping '' @ name @ '': '' @ e) (dw_ping W ty ci timeout)))"

definition checkMySQLConnectivity :: "db_world \<Rightarrow> int \<Rightarrow> secret \<Rightarrow> err option" where
  "checkMySQLConnectivity W timeout s = connect W MySQL ''MySQL'' timeout (parseMySQLConnectionInfo s)"

definition checkPostgreSQLConnectivity :: "db_world \<Rightarrow> int \<Rightarrow> string \<Rightarrow> secret \<Rightarrow> err option" where
  "checkPostgreSQLConnectivity W timeout namespace s =
     connect W PostgreSQL ''PostgreSQL'' timeout (parsePostgreSQLConnectionInfo timeout s namespace)"

definition checkMongoDBConnectivity :: "db_world \<Rightarrow> int \<Rightarrow> string \<Rightarrow> secret \<Rightarrow> err option" where
  "checkMongoDBConnectivity W timeout namespace s =
     connect W MongoDB ''MongoDB'' timeout (parseMongoDBConnectionInfo s namespace)"

text \<open>Opening a Redis client never fails.\<close>

definition checkRedisConnectivity :: "db_world \<Rightarrow> int \<Rightarrow> string \<Rightarrow> secret \<Rightarrow> err option" where
  "checkRedisConnectivity W timeout namespace s =
     connect (W\<lparr>dw_open := \<lambda>_ _ _. None\<rparr>) Redis ''Redis'' timeout (parseRedisConnectionInfo s namespace)"

section \<open>Preflight\<close>

definition cut_at :: "char \<Rightarrow> string \<Rightarrow> string" where
  "cut_at c s = (case IndexByte s c of None \<Rightarrow> s | Some i \<Rightarrow> take i s)"

definition parseHostFromURL :: "string \<Rightarrow> string res" where
  "parseHostFromURL urlStr =
     (let u1 = foldl TrimPrefix urlStr
                 [''mysql://'', ''postgresql://'', ''postgres://'', ''mongodb://'', ''redis://''];
          u2 = (case IndexByte u1 CHR ''@'' of None \<Rightarrow> u1 | Some i \<Rightarrow> drop (Suc i) u1);
          u3 = cut_at CHR ''?'' (cut_at CHR ''/'' u2);
          host = (case SplitHostPort u3 of Inl _ \<Rightarrow> u3 | Inr (h, _) \<Rightarrow> h)
      in if host = '''' then Inl ''failed to parse host from URL'' else Inr host)"

definition extractHost :: "secret \<Rightarrow> DatabaseType \<Rightarrow> string res" where
  "extractHost s ty =
     (let host = se_Data s ''host''; url = se_Data s ''url'' in
      case ty of
        MongoDB \<Rightarrow> (case url of Some u \<Rightarrow> parseHostFromURL u
          | None \<Rightarrow> (case host of Some h \<Rightarrow> Inr h | None \<Rightarrow> Inl ''no url or host found in secret''))
      | OtherType t \<Rightarrow> Inl (''unsupported database type: '' @ t)
      | _ \<Rightarrow> (case host of Some h \<Rightarrow> Inr h
          | None \<Rightarrow> (case url of Some u \<Rightarrow> parseHostFromURL u | None \<Rightarrow> Inl ''no host or url found in secret'')))"

definition extractServiceName :: "string \<Rightarrow> string" where
  "extractServiceName host = hd (Split CHR ''.'' host)"

definition checkServiceExists :: "db_world \<Rightarrow> string \<Rightarrow> string \<Rightarrow> err option" where
  "checkServiceExists W ns name =
     map_option (\<lambda>e. ''service '' @ ns @ ''/'' @ name @ '' not found: '' @ e) (dw_service W ns name)"

definition checkServiceEndpoints :: "db_world \<Rightarrow> string \<Rightarrow> string \<Rightarrow> err option" where
  "checkServiceEndpoints W ns name = (case dw_endpoints W ns name of
       Inl e \<Rightarrow> Some (''endpoints '' @ ns @ ''/'' @ name @ '' not found: '' @ e)
     | Inr subsets \<Rightarrow> if list_ex (\<lambda>as. as \<noteq> []) subsets then None
         else Some (''service '' @ ns @ ''/'' @ name @ '' has no ready endpoints''))"

record preflight_error =
  pf_Type :: string
  pf_Message :: string

definition preflight_text :: "preflight_error \<Rightarrow> string" where
  "preflight_text e = ''['' @ pf_Type e @ ''] '' @ pf_Message e"

definition CheckDatabase :: "db_world \<Rightarrow> string \<Rightarrow> DatabaseType \<Rightarrow> secret \<Rightarrow> preflight_error option" where
  "CheckDatabase W ns ty s = (case extractHost s ty of
       Inl e \<Rightarrow> Some \<lparr>pf_Type = ''invalid_host'', pf_Message = ''failed to extract host: '' @ e\<rparr>
     | Inr host \<Rightarrow> let name = extractServiceName host in
         (case checkServiceExists W ns name of
            Some e \<Rightarrow> Some \<lparr>pf_Type = ''no_service'', pf_Message = e\<rparr>
          | None \<Rightarrow> map_option (\<lambda>e. \<lparr>pf_Type = ''no_endpoints'', pf_Message = e\<rparr>)
                     (checkServiceEndpoints W ns name)))"

section \<open>Checking a database\<close>

record db_status =
  ds_Name :: string
  ds_Namespace :: string
  ds_DatabaseType :: DatabaseType
  ds_Connected :: bool
  ds_LastCheck :: int
  ds_Error :: string
  ds_ResponseTime :: float64

record db_task =
  tk_Namespace :: string
  tk_DatabaseName :: string
  tk_DatabaseType :: DatabaseType
  tk_Secret :: secret

definition dial_database :: "db_world \<Rightarrow> int \<Rightarrow> string \<Rightarrow> DatabaseType \<Rightarrow> secret \<Rightarrow> err option" where
  "dial_database W timeout ns ty s = (case ty of
       MySQL \<Rightarrow> checkMySQLConnectivity W timeout s
     | PostgreSQL \<Rightarrow> checkPostgreSQLConnectivity W timeout ns s
     | MongoDB \<Rightarrow> checkMongoDBConnectivity W timeout ns s
     | Redis \<Rightarrow> checkRedisConnectivity W timeout ns s
     | OtherType _ \<Rightarrow> None)"

definition checkDatabaseConnectivity :: "db_world \<Rightarrow> bool \<Rightarrow> int \<Rightarrow> string \<Rightarrow> string \<Rightarrow> DatabaseType \<Rightarrow> secret
    \<Rightarrow> db_status" where
  "checkDatabaseConnectivity W preflight timeout ns name ty s =
     (let status = \<lparr>ds_Name = name, ds_Namespace = ns, ds_DatabaseType = ty, ds_Connected = False,
                    ds_LastCheck = dw_now W, ds_Error = [], ds_ResponseTime = Seconds (dw_elapsed W)\<rparr>
      in case (if preflight then CheckDatabase W ns ty s else None) of
           Some pe \<Rightarrow> status\<lparr>ds_Error := preflight_text pe\<rparr>
         | None \<Rightarrow> (case dial_database W timeout ns ty s of
               Some e \<Rightarrow> status\<lparr>ds_Error := e\<rparr>
             | None \<Rightarrow> status\<lparr>ds_Connected := True\<rparr>))"

definition check_task :: "db_world \<Rightarrow> bool \<Rightarrow> int \<Rightarrow> db_task \<Rightarrow> db_status" where
  "check_task W preflight timeout t =
     checkDatabaseConnectivity W preflight timeout (tk_Namespace t) (tk_DatabaseName t) (tk_DatabaseType t)
       (tk_Secret t)"

section \<open>Collecting the tasks\<close>

definition task_of :: "DatabaseType \<Rightarrow> secret \<Rightarrow> db_task" where
  "task_of ty s = \<lparr>tk_Namespace = se_Namespace s, tk_DatabaseName = extractDatabaseName s ty,
     tk_DatabaseType = ty, tk_Secret = s\<rparr>"

text \<open>What listing the secrets of a namespace (of all of them for the empty name) with the selector of
  a type returns. A map of selectors is iterated in the order \<open>ord\<close>.\<close>

type_synonym lister = "string \<Rightarrow> DatabaseType \<Rightarrow> secret list res"

definition list_tasks :: "lister \<Rightarrow> string \<Rightarrow> DatabaseType \<Rightarrow> db_task list" where
  "list_tasks list ns ty = (case list ns ty of
       Inl e \<Rightarrow> [] | Inr ss \<Rightarrow> map (task_of ty) (filter (\<lambda>s. isCredentialSecret s ty) ss))"

definition collectNamespaceTasks :: "lister \<Rightarrow> DatabaseType list \<Rightarrow> string \<Rightarrow> db_task list" where
  "collectNamespaceTasks list ord ns = concat (map (list_tasks list ns) ord)"

definition collectAllNamespaceTasks :: "secret list list option \<Rightarrow> lister \<Rightarrow> DatabaseType list \<Rightarrow> db_task list" where
  "collectAllNamespaceTasks cache list ord = (case cache of
       Some stores \<Rightarrow> concat (map (\<lambda>ty. map (task_of ty) (GetSecrets stores ty isCredentialSecret))
                               [MySQL, PostgreSQL, MongoDB, Redis])
     | None \<Rightarrow> concat (map (list_tasks list '''') ord))"

definition collectDatabaseTasks :: "string list \<Rightarrow> secret list list option \<Rightarrow> lister \<Rightarrow> DatabaseType list
    \<Rightarrow> db_task list" where
  "collectDatabaseTasks namespaces cache list ord =
     (if namespaces = [] then collectAllNamespaceTasks cache list ord
      else concat (map (collectNamespaceTasks list ord) namespaces))"

section \<open>The cache is invisible\<close>

lemma decode_trimmed:
  "set ks \<subseteq> set cachedSecretDataKeys \<Longrightarrow> decode_fields (trimSecretData d) ks = decode_fields d ks"
proof (induction ks)
  case (Cons k ks)
  then have "decodeSecret (trimSecretData d) k = decodeSecret d k"
    by (simp add: decodeSecret_def trimSecretData_def)
  then show ?case using Cons by (simp split: sum.splits)
qed simp

lemma trim_fields [simp]:
  "se_Name (trimSecretForCache s) = se_Name s" "se_Namespace (trimSecretForCache s) = se_Namespace s"
  "se_Data (trimSecretForCache s) = trimSecretData (se_Data s)"
  "se_Labels (trimSecretForCache s) = trimSecretLabels (se_Labels s)"
  by (simp_all add: trimSecretForCache_def)

lemma trim_matches [simp]: "matchesType (trimSecretForCache s) ty = matchesType s ty"
  by (simp add: matchesType_def trimSecretLabels_def cachedSecretLabelKeys_def split: DatabaseType.splits)

lemma trim_credential [simp]:
  "isCredentialSecret (trimSecretForCache s) ty = isCredentialSecret s ty"
  "extractDatabaseName (trimSecretForCache s) ty = extractDatabaseName s ty"
  by (simp_all add: isCredentialSecret_def extractDatabaseName_def split: DatabaseType.splits)

lemma trim_dial [simp]: "dial_database W timeout ns ty (trimSecretForCache s) = dial_database W timeout ns ty s"
proof -
  have d: "decode_fields (trimSecretData (se_Data s)) [''username'', ''password'', ''endpoint'']
      = decode_fields (se_Data s) [''username'', ''password'', ''endpoint'']"
    "decode_fields (trimSecretData (se_Data s)) [''username'', ''password'', ''host'', ''port'']
      = decode_fields (se_Data s) [''username'', ''password'', ''host'', ''port'']"
    "decode_fields (trimSecretData (se_Data s)) [''password'', ''endpoint'']
      = decode_fields (se_Data s) [''password'', ''endpoint'']"
    by (rule decode_trimmed, simp add: cachedSecretDataKeys_def)+
  show ?thesis
    unfolding dial_database_def checkMySQLConnectivity_def checkPostgreSQLConnectivity_def
      checkMongoDBConnectivity_def checkRedisConnectivity_def parseMySQLConnectionInfo_def
      parsePostgreSQLConnectionInfo_def parseMongoDBConnectionInfo_def parseRedisConnectionInfo_def
      trim_fields d ..
qed

lemma trim_preflight [simp]: "CheckDatabase W ns ty (trimSecretForCache s) = CheckDatabase W ns ty s"
proof -
  have "extractHost (trimSecretForCache s) ty = extractHost s ty"
    by (simp add: extractHost_def trimSecretData_def cachedSecretDataKeys_def)
  then show ?thesis by (simp add: CheckDatabase_def)
qed

lemma trim_check: "check_task W pf timeout (task_of ty (trimSecretForCache s)) = check_task W pf timeout (task_of ty s)"
proof -
  have "checkDatabaseConnectivity W pf timeout ns name ty (trimSecretForCache s)
      = checkDatabaseConnectivity W pf timeout ns name ty s" for ns name
    unfolding checkDatabaseConnectivity_def trim_preflight trim_dial ..
  then show ?thesis by (simp add: check_task_def task_of_def)
qed

text \<open>The secrets of a cluster as the API server lists them for a namespace and the selector of a type, and
  as the informers of the types hold them, trimmed.\<close>

abbreviation db_types :: "DatabaseType set" where
  "db_types \<equiv> {MySQL, PostgreSQL, MongoDB, Redis}"

definition api_list :: "secret list \<Rightarrow> lister" where
  "api_list cluster ns ty =
     Inr (filter (\<lambda>s. matchesType s ty \<and> (ns = '''' \<or> se_Namespace s = ns)) cluster)"

definition informer_stores :: "secret list \<Rightarrow> DatabaseType list \<Rightarrow> secret list list" where
  "informer_stores cluster ord =
     map (\<lambda>ty. map trimSecretForCache (filter (\<lambda>s. matchesType s ty) cluster)) ord"

definition expected_tasks :: "secret list \<Rightarrow> db_task set" where
  "expected_tasks cluster = {task_of ty s |ty s.
     ty \<in> db_types \<and> s \<in> set cluster \<and> matchesType s ty \<and> isCredentialSecret s ty}"

lemma direct_tasks:
  "set ord = db_types \<Longrightarrow> set (collectAllNamespaceTasks None (api_list cluster) ord) = expected_tasks cluster"
  by (auto simp: collectAllNamespaceTasks_def list_tasks_def api_list_def expected_tasks_def)

lemma GetSecrets_stores:
  assumes "ty \<in> set ord"
  shows "set (GetSecrets (informer_stores cluster ord) ty isCredentialSecret)
    = trimSecretForCache ` {s \<in> set cluster. matchesType s ty \<and> isCredentialSecret s ty}"
proof -
  have "set (filter (\<lambda>s. matchesType s ty \<and> isCredentialSecret s ty)
       (map trimSecretForCache (filter (\<lambda>s. matchesType s ty') cluster)))
     = trimSecretForCache ` {s \<in> set cluster. matchesType s ty' \<and> matchesType s ty \<and> isCredentialSecret s ty}" for ty'
    by (simp only: filter_map comp_def trim_matches trim_credential set_map set_filter) auto
  then have "set (GetSecrets (informer_stores cluster ord) ty isCredentialSecret) = (\<Union>ty' \<in> set ord.
      trimSecretForCache ` {s \<in> set cluster. matchesType s ty' \<and> matchesType s ty \<and> isCredentialSecret s ty})"
    by (simp add: GetSecrets_def informer_stores_def)
  then show ?thesis using assms by fast
qed

lemma cached_tasks:
  assumes "set ord = db_types"
  shows "check_task W pf timeout ` set (collectAllNamespaceTasks (Some (informer_stores cluster ord)) list ord')
    = check_task W pf timeout ` expected_tasks cluster"
proof -
  have get: "set (GetSecrets (informer_stores cluster ord) ty isCredentialSecret)
      = trimSecretForCache ` {s \<in> set cluster. matchesType s ty \<and> isCredentialSecret s ty}"
    if "ty \<in> db_types" for ty
    using GetSecrets_stores that assms by blast
  have "set (collectAllNamespaceTasks (Some (informer_stores cluster ord)) list ord')
      = (\<Union>ty \<in> db_types. task_of ty ` set (GetSecrets (informer_stores cluster ord) ty isCredentialSecret))"
    by (auto simp: collectAllNamespaceTasks_def)
  also have "\<dots> = (\<Union>ty \<in> db_types. task_of ty ` trimSecretForCache
      ` {s \<in> set cluster. matchesType s ty \<and> isCredentialSecret s ty})"
    using get by simp
  also have "check_task W pf timeout ` \<dots> = (\<Union>ty \<in> db_types. (\<lambda>s. check_task W pf timeout (task_of ty s))
      ` {s \<in> set cluster. matchesType s ty \<and> isCredentialSecret s ty})"
    by (simp only: image_UN image_image trim_check)
  also have "\<dots> = check_task W pf timeout ` expected_tasks cluster"
    unfolding expected_tasks_def by blast
  finally show ?thesis .
qed

text \<open>How often a secret is checked: with the tasks counted, \<open>n s\<close> times for each type that it has.\<close>

definition tasks_times :: "(secret \<Rightarrow> nat) \<Rightarrow> secret list \<Rightarrow> db_task list" where
  "tasks_times n cluster = concat (map (\<lambda>ty. concat (map (\<lambda>s. replicate (n s) (task_of ty s))
     (filter (\<lambda>s. matchesType s ty \<and> isCredentialSecret s ty) cluster))) [MySQL, PostgreSQL, MongoDB, Redis])"

lemma mset_concat_perm: "mset xs = mset ys \<Longrightarrow> mset (concat (map f xs)) = mset (concat (map f ys))"
  by (simp add: mset_concat flip: sum_mset_sum_list)

lemma mset_per_store:
  "mset (concat (map (\<lambda>t. filter (\<lambda>s. m s t) F) ord)) = mset (concat (map (\<lambda>s. replicate (length (filter (m s) ord)) s) F))"
proof (induction F)
  case (Cons s F)
  have "mset (concat (map (\<lambda>t. filter (\<lambda>s. m s t) (s # F)) ord))
      = replicate_mset (length (filter (m s) ord)) s + mset (concat (map (\<lambda>t. filter (\<lambda>s. m s t) F) ord))"
    by (induction ord) simp_all
  then show ?case using Cons.IH by simp
qed simp

lemma tasks_cached:
  "mset (map (check_task W pf timeout) (collectAllNamespaceTasks (Some (informer_stores cluster ord)) list ord'))
    = mset (map (check_task W pf timeout) (tasks_times (\<lambda>s. length (filter (matchesType s) ord)) cluster))"
proof -
  let ?F = "\<lambda>ty. filter (\<lambda>s. matchesType s ty \<and> isCredentialSecret s ty) cluster"
  let ?n = "\<lambda>s. length (filter (matchesType s) ord)"
  let ?c = "check_task W pf timeout"
  have one: "mset (map ?c (map (task_of ty) (GetSecrets (informer_stores cluster ord) ty isCredentialSecret)))
      = mset (map ?c (concat (map (\<lambda>s. replicate (?n s) (task_of ty s)) (?F ty))))" for ty
  proof -
    have "filter (\<lambda>s. matchesType s ty \<and> isCredentialSecret s ty) (map trimSecretForCache (filter (\<lambda>s. matchesType s t) cluster))
        = map trimSecretForCache (filter (\<lambda>s. matchesType s t) (?F ty))" for t
      by (simp add: filter_map comp_def conj_commute)
    then have get: "GetSecrets (informer_stores cluster ord) ty isCredentialSecret
        = map trimSecretForCache (concat (map (\<lambda>t. filter (\<lambda>s. matchesType s t) (?F ty)) ord))"
      by (simp add: GetSecrets_def informer_stores_def comp_def map_concat)
    have "mset (map ?c (map (task_of ty) (GetSecrets (informer_stores cluster ord) ty isCredentialSecret)))
        = image_mset (\<lambda>s. ?c (task_of ty s)) (mset (concat (map (\<lambda>t. filter (\<lambda>s. matchesType s t) (?F ty)) ord)))"
      unfolding get mset_map multiset.map_comp comp_def trim_check ..
    also have "\<dots> = image_mset (\<lambda>s. ?c (task_of ty s)) (mset (concat (map (\<lambda>s. replicate (?n s) s) (?F ty))))"
      unfolding mset_per_store ..
    also have "\<dots> = mset (map ?c (map (task_of ty) (concat (map (\<lambda>s. replicate (?n s) s) (?F ty)))))"
      unfolding mset_map multiset.map_comp comp_def ..
    also have "map (task_of ty) (concat (map (\<lambda>s. replicate (?n s) s) (?F ty)))
        = concat (map (\<lambda>s. replicate (?n s) (task_of ty s)) (?F ty))"
      by (simp add: map_concat comp_def)
    finally show ?thesis .
  qed
  have "mset (map ?c (concat (map (\<lambda>ty. map (task_of ty) (GetSecrets (informer_stores cluster ord) ty isCredentialSecret)) tys)))
      = mset (map ?c (concat (map (\<lambda>ty. concat (map (\<lambda>s. replicate (?n s) (task_of ty s)) (?F ty))) tys)))" for tys
  proof (induction tys)
    case (Cons ty tys)
    show ?case unfolding list.map concat.simps map_append mset_append Cons.IH one ..
  qed simp
  then show ?thesis unfolding collectAllNamespaceTasks_def tasks_times_def option.case .
qed

lemma tasks_listed:
  assumes "mset ord' = mset [MySQL, PostgreSQL, MongoDB, Redis]"
  shows "mset (collectAllNamespaceTasks None (api_list cluster) ord') = mset (tasks_times (\<lambda>s. 1) cluster)"
proof -
  have eq: "list_tasks (api_list cluster) '''' = (\<lambda>ty. concat (map (\<lambda>s. replicate 1 (task_of ty s))
      (filter (\<lambda>s. matchesType s ty \<and> isCredentialSecret s ty) cluster)))"
  proof
    show "list_tasks (api_list cluster) '''' ty = concat (map (\<lambda>s. replicate 1 (task_of ty s))
      (filter (\<lambda>s. matchesType s ty \<and> isCredentialSecret s ty) cluster))" for ty
      by (induction cluster) (simp_all add: list_tasks_def api_list_def)
  qed
  show ?thesis unfolding collectAllNamespaceTasks_def tasks_times_def option.case eq by (rule mset_concat_perm [OF assms])
qed

lemma tasks_times_cong:
  "(\<And>s ty. s \<in> set cluster \<Longrightarrow> ty \<in> db_types \<Longrightarrow> matchesType s ty \<Longrightarrow> n s = n' s) \<Longrightarrow> tasks_times n cluster = tasks_times n' cluster"
  unfolding tasks_times_def by (intro arg_cong [of _ _ concat] map_cong) auto

text \<open>A secret with all keys that are read, and a world in which it is available.\<close>

definition full_secret :: secret where
  "full_secret = \<lparr>se_Name = ''shop-conn-credential'', se_Namespace = ''ns1'', se_Labels = Map.empty,
     se_ResourceVersion = ''7'', se_Type = ''Opaque'',
     se_Data = (\<lambda>k. if k \<in> set cachedSecretDataKeys then Some ''x'' else None), se_Immutable = None\<rparr>"

definition open_world :: db_world where
  "open_world = \<lparr>dw_service = (\<lambda>ns n. None), dw_endpoints = (\<lambda>ns n. Inr [[''10.0.0.1'']]),
     dw_open = (\<lambda>ty ci t. None), dw_ping = (\<lambda>ty ci t. None), dw_now = 5, dw_elapsed = 1\<rparr>"

definition without_key :: "string \<Rightarrow> secret \<Rightarrow> secret" where
  "without_key k s = s\<lparr>se_Data := (se_Data s)(k := None)\<rparr>"

lemma connected_iff:
  "ds_Connected (check_task W pf timeout t) \<longleftrightarrow>
     (pf \<longrightarrow> CheckDatabase W (tk_Namespace t) (tk_DatabaseType t) (tk_Secret t) = None)
     \<and> dial_database W timeout (tk_Namespace t) (tk_DatabaseType t) (tk_Secret t) = None"
  by (simp add: check_task_def checkDatabaseConnectivity_def Let_def split: option.split)

lemma key_data [simp]:
  "se_Data (without_key k s) = (se_Data s)(k := None)"
  "se_Data full_secret k = (if k \<in> set cachedSecretDataKeys then Some ''x'' else None)"
  by (simp_all add: without_key_def full_secret_def)

lemma open_world_connects: "connect open_world ty name timeout (Inr ci) = None" "connect W ty name timeout (Inl e) \<noteq> None"
  by (simp_all add: connect_def open_world_def)

lemma every_key_is_read:
  assumes "k \<in> set cachedSecretDataKeys"
  shows "\<exists>W pf ty s. check_task W pf 10 (task_of ty (without_key k s)) \<noteq> check_task W pf 10 (task_of ty s)"
proof -
  let ?f = full_secret and ?h = "without_key ''host'' full_secret"
  have up: "dial_database open_world 10 ns MySQL ?f = None" "dial_database open_world 10 ns PostgreSQL ?f = None"
    "dial_database open_world 10 ns MySQL ?h = None" for ns
    by (simp_all add: dial_database_def checkMySQLConnectivity_def parseMySQLConnectionInfo_def checkPostgreSQLConnectivity_def
        parsePostgreSQLConnectionInfo_def decodeSecret_def cachedSecretDataKeys_def open_world_connects Let_def split: prod.split)
  have mysql: "dial_database open_world 10 ns MySQL (without_key k ?f) \<noteq> None" if "k \<in> {''username'', ''password'', ''endpoint''}" for ns
    using that by (elim insertE emptyE) (simp_all add: dial_database_def checkMySQLConnectivity_def parseMySQLConnectionInfo_def
        decodeSecret_def cachedSecretDataKeys_def open_world_connects)
  have postgres: "dial_database open_world 10 ns PostgreSQL (without_key k ?f) \<noteq> None" if "k \<in> {''host'', ''port''}" for ns
    using that by (elim insertE emptyE) (simp_all add: dial_database_def checkPostgreSQLConnectivity_def parsePostgreSQLConnectionInfo_def
        decodeSecret_def cachedSecretDataKeys_def open_world_connects)
  have "parseHostFromURL ''x'' = Inr ''x''" by code_simp
  then have url: "CheckDatabase open_world ns MySQL ?h = None" "CheckDatabase open_world ns MySQL (without_key ''url'' ?h) \<noteq> None" for ns
    by (simp_all add: CheckDatabase_def extractHost_def cachedSecretDataKeys_def checkServiceExists_def
        checkServiceEndpoints_def open_world_def Let_def)
  have differ: "check_task W pf 10 t \<noteq> check_task W pf 10 t'" if "ds_Connected (check_task W pf 10 t) \<noteq> ds_Connected (check_task W pf 10 t')"
    for W pf t t' using that by auto
  have fields [simp]: "tk_Secret (task_of ty s) = s" "tk_DatabaseType (task_of ty s) = ty" for ty s by (simp_all add: task_of_def)
  consider "k \<in> {''username'', ''password'', ''endpoint''}" | "k \<in> {''host'', ''port''}" | "k = ''url''"
    using assms by (auto simp: cachedSecretDataKeys_def)
  then show ?thesis
  proof cases
    case 1
    have "check_task open_world False 10 (task_of MySQL (without_key k ?f)) \<noteq> check_task open_world False 10 (task_of MySQL ?f)"
      by (rule differ) (use mysql [OF 1] up in \<open>simp add: connected_iff\<close>)
    then show ?thesis by blast
  next
    case 2
    have "check_task open_world False 10 (task_of PostgreSQL (without_key k ?f)) \<noteq> check_task open_world False 10 (task_of PostgreSQL ?f)"
      by (rule differ) (use postgres [OF 2] up in \<open>simp add: connected_iff\<close>)
    then show ?thesis by blast
  next
    case 3
    have "check_task open_world True 10 (task_of MySQL (without_key k ?h)) \<noteq> check_task open_world True 10 (task_of MySQL ?h)"
      by (rule differ) (use url up in \<open>simp add: connected_iff 3\<close>)
    then show ?thesis by blast
  qed
qed

text \<open>C30. Whether the tasks come from the cache of trimmed secrets or from listing them, the same databases are
  checked with the same outcome: every credential secret of a cluster that has the label of a type is a
  task of that type, and a trimmed copy has only keys that some check needs. The listing has each task once. The cache
  looks for a type in the stores of all informers, so a secret with the labels of two types is checked twice for each;
  when no secret has those, the tasks are the same also with their numbers.\<close>

theorem cache_is_invisible:
  assumes "mset ord = mset [MySQL, PostgreSQL, MongoDB, Redis]" "mset ord' = mset [MySQL, PostgreSQL, MongoDB, Redis]"
    "cached = collectDatabaseTasks [] (Some (informer_stores cluster ord)) list ord'"
    "listed = collectDatabaseTasks [] None (api_list cluster) ord'"
  shows "check_task W pf timeout ` set cached = check_task W pf timeout ` set listed
    \<and> set listed = expected_tasks cluster \<and> mset listed = mset (tasks_times (\<lambda>s. 1) cluster)
    \<and> mset (map (check_task W pf timeout) cached)
        = mset (map (check_task W pf timeout) (tasks_times (\<lambda>s. length (filter (matchesType s) ord)) cluster))
    \<and> ((\<forall>s \<in> set cluster. \<forall>ty ty'. matchesType s ty \<and> matchesType s ty' \<longrightarrow> ty = ty') \<longrightarrow>
         mset (map (check_task W pf timeout) cached) = mset (map (check_task W pf timeout) listed))
    \<and> dom (se_Data (trimSecretForCache s)) \<subseteq> set cachedSecretDataKeys
    \<and> (\<forall>k \<in> set cachedSecretDataKeys. \<exists>W pf ty s.
         check_task W pf 10 (task_of ty (without_key k s)) \<noteq> check_task W pf 10 (task_of ty s))"
proof -
  have ord: "set ord = db_types" "set ord' = db_types" "distinct ord"
    using mset_eq_setD [OF assms(1)] mset_eq_setD [OF assms(2)] mset_eq_imp_distinct_iff [OF assms(1)] by simp_all
  have c: "cached = collectAllNamespaceTasks (Some (informer_stores cluster ord)) list ord'"
    "listed = collectAllNamespaceTasks None (api_list cluster) ord'"
    using assms(3,4) by (simp_all add: collectDatabaseTasks_def)
  have trim: "dom (trimSecretData d) \<subseteq> set cachedSecretDataKeys" for d
    by (auto simp: trimSecretData_def split: if_splits)
  have once: "length (filter (matchesType s) ord) = 1"
    if "\<forall>s \<in> set cluster. \<forall>ty ty'. matchesType s ty \<and> matchesType s ty' \<longrightarrow> ty = ty'"
      "s \<in> set cluster" "ty \<in> db_types" "matchesType s ty" for s ty
  proof -
    have "{t. matchesType s t} \<inter> set ord = {ty}" using that ord(1) by blast
    then show ?thesis using distinct_length_filter [OF ord(3), of "matchesType s"] by simp
  qed
  have "mset (map (check_task W pf timeout) cached) = mset (map (check_task W pf timeout) listed)"
    if single: "\<forall>s \<in> set cluster. \<forall>ty ty'. matchesType s ty \<and> matchesType s ty' \<longrightarrow> ty = ty'"
  proof -
    have "tasks_times (\<lambda>s. length (filter (matchesType s) ord)) cluster = tasks_times (\<lambda>s. 1) cluster"
      by (rule tasks_times_cong) (rule once [OF single])
    then show ?thesis unfolding c tasks_cached using tasks_listed [OF assms(2), of cluster] by simp
  qed
  then show ?thesis
    using cached_tasks [OF ord(1)] direct_tasks [OF ord(2)] tasks_cached tasks_listed [OF assms(2)] every_key_is_read trim
    unfolding c by simp
qed

definition demo_secret :: secret where
  "demo_secret = \<lparr>se_Name = ''shop-conn-credential'', se_Namespace = ''ns1'',
     se_Labels = [''apps.kubeblocks.io/cluster-type'' \<mapsto> ''mysql'', ''app.kubernetes.io/name'' \<mapsto> ''postgresql''],
     se_ResourceVersion = ''7'', se_Type = ''Opaque'',
     se_Data = [''username'' \<mapsto> ''u'', ''password'' \<mapsto> ''p'', ''endpoint'' \<mapsto> ''shop:3307'', ''ca.crt'' \<mapsto> ''x''],
     se_Immutable = None\<rparr>"

definition demo_world :: db_world where
  "demo_world = \<lparr>dw_service = (\<lambda>ns n. None), dw_endpoints = (\<lambda>ns n. Inr [[''10.0.0.1'']]),
     dw_open = (\<lambda>ty ci t. None), dw_ping = (\<lambda>ty ci t. if co_Port ci = ''3307'' then None else Some ''refused''),
     dw_now = 5, dw_elapsed = 1000000000\<rparr>"

lemma cache_is_invisible_witness:
  "check_task demo_world False 10 ` set (collectDatabaseTasks [] (Some (informer_stores [demo_secret]
        [MySQL, PostgreSQL, MongoDB, Redis])) (\<lambda>_ _. Inl ''down'') [Redis, MongoDB, PostgreSQL, MySQL])
   = check_task demo_world False 10 ` expected_tasks [demo_secret]"
proof -
  have "mset [Redis, MongoDB, PostgreSQL, MySQL] = mset [MySQL, PostgreSQL, MongoDB, Redis]" by simp
  from cache_is_invisible [OF refl this refl refl, of demo_world False 10 "[demo_secret]" "\<lambda>_ _. Inl ''down''" demo_secret]
  show ?thesis by metis
qed

text \<open>This secret has the labels of two types: the listing has two tasks for it, the cache four.\<close>

lemma two_labels_checked_twice:
  "length (collectDatabaseTasks [] (Some (informer_stores [demo_secret] [MySQL, PostgreSQL, MongoDB, Redis])) list
      [MySQL, PostgreSQL, MongoDB, Redis]) = 4"
  "length (collectDatabaseTasks [] None (api_list [demo_secret]) [MySQL, PostgreSQL, MongoDB, Redis]) = 2"
proof -
  have m: "matchesType demo_secret MySQL" "matchesType demo_secret PostgreSQL" "\<not> matchesType demo_secret MongoDB"
    "\<not> matchesType demo_secret Redis"
    by (simp_all add: matchesType_def demo_secret_def)
  have c: "isCredentialSecret demo_secret MySQL" "isCredentialSecret demo_secret PostgreSQL"
    by (simp_all add: isCredentialSecret_def demo_secret_def credential_suffix_def)
  show "length (collectDatabaseTasks [] (Some (informer_stores [demo_secret] [MySQL, PostgreSQL, MongoDB, Redis])) list
      [MySQL, PostgreSQL, MongoDB, Redis]) = 4"
    "length (collectDatabaseTasks [] None (api_list [demo_secret]) [MySQL, PostgreSQL, MongoDB, Redis]) = 2"
    using m c by (simp_all add: collectDatabaseTasks_def collectAllNamespaceTasks_def GetSecrets_def informer_stores_def
        list_tasks_def api_list_def)
qed

end
