(* ===== verification/Database_Poll.thy ===== *)
theory Database_Poll
  imports Database_Check "HOL-Library.Multiset"
begin

text \<open>
  The goroutines of one poll of the database collector (\<open>processDatabaseTasksConcurrently\<close>,
  \<open>processTasksWithConcurrency\<close> in \<open>pkg/collector/database/database.go\<close>) as a step relation. Every
  type of database has a group: a loop that starts a goroutine per task and then waits for them, and
  goroutines that take a place in a semaphore, check their task, send the status and leave. When all
  loops have returned the channel of statuses is closed. The channel has room for every status, so a
  send never blocks; a send after the close panics. Releasing the place and the wait group's count
  follow the send at once, since nothing else happens between them.
\<close>

section \<open>State and steps\<close>

record 't group =
  gr_todo :: "'t list"
  gr_waiting :: "'t list"
  gr_running :: "'t list"
  gr_returned :: bool
  gr_limit :: nat

record ('k, 't, 'r) pool =
  po_groups :: "'k \<Rightarrow> 't group"
  po_cancelled :: bool
  po_sent :: "'r list"
  po_closed :: bool
  po_panic :: bool

definition set_group :: "'k \<Rightarrow> 't group \<Rightarrow> ('k, 't, 'r) pool \<Rightarrow> ('k, 't, 'r) pool" where
  "set_group k g s = s\<lparr>po_groups := (po_groups s)(k := g)\<rparr>"

text \<open>The loop of a group either starts the next goroutine, or returns at once when it finds the context done
  before a task, or returns when every goroutine that it started has ended.\<close>

inductive pool_step :: "('t \<Rightarrow> 'r) \<Rightarrow> 'k list \<Rightarrow> ('k, 't, 'r) pool \<Rightarrow> ('k, 't, 'r) pool \<Rightarrow> bool"
  for check :: "'t \<Rightarrow> 'r" and ks :: "'k list" where
  spawn: "\<lbrakk>k \<in> set ks; g = po_groups s k; \<not> po_panic s; \<not> gr_returned g; gr_todo g = t # ts; \<not> po_cancelled s\<rbrakk> \<Longrightarrow>
     pool_step check ks s (set_group k (g\<lparr>gr_todo := ts, gr_waiting := gr_waiting g @ [t]\<rparr>) s)"
| abort: "\<lbrakk>k \<in> set ks; g = po_groups s k; \<not> po_panic s; \<not> gr_returned g; gr_todo g \<noteq> []; po_cancelled s\<rbrakk> \<Longrightarrow>
     pool_step check ks s (set_group k (g\<lparr>gr_returned := True\<rparr>) s)"
| acquire: "\<lbrakk>k \<in> set ks; g = po_groups s k; \<not> po_panic s; gr_waiting g = xs @ t # ys;
     length (gr_running g) < gr_limit g\<rbrakk> \<Longrightarrow>
     pool_step check ks s (set_group k (g\<lparr>gr_waiting := xs @ ys, gr_running := gr_running g @ [t]\<rparr>) s)"
| send: "\<lbrakk>k \<in> set ks; g = po_groups s k; \<not> po_panic s; gr_running g = xs @ t # ys; \<not> po_closed s\<rbrakk> \<Longrightarrow>
     pool_step check ks s (set_group k (g\<lparr>gr_running := xs @ ys\<rparr>) s\<lparr>po_sent := po_sent s @ [check t]\<rparr>)"
| send_closed: "\<lbrakk>k \<in> set ks; g = po_groups s k; \<not> po_panic s; gr_running g = xs @ t # ys; po_closed s\<rbrakk> \<Longrightarrow>
     pool_step check ks s (s\<lparr>po_panic := True\<rparr>)"
| return: "\<lbrakk>k \<in> set ks; g = po_groups s k; \<not> po_panic s; \<not> gr_returned g; gr_todo g = []; gr_waiting g = [];
     gr_running g = []\<rbrakk> \<Longrightarrow>
     pool_step check ks s (set_group k (g\<lparr>gr_returned := True\<rparr>) s)"
| close: "\<lbrakk>\<forall>k \<in> set ks. gr_returned (po_groups s k); \<not> po_panic s; \<not> po_closed s\<rbrakk> \<Longrightarrow>
     pool_step check ks s (s\<lparr>po_closed := True\<rparr>)"

text \<open>The context may be cancelled at any moment.\<close>

definition cancel_pool :: "('k, 't, 'r) pool \<Rightarrow> ('k, 't, 'r) pool" where
  "cancel_pool s = s\<lparr>po_cancelled := True\<rparr>"

definition new_group :: "'t list \<Rightarrow> nat \<Rightarrow> 't group" where
  "new_group ts limit = \<lparr>gr_todo = ts, gr_waiting = [], gr_running = [], gr_returned = False, gr_limit = limit\<rparr>"

definition new_pool :: "('k \<Rightarrow> 't list) \<Rightarrow> ('k \<Rightarrow> nat) \<Rightarrow> ('k, 't, 'r) pool" where
  "new_pool tasks limit = \<lparr>po_groups = (\<lambda>k. new_group (tasks k) (limit k)), po_cancelled = False,
     po_sent = [], po_closed = False, po_panic = False\<rparr>"

text \<open>A limit is an integer. The semaphore of a group is a channel of that size, and making one of a negative size panics; so
  a pool exists for limits that are not negative only, and those are the naturals of \<open>gr_limit\<close>.\<close>

definition make_pool :: "'k list \<Rightarrow> ('k \<Rightarrow> 't list) \<Rightarrow> ('k \<Rightarrow> int) \<Rightarrow> ('k, 't, 'r) pool go" where
  "make_pool ks tasks limit =
     (if list_ex (\<lambda>k. limit k < 0) ks then Panic ''makechan: size out of range''
      else Ret (new_pool tasks (\<lambda>k. nat (limit k))))"

lemma set_group_simps [simp]:
  "po_groups (set_group k g s) = (po_groups s)(k := g)" "po_cancelled (set_group k g s) = po_cancelled s"
  "po_sent (set_group k g s) = po_sent s" "po_closed (set_group k g s) = po_closed s"
  "po_panic (set_group k g s) = po_panic s"
  by (simp_all add: set_group_def)

section \<open>Without cancellation\<close>

definition pending :: "'t group \<Rightarrow> 't list" where
  "pending g = gr_todo g @ gr_waiting g @ gr_running g"

definition pool_pending :: "'k list \<Rightarrow> ('k, 't, 'r) pool \<Rightarrow> 't multiset" where
  "pool_pending ks s = (\<Sum>k \<in> set ks. mset (pending (po_groups s k)))"

definition pool_inv :: "('t \<Rightarrow> 'r) \<Rightarrow> 'k list \<Rightarrow> 't multiset \<Rightarrow> ('k, 't, 'r) pool \<Rightarrow> bool" where
  "pool_inv check ks all s \<longleftrightarrow> \<not> po_panic s \<and> \<not> po_cancelled s
     \<and> mset (po_sent s) + image_mset check (pool_pending ks s) = image_mset check all
     \<and> (\<forall>k \<in> set ks. gr_returned (po_groups s k) \<longrightarrow> pending (po_groups s k) = [])
     \<and> (po_closed s \<longrightarrow> (\<forall>k \<in> set ks. gr_returned (po_groups s k)))"

definition group_work :: "'t group \<Rightarrow> nat" where
  "group_work g = 3 * length (gr_todo g) + 2 * length (gr_waiting g) + length (gr_running g)
     + (if gr_returned g then 0 else 1)"

definition pool_work :: "'k list \<Rightarrow> ('k, 't, 'r) pool \<Rightarrow> nat" where
  "pool_work ks s = (\<Sum>k \<in> set ks. group_work (po_groups s k)) + (if po_closed s then 0 else 1)"

text \<open>What changing one group does to the two sums.\<close>

lemma sum_upd_group:
  fixes f :: "'t group \<Rightarrow> 'm :: comm_monoid_add"
  assumes "k \<in> set ks"
  shows "(\<Sum>j \<in> set ks. f (((po_groups s)(k := g)) j)) = f g + (\<Sum>j \<in> set ks - {k}. f (po_groups s j))"
    and "(\<Sum>j \<in> set ks. f (po_groups s j)) = f (po_groups s k) + (\<Sum>j \<in> set ks - {k}. f (po_groups s j))"
  using assms by (simp_all add: sum.remove [of "set ks" k])

lemma work_set_group:
  assumes "k \<in> set ks" "group_work g < group_work (po_groups s k)"
  shows "pool_work ks (set_group k g s) < pool_work ks s"
proof -
  have "(\<Sum>j \<in> set ks. group_work (po_groups (set_group k g s) j)) < (\<Sum>j \<in> set ks. group_work (po_groups s j))"
    using assms sum_upd_group(1) [OF assms(1), of group_work s g] sum_upd_group(2) [OF assms(1), of group_work s]
    by (simp del: fun_upd_apply)
  then show ?thesis by (simp add: pool_work_def)
qed

lemma pending_set_group:
  assumes "k \<in> set ks"
  shows "pool_pending ks (set_group k g s) + mset (pending (po_groups s k)) = pool_pending ks s + mset (pending g)"
  using sum_upd_group(1) [OF assms, of "\<lambda>g. mset (pending g)" s g]
    sum_upd_group(2) [OF assms, of "\<lambda>g. mset (pending g)" s]
  by (simp add: pool_pending_def del: fun_upd_apply)

lemma pool_step_work:
  assumes "pool_step check ks s s'" "pool_inv check ks all s"
  shows "pool_work ks s' < pool_work ks s"
  using assms(1)
proof (cases rule: pool_step.cases)
  case (send_closed k g xs t ys)
  then show ?thesis using assms(2) by (auto simp: pool_inv_def pending_def)
next
  case (send k g xs t ys)
  then have "pool_work ks (set_group k (g\<lparr>gr_running := xs @ ys\<rparr>) s) < pool_work ks s"
    by (intro work_set_group) (simp_all add: group_work_def)
  then show ?thesis using send by (simp add: pool_work_def)
next
  case abort
  then show ?thesis using assms(2) by (simp add: pool_inv_def)
next
  case close
  then show ?thesis by (simp add: pool_work_def)
qed (simp_all add: work_set_group group_work_def)

lemma pool_step_inv:
  assumes "pool_step check ks s s'" "pool_inv check ks all s"
  shows "pool_inv check ks all s'"
  using assms(1)
proof (cases rule: pool_step.cases)
  case (spawn k g t ts)
  let ?g = "g\<lparr>gr_todo := ts, gr_waiting := gr_waiting g @ [t]\<rparr>"
  have "mset (pending ?g) = mset (pending (po_groups s k))" using spawn by (simp add: pending_def)
  then have "pool_pending ks s' = pool_pending ks s"
    using pending_set_group [OF spawn(2), of ?g s] spawn(1) by simp
  then show ?thesis using assms(2) spawn by (auto simp: pool_inv_def)
next
  case (acquire k g xs t ys)
  let ?g = "g\<lparr>gr_waiting := xs @ ys, gr_running := gr_running g @ [t]\<rparr>"
  have "mset (pending ?g) = mset (pending (po_groups s k))" using acquire by (simp add: pending_def)
  then have "pool_pending ks s' = pool_pending ks s"
    using pending_set_group [OF acquire(2), of ?g s] acquire(1) by simp
  then show ?thesis using assms(2) acquire by (auto simp: pool_inv_def pending_def)
next
  case (send k g xs t ys)
  let ?g = "g\<lparr>gr_running := xs @ ys\<rparr>"
  have "mset (pending (po_groups s k)) = add_mset t (mset (pending ?g))" using send by (simp add: pending_def)
  then have "add_mset t (pool_pending ks s') = pool_pending ks s"
    using pending_set_group [OF send(2), of ?g s] send(1) by (simp add: pool_pending_def)
  then have "image_mset check (pool_pending ks s) = add_mset (check t) (image_mset check (pool_pending ks s'))"
    by (metis image_mset_add_mset)
  then show ?thesis using assms(2) send by (auto simp: pool_inv_def pending_def)
next
  case (return k g)
  have "mset (pending (g\<lparr>gr_returned := True\<rparr>)) = mset (pending (po_groups s k))"
    using return by (simp add: pending_def)
  then have "pool_pending ks s' = pool_pending ks s"
    using pending_set_group [OF return(2), of "g\<lparr>gr_returned := True\<rparr>" s] return(1) by simp
  then show ?thesis using assms(2) return by (auto simp: pool_inv_def pending_def)
next
  case send_closed
  then show ?thesis using assms(2) by (auto simp: pool_inv_def pending_def)
next
  case close
  then show ?thesis using assms(2) by (auto simp: pool_inv_def pool_pending_def)
qed (use assms(2) in \<open>simp add: pool_inv_def\<close>)

lemma pool_step_limit: "pool_step check ks s s' \<Longrightarrow> gr_limit (po_groups s' k) = gr_limit (po_groups s k)"
  by (induction rule: pool_step.induct) auto

lemma pool_progress:
  assumes "pool_inv check ks all s" "\<not> po_closed s" "\<forall>k \<in> set ks. 1 \<le> gr_limit (po_groups s k)"
  shows "\<exists>s'. pool_step check ks s s'"
proof (cases "\<forall>k \<in> set ks. gr_returned (po_groups s k)")
  case True
  then show ?thesis using assms(1,2) pool_step.close unfolding pool_inv_def by blast
next
  case False
  then obtain k where k: "k \<in> set ks" "\<not> gr_returned (po_groups s k)" by blast
  have ok: "\<not> po_panic s" "\<not> po_cancelled s" using assms(1) by (simp_all add: pool_inv_def)
  show ?thesis
  proof (cases "gr_todo (po_groups s k)")
    case Nil
    show ?thesis
    proof (cases "gr_running (po_groups s k)")
      case running: Nil
      show ?thesis
      proof (cases "gr_waiting (po_groups s k)")
        case waiting: Nil
        from pool_step.return [OF k(1) refl ok(1) k(2) Nil waiting running] show ?thesis by blast
      next
        case (Cons t ts)
        then have "gr_waiting (po_groups s k) = [] @ t # ts" by simp
        from pool_step.acquire [OF k(1) refl ok(1) this] show ?thesis using running assms(3) k(1) by fastforce
      qed
    next
      case (Cons t ts)
      then have "gr_running (po_groups s k) = [] @ t # ts" by simp
      from pool_step.send [OF k(1) refl ok(1) this assms(2)] show ?thesis by blast
    qed
  next
    case (Cons t ts)
    from pool_step.spawn [OF k(1) refl ok(1) k(2) Cons ok(2)] show ?thesis by blast
  qed
qed

text \<open>A group without places in its semaphore keeps all of its tasks.\<close>

definition stuck_group :: "'t list \<Rightarrow> 't group \<Rightarrow> bool" where
  "stuck_group ts g \<longleftrightarrow> gr_limit g = 0 \<and> gr_running g = [] \<and> mset (gr_todo g @ gr_waiting g) = mset ts"

lemma pool_step_stuck:
  "pool_step check ks s s' \<Longrightarrow> stuck_group ts (po_groups s k) \<Longrightarrow> stuck_group ts (po_groups s' k)"
  by (induction rule: pool_step.induct) (auto simp: stuck_group_def)

definition all_tasks :: "'k list \<Rightarrow> ('k \<Rightarrow> 't list) \<Rightarrow> 't multiset" where
  "all_tasks ks tasks = (\<Sum>k \<in> set ks. mset (tasks k))"

lemma new_pool_inv: "pool_inv check ks (all_tasks ks tasks) (new_pool tasks limit)"
  by (simp add: pool_inv_def new_pool_def new_group_def pool_pending_def pending_def all_tasks_def)

lemma new_pool_work:
  "pool_work ks (new_pool tasks limit) = 3 * size (all_tasks ks tasks) + card (set ks) + 1"
proof -
  have "(\<Sum>k \<in> set ks. 3 * length (tasks k) + 1) = 3 * (\<Sum>k \<in> set ks. length (tasks k)) + card (set ks)"
    by (simp add: sum_Suc sum_distrib_left)
  then show ?thesis
    by (simp add: pool_work_def new_pool_def new_group_def group_work_def all_tasks_def size_multiset_sum
        sum_Suc sum_distrib_left)
qed

lemma pool_run:
  assumes "(pool_step check ks ^^ n) (new_pool tasks limit) s"
  shows "pool_inv check ks (all_tasks ks tasks) s \<and> n + pool_work ks s \<le> 3 * size (all_tasks ks tasks) + card (set ks) + 1
    \<and> (\<forall>k. gr_limit (po_groups s k) = limit k)
    \<and> (\<forall>k. limit k = 0 \<longrightarrow> stuck_group (tasks k) (po_groups s k))"
  using assms
proof (induction n arbitrary: s)
  case 0
  show ?case
  proof -
    have s: "s = new_pool tasks limit" using 0 by simp
    have "gr_limit (po_groups s k) = limit k" "limit k = 0 \<Longrightarrow> stuck_group (tasks k) (po_groups s k)" for k
      by (simp_all add: s new_pool_def new_group_def stuck_group_def)
    then show ?thesis using s by (simp add: new_pool_inv new_pool_work)
  qed
next
  case (Suc n)
  then obtain u where u: "(pool_step check ks ^^ n) (new_pool tasks limit) u" "pool_step check ks u s" by auto
  note IH = Suc.IH [OF u(1)]
  show ?case
    using IH pool_step_inv [OF u(2)] pool_step_work [OF u(2)] pool_step_limit [OF u(2)] pool_step_stuck [OF u(2)]
    by fastforce
qed

text \<open>C14. A poll that is not cancelled never panics and ends after a number of steps bounded by its tasks, whatever
  the interleaving: every step brings it nearer to the close of the channel, some step is always possible
  as long as every limit is at least one, and when the channel is closed each task has sent its status
  exactly once. With a limit of zero and a task of that type it never ends.\<close>

theorem poll_ends_with_every_status:
  assumes "(pool_step check ks ^^ n) (new_pool tasks limit) s"
  shows "\<not> po_panic s \<and> n \<le> 3 * size (all_tasks ks tasks) + card (set ks) + 1
    \<and> (po_closed s \<longrightarrow> mset (po_sent s) = image_mset check (all_tasks ks tasks))
    \<and> ((\<forall>k \<in> set ks. 1 \<le> limit k) \<and> \<not> po_closed s \<longrightarrow> (\<exists>s'. pool_step check ks s s'))
    \<and> ((\<exists>k \<in> set ks. limit k = 0 \<and> tasks k \<noteq> []) \<longrightarrow> \<not> po_closed s)"
proof -
  note run = pool_run [OF assms]
  then have inv: "pool_inv check ks (all_tasks ks tasks) s" by blast
  have "mset (po_sent s) = image_mset check (all_tasks ks tasks)" if "po_closed s"
  proof -
    have "pool_pending ks s = {#}" using inv that by (simp add: pool_inv_def pool_pending_def)
    then show ?thesis using inv by (simp add: pool_inv_def)
  qed
  moreover have "\<exists>s'. pool_step check ks s s'" if "\<forall>k \<in> set ks. 1 \<le> limit k" "\<not> po_closed s"
    using pool_progress [OF inv that(2)] that(1) run by simp
  moreover have "\<not> po_closed s" if k: "k \<in> set ks" "limit k = 0" "tasks k \<noteq> []" for k
  proof
    assume "po_closed s"
    then have "pending (po_groups s k) = []" using inv k(1) by (simp add: pool_inv_def)
    moreover have "mset (gr_todo (po_groups s k) @ gr_waiting (po_groups s k)) = mset (tasks k)"
      using run k(2) by (simp add: stuck_group_def)
    ultimately show False using k(3) by (simp add: pending_def)
  qed
  ultimately show ?thesis using run inv by (auto simp: pool_inv_def)
qed

definition two_tasks :: "(bool, nat, nat) pool" where
  "two_tasks = new_pool (\<lambda>k. if k then [10, 20] else [30]) (\<lambda>k. 1)"

lemma poll_ends_with_every_status_witness:
  "\<exists>s. pool_step Suc [True, False] two_tasks s \<and> \<not> po_panic s \<and> \<not> po_closed s \<and> (\<exists>s'. pool_step Suc [True, False] s s')"
proof -
  let ?g = "po_groups two_tasks True"
  let ?s = "set_group True (?g\<lparr>gr_todo := [20], gr_waiting := gr_waiting ?g @ [10]\<rparr>) two_tasks"
  have step: "pool_step Suc [True, False] two_tasks ?s"
    by (rule pool_step.spawn) (simp_all add: two_tasks_def new_pool_def new_group_def)
  then have "(pool_step Suc [True, False] ^^ 1) (new_pool (\<lambda>k. if k then [10, 20] else [30]) (\<lambda>k. 1)) ?s"
    by (simp add: two_tasks_def eq_OO)
  note poll_ends_with_every_status [OF this]
  moreover have "\<not> po_closed ?s" by (simp add: two_tasks_def new_pool_def)
  ultimately show ?thesis using step by auto
qed

section \<open>With cancellation\<close>

lemma abort_groups:
  assumes "po_cancelled s" "\<not> po_panic s" "distinct js"
    "\<And>j. j \<in> set js \<Longrightarrow> j \<in> set ks \<and> gr_todo (po_groups s j) \<noteq> [] \<and> \<not> gr_returned (po_groups s j)"
  shows "(pool_step check ks)\<^sup>*\<^sup>* s (s\<lparr>po_groups := \<lambda>j. if j \<in> set js then (po_groups s j)\<lparr>gr_returned := True\<rparr>
      else po_groups s j\<rparr>)"
  using assms
proof (induction js arbitrary: s)
  case Nil
  then show ?case by simp
next
  case (Cons j js)
  let ?u = "set_group j ((po_groups s j)\<lparr>gr_returned := True\<rparr>) s"
  have first: "pool_step check ks s ?u"
    by (rule pool_step.abort) (use Cons.prems in simp_all)
  have rest: "(pool_step check ks)\<^sup>*\<^sup>* ?u (?u\<lparr>po_groups := \<lambda>i. if i \<in> set js
      then (po_groups ?u i)\<lparr>gr_returned := True\<rparr> else po_groups ?u i\<rparr>)"
    by (rule Cons.IH) (use Cons.prems in \<open>auto simp: set_group_def\<close>)
  have eq: "?u\<lparr>po_groups := \<lambda>i. if i \<in> set js then (po_groups ?u i)\<lparr>gr_returned := True\<rparr> else po_groups ?u i\<rparr>
      = s\<lparr>po_groups := \<lambda>i. if i \<in> set (j # js) then (po_groups s i)\<lparr>gr_returned := True\<rparr> else po_groups s i\<rparr>"
    using Cons.prems(3) by (simp add: set_group_def fun_eq_iff)
  show ?case using converse_rtranclp_into_rtranclp [where r = "pool_step check ks", OF first rest] unfolding eq .
qed

text \<open>When the context ends while the loop of a type with two or more tasks is between two of them, the
  poll can panic: the loops return without waiting for the goroutines that they have started, the channel
  is closed, and the status of a goroutine that is still running is sent on the closed channel.\<close>

theorem cancelled_poll_can_panic:
  fixes check :: "'t \<Rightarrow> 'r" and ks :: "'k list"
  assumes "distinct ks" "k \<in> set ks" "tasks k = t # u # ts" "1 \<le> limit k" "\<forall>j \<in> set ks. tasks j \<noteq> []"
  shows "\<exists>s s' :: ('k, 't, 'r) pool. (pool_step check ks)\<^sup>*\<^sup>* (new_pool tasks limit) s \<and> \<not> po_panic s
    \<and> (pool_step check ks)\<^sup>*\<^sup>* (cancel_pool s) s' \<and> po_panic s'"
proof -
  let ?n = "new_pool tasks limit :: ('k, 't, 'r) pool"
  let ?g = "(po_groups ?n k)\<lparr>gr_todo := u # ts, gr_waiting := gr_waiting (po_groups ?n k) @ [t]\<rparr>"
  define s where "s = set_group k ?g ?n"
  have spawn: "pool_step check ks ?n s" unfolding s_def
    by (rule pool_step.spawn) (use assms in \<open>simp_all add: new_pool_def new_group_def\<close>)
  define a where "a = (cancel_pool s)\<lparr>po_groups := \<lambda>j. if j \<in> set ks
      then (po_groups (cancel_pool s) j)\<lparr>gr_returned := True\<rparr> else po_groups (cancel_pool s) j\<rparr>"
  have abort: "(pool_step check ks)\<^sup>*\<^sup>* (cancel_pool s) a" unfolding a_def
    by (rule abort_groups) (use assms in \<open>simp_all add: s_def cancel_pool_def new_pool_def new_group_def\<close>)
  define b where "b = a\<lparr>po_closed := True\<rparr>"
  have close: "pool_step check ks a b" unfolding b_def
    by (rule pool_step.close) (simp_all add: a_def s_def cancel_pool_def new_pool_def)
  have gb: "gr_waiting (po_groups b k) = [] @ t # []" "gr_running (po_groups b k) = []"
    "gr_limit (po_groups b k) = limit k" "\<not> po_panic b"
    using assms(2) by (simp_all add: b_def a_def s_def cancel_pool_def new_pool_def new_group_def)
  define d where "d = set_group k ((po_groups b k)\<lparr>gr_waiting := [], gr_running := [t]\<rparr>) b"
  have acquire: "pool_step check ks b d"
    using pool_step.acquire [OF assms(2) refl gb(4,1), of check] gb(2,3) assms(4) by (simp add: d_def)
  have "pool_step check ks d (d\<lparr>po_panic := True\<rparr>)"
    by (rule pool_step.send_closed [OF assms(2) refl, of _ "[]" t "[]"])
      (use gb in \<open>simp_all add: d_def b_def\<close>)
  with abort close acquire have "(pool_step check ks)\<^sup>*\<^sup>* (cancel_pool s) (d\<lparr>po_panic := True\<rparr>)"
    by (meson rtranclp.rtrancl_into_rtrancl)
  moreover have "\<not> po_panic s" by (simp add: s_def new_pool_def)
  moreover have "po_panic (d\<lparr>po_panic := True\<rparr>)" by simp
  ultimately show ?thesis using spawn by blast
qed

lemma cancelled_poll_can_panic_witness:
  "\<exists>s s'. (pool_step Suc [True, False])\<^sup>*\<^sup>* (new_pool (\<lambda>k. if k then [10, 20] else [30]) (\<lambda>k. 1)) s \<and> \<not> po_panic s
    \<and> (pool_step Suc [True, False])\<^sup>*\<^sup>* (cancel_pool s) s' \<and> po_panic s'"
  by (rule cancelled_poll_can_panic [of _ True _ 10 20 "[]"]) simp_all

end
