(* ===== verification/Database_Collector.thy ===== *)
theory Database_Collector
  imports Database_Poll Base_Collector
begin

text \<open>
  \<open>pkg/collector/database/database.go\<close>, \<open>config.go\<close> and \<open>factory.go\<close>: the collector of the connectivity
  of databases, from the statuses that a poll has sent to the samples of a scrape. The polls' goroutines are
  those of \<open>Database_Poll\<close>, a check is that of \<open>Database_Check\<close>. A loop over a map takes its entries in
  the order of a given list.
\<close>

section \<open>Configuration\<close>

record database_config =
  dbc_CheckInterval :: int
  dbc_CheckTimeout :: int
  dbc_Namespaces :: "string list"
  dbc_MySQLConcurrency :: int
  dbc_PostgreSQLConcurrency :: int
  dbc_MongoDBConcurrency :: int
  dbc_RedisConcurrency :: int

definition database_NewDefaultConfig :: database_config where
  "database_NewDefaultConfig = \<lparr>dbc_CheckInterval = 300 * 10 ^ 9, dbc_CheckTimeout = 10 * 10 ^ 9,
     dbc_Namespaces = [], dbc_MySQLConcurrency = 50, dbc_PostgreSQLConcurrency = 50,
     dbc_MongoDBConcurrency = 50, dbc_RedisConcurrency = 100\<rparr>"

definition getConcurrencyLimit :: "database_config \<Rightarrow> DatabaseType \<Rightarrow> int" where
  "getConcurrencyLimit cfg ty = (case ty of
       MySQL \<Rightarrow> dbc_MySQLConcurrency cfg
     | PostgreSQL \<Rightarrow> dbc_PostgreSQLConcurrency cfg
     | MongoDB \<Rightarrow> dbc_MongoDBConcurrency cfg
     | Redis \<Rightarrow> dbc_RedisConcurrency cfg
     | OtherType _ \<Rightarrow> 10)"

section \<open>State\<close>

record db_stats =
  st_total :: int
  st_available :: int
  st_unavailable :: int

record db_descs =
  de_connectivity :: desc
  de_response :: desc
  de_total :: desc
  de_available :: desc
  de_unavailable :: desc

record database_collector =
  dbl_config :: database_config
  dbl_connectivity :: "string \<Rightarrow> db_status option"
  dbl_stats :: db_stats
  dbl_descs :: db_descs

definition db_desc :: "prom \<Rightarrow> string \<Rightarrow> string \<Rightarrow> string \<Rightarrow> string list \<Rightarrow> desc" where
  "db_desc P ns n help labels = \<lparr>d_fqName = pr_BuildFQName P ns ''database'' n, d_help = help, d_labels = labels\<rparr>"

definition db_descs_of :: "prom \<Rightarrow> string \<Rightarrow> db_descs" where
  "db_descs_of P ns =
     \<lparr>de_connectivity = db_desc P ns ''connectivity''
        ''Database connectivity status (1 = connected, 0 = disconnected)'' [''namespace'', ''database'', ''type''],
      de_response = db_desc P ns ''response_time_seconds''
        ''Database connection response time in seconds'' [''namespace'', ''database'', ''type''],
      de_total = db_desc P ns ''total'' ''Total number of databases being monitored'' [''type''],
      de_available = db_desc P ns ''available'' ''Number of available (connected) databases'' [''type''],
      de_unavailable = db_desc P ns ''unavailable'' ''Number of unavailable (disconnected) databases'' [''type'']\<rparr>"

definition db_desc_list :: "db_descs \<Rightarrow> desc list" where
  "db_desc_list D = [de_connectivity D, de_response D, de_total D, de_available D, de_unavailable D]"

fun db_register :: "desc list \<Rightarrow> base \<Rightarrow> base go" where
  "db_register [] b = Ret b"
| "db_register (d # ds) b = bind_go (MustRegisterDesc b (Some (d_fqName d))) (db_register ds)"

definition db_initMetrics :: "prom \<Rightarrow> string \<Rightarrow> base \<Rightarrow> (db_descs \<times> base) go" where
  "db_initMetrics P ns b =
     (let D = db_descs_of P ns in bind_go (db_register (db_desc_list D) b) (\<lambda>b'. Ret (D, b')))"

text \<open>\<open>client\<close> is what getting the Kubernetes client returns, \<open>load\<close> what loading the section does to
  the defaults.\<close>

definition database_NewCollector :: "prom \<Rightarrow> string \<Rightarrow> err option \<Rightarrow> (database_config \<Rightarrow> database_config \<times> err option)
    \<Rightarrow> (database_collector \<times> base) res go" where
  "database_NewCollector P ns client load =
     (let cfg = fst (load database_NewDefaultConfig) in
      case client of
        Some e \<Rightarrow> Ret (Inl (''kubernetes client is required for database collector: '' @ e))
      | None \<Rightarrow> bind_go (db_initMetrics P ns (NewBaseCollector ''database'' [WithWaitReadyOnCollect True]))
          (\<lambda>(D, b). Ret (Inr (\<lparr>dbl_config = cfg, dbl_connectivity = Map.empty,
             dbl_stats = \<lparr>st_total = 0, st_available = 0, st_unavailable = 0\<rparr>, dbl_descs = D\<rparr>, b))))"

section \<open>A poll\<close>

text \<open>The tasks by type, and the goroutines of the poll: making a semaphore of a negative size panics.\<close>

definition tasksByType :: "db_task list \<Rightarrow> DatabaseType \<Rightarrow> db_task list" where
  "tasksByType tasks ty = filter (\<lambda>t. tk_DatabaseType t = ty) tasks"

definition start_checks :: "database_config \<Rightarrow> DatabaseType list \<Rightarrow> db_task list
    \<Rightarrow> (DatabaseType, db_task, db_status) pool go" where
  "start_checks cfg tys tasks = make_pool tys (tasksByType tasks) (getConcurrencyLimit cfg)"

definition status_key :: "db_status \<Rightarrow> string" where
  "status_key st = ds_Namespace st @ ''/'' @ ds_Name st"

definition status_map :: "db_status list \<Rightarrow> (string \<Rightarrow> db_status option)" where
  "status_map sent = foldl (\<lambda>m st. m(status_key st \<mapsto> st)) Map.empty sent"

definition calculateStatistics :: "(string \<times> db_status) list \<Rightarrow> db_stats" where
  "calculateStatistics es =
     foldl (\<lambda>s x. if ds_Connected (snd x) then s\<lparr>st_available := st_available s + 1\<rparr>
                  else s\<lparr>st_unavailable := st_unavailable s + 1\<rparr>)
       \<lparr>st_total = int (length es), st_available = 0, st_unavailable = 0\<rparr> es"

text \<open>\<open>sent\<close> are the statuses in the order in which the channel delivered them, \<open>es\<close> the entries of
  the new map in the order of the loop over it.\<close>

definition database_Poll :: "db_status list \<Rightarrow> (string \<times> db_status) list \<Rightarrow> database_collector
    \<Rightarrow> database_collector" where
  "database_Poll sent es c =
     c\<lparr>dbl_connectivity := status_map sent, dbl_stats := calculateStatistics es\<rparr>"

section \<open>A scrape\<close>

definition add_status :: "(DatabaseType \<Rightarrow> db_stats option) \<Rightarrow> db_status \<Rightarrow> (DatabaseType \<Rightarrow> db_stats option)" where
  "add_status m st =
     (let s = (case m (ds_DatabaseType st) of Some s \<Rightarrow> s
               | None \<Rightarrow> \<lparr>st_total = 0, st_available = 0, st_unavailable = 0\<rparr>);
          s1 = s\<lparr>st_total := st_total s + 1\<rparr>
      in m(ds_DatabaseType st \<mapsto> (if ds_Connected st then s1\<lparr>st_available := st_available s1 + 1\<rparr>
            else s1\<lparr>st_unavailable := st_unavailable s1 + 1\<rparr>)))"

definition calculateTypeStatistics :: "(string \<times> db_status) list \<Rightarrow> (DatabaseType \<Rightarrow> db_stats option)" where
  "calculateTypeStatistics es = foldl (\<lambda>m x. add_status m (snd x)) Map.empty es"

definition type_text :: "DatabaseType \<Rightarrow> string" where
  "type_text ty = (case ty of MySQL \<Rightarrow> ''mysql'' | PostgreSQL \<Rightarrow> ''postgresql'' | MongoDB \<Rightarrow> ''mongodb''
     | Redis \<Rightarrow> ''redis'' | OtherType t \<Rightarrow> t)"

definition status_rows :: "db_descs \<Rightarrow> db_status \<Rightarrow> row list" where
  "status_rows D st =
     (let labels = [ds_Namespace st, ds_Name st, type_text (ds_DatabaseType st)] in
      [(de_connectivity D, boolToFloat64 (ds_Connected st), labels), (de_response D, ds_ResponseTime st, labels)])"

definition stats_rows :: "db_descs \<Rightarrow> string \<Rightarrow> db_stats \<Rightarrow> row list" where
  "stats_rows D label s =
     [(de_total D, float_of_int (st_total s), [label]), (de_available D, float_of_int (st_available s), [label]),
      (de_unavailable D, float_of_int (st_unavailable s), [label])]"

text \<open>\<open>es\<close> and \<open>es'\<close> are the entries in the order of the two loops over the statuses, \<open>ts\<close> those
  of the statistics by type.\<close>

definition database_rows :: "database_collector \<Rightarrow> (string \<times> db_status) list \<Rightarrow> (DatabaseType \<times> db_stats) list
    \<Rightarrow> row list" where
  "database_rows c es ts =
     concat (map (\<lambda>x. status_rows (dbl_descs c) (snd x)) es)
     @ concat (map (\<lambda>x. stats_rows (dbl_descs c) (type_text (fst x)) (snd x)) ts)
     @ stats_rows (dbl_descs c) ''all'' (dbl_stats c)"

definition database_collect :: "prom \<Rightarrow> database_collector \<Rightarrow> (string \<times> db_status) list
    \<Rightarrow> (DatabaseType \<times> db_stats) list \<Rightarrow> pmetric list \<times> string option" where
  "database_collect P c es ts = emit (map (\<lambda>(d, v, ls). const_metric P d v ls) (database_rows c es ts))"

section \<open>Counting\<close>

lemma calculateStatistics_eq:
  "calculateStatistics es = \<lparr>st_total = int (length es),
     st_available = int (length (filter (\<lambda>x. ds_Connected (snd x)) es)),
     st_unavailable = int (length (filter (\<lambda>x. \<not> ds_Connected (snd x)) es))\<rparr>"
proof -
  have "foldl (\<lambda>s x. if ds_Connected (snd x) then s\<lparr>st_available := st_available s + 1\<rparr>
                  else s\<lparr>st_unavailable := st_unavailable s + 1\<rparr>) \<lparr>st_total = t, st_available = a, st_unavailable = u\<rparr> xs
      = \<lparr>st_total = t, st_available = a + int (length (filter (\<lambda>x. ds_Connected (snd x)) xs)),
         st_unavailable = u + int (length (filter (\<lambda>x. \<not> ds_Connected (snd x)) xs))\<rparr>" for t a u and xs :: "('a \<times> db_status) list"
    by (induction xs arbitrary: a u) auto
  from this [of "int (length es)" 0 0 es] show ?thesis by (simp add: calculateStatistics_def)
qed

definition count_type :: "(db_status \<Rightarrow> bool) \<Rightarrow> (string \<times> db_status) list \<Rightarrow> DatabaseType \<Rightarrow> int" where
  "count_type p es ty = int (length (filter (\<lambda>x. ds_DatabaseType (snd x) = ty \<and> p (snd x)) es))"

lemma calculateTypeStatistics_eq:
  "calculateTypeStatistics es ty = (if count_type (\<lambda>_. True) es ty = 0 then None
     else Some \<lparr>st_total = count_type (\<lambda>_. True) es ty, st_available = count_type ds_Connected es ty,
                st_unavailable = count_type (\<lambda>st. \<not> ds_Connected st) es ty\<rparr>)"
proof (induction es rule: rev_induct)
  case Nil
  then show ?case by (simp add: calculateTypeStatistics_def count_type_def)
next
  case (snoc x es)
  have "calculateTypeStatistics (es @ [x]) = add_status (calculateTypeStatistics es) (snd x)"
    by (simp add: calculateTypeStatistics_def)
  then show ?case using snoc
    by (cases "ds_DatabaseType (snd x) = ty") (auto simp: add_status_def Let_def count_type_def filter_empty_conv)
qed

lemma sum_count_type:
  assumes "finite T" "\<forall>x \<in> set es. ds_DatabaseType (snd x) \<in> T"
  shows "(\<Sum>ty \<in> T. count_type p es ty) = int (length (filter (\<lambda>x. p (snd x)) es))"
  using assms(2)
proof (induction es)
  case (Cons x es)
  have "count_type p (x # es) ty = count_type p es ty + (if ty = ds_DatabaseType (snd x) \<and> p (snd x) then 1 else 0)" for ty
    by (auto simp: count_type_def)
  then have "(\<Sum>ty \<in> T. count_type p (x # es) ty)
      = (\<Sum>ty \<in> T. count_type p es ty) + (\<Sum>ty \<in> T. if ty = ds_DatabaseType (snd x) \<and> p (snd x) then 1 else 0)"
    by (simp add: sum.distrib)
  also have "(\<Sum>ty \<in> T. if ty = ds_DatabaseType (snd x) \<and> p (snd x) then 1 else 0 :: int) = (if p (snd x) then 1 else 0)"
    using assms(1) Cons.prems by (simp add: if_bool_eq_conj [symmetric] sum.delta' split: if_splits)
  finally show ?case using Cons by simp
qed (simp add: count_type_def)

lemma entries_filter_length:
  assumes "entries_of es m" "entries_of es' m"
  shows "length (filter p es) = length (filter p es')"
proof -
  have "distinct es" "distinct es'" "set es = set es'"
    using assms entries_of_mem [OF assms(1)] entries_of_mem [OF assms(2)]
    by (auto simp: entries_of_def distinct_map)
  then show ?thesis by (metis distinct_card distinct_filter set_filter)
qed

lemma type_sums:
  assumes "entries_of ts (calculateTypeStatistics es)"
  shows "sum_list (map (\<lambda>x. st_total (snd x)) ts) = int (length es)"
    "sum_list (map (\<lambda>x. st_available (snd x)) ts) = int (length (filter (\<lambda>x. ds_Connected (snd x)) es))"
    "sum_list (map (\<lambda>x. st_unavailable (snd x)) ts) = int (length (filter (\<lambda>x. \<not> ds_Connected (snd x)) es))"
proof -
  have d: "distinct (map fst ts)" using assms by (simp add: entries_of_def)
  have T: "ty \<in> fst ` set ts \<longleftrightarrow> count_type (\<lambda>_. True) es ty \<noteq> 0" for ty
    using entries_of_dom [OF assms] by (auto simp: calculateTypeStatistics_eq dom_def split: if_splits)
  have all: "\<forall>x \<in> set es. ds_DatabaseType (snd x) \<in> set (map fst ts)"
    using T by (auto simp: count_type_def filter_empty_conv)
  have val: "snd x = \<lparr>st_total = count_type (\<lambda>_. True) es (fst x), st_available = count_type ds_Connected es (fst x),
      st_unavailable = count_type (\<lambda>st. \<not> ds_Connected st) es (fst x)\<rparr>" if "x \<in> set ts" for x
    using entries_of_mem [OF assms, of "fst x" "snd x"] that by (simp add: calculateTypeStatistics_eq split: if_splits)
  have sum: "sum_list (map (\<lambda>x. count_type p es (fst x)) ts) = int (length (filter (\<lambda>x. p (snd x)) es))" for p
    using sum_count_type [OF _ all, of p] sum_list_distinct_conv_sum_set [OF d, of "count_type p es"]
    by (simp add: comp_def)
  have eq: "map (\<lambda>x. st_total (snd x)) ts = map (\<lambda>x. count_type (\<lambda>_. True) es (fst x)) ts"
    "map (\<lambda>x. st_available (snd x)) ts = map (\<lambda>x. count_type ds_Connected es (fst x)) ts"
    "map (\<lambda>x. st_unavailable (snd x)) ts = map (\<lambda>x. count_type (\<lambda>st. \<not> ds_Connected st) es (fst x)) ts"
    by (simp_all add: val)
  show "sum_list (map (\<lambda>x. st_total (snd x)) ts) = int (length es)"
    "sum_list (map (\<lambda>x. st_available (snd x)) ts) = int (length (filter (\<lambda>x. ds_Connected (snd x)) es))"
    "sum_list (map (\<lambda>x. st_unavailable (snd x)) ts) = int (length (filter (\<lambda>x. \<not> ds_Connected (snd x)) es))"
    unfolding eq sum by simp_all
qed

section \<open>The scrape\<close>

lemma status_map_Some:
  "status_map sent k = Some st \<Longrightarrow> st \<in> set sent \<and> status_key st = k"
proof (induction sent rule: rev_induct)
  case (snoc x sent)
  then show ?case by (auto simp: status_map_def split: if_splits)
qed (simp add: status_map_def)

lemma status_samples:
  "s \<in> set (map row_sample (status_rows D st)) \<Longrightarrow>
     \<exists>d v. s = sample d v [ds_Namespace st, ds_Name st, type_text (ds_DatabaseType st)] \<and> d \<in> {de_connectivity D, de_response D}"
  by (auto simp: status_rows_def Let_def)

lemma stats_samples:
  "s \<in> set (map row_sample (stats_rows D l x)) \<Longrightarrow>
     \<exists>d v. s = sample d v [l] \<and> d \<in> {de_total D, de_available D, de_unavailable D}"
  by (auto simp: stats_rows_def)

lemma status_part_clean:
  assumes "entries_of es (status_map sent)" "d_fqName (de_connectivity D) \<noteq> d_fqName (de_response D)"
  shows "no_duplicates (concat (map (\<lambda>x. map row_sample (status_rows D (snd x))) es))"
proof (rule no_duplicates_entries [OF assms(1)])
  show "no_duplicates (map row_sample (status_rows D st))" for st
    using assms(2) by (simp add: status_rows_def no_duplicates_def Let_def)
next
  fix j k u v s t
  assume x: "status_map sent j = Some u" "status_map sent k = Some v" "j \<noteq> k"
    "s \<in> set (map row_sample (status_rows D u))" "t \<in> set (map row_sample (status_rows D v))"
  have "status_key u \<noteq> status_key v" using status_map_Some [OF x(1)] status_map_Some [OF x(2)] x(3) by blast
  then have "ds_Namespace u \<noteq> ds_Namespace v \<or> ds_Name u \<noteq> ds_Name v" unfolding status_key_def by metis
  then show "series s \<noteq> series t" using status_samples [OF x(4)] status_samples [OF x(5)] by auto
qed

lemma stats_part_clean:
  assumes "distinct (map d_fqName [de_total D, de_available D, de_unavailable D])" "distinct (map fst xs)"
  shows "no_duplicates (concat (map (\<lambda>x. map row_sample (stats_rows D (fst x) (snd x))) xs))"
proof (rule no_duplicates_concat)
  show "distinct xs" using assms(2) by (simp add: distinct_map)
  show "no_duplicates (map row_sample (stats_rows D (fst k) (snd k)))" for k
    using assms(1) by (simp add: stats_rows_def no_duplicates_def)
next
  fix j k x y
  assume jk: "j \<in> set xs" "k \<in> set xs" "j \<noteq> k"
    and xy: "x \<in> set (map row_sample (stats_rows D (fst j) (snd j)))"
      "y \<in> set (map row_sample (stats_rows D (fst k) (snd k)))"
  have "fst j \<noteq> fst k" using jk assms(2) by (auto simp: distinct_map inj_on_def)
  then show "series x \<noteq> series y" using stats_samples [OF xy(1)] stats_samples [OF xy(2)] by auto
qed

text \<open>The texts of the four types differ from each other and from the label of the totals.\<close>

lemma type_text_labels:
  assumes "distinct tys" "set tys \<subseteq> db_types"
  shows "distinct (map type_text tys @ [''all''])"
  using assms by (induction tys) (auto simp: type_text_def)

definition db_prom_ok :: "prom \<Rightarrow> string \<Rightarrow> bool" where
  "db_prom_ok P ns \<longleftrightarrow> fq_law P \<and> list_all (usable P) (db_desc_list (db_descs_of P ns))"

lemma db_descs_names:
  "fq_law P \<Longrightarrow> distinct (map d_fqName (db_desc_list (db_descs_of P ns)))"
  by (simp add: db_desc_list_def db_descs_of_def db_desc_def fq_inject)

lemma db_rows_arity:
  "(d, v, ls) \<in> set (database_rows c es ts) \<Longrightarrow> dbl_descs c = db_descs_of P ns \<Longrightarrow>
     d \<in> set (db_desc_list (db_descs_of P ns)) \<and> length ls = length (d_labels d)"
  by (auto simp: database_rows_def status_rows_def stats_rows_def db_desc_list_def db_descs_of_def db_desc_def Let_def)

lemma database_rows_clean:
  assumes "fq_law P" "dbl_descs c = db_descs_of P ns" "entries_of es (status_map sent)"
    "distinct (map fst ts)" "fst ` set ts \<subseteq> db_types"
  shows "no_duplicates (map row_sample (database_rows c es ts))"
proof -
  let ?D = "dbl_descs c"
  let ?L = "map (\<lambda>x. (type_text (fst x), snd x)) ts @ [(''all'', dbl_stats c)]"
  let ?A = "concat (map (\<lambda>x. map row_sample (status_rows ?D (snd x))) es)"
  let ?B = "concat (map (\<lambda>x. map row_sample (stats_rows ?D (fst x) (snd x))) ?L)"
  have names: "distinct (map d_fqName (db_desc_list ?D))" using db_descs_names [OF assms(1)] assms(2) by simp
  have eq: "map row_sample (database_rows c es ts) = ?A @ ?B"
    by (simp add: database_rows_def map_concat comp_def)
  have "map fst ?L = map type_text (map fst ts) @ [''all'']" by simp
  moreover have "set (map fst ts) \<subseteq> db_types" using assms(5) by simp
  ultimately have "distinct (map fst ?L)" using type_text_labels [OF assms(4)] by metis
  then have B: "no_duplicates ?B"
    using names by (intro stats_part_clean) (simp_all add: db_desc_list_def)
  have A: "no_duplicates ?A"
    using names by (intro status_part_clean [OF assms(3)]) (simp add: db_desc_list_def)
  have "length (snd (series x)) = 3" if "x \<in> set ?A" for x
    using that status_samples by fastforce
  moreover have "length (snd (series y)) = 1" if y: "y \<in> set ?B" for y
  proof -
    have "\<exists>x. y \<in> set (f x)" if "y \<in> set (concat (map f xs))"
      for f and xs :: "(string \<times> db_stats) list" using that by auto
    from this [OF y] obtain x where "y \<in> set (map row_sample (stats_rows ?D (fst x) (snd x)))" ..
    from stats_samples [OF this] show ?thesis by auto
  qed
  ultimately show ?thesis unfolding eq by (intro no_duplicates_append A B) fastforce
qed

text \<open>The collector after its polls, each given as the statuses in the order of the channel and the entries
  of the new map.\<close>

definition after_db_polls :: "(db_status list \<times> (string \<times> db_status) list) list \<Rightarrow> database_collector
    \<Rightarrow> database_collector" where
  "after_db_polls polls c = foldl (\<lambda>c (sent, es). database_Poll sent es c) c polls"

lemma after_db_polls_descs [simp]: "dbl_descs (after_db_polls polls c) = dbl_descs c"
  by (induction polls arbitrary: c) (auto simp: after_db_polls_def database_Poll_def)

lemma after_db_polls_snoc:
  "after_db_polls (polls @ [(sent, es)]) c = database_Poll sent es (after_db_polls polls c)"
  by (simp add: after_db_polls_def)

lemma database_NewCollector_ok:
  "database_NewCollector P ns client load = Ret (Inr (c, b)) \<Longrightarrow> dbl_descs c = db_descs_of P ns"
  by (auto simp: database_NewCollector_def db_initMetrics_def Let_def go_simps split: option.splits)

definition adds_up :: "db_stats \<Rightarrow> (DatabaseType \<times> db_stats) list \<Rightarrow> bool" where
  "adds_up s ts \<longleftrightarrow> st_available s + st_unavailable s = st_total s
     \<and> sum_list (map (\<lambda>x. st_total (snd x)) ts) = st_total s
     \<and> sum_list (map (\<lambda>x. st_available (snd x)) ts) = st_available s
     \<and> sum_list (map (\<lambda>x. st_unavailable (snd x)) ts) = st_unavailable s"

text \<open>A scrape after any polls ends without a panic and sends no series twice. Its totals are those of the
  last poll: the number of databases that it reported, split into the available and the unavailable ones,
  each the sum of the numbers that are sent by type.\<close>

theorem database_scrape_adds_up:
  assumes "database_NewCollector P ns client load = Ret (Inr (c0, b))" "db_prom_ok P ns"
    "c = after_db_polls (polls @ [(sent, es0)]) c0" "entries_of es0 (status_map sent)"
    "\<forall>st \<in> set sent. ds_DatabaseType st \<in> db_types"
    "entries_of es (dbl_connectivity c)" "entries_of es' (dbl_connectivity c)"
    "entries_of ts (calculateTypeStatistics es')"
  shows "(\<exists>ms. database_collect P c es ts = (ms, None) \<and> no_duplicates ms)
    \<and> st_total (dbl_stats c) = int (card (dom (status_map sent))) \<and> adds_up (dbl_stats c) ts"
proof
  have c: "dbl_descs c = db_descs_of P ns" "dbl_connectivity c = status_map sent"
    "dbl_stats c = calculateStatistics es0"
    using database_NewCollector_ok [OF assms(1)] assms(3) by (simp_all add: after_db_polls_snoc database_Poll_def)
  have ents: "entries_of es (status_map sent)" "entries_of es' (status_map sent)" using assms(6,7) c(2) by simp_all
  have "usable P d \<and> length ls = length (d_labels d)" if "(d, v, ls) \<in> set (database_rows c es ts)" for d v ls
    using db_rows_arity [OF that c(1)] assms(2) by (auto simp: db_prom_ok_def list_all_iff)
  then have sent: "emit (map (\<lambda>(d, v, ls). const_metric P d v ls) (database_rows c es ts))
      = (map row_sample (database_rows c es ts), None)"
    by (rule emit_const)
  have "ty \<in> db_types" if "ty \<in> fst ` set ts" for ty
  proof -
    have "count_type (\<lambda>_. True) es' ty \<noteq> 0"
      using that entries_of_dom [OF assms(8)] by (auto simp: calculateTypeStatistics_eq dom_def split: if_splits)
    then obtain k st where "(k, st) \<in> set es'" "ds_DatabaseType st = ty"
      by (auto simp: count_type_def filter_empty_conv)
    then show ?thesis using entries_of_mem [OF ents(2)] status_map_Some assms(5) by blast
  qed
  then have "fst ` set ts \<subseteq> db_types" by blast
  moreover have "distinct (map fst ts)" using assms(8) by (simp add: entries_of_def)
  ultimately have "no_duplicates (map row_sample (database_rows c es ts))"
    using database_rows_clean [OF _ c(1) ents(1)] assms(2) by (simp add: db_prom_ok_def)
  then show "\<exists>ms. database_collect P c es ts = (ms, None) \<and> no_duplicates ms"
    unfolding database_collect_def sent by blast
  have len: "length (filter p es') = length (filter p es0)" for p
    by (rule entries_filter_length [OF ents(2) assms(4)])
  have "card (dom (status_map sent)) = length es0"
    using entries_of_dom [OF assms(4)] assms(4) distinct_card [of "map fst es0"] by (simp add: entries_of_def)
  moreover have "length es' = length es0" using len [of "\<lambda>_. True"] by simp
  moreover have "length (filter (\<lambda>x. ds_Connected (snd x)) es0) + length (filter (\<lambda>x. \<not> ds_Connected (snd x)) es0)
      = length es0" by (rule sum_length_filter_compl)
  ultimately show "st_total (dbl_stats c) = int (card (dom (status_map sent))) \<and> adds_up (dbl_stats c) ts"
    using type_sums [OF assms(8)] len by (simp add: adds_up_def c(3) calculateStatistics_eq)
qed

definition demo_db_collector :: database_collector where
  "demo_db_collector = \<lparr>dbl_config = database_NewDefaultConfig, dbl_connectivity = Map.empty,
     dbl_stats = \<lparr>st_total = 0, st_available = 0, st_unavailable = 0\<rparr>, dbl_descs = db_descs_of demo_prom ''sealos''\<rparr>"

definition demo_db_base :: base where
  "demo_db_base = (NewBaseCollector ''database'' [WithWaitReadyOnCollect True])
     \<lparr>bc_descs := map d_fqName (db_desc_list (db_descs_of demo_prom ''sealos''))\<rparr>"

lemma demo_db_new:
  "database_NewCollector demo_prom ''sealos'' None (\<lambda>cfg. (cfg, None)) = Ret (Inr (demo_db_collector, demo_db_base))"
  by (simp add: database_NewCollector_def db_initMetrics_def db_desc_list_def MustRegisterDesc_def RegisterDesc_def
      Let_def demo_db_base_def NewBaseCollector_def demo_db_collector_def)

definition demo_status :: "string \<Rightarrow> DatabaseType \<Rightarrow> bool \<Rightarrow> db_status" where
  "demo_status name ty ok = \<lparr>ds_Name = name, ds_Namespace = ''ns1'', ds_DatabaseType = ty, ds_Connected = ok,
     ds_LastCheck = 3, ds_Error = [], ds_ResponseTime = Fin 1\<rparr>"

definition demo_entries :: "(string \<times> db_status) list" where
  "demo_entries = [(''ns1/cart'', demo_status ''cart'' Redis False), (''ns1/shop'', demo_status ''shop'' MySQL True)]"

lemma database_scrape_adds_up_witness:
  "adds_up (calculateStatistics demo_entries) [(MySQL, \<lparr>st_total = 1, st_available = 1, st_unavailable = 0\<rparr>),
     (Redis, \<lparr>st_total = 1, st_available = 0, st_unavailable = 1\<rparr>)]"
proof -
  let ?sent = "[demo_status ''shop'' MySQL True, demo_status ''cart'' Redis False]"
  let ?c = "after_db_polls ([] @ [(?sent, demo_entries)]) demo_db_collector"
  let ?ts = "[(MySQL, \<lparr>st_total = 1, st_available = 1, st_unavailable = 0\<rparr>),
     (Redis, \<lparr>st_total = 1, st_available = 0, st_unavailable = 1\<rparr>)]"
  have e: "entries_of demo_entries (status_map ?sent)"
    by (auto simp: entries_of_def demo_entries_def status_map_def status_key_def demo_status_def fun_eq_iff)
  have c: "dbl_connectivity ?c = status_map ?sent" "dbl_stats ?c = calculateStatistics demo_entries"
    by (simp_all add: after_db_polls_def database_Poll_def)
  have t: "entries_of ?ts (calculateTypeStatistics demo_entries)"
    by (auto simp: entries_of_def calculateTypeStatistics_eq count_type_def demo_entries_def demo_status_def fun_eq_iff)
  have ok: "db_prom_ok demo_prom ''sealos''" by (simp add: db_prom_ok_def db_desc_list_def)
  have ty: "\<forall>st \<in> set ?sent. ds_DatabaseType st \<in> db_types" by (simp add: demo_status_def)
  from database_scrape_adds_up [OF demo_db_new ok refl e ty e [folded c(1)] e [folded c(1)] t] c(2)
  show ?thesis by simp
qed

end
