(* ===== verification/Collector_Kit.thy ===== *)
theory Collector_Kit
  imports Prom_Client Base_Collector Go_Strings
begin

text \<open>
  What the collectors share beyond the base collector and the client library: the registration of
  their descriptors, and the keys of their maps, which join names by slashes. A Kubernetes name and a
  namespace hold no slash, so such a key determines its parts.
\<close>

section \<open>Registering descriptors\<close>

fun register_descs :: "desc list \<Rightarrow> base \<Rightarrow> base go" where
  "register_descs [] b = Ret b"
| "register_descs (d # ds) b = bind_go (MustRegisterDesc b (Some (d_fqName d))) (register_descs ds)"

lemma register_descs_eq:
  "register_descs ds b = Ret (b\<lparr>bc_descs := bc_descs b @ map d_fqName ds\<rparr>)"
  by (induction ds arbitrary: b) (simp_all add: MustRegisterDesc_def RegisterDesc_def)

section \<open>Keys\<close>

definition slash_free :: "string \<Rightarrow> bool" where
  "slash_free s \<longleftrightarrow> CHR ''/'' \<notin> set s"

lemma slash_inject:
  "slash_free a \<Longrightarrow> slash_free b \<Longrightarrow> a @ CHR ''/'' # p = b @ CHR ''/'' # q \<longleftrightarrow> a = b \<and> p = q"
proof (induction a arbitrary: b)
  case Nil
  then show ?case by (cases b) (auto simp: slash_free_def)
next
  case (Cons x a)
  then show ?case by (cases b) (auto simp: slash_free_def)
qed

lemma slash_prefix:
  assumes "slash_free a" "slash_free b"
  shows "prefix (a @ CHR ''/'' # p) (b @ CHR ''/'' # q) \<longleftrightarrow> a = b \<and> prefix p q"
proof
  assume "prefix (a @ CHR ''/'' # p) (b @ CHR ''/'' # q)"
  then obtain r where "b @ CHR ''/'' # q = a @ CHR ''/'' # (p @ r)" by (auto simp: prefix_def)
  then show "a = b \<and> prefix p q" using slash_inject [OF assms(2,1)] by (auto simp: prefix_def)
qed auto

section \<open>Objects of an informer\<close>

text \<open>A handler is given an object of the watched type, or something else. The object of a deletion may be a
  tombstone around the last object that was known.\<close>

datatype 'a informer_obj = InfObj 'a | Tombstone "'a informer_obj" | OtherObj

definition deleted_obj :: "'a informer_obj \<Rightarrow> 'a option" where
  "deleted_obj obj = (case obj of InfObj x \<Rightarrow> Some x | Tombstone (InfObj x) \<Rightarrow> Some x | _ \<Rightarrow> None)"

section \<open>Rows of one descriptor\<close>

text \<open>The series of rows are told apart by the descriptor's name and the labels.\<close>

definition row_key :: "row \<Rightarrow> string \<times> string list" where
  "row_key r = (case r of (d, v, ls) \<Rightarrow> (d_fqName d, ls))"

lemma sample_mem: "sample d v ls \<in> set (map row_sample rs) \<longleftrightarrow> (d, v, ls) \<in> set rs"
  by (induction rs) (auto simp: sample_def)

lemma no_duplicates_rows: "no_duplicates (map row_sample rs) \<longleftrightarrow> distinct (map row_key rs)"
proof -
  have "series (row_sample r) = row_key r" for r by (cases r) (simp add: row_key_def)
  then have "series \<circ> row_sample = row_key" by (simp add: fun_eq_iff)
  then show ?thesis unfolding no_duplicates_def map_map by simp
qed

text \<open>A hook sends the rows of every entry of a map. When the rows of one entry are distinct and each tells the
  key of its entry, all of them are. Rows of descriptors with other names are told apart by these.\<close>

lemma distinct_entry_rows:
  assumes "entries_of es m" "\<And>k v. m k = Some v \<Longrightarrow> distinct (map row_key (rows v))"
    "\<And>k v r. m k = Some v \<Longrightarrow> r \<in> set (rows v) \<Longrightarrow> f (row_key r) = k"
  shows "distinct (map row_key (concat (map (\<lambda>x. rows (snd x)) es)))"
proof -
  have look: "m (fst x) = Some (snd x)" if "x \<in> set es" for x
    using that entries_of_mem [OF assms(1), of "fst x" "snd x"] by simp
  have d: "distinct (map fst es)" using assms(1) by (simp add: entries_of_def)
  show ?thesis using d look
  proof (induction es)
    case (Cons x es)
    have "f k \<noteq> fst x" if k: "k \<in> set (map row_key (concat (map (\<lambda>x. rows (snd x)) es)))" for k
    proof -
      obtain y r where y: "y \<in> set es" "r \<in> set (rows (snd y))" "k = row_key r"
        using k unfolding set_map set_concat by blast
      then have "f k = fst y" using assms(3) Cons.prems(2) [of y] by simp
      then show ?thesis using y(1) Cons.prems(1) by (metis distinct.simps(2) image_eqI list.set_map list.simps(9))
    qed
    moreover have "f k = fst x" if "k \<in> set (map row_key (rows (snd x)))" for k
      using that assms(3) Cons.prems(2) [of x] by auto
    ultimately have "set (map row_key (rows (snd x))) \<inter> set (map row_key (concat (map (\<lambda>x. rows (snd x)) es))) = {}"
      by blast
    moreover have "distinct (map row_key (rows (snd x)))" using assms(2) Cons.prems(2) [of x] by simp
    ultimately show ?case using Cons by (simp del: set_map)
  qed simp
qed

lemma distinct_rows_append:
  assumes "distinct (map row_key xs)" "distinct (map row_key ys)"
    "(\<lambda>r. d_fqName (fst r)) ` set xs \<inter> (\<lambda>r. d_fqName (fst r)) ` set ys = {}"
  shows "distinct (map row_key (xs @ ys))"
proof -
  have n: "d_fqName (fst r) = fst (row_key r)" for r by (cases r) (simp add: row_key_def)
  let ?n = "\<lambda>r. d_fqName (fst r)"
  have "row_key x \<noteq> row_key y" if "x \<in> set xs" "y \<in> set ys" for x y
  proof
    assume "row_key x = row_key y"
    then have "?n x = ?n y" by (simp only: n)
    then have "?n x \<in> ?n ` set xs \<inter> ?n ` set ys" using that by (intro IntI image_eqI) simp_all
    then show False by (simp only: assms(3) empty_iff)
  qed
  then have "row_key ` set xs \<inter> row_key ` set ys = {}" by blast
  then show ?thesis using assms(1,2) by simp
qed

lemma emit_rows:
  assumes "\<And>d v ls. (d, v, ls) \<in> set rows \<Longrightarrow> usable P d \<and> length ls = length (d_labels d)"
    "distinct (map row_key rows)"
  shows "emit (map (\<lambda>(d, v, ls). const_metric P d v ls) rows) = (map row_sample rows, None)
    \<and> no_duplicates (map row_sample rows)"
  using emit_const [of rows P, OF assms(1)] assms(2) by (simp add: no_duplicates_rows)

section \<open>Storing results by key\<close>

definition store_by :: "('a \<Rightarrow> 'k) \<Rightarrow> 'a list \<Rightarrow> ('k \<Rightarrow> 'a option) \<Rightarrow> ('k \<Rightarrow> 'a option)" where
  "store_by key xs m = foldl (\<lambda>m x. m(key x \<mapsto> x)) m xs"

lemma store_by_snoc: "store_by key (xs @ [x]) m = (store_by key xs m)(key x \<mapsto> x)"
  by (simp add: store_by_def)

lemma store_by_lookup:
  "store_by key xs m k =
     (if filter (\<lambda>x. key x = k) xs = [] then m k else Some (last (filter (\<lambda>x. key x = k) xs)))"
proof (induction xs rule: rev_induct)
  case (snoc x xs)
  then show ?case by (simp add: store_by_snoc)
qed (simp add: store_by_def)

lemma store_by_append: "store_by key (xs @ ys) m = store_by key ys (store_by key xs m)"
  by (simp add: store_by_def)

lemma store_by_Some:
  assumes "store_by key xs Map.empty k = Some x"
  shows "x \<in> set xs" "key x = k"
proof -
  have "x = last (filter (\<lambda>x. key x = k) xs)" "filter (\<lambda>x. key x = k) xs \<noteq> []"
    using assms by (simp_all add: store_by_lookup split: if_splits)
  then have "x \<in> set (filter (\<lambda>x. key x = k) xs)" using last_in_set by blast
  then show "x \<in> set xs" "key x = k" by simp_all
qed

lemma store_by_dom: "dom (store_by key xs Map.empty) = key ` set xs"
  by (auto simp: store_by_lookup dom_def filter_empty_conv)

lemma store_by_inj:
  assumes "inj_on key (set xs)" "x \<in> set xs"
  shows "store_by key xs Map.empty (key x) = Some x"
proof -
  have "key x \<in> dom (store_by key xs Map.empty)" using assms(2) by (simp add: store_by_dom)
  then obtain y where y: "store_by key xs Map.empty (key x) = Some y" by blast
  from store_by_Some [OF y] assms have "y = x" by (auto dest: inj_onD)
  with y show ?thesis by simp
qed

end
