(* ===== verification/Image_Pull.thy ===== *)
theory Image_Pull
  imports Collector_Kit Domain_Classifier
begin

text \<open>
  \<open>pkg/collector/imagepull\<close>: image pull failures and slow pulls, from the events of the pod informer.
  Handlers, timer callbacks and scrapes take the collector's lock for their whole body, so each is one
  step; between them time passes, timers expire and their callbacks wait for the lock. A timer is armed
  until it expires or is stopped; stopping one that has expired has no effect on its callback.
\<close>

section \<open>Classification\<close>

type_synonym FailureReason = string

definition FailureReasonImageNotFound :: FailureReason where "FailureReasonImageNotFound = ''image_not_found''"
definition FailureReasonProxyError :: FailureReason where "FailureReasonProxyError = ''proxy_error''"
definition FailureReasonUnauthorized :: FailureReason where "FailureReasonUnauthorized = ''unauthorized''"
definition FailureReasonTLSHandshake :: FailureReason where "FailureReasonTLSHandshake = ''tls_handshake_error''"
definition FailureReasonIOTimeout :: FailureReason where "FailureReasonIOTimeout = ''io_timeout''"
definition FailureReasonConnectionRefused :: FailureReason where
  "FailureReasonConnectionRefused = ''connection_refused''"
definition FailureReasonNetworkError :: FailureReason where "FailureReasonNetworkError = ''network_error''"
definition FailureReasonBackOff :: FailureReason where "FailureReasonBackOff = ''back_off_pulling_image''"
definition FailureReasonUnknown :: FailureReason where "FailureReasonUnknown = ''unknown''"

lemmas reason_defs = FailureReasonImageNotFound_def FailureReasonProxyError_def FailureReasonUnauthorized_def
  FailureReasonTLSHandshake_def FailureReasonIOTimeout_def FailureReasonConnectionRefused_def
  FailureReasonNetworkError_def FailureReasonBackOff_def FailureReasonUnknown_def

text \<open>The patterns are alternatives of plain texts.\<close>

definition reImageNotFound :: "regexp list" where
  "reImageNotFound = [[lit ''not found''], [lit ''NotFound''], [lit ''manifest unknown''],
     [lit ''repository does not exist'']]"

definition reProxyError :: "regexp list" where
  "reProxyError = [[lit ''proxyconnect''], [lit ''proxy error'']]"

definition reUnauthorized :: "regexp list" where
  "reUnauthorized = [[lit ''unauthorized''], [lit ''authentication require''], [lit ''failed to authorize''],
     [lit ''authorization failed'']]"

definition reTLS :: "regexp list" where
  "reTLS = [[lit ''tls handshake''], [lit ''failed to verify certificate'']]"

definition reIOTimeout :: "regexp list" where
  "reIOTimeout = [[lit ''i/o timeout'']]"

definition reConnectionRefused :: "regexp list" where
  "reConnectionRefused = [[lit ''connection refused'']]"

definition reNetworkError :: "regexp list" where
  "reNetworkError = [[lit ''failed to do request'']]"

definition Classify :: "string \<Rightarrow> string \<Rightarrow> FailureReason" where
  "Classify reason message =
     (let lowMsg = ToLower message; lowReason = ToLower reason in
      if lowReason = ''errimagepull'' \<or> lowReason = ''imagepullbackoff'' then
        if matchesAny lowMsg reImageNotFound then FailureReasonImageNotFound
        else if matchesAny lowMsg reProxyError then FailureReasonProxyError
        else if matchesAny lowMsg reUnauthorized then FailureReasonUnauthorized
        else if matchesAny lowMsg reTLS then FailureReasonTLSHandshake
        else if matchesAny lowMsg reIOTimeout then FailureReasonIOTimeout
        else if matchesAny lowMsg reConnectionRefused then FailureReasonConnectionRefused
        else if matchesAny lowMsg reNetworkError then FailureReasonNetworkError
        else if HasPrefix lowMsg ''back-off pulling image'' then FailureReasonBackOff
        else FailureReasonUnknown
      else lowReason)"

definition isSpecificReason :: "FailureReason \<Rightarrow> bool" where
  "isSpecificReason r \<longleftrightarrow> r \<noteq> FailureReasonBackOff \<and> r \<noteq> FailureReasonUnknown"

section \<open>Images\<close>

definition parseRegistry :: "string \<Rightarrow> string" where
  "parseRegistry img =
     (if img = [] then ''unknown''
      else let parts = Split CHR ''/'' img in
        if 1 < length parts \<and> Contains (hd parts) ''.'' then hd parts else ''docker.io'')"

definition isBackOffPullingImage :: "string \<Rightarrow> string \<Rightarrow> bool" where
  "isBackOffPullingImage reason message \<longleftrightarrow>
     EqualFold reason ''imagepullbackoff'' \<or> Contains (ToLower message) ''back-off pulling image''"

definition isPublicRegistry :: "string \<Rightarrow> bool" where
  "isPublicRegistry img \<longleftrightarrow>
     \<not> Contains img ''/'' \<or> HasPrefix img ''docker.io/'' \<or> HasPrefix img ''gcr.io/''
     \<or> HasPrefix img ''ghcr.io/'' \<or> HasPrefix img ''k8s.gcr.io/'' \<or> HasPrefix img ''quay.io/''
     \<or> HasPrefix img ''registry.k8s.io/''
     \<or> HasPrefix img ''registry.'' \<and> Contains img ''.aliyuncs.com/''
     \<or> HasPrefix img ''hub.'' \<and> Contains img ''.sealos.run/''
     \<or> HasPrefix img ''sealos.hub'' \<or> Contains img ''.cr.aliyuncs.com/''"

definition isImagePullFailure :: "string \<Rightarrow> bool" where
  "isImagePullFailure reason \<longleftrightarrow> reason \<in> {''ErrImagePull'', ''ImagePullBackOff'', ''Cancelled'',
     ''RegistryUnavailable'', ''InvalidImageName'', ''ImageInspectError'', ''ErrImageNeverPull''}"

section \<open>Pods\<close>

text \<open>What the transform of the informer drops is a field \<open>other\<close> of the object.\<close>

record waiting =
  wt_Reason :: string
  wt_Message :: string

record container_status =
  cs_Name :: string
  cs_Image :: string
  cs_ContainerID :: string
  cs_Waiting :: "waiting option"
  cs_other :: string

record pod =
  po_Namespace :: string
  po_Name :: string
  po_UID :: string
  po_NodeName :: string
  po_InitContainerStatuses :: "container_status list"
  po_ContainerStatuses :: "container_status list"
  po_other :: string

definition trimContainerStatuses :: "container_status list \<Rightarrow> container_status list" where
  "trimContainerStatuses statuses = map (\<lambda>cs. cs\<lparr>cs_other := []\<rparr>) statuses"

definition image_transform :: "pod \<Rightarrow> pod" where
  "image_transform p = p\<lparr>po_InitContainerStatuses := trimContainerStatuses (po_InitContainerStatuses p),
     po_ContainerStatuses := trimContainerStatuses (po_ContainerStatuses p), po_other := []\<rparr>"

definition allStatuses :: "pod \<Rightarrow> container_status list" where
  "allStatuses p = po_InitContainerStatuses p @ po_ContainerStatuses p"

section \<open>State\<close>

record failure_info =
  pf_Namespace :: string
  pf_Pod :: string
  pf_Container :: string
  pf_Image :: string
  pf_Node :: string
  pf_Registry :: string
  pf_Reason :: FailureReason

record slow_info =
  sp_Namespace :: string
  sp_Pod :: string
  sp_Container :: string
  sp_Image :: string
  sp_Node :: string
  sp_Registry :: string
  sp_StartedAt :: int

text \<open>A timer with the arguments of its callback.\<close>

record timer =
  ti_id :: nat
  ti_due :: int
  ti_key :: string
  ti_namespace :: string
  ti_pod :: string
  ti_container :: string
  ti_image :: string
  ti_node :: string

text \<open>The first four fields are the collector's; then the clock, the armed timers, the expired timers whose
  callbacks have not run yet, and a supply of names for timers. Times are in nanoseconds.\<close>

record image_collector =
  im_SlowPullThreshold :: int
  im_failures :: "string \<Rightarrow> failure_info option"
  im_slowPulls :: "string \<Rightarrow> slow_info option"
  im_slowTimers :: "string \<Rightarrow> nat option"
  im_now :: int
  im_armed :: "timer list"
  im_fired :: "timer list"
  im_next :: nat

definition pullInfoKey :: "string \<Rightarrow> string \<Rightarrow> string \<Rightarrow> string" where
  "pullInfoKey ns p c = ns @ ''/'' @ p @ ''/'' @ c"

definition image_key :: "pod \<Rightarrow> container_status \<Rightarrow> string" where
  "image_key p cs = pullInfoKey (po_Namespace p) (po_Name p) (cs_Name cs)"

section \<open>Handlers\<close>

definition stop_timer :: "nat \<Rightarrow> image_collector \<Rightarrow> image_collector" where
  "stop_timer i c = c\<lparr>im_armed := filter (\<lambda>t. ti_id t \<noteq> i) (im_armed c)\<rparr>"

definition cleanupSlowPull :: "string \<Rightarrow> image_collector \<Rightarrow> image_collector" where
  "cleanupSlowPull key c =
     (let c1 = c\<lparr>im_slowPulls := (im_slowPulls c)(key := None)\<rparr> in
      case im_slowTimers c1 key of
        None \<Rightarrow> c1
      | Some i \<Rightarrow> (stop_timer i c1)\<lparr>im_slowTimers := (im_slowTimers c1)(key := None)\<rparr>)"

definition isSlowPullCandidate :: "container_status \<Rightarrow> bool" where
  "isSlowPullCandidate cs \<longleftrightarrow> (case cs_Waiting cs of
       None \<Rightarrow> False
     | Some w \<Rightarrow> cs_ContainerID cs = [] \<and> wt_Reason w = ''ContainerCreating''
         \<and> \<not> isBackOffPullingImage (wt_Reason w) (wt_Message w))"

definition checkSlowPull :: "string \<Rightarrow> pod \<Rightarrow> container_status \<Rightarrow> image_collector \<Rightarrow> image_collector" where
  "checkSlowPull key p cs c = (case im_slowTimers c key of
       Some _ \<Rightarrow> c
     | None \<Rightarrow> c\<lparr>im_slowTimers := (im_slowTimers c)(key \<mapsto> im_next c), im_next := im_next c + 1,
         im_armed := im_armed c @ [\<lparr>ti_id = im_next c, ti_due = im_now c + im_SlowPullThreshold c, ti_key = key,
           ti_namespace = po_Namespace p, ti_pod = po_Name p, ti_container = cs_Name cs, ti_image = cs_Image cs,
           ti_node = po_NodeName p\<rparr>]\<rparr>)"

text \<open>The condition on the status of a container for a failure to be recorded.\<close>

definition pull_failure :: "container_status \<Rightarrow> bool" where
  "pull_failure cs \<longleftrightarrow> (case cs_Waiting cs of
       None \<Rightarrow> False
     | Some w \<Rightarrow> isImagePullFailure (wt_Reason w) \<and> isPublicRegistry (cs_Image cs))"

text \<open>A plain back-off keeps the specific reason that was recorded before, for the same node and image.\<close>

definition kept_reason :: "failure_info option \<Rightarrow> pod \<Rightarrow> container_status \<Rightarrow> FailureReason \<Rightarrow> FailureReason" where
  "kept_reason previous p cs reason = (case previous of
       None \<Rightarrow> reason
     | Some f \<Rightarrow> if pf_Node f = po_NodeName p \<and> pf_Image f = cs_Image cs
           \<and> pf_Registry f = parseRegistry (cs_Image cs) \<and> reason = FailureReasonBackOff
           \<and> isSpecificReason (pf_Reason f)
         then pf_Reason f else reason)"

definition failure_of :: "failure_info option \<Rightarrow> pod \<Rightarrow> container_status \<Rightarrow> waiting \<Rightarrow> failure_info" where
  "failure_of previous p cs w = \<lparr>pf_Namespace = po_Namespace p, pf_Pod = po_Name p, pf_Container = cs_Name cs,
     pf_Image = cs_Image cs, pf_Node = po_NodeName p, pf_Registry = parseRegistry (cs_Image cs),
     pf_Reason = kept_reason previous p cs (Classify (wt_Reason w) (wt_Message w))\<rparr>"

definition process_container :: "pod \<Rightarrow> image_collector \<Rightarrow> container_status \<Rightarrow> image_collector" where
  "process_container p c cs =
     (let key = image_key p cs in
      case (if pull_failure cs then cs_Waiting cs else None) of
        Some w \<Rightarrow> cleanupSlowPull key
          (c\<lparr>im_failures := (im_failures c)(key \<mapsto> failure_of (im_failures c key) p cs w)\<rparr>)
      | None \<Rightarrow> let c1 = c\<lparr>im_failures := (im_failures c)(key := None)\<rparr> in
          if isSlowPullCandidate cs then checkSlowPull key p cs c1 else cleanupSlowPull key c1)"

definition processPod :: "pod \<Rightarrow> image_collector \<Rightarrow> image_collector" where
  "processPod p c = (if po_NodeName p = [] then c else foldl (process_container p) c (allStatuses p))"

definition handlePodAdd :: "pod informer_obj \<Rightarrow> image_collector \<Rightarrow> image_collector" where
  "handlePodAdd obj c = (case obj of InfObj p \<Rightarrow> processPod p c | _ \<Rightarrow> c)"

definition handlePodUpdate :: "pod informer_obj \<Rightarrow> pod informer_obj \<Rightarrow> image_collector \<Rightarrow> image_collector" where
  "handlePodUpdate old obj c = (case obj of InfObj p \<Rightarrow> processPod p c | _ \<Rightarrow> c)"

definition owned_key :: "pod \<Rightarrow> string \<Rightarrow> bool" where
  "owned_key p key \<longleftrightarrow> (let pre = po_Namespace p @ ''/'' @ po_Name p @ ''/'' in
     length pre < length key \<and> take (length pre) key = pre)"

text \<open>\<open>es\<close> are the entries of the map of timers in the order of the loop over it.\<close>

definition handlePodDelete :: "(string \<times> nat) list \<Rightarrow> pod informer_obj \<Rightarrow> image_collector \<Rightarrow> image_collector" where
  "handlePodDelete es obj c = (case deleted_obj obj of
       None \<Rightarrow> c
     | Some p \<Rightarrow>
         let c1 = c\<lparr>im_failures := (\<lambda>k. if owned_key p k then None else im_failures c k),
                    im_slowPulls := (\<lambda>k. if owned_key p k then None else im_slowPulls c k)\<rparr> in
         foldl (\<lambda>c (key, i). if owned_key p key
             then (stop_timer i c)\<lparr>im_slowTimers := (im_slowTimers c)(key := None)\<rparr> else c) c1 es)"

text \<open>\<open>answer\<close> is the pod that the API server returns, or no pod when it returns an error. Only the first
  status with the container's name counts.\<close>

definition handleSlowPullTimer :: "pod option \<Rightarrow> timer \<Rightarrow> image_collector \<Rightarrow> image_collector" where
  "handleSlowPullTimer answer t c =
     (let c1 = c\<lparr>im_slowTimers := (im_slowTimers c)(ti_key t := None)\<rparr> in
      case answer of
        None \<Rightarrow> c1
      | Some p \<Rightarrow>
          (case find (\<lambda>cs. cs_Name cs = ti_container t) (allStatuses p) of
             None \<Rightarrow> c1
           | Some cs \<Rightarrow> if isSlowPullCandidate cs
               then c1\<lparr>im_slowPulls := (im_slowPulls c1)(ti_key t \<mapsto> \<lparr>sp_Namespace = ti_namespace t, sp_Pod = ti_pod t,
                 sp_Container = ti_container t, sp_Image = ti_image t, sp_Node = ti_node t,
                 sp_Registry = parseRegistry (ti_image t), sp_StartedAt = im_now c1 - im_SlowPullThreshold c1\<rparr>)\<rparr>
               else c1))"

section \<open>Construction and scrapes\<close>

record image_descs =
  ie_failures :: desc
  ie_slow :: desc

definition image_descs_of :: "prom \<Rightarrow> string \<Rightarrow> image_descs" where
  "image_descs_of P ns =
     \<lparr>ie_failures = \<lparr>d_fqName = pr_BuildFQName P ns ''image'' ''pull_failures'', d_help = ''Image pull failures'',
        d_labels = [''namespace'', ''pod'', ''node'', ''registry'', ''image'', ''reason'']\<rparr>,
      ie_slow = \<lparr>d_fqName = pr_BuildFQName P ns ''image'' ''pull_slow'',
        d_help = ''Current slow image pull duration in seconds after exceeding the configured threshold'',
        d_labels = [''namespace'', ''pod'', ''node'', ''registry'', ''image'']\<rparr>\<rparr>"

definition image_NewDefaultConfig :: int where
  "image_NewDefaultConfig = 5 * 60 * 10 ^ 9"

definition new_image_collector :: "int \<Rightarrow> image_collector" where
  "new_image_collector threshold = \<lparr>im_SlowPullThreshold = threshold, im_failures = Map.empty,
     im_slowPulls = Map.empty, im_slowTimers = Map.empty, im_now = 0, im_armed = [], im_fired = [], im_next = 0\<rparr>"

text \<open>\<open>client\<close> is what getting the Kubernetes client returns, \<open>load\<close> what loading the section does to
  the default threshold; its error is only logged.\<close>

definition image_NewCollector :: "prom \<Rightarrow> string \<Rightarrow> err option \<Rightarrow> (int \<Rightarrow> int \<times> err option)
    \<Rightarrow> ((image_collector \<times> image_descs) \<times> base) res go" where
  "image_NewCollector P ns client load = (case client of
       Some e \<Rightarrow> Ret (Inl (''kubernetes client is required but not available: '' @ e))
     | None \<Rightarrow>
         let D = image_descs_of P ns in
         bind_go (register_descs [ie_failures D, ie_slow D]
             (NewBaseCollector ''imagepull'' [WithWaitReadyOnCollect True]))
           (\<lambda>b. Ret (Inr ((new_image_collector (fst (load image_NewDefaultConfig)), D), b))))"

definition failure_row :: "image_descs \<Rightarrow> failure_info \<Rightarrow> row" where
  "failure_row D f = (ie_failures D, Fin 1,
     [pf_Namespace f, pf_Pod f, pf_Node f, pf_Registry f, pf_Image f, pf_Reason f])"

definition slow_row :: "int \<Rightarrow> image_descs \<Rightarrow> slow_info \<Rightarrow> row" where
  "slow_row now D i = (ie_slow D, if now - sp_StartedAt i < 0 then Fin 0 else Seconds (now - sp_StartedAt i),
     [sp_Namespace i, sp_Pod i, sp_Node i, sp_Registry i, sp_Image i])"

text \<open>The two loops, over the failures and over the slow pulls in some order.\<close>

definition image_collect :: "prom \<Rightarrow> image_descs \<Rightarrow> image_collector \<Rightarrow> (string \<times> failure_info) list
    \<Rightarrow> (string \<times> slow_info) list \<Rightarrow> pmetric list \<times> string option" where
  "image_collect P D c fs ss = emit (map (\<lambda>(d, v, ls). const_metric P d v ls)
     (map (\<lambda>x. failure_row D (snd x)) fs @ map (\<lambda>x. slow_row (im_now c) D (snd x)) ss))"

section \<open>One container\<close>

lemma stop_timer_fields [simp]:
  "im_failures (stop_timer i c) = im_failures c" "im_slowPulls (stop_timer i c) = im_slowPulls c"
  "im_slowTimers (stop_timer i c) = im_slowTimers c" "im_now (stop_timer i c) = im_now c"
  "im_fired (stop_timer i c) = im_fired c" "im_next (stop_timer i c) = im_next c"
  "im_SlowPullThreshold (stop_timer i c) = im_SlowPullThreshold c"
  "im_armed (stop_timer i c) = filter (\<lambda>t. ti_id t \<noteq> i) (im_armed c)"
  by (simp_all add: stop_timer_def)

lemma cleanupSlowPull_fields [simp]:
  "im_failures (cleanupSlowPull key c) = im_failures c"
  "im_slowPulls (cleanupSlowPull key c) = (im_slowPulls c)(key := None)"
  "im_slowTimers (cleanupSlowPull key c) = (im_slowTimers c)(key := None)"
  "im_now (cleanupSlowPull key c) = im_now c" "im_fired (cleanupSlowPull key c) = im_fired c"
  "im_next (cleanupSlowPull key c) = im_next c"
  "im_SlowPullThreshold (cleanupSlowPull key c) = im_SlowPullThreshold c"
  "im_armed (cleanupSlowPull key c) = filter (\<lambda>t. im_slowTimers c key \<noteq> Some (ti_id t)) (im_armed c)"
  by (auto simp: cleanupSlowPull_def Let_def fun_eq_iff intro!: filter_cong split: option.splits)

lemma candidate_no_failure: "isSlowPullCandidate cs \<Longrightarrow> \<not> pull_failure cs"
  by (auto simp: isSlowPullCandidate_def pull_failure_def isImagePullFailure_def split: option.splits)

text \<open>What the maps hold for a container after its status has been looked at.\<close>

definition failure_after :: "failure_info option \<Rightarrow> pod \<Rightarrow> container_status \<Rightarrow> failure_info option" where
  "failure_after previous p cs =
     (if pull_failure cs then map_option (failure_of previous p cs) (cs_Waiting cs) else None)"

lemma pull_failure_waiting: "pull_failure cs \<Longrightarrow> \<exists>w. cs_Waiting cs = Some w"
  by (auto simp: pull_failure_def split: option.splits)

lemma process_container_maps:
  "im_failures (process_container p c cs)
     = (im_failures c)(image_key p cs := failure_after (im_failures c (image_key p cs)) p cs)"
  "im_slowPulls (process_container p c cs)
     = (im_slowPulls c)(image_key p cs := if isSlowPullCandidate cs then im_slowPulls c (image_key p cs) else None)"
  "im_slowTimers (process_container p c cs) = (im_slowTimers c)(image_key p cs :=
     if isSlowPullCandidate cs then (case im_slowTimers c (image_key p cs) of None \<Rightarrow> Some (im_next c) | Some i \<Rightarrow> Some i)
     else None)"
  using candidate_no_failure [of cs] pull_failure_waiting [of cs]
  by (auto simp: process_container_def Let_def failure_after_def checkSlowPull_def split: option.splits)

lemma process_container_rest:
  "im_now (process_container p c cs) = im_now c" "im_fired (process_container p c cs) = im_fired c"
  "im_SlowPullThreshold (process_container p c cs) = im_SlowPullThreshold c"
  by (auto simp: process_container_def Let_def checkSlowPull_def split: option.splits)

section \<open>A pod\<close>

lemma image_key_inject: "image_key p a = image_key p b \<longleftrightarrow> cs_Name a = cs_Name b"
  by (simp add: image_key_def pullInfoKey_def)

lemma process_containers_other:
  assumes "k \<notin> image_key p ` set css"
  shows "im_failures (foldl (process_container p) c css) k = im_failures c k
    \<and> im_slowPulls (foldl (process_container p) c css) k = im_slowPulls c k
    \<and> im_slowTimers (foldl (process_container p) c css) k = im_slowTimers c k"
  using assms by (induction css arbitrary: c) (auto simp: process_container_maps)

lemma process_containers_at:
  assumes "distinct (map cs_Name css)" "cs \<in> set css"
  shows "im_failures (foldl (process_container p) c css) (image_key p cs)
      = failure_after (im_failures c (image_key p cs)) p cs
    \<and> im_slowPulls (foldl (process_container p) c css) (image_key p cs)
      = (if isSlowPullCandidate cs then im_slowPulls c (image_key p cs) else None)
    \<and> (im_slowTimers (foldl (process_container p) c css) (image_key p cs) \<noteq> None \<longleftrightarrow> isSlowPullCandidate cs)"
  using assms
proof (induction css arbitrary: c)
  case (Cons x css)
  show ?case
  proof (cases "cs = x")
    case True
    then have "image_key p cs \<notin> image_key p ` set css"
      using Cons.prems by (auto simp: image_key_inject)
    from process_containers_other [OF this, of "process_container p c x"] True show ?thesis
      by (auto simp: process_container_maps split: option.splits)
  next
    case False
    then have mem: "cs \<in> set css" and ne: "image_key p x \<noteq> image_key p cs"
      using Cons.prems by (auto simp: image_key_inject)
    from Cons.IH [OF _ mem, of "process_container p c x"] Cons.prems ne show ?thesis
      by (simp add: process_container_maps)
  qed
qed simp

lemma trimmed_status:
  "pull_failure (x\<lparr>cs_other := []\<rparr>) = pull_failure x"
  "isSlowPullCandidate (x\<lparr>cs_other := []\<rparr>) = isSlowPullCandidate x"
  "image_key (image_transform p) (x\<lparr>cs_other := []\<rparr>) = image_key p x"
  "failure_of prev (image_transform p) (x\<lparr>cs_other := []\<rparr>) w = failure_of prev p x w"
  "checkSlowPull key (image_transform p) (x\<lparr>cs_other := []\<rparr>) c = checkSlowPull key p x c"
  by (simp_all add: pull_failure_def isSlowPullCandidate_def image_key_def image_transform_def failure_of_def
      kept_reason_def checkSlowPull_def cong: option.case_cong)

lemma process_trimmed:
  "process_container (image_transform p) d (x\<lparr>cs_other := []\<rparr>) = process_container p d x"
  unfolding process_container_def trimmed_status by simp

text \<open>C23. After an event for a scheduled pod the maps hold, for each of its containers, what its status says:
  a failure exactly when the container waits with a reason of a failed pull for a tracked registry, a timer
  exactly when it is still being created, and a slow pull only if it was one before and is still being
  created. A container that failed has neither, and the entries of all other pods are untouched. The fields
  that the transform of the informer drops make no difference.\<close>

theorem maps_follow_the_pod:
  assumes "po_NodeName p \<noteq> []" "distinct (map cs_Name (allStatuses p))" "cs \<in> set (allStatuses p)"
    "c' = handlePodUpdate old (InfObj p) c"
  shows "im_failures c' (image_key p cs) = failure_after (im_failures c (image_key p cs)) p cs
    \<and> (im_failures c' (image_key p cs) \<noteq> None \<longleftrightarrow> pull_failure cs)
    \<and> (im_slowTimers c' (image_key p cs) \<noteq> None \<longleftrightarrow> isSlowPullCandidate cs)
    \<and> im_slowPulls c' (image_key p cs) = (if isSlowPullCandidate cs then im_slowPulls c (image_key p cs) else None)
    \<and> (pull_failure cs \<longrightarrow> im_slowPulls c' (image_key p cs) = None \<and> im_slowTimers c' (image_key p cs) = None)
    \<and> (\<forall>k. k \<notin> image_key p ` set (allStatuses p) \<longrightarrow> im_failures c' k = im_failures c k
         \<and> im_slowPulls c' k = im_slowPulls c k \<and> im_slowTimers c' k = im_slowTimers c k)
    \<and> handlePodUpdate old (InfObj (image_transform p)) c = c'"
proof -
  have c': "c' = foldl (process_container p) c (allStatuses p)"
    using assms(1,4) by (simp add: handlePodUpdate_def processPod_def)
  have "foldl (process_container (image_transform p)) d (trimContainerStatuses xs) = foldl (process_container p) d xs"
    for d xs by (induction xs arbitrary: d) (simp_all add: trimContainerStatuses_def process_trimmed)
  then have "handlePodUpdate old (InfObj (image_transform p)) c = c'"
    using assms(1) by (simp add: c' handlePodUpdate_def processPod_def allStatuses_def image_transform_def)
  moreover have "failure_after prev p cs \<noteq> None \<longleftrightarrow> pull_failure cs" for prev
    using pull_failure_waiting [of cs] by (auto simp: failure_after_def)
  ultimately show ?thesis
    using process_containers_at [OF assms(2,3), of p c] process_containers_other [of _ p "allStatuses p" c]
      candidate_no_failure [of cs] unfolding c' by (simp del: not_None_eq) auto
qed

section \<open>The reason of a failure\<close>

text \<open>What the reasons of successive events of a container amount to: the last one that is not a plain
  back-off counts, if it names a cause.\<close>

definition root_cause :: "FailureReason list \<Rightarrow> FailureReason" where
  "root_cause rs = (if last rs = FailureReasonBackOff
     then (case find (\<lambda>r. r \<noteq> FailureReasonBackOff) (rev rs) of
         Some r \<Rightarrow> if isSpecificReason r then r else FailureReasonBackOff
       | None \<Rightarrow> FailureReasonBackOff)
     else last rs)"

lemma root_cause_single [simp]: "root_cause [r] = r"
  by (simp add: root_cause_def)

lemma root_cause_snoc:
  assumes "rs \<noteq> []"
  shows "root_cause (rs @ [r]) = (if r = FailureReasonBackOff \<and> isSpecificReason (root_cause rs) then root_cause rs else r)"
proof (cases "r = FailureReasonBackOff")
  case True
  have "find (\<lambda>r. r \<noteq> FailureReasonBackOff) (rev rs)
      = (if last rs = FailureReasonBackOff then find (\<lambda>r. r \<noteq> FailureReasonBackOff) (rev rs) else Some (last rs))"
    using assms by (cases rs rule: rev_cases) auto
  then show ?thesis using True
    by (auto simp: root_cause_def isSpecificReason_def split: option.splits if_splits)
qed (simp add: root_cause_def)

text \<open>The events that concern a container: its pod is scheduled to the same node, and it waits with the same
  image of a tracked registry and a reason of a failed pull.\<close>

definition failing_event :: "string \<Rightarrow> string \<Rightarrow> string \<Rightarrow> string \<Rightarrow> string \<Rightarrow> pod \<Rightarrow> waiting \<Rightarrow> bool" where
  "failing_event ns name container img node p w \<longleftrightarrow> node \<noteq> [] \<and> isPublicRegistry img
     \<and> isImagePullFailure (wt_Reason w)
     \<and> po_Namespace p = ns \<and> po_Name p = name \<and> po_NodeName p = node \<and> distinct (map cs_Name (allStatuses p))
     \<and> (\<exists>cs \<in> set (allStatuses p). cs_Name cs = container \<and> cs_Image cs = img \<and> cs_Waiting cs = Some w)"

definition info_of :: "string \<Rightarrow> string \<Rightarrow> string \<Rightarrow> string \<Rightarrow> string \<Rightarrow> FailureReason \<Rightarrow> failure_info" where
  "info_of ns name container img node r = \<lparr>pf_Namespace = ns, pf_Pod = name, pf_Container = container,
     pf_Image = img, pf_Node = node, pf_Registry = parseRegistry img, pf_Reason = r\<rparr>"

lemma failing_event_step:
  assumes "failing_event ns name container img node p w"
  shows "im_failures (processPod p c) (pullInfoKey ns name container) = Some (info_of ns name container img node
     (case im_failures c (pullInfoKey ns name container) of None \<Rightarrow> Classify (wt_Reason w) (wt_Message w)
      | Some f \<Rightarrow> if pf_Node f = node \<and> pf_Image f = img \<and> pf_Registry f = parseRegistry img
           \<and> Classify (wt_Reason w) (wt_Message w) = FailureReasonBackOff \<and> isSpecificReason (pf_Reason f)
         then pf_Reason f else Classify (wt_Reason w) (wt_Message w)))"
proof -
  obtain cs where cs: "cs \<in> set (allStatuses p)" "cs_Name cs = container" "cs_Image cs = img" "cs_Waiting cs = Some w"
    using assms by (auto simp: failing_event_def)
  have p: "po_NodeName p \<noteq> []" "distinct (map cs_Name (allStatuses p))"
    and key: "image_key p cs = pullInfoKey ns name container" and pf: "pull_failure cs"
    using assms cs by (auto simp: failing_event_def image_key_def pull_failure_def)
  have "im_failures (processPod p c) (image_key p cs) = failure_after (im_failures c (image_key p cs)) p cs"
    using process_containers_at [OF p(2) cs(1), of p c] p(1) by (simp add: processPod_def)
  then show ?thesis
    using pf cs assms unfolding key
    by (auto simp: failure_after_def failure_of_def kept_reason_def info_of_def failing_event_def split: option.splits)
qed

text \<open>C25. While a container keeps failing to pull the same image on the same node, the reported reason is the
  root cause of all its events so far: that of the last event, except that a plain back-off never hides a
  specific cause that came before it.\<close>

theorem backoff_keeps_root_cause:
  assumes "es \<noteq> []" "\<forall>(p, w) \<in> set es. failing_event ns name container img node p w"
    "im_failures c (pullInfoKey ns name container) = None"
  shows "im_failures (foldl (\<lambda>c (p, w). handlePodUpdate (InfObj p) (InfObj p) c) c es) (pullInfoKey ns name container)
    = Some (info_of ns name container img node
        (root_cause (map (\<lambda>(p, w). Classify (wt_Reason w) (wt_Message w)) es)))"
  using assms(1,2)
proof (induction es rule: rev_induct)
  case (snoc e es)
  obtain p w where e: "e = (p, w)" by (cases e)
  have ev: "failing_event ns name container img node p w" using snoc.prems e by auto
  show ?case
  proof (cases "es = []")
    case True
    then show ?thesis using failing_event_step [OF ev, of c] assms(3) e by (simp add: handlePodUpdate_def)
  next
    case False
    then show ?thesis using snoc.IH snoc.prems(2) failing_event_step [OF ev] e
      by (simp add: handlePodUpdate_def root_cause_snoc) (auto simp: info_of_def)
  qed
qed simp

section \<open>Runs\<close>

text \<open>What the API server guarantees of a pod: names without slashes, and containers with distinct names.\<close>

definition good_pod :: "pod \<Rightarrow> bool" where
  "good_pod p \<longleftrightarrow> slash_free (po_Namespace p) \<and> slash_free (po_Name p)
     \<and> (\<forall>cs \<in> set (allStatuses p). cs_Name cs \<noteq> []) \<and> distinct (map cs_Name (allStatuses p))"

inductive image_step :: "image_collector \<Rightarrow> image_collector \<Rightarrow> bool" where
  add: "good_pod p \<Longrightarrow> image_step c (handlePodAdd (InfObj p) c)"
| update: "good_pod p \<Longrightarrow> image_step c (handlePodUpdate old (InfObj p) c)"
| delete: "\<lbrakk>deleted_obj obj = Some p; good_pod p; entries_of es (im_slowTimers c)\<rbrakk> \<Longrightarrow>
     image_step c (handlePodDelete es obj c)"
| expire: "\<lbrakk>im_armed c = xs @ t # ys; ti_due t \<le> im_now c\<rbrakk> \<Longrightarrow>
     image_step c (c\<lparr>im_armed := xs @ ys, im_fired := im_fired c @ [t]\<rparr>)"
| callback: "im_fired c = xs @ t # ys \<Longrightarrow>
     image_step c (handleSlowPullTimer answer t (c\<lparr>im_fired := xs @ ys\<rparr>))"
| tick: "0 \<le> d \<Longrightarrow> image_step c (c\<lparr>im_now := im_now c + d\<rparr>)"

text \<open>Whose container a key is.\<close>

definition key_of :: "string \<Rightarrow> string \<Rightarrow> string \<Rightarrow> string \<Rightarrow> bool" where
  "key_of k ns p c \<longleftrightarrow> k = pullInfoKey ns p c \<and> slash_free ns \<and> slash_free p \<and> c \<noteq> []"

definition failure_ok :: "string \<Rightarrow> failure_info \<Rightarrow> bool" where
  "failure_ok k f \<longleftrightarrow> key_of k (pf_Namespace f) (pf_Pod f) (pf_Container f) \<and> pf_Node f \<noteq> []
     \<and> isPublicRegistry (pf_Image f) \<and> pf_Registry f = parseRegistry (pf_Image f)"

definition slow_ok :: "int \<Rightarrow> string \<Rightarrow> slow_info \<Rightarrow> bool" where
  "slow_ok latest k i \<longleftrightarrow> key_of k (sp_Namespace i) (sp_Pod i) (sp_Container i)
     \<and> sp_Registry i = parseRegistry (sp_Image i) \<and> sp_StartedAt i \<le> latest"

definition timer_ok :: "nat \<Rightarrow> timer \<Rightarrow> bool" where
  "timer_ok n t \<longleftrightarrow> key_of (ti_key t) (ti_namespace t) (ti_pod t) (ti_container t) \<and> ti_id t < n"

definition image_inv :: "image_collector \<Rightarrow> bool" where
  "image_inv c \<longleftrightarrow> (\<forall>k f. im_failures c k = Some f \<longrightarrow> failure_ok k f \<and> im_slowTimers c k = None)
     \<and> (\<forall>k i. im_slowPulls c k = Some i \<longrightarrow> slow_ok (im_now c - im_SlowPullThreshold c) k i)
     \<and> (\<forall>t \<in> set (im_armed c @ im_fired c). timer_ok (im_next c) t)
     \<and> (\<forall>k i. im_slowTimers c k = Some i \<longrightarrow> (\<exists>t \<in> set (im_armed c @ im_fired c). ti_id t = i \<and> ti_key t = k))
     \<and> distinct (map ti_id (im_armed c @ im_fired c))"

lemma image_invI:
  assumes "\<And>k f. im_failures c k = Some f \<Longrightarrow> failure_ok k f \<and> im_slowTimers c k = None"
    "\<And>k i. im_slowPulls c k = Some i \<Longrightarrow> slow_ok (im_now c - im_SlowPullThreshold c) k i"
    "\<And>t. t \<in> set (im_armed c) \<or> t \<in> set (im_fired c) \<Longrightarrow> timer_ok (im_next c) t"
    "\<And>k i. im_slowTimers c k = Some i \<Longrightarrow> \<exists>t. (t \<in> set (im_armed c) \<or> t \<in> set (im_fired c)) \<and> ti_id t = i \<and> ti_key t = k"
    "distinct (map ti_id (im_armed c @ im_fired c))"
  shows "image_inv c"
  using assms unfolding image_inv_def by (metis Un_iff set_append)

lemma image_invD:
  assumes "image_inv c"
  shows "im_failures c k = Some f \<Longrightarrow> failure_ok k f \<and> im_slowTimers c k = None"
    "im_slowPulls c k = Some i \<Longrightarrow> slow_ok (im_now c - im_SlowPullThreshold c) k i"
    "t \<in> set (im_armed c) \<or> t \<in> set (im_fired c) \<Longrightarrow> timer_ok (im_next c) t"
    "im_slowTimers c k = Some j \<Longrightarrow> \<exists>t. (t \<in> set (im_armed c) \<or> t \<in> set (im_fired c)) \<and> ti_id t = j \<and> ti_key t = k"
    "distinct (map ti_id (im_armed c @ im_fired c))"
  using assms unfolding image_inv_def by (metis Un_iff set_append)+

lemma image_inv_new: "image_inv (new_image_collector threshold)"
  by (rule image_invI) (simp_all add: new_image_collector_def)

text \<open>Two timers with the same name are the same.\<close>

lemma timer_unique:
  assumes "image_inv c" "t \<in> set (im_armed c) \<or> t \<in> set (im_fired c)" "u \<in> set (im_armed c) \<or> u \<in> set (im_fired c)"
    "ti_id t = ti_id u"
  shows "t = u"
proof -
  have "inj_on ti_id (set (im_armed c @ im_fired c))"
    using image_invD(5) [OF assms(1)] unfolding distinct_map by blast
  from inj_onD [OF this assms(4)] show ?thesis using assms(2,3) by simp
qed

lemma inv_cleanup:
  assumes "image_inv c"
  shows "image_inv (cleanupSlowPull key c)"
proof (rule image_invI)
  fix k i assume reg: "im_slowTimers (cleanupSlowPull key c) k = Some i"
  then have k: "k \<noteq> key" "im_slowTimers c k = Some i" by (auto split: if_splits)
  then obtain t where t: "t \<in> set (im_armed c) \<or> t \<in> set (im_fired c)" "ti_id t = i" "ti_key t = k"
    using image_invD(4) [OF assms] by blast
  have "im_slowTimers c key \<noteq> Some (ti_id t)"
  proof
    assume "im_slowTimers c key = Some (ti_id t)"
    then obtain u where "u \<in> set (im_armed c) \<or> u \<in> set (im_fired c)" "ti_id u = ti_id t" "ti_key u = key"
      using image_invD(4) [OF assms] by blast
    then show False using timer_unique [OF assms t(1), of u] t(3) k(1) by metis
  qed
  then show "\<exists>t. (t \<in> set (im_armed (cleanupSlowPull key c)) \<or> t \<in> set (im_fired (cleanupSlowPull key c)))
      \<and> ti_id t = i \<and> ti_key t = k" using t by auto
next
  show "distinct (map ti_id (im_armed (cleanupSlowPull key c) @ im_fired (cleanupSlowPull key c)))"
    using image_invD(5) [OF assms] by (simp add: distinct_map_filter) (auto simp: image_iff)
qed (use image_invD(1-3) [OF assms] in \<open>auto split: if_splits\<close>)

lemma cleanup_failures:
  "cleanupSlowPull key (c\<lparr>im_failures := F\<rparr>) = (cleanupSlowPull key c)\<lparr>im_failures := F\<rparr>"
  by (simp add: cleanupSlowPull_def stop_timer_def Let_def split: option.splits)

lemma inv_failures:
  assumes "image_inv c" "\<And>k f. F k = Some f \<Longrightarrow> failure_ok k f \<and> im_slowTimers c k = None"
  shows "image_inv (c\<lparr>im_failures := F\<rparr>)"
  by (rule image_invI) (use assms(2) image_invD(2-) [OF assms(1)] in simp_all)

lemma good_key: "good_pod p \<Longrightarrow> cs \<in> set (allStatuses p) \<Longrightarrow> key_of (image_key p cs) (po_Namespace p) (po_Name p) (cs_Name cs)"
  by (auto simp: good_pod_def key_of_def image_key_def)

lemma failure_of_ok:
  "key_of key (po_Namespace p) (po_Name p) (cs_Name cs) \<Longrightarrow> po_NodeName p \<noteq> [] \<Longrightarrow> pull_failure cs \<Longrightarrow>
     failure_ok key (failure_of prev p cs w)"
  by (auto simp: failure_ok_def failure_of_def pull_failure_def split: option.splits)

lemma inv_check:
  assumes "image_inv c" "key_of key (po_Namespace p) (po_Name p) (cs_Name cs)" "im_failures c key = None"
  shows "image_inv (checkSlowPull key p cs c)"
proof (cases "im_slowTimers c key")
  case None
  have fresh: "ti_id t < im_next c" if "t \<in> set (im_armed c) \<or> t \<in> set (im_fired c)" for t
    using image_invD(3) [OF assms(1) that] by (simp add: timer_ok_def)
  show ?thesis
  proof (rule image_invI)
    fix k f assume "im_failures (checkSlowPull key p cs c) k = Some f"
    then show "failure_ok k f \<and> im_slowTimers (checkSlowPull key p cs c) k = None"
      using image_invD(1) [OF assms(1)] assms(3) None by (auto simp: checkSlowPull_def)
  next
    fix t assume "t \<in> set (im_armed (checkSlowPull key p cs c)) \<or> t \<in> set (im_fired (checkSlowPull key p cs c))"
    then show "timer_ok (im_next (checkSlowPull key p cs c)) t"
      using image_invD(3) [OF assms(1), of t] assms(2) None by (auto simp: checkSlowPull_def timer_ok_def)
  next
    fix k i assume reg: "im_slowTimers (checkSlowPull key p cs c) k = Some i"
    show "\<exists>t. (t \<in> set (im_armed (checkSlowPull key p cs c)) \<or> t \<in> set (im_fired (checkSlowPull key p cs c)))
        \<and> ti_id t = i \<and> ti_key t = k"
    proof (cases "k = key")
      case True
      then show ?thesis using reg None by (simp add: checkSlowPull_def) force
    next
      case False
      then obtain t where "t \<in> set (im_armed c) \<or> t \<in> set (im_fired c)" "ti_id t = i" "ti_key t = k"
        using image_invD(4) [OF assms(1), of k i] reg None by (auto simp: checkSlowPull_def)
      then show ?thesis using None by (simp add: checkSlowPull_def) blast
    qed
  next
    show "distinct (map ti_id (im_armed (checkSlowPull key p cs c) @ im_fired (checkSlowPull key p cs c)))"
    proof -
      have "im_next c \<notin> ti_id ` set (im_armed c)" "im_next c \<notin> ti_id ` set (im_fired c)"
        using fresh by (metis imageE less_irrefl)+
      then show ?thesis using image_invD(5) [OF assms(1)] None by (simp add: checkSlowPull_def)
    qed
  qed (use image_invD(2) [OF assms(1)] None in \<open>simp add: checkSlowPull_def\<close>)
qed (simp add: checkSlowPull_def assms(1))

lemma inv_process_container:
  assumes "image_inv c" "key_of (image_key p cs) (po_Namespace p) (po_Name p) (cs_Name cs)" "po_NodeName p \<noteq> []"
  shows "image_inv (process_container p c cs)"
proof -
  let ?key = "image_key p cs"
  have failing: "image_inv (cleanupSlowPull ?key (c\<lparr>im_failures := (im_failures c)(?key \<mapsto> failure_of prev p cs w)\<rparr>))"
    if "pull_failure cs" for prev w unfolding cleanup_failures
    by (rule inv_failures [OF inv_cleanup [OF assms(1)]])
      (use image_invD(1) [OF assms(1)] failure_of_ok [OF assms(2,3) that] in \<open>auto split: if_splits\<close>)
  have cleared: "image_inv (c\<lparr>im_failures := (im_failures c)(?key := None)\<rparr>)"
    by (rule inv_failures [OF assms(1)]) (use image_invD(1) [OF assms(1)] in \<open>auto split: if_splits\<close>)
  have "image_inv (checkSlowPull ?key p cs (c\<lparr>im_failures := (im_failures c)(?key := None)\<rparr>))"
    by (rule inv_check [OF cleared assms(2)]) simp
  then show ?thesis
    using failing inv_cleanup [OF cleared] by (auto simp: process_container_def Let_def split: option.splits)
qed

lemma inv_processPod:
  assumes "image_inv c" "good_pod p"
  shows "image_inv (processPod p c)"
proof (cases "po_NodeName p = []")
  case False
  have "image_inv (foldl (process_container p) d css)" if "image_inv d" "set css \<subseteq> set (allStatuses p)" for d css
    using that by (induction css arbitrary: d) (simp_all add: inv_process_container good_key assms(2) False)
  then show ?thesis using assms(1) False by (simp add: processPod_def)
qed (simp add: processPod_def assms(1))

lemma owned_key_of:
  assumes "key_of k ns n c" "slash_free (po_Namespace p)" "slash_free (po_Name p)"
  shows "owned_key p k \<longleftrightarrow> ns = po_Namespace p \<and> n = po_Name p"
proof -
  let ?pre = "po_Namespace p @ ''/'' @ po_Name p @ ''/''"
  have k: "k = ns @ CHR ''/'' # n @ CHR ''/'' # c" "slash_free ns" "slash_free n" "c \<noteq> []"
    using assms(1) by (auto simp: key_of_def pullInfoKey_def)
  have "owned_key p k \<longleftrightarrow> prefix ?pre k \<and> length ?pre < length k"
    unfolding owned_key_def Let_def prefix_def by (metis append_eq_conv_conj append_take_drop_id)
  also have "prefix ?pre k \<longleftrightarrow> po_Namespace p = ns \<and> po_Name p = n"
    unfolding k(1) using slash_prefix [OF assms(2) k(2)] slash_prefix [OF assms(3) k(3), of "[]" c] by simp
  finally show ?thesis using k(1,4) by auto
qed

section \<open>Deletion\<close>

definition stop_owned :: "pod \<Rightarrow> image_collector \<Rightarrow> string \<times> nat \<Rightarrow> image_collector" where
  "stop_owned p c e = (case e of (key, i) \<Rightarrow>
     if owned_key p key then (stop_timer i c)\<lparr>im_slowTimers := (im_slowTimers c)(key := None)\<rparr> else c)"

lemma stop_owned_fields [simp]:
  "im_failures (stop_owned p c e) = im_failures c" "im_slowPulls (stop_owned p c e) = im_slowPulls c"
  "im_now (stop_owned p c e) = im_now c" "im_next (stop_owned p c e) = im_next c"
  "im_fired (stop_owned p c e) = im_fired c" "im_SlowPullThreshold (stop_owned p c e) = im_SlowPullThreshold c"
  "im_slowTimers (stop_owned p c e) = (if owned_key p (fst e) then (im_slowTimers c)(fst e := None) else im_slowTimers c)"
  "im_armed (stop_owned p c e) = filter (\<lambda>t. owned_key p (fst e) \<longrightarrow> ti_id t \<noteq> snd e) (im_armed c)"
  by (simp_all add: stop_owned_def split: prod.splits)

lemma stop_owned_loop:
  "im_failures (foldl (stop_owned p) c es) = im_failures c"
  "im_slowPulls (foldl (stop_owned p) c es) = im_slowPulls c"
  "im_now (foldl (stop_owned p) c es) = im_now c"
  "im_next (foldl (stop_owned p) c es) = im_next c"
  "im_fired (foldl (stop_owned p) c es) = im_fired c"
  "im_SlowPullThreshold (foldl (stop_owned p) c es) = im_SlowPullThreshold c"
  "im_slowTimers (foldl (stop_owned p) c es) k
     = (if owned_key p k \<and> k \<in> fst ` set es then None else im_slowTimers c k)"
  "im_armed (foldl (stop_owned p) c es)
     = filter (\<lambda>t. \<forall>e \<in> set es. owned_key p (fst e) \<longrightarrow> ti_id t \<noteq> snd e) (im_armed c)"
  by (induction es arbitrary: c) auto

lemma handlePodDelete_eq:
  assumes "deleted_obj obj = Some p" "entries_of es (im_slowTimers c)" "c' = handlePodDelete es obj c"
  shows "im_failures c' k = (if owned_key p k then None else im_failures c k)"
    "im_slowPulls c' k = (if owned_key p k then None else im_slowPulls c k)"
    "im_slowTimers c' k = (if owned_key p k then None else im_slowTimers c k)"
    "im_now c' = im_now c" "im_next c' = im_next c" "im_fired c' = im_fired c"
    "im_SlowPullThreshold c' = im_SlowPullThreshold c"
    "t \<in> set (im_armed c') \<longleftrightarrow> t \<in> set (im_armed c) \<and> (\<forall>key. im_slowTimers c key = Some (ti_id t) \<longrightarrow> \<not> owned_key p key)"
    "\<exists>P. im_armed c' = filter P (im_armed c)"
proof -
  let ?c1 = "c\<lparr>im_failures := (\<lambda>k. if owned_key p k then None else im_failures c k),
               im_slowPulls := (\<lambda>k. if owned_key p k then None else im_slowPulls c k)\<rparr>"
  have c': "c' = foldl (stop_owned p) ?c1 es"
    using assms(1,3) by (simp add: handlePodDelete_def stop_owned_def [abs_def] Let_def)
  note loop = stop_owned_loop [of p ?c1 es, folded c']
  show "im_failures c' k = (if owned_key p k then None else im_failures c k)"
    "im_slowPulls c' k = (if owned_key p k then None else im_slowPulls c k)"
    "im_now c' = im_now c" "im_next c' = im_next c" "im_fired c' = im_fired c"
    "im_SlowPullThreshold c' = im_SlowPullThreshold c" "\<exists>P. im_armed c' = filter P (im_armed c)"
    using loop by auto
  show "im_slowTimers c' k = (if owned_key p k then None else im_slowTimers c k)"
    using loop(7) [of k] entries_of_dom [OF assms(2)] by auto
  have "(key, i) \<in> set es \<longleftrightarrow> im_slowTimers c key = Some i" for key i
    by (rule entries_of_mem [OF assms(2)])
  then show "t \<in> set (im_armed c') \<longleftrightarrow> t \<in> set (im_armed c)
      \<and> (\<forall>key. im_slowTimers c key = Some (ti_id t) \<longrightarrow> \<not> owned_key p key)"
    using loop(8) by fastforce
qed

lemma inv_delete:
  assumes "image_inv c" "deleted_obj obj = Some p" "entries_of es (im_slowTimers c)"
  shows "image_inv (handlePodDelete es obj c)"
proof -
  define c' where "c' = handlePodDelete es obj c"
  note eqs = handlePodDelete_eq [OF assms(2,3) c'_def]
  have "image_inv c'"
  proof (rule image_invI)
    fix k i assume "im_slowTimers c' k = Some i"
    then have k: "\<not> owned_key p k" "im_slowTimers c k = Some i" by (auto simp: eqs(3) split: if_splits)
    then obtain t where t: "t \<in> set (im_armed c) \<or> t \<in> set (im_fired c)" "ti_id t = i" "ti_key t = k"
      using image_invD(4) [OF assms(1)] by blast
    have "\<not> owned_key p key" if reg: "im_slowTimers c key = Some (ti_id t)" for key
    proof -
      obtain u where "u \<in> set (im_armed c) \<or> u \<in> set (im_fired c)" "ti_id u = ti_id t" "ti_key u = key"
        using image_invD(4) [OF assms(1) reg] by blast
      then show ?thesis using timer_unique [OF assms(1) t(1), of u] t(3) k(1) by metis
    qed
    then have "t \<in> set (im_armed c') \<or> t \<in> set (im_fired c')" using t(1) eqs(6,8) by auto
    then show "\<exists>t. (t \<in> set (im_armed c') \<or> t \<in> set (im_fired c')) \<and> ti_id t = i \<and> ti_key t = k"
      using t(2,3) by blast
  next
    obtain P where P: "im_armed c' = filter P (im_armed c)" using eqs(9) by blast
    show "distinct (map ti_id (im_armed c' @ im_fired c'))"
      using image_invD(5) [OF assms(1)] unfolding P eqs(6) by (simp add: distinct_map_filter) (auto simp: image_iff)
  next
    fix k f assume "im_failures c' k = Some f"
    then show "failure_ok k f \<and> im_slowTimers c' k = None"
      using image_invD(1) [OF assms(1), of k f] by (auto simp: eqs(1,3) split: if_splits)
  next
    fix k i assume "im_slowPulls c' k = Some i"
    then show "slow_ok (im_now c' - im_SlowPullThreshold c') k i"
      using image_invD(2) [OF assms(1), of k i] by (auto simp: eqs(2,4,7) split: if_splits)
  next
    fix t assume "t \<in> set (im_armed c') \<or> t \<in> set (im_fired c')"
    then show "timer_ok (im_next c') t" using image_invD(3) [OF assms(1), of t] eqs(5,6,8) by auto
  qed
  then show ?thesis by (simp add: c'_def)
qed

section \<open>Reachable states\<close>

lemma inv_callback:
  assumes "image_inv c" "im_fired c = xs @ t # ys"
  shows "image_inv (handleSlowPullTimer answer t (c\<lparr>im_fired := xs @ ys\<rparr>))"
proof -
  let ?c1 = "c\<lparr>im_fired := xs @ ys, im_slowTimers := (im_slowTimers c)(ti_key t := None)\<rparr>"
  have ok: "timer_ok (im_next c) t" using image_invD(3) [OF assms(1), of t] assms(2) by simp
  have inv: "image_inv (?c1\<lparr>im_slowPulls := S\<rparr>)"
    if S: "\<And>k i. S k = Some i \<Longrightarrow> slow_ok (im_now c - im_SlowPullThreshold c) k i" for S
  proof (rule image_invI)
    fix k i assume "im_slowTimers (?c1\<lparr>im_slowPulls := S\<rparr>) k = Some i"
    then have "k \<noteq> ti_key t" "im_slowTimers c k = Some i" by (auto split: if_splits)
    then obtain u where "u \<in> set (im_armed c) \<or> u \<in> set (im_fired c)" "ti_id u = i" "ti_key u = k" "u \<noteq> t"
      using image_invD(4) [OF assms(1)] by blast
    then show "\<exists>t. (t \<in> set (im_armed (?c1\<lparr>im_slowPulls := S\<rparr>)) \<or> t \<in> set (im_fired (?c1\<lparr>im_slowPulls := S\<rparr>)))
        \<and> ti_id t = i \<and> ti_key t = k" using assms(2) by auto
  next
    show "distinct (map ti_id (im_armed (?c1\<lparr>im_slowPulls := S\<rparr>) @ im_fired (?c1\<lparr>im_slowPulls := S\<rparr>)))"
      using image_invD(5) [OF assms(1)] assms(2) by simp
  next
    fix u assume "u \<in> set (im_armed (?c1\<lparr>im_slowPulls := S\<rparr>)) \<or> u \<in> set (im_fired (?c1\<lparr>im_slowPulls := S\<rparr>))"
    then show "timer_ok (im_next (?c1\<lparr>im_slowPulls := S\<rparr>)) u"
      using image_invD(3) [OF assms(1), of u] assms(2) by auto
  qed (use S image_invD(1) [OF assms(1)] in auto)
  have old: "image_inv ?c1"
    using inv [of "im_slowPulls c"] image_invD(2) [OF assms(1)] by simp
  have "image_inv (?c1\<lparr>im_slowPulls := (im_slowPulls c)(ti_key t \<mapsto> i)\<rparr>)"
    if "slow_ok (im_now c - im_SlowPullThreshold c) (ti_key t) i" for i
    by (rule inv) (use that image_invD(2) [OF assms(1)] in \<open>auto split: if_splits\<close>)
  then show ?thesis
    using old ok by (auto simp: handleSlowPullTimer_def Let_def slow_ok_def timer_ok_def split: option.splits)
qed

lemma image_step_inv: "image_step c c' \<Longrightarrow> image_inv c \<Longrightarrow> image_inv c'"
proof (induction rule: image_step.induct)
  case (add p c)
  then show ?case by (simp add: handlePodAdd_def inv_processPod)
next
  case (update p c old)
  then show ?case by (simp add: handlePodUpdate_def inv_processPod)
next
  case (delete obj p es c)
  then show ?case by (simp add: inv_delete)
next
  case (expire c xs t ys)
  show ?case
  proof (rule image_invI)
    fix k i assume "im_slowTimers (c\<lparr>im_armed := xs @ ys, im_fired := im_fired c @ [t]\<rparr>) k = Some i"
    then obtain u where "u \<in> set (im_armed c) \<or> u \<in> set (im_fired c)" "ti_id u = i" "ti_key u = k"
      using image_invD(4) [OF expire.prems] by auto
    then show "\<exists>u. (u \<in> set (im_armed (c\<lparr>im_armed := xs @ ys, im_fired := im_fired c @ [t]\<rparr>))
        \<or> u \<in> set (im_fired (c\<lparr>im_armed := xs @ ys, im_fired := im_fired c @ [t]\<rparr>))) \<and> ti_id u = i \<and> ti_key u = k"
      using expire.hyps(1) by auto
  next
    fix u assume "u \<in> set (im_armed (c\<lparr>im_armed := xs @ ys, im_fired := im_fired c @ [t]\<rparr>))
      \<or> u \<in> set (im_fired (c\<lparr>im_armed := xs @ ys, im_fired := im_fired c @ [t]\<rparr>))"
    then show "timer_ok (im_next (c\<lparr>im_armed := xs @ ys, im_fired := im_fired c @ [t]\<rparr>)) u"
      using image_invD(3) [OF expire.prems, of u] expire.hyps(1) by auto
  next
    show "distinct (map ti_id (im_armed (c\<lparr>im_armed := xs @ ys, im_fired := im_fired c @ [t]\<rparr>)
        @ im_fired (c\<lparr>im_armed := xs @ ys, im_fired := im_fired c @ [t]\<rparr>)))"
      using image_invD(5) [OF expire.prems] expire.hyps(1) by auto
  qed (use image_invD(1,2) [OF expire.prems] in simp_all)
next
  case (callback c xs t ys answer)
  then show ?case by (simp add: inv_callback)
next
  case (tick d c)
  show ?case
    by (rule image_invI) (use image_invD [OF tick.prems] tick.hyps in \<open>auto simp: slow_ok_def algebra_simps dest!: image_invD(2) [OF tick.prems]\<close>)
qed

lemma image_reach_inv: "image_step\<^sup>*\<^sup>* (new_image_collector threshold) c \<Longrightarrow> image_inv c"
  by (induction rule: rtranclp_induct) (auto simp: image_inv_new intro: image_step_inv)

text \<open>C20. Whatever events, timers and callbacks came before and in whatever order, the deletion of a pod removes
  exactly what belongs to it: its failures, its slow pulls and the entries of its timers go and those of
  all other pods stay, also of those whose names begin alike. Of the timers that have not fired yet, exactly
  the pod's registered ones are stopped; all others keep running, and the callbacks of fired timers stay due.
  In every such state a container with a failure has no timer.\<close>

theorem deleted_pod_is_forgotten:
  assumes "image_step\<^sup>*\<^sup>* (new_image_collector threshold) c" "deleted_obj obj = Some p" "good_pod p"
    "entries_of es (im_slowTimers c)" "c' = handlePodDelete es obj c"
  shows "(\<forall>k f. im_failures c' k = Some f \<longleftrightarrow>
        im_failures c k = Some f \<and> (pf_Namespace f, pf_Pod f) \<noteq> (po_Namespace p, po_Name p))
    \<and> (\<forall>k i. im_slowPulls c' k = Some i \<longleftrightarrow>
        im_slowPulls c k = Some i \<and> (sp_Namespace i, sp_Pod i) \<noteq> (po_Namespace p, po_Name p))
    \<and> (\<forall>k i. im_slowTimers c' k = Some i \<longleftrightarrow> im_slowTimers c k = Some i \<and> (\<exists>t \<in> set (im_armed c @ im_fired c).
        ti_id t = i \<and> ti_key t = k \<and> (ti_namespace t, ti_pod t) \<noteq> (po_Namespace p, po_Name p)))
    \<and> (\<forall>t. t \<in> set (im_armed c') \<longleftrightarrow> t \<in> set (im_armed c)
        \<and> \<not> (im_slowTimers c (ti_key t) = Some (ti_id t) \<and> (ti_namespace t, ti_pod t) = (po_Namespace p, po_Name p)))
    \<and> im_fired c' = im_fired c
    \<and> (\<forall>k. im_failures c' k \<noteq> None \<longrightarrow> im_slowTimers c' k = None)"
proof -
  have inv: "image_inv c" using image_reach_inv [OF assms(1)] .
  have inv': "image_inv c'" using inv_delete [OF inv assms(2,4)] assms(5) by simp
  note eqs = handlePodDelete_eq [OF assms(2,4,5)]
  have slash: "slash_free (po_Namespace p)" "slash_free (po_Name p)" using assms(3) by (simp_all add: good_pod_def)
  have "im_failures c' k = Some f \<longleftrightarrow> im_failures c k = Some f \<and> (pf_Namespace f, pf_Pod f) \<noteq> (po_Namespace p, po_Name p)"
    for k f using image_invD(1) [OF inv, of k f] owned_key_of [OF _ slash, of k] by (auto simp: eqs(1) failure_ok_def)
  moreover have "im_slowPulls c' k = Some i \<longleftrightarrow>
      im_slowPulls c k = Some i \<and> (sp_Namespace i, sp_Pod i) \<noteq> (po_Namespace p, po_Name p)" for k i
    using image_invD(2) [OF inv, of k i] owned_key_of [OF _ slash, of k] by (auto simp: eqs(2) slow_ok_def)
  moreover have own: "owned_key p (ti_key t) \<longleftrightarrow> (ti_namespace t, ti_pod t) = (po_Namespace p, po_Name p)"
    if "t \<in> set (im_armed c @ im_fired c)" for t
    using image_invD(3) [OF inv, of t] that owned_key_of [OF _ slash] by (fastforce simp: timer_ok_def)
  have reg: "\<exists>t \<in> set (im_armed c @ im_fired c). ti_id t = i \<and> ti_key t = k" if "im_slowTimers c k = Some i" for k i
    using image_invD(4) [OF inv that] by auto
  have "im_slowTimers c' k = Some i \<longleftrightarrow> im_slowTimers c k = Some i \<and> (\<exists>t \<in> set (im_armed c @ im_fired c).
        ti_id t = i \<and> ti_key t = k \<and> (ti_namespace t, ti_pod t) \<noteq> (po_Namespace p, po_Name p))" for k i
    using reg [of k i] own unfolding eqs(3) by (metis option.distinct(1))
  moreover have "t \<in> set (im_armed c') \<longleftrightarrow> t \<in> set (im_armed c)
      \<and> \<not> (im_slowTimers c (ti_key t) = Some (ti_id t) \<and> (ti_namespace t, ti_pod t) = (po_Namespace p, po_Name p))" for t
  proof (cases "t \<in> set (im_armed c)")
    case True
    have "key = ti_key t" if "im_slowTimers c key = Some (ti_id t)" for key
      using reg [OF that] timer_unique [OF inv] True by auto
    then show ?thesis using own [of t] True unfolding eqs(8) by auto
  qed (simp add: eqs(8))
  ultimately show ?thesis using image_invD(1) [OF inv'] eqs(6) by blast
qed

section \<open>Scrapes\<close>

text \<open>The labels of a sample leave out the container.\<close>

definition labels_tell_apart :: "image_collector \<Rightarrow> bool" where
  "labels_tell_apart c \<longleftrightarrow>
     (\<forall>j k f g. im_failures c j = Some f \<and> im_failures c k = Some g \<and> j \<noteq> k \<longrightarrow>
        (pf_Namespace f, pf_Pod f, pf_Node f, pf_Image f, pf_Reason f)
          \<noteq> (pf_Namespace g, pf_Pod g, pf_Node g, pf_Image g, pf_Reason g))
     \<and> (\<forall>j k f g. im_slowPulls c j = Some f \<and> im_slowPulls c k = Some g \<and> j \<noteq> k \<longrightarrow>
        (sp_Namespace f, sp_Pod f, sp_Node f, sp_Image f) \<noteq> (sp_Namespace g, sp_Pod g, sp_Node g, sp_Image g))"

lemma distinct_rows:
  assumes "entries_of es m"
  shows "distinct (map (\<lambda>x. f (snd x)) es) \<longleftrightarrow> (\<forall>j k x y. m j = Some x \<and> m k = Some y \<and> j \<noteq> k \<longrightarrow> f x \<noteq> f y)"
proof -
  have keys: "distinct (map fst es)" and look: "\<And>k v. (k, v) \<in> set es \<longleftrightarrow> m k = Some v"
    using assms entries_of_mem [OF assms] by (auto simp: entries_of_def)
  have "distinct es" using keys by (simp add: distinct_map)
  then have "distinct (map (\<lambda>x. f (snd x)) es) \<longleftrightarrow> inj_on (\<lambda>x. f (snd x)) (set es)"
    by (simp add: distinct_map)
  also have "\<dots> \<longleftrightarrow> (\<forall>j x k y. (j, x) \<in> set es \<and> (k, y) \<in> set es \<and> f x = f y \<longrightarrow> (j, x) = (k, y))"
    unfolding inj_on_def by (metis snd_conv prod.collapse)
  also have "\<dots> \<longleftrightarrow> (\<forall>j k x y. m j = Some x \<and> m k = Some y \<and> j \<noteq> k \<longrightarrow> f x \<noteq> f y)"
    unfolding look by (metis option.inject prod.inject)
  finally show ?thesis .
qed

text \<open>C38. In every reachable state a scrape ends without a panic, with one sample per failure and per slow
  pull. Its series are distinct exactly when the labels tell the containers apart: two containers of a pod
  that fail to pull the same image for the same reason, or both pull it slowly, give the same series twice.\<close>

theorem image_scrape_collisions:
  assumes "image_step\<^sup>*\<^sup>* (new_image_collector threshold) c" "D = image_descs_of P ns" "fq_law P"
    "usable P (ie_failures D)" "usable P (ie_slow D)"
    "entries_of fs (im_failures c)" "entries_of ss (im_slowPulls c)"
  shows "\<exists>ms. image_collect P D c fs ss = (ms, None) \<and> length ms = length fs + length ss
    \<and> (no_duplicates ms \<longleftrightarrow> labels_tell_apart c)"
proof -
  have inv: "image_inv c" using image_reach_inv [OF assms(1)] .
  let ?rows = "map (\<lambda>x. failure_row D (snd x)) fs @ map (\<lambda>x. slow_row (im_now c) D (snd x)) ss"
  have sent: "image_collect P D c fs ss = (map row_sample ?rows, None)"
    unfolding image_collect_def
    by (rule emit_const) (use assms(4,5) in \<open>auto simp: failure_row_def slow_row_def image_descs_of_def assms(2)\<close>)
  have names: "d_fqName (ie_failures D) \<noteq> d_fqName (ie_slow D)"
    using fq_inject [OF assms(3)] by (simp add: assms(2) image_descs_of_def)
  have "distinct (map row_key ?rows) \<longleftrightarrow> distinct (map (\<lambda>x. row_key (failure_row D (snd x))) fs)
      \<and> distinct (map (\<lambda>x. row_key (slow_row (im_now c) D (snd x))) ss)"
    using names by (auto simp: comp_def row_key_def failure_row_def slow_row_def)
  also have "\<dots> \<longleftrightarrow> labels_tell_apart c"
  proof -
    have f: "row_key (failure_row D f) = row_key (failure_row D g) \<longleftrightarrow>
        (pf_Namespace f, pf_Pod f, pf_Node f, pf_Image f, pf_Reason f)
          = (pf_Namespace g, pf_Pod g, pf_Node g, pf_Image g, pf_Reason g)"
      if "im_failures c j = Some f" "im_failures c k = Some g" for j k f g
      using image_invD(1) [OF inv that(1)] image_invD(1) [OF inv that(2)]
      by (auto simp: row_key_def failure_row_def failure_ok_def)
    have s: "row_key (slow_row n D f) = row_key (slow_row n D g) \<longleftrightarrow>
        (sp_Namespace f, sp_Pod f, sp_Node f, sp_Image f) = (sp_Namespace g, sp_Pod g, sp_Node g, sp_Image g)"
      if "im_slowPulls c j = Some f" "im_slowPulls c k = Some g" for j k f g n
      using image_invD(2) [OF inv that(1)] image_invD(2) [OF inv that(2)]
      by (auto simp: row_key_def slow_row_def slow_ok_def)
    show ?thesis unfolding distinct_rows [OF assms(6), where f = "\<lambda>f. row_key (failure_row D f)"]
        distinct_rows [OF assms(7), where f = "\<lambda>i. row_key (slow_row (im_now c) D i)"] labels_tell_apart_def
      using f s by meson
  qed
  finally have "no_duplicates (map row_sample ?rows) \<longleftrightarrow> labels_tell_apart c"
    by (simp only: no_duplicates_rows)
  then show ?thesis using sent by simp
qed

section \<open>A pull that stays slow\<close>

text \<open>One period of a container that is being created: an event for its pod, the threshold passes, the timer
  expires and its callback finds the container unchanged.\<close>

definition slow_cycle :: "pod \<Rightarrow> string \<Rightarrow> image_collector \<Rightarrow> image_collector" where
  "slow_cycle p key c =
     (let c1 = handlePodUpdate (InfObj p) (InfObj p) c;
          c2 = c1\<lparr>im_now := im_now c1 + im_SlowPullThreshold c1\<rparr> in
      case find (\<lambda>t. ti_key t = key \<and> ti_due t \<le> im_now c2) (im_armed c2) of
        None \<Rightarrow> c2
      | Some t \<Rightarrow> handleSlowPullTimer (Some p) t (c2\<lparr>im_armed := remove1 t (im_armed c2)\<rparr>))"

lemma find_split: "find P xs = Some x \<Longrightarrow> \<exists>ys zs. xs = ys @ x # zs \<and> remove1 x xs = ys @ zs"
proof (induction xs)
  case (Cons y xs)
  show ?case
  proof (cases "P y")
    case True
    then have "y = x" using Cons.prems by simp
    then show ?thesis by force
  next
    case False
    then have f: "find P xs = Some x" and "P x" using Cons.prems by (auto simp: find_Some_iff)
    then obtain ys zs where "xs = ys @ x # zs" "remove1 x xs = ys @ zs" using Cons.IH by blast
    then have "y # xs = (y # ys) @ x # zs \<and> remove1 x (y # xs) = (y # ys) @ zs" using False \<open>P x\<close> by auto
    then show ?thesis by blast
  qed
qed simp

lemma slow_cycle_steps:
  assumes "good_pod p" "0 \<le> im_SlowPullThreshold c"
  shows "image_step\<^sup>*\<^sup>* c (slow_cycle p key c)"
proof -
  define c1 where "c1 = handlePodUpdate (InfObj p) (InfObj p) c"
  define c2 where "c2 = c1\<lparr>im_now := im_now c1 + im_SlowPullThreshold c1\<rparr>"
  have thr: "im_SlowPullThreshold c1 = im_SlowPullThreshold c"
  proof -
    have "im_SlowPullThreshold (foldl (process_container p) d css) = im_SlowPullThreshold d" for d css
      by (induction css arbitrary: d) (simp_all add: process_container_rest)
    then show ?thesis by (simp add: c1_def handlePodUpdate_def processPod_def)
  qed
  have "image_step c c1" unfolding c1_def by (rule image_step.update [OF assms(1)])
  moreover have "image_step c1 c2" unfolding c2_def by (rule image_step.tick) (simp add: thr assms(2))
  ultimately have two: "image_step\<^sup>*\<^sup>* c c2" by simp
  show ?thesis
  proof (cases "find (\<lambda>t. ti_key t = key \<and> ti_due t \<le> im_now c2) (im_armed c2)")
    case None
    have "slow_cycle p key c = c2"
      unfolding slow_cycle_def Let_def c1_def [symmetric] c2_def [symmetric] None by simp
    then show ?thesis using two by simp
  next
    case (Some t)
    from find_split [OF Some]
    obtain ys zs where split: "im_armed c2 = ys @ t # zs" "remove1 t (im_armed c2) = ys @ zs" by blast
    let ?c3 = "c2\<lparr>im_armed := ys @ zs, im_fired := im_fired c2 @ [t]\<rparr>"
    have due: "ti_due t \<le> im_now c2" using Some by (auto simp: find_Some_iff)
    have "image_step c2 ?c3" by (rule image_step.expire [OF split(1) due])
    moreover have "image_step ?c3 (handleSlowPullTimer (Some p) t (?c3\<lparr>im_fired := im_fired c2 @ []\<rparr>))"
      by (rule image_step.callback) simp
    moreover have "handleSlowPullTimer (Some p) t (?c3\<lparr>im_fired := im_fired c2 @ []\<rparr>) = slow_cycle p key c"
      unfolding slow_cycle_def Let_def c1_def [symmetric] c2_def [symmetric] Some using split(2) by simp
    ultimately have "image_step c2 ?c3" "image_step ?c3 (slow_cycle p key c)" by simp_all
    then show ?thesis using two by (meson rtranclp.rtrancl_into_rtrancl)
  qed
qed

definition quiet :: "int \<Rightarrow> image_collector \<Rightarrow> bool" where
  "quiet threshold c \<longleftrightarrow> im_SlowPullThreshold c = threshold \<and> im_failures c = Map.empty
     \<and> im_slowTimers c = Map.empty \<and> im_armed c = [] \<and> im_fired c = []"

lemma slow_cycle_quiet:
  assumes "quiet threshold c" "po_NodeName p \<noteq> []" "allStatuses p = [cs]" "isSlowPullCandidate cs" "0 \<le> threshold"
    "c' = slow_cycle p (image_key p cs) c"
  shows "quiet threshold c' \<and> im_now c' = im_now c + threshold
    \<and> (\<exists>i. im_slowPulls c' (image_key p cs) = Some i \<and> sp_StartedAt i = im_now c)"
  using assms(1-5) candidate_no_failure [OF assms(4)] unfolding assms(6)
  by (simp add: slow_cycle_def handlePodUpdate_def processPod_def process_container_def checkSlowPull_def
      handleSlowPullTimer_def quiet_def Let_def fun_eq_iff)

text \<open>The duration of a slow pull starts again with every event after it was reported: a container that has
  been in creation for any number of periods of the threshold, with an event of its pod in each of them,
  is reported as slow, but only for one period.\<close>

theorem slow_duration_restarts:
  assumes "good_pod p" "po_NodeName p \<noteq> []" "allStatuses p = [cs]" "isSlowPullCandidate cs" "0 \<le> threshold"
    "c = (slow_cycle p (image_key p cs) ^^ Suc n) (new_image_collector threshold)"
  shows "image_step\<^sup>*\<^sup>* (new_image_collector threshold) c \<and> im_now c = int (Suc n) * threshold
    \<and> (\<exists>i. im_slowPulls c (image_key p cs) = Some i \<and> im_now c - sp_StartedAt i = threshold)"
proof -
  let ?f = "slow_cycle p (image_key p cs)" and ?new = "new_image_collector threshold"
  have run: "quiet threshold ((?f ^^ m) ?new) \<and> im_now ((?f ^^ m) ?new) = int m * threshold
      \<and> image_step\<^sup>*\<^sup>* ?new ((?f ^^ m) ?new)" for m
  proof (induction m)
    case 0
    show ?case by (simp add: quiet_def new_image_collector_def)
  next
    case (Suc m)
    then have "image_step\<^sup>*\<^sup>* ((?f ^^ m) ?new) (?f ((?f ^^ m) ?new))"
      using slow_cycle_steps [OF assms(1)] assms(5) by (simp add: quiet_def)
    then show ?case
      using Suc slow_cycle_quiet [OF _ assms(2-5) refl] by (auto simp: algebra_simps)
  qed
  have last: "c = ?f ((?f ^^ n) ?new)" using assms(6) by simp
  have "\<exists>i. im_slowPulls c (image_key p cs) = Some i \<and> sp_StartedAt i = im_now ((?f ^^ n) ?new)"
    "im_now c = im_now ((?f ^^ n) ?new) + threshold"
    using slow_cycle_quiet [OF conjunct1 [OF run [of n]] assms(2-5) last] by simp_all
  then show ?thesis using run [of "Suc n"] assms(6) by auto
qed

section \<open>Examples\<close>

definition demo_container :: "string \<Rightarrow> string \<Rightarrow> string \<Rightarrow> container_status" where
  "demo_container name reason message = \<lparr>cs_Name = name, cs_Image = ''nginx:bad'', cs_ContainerID = [],
     cs_Waiting = Some \<lparr>wt_Reason = reason, wt_Message = message\<rparr>, cs_other = ''x''\<rparr>"

definition demo_pod :: "container_status list \<Rightarrow> container_status list \<Rightarrow> pod" where
  "demo_pod inits apps = \<lparr>po_Namespace = ''ns'', po_Name = ''web'', po_UID = ''1'', po_NodeName = ''n1'',
     po_InitContainerStatuses = inits, po_ContainerStatuses = apps, po_other = ''x''\<rparr>"

lemma demo_public: "isPublicRegistry ''nginx:bad''"
  by code_simp

lemma demo_pod_simps [simp]:
  "allStatuses (demo_pod inits apps) = inits @ apps" "po_NodeName (demo_pod inits apps) = ''n1''"
  "po_Namespace (demo_pod inits apps) = ''ns''" "po_Name (demo_pod inits apps) = ''web''"
  "cs_Name (demo_container name reason message) = name" "cs_Image (demo_container name reason message) = ''nginx:bad''"
  "cs_Waiting (demo_container name reason message) = Some \<lparr>wt_Reason = reason, wt_Message = message\<rparr>"
  "image_key (demo_pod inits apps) (demo_container name reason message) = ''ns/web/'' @ name"
  by (simp_all add: allStatuses_def demo_pod_def demo_container_def image_key_def pullInfoKey_def)

lemma demo_good_pod: "distinct (map cs_Name (inits @ apps)) \<Longrightarrow> \<forall>cs \<in> set (inits @ apps). cs_Name cs \<noteq> [] \<Longrightarrow>
    good_pod (demo_pod inits apps)"
  by (auto simp: good_pod_def slash_free_def)

lemma demo_failure: "pull_failure (demo_container name ''InvalidImageName'' message)"
  by (simp add: pull_failure_def isImagePullFailure_def demo_public)

lemma demo_candidate: "isSlowPullCandidate (demo_container name ''ContainerCreating'' [])"
  by (simp add: isSlowPullCandidate_def demo_container_def) code_simp

lemma maps_follow_the_pod_witness:
  "let app = demo_container ''app'' ''InvalidImageName'' [];
       c' = handlePodUpdate OtherObj (InfObj (demo_pod [demo_container ''init'' ''ContainerCreating'' []] [app]))
              (new_image_collector 5)
   in im_failures c' ''ns/web/app'' \<noteq> None \<and> im_slowTimers c' ''ns/web/app'' = None"
proof -
  let ?app = "demo_container ''app'' ''InvalidImageName'' []"
  let ?p = "demo_pod [demo_container ''init'' ''ContainerCreating'' []] [?app]"
  have "po_NodeName ?p \<noteq> []" "distinct (map cs_Name (allStatuses ?p))" "?app \<in> set (allStatuses ?p)" by simp_all
  from maps_follow_the_pod [OF this refl, of OtherObj "new_image_collector 5"] show ?thesis
    unfolding Let_def by (elim conjE) (simp add: demo_failure)
qed

lemma demo_classify:
  "Classify ''InvalidImageName'' [] = ''invalidimagename''"
  "Classify ''ImagePullBackOff'' ''Back-off pulling image'' = FailureReasonBackOff"
  by code_simp+

lemma backoff_keeps_root_cause_witness:
  "im_failures (foldl (\<lambda>c (p, w). handlePodUpdate (InfObj p) (InfObj p) c) (new_image_collector 5)
       [(demo_pod [] [demo_container ''app'' ''InvalidImageName'' []], \<lparr>wt_Reason = ''InvalidImageName'', wt_Message = []\<rparr>),
        (demo_pod [] [demo_container ''app'' ''ImagePullBackOff'' ''Back-off pulling image''],
          \<lparr>wt_Reason = ''ImagePullBackOff'', wt_Message = ''Back-off pulling image''\<rparr>)])
     (pullInfoKey ''ns'' ''web'' ''app'')
   = Some (info_of ''ns'' ''web'' ''app'' ''nginx:bad'' ''n1'' ''invalidimagename'')"
proof -
  let ?es = "[(demo_pod [] [demo_container ''app'' ''InvalidImageName'' []], \<lparr>wt_Reason = ''InvalidImageName'', wt_Message = []\<rparr>),
        (demo_pod [] [demo_container ''app'' ''ImagePullBackOff'' ''Back-off pulling image''],
          \<lparr>wt_Reason = ''ImagePullBackOff'', wt_Message = ''Back-off pulling image''\<rparr>)]"
  have "\<forall>(p, w) \<in> set ?es. failing_event ''ns'' ''web'' ''app'' ''nginx:bad'' ''n1'' p w"
    by (simp add: failing_event_def isImagePullFailure_def demo_public)
  from backoff_keeps_root_cause [OF _ this, of "new_image_collector 5"] show ?thesis
    by (simp add: new_image_collector_def demo_classify root_cause_def reason_defs isSpecificReason_def)
qed

lemma slow_duration_restarts_witness:
  "\<exists>i. im_slowPulls ((slow_cycle (demo_pod [] [demo_container ''app'' ''ContainerCreating'' []]) ''ns/web/app'' ^^ 3)
       (new_image_collector 5)) ''ns/web/app'' = Some i
     \<and> im_now ((slow_cycle (demo_pod [] [demo_container ''app'' ''ContainerCreating'' []]) ''ns/web/app'' ^^ 3)
       (new_image_collector 5)) = 15 \<and> sp_StartedAt i = 10"
proof -
  let ?p = "demo_pod [] [demo_container ''app'' ''ContainerCreating'' []]"
  have "good_pod ?p" by (rule demo_good_pod) simp_all
  from slow_duration_restarts [OF this _ _ demo_candidate [of "''app''"] _ refl, where threshold = 5 and n = 2] show ?thesis
    by (auto simp: numeral_3_eq_3)
qed

text \<open>An init container and a container with the same image that both fail.\<close>

definition twin_pod :: pod where
  "twin_pod = demo_pod [demo_container ''init'' ''InvalidImageName'' []] [demo_container ''app'' ''InvalidImageName'' []]"

definition twin_info :: "string \<Rightarrow> failure_info" where
  "twin_info name = info_of ''ns'' ''web'' name ''nginx:bad'' ''n1'' ''invalidimagename''"

definition twin_collector :: image_collector where
  "twin_collector = handlePodAdd (InfObj twin_pod) (new_image_collector 5)"

lemma twin_good: "good_pod twin_pod"
  unfolding twin_pod_def by (rule demo_good_pod) simp_all

lemma twin_reach: "image_step\<^sup>*\<^sup>* (new_image_collector 5) twin_collector"
  unfolding twin_collector_def by (rule r_into_rtranclp, rule image_step.add, rule twin_good)

lemma twin_state:
  "im_failures twin_collector = [''ns/web/init'' \<mapsto> twin_info ''init'', ''ns/web/app'' \<mapsto> twin_info ''app'']"
  "im_slowPulls twin_collector = Map.empty" "im_slowTimers twin_collector = Map.empty"
proof -
  have f: "failure_after None twin_pod (demo_container name ''InvalidImageName'' []) = Some (twin_info name)" for name
    by (simp add: failure_after_def demo_failure failure_of_def kept_reason_def twin_pod_def twin_info_def info_of_def
        demo_classify)
  have n: "\<not> isSlowPullCandidate (demo_container name ''InvalidImageName'' [])" for name
    using candidate_no_failure demo_failure by blast
  show "im_failures twin_collector = [''ns/web/init'' \<mapsto> twin_info ''init'', ''ns/web/app'' \<mapsto> twin_info ''app'']"
    "im_slowPulls twin_collector = Map.empty" "im_slowTimers twin_collector = Map.empty"
    using f n by (simp_all add: twin_collector_def handlePodAdd_def processPod_def twin_pod_def process_container_maps
        new_image_collector_def fun_eq_iff)
qed

lemma deleted_pod_is_forgotten_witness:
  "im_failures (handlePodDelete [] (Tombstone (InfObj twin_pod)) twin_collector) ''ns/web/app'' \<noteq> Some (twin_info ''app'')"
proof -
  have "deleted_obj (Tombstone (InfObj twin_pod)) = Some twin_pod" "entries_of [] (im_slowTimers twin_collector)"
    by (simp_all add: deleted_obj_def entries_of_def twin_state)
  from deleted_pod_is_forgotten [OF twin_reach this(1) twin_good this(2) refl] show ?thesis
    by (simp add: twin_info_def info_of_def twin_pod_def)
qed

lemma image_scrape_collisions_witness:
  "\<exists>ms. image_collect demo_prom (image_descs_of demo_prom ''sealos'') twin_collector
       [(''ns/web/app'', twin_info ''app''), (''ns/web/init'', twin_info ''init'')] [] = (ms, None)
     \<and> length ms = 2 \<and> \<not> no_duplicates ms"
proof -
  have "entries_of [(''ns/web/app'', twin_info ''app''), (''ns/web/init'', twin_info ''init'')] (im_failures twin_collector)"
    "entries_of [] (im_slowPulls twin_collector)"
    by (auto simp: entries_of_def twin_state fun_eq_iff)
  from image_scrape_collisions [OF twin_reach refl _ _ _ this, where P = demo_prom and ns = "''sealos''"]
  obtain ms where ms: "image_collect demo_prom (image_descs_of demo_prom ''sealos'') twin_collector
       [(''ns/web/app'', twin_info ''app''), (''ns/web/init'', twin_info ''init'')] [] = (ms, None)"
    "length ms = 2" "no_duplicates ms \<longleftrightarrow> labels_tell_apart twin_collector" by auto
  have "im_failures twin_collector ''ns/web/app'' = Some (twin_info ''app'')"
    "im_failures twin_collector ''ns/web/init'' = Some (twin_info ''init'')" by (simp_all add: twin_state)
  then have "\<not> labels_tell_apart twin_collector"
    unfolding labels_tell_apart_def twin_info_def info_of_def by fastforce
  then show ?thesis using ms by blast
qed

end
