(* ===== verification/Node_Collectors.thy ===== *)
theory Node_Collectors
  imports Collector_Kit
begin

text \<open>
  \<open>pkg/collector/node\<close> and \<open>pkg/collector/zombie\<close>: two collectors that follow the nodes of the cluster
  through an informer. The first reports their health and their abnormal conditions; the second asks the
  metrics server, in its polls, which nodes have kubelet metrics. Handlers, polls and scrapes hold the
  collector's lock, so each is one step.
\<close>

section \<open>Nodes\<close>

record node_condition =
  nc_Type :: string
  nc_Status :: string

text \<open>\<open>other\<close> stands for what the transforms of the informers drop; the second transform drops the time of
  creation too.\<close>

record node =
  no_Name :: string
  no_UID :: string
  no_Created :: int
  no_Conditions :: "node_condition list"
  no_other :: string

definition node_transform :: "node \<Rightarrow> node" where
  "node_transform n = n\<lparr>no_other := []\<rparr>"

definition zombie_transform :: "node \<Rightarrow> node" where
  "zombie_transform n = n\<lparr>no_Created := 0, no_other := []\<rparr>"

datatype node_event =
    NodeAdd "node informer_obj"
  | NodeUpdate "node informer_obj" "node informer_obj"
  | NodeDelete "node informer_obj"

fun handle_node :: "node_event \<Rightarrow> (string \<Rightarrow> node option) \<Rightarrow> (string \<Rightarrow> node option)" where
  "handle_node (NodeAdd obj) nodes = (case obj of InfObj n \<Rightarrow> nodes(no_Name n \<mapsto> n) | _ \<Rightarrow> nodes)"
| "handle_node (NodeUpdate old obj) nodes = (case obj of InfObj n \<Rightarrow> nodes(no_Name n \<mapsto> n) | _ \<Rightarrow> nodes)"
| "handle_node (NodeDelete obj) nodes = (case deleted_obj obj of Some n \<Rightarrow> nodes(no_Name n := None) | None \<Rightarrow> nodes)"

section \<open>The node collector\<close>

text \<open>The loop of \<open>isNodeHealthy\<close>, with its flags and the abnormal conditions.\<close>

record health_scan =
  hs_ready :: bool
  hs_pressure :: bool
  hs_abnormal :: "node_condition list"

definition pressure_types :: "string list" where
  "pressure_types = [''MemoryPressure'', ''DiskPressure'', ''PIDPressure'', ''NetworkUnavailable'']"

definition scan_condition :: "health_scan \<Rightarrow> node_condition \<Rightarrow> health_scan" where
  "scan_condition h cd =
     (if nc_Type cd = ''Ready'' then
        if nc_Status cd = ''True'' then h\<lparr>hs_ready := True\<rparr>
        else h\<lparr>hs_abnormal := hs_abnormal h @ [cd]\<rparr>
      else if nc_Type cd \<in> set pressure_types then
        if nc_Status cd = ''True'' then h\<lparr>hs_pressure := True, hs_abnormal := hs_abnormal h @ [cd]\<rparr> else h
      else if nc_Status cd \<noteq> ''False'' then h\<lparr>hs_abnormal := hs_abnormal h @ [cd]\<rparr> else h)"

definition isNodeHealthy :: "node \<Rightarrow> bool \<times> node_condition list" where
  "isNodeHealthy n =
     (let h = foldl scan_condition \<lparr>hs_ready = False, hs_pressure = False, hs_abnormal = []\<rparr> (no_Conditions n)
      in (hs_ready h \<and> \<not> hs_pressure h, hs_abnormal h))"

record node_descs =
  nd_healthy :: desc
  nd_condition :: desc

definition node_descs_of :: "prom \<Rightarrow> string \<Rightarrow> node_descs" where
  "node_descs_of P ns =
     \<lparr>nd_healthy = \<lparr>d_fqName = pr_BuildFQName P ns ''node'' ''healthy'',
        d_help = ''Node health status (1=healthy, 0=unhealthy)'', d_labels = [''node'']\<rparr>,
      nd_condition = \<lparr>d_fqName = pr_BuildFQName P ns ''node'' ''condition'',
        d_help = ''Node abnormal condition status'', d_labels = [''node'', ''condition'', ''status'']\<rparr>\<rparr>"

record node_collector =
  nd_IgnoreNewNodeDuration :: int
  nd_nodes :: "string \<Rightarrow> node option"

definition node_NewDefaultConfig :: int where
  "node_NewDefaultConfig = 30 * 60 * 10 ^ 9"

text \<open>\<open>client\<close> is what getting the client returns, \<open>load\<close> what loading the section does to the default.\<close>

definition node_NewCollector :: "prom \<Rightarrow> string \<Rightarrow> err option \<Rightarrow> (int \<Rightarrow> int \<times> err option)
    \<Rightarrow> ((node_collector \<times> node_descs) \<times> base) res go" where
  "node_NewCollector P ns client load = (case client of
       Some e \<Rightarrow> Ret (Inl (''kubernetes client is required but not available: '' @ e))
     | None \<Rightarrow>
         let D = node_descs_of P ns in
         bind_go (register_descs [nd_healthy D, nd_condition D]
             (NewBaseCollector ''node'' [WithWaitReadyOnCollect True]))
           (\<lambda>b. Ret (Inr ((\<lparr>nd_IgnoreNewNodeDuration = fst (load node_NewDefaultConfig), nd_nodes = Map.empty\<rparr>, D), b))))"

definition status_label :: "node_condition \<Rightarrow> string" where
  "status_label cd = (if nc_Status cd = ''True'' then ''true''
     else if nc_Status cd = ''False'' then ''false'' else ''unknown'')"

definition condition_row :: "node_descs \<Rightarrow> node \<Rightarrow> node_condition \<Rightarrow> row" where
  "condition_row D n cd = (nd_condition D, boolToFloat64 (nc_Status cd = ''True''),
     [no_Name n, nc_Type cd, status_label cd])"

text \<open>The samples of one node at the time \<open>now\<close>.\<close>

definition node_rows :: "node_descs \<Rightarrow> int \<Rightarrow> int \<Rightarrow> node \<Rightarrow> row list" where
  "node_rows D now ignore n =
     (if no_Created n > now - ignore then []
      else case isNodeHealthy n of (healthy, abnormal) \<Rightarrow>
        if healthy then [(nd_healthy D, Fin 1, [no_Name n])]
        else (nd_healthy D, Fin 0, [no_Name n]) # map (condition_row D n) abnormal)"

definition node_collect :: "prom \<Rightarrow> node_descs \<Rightarrow> int \<Rightarrow> node_collector \<Rightarrow> (string \<times> node) list
    \<Rightarrow> pmetric list \<times> string option" where
  "node_collect P D now c es = emit (map (\<lambda>(d, v, ls). const_metric P d v ls)
     (concat (map (\<lambda>x. node_rows D now (nd_IgnoreNewNodeDuration c) (snd x)) es)))"

section \<open>The zombie collector\<close>

record zombie_collector =
  zc_CheckInterval :: int
  zc_nodes :: "string \<Rightarrow> node option"
  zc_nodeHasMetrics :: "string \<Rightarrow> bool option"

definition zombie_NewDefaultConfig :: int where
  "zombie_NewDefaultConfig = 30 * 10 ^ 9"

definition zombie_desc :: "prom \<Rightarrow> string \<Rightarrow> desc" where
  "zombie_desc P ns = \<lparr>d_fqName = pr_BuildFQName P ns ''node'' ''kubelet_metrics_available'',
     d_help = ''Whether kubelet metrics are available for the node (1=available, 0=unavailable)'',
     d_labels = [''node'']\<rparr>"

text \<open>\<open>client\<close>, \<open>rest\<close> and \<open>clientset\<close> are the errors of the three clients that the constructor asks for.\<close>

definition zombie_NewCollector :: "prom \<Rightarrow> string \<Rightarrow> err option \<Rightarrow> err option \<Rightarrow> err option \<Rightarrow> (int \<Rightarrow> int \<times> err option)
    \<Rightarrow> (zombie_collector \<times> base) res go" where
  "zombie_NewCollector P ns client rest clientset load = (case (client, rest, clientset) of
       (Some e, _, _) \<Rightarrow> Ret (Inl (''kubernetes client is required but not available: '' @ e))
     | (_, Some e, _) \<Rightarrow> Ret (Inl (''kubernetes rest config is required but not available: '' @ e))
     | (_, _, Some e) \<Rightarrow> Ret (Inl (''failed to create metrics clientset: '' @ e))
     | _ \<Rightarrow> bind_go (register_descs [zombie_desc P ns] (NewBaseCollector ''zombie'' [WithWaitReadyOnCollect True]))
         (\<lambda>b. Ret (Inr (\<lparr>zc_CheckInterval = fst (load zombie_NewDefaultConfig), zc_nodes = Map.empty,
            zc_nodeHasMetrics = Map.empty\<rparr>, b))))"

fun handle_zombie :: "node_event \<Rightarrow> zombie_collector \<Rightarrow> zombie_collector" where
  "handle_zombie (NodeDelete obj) c = c\<lparr>zc_nodes := handle_node (NodeDelete obj) (zc_nodes c),
     zc_nodeHasMetrics := (case deleted_obj obj of Some n \<Rightarrow> (zc_nodeHasMetrics c)(no_Name n := None)
       | None \<Rightarrow> zc_nodeHasMetrics c)\<rparr>"
| "handle_zombie ev c = c\<lparr>zc_nodes := handle_node ev (zc_nodes c)\<rparr>"

text \<open>The first Ready condition decides.\<close>

definition isNodeReady :: "node \<Rightarrow> bool" where
  "isNodeReady n = (case find (\<lambda>cd. nc_Type cd = ''Ready'') (no_Conditions n) of
     Some cd \<Rightarrow> nc_Status cd = ''True'' | None \<Rightarrow> False)"

text \<open>\<open>listed\<close> are the names that the metrics server returns, or its error; \<open>es\<close> are the nodes in the order
  of the loop.\<close>

definition zombie_Poll :: "err + string list \<Rightarrow> (string \<times> node) list \<Rightarrow> zombie_collector \<Rightarrow> err option \<times> zombie_collector" where
  "zombie_Poll listed es c = (case listed of
       Inl e \<Rightarrow> (Some e, c)
     | Inr names \<Rightarrow> (None, c\<lparr>zc_nodeHasMetrics :=
         foldl (\<lambda>m (name, n). if isNodeReady n then m(name \<mapsto> name \<in> set names) else m) (zc_nodeHasMetrics c) es\<rparr>))"

definition zombie_rows :: "desc \<Rightarrow> zombie_collector \<Rightarrow> string \<times> node \<Rightarrow> row list" where
  "zombie_rows d c x = (if \<not> isNodeReady (snd x) then []
     else case zc_nodeHasMetrics c (fst x) of None \<Rightarrow> [] | Some b \<Rightarrow> [(d, boolToFloat64 b, [fst x])])"

definition zombie_collect :: "prom \<Rightarrow> desc \<Rightarrow> zombie_collector \<Rightarrow> (string \<times> node) list \<Rightarrow> pmetric list \<times> string option" where
  "zombie_collect P d c es = emit (map (\<lambda>(d, v, ls). const_metric P d v ls) (concat (map (zombie_rows d c) es)))"

section \<open>What the events amount to\<close>

text \<open>The name that an event is about, and the node that it leaves under it.\<close>

fun event_effect :: "node_event \<Rightarrow> (string \<times> node option) option" where
  "event_effect (NodeAdd (InfObj n)) = Some (no_Name n, Some n)"
| "event_effect (NodeUpdate old (InfObj n)) = Some (no_Name n, Some n)"
| "event_effect (NodeDelete obj) = map_option (\<lambda>n. (no_Name n, None)) (deleted_obj obj)"
| "event_effect _ = None"

lemma handle_node_effect:
  "handle_node ev m = (case event_effect ev of None \<Rightarrow> m | Some (name, v) \<Rightarrow> m(name := v))"
  by (cases ev rule: event_effect.cases) (auto split: option.splits)

text \<open>The node that the last event about a name has left.\<close>

definition last_node :: "string \<Rightarrow> node_event list \<Rightarrow> node option" where
  "last_node name evs = (case find (\<lambda>ev. map_option fst (event_effect ev) = Some name) (rev evs) of
     None \<Rightarrow> None | Some ev \<Rightarrow> (case event_effect ev of Some (_, v) \<Rightarrow> v | None \<Rightarrow> None))"

lemma last_node_simps [simp]:
  "last_node name [] = None"
  "last_node name (evs @ [ev]) = (case event_effect ev of
     Some (k, v) \<Rightarrow> if k = name then v else last_node name evs | None \<Rightarrow> last_node name evs)"
  by (auto simp: last_node_def split: option.splits)

lemma nodes_after_events: "foldl (\<lambda>m ev. handle_node ev m) Map.empty evs name = last_node name evs"
proof (induction evs rule: rev_induct)
  case (snoc ev evs)
  show ?case using snoc.IH by (simp add: handle_node_effect split: option.splits)
qed simp

lemma event_effect_name: "event_effect ev = Some (name, Some n) \<Longrightarrow> no_Name n = name"
  by (cases ev rule: event_effect.cases) auto

lemma last_node_name: "last_node name evs = Some n \<Longrightarrow> no_Name n = name \<and> (\<exists>ev \<in> set evs. event_effect ev = Some (name, Some n))"
  by (induction evs rule: rev_induct) (auto split: option.splits if_splits dest: event_effect_name)

section \<open>Health\<close>

definition abnormal :: "node_condition \<Rightarrow> bool" where
  "abnormal cd \<longleftrightarrow> (if nc_Type cd = ''Ready'' then nc_Status cd \<noteq> ''True''
     else if nc_Type cd \<in> set pressure_types then nc_Status cd = ''True'' else nc_Status cd \<noteq> ''False'')"

definition ready_true :: "node \<Rightarrow> bool" where
  "ready_true n \<longleftrightarrow> (\<exists>cd \<in> set (no_Conditions n). nc_Type cd = ''Ready'' \<and> nc_Status cd = ''True'')"

definition under_pressure :: "node \<Rightarrow> bool" where
  "under_pressure n \<longleftrightarrow> (\<exists>cd \<in> set (no_Conditions n). nc_Type cd \<in> set pressure_types \<and> nc_Status cd = ''True'')"

lemma Ready_no_pressure: "''Ready'' \<notin> set pressure_types"
  by (simp add: pressure_types_def)

lemma isNodeHealthy_eq:
  "isNodeHealthy n = (ready_true n \<and> \<not> under_pressure n, filter abnormal (no_Conditions n))"
proof -
  have "foldl scan_condition h cds = \<lparr>hs_ready = hs_ready h \<or> (\<exists>cd \<in> set cds. nc_Type cd = ''Ready'' \<and> nc_Status cd = ''True''),
      hs_pressure = hs_pressure h \<or> (\<exists>cd \<in> set cds. nc_Type cd \<in> set pressure_types \<and> nc_Status cd = ''True''),
      hs_abnormal = hs_abnormal h @ filter abnormal cds\<rparr>" for h cds
    using Ready_no_pressure by (induction cds arbitrary: h) (auto simp: scan_condition_def abnormal_def)
  then show ?thesis by (simp add: isNodeHealthy_def ready_true_def under_pressure_def)
qed

text \<open>The comment's rule: the node is ready, and all its other conditions are false.\<close>

definition documented_healthy :: "node \<Rightarrow> bool" where
  "documented_healthy n \<longleftrightarrow> ready_true n
     \<and> (\<forall>cd \<in> set (no_Conditions n). nc_Type cd \<noteq> ''Ready'' \<longrightarrow> nc_Status cd = ''False'')"

section \<open>Scrapes of the node collector\<close>

definition node_after :: "int \<Rightarrow> node_event list \<Rightarrow> node_collector" where
  "node_after ignore evs = \<lparr>nd_IgnoreNewNodeDuration = ignore,
     nd_nodes = foldl (\<lambda>m ev. handle_node ev m) Map.empty evs\<rparr>"

text \<open>The samples that a node calls for.\<close>

definition node_samples :: "node_descs \<Rightarrow> int \<Rightarrow> node \<Rightarrow> pmetric set" where
  "node_samples D oldest n = (if oldest < no_Created n then {}
     else if ready_true n \<and> \<not> under_pressure n then {sample (nd_healthy D) (Fin 1) [no_Name n]}
     else insert (sample (nd_healthy D) (Fin 0) [no_Name n])
       ((\<lambda>cd. sample (nd_condition D) (boolToFloat64 (nc_Status cd = ''True'')) [no_Name n, nc_Type cd, status_label cd])
         ` {cd \<in> set (no_Conditions n). abnormal cd}))"

lemma node_rows_samples: "row_sample ` set (node_rows D now ignore n) = node_samples D (now - ignore) n"
  by (simp add: node_rows_def isNodeHealthy_eq node_samples_def condition_row_def image_image)

lemma node_rows_shape:
  "r \<in> set (node_rows D now ignore n) \<Longrightarrow>
     \<exists>v. r = (nd_healthy D, v, [no_Name n]) \<or> (\<exists>t s. r = (nd_condition D, v, [no_Name n, t, s]))"
  by (auto simp: node_rows_def condition_row_def split: prod.splits if_splits)

lemma node_rows_distinct:
  assumes "distinct (map nc_Type (no_Conditions n))"
  shows "no_duplicates (map row_sample (node_rows D now ignore n))"
proof -
  have "distinct (map nc_Type (filter abnormal (no_Conditions n)))"
    using assms by (simp add: distinct_map_filter)
  then have "distinct (map (\<lambda>cd. row_key (condition_row D n cd)) (filter abnormal (no_Conditions n)))"
    by (auto simp: distinct_map inj_on_def row_key_def condition_row_def)
  then show ?thesis unfolding no_duplicates_rows
    by (auto simp: node_rows_def isNodeHealthy_eq comp_def row_key_def condition_row_def)
qed

text \<open>After any sequence of events of the informer a scrape ends without a panic, sends no series twice and
  sends exactly the samples that the last events call for: none for a node that is deleted or younger
  than the ignored duration; a health of one for a node that is ready and under no pressure; and else a
  health of zero with every abnormal condition.\<close>

theorem node_scrape_is_exact:
  assumes "fq_law P" "D = node_descs_of P ns" "usable P (nd_healthy D)" "usable P (nd_condition D)"
    "c = node_after ignore evs" "entries_of es (nd_nodes c)"
    "\<forall>ev \<in> set evs. \<forall>name n. event_effect ev = Some (name, Some n) \<longrightarrow> distinct (map nc_Type (no_Conditions n))"
  shows "\<exists>ms. node_collect P D now c es = (ms, None) \<and> no_duplicates ms
    \<and> set ms = (\<Union>name. case last_node name evs of None \<Rightarrow> {} | Some n \<Rightarrow> node_samples D (now - ignore) n)"
proof -
  let ?rows = "node_rows D now ignore"
  have c: "nd_nodes c name = last_node name evs" "nd_IgnoreNewNodeDuration c = ignore" for name
    using nodes_after_events by (simp_all add: assms(5) node_after_def)
  have mem: "(name, n) \<in> set es \<longleftrightarrow> last_node name evs = Some n" for name n
    using entries_of_mem [OF assms(6)] c(1) by simp
  have flat: "map row_sample (concat (map (\<lambda>x. ?rows (snd x)) es)) = concat (map (\<lambda>x. map row_sample (?rows (snd x))) es)"
    by (simp add: map_concat comp_def)
  have "usable P d \<and> length ls = length (d_labels d)" if "(d, v, ls) \<in> set (concat (map (\<lambda>x. ?rows (snd x)) es))" for d v ls
    using that assms(3,4) by (auto dest!: node_rows_shape simp: assms(2) node_descs_of_def)
  then have sent: "node_collect P D now c es = (concat (map (\<lambda>x. map row_sample (?rows (snd x))) es), None)"
    unfolding node_collect_def c(2) flat [symmetric] by (rule emit_const)
  have names: "d_fqName (nd_healthy D) \<noteq> d_fqName (nd_condition D)"
    using fq_inject [OF assms(1)] by (simp add: assms(2) node_descs_of_def)
  have "no_duplicates (concat (map (\<lambda>x. map row_sample (?rows (snd x))) es))"
  proof (rule no_duplicates_entries [OF assms(6)])
    fix k n assume "nd_nodes c k = Some n"
    then show "no_duplicates (map row_sample (?rows n))"
      using last_node_name [of k evs n] assms(7) c(1) node_rows_distinct by metis
  next
    fix j k n m s t
    assume n: "nd_nodes c j = Some n" "nd_nodes c k = Some m" "j \<noteq> k"
      and st: "s \<in> set (map row_sample (?rows n))" "t \<in> set (map row_sample (?rows m))"
    then have "no_Name n = j" "no_Name m = k" using last_node_name c(1) by auto
    then show "series s \<noteq> series t" using st n(3) names by (auto dest!: node_rows_shape)
  qed
  moreover have "set (concat (map (\<lambda>x. map row_sample (?rows (snd x))) es))
      = (\<Union>name. case last_node name evs of None \<Rightarrow> {} | Some n \<Rightarrow> node_samples D (now - ignore) n)"
  proof -
    have "set (concat (map (\<lambda>x. map row_sample (?rows (snd x))) es)) = (\<Union>x \<in> set es. node_samples D (now - ignore) (snd x))"
      using node_rows_samples by auto
    also have "\<dots> = (\<Union>name. case last_node name evs of None \<Rightarrow> {} | Some n \<Rightarrow> node_samples D (now - ignore) n)"
    proof (intro set_eqI iffI)
      fix m assume "m \<in> (\<Union>x \<in> set es. node_samples D (now - ignore) (snd x))"
      then obtain name n where n: "(name, n) \<in> set es" "m \<in> node_samples D (now - ignore) n" by auto
      then have "last_node name evs = Some n" using mem by blast
      then show "m \<in> (\<Union>name. case last_node name evs of None \<Rightarrow> {} | Some n \<Rightarrow> node_samples D (now - ignore) n)"
        using n(2) by (intro UN_I [of name]) simp_all
    next
      fix m assume "m \<in> (\<Union>name. case last_node name evs of None \<Rightarrow> {} | Some n \<Rightarrow> node_samples D (now - ignore) n)"
      then obtain name n where "last_node name evs = Some n" "m \<in> node_samples D (now - ignore) n"
        by (auto split: option.splits)
      then show "m \<in> (\<Union>x \<in> set es. node_samples D (now - ignore) (snd x))"
        using mem [of name n] by (intro UN_I [of "(name, n)"]) simp_all
    qed
    finally show ?thesis .
  qed
  ultimately show ?thesis using sent by blast
qed

text \<open>How health differs from its documentation. Every node that is healthy by the comment is healthy, but
  so is a ready node whose pressure is unknown or that has another condition that is not false, and of a
  healthy node no condition is sent. And a Ready condition that is abnormal is always sent with the value
  zero, so an alert on the value one, as the README proposes it, never fires.\<close>

theorem health_against_documentation:
  assumes "no_Created n \<le> now - ignore" "nd_healthy D \<noteq> nd_condition D"
  shows "(documented_healthy n \<longrightarrow> fst (isNodeHealthy n))
    \<and> (fst (isNodeHealthy n) \<and> \<not> documented_healthy n \<longleftrightarrow> ready_true n \<and> \<not> under_pressure n
        \<and> (\<exists>cd \<in> set (no_Conditions n). nc_Type cd \<noteq> ''Ready'' \<and> nc_Status cd \<noteq> ''False''))
    \<and> (fst (isNodeHealthy n) \<longrightarrow> node_rows D now ignore n = [(nd_healthy D, Fin 1, [no_Name n])])
    \<and> (\<forall>v s. (nd_condition D, v, [no_Name n, ''Ready'', s]) \<in> set (node_rows D now ignore n) \<longrightarrow> v = Fin 0)"
proof -
  have "documented_healthy n \<longrightarrow> \<not> under_pressure n"
    by (auto simp: documented_healthy_def under_pressure_def pressure_types_def)
  moreover have "v = Fin 0" if "(nd_condition D, v, [no_Name n, ''Ready'', s]) \<in> set (node_rows D now ignore n)" for v s
  proof -
    from that assms(2) obtain cd where "abnormal cd" "nc_Type cd = ''Ready''" "v = boolToFloat64 (nc_Status cd = ''True'')"
      by (auto simp: node_rows_def isNodeHealthy_eq condition_row_def split: if_splits)
    then show ?thesis by (simp add: abnormal_def boolToFloat64_def)
  qed
  ultimately show ?thesis using assms(1)
    by (auto simp: isNodeHealthy_eq documented_healthy_def node_rows_def)
qed

section \<open>Runs of the zombie collector\<close>

datatype zombie_op = ZEvent node_event | ZPoll "err + string list"

definition zombie_new :: "int \<Rightarrow> zombie_collector" where
  "zombie_new interval = \<lparr>zc_CheckInterval = interval, zc_nodes = Map.empty, zc_nodeHasMetrics = Map.empty\<rparr>"

inductive zombie_run :: "int \<Rightarrow> zombie_op list \<Rightarrow> zombie_collector \<Rightarrow> bool" for interval where
  start: "zombie_run interval [] (zombie_new interval)"
| event: "zombie_run interval h c \<Longrightarrow> zombie_run interval (h @ [ZEvent ev]) (handle_zombie ev c)"
| poll: "zombie_run interval h c \<Longrightarrow> entries_of es (zc_nodes c) \<Longrightarrow>
     zombie_run interval (h @ [ZPoll answer]) (snd (zombie_Poll answer es c))"

fun events_of :: "zombie_op list \<Rightarrow> node_event list" where
  "events_of [] = []"
| "events_of (ZEvent ev # h) = ev # events_of h"
| "events_of (ZPoll a # h) = events_of h"

lemma events_of_append [simp]: "events_of (g @ h) = events_of g @ events_of h"
  by (induction g rule: events_of.induct) auto

text \<open>The operation number \<open>i\<close> is a poll that was answered for a node that was ready at that time.\<close>

definition answered :: "string \<Rightarrow> zombie_op list \<Rightarrow> nat \<Rightarrow> bool \<Rightarrow> bool" where
  "answered name h i b \<longleftrightarrow> (\<exists>names n. i < length h \<and> h ! i = ZPoll (Inr names)
     \<and> last_node name (events_of (take i h)) = Some n \<and> isNodeReady n \<and> b = (name \<in> set names))"

definition deletes :: "string \<Rightarrow> zombie_op \<Rightarrow> bool" where
  "deletes name op \<longleftrightarrow> (\<exists>obj n. op = ZEvent (NodeDelete obj) \<and> deleted_obj obj = Some n \<and> no_Name n = name)"

text \<open>The last such poll, if the node has not been deleted since.\<close>

definition stands :: "string \<Rightarrow> zombie_op list \<Rightarrow> bool \<Rightarrow> bool" where
  "stands name h b \<longleftrightarrow> (\<exists>i. answered name h i b
     \<and> (\<forall>j. i < j \<and> j < length h \<longrightarrow> \<not> deletes name (h ! j) \<and> \<not> (\<exists>b'. answered name h j b')))"

lemma answered_snoc:
  "i < length h \<Longrightarrow> answered name (h @ [op]) i b \<longleftrightarrow> answered name h i b"
  "answered name (h @ [op]) (length h) b \<longleftrightarrow> (\<exists>names n. op = ZPoll (Inr names)
     \<and> last_node name (events_of h) = Some n \<and> isNodeReady n \<and> b = (name \<in> set names))"
  by (auto simp: answered_def nth_append)

lemma answered_less: "answered name h i b \<Longrightarrow> i < length h"
  by (simp add: answered_def)

lemma stands_snoc:
  "stands name (h @ [op]) b \<longleftrightarrow> answered name (h @ [op]) (length h) b
     \<or> stands name h b \<and> \<not> deletes name op \<and> \<not> (\<exists>b'. answered name (h @ [op]) (length h) b')"
proof
  assume "stands name (h @ [op]) b"
  then obtain i where i: "answered name (h @ [op]) i b"
    "\<And>j. i < j \<Longrightarrow> j < Suc (length h) \<Longrightarrow> \<not> deletes name ((h @ [op]) ! j) \<and> \<not> (\<exists>b'. answered name (h @ [op]) j b')"
    by (auto simp: stands_def)
  show "answered name (h @ [op]) (length h) b
     \<or> stands name h b \<and> \<not> deletes name op \<and> \<not> (\<exists>b'. answered name (h @ [op]) (length h) b')"
  proof (cases "i = length h")
    case False
    then have less: "i < length h" using answered_less [OF i(1)] by simp
    have "stands name h b" unfolding stands_def
    proof (intro exI conjI allI impI)
      show "answered name h i b" using i(1) answered_snoc(1) [OF less] by simp
      fix j assume j: "i < j \<and> j < length h"
      then show "\<not> deletes name (h ! j)" "\<not> (\<exists>b'. answered name h j b')"
        using i(2) [of j] answered_snoc(1) [of j h] by (simp_all add: nth_append)
    qed
    then show ?thesis using i(2) [of "length h"] less by simp
  qed (use i(1) in simp)
next
  assume "answered name (h @ [op]) (length h) b
     \<or> stands name h b \<and> \<not> deletes name op \<and> \<not> (\<exists>b'. answered name (h @ [op]) (length h) b')"
  then show "stands name (h @ [op]) b"
  proof (elim disjE conjE)
    assume "answered name (h @ [op]) (length h) b"
    then show ?thesis unfolding stands_def by (intro exI [of _ "length h"]) auto
  next
    assume old: "stands name h b" and new: "\<not> deletes name op" "\<not> (\<exists>b'. answered name (h @ [op]) (length h) b')"
    then obtain i where i: "answered name h i b"
      "\<And>j. i < j \<Longrightarrow> j < length h \<Longrightarrow> \<not> deletes name (h ! j) \<and> \<not> (\<exists>b'. answered name h j b')"
      by (auto simp: stands_def)
    have less: "i < length h" by (rule answered_less [OF i(1)])
    show ?thesis unfolding stands_def
    proof (intro exI conjI allI impI)
      show "answered name (h @ [op]) i b" using i(1) answered_snoc(1) [OF less] by simp
      fix j assume "i < j \<and> j < length (h @ [op])"
      then have "j = length h \<or> j < length h" "i < j" by auto
      then show "\<not> deletes name ((h @ [op]) ! j)" "\<not> (\<exists>b'. answered name (h @ [op]) j b')"
        using i(2) [of j] new answered_snoc(1) [of j h] by (auto simp: nth_append)
    qed
  qed
qed

lemma zombie_Poll_map:
  assumes "entries_of es (zc_nodes c)"
  shows "zc_nodeHasMetrics (snd (zombie_Poll answer es c)) name = (case answer of
       Inr names \<Rightarrow> (case zc_nodes c name of
           Some n \<Rightarrow> if isNodeReady n then Some (name \<in> set names) else zc_nodeHasMetrics c name
         | None \<Rightarrow> zc_nodeHasMetrics c name)
     | Inl _ \<Rightarrow> zc_nodeHasMetrics c name)"
proof (cases answer)
  case (Inr names)
  have "foldl (\<lambda>m (name, n). if isNodeReady n then m(name \<mapsto> name \<in> set names) else m) m xs name
      = (case map_of xs name of Some n \<Rightarrow> if isNodeReady n then Some (name \<in> set names) else m name | None \<Rightarrow> m name)"
    if "distinct (map fst xs)" for m and xs :: "(string \<times> node) list"
    using that
  proof (induction xs arbitrary: m)
    case (Cons x xs)
    have "map_of xs name = None" if "fst x = name"
      using Cons.prems that by (auto simp: map_of_eq_None_iff)
    then show ?case using Cons by (cases x) (auto split: option.splits)
  qed simp
  from this [of es] assms show ?thesis
    by (simp add: Inr zombie_Poll_def entries_of_def)
qed (simp add: zombie_Poll_def)

lemma handle_zombie_maps:
  "zc_nodes (handle_zombie ev c) = handle_node ev (zc_nodes c)"
  "zc_nodeHasMetrics (handle_zombie ev c) name
     = (if deletes name (ZEvent ev) then None else zc_nodeHasMetrics c name)"
  by (cases ev; auto simp: deletes_def split: option.splits)+

lemma zombie_run_inv:
  "zombie_run interval h c \<Longrightarrow> zc_nodes c name = last_node name (events_of h)
     \<and> (\<forall>b. zc_nodeHasMetrics c name = Some b \<longleftrightarrow> stands name h b)"
proof (induction rule: zombie_run.induct)
  case start
  show ?case by (simp add: zombie_new_def stands_def answered_def)
next
  case (event h c ev)
  have "\<not> (\<exists>b. answered name (h @ [ZEvent ev]) (length h) b)" by (simp add: answered_snoc(2))
  then show ?case
    using event.IH by (simp add: handle_zombie_maps handle_node_effect stands_snoc split: option.splits)
next
  case (poll h c es answer)
  have new: "answered name (h @ [ZPoll answer]) (length h) b \<longleftrightarrow> (\<exists>names n. answer = Inr names
     \<and> last_node name (events_of h) = Some n \<and> isNodeReady n \<and> b = (name \<in> set names))" for b
    by (simp add: answered_snoc(2))
  have "\<not> deletes name (ZPoll answer)" by (simp add: deletes_def)
  moreover have "zc_nodes (snd (zombie_Poll answer es c)) = zc_nodes c"
    by (simp add: zombie_Poll_def split: sum.splits)
  ultimately show ?case
    using poll.IH unfolding zombie_Poll_map [OF poll.hyps(2)] stands_snoc new
    by (auto split: sum.splits option.splits)
qed

text \<open>C29. A scrape of the zombie collector, after any interleaving of events and polls, ends without a panic, sends
  no series twice, and sends for a node the value \<open>b\<close> exactly when the node is ready by the last event about
  it and \<open>b\<close> is what the last successful poll said that found it ready, the node not having been deleted
  since. So a node that was not ready for any number of polls and is ready again is reported with the old
  value until the next poll.\<close>

theorem zombie_scrape_is_last_ready_poll:
  assumes "zombie_run interval h c" "usable P (zombie_desc P ns)" "entries_of es (zc_nodes c)"
  shows "\<exists>ms. zombie_collect P (zombie_desc P ns) c es = (ms, None) \<and> no_duplicates ms
    \<and> (\<forall>name v. sample (zombie_desc P ns) v [name] \<in> set ms \<longleftrightarrow>
        (\<exists>n b. last_node name (events_of h) = Some n \<and> isNodeReady n \<and> stands name h b \<and> v = boolToFloat64 b))"
proof -
  let ?d = "zombie_desc P ns" and ?rows = "concat (map (zombie_rows (zombie_desc P ns) c) es)"
  note inv = zombie_run_inv [OF assms(1)]
  have row: "(d, v, ls) \<in> set ?rows \<longleftrightarrow> (\<exists>name n b. (name, n) \<in> set es \<and> isNodeReady n
      \<and> zc_nodeHasMetrics c name = Some b \<and> d = ?d \<and> v = boolToFloat64 b \<and> ls = [name])" for d v ls
  proof -
    have "(d, v, ls) \<in> set ?rows \<longleftrightarrow> (\<exists>x \<in> set es. (d, v, ls) \<in> set (zombie_rows ?d c x))" by auto
    also have "\<dots> \<longleftrightarrow> (\<exists>x \<in> set es. \<exists>b. isNodeReady (snd x) \<and> zc_nodeHasMetrics c (fst x) = Some b
        \<and> d = ?d \<and> v = boolToFloat64 b \<and> ls = [fst x])"
    proof (rule bex_cong [OF refl])
      fix x
      show "(d, v, ls) \<in> set (zombie_rows ?d c x) \<longleftrightarrow> (\<exists>b. isNodeReady (snd x) \<and> zc_nodeHasMetrics c (fst x) = Some b
          \<and> d = ?d \<and> v = boolToFloat64 b \<and> ls = [fst x])"
        by (cases "zc_nodeHasMetrics c (fst x)") (auto simp: zombie_rows_def)
    qed
    also have "\<dots> \<longleftrightarrow> (\<exists>name n b. (name, n) \<in> set es \<and> isNodeReady n
      \<and> zc_nodeHasMetrics c name = Some b \<and> d = ?d \<and> v = boolToFloat64 b \<and> ls = [name])"
      by (metis fst_conv snd_conv surj_pair)
    finally show ?thesis .
  qed
  have sent: "zombie_collect P ?d c es = (map row_sample ?rows, None)"
    unfolding zombie_collect_def by (rule emit_const) (use row assms(2) in \<open>auto simp: zombie_desc_def\<close>)
  have one: "series m = (d_fqName ?d, [fst x])" if "m \<in> set (map row_sample (zombie_rows ?d c x))" for m x
    using that by (cases "zc_nodeHasMetrics c (fst x)") (auto simp: zombie_rows_def split: if_splits)
  have "no_duplicates (concat (map (\<lambda>x. map row_sample (zombie_rows ?d c x)) es))"
  proof (rule no_duplicates_concat)
    show "distinct es" using assms(3) by (auto simp: entries_of_def distinct_map)
    show "no_duplicates (map row_sample (zombie_rows ?d c x))" for x
      by (cases "zc_nodeHasMetrics c (fst x)") (simp_all add: zombie_rows_def no_duplicates_def)
    show "series m \<noteq> series m'" if "x \<in> set es" "y \<in> set es" "x \<noteq> y"
      "m \<in> set (map row_sample (zombie_rows ?d c x))" "m' \<in> set (map row_sample (zombie_rows ?d c y))" for x y m m'
      using one [OF that(4)] one [OF that(5)] entries_distinct_keys [OF assms(3) that(1-3)] by simp
  qed
  then have "no_duplicates (map row_sample ?rows)" by (simp add: map_concat comp_def)
  moreover have "sample ?d v [name] \<in> set (map row_sample ?rows) \<longleftrightarrow>
      (\<exists>n b. last_node name (events_of h) = Some n \<and> isNodeReady n \<and> stands name h b \<and> v = boolToFloat64 b)" for name v
  proof -
    have "(\<exists>k n b. (k, n) \<in> set es \<and> isNodeReady n \<and> zc_nodeHasMetrics c k = Some b \<and> ?d = ?d
        \<and> v = boolToFloat64 b \<and> [name] = [k])
      \<longleftrightarrow> (\<exists>n b. (name, n) \<in> set es \<and> isNodeReady n \<and> zc_nodeHasMetrics c name = Some b \<and> v = boolToFloat64 b)"
      by blast
    then show ?thesis unfolding sample_mem row using entries_of_mem [OF assms(3), of name] inv [of name] by simp
  qed
  ultimately show ?thesis using sent by blast
qed

section \<open>Examples\<close>

definition ready_node :: node where
  "ready_node = \<lparr>no_Name = ''n1'', no_UID = ''u'', no_Created = 1,
     no_Conditions = [\<lparr>nc_Type = ''Ready'', nc_Status = ''True''\<rparr>, \<lparr>nc_Type = ''DiskPressure'', nc_Status = ''Unknown''\<rparr>],
     no_other = []\<rparr>"

definition sick_node :: node where
  "sick_node = ready_node\<lparr>no_Conditions := [\<lparr>nc_Type = ''Ready'', nc_Status = ''False''\<rparr>]\<rparr>"

lemma node_scrape_is_exact_witness:
  "\<exists>ms. node_collect demo_prom (node_descs_of demo_prom ''sealos'') 100
       (node_after 30 [NodeAdd (InfObj ready_node), NodeUpdate OtherObj (InfObj sick_node)]) [(''n1'', sick_node)] = (ms, None)
     \<and> no_duplicates ms \<and> sample (nd_healthy (node_descs_of demo_prom ''sealos'')) (Fin 0) [''n1''] \<in> set ms"
proof -
  let ?evs = "[NodeAdd (InfObj ready_node), NodeUpdate OtherObj (InfObj sick_node)]"
  have e: "entries_of [(''n1'', sick_node)] (nd_nodes (node_after 30 ?evs))"
    by (auto simp: entries_of_def node_after_def ready_node_def sick_node_def)
  have d: "\<forall>ev \<in> set ?evs. \<forall>name n. event_effect ev = Some (name, Some n) \<longrightarrow> distinct (map nc_Type (no_Conditions n))"
    by (auto simp: ready_node_def sick_node_def)
  have l: "last_node ''n1'' ?evs = Some sick_node"
    by (simp add: last_node_def sick_node_def ready_node_def)
  have s: "sample (nd_healthy D) (Fin 0) [''n1''] \<in> node_samples D 70 sick_node" for D
    by (simp add: node_samples_def sick_node_def ready_node_def ready_true_def)
  from node_scrape_is_exact [OF _ refl _ _ refl e d, where P = demo_prom and ns = "''sealos''" and now = 100] obtain ms where ms:
    "node_collect demo_prom (node_descs_of demo_prom ''sealos'') 100 (node_after 30 ?evs) [(''n1'', sick_node)] = (ms, None)"
    "no_duplicates ms" "set ms = (\<Union>name. case last_node name ?evs of None \<Rightarrow> {}
       | Some n \<Rightarrow> node_samples (node_descs_of demo_prom ''sealos'') (100 - 30) n)" by auto
  have "sample (nd_healthy (node_descs_of demo_prom ''sealos'')) (Fin 0) [''n1''] \<in> set ms"
    unfolding ms(3) by (rule UN_I [of "''n1''"]) (simp_all add: l s)
  then show ?thesis using ms by blast
qed

lemma health_against_documentation_witness:
  "node_rows (node_descs_of demo_prom ''sealos'') 100 30 ready_node
     = [(nd_healthy (node_descs_of demo_prom ''sealos''), Fin 1, [''n1''])] \<and> \<not> documented_healthy ready_node"
proof -
  have "no_Created ready_node \<le> 100 - 30" by (simp add: ready_node_def)
  moreover have "nd_healthy (node_descs_of demo_prom ''sealos'') \<noteq> nd_condition (node_descs_of demo_prom ''sealos'')"
    by (simp add: node_descs_of_def)
  ultimately have "fst (isNodeHealthy ready_node) \<longrightarrow> node_rows (node_descs_of demo_prom ''sealos'') 100 30 ready_node
     = [(nd_healthy (node_descs_of demo_prom ''sealos''), Fin 1, [no_Name ready_node])]"
    by (rule health_against_documentation [THEN conjunct2, THEN conjunct2, THEN conjunct1])
  moreover have "fst (isNodeHealthy ready_node)" "no_Name ready_node = ''n1''" "\<not> documented_healthy ready_node"
    by (simp_all add: isNodeHealthy_eq ready_node_def ready_true_def under_pressure_def pressure_types_def documented_healthy_def)
  ultimately show ?thesis by simp
qed

text \<open>Ready and listed, then not ready during a poll that does not list it, then ready again.\<close>

definition flap :: "zombie_op list" where
  "flap = [ZEvent (NodeAdd (InfObj ready_node)), ZPoll (Inr [''n1'']), ZEvent (NodeUpdate OtherObj (InfObj sick_node)),
     ZPoll (Inr []), ZEvent (NodeUpdate OtherObj (InfObj ready_node))]"

definition flapped :: zombie_collector where
  "flapped = \<lparr>zc_CheckInterval = 30, zc_nodes = [''n1'' \<mapsto> ready_node], zc_nodeHasMetrics = [''n1'' \<mapsto> True]\<rparr>"

lemma flap_run: "zombie_run 30 flap flapped"
proof -
  have names: "no_Name ready_node = ''n1''" "no_Name sick_node = ''n1''" by (simp_all add: ready_node_def sick_node_def)
  have ready: "isNodeReady ready_node" "\<not> isNodeReady sick_node"
    by (simp_all add: isNodeReady_def ready_node_def sick_node_def)
  let ?c1 = "handle_zombie (NodeAdd (InfObj ready_node)) (zombie_new 30)"
  let ?c2 = "snd (zombie_Poll (Inr [''n1'']) [(''n1'', ready_node)] ?c1)"
  let ?c3 = "handle_zombie (NodeUpdate OtherObj (InfObj sick_node)) ?c2"
  let ?c4 = "snd (zombie_Poll (Inr []) [(''n1'', sick_node)] ?c3)"
  have "zombie_run 30 ([] @ [ZEvent (NodeAdd (InfObj ready_node))]) ?c1" by (intro zombie_run.intros)
  moreover have "entries_of [(''n1'', ready_node)] (zc_nodes ?c1)"
    by (simp add: entries_of_def zombie_new_def names)
  ultimately have "zombie_run 30 (([] @ [ZEvent (NodeAdd (InfObj ready_node))]) @ [ZPoll (Inr [''n1''])]) ?c2"
    by (rule zombie_run.poll)
  then have "zombie_run 30 ((([] @ [ZEvent (NodeAdd (InfObj ready_node))]) @ [ZPoll (Inr [''n1''])])
      @ [ZEvent (NodeUpdate OtherObj (InfObj sick_node))]) ?c3" by (rule zombie_run.event)
  moreover have "entries_of [(''n1'', sick_node)] (zc_nodes ?c3)"
    by (auto simp: entries_of_def zombie_new_def zombie_Poll_def names)
  ultimately have "zombie_run 30 (((([] @ [ZEvent (NodeAdd (InfObj ready_node))]) @ [ZPoll (Inr [''n1''])])
      @ [ZEvent (NodeUpdate OtherObj (InfObj sick_node))]) @ [ZPoll (Inr [])]) ?c4" by (rule zombie_run.poll)
  then have "zombie_run 30 ((((([] @ [ZEvent (NodeAdd (InfObj ready_node))]) @ [ZPoll (Inr [''n1''])])
      @ [ZEvent (NodeUpdate OtherObj (InfObj sick_node))]) @ [ZPoll (Inr [])])
      @ [ZEvent (NodeUpdate OtherObj (InfObj ready_node))]) (handle_zombie (NodeUpdate OtherObj (InfObj ready_node)) ?c4)"
    by (rule zombie_run.event)
  moreover have "handle_zombie (NodeUpdate OtherObj (InfObj ready_node)) ?c4 = flapped"
    by (simp add: flapped_def zombie_Poll_def zombie_new_def names ready)
  ultimately show ?thesis by (simp add: flap_def)
qed

lemma zombie_scrape_is_last_ready_poll_witness:
  "\<exists>ms. zombie_collect demo_prom (zombie_desc demo_prom ''sealos'') flapped [(''n1'', ready_node)] = (ms, None)
     \<and> sample (zombie_desc demo_prom ''sealos'') (Fin 1) [''n1''] \<in> set ms"
proof -
  have e: "entries_of [(''n1'', ready_node)] (zc_nodes flapped)" by (simp add: entries_of_def flapped_def)
  from zombie_scrape_is_last_ready_poll [OF flap_run _ e, where P = demo_prom and ns = "''sealos''"]
  obtain ms where ms: "zombie_collect demo_prom (zombie_desc demo_prom ''sealos'') flapped [(''n1'', ready_node)] = (ms, None)"
    "\<And>name v. sample (zombie_desc demo_prom ''sealos'') v [name] \<in> set ms \<longleftrightarrow>
        (\<exists>n b. last_node name (events_of flap) = Some n \<and> isNodeReady n \<and> stands name flap b \<and> v = boolToFloat64 b)"
    by auto
  have "last_node ''n1'' (events_of flap) = Some ready_node" "stands ''n1'' flap True"
    using zombie_run_inv [OF flap_run, of "''n1''"] by (simp_all add: flapped_def)
  moreover have "isNodeReady ready_node" by (simp add: isNodeReady_def ready_node_def)
  moreover have "Fin 1 = boolToFloat64 True" by (simp add: boolToFloat64_def)
  ultimately have "sample (zombie_desc demo_prom ''sealos'') (Fin 1) [''n1''] \<in> set ms" unfolding ms(2) by blast
  then show ?thesis using ms(1) by blast
qed

end
