(* ===== verification/Billing.thy ===== *)
theory Billing
  imports Collector_Kit
begin

text \<open>
  \<open>pkg/collector/billing\<close> without its queries: the values that MongoDB delivers and their conversion, the
  properties, the aggregation of rows and of documents into a snapshot, the poll and the emission. A
  double is a \<open>float64\<close>, so the totals are sums of doubles in the order in which they are added.
\<close>

section \<open>Values\<close>

text \<open>What the driver decodes. All widths of signed integers are \<open>BInt\<close>, all of unsigned ones \<open>BUint\<close>; a
  decimal is its text; \<open>BStringer\<close> is any other value with a text of its own; the documents, as Go maps or
  in order, are \<open>BDoc\<close>.\<close>

datatype bson =
    BInt int
  | BUint nat
  | BFloat float64
  | BDecimal string
  | BString string
  | BStringer string
  | BTime int
  | BDoc "(string \<times> bson) list"
  | BArr "bson list"
  | BNull

fun doc_field :: "string \<Rightarrow> bson \<Rightarrow> bson option" where
  "doc_field k (BDoc fs) = map_of fs k"
| "doc_field k _ = None"

text \<open>Reading a key of a Go map that is absent gives nil.\<close>

definition field_or_nil :: "string \<Rightarrow> bson \<Rightarrow> bson" where
  "field_or_nil k d = (case doc_field k d of Some v \<Rightarrow> v | None \<Rightarrow> BNull)"

definition stringValue :: "bson \<Rightarrow> string" where
  "stringValue v = (case v of BString s \<Rightarrow> s | BStringer s \<Rightarrow> s | BDecimal s \<Rightarrow> s | _ \<Rightarrow> [])"

definition uint64ToInt64 :: "nat \<Rightarrow> int" where
  "uint64ToInt64 n = (if 2 ^ 63 - 1 < n then 0
     else case Atoi (dec_string n) of Some i \<Rightarrow> i | None \<Rightarrow> 0)"

text \<open>The conversion of a double truncates; out of range it gives the smallest integer, as on amd64.\<close>

definition int64_of_float :: "float64 \<Rightarrow> int" where
  "int64_of_float f = (case f of
     Fin r \<Rightarrow> (let i = (if r < 0 then \<lceil>r\<rceil> else \<lfloor>r\<rfloor>) in if - (2 ^ 63) \<le> i \<and> i < 2 ^ 63 then i else - (2 ^ 63))
   | _ \<Rightarrow> - (2 ^ 63))"

definition int64Value :: "bson \<Rightarrow> int" where
  "int64Value v = (case v of
       BInt i \<Rightarrow> i
     | BUint n \<Rightarrow> uint64ToInt64 n
     | BFloat f \<Rightarrow> int64_of_float f
     | BDecimal s \<Rightarrow> (case Atoi s of Some i \<Rightarrow> i | None \<Rightarrow> 0)
     | BString s \<Rightarrow> (case Atoi s of Some i \<Rightarrow> i | None \<Rightarrow> 0)
     | _ \<Rightarrow> 0)"

definition arrayValue :: "bson \<Rightarrow> bson list" where
  "arrayValue v = (case v of BArr xs \<Rightarrow> xs | _ \<Rightarrow> [])"

text \<open>The entries of the map in the order of the loop over it.\<close>

definition usedMap :: "bson \<Rightarrow> (string \<times> int) list" where
  "usedMap v = (case v of BDoc fs \<Rightarrow> map (\<lambda>(k, x). (k, int64Value x)) fs | _ \<Rightarrow> [])"

section \<open>Properties\<close>

record property_info =
  pi_Name :: string
  pi_Unit :: string

type_synonym properties = "string \<Rightarrow> property_info option"

definition defaultProperties :: properties where
  "defaultProperties =
     [''0'' \<mapsto> \<lparr>pi_Name = ''cpu'', pi_Unit = ''1m''\<rparr>, ''1'' \<mapsto> \<lparr>pi_Name = ''memory'', pi_Unit = ''1Mi''\<rparr>,
      ''2'' \<mapsto> \<lparr>pi_Name = ''storage'', pi_Unit = ''1Mi''\<rparr>, ''3'' \<mapsto> \<lparr>pi_Name = ''network'', pi_Unit = ''1Mi''\<rparr>,
      ''4'' \<mapsto> \<lparr>pi_Name = ''services.nodeports'', pi_Unit = ''1''\<rparr>]"

definition propertyInfo :: "string \<Rightarrow> properties \<Rightarrow> property_info" where
  "propertyInfo enum ps = (case ps enum of
     Some p \<Rightarrow> p | None \<Rightarrow> \<lparr>pi_Name = ''resource_unknown_'' @ enum, pi_Unit = ''1''\<rparr>)"

definition load_property :: "properties \<Rightarrow> bson \<Rightarrow> properties" where
  "load_property ps d =
     (let enum = Itoa (int64Value (field_or_nil ''enum'' d));
          name = stringValue (field_or_nil ''name'' d);
          u = stringValue (field_or_nil ''unit'' d);
          unit = (if u = [] then ''1'' else u) in
      if enum = [] \<or> name = [] then ps
      else ps(enum \<mapsto> \<lparr>pi_Name = name, pi_Unit = unit\<rparr>))"

text \<open>What the cursor delivers: the error of the query, or the documents up to the error of decoding one or of
  the iteration.\<close>

record cursor =
  cu_docs :: "bson list"
  cu_decode :: "err option"
  cu_err :: "err option"

definition loadProperties :: "err + cursor \<Rightarrow> properties res" where
  "loadProperties answer = (case answer of
       Inl e \<Rightarrow> Inl (''query billing properties: '' @ e)
     | Inr cur \<Rightarrow>
         (case cu_decode cur of Some e \<Rightarrow> Inl (''decode billing property: '' @ e)
          | None \<Rightarrow> (case cu_err cur of Some e \<Rightarrow> Inl (''iterate billing properties: '' @ e)
             | None \<Rightarrow> Inr (foldl load_property defaultProperties (cu_docs cur)))))"

section \<open>Aggregation\<close>

record resource_key =
  rk_Resource :: string
  rk_Unit :: string
  rk_Owner :: string
  rk_Namespace :: string

record amount_key =
  ak_Resource :: string
  ak_Owner :: string
  ak_Namespace :: string

record billing_row =
  br_Owner :: string
  br_Namespace :: string
  br_Resource :: string
  br_Value :: bson

record billing_snapshot =
  bs_StartedAt :: int
  bs_FinishedAt :: int
  bs_WindowStart :: int
  bs_WindowEnd :: int
  bs_Resources :: "resource_key \<Rightarrow> float64 option"
  bs_OwnerResources :: "resource_key \<Rightarrow> float64 option"
  bs_ResourceAmounts :: "amount_key \<Rightarrow> float64 option"
  bs_OwnerResourceAmounts :: "amount_key \<Rightarrow> float64 option"

definition newBillingSnapshot :: "int \<Rightarrow> int \<Rightarrow> int \<Rightarrow> billing_snapshot" where
  "newBillingSnapshot now start stop = \<lparr>bs_StartedAt = now, bs_FinishedAt = 0, bs_WindowStart = start,
     bs_WindowEnd = stop, bs_Resources = Map.empty, bs_OwnerResources = Map.empty,
     bs_ResourceAmounts = Map.empty, bs_OwnerResourceAmounts = Map.empty\<rparr>"

definition float_add :: "float64 \<Rightarrow> float64 \<Rightarrow> float64" where
  "float_add a b = (case (a, b) of
       (Fin x, Fin y) \<Rightarrow> round64 (x + y)
     | (Inf s, Inf t) \<Rightarrow> if s = t then Inf s else NaN
     | (NaN, _) \<Rightarrow> NaN | (_, NaN) \<Rightarrow> NaN
     | (Inf s, _) \<Rightarrow> Inf s | (_, Inf s) \<Rightarrow> Inf s)"

text \<open>Adding to the total of a key; a key that is absent counts as zero.\<close>

definition add_total :: "'k \<Rightarrow> float64 \<Rightarrow> ('k \<Rightarrow> float64 option) \<Rightarrow> ('k \<Rightarrow> float64 option)" where
  "add_total k v m = m(k \<mapsto> float_add (case m k of Some x \<Rightarrow> x | None \<Rightarrow> Fin 0) v)"

definition resource_key_of :: "properties \<Rightarrow> string \<Rightarrow> resource_key" where
  "resource_key_of ps enum = \<lparr>rk_Resource = pi_Name (propertyInfo enum ps), rk_Unit = pi_Unit (propertyInfo enum ps),
     rk_Owner = [], rk_Namespace = []\<rparr>"

definition amount_key_of :: "properties \<Rightarrow> string \<Rightarrow> amount_key" where
  "amount_key_of ps enum = \<lparr>ak_Resource = pi_Name (propertyInfo enum ps), ak_Owner = [], ak_Namespace = []\<rparr>"

definition add_resource :: "properties \<Rightarrow> bool \<Rightarrow> string \<Rightarrow> string \<Rightarrow> string \<Rightarrow> int \<Rightarrow> billing_snapshot \<Rightarrow> billing_snapshot" where
  "add_resource ps owners owner ns enum v s =
     (let key = resource_key_of ps enum; used = float_of_int v;
          s1 = s\<lparr>bs_Resources := add_total key used (bs_Resources s)\<rparr> in
      if owners then s1\<lparr>bs_OwnerResources :=
        add_total (key\<lparr>rk_Owner := owner, rk_Namespace := ns\<rparr>) used (bs_OwnerResources s1)\<rparr>
      else s1)"

definition add_amount :: "properties \<Rightarrow> bool \<Rightarrow> string \<Rightarrow> string \<Rightarrow> string \<Rightarrow> int \<Rightarrow> billing_snapshot \<Rightarrow> billing_snapshot" where
  "add_amount ps owners owner ns enum v s =
     (let key = amount_key_of ps enum; amount = float_of_int v;
          s1 = s\<lparr>bs_ResourceAmounts := add_total key amount (bs_ResourceAmounts s)\<rparr> in
      if owners then s1\<lparr>bs_OwnerResourceAmounts :=
        add_total (key\<lparr>ak_Owner := owner, ak_Namespace := ns\<rparr>) amount (bs_OwnerResourceAmounts s1)\<rparr>
      else s1)"

text \<open>\<open>began\<close> and \<open>ended\<close> are the readings of the clock.\<close>

definition aggregateBillingRows :: "int \<Rightarrow> int \<Rightarrow> billing_row list \<Rightarrow> billing_row list \<Rightarrow> properties \<Rightarrow> bool
    \<Rightarrow> int \<Rightarrow> int \<Rightarrow> billing_snapshot" where
  "aggregateBillingRows began ended rows amounts ps owners start stop =
     (let s0 = newBillingSnapshot began start stop;
          s1 = foldl (\<lambda>s r. add_resource ps owners (br_Owner r) (br_Namespace r) (br_Resource r) (int64Value (br_Value r)) s)
                 s0 rows;
          s2 = foldl (\<lambda>s r. add_amount ps owners (br_Owner r) (br_Namespace r) (br_Resource r) (int64Value (br_Value r)) s)
                 s1 amounts
      in s2\<lparr>bs_FinishedAt := ended\<rparr>)"

definition aggregate_cost :: "properties \<Rightarrow> string \<Rightarrow> string \<Rightarrow> billing_snapshot \<Rightarrow> bson \<Rightarrow> billing_snapshot" where
  "aggregate_cost ps owner ns s cost = (case cost of
       BDoc fs \<Rightarrow>
         foldl (\<lambda>s (enum, v). add_amount ps True owner ns enum v s)
           (foldl (\<lambda>s (enum, v). add_resource ps True owner ns enum v s) s (usedMap (field_or_nil ''used'' cost)))
           (usedMap (field_or_nil ''used_amount'' cost))
     | _ \<Rightarrow> s)"

definition aggregateBillingDocuments :: "int \<Rightarrow> int \<Rightarrow> bson list \<Rightarrow> properties \<Rightarrow> int \<Rightarrow> int \<Rightarrow> billing_snapshot" where
  "aggregateBillingDocuments began ended docs ps start stop =
     (foldl (\<lambda>s d. foldl (aggregate_cost ps (stringValue (field_or_nil ''owner'' d)) (stringValue (field_or_nil ''namespace'' d)))
          s (arrayValue (field_or_nil ''app_costs'' d)))
        (newBillingSnapshot began start stop) docs)\<lparr>bs_FinishedAt := ended\<rparr>"

section \<open>The pipelines\<close>

definition bstr :: "string \<Rightarrow> string \<Rightarrow> string \<times> bson" where
  "bstr k s = (k, BString s)"

definition billingAggregatePipeline :: "int \<Rightarrow> int \<Rightarrow> bson list \<Rightarrow> bson list" where
  "billingAggregatePipeline start stop stages =
     BDoc [(''$match'', BDoc [(''type'', BInt 0), (''time'', BDoc [(''$gt'', BTime start), (''$lte'', BTime stop)])])]
     # stages"

text \<open>The stages of both queries, with the name of the result and of the field of a cost that it sums.\<close>

definition owner_fields :: "bool \<Rightarrow> (string \<times> bson) list" where
  "owner_fields owners = (if owners then [(''owner'', BInt 1), (''namespace'', BInt 1)] else [])"

definition usage_stages :: "string \<Rightarrow> string \<Rightarrow> bool \<Rightarrow> bson list" where
  "usage_stages name source owners =
     [BDoc [(''$project'', BDoc ([(''app_costs'', BInt 1)] @ owner_fields owners))],
      BDoc [bstr ''$unwind'' ''$app_costs''],
      BDoc [(''$project'', BDoc ([(name, BDoc [(''$objectToArray'', BDoc [(''$ifNull'',
         BArr [BString (''$app_costs.'' @ source), BDoc []])])])] @ owner_fields owners))],
      BDoc [bstr ''$unwind'' (''$'' @ name)],
      BDoc [(''$group'', BDoc [
         (''_id'', BDoc ((if owners then [bstr ''owner'' ''$owner'', bstr ''namespace'' ''$namespace''] else [])
            @ [bstr ''resource'' (''$'' @ name @ ''.k'')])),
         (name, BDoc [bstr ''$sum'' (''$'' @ name @ ''.v'')])])],
      BDoc [(''$project'', BDoc ([(''_id'', BInt 0)]
         @ (if owners then [bstr ''owner'' ''$_id.owner'', bstr ''namespace'' ''$_id.namespace''] else [])
         @ [bstr ''resource'' ''$_id.resource'', (name, BInt 1)]))]]"

definition billingResourceUsageStages :: "bool \<Rightarrow> bson list" where
  "billingResourceUsageStages owners = usage_stages ''used'' ''used'' owners"

definition billingResourceAmountStages :: "bool \<Rightarrow> bson list" where
  "billingResourceAmountStages owners = usage_stages ''amount'' ''used_amount'' owners"

section \<open>Queries\<close>

record billing_config =
  blc_URI :: string
  blc_Database :: string
  blc_BillingCollection :: string
  blc_PropertiesCollection :: string
  blc_ScrapeInterval :: int
  blc_QueryTimeout :: int
  blc_EnableOwnerMetrics :: bool

definition billing_NewDefaultConfig :: billing_config where
  "billing_NewDefaultConfig = \<lparr>blc_URI = [], blc_Database = ''sealos-resources'', blc_BillingCollection = ''billing'',
     blc_PropertiesCollection = ''properties'', blc_ScrapeInterval = 5 * 60 * 10 ^ 9, blc_QueryTimeout = 30 * 10 ^ 9,
     blc_EnableOwnerMetrics = False\<rparr>"

text \<open>The database: \<open>Aggregate\<close> and \<open>Find\<close> on a collection. A result of the former is the error of
  the call, or the documents that the cursor yields.\<close>

record mongo =
  mg_Aggregate :: "string \<Rightarrow> string \<Rightarrow> bson list \<Rightarrow> err + bson list"
  mg_Find :: "string \<Rightarrow> string \<Rightarrow> err + cursor"

text \<open>Decoding a document into the struct of a row: absent fields stay empty, and a name that is not a string is
  an error.\<close>

definition decode_string :: "string \<Rightarrow> bson \<Rightarrow> string option" where
  "decode_string k d = (case doc_field k d of
     None \<Rightarrow> Some [] | Some BNull \<Rightarrow> Some [] | Some (BString s) \<Rightarrow> Some s | Some _ \<Rightarrow> None)"

definition decode_row :: "string \<Rightarrow> bson \<Rightarrow> billing_row option" where
  "decode_row value d = (case (decode_string ''owner'' d, decode_string ''namespace'' d, decode_string ''resource'' d) of
     (Some o', Some n, Some r) \<Rightarrow> Some \<lparr>br_Owner = o', br_Namespace = n, br_Resource = r, br_Value = field_or_nil value d\<rparr>
   | _ \<Rightarrow> None)"

fun decode_rows :: "string \<Rightarrow> bson list \<Rightarrow> billing_row list option" where
  "decode_rows value [] = Some []"
| "decode_rows value (d # ds) = (case (decode_row value d, decode_rows value ds) of
     (Some r, Some rs) \<Rightarrow> Some (r # rs) | _ \<Rightarrow> None)"

definition query_rows :: "string \<Rightarrow> string \<Rightarrow> mongo \<Rightarrow> billing_config \<Rightarrow> bson list \<Rightarrow> billing_row list res" where
  "query_rows what value M cfg pipeline = (case mg_Aggregate M (blc_Database cfg) (blc_BillingCollection cfg) pipeline of
       Inl e \<Rightarrow> Inl (''aggregate billing '' @ what @ '': '' @ e)
     | Inr docs \<Rightarrow> (case decode_rows value docs of
           None \<Rightarrow> Inl (''decode billing '' @ what @ '' rows: '')
         | Some rows \<Rightarrow> Inr rows))"

definition queryBillingResourceRows :: "mongo \<Rightarrow> billing_config \<Rightarrow> int \<Rightarrow> int \<Rightarrow> bool \<Rightarrow> billing_row list res" where
  "queryBillingResourceRows M cfg start stop owners = query_rows ''resource usage'' ''used'' M cfg
     (billingAggregatePipeline start stop (billingResourceUsageStages owners))"

definition queryBillingResourceAmountRows :: "mongo \<Rightarrow> billing_config \<Rightarrow> int \<Rightarrow> int \<Rightarrow> bool \<Rightarrow> billing_row list res" where
  "queryBillingResourceAmountRows M cfg start stop owners = query_rows ''resource amounts'' ''amount'' M cfg
     (billingAggregatePipeline start stop (billingResourceAmountStages owners))"

text \<open>The two queries run concurrently and are both waited for; the error of the first one counts first.\<close>

definition queryBillingAggregates :: "mongo \<Rightarrow> billing_config \<Rightarrow> int \<Rightarrow> int \<Rightarrow> bool
    \<Rightarrow> (billing_row list \<times> billing_row list) res" where
  "queryBillingAggregates M cfg start stop owners =
     (case (queryBillingResourceRows M cfg start stop owners, queryBillingResourceAmountRows M cfg start stop owners) of
        (Inl e, _) \<Rightarrow> Inl e
      | (_, Inl e) \<Rightarrow> Inl e
      | (Inr rows, Inr amounts) \<Rightarrow> Inr (rows, amounts))"

section \<open>Metrics\<close>

record billing_descs =
  be_resource :: desc
  be_owner_resource :: desc
  be_amount :: desc
  be_owner_amount :: desc
  be_last :: desc

definition billing_descs_of :: "prom \<Rightarrow> string \<Rightarrow> billing_descs" where
  "billing_descs_of P ns =
     \<lparr>be_resource = \<lparr>d_fqName = pr_BuildFQName P ns ''billing'' ''resource_usage'',
        d_help = ''Aggregated billed resource usage from Sealos billing records over the previous complete hourly billing window in the raw Sealos billing unit.'',
        d_labels = [''window_start'', ''window_end'', ''resource'', ''unit'']\<rparr>,
      be_owner_resource = \<lparr>d_fqName = pr_BuildFQName P ns ''billing_owner'' ''resource_usage'',
        d_help = ''Aggregated billed resource usage by Sealos owner and namespace over the previous complete hourly billing window.'',
        d_labels = [''window_start'', ''window_end'', ''owner'', ''namespace'', ''resource'', ''unit'']\<rparr>,
      be_amount = \<lparr>d_fqName = pr_BuildFQName P ns ''billing'' ''resource_amount'',
        d_help = ''Aggregated Sealos billing amount by resource over the previous complete hourly billing window in the raw Sealos amount unit.'',
        d_labels = [''window_start'', ''window_end'', ''resource'']\<rparr>,
      be_owner_amount = \<lparr>d_fqName = pr_BuildFQName P ns ''billing_owner'' ''resource_amount'',
        d_help = ''Aggregated Sealos billing amount by Sealos owner, namespace, and resource over the previous complete hourly billing window.'',
        d_labels = [''window_start'', ''window_end'', ''owner'', ''namespace'', ''resource'']\<rparr>,
      be_last = \<lparr>d_fqName = pr_BuildFQName P ns ''billing'' ''last_success_timestamp_seconds'',
        d_help = ''Unix timestamp of the last successful Sealos billing collection.'', d_labels = []\<rparr>\<rparr>"

definition billing_desc_list :: "billing_descs \<Rightarrow> desc list" where
  "billing_desc_list D = [be_resource D, be_owner_resource D, be_amount D, be_owner_amount D, be_last D]"

text \<open>Times are nanoseconds since the epoch; \<open>Unix\<close> gives the seconds.\<close>

definition Unix :: "int \<Rightarrow> int" where
  "Unix t = t div 10 ^ 9"

text \<open>The entries of the four maps in the order of the loops over them.\<close>

record snapshot_entries =
  en_Resources :: "(resource_key \<times> float64) list"
  en_OwnerResources :: "(resource_key \<times> float64) list"
  en_ResourceAmounts :: "(amount_key \<times> float64) list"
  en_OwnerResourceAmounts :: "(amount_key \<times> float64) list"

definition snapshot_rows :: "billing_descs \<Rightarrow> bool \<Rightarrow> billing_snapshot \<Rightarrow> snapshot_entries \<Rightarrow> row list" where
  "snapshot_rows D owners s e =
     (let ws = Itoa (Unix (bs_WindowStart s)); we = Itoa (Unix (bs_WindowEnd s)) in
      map (\<lambda>(k, v). (be_resource D, v, [ws, we, rk_Resource k, rk_Unit k])) (en_Resources e)
      @ (if owners then map (\<lambda>(k, v). (be_owner_resource D, v,
            [ws, we, rk_Owner k, rk_Namespace k, rk_Resource k, rk_Unit k])) (en_OwnerResources e) else [])
      @ map (\<lambda>(k, v). (be_amount D, v, [ws, we, ak_Resource k])) (en_ResourceAmounts e)
      @ (if owners then map (\<lambda>(k, v). (be_owner_amount D, v,
            [ws, we, ak_Owner k, ak_Namespace k, ak_Resource k])) (en_OwnerResourceAmounts e) else [])
      @ [(be_last D, float_of_int (Unix (bs_FinishedAt s)), [])])"

definition emitSnapshotMetrics :: "prom \<Rightarrow> billing_descs \<Rightarrow> bool \<Rightarrow> billing_snapshot \<Rightarrow> snapshot_entries
    \<Rightarrow> pmetric list \<times> string option" where
  "emitSnapshotMetrics P D owners s e =
     emit (map (\<lambda>(d, v, ls). const_metric P d v ls) (snapshot_rows D owners s e))"

definition buildSnapshotMetrics :: "prom \<Rightarrow> billing_descs \<Rightarrow> bool \<Rightarrow> billing_snapshot \<Rightarrow> snapshot_entries
    \<Rightarrow> pmetric list go" where
  "buildSnapshotMetrics P D owners s e = (case emitSnapshotMetrics P D owners s e of
     (ms, None) \<Rightarrow> Ret ms | (ms, Some p) \<Rightarrow> Panic p)"

section \<open>The collector\<close>

text \<open>\<open>client\<close> tells whether there is a connection; the snapshot comes with its metrics.\<close>

record billing_collector =
  bl_config :: billing_config
  bl_descs :: billing_descs
  bl_client :: bool
  bl_snapshot :: "(billing_snapshot \<times> pmetric list) option"

definition billing_NewCollector :: "prom \<Rightarrow> string \<Rightarrow> (billing_config \<Rightarrow> billing_config \<times> err option)
    \<Rightarrow> (billing_collector \<times> base) go" where
  "billing_NewCollector P ns load =
     (let D = billing_descs_of P ns in
      bind_go (register_descs (billing_desc_list D) (NewBaseCollector ''billing'' [WithWaitReadyOnCollect True]))
        (\<lambda>b. Ret (\<lparr>bl_config = fst (load billing_NewDefaultConfig), bl_descs = D, bl_client = False,
           bl_snapshot = None\<rparr>, b)))"

text \<open>\<open>connect_err\<close> and \<open>ping_err\<close> are the errors of connecting and of the ping.\<close>

definition billing_StartFunc :: "err option \<Rightarrow> err option \<Rightarrow> billing_collector \<Rightarrow> err option \<times> billing_collector" where
  "billing_StartFunc connect_err ping_err c =
     (if blc_URI (bl_config c) = [] then (Some ''mongo uri is required'', c)
      else case connect_err of Some e \<Rightarrow> (Some (''connect mongo: '' @ e), c)
      | None \<Rightarrow> (case ping_err of Some e \<Rightarrow> (Some (''ping mongo: '' @ e), c)
         | None \<Rightarrow> (None, c\<lparr>bl_client := True\<rparr>)))"

definition billing_StopFunc :: "err option \<Rightarrow> billing_collector \<Rightarrow> err option \<times> billing_collector" where
  "billing_StopFunc disconnect_err c =
     (if bl_client c then case disconnect_err of
          Some e \<Rightarrow> (Some (''disconnect mongo: '' @ e), c)
        | None \<Rightarrow> (None, c\<lparr>bl_client := False\<rparr>)
      else (None, c))"

definition hour :: int where
  "hour = 3600 * 10 ^ 9"

definition window_end :: "int \<Rightarrow> int" where
  "window_end now = now - now mod hour"

text \<open>\<open>now\<close> is the clock when the window is computed, \<open>began\<close> and \<open>ended\<close> around the aggregation;
  \<open>order\<close> gives the entries of the maps of a snapshot.\<close>

definition billing_Poll :: "prom \<Rightarrow> mongo \<Rightarrow> int \<Rightarrow> int \<Rightarrow> int \<Rightarrow> (billing_snapshot \<Rightarrow> snapshot_entries)
    \<Rightarrow> billing_collector \<Rightarrow> (err option \<times> billing_collector) go" where
  "billing_Poll P M now began ended order c =
     (let cfg = bl_config c; owners = blc_EnableOwnerMetrics cfg; stop = window_end now; start = stop - hour in
      if \<not> bl_client c then Ret (Some ''mongo client is nil'', c)
      else case loadProperties (mg_Find M (blc_Database cfg) (blc_PropertiesCollection cfg)) of
        Inl e \<Rightarrow> Ret (Some e, c)
      | Inr ps \<Rightarrow> (case queryBillingAggregates M cfg start stop owners of
          Inl e \<Rightarrow> Ret (Some e, c)
        | Inr (rows, amounts) \<Rightarrow>
            (let s = aggregateBillingRows began ended rows amounts ps owners start stop in
             bind_go (buildSnapshotMetrics P (bl_descs c) owners s (order s))
               (\<lambda>ms. Ret (None, c\<lparr>bl_snapshot := Some (s, ms)\<rparr>)))))"

text \<open>The entries are only used when the snapshot has no metrics.\<close>

definition billing_collect :: "prom \<Rightarrow> billing_collector \<Rightarrow> (billing_snapshot \<Rightarrow> snapshot_entries)
    \<Rightarrow> pmetric list \<times> string option" where
  "billing_collect P c order = (case bl_snapshot c of
       None \<Rightarrow> ([], None)
     | Some (s, ms) \<Rightarrow> if ms \<noteq> [] then (ms, None)
         else emitSnapshotMetrics P (bl_descs c) (blc_EnableOwnerMetrics (bl_config c)) s (order s))"

end
