(* ===== verification/Billing_Query.thy ===== *)
theory Billing_Query
  imports Billing "HOL-Library.Multiset" "HOL-Library.Product_Lexorder"
begin

text \<open>
  What the pipelines of the billing collector compute. The operators that they use are given the meaning of
  the MongoDB manual, on the fragment that occurs: \<open>$match\<close> with equality and an interval of time,
  \<open>$project\<close> with kept, dropped and computed fields, \<open>$unwind\<close>, \<open>$group\<close> with \<open>$sum\<close>, and the
  expressions \<open>$ifNull\<close>, \<open>$objectToArray\<close> and field paths. A database whose answers are those, in
  any order of the documents, gives the same snapshot as the documents themselves.
\<close>

section \<open>The operators\<close>

fun path_get :: "string list \<Rightarrow> bson \<Rightarrow> bson option" where
  "path_get [] d = Some d"
| "path_get (k # ks) d = (case doc_field k d of None \<Rightarrow> None | Some v \<Rightarrow> path_get ks v)"

definition expr_value :: "bson \<Rightarrow> bson \<Rightarrow> bson option" where
  "expr_value e d = (case e of
     BString (c # p) \<Rightarrow> if c = CHR ''$'' then path_get (Split CHR ''.'' p) d else Some e
   | _ \<Rightarrow> Some e)"

definition if_null :: "bson option \<Rightarrow> bson \<Rightarrow> bson" where
  "if_null v dflt = (case v of None \<Rightarrow> dflt | Some BNull \<Rightarrow> dflt | Some x \<Rightarrow> x)"

definition object_to_array :: "bson \<Rightarrow> bson" where
  "object_to_array v = (case v of
     BDoc fs \<Rightarrow> BArr (map (\<lambda>(k, x). BDoc [(''k'', BString k), (''v'', x)]) fs) | _ \<Rightarrow> BNull)"

definition doc_fields :: "bson \<Rightarrow> (string \<times> bson) list" where
  "doc_fields d = (case d of BDoc fs \<Rightarrow> fs | _ \<Rightarrow> [])"

definition computed :: "bson \<Rightarrow> bson \<Rightarrow> bson option" where
  "computed e d = (case doc_fields e of
     (op1, inner) # _ \<Rightarrow> (case doc_fields inner of
        (op2, args) # _ \<Rightarrow> (case args of
           BArr (a # dflt # _) \<Rightarrow> if op1 = ''$objectToArray'' \<and> op2 = ''$ifNull''
             then Some (object_to_array (if_null (expr_value a d) dflt)) else None
         | _ \<Rightarrow> None)
      | [] \<Rightarrow> None)
   | [] \<Rightarrow> expr_value e d)"

fun opt_field :: "string \<Rightarrow> bson option \<Rightarrow> (string \<times> bson) list" where
  "opt_field k None = []"
| "opt_field k (Some v) = [(k, v)]"

definition project_field :: "bson \<Rightarrow> string \<times> bson \<Rightarrow> (string \<times> bson) list" where
  "project_field d x = (case snd x of
     BInt n \<Rightarrow> if n = 0 then [] else opt_field (fst x) (doc_field (fst x) d)
   | e \<Rightarrow> opt_field (fst x) (computed e d))"

definition project_doc :: "(string \<times> bson) list \<Rightarrow> bson \<Rightarrow> bson" where
  "project_doc specs d = BDoc ((if ''_id'' \<in> fst ` set specs then [] else opt_field ''_id'' (doc_field ''_id'' d))
     @ concat (map (project_field d) specs))"

fun set_field :: "string \<Rightarrow> bson \<Rightarrow> bson \<Rightarrow> bson" where
  "set_field k x (BDoc fs) = BDoc (map (\<lambda>(j, v). if j = k then (j, x) else (j, v)) fs)"
| "set_field k x d = d"

definition unwind_doc :: "string \<Rightarrow> bson \<Rightarrow> bson list" where
  "unwind_doc k d = (case doc_field k d of
     None \<Rightarrow> [] | Some BNull \<Rightarrow> [] | Some (BArr xs) \<Rightarrow> map (\<lambda>x. set_field k x d) xs | Some _ \<Rightarrow> [d])"

definition compare_time :: "bson option \<Rightarrow> string \<times> bson \<Rightarrow> bool" where
  "compare_time v x \<longleftrightarrow> (case (v, snd x) of
     (Some (BTime a), BTime b) \<Rightarrow> (fst x = ''$gt'' \<and> a > b) \<or> (fst x = ''$lte'' \<and> a \<le> b) | _ \<Rightarrow> False)"

definition match_field :: "bson \<Rightarrow> string \<times> bson \<Rightarrow> bool" where
  "match_field d x \<longleftrightarrow> (case snd x of
     BDoc ops \<Rightarrow> list_all (compare_time (doc_field (fst x) d)) ops | v \<Rightarrow> doc_field (fst x) d = Some v)"

definition group_key :: "(string \<times> bson) list \<Rightarrow> bson \<Rightarrow> (string \<times> bson) list" where
  "group_key ids d = concat (map (\<lambda>(k, e). opt_field k (expr_value e d)) ids)"

text \<open>\<open>$sum\<close> of integers; other values do not count.\<close>

fun int_or_zero :: "bson option \<Rightarrow> int" where
  "int_or_zero (Some (BInt i)) = i"
| "int_or_zero _ = 0"

text \<open>The argument of \<open>$group\<close> is the key and one sum.\<close>

definition group_docs :: "(string \<times> bson) list \<Rightarrow> bson list \<Rightarrow> bson list" where
  "group_docs arg docs =
     (let ids = doc_fields (snd (arg ! 0)); name = fst (arg ! 1); e = snd (hd (doc_fields (snd (arg ! 1)))) in
      map (\<lambda>key. BDoc [(''_id'', BDoc key),
         (name, BInt (sum_list (map (\<lambda>d. int_or_zero (expr_value e d)) (filter (\<lambda>d. group_key ids d = key) docs))))])
       (remdups (map (group_key ids) docs)))"

definition run_stage :: "bson \<Rightarrow> bson list \<Rightarrow> bson list" where
  "run_stage st docs = (case doc_fields st of
     [] \<Rightarrow> docs
   | (op1, arg) # _ \<Rightarrow>
       if op1 = ''$match'' then filter (\<lambda>d. list_all (match_field d) (doc_fields arg)) docs
       else if op1 = ''$project'' then map (project_doc (doc_fields arg)) docs
       else if op1 = ''$unwind'' then concat (map (unwind_doc (case arg of BString s \<Rightarrow> drop 1 s | _ \<Rightarrow> [])) docs)
       else if op1 = ''$group'' then group_docs (doc_fields arg) docs
       else docs)"

definition run_pipeline :: "bson list \<Rightarrow> bson list \<Rightarrow> bson list" where
  "run_pipeline stages docs = foldl (\<lambda>ds st. run_stage st ds) docs stages"

text \<open>The collection holds \<open>docs\<close>, and the database answers as documented, in some order.\<close>

definition answers :: "mongo \<Rightarrow> billing_config \<Rightarrow> bson list \<Rightarrow> bson list \<Rightarrow> bool" where
  "answers M cfg docs stages \<longleftrightarrow> (\<exists>out. mg_Aggregate M (blc_Database cfg) (blc_BillingCollection cfg) stages = Inr out
     \<and> mset out = mset (run_pipeline stages docs))"

section \<open>Totals\<close>

lemma float_add_int:
  "\<bar>a + b\<bar> < 2 ^ 53 \<Longrightarrow> float_add (Fin (of_int a)) (Fin (of_int b)) = Fin (of_int (a + b))"
  using float_of_int_exact [of "a + b"] by (simp add: float_add_def float_of_int_def)

definition totals :: "('k \<times> int) list \<Rightarrow> 'k \<Rightarrow> float64 option" where
  "totals kvs = foldl (\<lambda>m (k, v). add_total k (float_of_int v) m) Map.empty kvs"

definition sum_for :: "'k \<Rightarrow> ('k \<times> int) list \<Rightarrow> int" where
  "sum_for k kvs = sum_list (map snd (filter (\<lambda>x. fst x = k) kvs))"

definition magnitude :: "('k \<times> int) list \<Rightarrow> int" where
  "magnitude kvs = sum_list (map (\<lambda>x. \<bar>snd x\<bar>) kvs)"

lemma sum_for_append [simp]: "sum_for k (xs @ ys) = sum_for k xs + sum_for k ys"
  by (simp add: sum_for_def)

lemma magnitude_simps [simp]: "magnitude [] = 0" "magnitude (x # xs) = \<bar>snd x\<bar> + magnitude xs"
  "magnitude (xs @ ys) = magnitude xs + magnitude ys"
  by (simp_all add: magnitude_def)

lemma sum_for_bound: "\<bar>sum_for k kvs\<bar> \<le> magnitude kvs"
  by (induction kvs) (auto simp: sum_for_def)

lemma magnitude_nonneg: "0 \<le> magnitude kvs"
  by (induction kvs) auto

text \<open>As long as the absolute values add up to less than \<open>2^53\<close> the sums of doubles are exact.\<close>

lemma totals_exact:
  "magnitude kvs < 2 ^ 53 \<Longrightarrow>
     totals kvs k = (if k \<in> fst ` set kvs then Some (Fin (of_int (sum_for k kvs))) else None)"
proof (induction kvs rule: rev_induct)
  case (snoc x kvs)
  obtain j v where x: "x = (j, v)" by (cases x)
  have IH: "totals kvs k = (if k \<in> fst ` set kvs then Some (Fin (of_int (sum_for k kvs))) else None)"
    using snoc by simp
  have less: "\<bar>v\<bar> < 2 ^ 53" "magnitude kvs + \<bar>v\<bar> < 2 ^ 53" using snoc.prems magnitude_nonneg [of kvs] x by simp_all
  have "\<bar>sum_for k kvs + v\<bar> < 2 ^ 53" using sum_for_bound [of k kvs] less(2) by linarith
  then have add: "float_add (Fin (of_int (sum_for k kvs))) (Fin (of_int v)) = Fin (of_int (sum_for k kvs + v))"
    by (rule float_add_int)
  have zero: "float_add (Fin 0) (Fin (of_int v)) = Fin (of_int v)"
    using float_add_int [of 0 v] less(1) by simp
  have none: "k \<notin> fst ` set kvs \<Longrightarrow> sum_for k kvs = 0"
    by (induction kvs) (auto simp: sum_for_def)
  have "totals (kvs @ [x]) = add_total j (float_of_int v) (totals kvs)" by (simp add: totals_def x)
  then show ?case
    using IH add zero none float_of_int_exact [OF less(1)]
    by (auto simp: add_total_def x sum_for_def)
qed (simp add: totals_def)

definition grouped :: "('a \<Rightarrow> 'g) \<Rightarrow> ('a \<Rightarrow> int) \<Rightarrow> 'a list \<Rightarrow> ('g \<times> int) list" where
  "grouped g val xs = map (\<lambda>k. (k, sum_list (map val (filter (\<lambda>x. g x = k) xs)))) (remdups (map g xs))"

lemma sum_over_keys:
  fixes c :: "'a \<Rightarrow> int"
  assumes "distinct ks" "set (map g xs) \<subseteq> set ks"
  shows "sum_list (map (\<lambda>k. sum_list (map c (filter (\<lambda>x. g x = k) xs))) ks) = sum_list (map c xs)"
  using assms(2)
proof (induction xs)
  case (Cons x xs)
  have "sum_list (map (\<lambda>k. sum_list (map c (filter (\<lambda>y. g y = k) (x # xs)))) ks)
      = sum_list (map (\<lambda>k. (if g x = k then c x else 0) + sum_list (map c (filter (\<lambda>y. g y = k) xs))) ks)"
    by (rule arg_cong [where f = sum_list], rule map_cong) auto
  also have "\<dots> = sum_list (map (\<lambda>k. if g x = k then c x else 0) ks)
      + sum_list (map (\<lambda>k. sum_list (map c (filter (\<lambda>y. g y = k) xs))) ks)"
    by (simp add: sum_list_addf)
  also have "sum_list (map (\<lambda>k. if g x = k then c x else 0) ks) = c x"
  proof -
    have "sum_list (map (\<lambda>k. if g x = k then c x else 0) ks) = (\<Sum>k \<in> set ks. if g x = k then c x else 0)"
      using assms(1) by (simp add: sum_list_distinct_conv_sum_set)
    also have "\<dots> = c x" using Cons.prems by simp
    finally show ?thesis .
  qed
  finally show ?case using Cons by simp
qed simp

lemma sum_list_mset: "mset xs = mset ys \<Longrightarrow> sum_list xs = (sum_list ys :: int)"
  by (metis sum_mset_sum_list)

lemma sum_for_mset: "mset xs = mset ys \<Longrightarrow> sum_for k xs = sum_for k ys"
  unfolding sum_for_def by (rule sum_list_mset) simp

lemma magnitude_mset: "mset xs = mset ys \<Longrightarrow> magnitude xs = magnitude ys"
  unfolding magnitude_def by (rule sum_list_mset) simp

lemma sum_abs: "\<bar>sum_list (map f xs)\<bar> \<le> (sum_list (map (\<lambda>x. \<bar>f x :: int\<bar>) xs))"
  using sum_list_abs [of "map f xs"] by (simp add: comp_def)

text \<open>Summing by groups first does not change the totals of keys that depend on the group only.\<close>

lemma grouped_totals:
  assumes "mset R = mset (grouped g val xs)" "magnitude (map (\<lambda>x. (h (g x), val x)) xs) < 2 ^ 53"
  shows "totals (map (\<lambda>(k, v). (h k, v)) R) = totals (map (\<lambda>x. (h (g x), val x)) xs)"
proof -
  let ?ks = "remdups (map g xs)" and ?R = "map (\<lambda>(k, v). (h k, v)) R" and ?X = "map (\<lambda>x. (h (g x), val x)) xs"
  let ?G = "map (\<lambda>(k, v). (h k, v)) (grouped g val xs)"
  have m: "mset ?R = mset ?G" using assms(1) by simp
  have sub: "set (map g xs) \<subseteq> set ?ks" by simp
  have G: "?G = map (\<lambda>k. (h k, sum_list (map val (filter (\<lambda>x. g x = k) xs)))) ?ks"
    by (simp add: grouped_def)
  have "magnitude ?G \<le> sum_list (map (\<lambda>k. sum_list (map (\<lambda>x. \<bar>val x\<bar>) (filter (\<lambda>x. g x = k) xs))) ?ks)"
    unfolding magnitude_def G map_map comp_def snd_conv by (rule sum_list_mono) (rule sum_abs)
  also have "\<dots> = magnitude ?X"
    using sum_over_keys [OF distinct_remdups sub, of "\<lambda>x. \<bar>val x\<bar>"] by (simp add: magnitude_def comp_def)
  finally have small: "magnitude ?R < 2 ^ 53" using assms(2) magnitude_mset [OF m] by simp
  have keys: "fst ` set ?R = fst ` set ?X"
  proof -
    have "fst ` set ?R = fst ` set ?G" using mset_eq_setD [OF m] by (simp only:)
    also have "\<dots> = h ` set ?ks" unfolding G by (simp add: image_image)
    finally show ?thesis by (simp add: image_image)
  qed
  have "sum_for k ?R = sum_for k ?X" for k
  proof -
    have "sum_for k ?G = sum_list (map (\<lambda>j. sum_list (map val (filter (\<lambda>x. g x = j) xs))) (filter (\<lambda>j. h j = k) ?ks))"
      unfolding G by (simp add: sum_for_def filter_map comp_def)
    also have "\<dots> = sum_list (map (\<lambda>j. sum_list (map (\<lambda>x. if h (g x) = k then val x else 0) (filter (\<lambda>x. g x = j) xs))) ?ks)"
    proof -
      have "sum_list (map (\<lambda>j. sum_list (map val (filter (\<lambda>x. g x = j) xs))) (filter (\<lambda>j. h j = k) ks))
         = sum_list (map (\<lambda>j. sum_list (map (\<lambda>x. if h (g x) = k then val x else 0) (filter (\<lambda>x. g x = j) xs))) ks)" for ks
      proof (induction ks)
        case (Cons j ks)
        have "map (\<lambda>x. if h (g x) = k then val x else 0) (filter (\<lambda>x. g x = j) xs)
            = (if h j = k then map val (filter (\<lambda>x. g x = j) xs) else map (\<lambda>x. 0) (filter (\<lambda>x. g x = j) xs))"
          by auto
        then show ?case using Cons by simp
      qed simp
      then show ?thesis .
    qed
    also have "\<dots> = sum_list (map (\<lambda>x. if h (g x) = k then val x else 0) xs)"
      by (rule sum_over_keys [OF distinct_remdups sub])
    also have "\<dots> = sum_for k ?X" by (induction xs) (auto simp: sum_for_def)
    finally show ?thesis using sum_for_mset [OF m] by simp
  qed
  then show ?thesis using totals_exact [OF small] totals_exact [OF assms(2)] keys by (simp add: fun_eq_iff)
qed

section \<open>Snapshots from items\<close>

text \<open>An item is an owner, a namespace, a resource and a value.\<close>

type_synonym item = "string \<times> string \<times> string \<times> int"

definition owner_key :: "properties \<Rightarrow> string \<Rightarrow> string \<Rightarrow> string \<Rightarrow> resource_key" where
  "owner_key ps owner ns enum = (resource_key_of ps enum)\<lparr>rk_Owner := owner, rk_Namespace := ns\<rparr>"

definition owner_amount_key :: "properties \<Rightarrow> string \<Rightarrow> string \<Rightarrow> string \<Rightarrow> amount_key" where
  "owner_amount_key ps owner ns enum = (amount_key_of ps enum)\<lparr>ak_Owner := owner, ak_Namespace := ns\<rparr>"

definition snapshot_of :: "int \<Rightarrow> int \<Rightarrow> int \<Rightarrow> properties \<Rightarrow> bool \<Rightarrow> item list \<Rightarrow> item list \<Rightarrow> billing_snapshot" where
  "snapshot_of began start stop ps owners us as = \<lparr>bs_StartedAt = began, bs_FinishedAt = 0, bs_WindowStart = start,
     bs_WindowEnd = stop,
     bs_Resources = totals (map (\<lambda>(owner, ns, e, v). (resource_key_of ps e, v)) us),
     bs_OwnerResources = (if owners then totals (map (\<lambda>(owner, ns, e, v). (owner_key ps owner ns e, v)) us) else Map.empty),
     bs_ResourceAmounts = totals (map (\<lambda>(owner, ns, e, v). (amount_key_of ps e, v)) as),
     bs_OwnerResourceAmounts =
       (if owners then totals (map (\<lambda>(owner, ns, e, v). (owner_amount_key ps owner ns e, v)) as) else Map.empty)\<rparr>"

lemma totals_snoc: "totals (xs @ [(k, v)]) = add_total k (float_of_int v) (totals xs)"
  by (simp add: totals_def)

lemma add_resource_snapshot:
  "add_resource ps owners owner ns e v (snapshot_of began start stop ps owners us as)
     = snapshot_of began start stop ps owners (us @ [(owner, ns, e, v)]) as"
  by (simp add: add_resource_def snapshot_of_def totals_snoc owner_key_def Let_def)

lemma add_amount_snapshot:
  "add_amount ps owners owner ns e v (snapshot_of began start stop ps owners us as)
     = snapshot_of began start stop ps owners us (as @ [(owner, ns, e, v)])"
  by (simp add: add_amount_def snapshot_of_def totals_snoc owner_amount_key_def Let_def)

lemma newBillingSnapshot_items:
  "newBillingSnapshot began start stop = snapshot_of began start stop ps owners [] []"
  by (simp add: newBillingSnapshot_def snapshot_of_def totals_def)

definition row_item :: "billing_row \<Rightarrow> item" where
  "row_item r = (br_Owner r, br_Namespace r, br_Resource r, int64Value (br_Value r))"

lemma aggregateBillingRows_items:
  "aggregateBillingRows began ended rows amounts ps owners start stop
     = (snapshot_of began start stop ps owners (map row_item rows) (map row_item amounts))\<lparr>bs_FinishedAt := ended\<rparr>"
proof -
  have r: "foldl (\<lambda>s r. add_resource ps owners (br_Owner r) (br_Namespace r) (br_Resource r) (int64Value (br_Value r)) s)
      (snapshot_of began start stop ps owners us as) rs
    = snapshot_of began start stop ps owners (us @ map row_item rs) as" for us as rs
    by (induction rs arbitrary: us) (simp_all add: add_resource_snapshot row_item_def)
  have a: "foldl (\<lambda>s r. add_amount ps owners (br_Owner r) (br_Namespace r) (br_Resource r) (int64Value (br_Value r)) s)
      (snapshot_of began start stop ps owners us as) rs
    = snapshot_of began start stop ps owners us (as @ map row_item rs)" for us as rs
    by (induction rs arbitrary: as) (simp_all add: add_amount_snapshot row_item_def)
  show ?thesis
    unfolding aggregateBillingRows_def Let_def newBillingSnapshot_items [of began start stop ps owners] r a by simp
qed

definition cost_items :: "string \<Rightarrow> string \<Rightarrow> string \<Rightarrow> bson \<Rightarrow> item list" where
  "cost_items source owner ns cost = (case cost of
     BDoc fs \<Rightarrow> map (\<lambda>(e, v). (owner, ns, e, v)) (usedMap (field_or_nil source cost)) | _ \<Rightarrow> [])"

definition doc_items :: "string \<Rightarrow> bson \<Rightarrow> item list" where
  "doc_items source d = concat (map (cost_items source (stringValue (field_or_nil ''owner'' d))
     (stringValue (field_or_nil ''namespace'' d))) (arrayValue (field_or_nil ''app_costs'' d)))"

lemma aggregateBillingDocuments_items:
  "aggregateBillingDocuments began ended docs ps start stop
     = (snapshot_of began start stop ps True (concat (map (doc_items ''used'') docs))
         (concat (map (doc_items ''used_amount'') docs)))\<lparr>bs_FinishedAt := ended\<rparr>"
proof -
  let ?S = "snapshot_of began start stop ps True"
  have r: "foldl (\<lambda>s (enum, v). add_resource ps True owner ns enum v s) (?S us as) xs
    = ?S (us @ map (\<lambda>(e, v). (owner, ns, e, v)) xs) as" for us as xs owner ns
    by (induction xs arbitrary: us) (auto simp: add_resource_snapshot)
  have a: "foldl (\<lambda>s (enum, v). add_amount ps True owner ns enum v s) (?S us as) xs
    = ?S us (as @ map (\<lambda>(e, v). (owner, ns, e, v)) xs)" for us as xs owner ns
    by (induction xs arbitrary: as) (auto simp: add_amount_snapshot)
  have c: "aggregate_cost ps owner ns (?S us as) cost
    = ?S (us @ cost_items ''used'' owner ns cost) (as @ cost_items ''used_amount'' owner ns cost)" for us as cost owner ns
    by (simp add: aggregate_cost_def cost_items_def r a split: bson.splits)
  have d: "foldl (aggregate_cost ps owner ns) (?S us as) costs
    = ?S (us @ concat (map (cost_items ''used'' owner ns) costs)) (as @ concat (map (cost_items ''used_amount'' owner ns) costs))"
    for us as costs owner ns
    by (induction costs arbitrary: us as) (simp_all add: c)
  have "foldl (\<lambda>s d. foldl (aggregate_cost ps (stringValue (field_or_nil ''owner'' d)) (stringValue (field_or_nil ''namespace'' d)))
          s (arrayValue (field_or_nil ''app_costs'' d))) (?S us as) docs
    = ?S (us @ concat (map (doc_items ''used'') docs)) (as @ concat (map (doc_items ''used_amount'') docs))" for us as
    by (induction docs arbitrary: us as) (simp_all add: d doc_items_def)
  then show ?thesis
    unfolding aggregateBillingDocuments_def newBillingSnapshot_items [of began start stop ps True] by simp
qed

text \<open>The group of an item: with the owners, or by the resource alone.\<close>

definition item_group :: "bool \<Rightarrow> item \<Rightarrow> string \<times> string \<times> string" where
  "item_group owners x = (case x of (owner, ns, e, v) \<Rightarrow> if owners then (owner, ns, e) else ([], [], e))"

definition item_value :: "item \<Rightarrow> int" where
  "item_value x = (case x of (owner, ns, e, v) \<Rightarrow> v)"

definition row_of_group :: "(string \<times> string \<times> string) \<times> int \<Rightarrow> item" where
  "row_of_group x = (case x of ((owner, ns, e), v) \<Rightarrow> (owner, ns, e, v))"

lemma grouped_snapshot:
  assumes "mset U = mset (grouped (item_group owners) item_value us)"
    "mset A = mset (grouped (item_group owners) item_value as)"
    "sum_list (map (\<lambda>x. \<bar>item_value x\<bar>) us) < 2 ^ 53" "sum_list (map (\<lambda>x. \<bar>item_value x\<bar>) as) < 2 ^ 53"
  shows "snapshot_of began start stop ps owners (map row_of_group U) (map row_of_group A)
    = snapshot_of began start stop ps owners us as"
proof -
  have total: "totals (map (\<lambda>(owner, ns, e, v). (f owner ns e, v)) (map row_of_group R))
      = totals (map (\<lambda>(owner, ns, e, v). (f owner ns e, v)) xs)"
    if R: "mset R = mset (grouped (item_group owners) item_value xs)" "sum_list (map (\<lambda>x. \<bar>item_value x\<bar>) xs) < 2 ^ 53"
      and f: "owners \<or> (\<forall>o1 n1 o2 n2 e. f o1 n1 e = f o2 n2 e)" for f :: "string \<Rightarrow> string \<Rightarrow> string \<Rightarrow> 'k" and R xs
  proof -
    let ?h = "\<lambda>(owner, ns, e). f owner ns e"
    let ?F = "\<lambda>(owner, ns, e, v). (f owner ns e, v)"
    have rows: "?F \<circ> row_of_group = (\<lambda>(k, v). (?h k, v))" by (auto simp: row_of_group_def fun_eq_iff)
    have items: "?F = (\<lambda>x. (?h (item_group owners x), item_value x))"
      using f by (auto simp: item_group_def item_value_def fun_eq_iff)
    have small: "magnitude (map (\<lambda>x. (?h (item_group owners x), item_value x)) xs) < 2 ^ 53"
      using R(2) by (simp add: magnitude_def comp_def)
    have "totals (map ?F (map row_of_group R)) = totals (map (\<lambda>(k, v). (?h k, v)) R)" by (simp add: rows)
    also have "\<dots> = totals (map ?F xs)" unfolding items by (rule grouped_totals [OF R(1) small])
    finally show ?thesis .
  qed
  show ?thesis
    using total [OF assms(1,3), of "\<lambda>owner ns e. resource_key_of ps e"] total [OF assms(1,3), of "owner_key ps"]
      total [OF assms(2,4), of "\<lambda>owner ns e. amount_key_of ps e"] total [OF assms(2,4), of "owner_amount_key ps"]
    unfolding snapshot_of_def by simp
qed

section \<open>The documents\<close>

definition int_map :: "bson \<Rightarrow> bool" where
  "int_map v \<longleftrightarrow> v = BNull \<or> (\<exists>fs. v = BDoc fs \<and> (\<forall>x \<in> set fs. \<exists>i. snd x = BInt i))"

text \<open>A record of the collection: its fields have the types that the writer gives them.\<close>

definition billing_doc :: "bson \<Rightarrow> bool" where
  "billing_doc d \<longleftrightarrow> (\<exists>o' n cs. doc_field ''owner'' d = Some (BString o') \<and> doc_field ''namespace'' d = Some (BString n)
     \<and> doc_field ''app_costs'' d = Some (BArr cs)
     \<and> (\<forall>c \<in> set cs. (\<exists>fs. c = BDoc fs) \<and> int_map (field_or_nil ''used'' c) \<and> int_map (field_or_nil ''used_amount'' c)))"

text \<open>A consumption record of the window.\<close>

definition in_window :: "int \<Rightarrow> int \<Rightarrow> bson \<Rightarrow> bool" where
  "in_window start stop d \<longleftrightarrow> doc_field ''type'' d = Some (BInt 0)
     \<and> (case doc_field ''time'' d of Some (BTime t) \<Rightarrow> start < t \<and> t \<le> stop | _ \<Rightarrow> False)"

lemma match_window:
  "list_all (match_field d) [(''type'', BInt 0), (''time'', BDoc [(''$gt'', BTime start), (''$lte'', BTime stop)])]
     \<longleftrightarrow> in_window start stop d"
  by (simp add: match_field_def in_window_def compare_time_def split: option.splits bson.splits)

section \<open>One document\<close>

lemma doc_field_set:
  "doc_field j (set_field k x (BDoc fs)) = (if j = k then map_option (\<lambda>_. x) (map_of fs k) else map_of fs j)"
  by (induction fs) auto

lemma map_of_opt_field: "map_of (opt_field k v) j = (if j = k then v else None)"
  by (cases v) simp_all

lemma project_field_opt: "\<exists>v. project_field d x = opt_field (fst x) v"
proof (cases "snd x")
  case (BInt n)
  then show ?thesis by (cases "n = 0") (auto simp: project_field_def intro: exI [of _ None])
qed (auto simp: project_field_def)

text \<open>A field of the result is what its own specification gives.\<close>

lemma project_lookup:
  assumes "distinct (map fst specs)" "(j, e) \<in> set specs" "j \<noteq> ''_id''" "project_field d (j, e) = opt_field j v"
  shows "doc_field j (project_doc specs d) = v"
proof -
  have none: "map_of (concat (map (project_field d) xs)) j = None" if "j \<notin> fst ` set xs" for xs
    using that
  proof (induction xs)
    case (Cons x xs)
    obtain w where "project_field d x = opt_field (fst x) w" using project_field_opt by blast
    then show ?case using Cons by (simp add: map_add_def map_of_opt_field)
  qed simp
  have "map_of (concat (map (project_field d) specs)) j = v"
    using assms(1,2)
  proof (induction specs)
    case (Cons x specs)
    show ?case
    proof (cases "x = (j, e)")
      case True
      then have "j \<notin> fst ` set specs" using Cons.prems(1) by simp
      then show ?thesis using True assms(4) none by (simp add: map_add_def map_of_opt_field split: option.split)
    next
      case False
      then have mem: "(j, e) \<in> set specs" using Cons.prems(2) by auto
      then have "j \<in> fst ` set specs" by (metis fst_conv imageI)
      then have "fst x \<noteq> j" using Cons.prems(1) by auto
      moreover obtain w where "project_field d x = opt_field (fst x) w" using project_field_opt by blast
      ultimately show ?thesis using Cons.IH Cons.prems(1) mem by (simp add: map_add_def map_of_opt_field split: option.split)
    qed
  qed simp
  then show ?thesis using assms(3)
    by (auto simp: project_doc_def map_add_def map_of_opt_field split: option.split)
qed

lemma project_kept: "project_field d (k, BInt 1) = opt_field k (doc_field k d)"
  by (simp add: project_field_def)

lemma expr_path: "expr_value (BString (CHR ''$'' # p)) d = path_get (Split CHR ''.'' p) d"
  by (simp add: expr_value_def)

definition keep_stage :: "bool \<Rightarrow> (string \<times> bson) list" where
  "keep_stage owners = [(''app_costs'', BInt 1)] @ owner_fields owners"

definition array_stage :: "string \<Rightarrow> string \<Rightarrow> bool \<Rightarrow> (string \<times> bson) list" where
  "array_stage name source owners = [(name, BDoc [(''$objectToArray'', BDoc [(''$ifNull'',
     BArr [BString (''$app_costs.'' @ source), BDoc []])])])] @ owner_fields owners"

definition plain_name :: "string \<Rightarrow> bool" where
  "plain_name s \<longleftrightarrow> CHR ''.'' \<notin> set s \<and> s \<notin> {''_id'', ''app_costs'', ''owner'', ''namespace'', ''resource''}"

text \<open>The document of one item, when the arrays have been unwound.\<close>

definition item_doc :: "string \<Rightarrow> bool \<Rightarrow> item \<Rightarrow> bson \<Rightarrow> bool" where
  "item_doc name owners x d \<longleftrightarrow> (case x of (owner, ns, e, v) \<Rightarrow>
     doc_field name d = Some (BDoc [(''k'', BString e), (''v'', BInt v)])
     \<and> (owners \<longrightarrow> doc_field ''owner'' d = Some (BString owner) \<and> doc_field ''namespace'' d = Some (BString ns)))"

definition cost_doc :: "bool \<Rightarrow> string \<Rightarrow> string \<Rightarrow> bson \<Rightarrow> bson \<Rightarrow> bool" where
  "cost_doc owners owner ns c d \<longleftrightarrow> (\<exists>fs. d = BDoc fs) \<and> doc_field ''app_costs'' d = Some c
     \<and> (owners \<longrightarrow> doc_field ''owner'' d = Some (BString owner) \<and> doc_field ''namespace'' d = Some (BString ns))"

lemma kept_costs:
  assumes "doc_field ''owner'' d = Some (BString owner)" "doc_field ''namespace'' d = Some (BString ns)"
    "doc_field ''app_costs'' d = Some (BArr cs)"
  shows "list_all2 (cost_doc owners owner ns) cs (unwind_doc ''app_costs'' (project_doc (keep_stage owners) d))"
proof -
  let ?p = "project_doc (keep_stage owners) d"
  have p: "\<exists>fs. ?p = BDoc fs" by (simp add: project_doc_def)
  have specs: "distinct (map fst (keep_stage owners))" "(''app_costs'', BInt 1) \<in> set (keep_stage owners)"
    "owners \<Longrightarrow> (''owner'', BInt 1) \<in> set (keep_stage owners) \<and> (''namespace'', BInt 1) \<in> set (keep_stage owners)"
    by (cases owners; simp add: keep_stage_def owner_fields_def)+
  have f: "doc_field ''app_costs'' ?p = Some (BArr cs)"
    "owners \<Longrightarrow> doc_field ''owner'' ?p = Some (BString owner) \<and> doc_field ''namespace'' ?p = Some (BString ns)"
    using project_lookup [OF specs(1) specs(2) _ project_kept] project_lookup [OF specs(1) _ _ project_kept] specs(3) assms
    by simp_all
  obtain fs where fs: "?p = BDoc fs" using p by blast
  have "unwind_doc ''app_costs'' ?p = map (\<lambda>c. set_field ''app_costs'' c ?p) cs"
    using f(1) by (simp add: unwind_doc_def)
  moreover have "cost_doc owners owner ns c (set_field ''app_costs'' c ?p)" for c
    using f unfolding fs cost_doc_def doc_field_set by simp
  ultimately show ?thesis by (simp add: list_all2_conv_all_nth)
qed

lemma cost_unwound:
  assumes "cost_doc owners owner ns c d" "c = BDoc gs" "int_map (field_or_nil source c)" "plain_name name" "CHR ''.'' \<notin> set source"
  shows "list_all2 (item_doc name owners) (cost_items source owner ns c)
    (unwind_doc name (project_doc (array_stage name source owners) d))"
proof -
  let ?p = "project_doc (array_stage name source owners) d"
  have name: "name \<noteq> ''_id''" "name \<noteq> ''owner''" "name \<noteq> ''namespace''" using assms(4) by (simp_all add: plain_name_def)
  have "Split CHR ''.'' (''app_costs.'' @ source) = [''app_costs'', source]"
    using Split_append [of "CHR ''.''" "''app_costs''" source] Split_single [OF assms(5)] by simp
  then have val: "expr_value (BString (''$app_costs.'' @ source)) d = doc_field source c"
    using assms(1) by (simp add: expr_path cost_doc_def split: option.splits)
  have arr: "project_field d (name, BDoc [(''$objectToArray'', BDoc [(''$ifNull'',
     BArr [BString (''$app_costs.'' @ source), BDoc []])])])
    = [(name, object_to_array (if_null (doc_field source c) (BDoc [])))]"
    using val by (simp add: project_field_def computed_def doc_fields_def)
  obtain fs where fs: "?p = BDoc fs" by (simp add: project_doc_def)
  have lookup: "doc_field name ?p = Some (object_to_array (if_null (doc_field source c) (BDoc [])))"
    "owners \<Longrightarrow> doc_field ''owner'' ?p = Some (BString owner) \<and> doc_field ''namespace'' ?p = Some (BString ns)"
  proof -
    have specs: "distinct (map fst (array_stage name source owners))"
      "(name, BDoc [(''$objectToArray'', BDoc [(''$ifNull'', BArr [BString (''$app_costs.'' @ source), BDoc []])])])
         \<in> set (array_stage name source owners)"
      "owners \<Longrightarrow> (''owner'', BInt 1) \<in> set (array_stage name source owners)
         \<and> (''namespace'', BInt 1) \<in> set (array_stage name source owners)"
      using name by (cases owners; simp add: array_stage_def owner_fields_def)+
    show "doc_field name ?p = Some (object_to_array (if_null (doc_field source c) (BDoc [])))"
      by (rule project_lookup [OF specs(1,2) name(1)]) (simp only: arr opt_field.simps)
    show "doc_field ''owner'' ?p = Some (BString owner) \<and> doc_field ''namespace'' ?p = Some (BString ns)" if owners
      using project_lookup [OF specs(1) _ _ project_kept] specs(3) that assms(1) by (simp add: cost_doc_def)
  qed
  obtain xs where xs: "if_null (doc_field source c) (BDoc []) = BDoc xs" "\<forall>x \<in> set xs. \<exists>i. snd x = BInt i"
    "usedMap (field_or_nil source c) = map (\<lambda>(k, x). (k, int64Value x)) xs"
    using assms(3) by (auto simp: int_map_def field_or_nil_def if_null_def usedMap_def split: option.splits)
  have unwound: "unwind_doc name ?p = map (\<lambda>x. set_field name (BDoc [(''k'', BString (fst x)), (''v'', snd x)]) ?p) xs"
    using lookup(1) by (simp add: unwind_doc_def xs(1) object_to_array_def comp_def case_prod_unfold)
  have each: "item_doc name owners (owner, ns, fst x, int64Value (snd x))
      (set_field name (BDoc [(''k'', BString (fst x)), (''v'', snd x)]) ?p)" if "x \<in> set xs" for x
    using lookup name bspec [OF xs(2) that] unfolding fs item_doc_def doc_field_set by (auto simp: int64Value_def)
  have items: "cost_items source owner ns c = map (\<lambda>x. (owner, ns, fst x, int64Value (snd x))) xs"
    using assms(2) xs(3) by (simp add: cost_items_def comp_def case_prod_unfold)
  show ?thesis unfolding items unwound list_all2_map1 list_all2_map2 by (rule list.rel_refl_strong) (rule each)
qed

lemma list_all2_concat_map:
  "list_all2 (\<lambda>x y. list_all2 R (f x) (g y)) xs ys \<Longrightarrow> list_all2 R (concat (map f xs)) (concat (map g ys))"
  by (induction rule: list_all2_induct) (simp_all add: list_all2_appendI)

lemma doc_unwound:
  assumes "billing_doc d" "plain_name name" "source \<in> {''used'', ''used_amount''}"
  shows "list_all2 (item_doc name owners) (doc_items source d)
    (concat (map (\<lambda>x. unwind_doc name (project_doc (array_stage name source owners) x))
       (unwind_doc ''app_costs'' (project_doc (keep_stage owners) d))))"
proof -
  obtain owner ns cs where d: "doc_field ''owner'' d = Some (BString owner)" "doc_field ''namespace'' d = Some (BString ns)"
     "doc_field ''app_costs'' d = Some (BArr cs)"
     "\<forall>c \<in> set cs. (\<exists>fs. c = BDoc fs) \<and> int_map (field_or_nil ''used'' c) \<and> int_map (field_or_nil ''used_amount'' c)"
    using assms(1) by (auto simp: billing_doc_def)
  have src: "CHR ''.'' \<notin> set source" using assms(3) by auto
  have items: "doc_items source d = concat (map (cost_items source owner ns) cs)"
    using d by (simp add: doc_items_def field_or_nil_def stringValue_def arrayValue_def)
  have "list_all2 (\<lambda>c x. list_all2 (item_doc name owners) (cost_items source owner ns c)
      (unwind_doc name (project_doc (array_stage name source owners) x))) cs
    (unwind_doc ''app_costs'' (project_doc (keep_stage owners) d))"
  proof (rule list_all2_mono [where P = "\<lambda>c x. c \<in> set cs \<and> cost_doc owners owner ns c x"])
    show "list_all2 (\<lambda>c x. c \<in> set cs \<and> cost_doc owners owner ns c x) cs
        (unwind_doc ''app_costs'' (project_doc (keep_stage owners) d))"
      using kept_costs [OF d(1-3), of owners] by (simp add: list_all2_conv_all_nth)
    show "list_all2 (item_doc name owners) (cost_items source owner ns c)
        (unwind_doc name (project_doc (array_stage name source owners) x))"
      if "c \<in> set cs \<and> cost_doc owners owner ns c x" for c x
    proof -
      have c: "(\<exists>fs. c = BDoc fs) \<and> int_map (field_or_nil ''used'' c) \<and> int_map (field_or_nil ''used_amount'' c)"
        using bspec [OF d(4) conjunct1 [OF that]] .
      then obtain gs where gs: "c = BDoc gs" by (elim conjE exE)
      have "int_map (field_or_nil source c)" using c assms(3) by (elim insertE) simp_all
      from cost_unwound [OF conjunct2 [OF that] gs this assms(2) src] show ?thesis .
    qed
  qed
  then show ?thesis unfolding items by (rule list_all2_concat_map)
qed

section \<open>The whole pipeline\<close>

definition group_stage :: "string \<Rightarrow> bool \<Rightarrow> (string \<times> bson) list" where
  "group_stage name owners = [
     (''_id'', BDoc ((if owners then [bstr ''owner'' ''$owner'', bstr ''namespace'' ''$namespace''] else [])
        @ [bstr ''resource'' (''$'' @ name @ ''.k'')])),
     (name, BDoc [bstr ''$sum'' (''$'' @ name @ ''.v'')])]"

definition last_stage :: "string \<Rightarrow> bool \<Rightarrow> (string \<times> bson) list" where
  "last_stage name owners = [(''_id'', BInt 0)]
     @ (if owners then [bstr ''owner'' ''$_id.owner'', bstr ''namespace'' ''$_id.namespace''] else [])
     @ [bstr ''resource'' ''$_id.resource'', (name, BInt 1)]"

definition unwound_docs :: "string \<Rightarrow> string \<Rightarrow> bool \<Rightarrow> bson \<Rightarrow> bson list" where
  "unwound_docs name source owners d = concat (map (\<lambda>x. unwind_doc name (project_doc (array_stage name source owners) x))
     (unwind_doc ''app_costs'' (project_doc (keep_stage owners) d)))"

lemma concat_map_concat: "concat (map f (concat (map g xs))) = concat (map (\<lambda>x. concat (map f (g x))) xs)"
  by (induction xs) simp_all

lemma usage_stages_eq: "usage_stages name source owners =
   [BDoc [(''$project'', BDoc (keep_stage owners))], BDoc [bstr ''$unwind'' ''$app_costs''],
    BDoc [(''$project'', BDoc (array_stage name source owners))], BDoc [bstr ''$unwind'' (''$'' @ name)],
    BDoc [(''$group'', BDoc (group_stage name owners))], BDoc [(''$project'', BDoc (last_stage name owners))]]"
  by (simp only: usage_stages_def keep_stage_def array_stage_def group_stage_def last_stage_def append_Cons append_Nil)

lemma run_stages:
  "run_stage (BDoc [(''$project'', BDoc specs)]) docs = map (project_doc specs) docs"
  "run_stage (BDoc [bstr ''$unwind'' (''$'' @ k)]) docs = concat (map (unwind_doc k) docs)"
  "run_stage (BDoc [(''$group'', BDoc arg)]) docs = group_docs arg docs"
  "run_stage (BDoc [(''$match'', BDoc conds)]) docs = filter (\<lambda>d. list_all (match_field d) conds) docs"
  by (simp_all add: run_stage_def doc_fields_def bstr_def)

lemma run_usage_pipeline:
  "run_pipeline (billingAggregatePipeline start stop (usage_stages name source owners)) docs
     = map (project_doc (last_stage name owners)) (group_docs (group_stage name owners)
         (concat (map (unwound_docs name source owners) (filter (in_window start stop) docs))))"
proof -
  have u: "run_stage (BDoc [bstr ''$unwind'' ''$app_costs'']) ds = concat (map (unwind_doc ''app_costs'') ds)" for ds
    using run_stages(2) [of "''app_costs''"] by simp
  show ?thesis
    unfolding run_pipeline_def billingAggregatePipeline_def usage_stages_eq foldl.simps u run_stages match_window
      concat_map_concat map_map unwound_docs_def comp_def
    by (simp add: concat_map_concat comp_def)
qed

definition enc_group :: "bool \<Rightarrow> string \<times> string \<times> string \<Rightarrow> (string \<times> bson) list" where
  "enc_group owners k = (case k of (owner, ns, e) \<Rightarrow>
     (if owners then [(''owner'', BString owner), (''namespace'', BString ns)] else []) @ [(''resource'', BString e)])"

lemma path_name: "plain_name name \<Longrightarrow> expr_value (BString (''$'' @ name @ ''.'' @ k)) d = path_get (name # Split CHR ''.'' k) d"
  using Split_append [of "CHR ''.''" name k] by (simp add: expr_path plain_name_def)

lemma item_doc_group:
  assumes "item_doc name owners x d" "plain_name name"
  shows "group_key (doc_fields (snd (group_stage name owners ! 0))) d = enc_group owners (item_group owners x)"
    "int_or_zero (expr_value (snd (hd (doc_fields (snd (group_stage name owners ! 1))))) d) = item_value x"
proof -
  obtain owner ns e v where x: "x = (owner, ns, e, v)" by (cases x)
  have n: "doc_field name d = Some (BDoc [(''k'', BString e), (''v'', BInt v)])"
    "owners \<Longrightarrow> doc_field ''owner'' d = Some (BString owner) \<and> doc_field ''namespace'' d = Some (BString ns)"
    using assms(1) by (simp_all add: x item_doc_def)
  have k: "expr_value (BString (CHR ''$'' # name @ ''.k'')) d = Some (BString e)"
    and v: "expr_value (BString (CHR ''$'' # name @ ''.v'')) d = Some (BInt v)"
    using path_name [OF assms(2), of "''k''" d] path_name [OF assms(2), of "''v''" d] n(1) by simp_all
  have o': "owners \<Longrightarrow> expr_value (BString ''$owner'') d = Some (BString owner)"
    "owners \<Longrightarrow> expr_value (BString ''$namespace'') d = Some (BString ns)"
    using n(2) by (simp_all add: expr_path)
  show "group_key (doc_fields (snd (group_stage name owners ! 0))) d = enc_group owners (item_group owners x)"
    using k o' by (cases owners) (simp_all add: group_stage_def doc_fields_def group_key_def bstr_def x item_group_def enc_group_def)
  show "int_or_zero (expr_value (snd (hd (doc_fields (snd (group_stage name owners ! 1))))) d) = item_value x"
    using v by (simp add: group_stage_def doc_fields_def bstr_def x item_value_def)
qed

lemma remdups_map_inj: "inj_on f (set xs) \<Longrightarrow> remdups (map f xs) = map f (remdups xs)"
  by (induction xs) (auto simp: inj_on_def)

definition group_doc :: "string \<Rightarrow> bool \<Rightarrow> (string \<times> string \<times> string) \<times> int \<Rightarrow> bson" where
  "group_doc name owners x = BDoc [(''_id'', BDoc (enc_group owners (fst x))), (name, BInt (snd x))]"

lemma group_docs_items:
  assumes "list_all2 (item_doc name owners) items docs" "plain_name name"
  shows "group_docs (group_stage name owners) docs
    = map (group_doc name owners) (grouped (item_group owners) item_value items)"
proof -
  let ?key = "group_key (doc_fields (snd (group_stage name owners ! 0)))"
  let ?val = "\<lambda>d. int_or_zero (expr_value (snd (hd (doc_fields (snd (group_stage name owners ! 1))))) d)"
  let ?g = "item_group owners"
  have keys: "map ?key docs = map (enc_group owners) (map ?g items)"
    using assms(1) by (induction rule: list_all2_induct) (simp_all add: item_doc_group assms(2))
  have inj: "enc_group owners (?g x) = enc_group owners (?g y) \<longleftrightarrow> ?g x = ?g y" for x y
    by (cases x; cases y) (auto simp: enc_group_def item_group_def)
  have r: "remdups (map ?key docs) = map (enc_group owners) (remdups (map ?g items))"
    unfolding keys by (rule remdups_map_inj) (auto simp: inj_on_def inj)
  have sums: "sum_list (map ?val (filter (\<lambda>d. ?key d = enc_group owners (?g y)) docs))
      = sum_list (map item_value (filter (\<lambda>x. ?g x = ?g y) items))" for y
    using assms(1) by (induction rule: list_all2_induct) (simp_all add: item_doc_group item_doc_group(2) [unfolded One_nat_def] assms(2) inj)
  have "fst (group_stage name owners ! 1) = name" by (simp add: group_stage_def)
  then show ?thesis
    unfolding group_docs_def Let_def r map_map grouped_def
    by (auto simp: group_doc_def sums [unfolded One_nat_def])
qed

lemma decode_group:
  assumes "plain_name name" "\<not> owners \<longrightarrow> fst (fst x) = [] \<and> fst (snd (fst x)) = []"
  shows "\<exists>r. decode_row name (project_doc (last_stage name owners) (group_doc name owners x)) = Some r
    \<and> row_item r = row_of_group x"
proof -
  obtain owner ns e v where x: "x = ((owner, ns, e), v)" by (metis prod.collapse)
  have name: "name \<noteq> ''_id''" "name \<noteq> ''owner''" "name \<noteq> ''namespace''" "name \<noteq> ''resource''"
    using assms(1) by (simp_all add: plain_name_def)
  let ?d = "group_doc name owners x" and ?p = "project_doc (last_stage name owners) (group_doc name owners x)"
  have id: "expr_value (BString (''$_id.'' @ k)) ?d = map_of (enc_group owners (owner, ns, e)) k" if "CHR ''.'' \<notin> set k" for k
    using Split_append [of "CHR ''.''" "''_id''" k] Split_single [OF that]
    by (simp add: expr_path group_doc_def x split: option.split)
  have p: "?p = BDoc ((if owners then [(''owner'', BString owner), (''namespace'', BString ns)] else [])
      @ [(''resource'', BString e), (name, BInt v)])"
    using id [of "''owner''"] id [of "''namespace''"] id [of "''resource''"] name
    by (cases owners) (simp_all add: project_doc_def last_stage_def project_field_def bstr_def computed_def doc_fields_def
        enc_group_def group_doc_def x)
  have "decode_row name ?p = Some \<lparr>br_Owner = owner, br_Namespace = ns, br_Resource = e, br_Value = BInt v\<rparr>"
    using assms(2) name unfolding p
    by (cases owners) (simp_all add: decode_row_def decode_string_def field_or_nil_def x)
  then show ?thesis by (simp add: row_item_def x row_of_group_def int64Value_def)
qed

lemma mset_map_order:
  "mset ys = mset (map f xs) \<Longrightarrow> \<exists>zs. ys = map f zs \<and> mset zs = mset xs"
proof (induction ys arbitrary: xs)
  case (Cons y ys)
  have "y \<in> set (map f xs)" using mset_eq_setD [OF Cons.prems] by auto
  then obtain as b bs where xs: "xs = as @ b # bs" "f b = y" by (metis imageE list.set_map split_list)
  then have "mset ys = mset (map f (as @ bs))" using Cons.prems by simp
  then obtain zs where "ys = map f zs" "mset zs = mset (as @ bs)" using Cons.IH by blast
  then have "y # ys = map f (b # zs) \<and> mset (b # zs) = mset xs" using xs by simp
  then show ?case by (rule exI [of _ "b # zs"])
qed simp

lemma decode_rows_all:
  "(\<And>x. x \<in> set xs \<Longrightarrow> \<exists>r. decode_row name (f x) = Some r \<and> row_item r = h x) \<Longrightarrow>
     \<exists>rs. decode_rows name (map f xs) = Some rs \<and> map row_item rs = map h xs"
proof (induction xs)
  case (Cons x xs)
  obtain r where "decode_row name (f x) = Some r" "row_item r = h x" using Cons.prems by auto
  moreover obtain rs where "decode_rows name (map f xs) = Some rs" "map row_item rs = map h xs"
    using Cons by auto
  ultimately show ?case by simp
qed simp

text \<open>The rows of a query are the sums of the items by group.\<close>

lemma query_rows_grouped:
  assumes "answers M cfg docs (billingAggregatePipeline start stop (usage_stages name source owners))"
    "\<forall>d \<in> set docs. in_window start stop d \<longrightarrow> billing_doc d" "plain_name name" "source \<in> {''used'', ''used_amount''}"
  shows "\<exists>rows U. query_rows what name M cfg (billingAggregatePipeline start stop (usage_stages name source owners)) = Inr rows
    \<and> map row_item rows = map row_of_group U
    \<and> mset U = mset (grouped (item_group owners) item_value (concat (map (doc_items source) (filter (in_window start stop) docs))))"
proof -
  let ?ds = "filter (in_window start stop) docs" and ?items = "concat (map (doc_items source) (filter (in_window start stop) docs))"
  let ?f = "\<lambda>x. project_doc (last_stage name owners) (group_doc name owners x)"
  have "list_all2 (\<lambda>d d'. list_all2 (item_doc name owners) (doc_items source d) (unwound_docs name source owners d')) ?ds ?ds"
    by (rule list.rel_refl_strong) (use assms doc_unwound in \<open>auto simp: unwound_docs_def\<close>)
  then have "list_all2 (item_doc name owners) ?items (concat (map (unwound_docs name source owners) ?ds))"
    by (rule list_all2_concat_map)
  from group_docs_items [OF this assms(3)]
  have run: "run_pipeline (billingAggregatePipeline start stop (usage_stages name source owners)) docs
      = map ?f (grouped (item_group owners) item_value ?items)"
    by (simp add: run_usage_pipeline)
  obtain out where out: "mg_Aggregate M (blc_Database cfg) (blc_BillingCollection cfg)
      (billingAggregatePipeline start stop (usage_stages name source owners)) = Inr out"
    "mset out = mset (map ?f (grouped (item_group owners) item_value ?items))"
    using assms(1) unfolding answers_def run by blast
  obtain U where U: "out = map ?f U" "mset U = mset (grouped (item_group owners) item_value ?items)"
    using mset_map_order [OF out(2)] by blast
  have "\<not> owners \<longrightarrow> fst (fst x) = [] \<and> fst (snd (fst x)) = []" if "x \<in> set U" for x
    using that mset_eq_setD [OF U(2)] by (auto simp: grouped_def item_group_def split: prod.splits)
  then have "\<exists>rs. decode_rows name (map ?f U) = Some rs \<and> map row_item rs = map row_of_group U"
    by (intro decode_rows_all) (use decode_group [OF assms(3)] in blast)
  then obtain rs where "decode_rows name out = Some rs" "map row_item rs = map row_of_group U" unfolding U(1) by blast
  then have "query_rows what name M cfg (billingAggregatePipeline start stop (usage_stages name source owners)) = Inr rs
    \<and> map row_item rs = map row_of_group U"
    by (simp add: query_rows_def out(1))
  then show ?thesis using U(2) by blast
qed

lemma aggregates_of_documents:
  assumes "answers M cfg docs (billingAggregatePipeline start stop (billingResourceUsageStages owners))"
    "answers M cfg docs (billingAggregatePipeline start stop (billingResourceAmountStages owners))"
    "ds = filter (in_window start stop) docs" "\<forall>d \<in> set ds. billing_doc d"
    "sum_list (map (\<lambda>x. \<bar>item_value x\<bar>) (concat (map (doc_items ''used'') ds))) < 2 ^ 53"
    "sum_list (map (\<lambda>x. \<bar>item_value x\<bar>) (concat (map (doc_items ''used_amount'') ds))) < 2 ^ 53"
    "s = aggregateBillingDocuments began ended ds ps start stop"
  shows "\<exists>rows amounts. queryBillingAggregates M cfg start stop owners = Inr (rows, amounts)
    \<and> aggregateBillingRows began ended rows amounts ps owners start stop
      = (if owners then s else s\<lparr>bs_OwnerResources := Map.empty, bs_OwnerResourceAmounts := Map.empty\<rparr>)"
proof -
  have docs: "\<forall>d \<in> set docs. in_window start stop d \<longrightarrow> billing_doc d" using assms(3,4) by simp
  have names: "plain_name ''used''" "plain_name ''amount''" by (simp_all add: plain_name_def)
  obtain rows U where R: "queryBillingResourceRows M cfg start stop owners = Inr rows" "map row_item rows = map row_of_group U"
    "mset U = mset (grouped (item_group owners) item_value (concat (map (doc_items ''used'') ds)))"
    using query_rows_grouped [OF assms(1) [unfolded billingResourceUsageStages_def] docs names(1), of "''resource usage''"]
    unfolding queryBillingResourceRows_def billingResourceUsageStages_def assms(3) by auto
  obtain amounts A where A: "queryBillingResourceAmountRows M cfg start stop owners = Inr amounts"
    "map row_item amounts = map row_of_group A"
    "mset A = mset (grouped (item_group owners) item_value (concat (map (doc_items ''used_amount'') ds)))"
    using query_rows_grouped [OF assms(2) [unfolded billingResourceAmountStages_def] docs names(2), of "''resource amounts''"]
    unfolding queryBillingResourceAmountRows_def billingResourceAmountStages_def assms(3) by auto
  have "queryBillingAggregates M cfg start stop owners = Inr (rows, amounts)"
    by (simp add: queryBillingAggregates_def R(1) A(1))
  moreover have "aggregateBillingRows began ended rows amounts ps owners start stop
      = (if owners then s else s\<lparr>bs_OwnerResources := Map.empty, bs_OwnerResourceAmounts := Map.empty\<rparr>)"
    unfolding aggregateBillingRows_items R(2) A(2) grouped_snapshot [OF R(3) A(3) assms(5,6)] assms(7)
      aggregateBillingDocuments_items by (simp add: snapshot_of_def)
  ultimately show ?thesis by blast
qed

text \<open>C6. The two aggregation pipelines with the summing of their rows give the same snapshot as going through the
  consumption records of the window one by one: for every order in which the database returns the groups,
  with the owners or without, the totals by resource, by owner and resource, and the amounts are equal,
  provided the database means by its operators what its manual says and the values are small enough for
  doubles to be exact.\<close>

theorem queries_equal_documents:
  assumes "answers M cfg docs (billingAggregatePipeline start stop (billingResourceUsageStages owners))"
    "answers M cfg docs (billingAggregatePipeline start stop (billingResourceAmountStages owners))"
    "ds = filter (in_window start stop) docs" "\<forall>d \<in> set ds. billing_doc d"
    "sum_list (map (\<lambda>x. \<bar>item_value x\<bar>) (concat (map (doc_items ''used'') ds))) < 2 ^ 53"
    "sum_list (map (\<lambda>x. \<bar>item_value x\<bar>) (concat (map (doc_items ''used_amount'') ds))) < 2 ^ 53"
    "s = aggregateBillingDocuments began ended ds ps start stop"
  shows "\<exists>rows amounts. queryBillingAggregates M cfg start stop owners = Inr (rows, amounts)
    \<and> aggregateBillingRows began ended rows amounts ps owners start stop
      = (if owners then s else s\<lparr>bs_OwnerResources := Map.empty, bs_OwnerResourceAmounts := Map.empty\<rparr>)"
  by (rule aggregates_of_documents [OF assms])

section \<open>Windows\<close>

lemma hour_pos [simp]: "0 < hour"
  by (simp add: hour_def)

text \<open>A record is in the window of the polls of one hour only: the hour that begins with the full hour at or after the
  record's time.\<close>

definition full_hour :: "int \<Rightarrow> int" where
  "full_hour t = - ((- t) div hour) * hour"

definition billed_at :: "int \<Rightarrow> bson \<Rightarrow> bool" where
  "billed_at now d \<longleftrightarrow> doc_field ''type'' d = Some (BInt 0)
     \<and> (\<exists>t. doc_field ''time'' d = Some (BTime t) \<and> full_hour t \<le> now \<and> now < full_hour t + hour)"

lemma window_of_hour:
  assumes "doc_field ''type'' d = Some (BInt 0)" "doc_field ''time'' d = Some (BTime t)"
    "full = - ((- t) div hour) * hour"
  shows "in_window (window_end now - hour) (window_end now) d \<longleftrightarrow> full \<le> now \<and> now < full + hour"
proof -
  define q r where "q = now div hour" and "r = now mod hour"
  have now: "now = hour * q + r" "0 \<le> r" "r < hour" unfolding q_def r_def by simp_all
  have w: "window_end now = hour * q" using now by (simp add: window_end_def r_def [symmetric])
  define p u where "p = (- t) div hour" and "u = (- t) mod hour"
  have "- t = hour * p + u" "0 \<le> u" "u < hour" unfolding p_def u_def by simp_all
  then have t: "t = hour * (- p) - u" by simp
  have full: "full = hour * (- p)" using assms(3) by (simp add: p_def)
  have win: "in_window (window_end now - hour) (window_end now) d \<longleftrightarrow> hour * q - hour < t \<and> t \<le> hour * q"
    using assms(1,2) by (simp add: in_window_def w)
  have "hour * q - hour < t \<and> t \<le> hour * q \<longleftrightarrow> q = - p"
  proof
    assume a: "hour * q - hour < t \<and> t \<le> hour * q"
    have "hour * (q - 1) < hour * (- p)" using a t \<open>0 \<le> u\<close> by (simp add: algebra_simps)
    then have "q - 1 < - p" by (simp add: mult_less_cancel_left_pos del: mult_minus_right)
    moreover have "hour * (- p - 1) < hour * q" using a t \<open>u < hour\<close> by (simp add: algebra_simps)
    then have "- p - 1 < q" by (simp add: mult_less_cancel_left_pos del: mult_minus_right)
    ultimately show "q = - p" by simp
  next
    assume "q = - p"
    then show "hour * q - hour < t \<and> t \<le> hour * q" using t \<open>0 \<le> u\<close> \<open>u < hour\<close> by simp
  qed
  also have "\<dots> \<longleftrightarrow> full \<le> now \<and> now < full + hour"
  proof
    assume "q = - p" then show "full \<le> now \<and> now < full + hour" using full now by simp
  next
    assume a: "full \<le> now \<and> now < full + hour"
    have "hour * (- p) < hour * (q + 1)" using a full now by (simp add: algebra_simps)
    then have "- p < q + 1" by (simp add: mult_less_cancel_left_pos del: mult_minus_right)
    moreover have "hour * q < hour * (- p + 1)" using a full now by (simp add: algebra_simps)
    then have "q < - p + 1" by (simp add: mult_less_cancel_left_pos del: mult_minus_right)
    ultimately show "q = - p" by simp
  qed
  finally show ?thesis using win by simp
qed

lemma window_billed: "in_window (window_end now - hour) (window_end now) d \<longleftrightarrow> billed_at now d"
proof (cases "doc_field ''type'' d = Some (BInt 0) \<and> (\<exists>t. doc_field ''time'' d = Some (BTime t))")
  case True
  then obtain t where t: "doc_field ''type'' d = Some (BInt 0)" "doc_field ''time'' d = Some (BTime t)" by blast
  from window_of_hour [OF t full_hour_def] show ?thesis by (simp add: billed_at_def t)
qed (auto simp: billed_at_def in_window_def split: option.splits bson.splits)

section \<open>Scrapes\<close>

text \<open>The loops go over all entries of the maps, which are finite.\<close>

definition order_ok :: "(billing_snapshot \<Rightarrow> snapshot_entries) \<Rightarrow> bool" where
  "order_ok order \<longleftrightarrow> (\<forall>s. (finite (dom (bs_Resources s)) \<longrightarrow> entries_of (en_Resources (order s)) (bs_Resources s))
     \<and> (finite (dom (bs_OwnerResources s)) \<longrightarrow> entries_of (en_OwnerResources (order s)) (bs_OwnerResources s))
     \<and> (finite (dom (bs_ResourceAmounts s)) \<longrightarrow> entries_of (en_ResourceAmounts (order s)) (bs_ResourceAmounts s))
     \<and> (finite (dom (bs_OwnerResourceAmounts s)) \<longrightarrow>
          entries_of (en_OwnerResourceAmounts (order s)) (bs_OwnerResourceAmounts s)))"

lemma totals_dom: "totals kvs k \<noteq> None \<Longrightarrow> k \<in> fst ` set kvs"
proof (induction kvs rule: rev_induct)
  case (snoc x kvs)
  then show ?case by (cases x) (auto simp: totals_snoc add_total_def split: if_splits)
qed (simp add: totals_def)

lemma totals_finite: "finite (dom (totals kvs))"
proof -
  have "dom (totals kvs) \<subseteq> fst ` set kvs" using totals_dom by fast
  then show ?thesis by (rule finite_subset) simp
qed

definition billing_prom_ok :: "prom \<Rightarrow> string \<Rightarrow> bool" where
  "billing_prom_ok P ns \<longleftrightarrow> fq_law P \<and> (\<forall>d \<in> set (billing_desc_list (billing_descs_of P ns)). usable P d)"

lemma billing_names:
  "fq_law P \<Longrightarrow> distinct (map d_fqName (billing_desc_list (billing_descs_of P ns)))"
  by (simp add: billing_desc_list_def billing_descs_of_def fq_law_def)

lemma billing_descs_labels:
  "length (d_labels (be_resource (billing_descs_of P ns))) = 4" "length (d_labels (be_owner_resource (billing_descs_of P ns))) = 6"
  "length (d_labels (be_amount (billing_descs_of P ns))) = 3" "length (d_labels (be_owner_amount (billing_descs_of P ns))) = 5"
  "length (d_labels (be_last (billing_descs_of P ns))) = 0"
  by (simp_all add: billing_descs_of_def)

lemma distinct_by_keys:
  assumes "distinct (map fst es)" "\<And>a b. a \<in> fst ` set es \<Longrightarrow> b \<in> fst ` set es \<Longrightarrow> f a = f b \<Longrightarrow> a = b"
  shows "distinct (map (\<lambda>x. f (fst x)) es)"
proof -
  have "distinct (map f (map fst es))" using assms by (simp add: distinct_map inj_on_def)
  then show ?thesis by (simp add: comp_def)
qed

lemma snapshot_rows_clean:
  assumes "billing_prom_ok P ns" "D = billing_descs_of P ns" "order_ok order"
    "s = aggregateBillingRows began ended rows amounts ps owners start stop"
  shows "\<exists>ms. emitSnapshotMetrics P D owners' s (order s) = (ms, None) \<and> no_duplicates ms
    \<and> sample (be_last D) (float_of_int (Unix ended)) [] \<in> set ms"
proof -
  let ?e = "order s" and ?rows = "snapshot_rows D owners' s (order s)"
  have ents: "entries_of (en_Resources ?e) (bs_Resources s)" "entries_of (en_OwnerResources ?e) (bs_OwnerResources s)"
    "entries_of (en_ResourceAmounts ?e) (bs_ResourceAmounts s)" "entries_of (en_OwnerResourceAmounts ?e) (bs_OwnerResourceAmounts s)"
  proof -
    have "finite (dom (bs_Resources s))" "finite (dom (bs_OwnerResources s))" "finite (dom (bs_ResourceAmounts s))"
      "finite (dom (bs_OwnerResourceAmounts s))"
      unfolding assms(4) aggregateBillingRows_items by (simp_all add: snapshot_of_def totals_finite del: map_map)
    then show "entries_of (en_Resources ?e) (bs_Resources s)" "entries_of (en_OwnerResources ?e) (bs_OwnerResources s)"
      "entries_of (en_ResourceAmounts ?e) (bs_ResourceAmounts s)"
      "entries_of (en_OwnerResourceAmounts ?e) (bs_OwnerResourceAmounts s)"
      using assms(3) by (simp_all add: order_ok_def)
  qed
  have ok: "usable P d" if "d \<in> set (billing_desc_list D)" for d using assms(1,2) that by (simp add: billing_prom_ok_def)
  have sent: "emitSnapshotMetrics P D owners' s ?e = (map row_sample ?rows, None)"
    unfolding emitSnapshotMetrics_def
  proof (rule emit_const)
    fix d v ls assume "(d, v, ls) \<in> set ?rows"
    then have "d \<in> set (billing_desc_list D) \<and> length ls = length (d_labels d)"
      using billing_descs_labels unfolding assms(2)
      by (auto simp: snapshot_rows_def Let_def billing_desc_list_def split: if_splits)
    then show "usable P d \<and> length ls = length (d_labels d)" using ok by blast
  qed
  have keyR: "rk_Owner k = [] \<and> rk_Namespace k = []" if "k \<in> fst ` set (en_Resources ?e)" for k
  proof -
    have "bs_Resources s k \<noteq> None" using that entries_of_dom [OF ents(1)] by auto
    then have "totals (map (\<lambda>(owner, ns, e, v). (resource_key_of ps e, v)) (map row_item rows)) k \<noteq> None"
      unfolding assms(4) aggregateBillingRows_items by (simp add: snapshot_of_def del: map_map)
    from totals_dom [OF this] show ?thesis by (auto simp: resource_key_of_def split: prod.splits)
  qed
  have keyA: "ak_Owner k = [] \<and> ak_Namespace k = []" if "k \<in> fst ` set (en_ResourceAmounts ?e)" for k
  proof -
    have "bs_ResourceAmounts s k \<noteq> None" using that entries_of_dom [OF ents(3)] by auto
    then have "totals (map (\<lambda>(owner, ns, e, v). (amount_key_of ps e, v)) (map row_item amounts)) k \<noteq> None"
      unfolding assms(4) aggregateBillingRows_items by (simp add: snapshot_of_def del: map_map)
    from totals_dom [OF this] show ?thesis by (auto simp: amount_key_of_def split: prod.splits)
  qed
  let ?ws = "Itoa (Unix (bs_WindowStart s))" and ?we = "Itoa (Unix (bs_WindowEnd s))"
  have d1: "distinct (map (\<lambda>x. (d_fqName (be_resource D), [?ws, ?we, rk_Resource (fst x), rk_Unit (fst x)])) (en_Resources ?e))"
    by (rule distinct_by_keys) (use ents(1) keyR in \<open>auto simp: entries_of_def\<close>)
  have d2: "distinct (map (\<lambda>x. (d_fqName (be_owner_resource D), [?ws, ?we, rk_Owner (fst x), rk_Namespace (fst x),
      rk_Resource (fst x), rk_Unit (fst x)])) (en_OwnerResources ?e))"
    by (rule distinct_by_keys) (use ents(2) in \<open>auto simp: entries_of_def\<close>)
  have d3: "distinct (map (\<lambda>x. (d_fqName (be_amount D), [?ws, ?we, ak_Resource (fst x)])) (en_ResourceAmounts ?e))"
    by (rule distinct_by_keys) (use ents(3) keyA in \<open>auto simp: entries_of_def\<close>)
  have d4: "distinct (map (\<lambda>x. (d_fqName (be_owner_amount D), [?ws, ?we, ak_Owner (fst x), ak_Namespace (fst x),
      ak_Resource (fst x)])) (en_OwnerResourceAmounts ?e))"
    by (rule distinct_by_keys) (use ents(4) in \<open>auto simp: entries_of_def\<close>)
  have "distinct (map d_fqName (billing_desc_list D))"
    using assms(1,2) billing_names by (simp add: billing_prom_ok_def)
  then have "distinct (map row_key ?rows)"
    using d1 d2 d3 d4
    by (auto simp: snapshot_rows_def Let_def row_key_def comp_def case_prod_unfold billing_desc_list_def)
  moreover have "sample (be_last D) (float_of_int (Unix ended)) [] \<in> set (map row_sample ?rows)"
    unfolding sample_mem by (simp add: snapshot_rows_def Let_def assms(4) aggregateBillingRows_def)
  ultimately show ?thesis unfolding sent by (simp add: no_duplicates_rows)
qed

text \<open>Polls one after the other: a poll that fails, or that finds no client, leaves the collector as it was.\<close>

record poll_input =
  bp_mongo :: mongo
  bp_now :: int
  bp_began :: int
  bp_ended :: int

fun billing_polls :: "prom \<Rightarrow> (billing_snapshot \<Rightarrow> snapshot_entries) \<Rightarrow> poll_input list \<Rightarrow> billing_collector
    \<Rightarrow> (err option list \<times> billing_collector) go" where
  "billing_polls P order [] c = Ret ([], c)"
| "billing_polls P order (i # ins) c =
     bind_go (billing_Poll P (bp_mongo i) (bp_now i) (bp_began i) (bp_ended i) order c)
       (\<lambda>(e, c1). bind_go (billing_polls P order ins c1) (\<lambda>(es, c2). Ret (e # es, c2)))"

definition clean_snapshot :: "billing_descs \<Rightarrow> int option \<Rightarrow> billing_collector \<Rightarrow> bool" where
  "clean_snapshot D prev c \<longleftrightarrow> (case prev of None \<Rightarrow> bl_snapshot c = None
     | Some t \<Rightarrow> (\<exists>s ms. bl_snapshot c = Some (s, ms) \<and> no_duplicates ms
         \<and> sample (be_last D) (float_of_int (Unix t)) [] \<in> set ms))"

text \<open>The time of the last poll that succeeded.\<close>

fun last_success :: "int option \<Rightarrow> (err option \<times> poll_input) list \<Rightarrow> int option" where
  "last_success t [] = t"
| "last_success t ((None, i) # xs) = last_success (Some (bp_ended i)) xs"
| "last_success t ((Some e, i) # xs) = last_success t xs"

lemma billing_Poll_clean:
  assumes "billing_prom_ok P ns" "bl_descs c = billing_descs_of P ns" "order_ok order" "clean_snapshot (bl_descs c) prev c"
  shows "\<exists>e c1. billing_Poll P M now began ended order c = Ret (e, c1) \<and> bl_descs c1 = bl_descs c
    \<and> clean_snapshot (bl_descs c1) (if e = None then Some ended else prev) c1"
proof (cases "bl_client c")
  case True
  show ?thesis
  proof (cases "loadProperties (mg_Find M (blc_Database (bl_config c)) (blc_PropertiesCollection (bl_config c)))")
    case (Inr ps)
    show ?thesis
    proof (cases "queryBillingAggregates M (bl_config c) (window_end now - hour) (window_end now)
        (blc_EnableOwnerMetrics (bl_config c))")
      case q: (Inr ra)
      obtain rows amounts where ra: "ra = (rows, amounts)" by (cases ra)
      define s where "s = aggregateBillingRows began ended rows amounts ps (blc_EnableOwnerMetrics (bl_config c))
        (window_end now - hour) (window_end now)"
      obtain ms where ms: "emitSnapshotMetrics P (bl_descs c) (blc_EnableOwnerMetrics (bl_config c)) s (order s) = (ms, None)"
        "no_duplicates ms" "sample (be_last (bl_descs c)) (float_of_int (Unix ended)) [] \<in> set ms"
        using snapshot_rows_clean [OF assms(1-3) s_def] by blast
      have "billing_Poll P M now began ended order c = Ret (None, c\<lparr>bl_snapshot := Some (s, ms)\<rparr>)"
        using True Inr q by (simp add: billing_Poll_def Let_def ra buildSnapshotMetrics_def s_def [symmetric] ms(1))
      then show ?thesis using ms(2,3) by (simp add: clean_snapshot_def)
    qed (use True Inr assms(4) in \<open>simp add: billing_Poll_def Let_def\<close>)
  qed (use True assms(4) in \<open>simp add: billing_Poll_def Let_def\<close>)
qed (use assms(4) in \<open>simp add: billing_Poll_def Let_def\<close>)

text \<open>C32. What a poll at \<open>now\<close> reports: with a client and properties that can be read, and a database that answers both
  pipelines as documented, it succeeds, and its snapshot is the one of going one by one through exactly those
  consumption records whose hour, the one that begins with the full hour at or after the record's time, is the hour of
  the poll. So each record is counted by every poll of one hour and by no other, never before its window is complete;
  when no poll happens in that hour, as with an interval of more than an hour, it is never counted.\<close>

theorem poll_counts_its_hour:
  assumes "bl_client c" "cfg = bl_config c" "owners = blc_EnableOwnerMetrics cfg"
    "loadProperties (mg_Find M (blc_Database cfg) (blc_PropertiesCollection cfg)) = Inr ps"
    "\<And>start stop. answers M cfg docs (billingAggregatePipeline start stop (billingResourceUsageStages owners))"
    "\<And>start stop. answers M cfg docs (billingAggregatePipeline start stop (billingResourceAmountStages owners))"
    "ds = filter (billed_at now) docs" "\<forall>d \<in> set ds. billing_doc d"
    "sum_list (map (\<lambda>x. \<bar>item_value x\<bar>) (concat (map (doc_items ''used'') ds))) < 2 ^ 53"
    "sum_list (map (\<lambda>x. \<bar>item_value x\<bar>) (concat (map (doc_items ''used_amount'') ds))) < 2 ^ 53"
    "s = aggregateBillingDocuments began ended ds ps (now div hour * hour - hour) (now div hour * hour)"
    "billing_prom_ok P ns" "bl_descs c = billing_descs_of P ns" "order_ok order"
  shows "\<exists>ms. billing_Poll P M now began ended order c = Ret (None, c\<lparr>bl_snapshot := Some
    (if owners then s else s\<lparr>bs_OwnerResources := Map.empty, bs_OwnerResourceAmounts := Map.empty\<rparr>, ms)\<rparr>)"
proof -
  have w: "window_end now = now div hour * hour" by (simp add: window_end_def minus_mod_eq_div_mult)
  have ds: "ds = filter (in_window (window_end now - hour) (window_end now)) docs"
    unfolding assms(7) window_billed [abs_def] ..
  obtain rows amounts where q: "queryBillingAggregates M cfg (window_end now - hour) (window_end now) owners = Inr (rows, amounts)"
    "aggregateBillingRows began ended rows amounts ps owners (window_end now - hour) (window_end now)
      = (if owners then s else s\<lparr>bs_OwnerResources := Map.empty, bs_OwnerResourceAmounts := Map.empty\<rparr>)" (is "_ = ?s")
    using aggregates_of_documents [OF assms(5,6) ds assms(8-10) assms(11) [folded w]] by blast
  obtain ms where "emitSnapshotMetrics P (bl_descs c) owners ?s (order ?s) = (ms, None)"
    using snapshot_rows_clean [OF assms(12-14) q(2) [symmetric]] by blast
  then have "billing_Poll P M now began ended order c = Ret (None, c\<lparr>bl_snapshot := Some (?s, ms)\<rparr>)"
    using assms(1,4) q by (simp add: billing_Poll_def Let_def buildSnapshotMetrics_def flip: assms(2,3))
  then show ?thesis by blast
qed

text \<open>Whatever the database answers, no poll panics, and a scrape after any polls shows the last one that
  succeeded: nothing before the first success, and afterwards a set of distinct series that carries the
  time of that success.\<close>

theorem billing_scrape_is_last_success:
  assumes "billing_NewCollector P ns load = Ret (c0, b)" "billing_StartFunc connect_err ping_err c0 = (e0, c1)"
    "billing_prom_ok P ns" "order_ok order"
  shows "\<exists>es c. billing_polls P order ins c1 = Ret (es, c) \<and> length es = length ins
    \<and> (case last_success None (zip es ins) of
         None \<Rightarrow> billing_collect P c order = ([], None)
       | Some t \<Rightarrow> (\<exists>ms. billing_collect P c order = (ms, None) \<and> no_duplicates ms
           \<and> sample (be_last (billing_descs_of P ns)) (float_of_int (Unix t)) [] \<in> set ms))"
proof -
  have run: "\<exists>es c'. billing_polls P order ins c = Ret (es, c') \<and> length es = length ins
      \<and> bl_descs c' = billing_descs_of P ns \<and> clean_snapshot (billing_descs_of P ns) (last_success prev (zip es ins)) c'"
    if "bl_descs c = billing_descs_of P ns" "clean_snapshot (billing_descs_of P ns) prev c" for c prev
    using that
  proof (induction ins arbitrary: c prev)
    case (Cons i ins)
    obtain e c1 where p: "billing_Poll P (bp_mongo i) (bp_now i) (bp_began i) (bp_ended i) order c = Ret (e, c1)"
      "bl_descs c1 = billing_descs_of P ns"
      "clean_snapshot (billing_descs_of P ns) (if e = None then Some (bp_ended i) else prev) c1"
      using billing_Poll_clean [OF assms(3) Cons.prems(1) assms(4)] Cons.prems by metis
    from Cons.IH [OF p(2,3)] obtain es c' where r: "billing_polls P order ins c1 = Ret (es, c')" "length es = length ins"
      "bl_descs c' = billing_descs_of P ns"
      "clean_snapshot (billing_descs_of P ns) (last_success (if e = None then Some (bp_ended i) else prev) (zip es ins)) c'"
      by blast
    have "last_success prev (zip (e # es) (i # ins)) = last_success (if e = None then Some (bp_ended i) else prev) (zip es ins)"
      by (cases e) simp_all
    then show ?case using p(1) r by simp
  qed simp
  have c0: "bl_descs c0 = billing_descs_of P ns" "bl_snapshot c0 = None"
    using assms(1) by (auto simp: billing_NewCollector_def Let_def register_descs_eq)
  have c1: "bl_descs c1 = billing_descs_of P ns" "clean_snapshot (billing_descs_of P ns) None c1"
    using assms(2) c0 by (auto simp: billing_StartFunc_def clean_snapshot_def split: if_splits option.splits)
  obtain es c where r: "billing_polls P order ins c1 = Ret (es, c)" "length es = length ins"
    "clean_snapshot (billing_descs_of P ns) (last_success None (zip es ins)) c" using run [OF c1] by blast
  show ?thesis
  proof (cases "last_success None (zip es ins)")
    case None
    then show ?thesis using r by (simp add: clean_snapshot_def billing_collect_def)
  next
    case (Some t)
    then obtain s ms where "bl_snapshot c = Some (s, ms)" "no_duplicates ms"
      "sample (be_last (billing_descs_of P ns)) (float_of_int (Unix t)) [] \<in> set ms"
      using r(3) by (auto simp: clean_snapshot_def)
    then have "billing_collect P c order = (ms, None)" by (auto simp: billing_collect_def)
    then show ?thesis using r(1,2) Some \<open>no_duplicates ms\<close>
        \<open>sample (be_last (billing_descs_of P ns)) (float_of_int (Unix t)) [] \<in> set ms\<close> by simp
  qed
qed

section \<open>Examples\<close>

definition demo_bill :: "string \<Rightarrow> int \<Rightarrow> bson" where
  "demo_bill owner cpu = BDoc [(''_id'', BInt cpu), (''type'', BInt 0), (''time'', BTime 3600000000000),
     (''owner'', BString owner), (''namespace'', BString ''ns1''),
     (''app_costs'', BArr [BDoc [(''used'', BDoc [(''0'', BInt cpu)]), (''used_amount'', BDoc [(''0'', BInt 7)])]])]"

definition demo_mongo :: mongo where
  "demo_mongo = \<lparr>mg_Aggregate = (\<lambda>db coll p. Inr (rev (run_pipeline p [demo_bill ''alice'' 500, demo_bill ''bob'' 200]))),
     mg_Find = (\<lambda>db coll. Inr \<lparr>cu_docs = [], cu_decode = None, cu_err = None\<rparr>)\<rparr>"

lemma demo_bill_facts:
  "in_window 0 3600000000000 (demo_bill owner cpu)" "billing_doc (demo_bill owner cpu)"
  "doc_items ''used'' (demo_bill owner cpu) = [(owner, ''ns1'', ''0'', cpu)]"
  "doc_items ''used_amount'' (demo_bill owner cpu) = [(owner, ''ns1'', ''0'', 7)]"
  by (simp_all add: demo_bill_def in_window_def billing_doc_def int_map_def field_or_nil_def doc_items_def
      stringValue_def arrayValue_def cost_items_def usedMap_def int64Value_def)

lemma queries_equal_documents_witness:
  "\<exists>rows amounts. queryBillingAggregates demo_mongo billing_NewDefaultConfig 0 3600000000000 True = Inr (rows, amounts)
     \<and> bs_Resources (aggregateBillingRows 1 2 rows amounts defaultProperties True 0 3600000000000)
         (resource_key_of defaultProperties ''0'') = Some (Fin 700)"
proof -
  let ?docs = "[demo_bill ''alice'' 500, demo_bill ''bob'' 200]"
  have a: "answers demo_mongo billing_NewDefaultConfig ?docs p" for p
    by (simp add: answers_def demo_mongo_def)
  have ds: "filter (in_window 0 3600000000000) ?docs = ?docs" by (simp add: demo_bill_facts)
  have ok: "\<forall>d \<in> set ?docs. billing_doc d" by (simp add: demo_bill_facts)
  have small: "sum_list (map (\<lambda>x. \<bar>item_value x\<bar>) (concat (map (doc_items ''used'') ?docs))) < 2 ^ 53"
    "sum_list (map (\<lambda>x. \<bar>item_value x\<bar>) (concat (map (doc_items ''used_amount'') ?docs))) < 2 ^ 53"
    by (simp_all add: demo_bill_facts item_value_def)
  have total: "bs_Resources (aggregateBillingDocuments 1 2 ?docs defaultProperties 0 3600000000000)
      (resource_key_of defaultProperties ''0'') = Some (Fin 700)"
    unfolding aggregateBillingDocuments_items
    by (simp add: snapshot_of_def demo_bill_facts totals_exact sum_for_def)
  from queries_equal_documents [OF a a ds [symmetric] ok small refl, where owners = True and ps = defaultProperties
      and began = 1 and ended = 2] total
  show ?thesis by auto
qed

text \<open>A loop that happens to go by the order of the keys.\<close>

definition sorted_entries :: "('k \<Rightarrow> 'o :: linorder) \<Rightarrow> ('o \<Rightarrow> 'k) \<Rightarrow> ('k \<Rightarrow> 'v option) \<Rightarrow> ('k \<times> 'v) list" where
  "sorted_entries f g m = map (\<lambda>t. (g t, the (m (g t)))) (sorted_list_of_set (f ` dom m))"

lemma sorted_entries_ok:
  assumes "\<And>k. g (f k) = k" "finite (dom m)"
  shows "entries_of (sorted_entries f g m) m"
proof -
  let ?ts = "sorted_list_of_set (f ` dom m)"
  have ts: "set ?ts = f ` dom m" "distinct ?ts" using assms(2) by simp_all
  have keys: "map fst (sorted_entries f g m) = map g ?ts" by (simp add: sorted_entries_def comp_def)
  have "inj_on g (f ` dom m)" using assms(1) by (auto simp: inj_on_def)
  then have d: "distinct (map fst (sorted_entries f g m))" unfolding keys using ts by (simp add: distinct_map)
  have "map_of (sorted_entries f g m) k = m k" for k
  proof (cases "m k")
    case None
    then have "k \<notin> set (map g ?ts)" using ts(1) assms(1) by auto
    then show ?thesis using None keys by (metis map_of_eq_None_iff set_map)
  next
    case (Some v)
    then have "f k \<in> set ?ts" using ts(1) by auto
    then have "(g (f k), the (m (g (f k)))) \<in> set (sorted_entries f g m)" by (simp add: sorted_entries_def)
    then show ?thesis using d Some assms(1) by (simp add: map_of_is_SomeI)
  qed
  then show ?thesis using d by (simp add: entries_of_def fun_eq_iff)
qed

definition sorted_order :: "billing_snapshot \<Rightarrow> snapshot_entries" where
  "sorted_order s =
     (let f = (\<lambda>k. (rk_Resource k, rk_Unit k, rk_Owner k, rk_Namespace k));
          g = (\<lambda>(r, u, o', n). \<lparr>rk_Resource = r, rk_Unit = u, rk_Owner = o', rk_Namespace = n\<rparr>);
          f' = (\<lambda>k. (ak_Resource k, ak_Owner k, ak_Namespace k));
          g' = (\<lambda>(r, o', n). \<lparr>ak_Resource = r, ak_Owner = o', ak_Namespace = n\<rparr>)
      in \<lparr>en_Resources = sorted_entries f g (bs_Resources s), en_OwnerResources = sorted_entries f g (bs_OwnerResources s),
           en_ResourceAmounts = sorted_entries f' g' (bs_ResourceAmounts s),
           en_OwnerResourceAmounts = sorted_entries f' g' (bs_OwnerResourceAmounts s)\<rparr>)"

lemma sorted_order_ok: "order_ok sorted_order"
  unfolding order_ok_def sorted_order_def Let_def
  by (simp add: sorted_entries_ok)

definition demo_billing_config :: billing_config where
  "demo_billing_config = billing_NewDefaultConfig\<lparr>blc_URI := ''mongodb://x''\<rparr>"

definition demo_billing :: billing_collector where
  "demo_billing = \<lparr>bl_config = demo_billing_config, bl_descs = billing_descs_of demo_prom ''sealos'', bl_client = True,
     bl_snapshot = None\<rparr>"

text \<open>A poll that succeeds and one that cannot read the properties.\<close>

definition demo_polls :: "poll_input list" where
  "demo_polls = [\<lparr>bp_mongo = demo_mongo, bp_now = 3601000000000, bp_began = 5, bp_ended = 3602000000000\<rparr>,
     \<lparr>bp_mongo = demo_mongo\<lparr>mg_Find := (\<lambda>db coll. Inl ''down'')\<rparr>, bp_now = 9, bp_began = 9, bp_ended = 9\<rparr>]"

lemma billing_scrape_is_last_success_witness:
  "\<exists>es c. billing_polls demo_prom sorted_order demo_polls demo_billing = Ret (es, c) \<and> length es = 2"
proof -
  let ?D = "billing_descs_of demo_prom ''sealos''"
  have new: "billing_NewCollector demo_prom ''sealos'' (\<lambda>cfg. (cfg\<lparr>blc_URI := ''mongodb://x''\<rparr>, None))
      = Ret (demo_billing\<lparr>bl_client := False\<rparr>, (NewBaseCollector ''billing'' [WithWaitReadyOnCollect True])
          \<lparr>bc_descs := [] @ map d_fqName (billing_desc_list ?D)\<rparr>)"
    by (simp add: billing_NewCollector_def Let_def register_descs_eq demo_billing_def demo_billing_config_def NewBaseCollector_def)
  have start: "billing_StartFunc None None (demo_billing\<lparr>bl_client := False\<rparr>) = (None, demo_billing)"
    by (simp add: billing_StartFunc_def demo_billing_def demo_billing_config_def)
  have ok: "billing_prom_ok demo_prom ''sealos''" by (simp add: billing_prom_ok_def billing_desc_list_def)
  have "length demo_polls = 2" by (simp add: demo_polls_def)
  from billing_scrape_is_last_success [OF new start ok sorted_order_ok, where ins = demo_polls] this
  show ?thesis by auto
qed

text \<open>A poll in the second hour counts the two records, which are of the full hour before.\<close>

lemma poll_counts_its_hour_witness:
  "\<exists>s ms. billing_Poll demo_prom demo_mongo 3601000000000 1 2 sorted_order demo_billing
      = Ret (None, demo_billing\<lparr>bl_snapshot := Some (s, ms)\<rparr>)
    \<and> bs_Resources s (resource_key_of defaultProperties ''0'') = Some (Fin 700)"
proof -
  let ?docs = "[demo_bill ''alice'' 500, demo_bill ''bob'' 200]"
  have a: "answers demo_mongo (bl_config demo_billing) ?docs p" for p
    by (simp add: answers_def demo_mongo_def)
  have "billed_at 3601000000000 (demo_bill owner cpu)" for owner cpu
    by (simp add: billed_at_def demo_bill_def full_hour_def hour_def)
  then have ds: "filter (billed_at 3601000000000) ?docs = ?docs" by simp
  have ok: "\<forall>d \<in> set ?docs. billing_doc d" by (simp add: demo_bill_facts)
  have small: "sum_list (map (\<lambda>x. \<bar>item_value x\<bar>) (concat (map (doc_items ''used'') ?docs))) < 2 ^ 53"
    "sum_list (map (\<lambda>x. \<bar>item_value x\<bar>) (concat (map (doc_items ''used_amount'') ?docs))) < 2 ^ 53"
    by (simp_all add: demo_bill_facts item_value_def)
  have client: "bl_client demo_billing" "bl_descs demo_billing = billing_descs_of demo_prom ''sealos''"
    by (simp_all add: demo_billing_def)
  obtain ps where ps: "loadProperties (mg_Find demo_mongo (blc_Database (bl_config demo_billing))
      (blc_PropertiesCollection (bl_config demo_billing))) = Inr ps" "ps = defaultProperties"
    by (simp add: demo_mongo_def loadProperties_def)
  have prom: "billing_prom_ok demo_prom ''sealos''" by (simp add: billing_prom_ok_def billing_desc_list_def)
  have total: "bs_Resources (aggregateBillingDocuments 1 2 ?docs defaultProperties start stop)
      (resource_key_of defaultProperties ''0'') = Some (Fin 700)" for start stop
    unfolding aggregateBillingDocuments_items
    by (simp add: snapshot_of_def demo_bill_facts totals_exact sum_for_def)
  from poll_counts_its_hour [OF client(1) refl refl ps(1) a a ds [symmetric] ok small refl prom client(2) sorted_order_ok,
      where began = 1 and ended = 2] total
  show ?thesis unfolding ps(2) by (auto split: if_splits)
qed

end
