(* ===== verification/Registry_Config.thy ===== *)
theory Registry_Config
  imports Domain_Check
begin

text \<open>
  \<open>pkg/collector/registryproxy/config.go\<close> and \<open>runtime.go\<close>: the configured registries, their parsing, and
  the URLs of their checks. Of \<open>net/url\<close> (as in Go 1.25.0) the model has the parsing of an absolute URL
  with its authority, and the printing of a scheme and a host.
\<close>

section \<open>Parsing a URL\<close>

record parsed_url =
  pu_Scheme :: string
  pu_User :: bool
  pu_Host :: string
  pu_Path :: string
  pu_RawQuery :: string
  pu_Fragment :: string

definition is_letter :: "char \<Rightarrow> bool" where
  "is_letter c \<longleftrightarrow> (let n = of_char c :: nat in 65 \<le> n \<and> n \<le> 90 \<or> 97 \<le> n \<and> n \<le> 122)"

definition scheme_char :: "char \<Rightarrow> bool" where
  "scheme_char c \<longleftrightarrow> is_letter c \<or> is_digit c \<or> c \<in> set ''+-.''"

definition get_scheme :: "string \<Rightarrow> (string \<times> string) res" where
  "get_scheme s =
     (let p = takeWhile scheme_char s; r = drop (length p) s in
      if p = [] then (if r \<noteq> [] \<and> hd r = CHR '':'' then Inl ''missing protocol scheme'' else Inr ([], s))
      else if is_letter (hd p) \<and> r \<noteq> [] \<and> hd r = CHR '':'' then Inr (p, tl r)
      else Inr ([], s))"

text \<open>The characters that stay as they are in a host; the escapes that a host may contain, and those of the
  zone of an IPv6 address.\<close>

definition host_plain :: "char \<Rightarrow> bool" where
  "host_plain c \<longleftrightarrow> is_digit c \<or> is_letter c \<or> c \<in> set ''-_.~'' \<or> c \<in> set host_chars"

fun unescape_host :: "bool \<Rightarrow> string \<Rightarrow> string res" where
  "unescape_host zone [] = Inr []"
| "unescape_host zone (c # s) =
     (if c = CHR ''%'' then
        (case s of
           a # b # t \<Rightarrow> (case (hex_val a, hex_val b) of
               (Some x, Some y) \<Rightarrow>
                 let v = char_of (16 * x + y) in
                 if [a, b] \<noteq> ''25'' \<and> (if zone then v \<noteq> CHR '' '' \<and> \<not> host_plain v else x < 8)
                 then Inl (''invalid URL escape '' @ Quote (c # a # [b]))
                 else (case unescape_host zone t of Inl e \<Rightarrow> Inl e | Inr r \<Rightarrow> Inr (v # r))
             | _ \<Rightarrow> Inl (''invalid URL escape '' @ Quote (c # a # [b])))
         | _ \<Rightarrow> Inl (''invalid URL escape '' @ Quote (c # s)))
      else if (of_char c :: nat) < 128 \<and> \<not> host_plain c
      then Inl (''invalid character '' @ Quote [c] @ '' in host name'')
      else case unescape_host zone s of Inl e \<Rightarrow> Inl e | Inr r \<Rightarrow> Inr (c # r))"

definition valid_optional_port :: "string \<Rightarrow> bool" where
  "valid_optional_port p \<longleftrightarrow> p = [] \<or> hd p = CHR '':'' \<and> list_all is_digit (tl p)"

fun find_sub :: "string \<Rightarrow> string \<Rightarrow> nat option" where
  "find_sub p [] = (if p = [] then Some 0 else None)"
| "find_sub p (c # s) = (if prefix p (c # s) then Some 0 else map_option Suc (find_sub p s))"

definition bad_port :: "string \<Rightarrow> 'a res" where
  "bad_port p = Inl (''invalid port '' @ Quote p @ '' after host'')"

definition parse_host :: "string \<Rightarrow> string res" where
  "parse_host host =
     (if HasPrefix host ''['' then
        (case LastIndexByte host CHR '']'' of
           None \<Rightarrow> Inl (''missing '' @ [CHR 0x27] @ '']'' @ [CHR 0x27] @ '' in host'')
         | Some i \<Rightarrow>
             if \<not> valid_optional_port (drop (Suc i) host) then bad_port (drop (Suc i) host)
             else (case find_sub ''%25'' (take i host) of
                 None \<Rightarrow> unescape_host False host
               | Some z \<Rightarrow> (case unescape_host False (take z host) of Inl e \<Rightarrow> Inl e
                   | Inr h1 \<Rightarrow> (case unescape_host True (drop z (take i host)) of Inl e \<Rightarrow> Inl e
                     | Inr h2 \<Rightarrow> (case unescape_host False (drop i host) of Inl e \<Rightarrow> Inl e
                       | Inr h3 \<Rightarrow> Inr (h1 @ h2 @ h3))))))
      else (case LastIndexByte host CHR '':'' of
          None \<Rightarrow> unescape_host False host
        | Some i \<Rightarrow> if \<not> valid_optional_port (drop i host) then bad_port (drop i host)
            else unescape_host False host))"

definition user_char :: "char \<Rightarrow> bool" where
  "user_char c \<longleftrightarrow> is_letter c \<or> is_digit c \<or> c \<in> set ''-._:~!$&()*+,;=%@'' \<or> c = CHR 0x27"

text \<open>The user information is checked after the host.\<close>

definition parse_user :: "string \<Rightarrow> err option" where
  "parse_user u =
     (if \<not> list_all user_char u then Some ''net/url: invalid userinfo''
      else let name = takeWhile (\<lambda>c. c \<noteq> CHR '':'') u in
        case unescape name of Inl e \<Rightarrow> Some e
        | Inr n \<Rightarrow> (case unescape (drop (Suc (length name)) u) of Inl e \<Rightarrow> Some e | Inr p \<Rightarrow> None))"

definition parse_authority :: "string \<Rightarrow> (bool \<times> string) res" where
  "parse_authority a = (case LastIndexByte a CHR ''@'' of
       None \<Rightarrow> (case parse_host a of Inl e \<Rightarrow> Inl e | Inr h \<Rightarrow> Inr (False, h))
     | Some i \<Rightarrow> (case parse_host (drop (Suc i) a) of Inl e \<Rightarrow> Inl e
         | Inr h \<Rightarrow> (case parse_user (take i a) of Some e \<Rightarrow> Inl e | None \<Rightarrow> Inr (True, h))))"

definition url_parse_main :: "string \<Rightarrow> parsed_url res" where
  "url_parse_main u =
     (if list_ex is_ctl u then Inl ''net/url: invalid control character in URL''
      else case get_scheme u of Inl e \<Rightarrow> Inl e
      | Inr (sch, r) \<Rightarrow>
          (let rest = takeWhile (\<lambda>c. c \<noteq> CHR ''?'') r;
               query = drop (Suc (length rest)) r;
               made = (\<lambda>user host path. case unescape path of Inl e \<Rightarrow> Inl e
                   | Inr p \<Rightarrow> Inr \<lparr>pu_Scheme = ToLower sch, pu_User = user, pu_Host = host, pu_Path = p,
                       pu_RawQuery = query, pu_Fragment = []\<rparr>)
           in if \<not> HasPrefix rest ''/'' \<and> sch \<noteq> [] then made False [] []
              else if \<not> HasPrefix rest ''/'' \<and> CHR '':'' \<in> set (takeWhile (\<lambda>c. c \<noteq> CHR ''/'') rest)
              then Inl ''first path segment in URL cannot contain colon''
              else if (sch \<noteq> [] \<or> \<not> HasPrefix rest ''///'') \<and> HasPrefix rest ''//'' then
                (let a = takeWhile (\<lambda>c. c \<noteq> CHR ''/'') (drop 2 rest) in
                 case parse_authority a of Inl e \<Rightarrow> Inl e
                 | Inr (user, host) \<Rightarrow> made user host (drop (length a) (drop 2 rest)))
              else made False [] rest))"

definition url_Parse :: "string \<Rightarrow> parsed_url res" where
  "url_Parse raw =
     (let u = takeWhile (\<lambda>c. c \<noteq> CHR ''#'') raw; frag = drop (Suc (length u)) raw in
      case url_parse_main u of
        Inl e \<Rightarrow> Inl (''parse '' @ Quote u @ '': '' @ e)
      | Inr p \<Rightarrow> if frag = [] then Inr p
          else (case unescape frag of Inl e \<Rightarrow> Inl (''parse '' @ Quote raw @ '': '' @ e)
            | Inr f \<Rightarrow> Inr (p\<lparr>pu_Fragment := f\<rparr>)))"

section \<open>Configuration\<close>

record registry_config =
  rcf_Endpoint :: string
  rcf_Info :: string
  rcf_IPs :: "string list"
  rcf_Repository :: string
  rcf_Reference :: string
  rcf_ManifestAcceptHeader :: string
  rcf_Headers :: "(string \<times> string) list"

record registryproxy_config =
  rpc_Registries :: "registry_config list"
  rpc_CheckTimeout :: int
  rpc_CheckInterval :: int

definition registryproxy_NewDefaultConfig :: registryproxy_config where
  "registryproxy_NewDefaultConfig = \<lparr>rpc_Registries = [], rpc_CheckTimeout = 30 * 10 ^ 9,
     rpc_CheckInterval = 60 * 10 ^ 9\<rparr>"

definition defaultManifestMediaType :: string where
  "defaultManifestMediaType = ''application/vnd.docker.distribution.manifest.v2+json''"

record registry_target =
  rt_Scheme :: string
  rt_Host :: string
  rt_Port :: int

record monitored_registry =
  mr_endpoint :: string
  mr_info :: string
  mr_target :: registry_target
  mr_ips :: "string list"
  mr_repository :: string
  mr_reference :: string
  mr_manifestAcceptHeader :: string
  mr_headers :: "string \<Rightarrow> string option"

record registry_runtime =
  rr_registries :: "monitored_registry list"
  rr_checkTimeout :: int
  rr_checkInterval :: int

definition invalid_endpoint :: "string \<Rightarrow> string \<Rightarrow> 'a res" where
  "invalid_endpoint endpoint msg = Inl (''invalid registry proxy endpoint '' @ Quote endpoint @ '': '' @ msg)"

definition registry_parsePort :: "string \<Rightarrow> string \<Rightarrow> int res" where
  "registry_parsePort port original =
     (if TrimSpace port = [] then invalid_endpoint original ''port is required''
      else case Atoi port of
          None \<Rightarrow> invalid_endpoint original (''invalid port '' @ Quote port)
        | Some n \<Rightarrow> if n < 1 \<or> n > 65535
            then invalid_endpoint original (''port '' @ Itoa n @ '' out of range'') else Inr n)"

definition splitRegistryHostPort :: "string \<Rightarrow> string \<Rightarrow> (string \<times> int) res" where
  "splitRegistryHostPort raw original = (case SplitHostPort raw of
       Inr (host, port) \<Rightarrow> (case registry_parsePort port original of Inl e \<Rightarrow> Inl e | Inr n \<Rightarrow> Inr (host, n))
     | Inl MissingPort \<Rightarrow> invalid_endpoint original ''port is required''
     | Inl TooManyColons \<Rightarrow> invalid_endpoint original ''IPv6 addresses with ports must use [host]:port''
     | Inl e \<Rightarrow> invalid_endpoint original (''address '' @ raw @ '': '' @ addr_error_text e))"

definition trim_brackets :: "string \<Rightarrow> string" where
  "trim_brackets s = Trim_by (\<lambda>c. c \<in> set ''[]'') s"

definition newRegistryTarget :: "string \<Rightarrow> string \<Rightarrow> int \<Rightarrow> string \<Rightarrow> registry_target res" where
  "newRegistryTarget scheme host port original =
     (let h = trim_brackets (TrimSpace host) in
      if h = [] then invalid_endpoint original ''host is required''
      else if port < 1 \<or> port > 65535
      then invalid_endpoint original (''port '' @ Itoa port @ '' out of range'')
      else Inr \<lparr>rt_Scheme = scheme, rt_Host = h, rt_Port = port\<rparr>)"

definition normalizeRegistryScheme :: "string \<Rightarrow> string" where
  "normalizeRegistryScheme scheme = ToLower (TrimSpace scheme)"

definition validateRegistryScheme :: "string \<Rightarrow> err option" where
  "validateRegistryScheme scheme =
     (if normalizeRegistryScheme scheme \<in> {''http'', ''https''} then None
      else Some (''unsupported registry proxy scheme '' @ Quote scheme @ '': only http and https are supported''))"

definition no_registry_target :: registry_target where
  "no_registry_target = \<lparr>rt_Scheme = [], rt_Host = [], rt_Port = 0\<rparr>"

definition parseRegistryTarget :: "string \<Rightarrow> registry_target res" where
  "parseRegistryTarget endpoint =
     (let raw = TrimSpace endpoint in
      if raw = [] then Inr no_registry_target
      else if \<not> Contains raw ''://''
      then invalid_endpoint endpoint ''endpoint must include http or https scheme''
      else case url_Parse raw of
        Inl e \<Rightarrow> invalid_endpoint endpoint e
      | Inr p \<Rightarrow>
          if pu_Scheme p = [] \<or> pu_Host p = [] then invalid_endpoint endpoint ''scheme and host are required''
          else let scheme = normalizeRegistryScheme (pu_Scheme p) in
            case validateRegistryScheme scheme of
              Some e \<Rightarrow> Inl e
            | None \<Rightarrow>
                if pu_Path p \<noteq> [] \<and> pu_Path p \<noteq> ''/'' \<or> pu_RawQuery p \<noteq> [] \<or> pu_Fragment p \<noteq> [] \<or> pu_User p
                then invalid_endpoint endpoint ''only scheme, host, and port are supported''
                else case splitRegistryHostPort (pu_Host p) endpoint of
                    Inl e \<Rightarrow> Inl e
                  | Inr (host, port) \<Rightarrow> newRegistryTarget scheme host port endpoint)"

definition invalid_entry :: "string \<Rightarrow> string \<Rightarrow> 'a res" where
  "invalid_entry endpoint msg = Inl (''invalid registry proxy entry '' @ Quote endpoint @ '': '' @ msg)"

fun registry_ips_from :: "string \<Rightarrow> string set \<Rightarrow> string list \<Rightarrow> string list \<Rightarrow> string list res" where
  "registry_ips_from endpoint seen ips [] = Inr ips"
| "registry_ips_from endpoint seen ips (x # xs) =
     (let v = TrimSpace x in
      if v = [] then registry_ips_from endpoint seen ips xs
      else case ParseIP v of
          None \<Rightarrow> invalid_entry endpoint (''invalid ip '' @ Quote v)
        | Some p \<Rightarrow> let n = ip_String p in
            if n \<in> seen then registry_ips_from endpoint seen ips xs
            else registry_ips_from endpoint (insert n seen) (ips @ [n]) xs)"

definition normalizeRegistryIPs :: "string list \<Rightarrow> string \<Rightarrow> string list res" where
  "normalizeRegistryIPs values endpoint = registry_ips_from endpoint {} [] values"

definition is_slash :: "char \<Rightarrow> bool" where
  "is_slash c \<longleftrightarrow> c = CHR ''/''"

definition normalizeRepository :: "string \<Rightarrow> string" where
  "normalizeRepository repository = Trim_by is_slash (TrimSpace repository)"

text \<open>The configured headers are in the order of the loop over their map.\<close>

definition trimmed_headers :: "(string \<times> string) list \<Rightarrow> string \<Rightarrow> string option" where
  "trimmed_headers hs = foldl (\<lambda>m (name, value).
     if TrimSpace name = [] then m else m(TrimSpace name \<mapsto> value)) Map.empty hs"

definition parseMonitoredRegistry :: "registry_config \<Rightarrow> monitored_registry res" where
  "parseMonitoredRegistry cfg =
     (if TrimSpace (rcf_Endpoint cfg) = [] then Inl ''invalid registry proxy entry: endpoint is required''
      else case parseRegistryTarget (rcf_Endpoint cfg) of
        Inl e \<Rightarrow> Inl e
      | Inr target \<Rightarrow> (case normalizeRegistryIPs (rcf_IPs cfg) (rcf_Endpoint cfg) of
          Inl e \<Rightarrow> Inl e
        | Inr ips \<Rightarrow>
            let repository = normalizeRepository (rcf_Repository cfg);
                reference = TrimSpace (rcf_Reference cfg);
                accept = TrimSpace (rcf_ManifestAcceptHeader cfg) in
            if repository = [] then invalid_entry (rcf_Endpoint cfg) ''repository is required''
            else if reference = [] then invalid_entry (rcf_Endpoint cfg) ''reference is required''
            else Inr \<lparr>mr_endpoint = TrimSpace (rcf_Endpoint cfg), mr_info = TrimSpace (rcf_Info cfg),
              mr_target = target, mr_ips = ips, mr_repository = repository, mr_reference = reference,
              mr_manifestAcceptHeader = (if accept = [] then defaultManifestMediaType else accept),
              mr_headers = trimmed_headers (rcf_Headers cfg)\<rparr>))"

fun parseMonitoredRegistries :: "registry_config list \<Rightarrow> monitored_registry list res" where
  "parseMonitoredRegistries [] = Inr []"
| "parseMonitoredRegistries (v # vs) = (case parseMonitoredRegistry v of
       Inl e \<Rightarrow> Inl e
     | Inr r \<Rightarrow> (case parseMonitoredRegistries vs of
           Inl e \<Rightarrow> Inl e
         | Inr rs \<Rightarrow> Inr (if mr_endpoint r = [] then rs else r # rs)))"

definition registry_newRuntimeConfig :: "registryproxy_config \<Rightarrow> registry_runtime res" where
  "registry_newRuntimeConfig cfg = (case parseMonitoredRegistries (rpc_Registries cfg) of
       Inl e \<Rightarrow> Inl e
     | Inr rs \<Rightarrow> Inr \<lparr>rr_registries = rs, rr_checkTimeout = rpc_CheckTimeout cfg,
         rr_checkInterval = rpc_CheckInterval cfg\<rparr>)"

section \<open>The URLs of the checks\<close>

text \<open>Both branches of \<open>registryAuthority\<close> are the same call.\<close>

definition registryAuthority :: "string \<Rightarrow> int \<Rightarrow> string" where
  "registryAuthority host port =
     (if Contains host '':'' then JoinHostPort host (Itoa port) else JoinHostPort host (Itoa port))"

definition registryBaseURL :: "registry_target \<Rightarrow> string" where
  "registryBaseURL target =
     rt_Scheme target @ ''://'' @ escape host_chars (registryAuthority (rt_Host target) (rt_Port target))"

definition registryAPIURL :: "monitored_registry \<Rightarrow> string" where
  "registryAPIURL registry = registryBaseURL (mr_target registry) @ ''/v2/''"

text \<open>\<open>url.PathEscape\<close>.\<close>

definition segment_chars :: string where "segment_chars = ''$&+:=@''"

definition registryManifestURL :: "monitored_registry \<Rightarrow> string" where
  "registryManifestURL registry =
     registryBaseURL (mr_target registry) @ ''/v2/'' @ normalizeRepository (mr_repository registry)
       @ ''/manifests/'' @ escape segment_chars (mr_reference registry)"

section \<open>What is accepted\<close>

lemma registry_ips_normalize:
  "registry_ips_from e seen ips xs = Inr r \<Longrightarrow> normalize_ips e seen ips xs = Inr r"
proof (induction xs arbitrary: seen ips)
  case (Cons x xs)
  then show ?case by (auto simp: Let_def invalid_entry_def split: if_splits option.splits)
qed simp

lemma normalizeRepository_edges:
  assumes "normalizeRepository s \<noteq> []"
  shows "hd (normalizeRepository s) \<noteq> CHR ''/''" "last (normalizeRepository s) \<noteq> CHR ''/''"
  using Trim_by_edges [of is_slash "TrimSpace s"] assms by (auto simp: normalizeRepository_def is_slash_def)

lemma normalizeRepository_fixed:
  "s \<noteq> [] \<Longrightarrow> TrimSpace s = s \<Longrightarrow> hd s \<noteq> CHR ''/'' \<Longrightarrow> last s \<noteq> CHR ''/'' \<Longrightarrow> normalizeRepository s = s"
  using Trim_by_fixed [of s is_slash] by (simp add: normalizeRepository_def is_slash_def)

lemma trimmed_headers_names:
  "trimmed_headers hs k = Some v \<Longrightarrow> k \<noteq> [] \<and> (\<exists>n. (n, v) \<in> set hs \<and> TrimSpace n = k)"
proof (induction hs arbitrary: v rule: rev_induct)
  case (snoc h hs)
  obtain n w where h: "h = (n, w)" by (cases h)
  show ?case using snoc by (auto simp: trimmed_headers_def h split: if_splits)
qed (simp add: trimmed_headers_def)

lemma to_lower_idem [simp]: "to_lower (to_lower c) = to_lower c"
  by (simp add: to_lower_def Let_def of_char_of)

lemma to_lower_space [simp]: "is_space (to_lower c) \<longleftrightarrow> is_space c"
proof -
  have "c = CHR '' '' \<longleftrightarrow> of_char c = (32 :: nat)" for c
    using of_char_eq_iff [of c "CHR '' ''", where ?'a = nat] by simp
  then show ?thesis by (auto simp: to_lower_def is_space_def Let_def of_char_of)
qed

lemma normalizeRegistryScheme_idem [simp]:
  "normalizeRegistryScheme (normalizeRegistryScheme s) = normalizeRegistryScheme s"
proof (cases "TrimSpace s = []")
  case False
  let ?t = "TrimSpace s"
  have "TrimSpace (ToLower ?t) = ToLower ?t"
    unfolding TrimSpace_def
    by (rule Trim_by_fixed)
      (use False Trim_by_edges [of is_space s] in \<open>simp_all add: ToLower_def TrimSpace_def hd_map last_map\<close>)
  then show ?thesis by (simp add: normalizeRegistryScheme_def ToLower_def)
next
  case True
  moreover have "TrimSpace (ToLower []) = []" by code_simp
  ultimately show ?thesis by (simp add: normalizeRegistryScheme_def)
qed

lemma parseRegistryTarget_ok:
  assumes "parseRegistryTarget e = Inr t" "TrimSpace e \<noteq> []"
  shows "rt_Scheme t \<in> {''http'', ''https''} \<and> rt_Host t \<noteq> [] \<and> 1 \<le> rt_Port t \<and> rt_Port t \<le> 65535
    \<and> hd (rt_Host t) \<notin> set ''[]'' \<and> last (rt_Host t) \<notin> set ''[]''"
proof -
  obtain p where p: "url_Parse (TrimSpace e) = Inr p"
    using assms by (auto simp: parseRegistryTarget_def Let_def invalid_endpoint_def split: if_splits sum.splits)
  let ?s = "normalizeRegistryScheme (pu_Scheme p)"
  have s: "validateRegistryScheme ?s = None"
    using assms p
    by (auto simp: parseRegistryTarget_def Let_def invalid_endpoint_def split: if_splits option.splits)
  obtain host port where n: "newRegistryTarget ?s host port e = Inr t"
    using assms p s
    by (auto simp: parseRegistryTarget_def Let_def invalid_endpoint_def split: if_splits sum.splits)
  from n have t: "rt_Scheme t = ?s" "rt_Host t = trim_brackets (TrimSpace host)" "rt_Host t \<noteq> []"
      "1 \<le> rt_Port t" "rt_Port t \<le> 65535"
    by (auto simp: newRegistryTarget_def Let_def invalid_endpoint_def split: if_splits)
  then show ?thesis
    using s Trim_by_edges [of "\<lambda>c. c \<in> set ''[]''" "TrimSpace host"]
    by (auto simp: trim_brackets_def validateRegistryScheme_def split: if_splits)
qed

definition registry_ok :: "monitored_registry \<Rightarrow> bool" where
  "registry_ok r \<longleftrightarrow> mr_endpoint r \<noteq> [] \<and> rt_Scheme (mr_target r) \<in> {''http'', ''https''}
     \<and> rt_Host (mr_target r) \<noteq> [] \<and> 1 \<le> rt_Port (mr_target r) \<and> rt_Port (mr_target r) \<le> 65535
     \<and> distinct (mr_ips r) \<and> (\<forall>s \<in> set (mr_ips r). normal_ip s)
     \<and> mr_repository r \<noteq> [] \<and> hd (mr_repository r) \<noteq> CHR ''/'' \<and> last (mr_repository r) \<noteq> CHR ''/''
     \<and> mr_reference r \<noteq> [] \<and> mr_manifestAcceptHeader r \<noteq> [] \<and> mr_headers r [] = None"

lemma parse_registry_ok:
  assumes "parseMonitoredRegistry cfg = Inr r"
  shows "registry_ok r"
proof -
  obtain t ips where p: "TrimSpace (rcf_Endpoint cfg) \<noteq> []" "parseRegistryTarget (rcf_Endpoint cfg) = Inr t"
      "normalizeRegistryIPs (rcf_IPs cfg) (rcf_Endpoint cfg) = Inr ips"
      "normalizeRepository (rcf_Repository cfg) \<noteq> []" "TrimSpace (rcf_Reference cfg) \<noteq> []"
    and r: "r = \<lparr>mr_endpoint = TrimSpace (rcf_Endpoint cfg), mr_info = TrimSpace (rcf_Info cfg),
      mr_target = t, mr_ips = ips, mr_repository = normalizeRepository (rcf_Repository cfg),
      mr_reference = TrimSpace (rcf_Reference cfg), mr_manifestAcceptHeader =
        (if TrimSpace (rcf_ManifestAcceptHeader cfg) = [] then defaultManifestMediaType
         else TrimSpace (rcf_ManifestAcceptHeader cfg)), mr_headers = trimmed_headers (rcf_Headers cfg)\<rparr>"
    using assms
    by (auto simp: parseMonitoredRegistry_def Let_def invalid_entry_def split: sum.splits if_splits)
  have "trimmed_headers (rcf_Headers cfg) [] = None"
    using trimmed_headers_names [of "rcf_Headers cfg" "[]"] by (cases "trimmed_headers (rcf_Headers cfg) []") auto
  moreover have "distinct ips \<and> (\<forall>s \<in> set ips. normal_ip s)"
    by (rule normalize_ips_ok [OF registry_ips_normalize [OF p(3) [unfolded normalizeRegistryIPs_def]]]) simp_all
  ultimately show ?thesis
    using parseRegistryTarget_ok [OF p(2,1)] normalizeRepository_edges [OF p(4)] p(1,4,5)
    by (simp add: registry_ok_def r defaultManifestMediaType_def)
qed

lemma parse_registries_map:
  "parseMonitoredRegistries vs = Inr rs \<Longrightarrow> map Inr rs = map parseMonitoredRegistry vs"
proof (induction vs arbitrary: rs)
  case (Cons v vs)
  obtain r rs' where "parseMonitoredRegistry v = Inr r" "parseMonitoredRegistries vs = Inr rs'"
      "rs = (if mr_endpoint r = [] then rs' else r # rs')"
    using Cons.prems by (auto split: sum.splits)
  with Cons.IH parse_registry_ok [of v r] show ?case by (simp add: registry_ok_def)
qed simp

lemma parse_registries_fails:
  "parseMonitoredRegistries vs = Inl e \<Longrightarrow> \<exists>v \<in> set vs. parseMonitoredRegistry v = Inl e"
  by (induction vs) (auto split: sum.splits if_splits)

text \<open>A configuration is accepted exactly when every one of its registries is, and then all of them are
  monitored, in order: none is skipped. Each has an http or https target with a host and a port in
  range, distinct normal addresses, a repository without outer slashes, a reference, a manifest type, and no
  header without a name. A refused configuration is refused for one of its entries.\<close>

theorem accepted_registries_are_checkable:
  shows "case registry_newRuntimeConfig cfg of
     Inr rc \<Rightarrow> map Inr (rr_registries rc) = map parseMonitoredRegistry (rpc_Registries cfg)
        \<and> list_all registry_ok (rr_registries rc)
   | Inl e \<Rightarrow> Inl e \<in> parseMonitoredRegistry ` set (rpc_Registries cfg)"
proof (cases "parseMonitoredRegistries (rpc_Registries cfg)")
  case (Inl e)
  then show ?thesis using parse_registries_fails [OF Inl] by (force simp: registry_newRuntimeConfig_def)
next
  case (Inr rs)
  have m: "map Inr rs = map parseMonitoredRegistry (rpc_Registries cfg)"
    by (rule parse_registries_map [OF Inr])
  have "registry_ok r" if "r \<in> set rs" for r
  proof -
    have "Inr r \<in> set (map parseMonitoredRegistry (rpc_Registries cfg))" using that by (simp flip: m)
    then obtain v where "Inr r = parseMonitoredRegistry v" by auto
    then show ?thesis using parse_registry_ok [of v r] by simp
  qed
  then show ?thesis using m by (simp add: registry_newRuntimeConfig_def Inr list_all_iff)
qed

section \<open>URLs are printed and read back\<close>

definition registry_host_ok :: "string \<Rightarrow> bool" where
  "registry_host_ok h \<longleftrightarrow> h \<noteq> [] \<and> list_all host_plain h \<and> CHR ''['' \<notin> set h \<and> CHR '']'' \<notin> set h"

lemma host_plain_props:
  assumes "host_plain c"
  shows "\<not> is_space c" "\<not> is_ctl c" "c \<notin> set ''%/?#@''"
  using assms
  by (auto simp: host_plain_def is_digit_def is_letter_def is_space_def is_ctl_def host_chars_def Let_def)

lemma escape_plain: "list_all host_plain s \<Longrightarrow> escape host_chars s = s"
  by (induction s) (auto simp: escape_def host_plain_def is_letter_def Let_def)

lemma unescape_host_plain: "list_all host_plain s \<Longrightarrow> unescape_host zone s = Inr s"
  using host_plain_props(3) by (induction s) auto

lemma find_sub_None: "c \<in> set p \<Longrightarrow> c \<notin> set s \<Longrightarrow> find_sub p s = None"
  using set_mono_prefix by (induction s) fastforce+

lemma port_text:
  assumes "1 \<le> p"
  shows "list_all is_digit (Itoa p)" "Itoa p \<noteq> []" "list_all host_plain (Itoa p)"
    "set (Itoa p) \<inter> set ''[]/?#:'' = {}"
proof -
  show d: "list_all is_digit (Itoa p)" "Itoa p \<noteq> []" using Itoa_digits [of p] assms by auto
  then show "list_all host_plain (Itoa p)" by (simp add: list_all_iff host_plain_def)
  show "set (Itoa p) \<inter> set ''[]/?#:'' = {}" using d(1) digit_props(2) by (auto simp: list_all_iff)
qed

lemma registryAuthority_Join: "registryAuthority h p = JoinHostPort h (Itoa p)"
  by (simp add: registryAuthority_def)

lemma authority_plain:
  assumes "registry_host_ok h" "1 \<le> p"
  shows "list_all host_plain (registryAuthority h p)"
  using assms port_text(3) [OF assms(2)]
  by (auto simp: registryAuthority_Join JoinHostPort_def registry_host_ok_def host_plain_def host_chars_def)

lemma parse_host_authority:
  assumes "registry_host_ok h" "1 \<le> p"
  shows "parse_host (registryAuthority h p) = Inr (registryAuthority h p)"
proof -
  let ?a = "registryAuthority h p"
  have h: "list_all host_plain h" "CHR ''['' \<notin> set h" "CHR '']'' \<notin> set h"
    using assms(1) by (simp_all add: registry_host_ok_def)
  have u: "unescape_host False ?a = Inr ?a" by (rule unescape_host_plain [OF authority_plain [OF assms]])
  have v: "valid_optional_port (CHR '':'' # Itoa p)" by (simp add: valid_optional_port_def port_text [OF assms(2)])
  have "CHR '']'' \<notin> set (CHR '':'' # Itoa p)" "CHR '':'' \<notin> set (Itoa p)"
    using port_text(4) [OF assms(2)] by auto
  note last = LastIndexByte_append [OF this(1)] LastIndexByte_append [OF this(2)]
  show ?thesis
  proof (cases "CHR '':'' \<in> set h")
    case True
    then have a: "?a = CHR ''['' # h @ CHR '']'' # CHR '':'' # Itoa p"
      by (simp add: registryAuthority_Join JoinHostPort_def)
    have "CHR ''%'' \<notin> set (CHR ''['' # h)" using h(1) host_plain_props(3) by (auto simp: list_all_iff)
    then have "find_sub ''%25'' (CHR ''['' # h) = None" using find_sub_None [of "CHR ''%''" "''%25''"] by simp
    then show ?thesis
      using u v last(1) [of "CHR ''['' # h"] by (simp add: parse_host_def a HasPrefix_def)
  next
    case False
    then have a: "?a = h @ CHR '':'' # Itoa p" by (simp add: registryAuthority_Join JoinHostPort_def)
    have "\<not> HasPrefix (h @ CHR '':'' # Itoa p) ''[''" using h(2) by (cases h) (auto simp: HasPrefix_def)
    then show ?thesis using u v last(2) [of h] by (simp add: parse_host_def a)
  qed
qed

lemma takeWhile_append_stop:
  "\<forall>x \<in> set xs. P x \<Longrightarrow> ys = [] \<or> \<not> P (hd ys) \<Longrightarrow> takeWhile P (xs @ ys) = xs"
  by (cases ys) (simp_all add: takeWhile_append)

lemma registry_scheme:
  assumes "sch \<in> {''http'', ''https''}"
  shows "get_scheme (sch @ CHR '':'' # r) = Inr (sch, r)" "ToLower sch = sch" "sch \<noteq> []"
    "set sch \<inter> set ''?#'' = {}" "\<forall>c \<in> set sch. \<not> is_ctl c"
  using assms
  by (auto simp: get_scheme_def scheme_char_def is_letter_def is_digit_def is_ctl_def ToLower_def to_lower_def Let_def)

lemma url_Parse_authority:
  assumes "sch \<in> {''http'', ''https''}" "registry_host_ok h" "1 \<le> p"
    and "path = [] \<or> hd path = CHR ''/''" "set path \<inter> set ''?#'' = {}" "list_all (\<lambda>c. \<not> is_ctl c) path"
      "unescape path = Inr q"
  shows "url_Parse (sch @ ''://'' @ registryAuthority h p @ path) = Inr \<lparr>pu_Scheme = sch, pu_User = False,
     pu_Host = registryAuthority h p, pu_Path = q, pu_RawQuery = [], pu_Fragment = []\<rparr>"
proof -
  let ?a = "registryAuthority h p"
  let ?raw = "sch @ ''://'' @ ?a @ path"
  have a: "\<forall>c \<in> set ?a. \<not> is_ctl c \<and> c \<notin> set ''/?#@''"
    using authority_plain [OF assms(2,3)] host_plain_props by (auto simp: list_all_iff)
  note s = registry_scheme [OF assms(1)]
  have clean: "\<forall>c \<in> set ?raw. c \<noteq> CHR ''#''" "\<not> list_ex is_ctl ?raw"
    using a s(4,5) assms(5,6) by (auto simp: list_ex_iff list_all_iff is_ctl_def)
  have q: "\<forall>c \<in> set (''//'' @ ?a @ path). c \<noteq> CHR ''?''" using a assms(5) by auto
  have slash: "takeWhile (\<lambda>c. c \<noteq> CHR ''/'') (?a @ path) = ?a"
    by (rule takeWhile_append_stop) (use a assms(4) in auto)
  have "CHR ''@'' \<notin> set ?a" using a by auto
  then have "parse_authority ?a = Inr (False, ?a)"
    using LastIndexByte_None [THEN iffD2] by (simp add: parse_authority_def parse_host_authority [OF assms(2,3)])
  note auth = this
  define rest where "rest = ''//'' @ ?a @ path"
  have r: "HasPrefix rest ''/''" "HasPrefix rest ''//''" "drop 2 rest = ?a @ path"
    "takeWhile (\<lambda>c. c \<noteq> CHR ''?'') rest = rest"
    using q by (simp_all add: rest_def HasPrefix_def takeWhile_eq_all_conv)
  have raw: "?raw = sch @ CHR '':'' # rest" by (simp add: rest_def)
  have "url_parse_main ?raw = Inr \<lparr>pu_Scheme = sch, pu_User = False, pu_Host = ?a, pu_Path = q,
      pu_RawQuery = [], pu_Fragment = []\<rparr>"
    using clean(2) unfolding raw by (simp add: url_parse_main_def s(1-3) r slash auth assms(7) Let_def)
  then show ?thesis
    unfolding url_Parse_def Let_def takeWhile_eq_all_conv [THEN iffD2, OF clean(1)] by simp
qed

lemma TrimSpace_url:
  assumes "sch \<in> {''http'', ''https''}" "registry_host_ok h" "1 \<le> p"
  shows "TrimSpace (sch @ ''://'' @ registryAuthority h p) = sch @ ''://'' @ registryAuthority h p"
  unfolding TrimSpace_def
proof (rule Trim_by_fixed)
  have a: "registryAuthority h p \<noteq> []" using assms(2) by (auto simp: registryAuthority_Join JoinHostPort_def)
  then have "host_plain (last (registryAuthority h p))"
    using authority_plain [OF assms(2,3)] by (auto simp: list_all_iff)
  then show "\<not> is_space (last (sch @ ''://'' @ registryAuthority h p))"
    using a host_plain_props(1) by simp
  show "\<not> is_space (hd (sch @ ''://'' @ registryAuthority h p))"
    using assms(1) by (auto simp: is_space_def)
qed simp

text \<open>A target whose host has only characters that a URL takes as they are is printed as the base URL of its
  requests, and this URL is parsed back as the same target: an IPv6 address is put into brackets and
  taken out of them, and scheme, host and port survive.\<close>

theorem registry_url_round_trip:
  assumes "rt_Scheme t \<in> {''http'', ''https''}" "registry_host_ok (rt_Host t)" "1 \<le> rt_Port t"
    "rt_Port t \<le> 65535"
  shows "parseRegistryTarget (registryBaseURL t) = Inr t"
proof -
  let ?a = "registryAuthority (rt_Host t) (rt_Port t)"
  have url: "registryBaseURL t = rt_Scheme t @ ''://'' @ ?a"
    by (simp add: registryBaseURL_def escape_plain authority_plain [OF assms(2,3)])
  have parse: "url_Parse (registryBaseURL t) = Inr \<lparr>pu_Scheme = rt_Scheme t, pu_User = False,
      pu_Host = ?a, pu_Path = [], pu_RawQuery = [], pu_Fragment = []\<rparr>"
    using url_Parse_authority [OF assms(1-3), of "[]" "[]"] by (simp add: url)
  have scheme: "normalizeRegistryScheme (rt_Scheme t) = rt_Scheme t" using assms(1)
    by (auto simp: normalizeRegistryScheme_def) code_simp+
  have h: "rt_Host t \<noteq> []" "CHR ''['' \<notin> set (rt_Host t)" "CHR '']'' \<notin> set (rt_Host t)"
      "\<forall>c \<in> set (rt_Host t). host_plain c"
    using assms(2) by (simp_all add: registry_host_ok_def list_all_iff)
  have trim: "trim_brackets (TrimSpace (rt_Host t)) = rt_Host t"
  proof -
    have "TrimSpace (rt_Host t) = rt_Host t"
      unfolding TrimSpace_def
      by (rule Trim_by_fixed) (use h(1,4) host_plain_props(1) in simp_all)
    moreover have "c \<notin> set ''[]''" if "c \<in> set (rt_Host t)" for c using that h(2,3) by auto
    note Trim_by_fixed [OF h(1) this [OF hd_in_set] this [OF last_in_set]]
    ultimately show ?thesis using h(1) by (simp add: trim_brackets_def)
  qed
  have "SplitHostPort ?a = Inr (rt_Host t, Itoa (rt_Port t))"
    unfolding registryAuthority_Join
    by (rule SplitHostPort_Join) (use h(2,3) port_text(4) [OF assms(3)] in auto)
  moreover have "TrimSpace (Itoa (rt_Port t)) \<noteq> []"
    using Trim_by_fixed [of "Itoa (rt_Port t)" is_space] port_text(1,2) [OF assms(3)] digit_props(1)
    by (simp add: TrimSpace_def list_all_iff)
  ultimately have split: "splitRegistryHostPort ?a e = Inr (rt_Host t, rt_Port t)" for e
    using Atoi_Itoa [of "rt_Port t"] assms(3,4) by (simp add: splitRegistryHostPort_def registry_parsePort_def)
  have "Contains (registryBaseURL t) ''://''" unfolding url Contains_def sublist_def by blast
  moreover have "registryBaseURL t \<noteq> []" "?a \<noteq> []" using h(1) by (simp_all add: url registryAuthority_Join JoinHostPort_def)
  moreover have "TrimSpace (registryBaseURL t) = registryBaseURL t" using TrimSpace_url [OF assms(1-3)] by (simp add: url)
  moreover have "validateRegistryScheme (rt_Scheme t) = None" "rt_Scheme t \<noteq> []"
    using assms(1) scheme by (auto simp: validateRegistryScheme_def)
  moreover have "newRegistryTarget (rt_Scheme t) (rt_Host t) (rt_Port t) e = Inr t" for e
    using trim h(1) assms(3,4) by (simp add: newRegistryTarget_def)
  ultimately show ?thesis
    by (simp add: parseRegistryTarget_def parse split scheme Let_def)
qed

definition demo_target :: registry_target where
  "demo_target = \<lparr>rt_Scheme = ''https'', rt_Host = ''2001:db8::1'', rt_Port = 5443\<rparr>"

lemma registry_url_round_trip_witness:
  "registryBaseURL demo_target = ''https://[2001:db8::1]:5443'' \<and>
   parseRegistryTarget (registryBaseURL demo_target) = Inr demo_target"
proof -
  have h: "registry_host_ok (rt_Host demo_target)" by code_simp
  have "Itoa 5443 = ''5443''" by (simp add: Itoa_def dec_string.simps digit_char_def) code_simp
  then have "registryBaseURL demo_target = ''https://[2001:db8::1]:5443''"
    using escape_plain [OF authority_plain [OF h, of 5443]]
    by (simp add: registryBaseURL_def demo_target_def registryAuthority_Join JoinHostPort_def)
  moreover have "parseRegistryTarget (registryBaseURL demo_target) = Inr demo_target"
    by (rule registry_url_round_trip [OF _ h]) (simp_all add: demo_target_def)
  ultimately show ?thesis by (rule conjI)
qed
lemma unescape_append: "CHR ''%'' \<notin> set a \<Longrightarrow> unescape (a @ b) = map_sum id ((@) a) (unescape b)"
proof (induction a)
  case Nil
  then show ?case by (cases "unescape b") simp_all
next
  case (Cons c a)
  then have "c \<noteq> CHR ''%''" by auto
  with Cons show ?case by (cases "unescape b") simp_all
qed

lemma byte_bound: "(of_char c :: nat) < 256"
  using of_char_of [of "of_char c :: nat"] by (metis char_of_char mod_less_divisor zero_less_numeral)

lemma hex_val_upper: "n < 16 \<Longrightarrow> hex_val (upper_hex n) = Some n"
  by (auto simp: hex_val_def upper_hex_def hex_digit_def to_upper_def Let_def of_char_of)

lemma unescape_escape:
  assumes "CHR ''%'' \<notin> set allowed"
  shows "unescape (escape allowed s) = Inr s"
proof (induction s)
  case (Cons c s)
  have e: "escape allowed (c # s) = escape allowed [c] @ escape allowed s" by (simp add: escape_def)
  have d: "(of_char c :: nat) div 16 < 16" "(of_char c :: nat) mod 16 < 16"
    using byte_bound [of c] by (simp_all add: less_mult_imp_div_less)
  show ?case
  proof (cases "escape allowed [c] = [c]")
    case True
    have "c \<noteq> CHR ''%''" using True assms by (auto simp: escape_def is_digit_def Let_def split: if_splits)
    then show ?thesis using Cons by (simp add: e True)
  next
    case False
    then have "escape allowed [c] = [CHR ''%'', upper_hex (of_char c div 16), upper_hex (of_char c mod 16)]"
      by (auto simp: escape_def Let_def split: if_splits)
    then show ?thesis
      using Cons hex_val_upper [OF d(1)] hex_val_upper [OF d(2)] by (simp add: e)
  qed
qed (simp add: escape_def)

lemma escape_chars:
  assumes "c \<in> set (escape allowed s)"
  shows "is_digit c \<or> is_letter c \<or> c \<in> set ''-_.~%'' \<or> c \<in> set allowed"
proof -
  have u: "is_digit (upper_hex n) \<or> is_letter (upper_hex n)" if "n < 16" for n
    using that by (auto simp: upper_hex_def hex_digit_def to_upper_def Let_def is_digit_def is_letter_def of_char_of)
  obtain d where "d \<in> set s" "c \<in> set (escape allowed [d])" using assms by (auto simp: escape_def)
  moreover have "(of_char d :: nat) div 16 < 16" using byte_bound [of d] by (simp add: less_mult_imp_div_less)
  ultimately show ?thesis
    using u [of "of_char d div 16"] u [of "of_char d mod 16"]
    by (auto simp: escape_def is_letter_def Let_def split: if_splits)
qed

text \<open>The manifest request is for the repository and the reference as configured: what the server reads from
  the path is them, whatever bytes the reference has.\<close>

lemma manifest_path:
  assumes "rt_Scheme t \<in> {''http'', ''https''}" "registry_host_ok (rt_Host t)" "1 \<le> rt_Port t" "mr_target r = t"
    "list_all host_plain (filter (\<lambda>c. c \<noteq> CHR ''/'') (mr_repository r))"
    "normalizeRepository (mr_repository r) = mr_repository r"
  shows "url_Parse (registryManifestURL r) = Inr \<lparr>pu_Scheme = rt_Scheme t, pu_User = False,
     pu_Host = registryAuthority (rt_Host t) (rt_Port t),
     pu_Path = ''/v2/'' @ mr_repository r @ ''/manifests/'' @ mr_reference r, pu_RawQuery = [], pu_Fragment = []\<rparr>"
proof -
  let ?ref = "escape segment_chars (mr_reference r)"
  let ?dir = "''/v2/'' @ mr_repository r @ ''/manifests/''"
  have url: "registryManifestURL r = rt_Scheme t @ ''://'' @ registryAuthority (rt_Host t) (rt_Port t) @ (?dir @ ?ref)"
    by (simp add: registryManifestURL_def registryBaseURL_def escape_plain authority_plain [OF assms(2,3)] assms(4,6))
  have repo: "host_plain c" if "c \<in> set (mr_repository r)" "c \<noteq> CHR ''/''" for c
    using assms(5) that by (auto simp: list_all_iff)
  have dir: "c \<noteq> CHR ''%'' \<and> c \<notin> set ''?#'' \<and> \<not> is_ctl c" if "c \<in> set ?dir" for c
  proof (cases "c \<in> set (mr_repository r) \<and> c \<noteq> CHR ''/''")
    case True
    then show ?thesis using host_plain_props [OF repo] by auto
  next
    case False
    then have "c \<in> set ''/v2manifests''" using that by auto
    then show ?thesis by (auto simp: is_ctl_def)
  qed
  have ref: "c \<notin> set ''?#'' \<and> \<not> is_ctl c" if "c \<in> set ?ref" for c
    using escape_chars [OF that]
    by (auto simp: is_digit_def is_letter_def is_ctl_def segment_chars_def Let_def)
  have "unescape (?dir @ ?ref) = Inr (?dir @ mr_reference r)"
    using unescape_append [of ?dir ?ref] dir unescape_escape [of segment_chars "mr_reference r"]
    by (auto simp: segment_chars_def)
  then show ?thesis
    using url_Parse_authority [OF assms(1-3), of "?dir @ ?ref" "?dir @ mr_reference r"] dir ref
    by (auto simp: url list_all_iff)
qed

end
