(* ===== verification/Registry_Check.thy ===== *)
theory Registry_Check
  imports Registry_Config
begin

text \<open>
  \<open>pkg/collector/registryproxy/checker.go\<close>: the checks of one registry, each of its addresses with a
  request of the API and one of the manifest. The resolver and the HTTP client are the record
  \<open>registry_net\<close>; a request carries the functions that its transport's hooks compute, so that where it
  goes is part of the model.
\<close>

section \<open>Requests\<close>

text \<open>\<open>CanonicalHeaderKey\<close> and \<open>Header.Set\<close> of \<open>net/http\<close>.\<close>

definition token_char :: "char \<Rightarrow> bool" where
  "token_char c \<longleftrightarrow> is_letter c \<or> is_digit c \<or> c \<in> set ''!#$%&*+-.^_`|~'' \<or> c = CHR 0x27"

fun canonical_from :: "bool \<Rightarrow> string \<Rightarrow> string" where
  "canonical_from up [] = []"
| "canonical_from up (c # s) = (if up then to_upper c else to_lower c) # canonical_from (c = CHR ''-'') s"

definition CanonicalHeaderKey :: "string \<Rightarrow> string" where
  "CanonicalHeaderKey s = (if list_all token_char s then canonical_from True s else s)"

type_synonym header = "string \<Rightarrow> string option"

definition Header_Set :: "string \<Rightarrow> string \<Rightarrow> header \<Rightarrow> header" where
  "Header_Set name value h = h(CanonicalHeaderKey name \<mapsto> value)"

record tls_config =
  tc_ServerName :: string
  tc_MinVersion :: nat

record registry_request =
  rq_url :: string
  rq_host :: string
  rq_header :: header
  rq_timeout :: int
  rq_dial :: "string \<Rightarrow> string res"
  rq_tls :: tls_config

text \<open>An error of the client: its text, whether it wraps one of the two errors of a context, and what its
  \<open>Timeout\<close> method returns when it is a network error.\<close>

record client_error =
  ce_text :: string
  ce_Canceled :: bool
  ce_DeadlineExceeded :: bool
  ce_Timeout :: "bool option"

record registry_net =
  rn_LookupHost :: "string \<Rightarrow> int \<Rightarrow> string list res"
  rn_NewRequest :: "string \<Rightarrow> err option"
  rn_Do :: "registry_request \<Rightarrow> (client_error + int) \<times> int"
  rn_now :: int

definition sameRegistryHost :: "string \<Rightarrow> string \<Rightarrow> bool" where
  "sameRegistryHost left right = EqualFold (trim_brackets left) (trim_brackets right)"

definition registryDialAddress :: "monitored_registry \<Rightarrow> string \<Rightarrow> string \<Rightarrow> string res" where
  "registryDialAddress registry ip addr = (case SplitHostPort addr of
       Inl e \<Rightarrow> Inl (''address '' @ addr @ '': '' @ addr_error_text e)
     | Inr (dialHost, dialPort) \<Rightarrow>
         Inr (if sameRegistryHost dialHost (rt_Host (mr_target registry)) then JoinHostPort ip dialPort else addr))"

definition VersionTLS12 :: nat where "VersionTLS12 = 0x0303"

definition registryTLSConfig :: "monitored_registry \<Rightarrow> tls_config option \<Rightarrow> tls_config" where
  "registryTLSConfig registry base =
     (let c = (case base of None \<Rightarrow> \<lparr>tc_ServerName = [], tc_MinVersion = 0\<rparr> | Some b \<Rightarrow> b);
          c' = c\<lparr>tc_ServerName := rt_Host (mr_target registry)\<rparr>
      in if tc_MinVersion c' = 0 then c'\<lparr>tc_MinVersion := VersionTLS12\<rparr> else c')"

section \<open>Results\<close>

text \<open>The empty error type of the source is \<open>None\<close>.\<close>

datatype registry_error = RDNS | RNoIP | RTimeout | RConnect | RHTTPStatus | RRequest | RContext

record registry_result =
  rs_Success :: bool
  rs_ResponseTime :: int
  rs_StatusCode :: int
  rs_Error :: string
  rs_ErrorType :: "registry_error option"

record registry_health =
  rh_Endpoint :: string
  rh_Info :: string
  rh_Scheme :: string
  rh_Host :: string
  rh_Port :: int
  rh_Repository :: string
  rh_Reference :: string
  rh_ResolveOk :: bool
  rh_IPCount :: int
  rh_HealthyIPs :: int
  rh_UnhealthyIPs :: int
  rh_LastChecked :: int

record registry_ip =
  ri_Endpoint :: string
  ri_Info :: string
  ri_Scheme :: string
  ri_Host :: string
  ri_Port :: int
  ri_Repository :: string
  ri_Reference :: string
  ri_IP :: string
  ri_DNSChecked :: bool
  ri_DNSOk :: bool
  ri_DNSError :: string
  ri_DNSErrorType :: "registry_error option"
  ri_APIChecked :: bool
  ri_APIOk :: bool
  ri_APIStatusCode :: int
  ri_APIError :: string
  ri_APIErrorType :: "registry_error option"
  ri_APIResponseTime :: int
  ri_ManifestChecked :: bool
  ri_ManifestOk :: bool
  ri_ManifestStatus :: int
  ri_ManifestError :: string
  ri_ManifestErrorType :: "registry_error option"
  ri_ManifestTime :: int
  ri_LastChecked :: int

record registry_checker =
  rk_timeout :: int
  rk_tlsConfig :: "tls_config option"

definition NewRegistryChecker :: "int \<Rightarrow> registry_checker" where
  "NewRegistryChecker timeout = \<lparr>rk_timeout = timeout, rk_tlsConfig = None\<rparr>"

section \<open>One request\<close>

definition errorsIsContext :: "client_error \<Rightarrow> bool" where
  "errorsIsContext e \<longleftrightarrow> ce_Canceled e \<or> ce_DeadlineExceeded e"

definition classifyRegistryError :: "client_error option \<Rightarrow> registry_error option" where
  "classifyRegistryError err = (case err of
       None \<Rightarrow> None
     | Some e \<Rightarrow>
         if errorsIsContext e then Some RContext
         else if ce_Timeout e = Some True then Some RTimeout
         else let message = ToLower (ce_text e) in
           if Contains message ''timeout'' \<or> Contains message ''deadline exceeded'' then Some RTimeout
           else if Contains message ''connection refused'' \<or> Contains message ''no route to host''
                \<or> Contains message ''network is unreachable'' then Some RConnect
           else Some RRequest)"

definition isRegistryAPIStatus :: "int \<Rightarrow> bool" where
  "isRegistryAPIStatus statusCode \<longleftrightarrow> 200 \<le> statusCode \<and> statusCode < 300 \<or> statusCode = 401"

text \<open>The configured headers are set in the order \<open>order\<close> of the loop over their map.\<close>

definition request_header :: "(string \<times> string) list \<Rightarrow> monitored_registry \<Rightarrow> bool \<Rightarrow> header" where
  "request_header order registry manifest =
     (let h = foldl (\<lambda>h (name, value). Header_Set name value h) Map.empty order
      in if manifest then Header_Set ''Accept'' (mr_manifestAcceptHeader registry) h else h)"

definition registry_request_of :: "(string \<times> string) list \<Rightarrow> registry_checker \<Rightarrow> monitored_registry \<Rightarrow> string \<Rightarrow> string
    \<Rightarrow> bool \<Rightarrow> registry_request" where
  "registry_request_of order rc registry ip requestURL manifest =
     \<lparr>rq_url = requestURL,
      rq_host = registryAuthority (rt_Host (mr_target registry)) (rt_Port (mr_target registry)),
      rq_header = request_header order registry manifest, rq_timeout = rk_timeout rc,
      rq_dial = registryDialAddress registry ip, rq_tls = registryTLSConfig registry (rk_tlsConfig rc)\<rparr>"

definition checkRegistryEndpoint :: "registry_net \<Rightarrow> (string \<times> string) list \<Rightarrow> registry_checker \<Rightarrow> monitored_registry
    \<Rightarrow> string \<Rightarrow> string \<Rightarrow> bool \<Rightarrow> registry_result" where
  "checkRegistryEndpoint N order rc registry ip requestURL manifest = (case rn_NewRequest N requestURL of
       Some e \<Rightarrow> \<lparr>rs_Success = False, rs_ResponseTime = 0, rs_StatusCode = 0,
          rs_Error = ''failed to create request: '' @ e, rs_ErrorType = Some RRequest\<rparr>
     | None \<Rightarrow> (case rn_Do N (registry_request_of order rc registry ip requestURL manifest) of
         (Inl e, t) \<Rightarrow> \<lparr>rs_Success = False, rs_ResponseTime = t, rs_StatusCode = 0,
            rs_Error = ''request failed: '' @ ce_text e, rs_ErrorType = classifyRegistryError (Some e)\<rparr>
       | (Inr code, t) \<Rightarrow>
           if manifest \<and> (code < 200 \<or> code \<ge> 300)
           then \<lparr>rs_Success = False, rs_ResponseTime = t, rs_StatusCode = code,
              rs_Error = ''unexpected manifest status code: '' @ Itoa code, rs_ErrorType = Some RHTTPStatus\<rparr>
           else if \<not> manifest \<and> \<not> isRegistryAPIStatus code
           then \<lparr>rs_Success = False, rs_ResponseTime = t, rs_StatusCode = code,
              rs_Error = ''unexpected API status code: '' @ Itoa code, rs_ErrorType = Some RHTTPStatus\<rparr>
           else \<lparr>rs_Success = True, rs_ResponseTime = t, rs_StatusCode = code, rs_Error = [],
              rs_ErrorType = None\<rparr>))"

section \<open>One address\<close>

definition newRegistryIPHealth :: "monitored_registry \<Rightarrow> string \<Rightarrow> int \<Rightarrow> bool \<Rightarrow> string \<Rightarrow> registry_error option
    \<Rightarrow> registry_ip" where
  "newRegistryIPHealth r ip now dnsOk dnsError dnsErrorType =
     \<lparr>ri_Endpoint = mr_endpoint r, ri_Info = mr_info r, ri_Scheme = rt_Scheme (mr_target r),
      ri_Host = rt_Host (mr_target r), ri_Port = rt_Port (mr_target r), ri_Repository = mr_repository r,
      ri_Reference = mr_reference r, ri_IP = ip, ri_DNSChecked = True, ri_DNSOk = dnsOk,
      ri_DNSError = dnsError, ri_DNSErrorType = dnsErrorType, ri_APIChecked = False, ri_APIOk = False,
      ri_APIStatusCode = 0, ri_APIError = [], ri_APIErrorType = None, ri_APIResponseTime = 0,
      ri_ManifestChecked = False, ri_ManifestOk = False, ri_ManifestStatus = 0, ri_ManifestError = [],
      ri_ManifestErrorType = None, ri_ManifestTime = 0, ri_LastChecked = now\<rparr>"

text \<open>The environment of the check of one address: the network and the orders of the two header loops.\<close>

record ip_env =
  ie_net :: registry_net
  ie_order1 :: "(string \<times> string) list"
  ie_order2 :: "(string \<times> string) list"

definition registry_runIPChecks :: "ip_env \<Rightarrow> registry_checker \<Rightarrow> monitored_registry \<Rightarrow> string \<Rightarrow> registry_ip
    \<Rightarrow> registry_ip" where
  "registry_runIPChecks E rc r ip h =
     (let api = checkRegistryEndpoint (ie_net E) (ie_order1 E) rc r ip (registryAPIURL r) False;
          m = checkRegistryEndpoint (ie_net E) (ie_order2 E) rc r ip (registryManifestURL r) True
      in h\<lparr>ri_APIChecked := True, ri_APIOk := rs_Success api, ri_APIStatusCode := rs_StatusCode api,
           ri_APIError := rs_Error api, ri_APIErrorType := rs_ErrorType api,
           ri_APIResponseTime := rs_ResponseTime api, ri_ManifestChecked := True,
           ri_ManifestOk := rs_Success m, ri_ManifestStatus := rs_StatusCode m,
           ri_ManifestError := rs_Error m, ri_ManifestErrorType := rs_ErrorType m,
           ri_ManifestTime := rs_ResponseTime m\<rparr>)"

definition resolveRegistryIPs :: "registry_net \<Rightarrow> string \<Rightarrow> int \<Rightarrow> string list \<times> string" where
  "resolveRegistryIPs N host timeout = (case ParseIP host of
       Some p \<Rightarrow> ([ip_String p], [])
     | None \<Rightarrow> (case rn_LookupHost N host timeout of
         Inl e \<Rightarrow> ([], ''DNS lookup failed: '' @ e)
       | Inr ips \<Rightarrow> (ips, [])))"

section \<open>One registry\<close>

text \<open>
  With at most one address its check runs at once; with more, up to ten workers take indices from a
  channel until the context is done. A check writes only its own record, so the order of the workers does
  not matter; \<open>enq\<close> is the number of indices that were handed out.
\<close>

definition registry_workers :: "nat \<Rightarrow> nat" where
  "registry_workers n = min n 10"

definition check_registry_ips :: "(nat \<Rightarrow> ip_env) \<Rightarrow> nat \<Rightarrow> registry_checker \<Rightarrow> monitored_registry \<Rightarrow> int
    \<Rightarrow> string list \<Rightarrow> registry_ip list" where
  "check_registry_ips Es enq rc r now ips =
     map (\<lambda>i. let ip = ips ! i; h = newRegistryIPHealth r ip now True [] None
              in if registry_workers (length ips) \<le> 1 \<or> i < enq then registry_runIPChecks (Es i) rc r ip h else h)
         [0..<length ips]"

definition registry_healthy :: "registry_ip \<Rightarrow> bool" where
  "registry_healthy h \<longleftrightarrow> ri_APIOk h \<and> ri_ManifestOk h"

definition new_registry_health :: "monitored_registry \<Rightarrow> int \<Rightarrow> registry_health" where
  "new_registry_health r now =
     \<lparr>rh_Endpoint = mr_endpoint r, rh_Info = mr_info r, rh_Scheme = rt_Scheme (mr_target r),
      rh_Host = rt_Host (mr_target r), rh_Port = rt_Port (mr_target r), rh_Repository = mr_repository r,
      rh_Reference = mr_reference r, rh_ResolveOk = True, rh_IPCount = 0, rh_HealthyIPs = 0,
      rh_UnhealthyIPs = 0, rh_LastChecked = now\<rparr>"

definition registry_CheckIPs :: "registry_net \<Rightarrow> (nat \<Rightarrow> ip_env) \<Rightarrow> nat \<Rightarrow> registry_checker \<Rightarrow> monitored_registry
    \<Rightarrow> registry_health \<times> registry_ip list" where
  "registry_CheckIPs N Es enq rc r =
     (let now = rn_now N; health = new_registry_health r now;
          (resolved, dnsErr) = (if mr_ips r = [] then resolveRegistryIPs N (rt_Host (mr_target r)) (rk_timeout rc)
             else (mr_ips r, []))
      in if dnsErr \<noteq> []
         then (health\<lparr>rh_ResolveOk := False\<rparr>, [newRegistryIPHealth r [] now False dnsErr (Some RDNS)])
         else if resolved = []
         then (health, [newRegistryIPHealth r [] now False ''DNS resolution returned no IPs'' (Some RNoIP)])
         else let results = check_registry_ips Es enq rc r now resolved;
                  healthy = int (length (filter registry_healthy results))
              in (health\<lparr>rh_IPCount := int (length resolved), rh_HealthyIPs := healthy,
                    rh_UnhealthyIPs := int (length resolved) - healthy\<rparr>, results))"

section \<open>Where the requests go\<close>

lemma trim_brackets_host:
  assumes "registry_host_ok h"
  shows "trim_brackets h = h"
proof -
  have "c \<notin> set ''[]''" if "c \<in> set h" for c using that assms by (auto simp: registry_host_ok_def)
  moreover have "h \<noteq> []" using assms by (simp add: registry_host_ok_def)
  ultimately show ?thesis unfolding trim_brackets_def by (intro Trim_by_fixed) simp_all
qed

lemma dial_authority:
  assumes "registry_host_ok (rt_Host (mr_target r))" "registry_host_ok h" "1 \<le> p"
  shows "registryDialAddress r ip (registryAuthority h p) =
    Inr (if EqualFold h (rt_Host (mr_target r)) then JoinHostPort ip (Itoa p) else registryAuthority h p)"
proof -
  have "SplitHostPort (registryAuthority h p) = Inr (h, Itoa p)"
    unfolding registryAuthority_Join
    by (rule SplitHostPort_Join) (use assms(2) port_text(4) [OF assms(3)] in \<open>auto simp: registry_host_ok_def\<close>)
  then show ?thesis
    by (simp add: registryDialAddress_def sameRegistryHost_def trim_brackets_host assms(1,2))
qed

lemma request_accept: "request_header order r True ''Accept'' = Some (mr_manifestAcceptHeader r)"
proof -
  have "CanonicalHeaderKey ''Accept'' = ''Accept''" by code_simp
  then show ?thesis by (simp add: request_header_def Header_Set_def)
qed

definition request_ok :: "monitored_registry \<Rightarrow> bool" where
  "request_ok r \<longleftrightarrow> registry_ok r \<and> registry_host_ok (rt_Host (mr_target r))
     \<and> list_all host_plain (filter (\<lambda>c. c \<noteq> CHR ''/'') (mr_repository r))
     \<and> normalizeRepository (mr_repository r) = mr_repository r"

text \<open>C26. The two requests of an address are for the registry, by its name, and are sent to that address. Their
  URLs name the scheme, the host and the port of the endpoint, and the paths of the API and of the manifest
  of the repository and reference, which the server reads as configured, whatever bytes the reference has;
  a connection for the registry's host, in any case of its letters, goes to the address that is checked, with
  the port asked for; one for another host, as after a redirect, goes to that host. The name for TLS is the
  host, and the manifest is asked for in the configured type, whatever the configured headers say.\<close>

theorem requests_are_pinned:
  assumes "request_ok r"
  shows "let t = mr_target r; a = registryAuthority (rt_Host t) (rt_Port t);
             q = registry_request_of order rc r ip (registryManifestURL r) True;
             url = (\<lambda>path. Inr \<lparr>pu_Scheme = rt_Scheme t, pu_User = False, pu_Host = a, pu_Path = path,
                pu_RawQuery = [], pu_Fragment = []\<rparr>) in
     url_Parse (registryAPIURL r) = url ''/v2/''
     \<and> url_Parse (rq_url q) = url (''/v2/'' @ mr_repository r @ ''/manifests/'' @ mr_reference r)
     \<and> rq_host q = a \<and> tc_ServerName (rq_tls q) = rt_Host t
     \<and> rq_header q ''Accept'' = Some (mr_manifestAcceptHeader r)
     \<and> (\<forall>h p. registry_host_ok h \<and> 1 \<le> p \<longrightarrow> rq_dial q (registryAuthority h p)
          = Inr (if EqualFold h (rt_Host t) then JoinHostPort ip (Itoa p) else registryAuthority h p))"
proof -
  let ?t = "mr_target r"
  have ok: "rt_Scheme ?t \<in> {''http'', ''https''}" "registry_host_ok (rt_Host ?t)" "1 \<le> rt_Port ?t"
    "list_all host_plain (filter (\<lambda>c. c \<noteq> CHR ''/'') (mr_repository r))"
    "normalizeRepository (mr_repository r) = mr_repository r"
    using assms by (simp_all add: request_ok_def registry_ok_def)
  have "url_Parse (registryAPIURL r) = Inr \<lparr>pu_Scheme = rt_Scheme ?t, pu_User = False,
      pu_Host = registryAuthority (rt_Host ?t) (rt_Port ?t), pu_Path = ''/v2/'', pu_RawQuery = [], pu_Fragment = []\<rparr>"
    using url_Parse_authority [OF ok(1-3), of "''/v2/''" "''/v2/''"]
    by (simp add: registryAPIURL_def registryBaseURL_def escape_plain authority_plain [OF ok(2,3)] is_ctl_def)
  then show ?thesis
    using manifest_path [OF ok(1-3) refl ok(4,5)] dial_authority [OF ok(2)]
    by (simp add: registry_request_of_def registryTLSConfig_def request_accept Let_def)
qed

definition demo_registry :: monitored_registry where
  "demo_registry = \<lparr>mr_endpoint = ''http://r.io:80'', mr_info = ''i'',
     mr_target = \<lparr>rt_Scheme = ''http'', rt_Host = ''r.io'', rt_Port = 80\<rparr>, mr_ips = [''10.0.0.1'', ''::1''],
     mr_repository = ''library/busybox'', mr_reference = ''a/b c'', mr_manifestAcceptHeader = ''application/json'',
     mr_headers = [''accept'' \<mapsto> ''*'']\<rparr>"

lemma demo_registry_fields [simp]:
  "mr_target demo_registry = \<lparr>rt_Scheme = ''http'', rt_Host = ''r.io'', rt_Port = 80\<rparr>"
  "mr_repository demo_registry = ''library/busybox''" "mr_reference demo_registry = ''a/b c''"
  by (simp_all add: demo_registry_def)

lemma demo_registry_ok: "request_ok demo_registry"
proof -
  have "ParseIP ''10.0.0.1'' = Some (v4_prefix @ [10, 0, 0, 1])" "ip_String (v4_prefix @ [10, 0, 0, 1]) = ''10.0.0.1''"
    "ParseIP ''::1'' = Some (replicate 15 0 @ [1])" "ip_String (replicate 15 0 @ [1]) = ''::1''" by code_simp+
  then have "normal_ip ''10.0.0.1''" "normal_ip ''::1''"
    using normal_ipI [of "''10.0.0.1''" "v4_prefix @ [10, 0, 0, 1]"] normal_ipI [of "''::1''" "replicate 15 0 @ [1]"]
    by simp_all
  moreover have "registry_host_ok ''r.io''" "list_all host_plain (filter (\<lambda>c. c \<noteq> CHR ''/'') ''library/busybox'')"
    "normalizeRepository ''library/busybox'' = ''library/busybox''" by code_simp+
  ultimately show ?thesis by (simp add: request_ok_def registry_ok_def demo_registry_def)
qed

lemma requests_are_pinned_witness:
  "registryDialAddress demo_registry ''::1'' ''R.IO:80'' = Inr ''[::1]:80''
   \<and> map_sum id pu_Path (url_Parse (registryManifestURL demo_registry)) = Inr ''/v2/library/busybox/manifests/a/b c''"
proof -
  have a: "registryAuthority ''R.IO'' 80 = ''R.IO:80''" "JoinHostPort ''::1'' (Itoa 80) = ''[::1]:80''"
    "registry_host_ok ''R.IO''" "EqualFold ''R.IO'' ''r.io''" by code_simp+
  note p = requests_are_pinned [OF demo_registry_ok, of "[]" "NewRegistryChecker 30" "''::1''", unfolded Let_def]
  have "rq_dial (registry_request_of [] (NewRegistryChecker 30) demo_registry ''::1''
      (registryManifestURL demo_registry) True) (registryAuthority ''R.IO'' 80) = Inr ''[::1]:80''"
    using p [THEN conjunct2, THEN conjunct2, THEN conjunct2, THEN conjunct2, THEN conjunct2, rule_format,
      of "''R.IO''" 80] a by simp
  moreover have "url_Parse (registryManifestURL demo_registry) = Inr \<lparr>pu_Scheme = ''http'', pu_User = False,
      pu_Host = registryAuthority ''r.io'' 80, pu_Path = ''/v2/library/busybox/manifests/a/b c'',
      pu_RawQuery = [], pu_Fragment = []\<rparr>"
    using p by (simp add: registry_request_of_def)
  ultimately show ?thesis using a(1) by (simp add: registry_request_of_def)
qed

section \<open>What a check reports\<close>

text \<open>The answer to a request; an address is in order when the API answers with a success or asks for
  authentication, and the manifest with a success.\<close>

definition answer_to :: "registry_net \<Rightarrow> (string \<times> string) list \<Rightarrow> registry_checker \<Rightarrow> monitored_registry \<Rightarrow> string
    \<Rightarrow> string \<Rightarrow> bool \<Rightarrow> int option" where
  "answer_to N order rc r ip url manifest =
     (if rn_NewRequest N url \<noteq> None then None
      else case rn_Do N (registry_request_of order rc r ip url manifest) of
          (Inr code, _) \<Rightarrow> Some code | (Inl e, _) \<Rightarrow> None)"

definition in_order :: "ip_env \<Rightarrow> registry_checker \<Rightarrow> monitored_registry \<Rightarrow> string \<Rightarrow> bool" where
  "in_order E rc r ip \<longleftrightarrow>
     (case answer_to (ie_net E) (ie_order1 E) rc r ip (registryAPIURL r) False of
        None \<Rightarrow> False | Some code \<Rightarrow> 200 \<le> code \<and> code < 300 \<or> code = 401)
     \<and> (case answer_to (ie_net E) (ie_order2 E) rc r ip (registryManifestURL r) True of
        None \<Rightarrow> False | Some code \<Rightarrow> 200 \<le> code \<and> code < 300)"

lemma endpoint_success:
  "rs_Success (checkRegistryEndpoint N order rc r ip url manifest) \<longleftrightarrow>
     (case answer_to N order rc r ip url manifest of None \<Rightarrow> False
      | Some code \<Rightarrow> 200 \<le> code \<and> code < 300 \<or> \<not> manifest \<and> code = 401)"
  by (auto simp: checkRegistryEndpoint_def answer_to_def isRegistryAPIStatus_def
      split: option.splits sum.splits prod.splits)

lemma endpoint_error_type:
  "rs_ErrorType (checkRegistryEndpoint N order rc r ip url manifest) = None \<longleftrightarrow>
     rs_Success (checkRegistryEndpoint N order rc r ip url manifest)"
  by (auto simp: checkRegistryEndpoint_def classifyRegistryError_def Let_def split: option.splits sum.splits prod.splits)

lemma runIPChecks_healthy [simp]:
  "registry_healthy (registry_runIPChecks E rc r ip h) \<longleftrightarrow> in_order E rc r ip"
  by (simp add: registry_healthy_def registry_runIPChecks_def endpoint_success in_order_def Let_def
      split: option.split)

lemma new_registry_ip_unhealthy [simp]: "\<not> registry_healthy (newRegistryIPHealth r ip now ok e t)"
  by (simp add: registry_healthy_def newRegistryIPHealth_def)

lemma runIPChecks_labels [simp]:
  "ri_IP (registry_runIPChecks E rc r ip h) = ri_IP h" "ri_Endpoint (registry_runIPChecks E rc r ip h) = ri_Endpoint h"
  "ri_Info (registry_runIPChecks E rc r ip h) = ri_Info h"
  "ri_Repository (registry_runIPChecks E rc r ip h) = ri_Repository h"
  "ri_Reference (registry_runIPChecks E rc r ip h) = ri_Reference h"
  "ri_DNSChecked (registry_runIPChecks E rc r ip h) = ri_DNSChecked h"
  "ri_DNSOk (registry_runIPChecks E rc r ip h) = ri_DNSOk h"
  "ri_Scheme (registry_runIPChecks E rc r ip h) = ri_Scheme h" "ri_Host (registry_runIPChecks E rc r ip h) = ri_Host h"
  "ri_Port (registry_runIPChecks E rc r ip h) = ri_Port h"
  by (simp_all add: registry_runIPChecks_def Let_def)

lemma newRegistryIPHealth_labels [simp]:
  "ri_IP (newRegistryIPHealth r ip now ok e t) = ip" "ri_Endpoint (newRegistryIPHealth r ip now ok e t) = mr_endpoint r"
  "ri_Info (newRegistryIPHealth r ip now ok e t) = mr_info r"
  "ri_Repository (newRegistryIPHealth r ip now ok e t) = mr_repository r"
  "ri_Reference (newRegistryIPHealth r ip now ok e t) = mr_reference r"
  "ri_DNSChecked (newRegistryIPHealth r ip now ok e t)" "ri_DNSOk (newRegistryIPHealth r ip now ok e t) = ok"
  "ri_Scheme (newRegistryIPHealth r ip now ok e t) = rt_Scheme (mr_target r)"
  "ri_Host (newRegistryIPHealth r ip now ok e t) = rt_Host (mr_target r)"
  "ri_Port (newRegistryIPHealth r ip now ok e t) = rt_Port (mr_target r)"
  "\<not> ri_APIChecked (newRegistryIPHealth r ip now ok e t)" "ri_APIErrorType (newRegistryIPHealth r ip now ok e t) = None"
  "\<not> ri_ManifestChecked (newRegistryIPHealth r ip now ok e t)"
  by (simp_all add: newRegistryIPHealth_def)

lemma endpoint_error_some:
  "(\<exists>y. rs_ErrorType (checkRegistryEndpoint N order rc r ip url manifest) = Some y) \<longleftrightarrow>
     \<not> rs_Success (checkRegistryEndpoint N order rc r ip url manifest)"
  unfolding not_None_eq [symmetric] endpoint_error_type ..

lemma api_error_type:
  "(\<exists>y. ri_APIErrorType (registry_runIPChecks E rc r ip h) = Some y) \<longleftrightarrow>
     ri_APIChecked (registry_runIPChecks E rc r ip h) \<and> \<not> ri_APIOk (registry_runIPChecks E rc r ip h)"
  by (simp add: registry_runIPChecks_def endpoint_error_some Let_def)

definition reached :: "nat \<Rightarrow> nat \<Rightarrow> nat \<Rightarrow> bool" where
  "reached enq n i \<longleftrightarrow> n \<le> 1 \<or> i < enq"

lemma registry_workers_1: "registry_workers n \<le> 1 \<longleftrightarrow> n \<le> 1"
  "registry_workers n \<le> Suc 0 \<longleftrightarrow> n \<le> 1"
  by (auto simp: registry_workers_def)

lemma check_registry_ips_nth:
  "i < length ips \<Longrightarrow> check_registry_ips Es enq rc r now ips ! i =
    (let h = newRegistryIPHealth r (ips ! i) now True [] None
     in if reached enq (length ips) i then registry_runIPChecks (Es i) rc r (ips ! i) h else h)"
  by (simp add: check_registry_ips_def reached_def registry_workers_1 Let_def)

lemma check_registry_ips_length [simp]: "length (check_registry_ips Es enq rc r now ips) = length ips"
  by (simp add: check_registry_ips_def)

lemma check_registry_ips_IPs [simp]: "map ri_IP (check_registry_ips Es enq rc r now ips) = ips"
  by (rule nth_equalityI) (simp_all add: check_registry_ips_nth Let_def)

lemma length_filter_nth:
  "length (filter P xs) = card {i. i < length xs \<and> P (xs ! i)}"
  by (simp add: length_filter_conv_card)

lemma healthy_count:
  "length (filter registry_healthy (check_registry_ips Es enq rc r now ips))
     = card {i. i < length ips \<and> reached enq (length ips) i \<and> in_order (Es i) rc r (ips ! i)}"
proof -
  have "(i < length ips \<and> registry_healthy (check_registry_ips Es enq rc r now ips ! i)) \<longleftrightarrow>
      (i < length ips \<and> reached enq (length ips) i \<and> in_order (Es i) rc r (ips ! i))" for i
    by (cases "i < length ips") (simp_all add: check_registry_ips_nth Let_def)
  then show ?thesis by (simp add: length_filter_nth)
qed

definition registry_addresses :: "registry_net \<Rightarrow> registry_checker \<Rightarrow> monitored_registry \<Rightarrow> string list res" where
  "registry_addresses N rc r =
     (if mr_ips r \<noteq> [] then Inr (mr_ips r)
      else case ParseIP (rt_Host (mr_target r)) of
          Some p \<Rightarrow> Inr [ip_String p]
        | None \<Rightarrow> rn_LookupHost N (rt_Host (mr_target r)) (rk_timeout rc))"

lemma registry_CheckIPs_addresses:
  "registry_CheckIPs N Es enq rc r = (let now = rn_now N; health = new_registry_health r now in
     case registry_addresses N rc r of
       Inl e \<Rightarrow> (health\<lparr>rh_ResolveOk := False\<rparr>,
          [newRegistryIPHealth r [] now False (''DNS lookup failed: '' @ e) (Some RDNS)])
     | Inr ips \<Rightarrow> if ips = [] then (health, [newRegistryIPHealth r [] now False
            ''DNS resolution returned no IPs'' (Some RNoIP)])
         else let hs = check_registry_ips Es enq rc r now ips; n = int (length (filter registry_healthy hs)) in
           (health\<lparr>rh_IPCount := int (length ips), rh_HealthyIPs := n,
              rh_UnhealthyIPs := int (length ips) - n\<rparr>, hs))"
  by (simp add: registry_CheckIPs_def registry_addresses_def resolveRegistryIPs_def Let_def
      split: option.splits sum.splits)

text \<open>A check accounts for every address of a registry, configured or resolved: one record for each, in
  order; the healthy ones are those that were reached before the context ended and are in order, that is
  the API answered 2xx or 401 and the manifest 2xx; the others are unhealthy, so that both add up. A
  resolution that fails makes the registry unresolved with one record; one that gives no address leaves it
  marked as resolved, with one record that is not. A request has an error type just when it
  was made and failed.\<close>

theorem registry_check_accounts:
  shows "case registry_addresses N rc r of
     Inl e \<Rightarrow> let (rh, hs) = registry_CheckIPs N Es enq rc r in
        \<not> rh_ResolveOk rh \<and> rh_IPCount rh = 0 \<and> map ri_DNSErrorType hs = [Some RDNS] \<and> map ri_DNSOk hs = [False]
   | Inr ips \<Rightarrow> let (rh, hs) = registry_CheckIPs N Es enq rc r in
        rh_ResolveOk rh \<and> rh_IPCount rh = int (length ips)
        \<and> rh_HealthyIPs rh = int (card {i. i < length ips \<and> reached enq (length ips) i \<and> in_order (Es i) rc r (ips ! i)})
        \<and> rh_HealthyIPs rh + rh_UnhealthyIPs rh = rh_IPCount rh
        \<and> (if ips = [] then map ri_DNSErrorType hs = [Some RNoIP] \<and> map ri_DNSOk hs = [False]
           else hs = map (\<lambda>i. let h = newRegistryIPHealth r (ips ! i) (rn_now N) True [] None in
               if reached enq (length ips) i then registry_runIPChecks (Es i) rc r (ips ! i) h else h) [0..<length ips])
        \<and> list_all (\<lambda>h. (ri_APIErrorType h \<noteq> None) = (ri_APIChecked h \<and> \<not> ri_APIOk h)) hs"
proof (cases "registry_addresses N rc r")
  case (Inl e)
  then show ?thesis
    by (simp add: registry_CheckIPs_addresses new_registry_health_def newRegistryIPHealth_def Let_def)
next
  case (Inr ips)
  let ?h = "\<lambda>i. newRegistryIPHealth r (ips ! i) (rn_now N) True [] None"
  let ?hs = "map (\<lambda>i. if reached enq (length ips) i then registry_runIPChecks (Es i) rc r (ips ! i) (?h i)
     else ?h i) [0..<length ips]"
  have hs: "check_registry_ips Es enq rc r (rn_now N) ips = ?hs"
    by (rule nth_equalityI) (simp_all add: check_registry_ips_nth)
  have "list_all (\<lambda>h. (ri_APIErrorType h \<noteq> None) = (ri_APIChecked h \<and> \<not> ri_APIOk h)) ?hs"
    by (auto simp: list_all_iff api_error_type dest: api_error_type [THEN iffD1, OF exI])
  then show ?thesis
    using healthy_count [of Es enq rc r "rn_now N" ips]
    by (simp add: Inr registry_CheckIPs_addresses new_registry_health_def newRegistryIPHealth_def hs Let_def)
qed

text \<open>An error of the context is reported as such even when it is a timeout, so the deadline of the client
  itself is not reported as a timeout.\<close>

lemma deadline_is_context:
  "ce_DeadlineExceeded e \<Longrightarrow> classifyRegistryError (Some e) = Some RContext"
  by (simp add: classifyRegistryError_def errorsIsContext_def)

end
