(* ===== verification/Registry_Collector.thy ===== *)
theory Registry_Collector
  imports Registry_Check Collector_Kit "HOL-Library.Multiset"
begin

text \<open>
  \<open>pkg/collector/registryproxy/registryproxy.go\<close> and \<open>factory.go\<close>: the collector that checks every
  configured registry on each turn of the poll loop, replaces its two maps and emits them. The registries of
  a poll are checked concurrently, each by a goroutine that stores its results under a lock, so a poll is
  given the registries in the order in which their checks ended, with what each check saw. The maps are
  iterated in the order of given lists of their entries.
\<close>

section \<open>State\<close>

record registry_descs =
  rd_health :: desc
  rd_dns :: desc
  rd_status :: desc
  rd_response :: desc

record registryproxy =
  rp_runtime :: registry_runtime
  rp_checker :: registry_checker
  rp_ips :: "string \<Rightarrow> registry_ip option"
  rp_registries :: "string \<Rightarrow> registry_health option"
  rp_descs :: registry_descs

definition registry_desc :: "prom \<Rightarrow> string \<Rightarrow> string \<Rightarrow> string \<Rightarrow> string list \<Rightarrow> desc" where
  "registry_desc P ns n help labels =
     \<lparr>d_fqName = pr_BuildFQName P ns ''registry_proxy'' n, d_help = help,
      d_labels = [''endpoint'', ''scheme'', ''host'', ''port'', ''info'', ''repository'', ''reference''] @ labels\<rparr>"

definition registry_descs_of :: "prom \<Rightarrow> string \<Rightarrow> registry_descs" where
  "registry_descs_of P ns =
     \<lparr>rd_health = registry_desc P ns ''health'' ''Registry proxy aggregate health metrics'' [''type''],
      rd_dns = registry_desc P ns ''dns_status'' ''Registry proxy DNS status (1=ok, 0=error)'' [''error_type''],
      rd_status = registry_desc P ns ''status'' ''Registry proxy API and manifest status (1=ok, 0=error)''
         [''ip'', ''check_type'', ''status_code'', ''error_type''],
      rd_response = registry_desc P ns ''response_time_seconds''
         ''Registry proxy API and manifest response time in seconds'' [''ip'', ''check_type'']\<rparr>"

definition registry_desc_list :: "registry_descs \<Rightarrow> desc list" where
  "registry_desc_list D = [rd_health D, rd_dns D, rd_status D, rd_response D]"

definition registry_initMetrics :: "prom \<Rightarrow> string \<Rightarrow> base \<Rightarrow> (registry_descs \<times> base) go" where
  "registry_initMetrics P ns b =
     (let D = registry_descs_of P ns in bind_go (register_descs (registry_desc_list D) b) (\<lambda>b'. Ret (D, b')))"

text \<open>\<open>load\<close> is \<open>LoadModuleConfig\<close> on the section of the collector; its error is only logged.\<close>

definition registry_NewCollector :: "prom \<Rightarrow> string \<Rightarrow> (registryproxy_config \<Rightarrow> registryproxy_config \<times> err option)
    \<Rightarrow> (registryproxy \<times> base) res go" where
  "registry_NewCollector P ns load = (case registry_newRuntimeConfig (fst (load registryproxy_NewDefaultConfig)) of
       Inl e \<Rightarrow> Ret (Inl e)
     | Inr rc \<Rightarrow>
         bind_go (registry_initMetrics P ns (NewBaseCollector ''registryproxy'' [WithWaitReadyOnCollect True]))
           (\<lambda>(descs, b). Ret (Inr
              (\<lparr>rp_runtime = rc, rp_checker = NewRegistryChecker (rr_checkTimeout rc), rp_ips = Map.empty,
                rp_registries = Map.empty, rp_descs = descs\<rparr>, b))))"

definition registry_HasSynced :: "registryproxy \<Rightarrow> bool" where
  "registry_HasSynced c = True"

definition registry_Interval :: "registryproxy \<Rightarrow> int" where
  "registry_Interval c = rr_checkInterval (rp_runtime c)"

section \<open>Keys\<close>

definition monitoredRegistryKey :: "monitored_registry \<Rightarrow> string" where
  "monitoredRegistryKey r = mr_endpoint r @ ''/'' @ mr_info r @ ''/'' @ mr_repository r @ ''/'' @ mr_reference r"

definition ipHealthConfigKey :: "registry_ip \<Rightarrow> string" where
  "ipHealthConfigKey h = ri_Endpoint h @ ''/'' @ ri_Info h @ ''/'' @ ri_Repository h @ ''/'' @ ri_Reference h"

definition registryIPKey :: "registry_ip \<Rightarrow> string" where
  "registryIPKey h = ipHealthConfigKey h @ ''/'' @ ri_IP h"

section \<open>Polling\<close>

record registry_turn =
  tu_registry :: monitored_registry
  tu_net :: registry_net
  tu_envs :: "nat \<Rightarrow> ip_env"
  tu_enqueued :: nat

definition turn_result :: "registry_checker \<Rightarrow> registry_turn \<Rightarrow> registry_health \<times> registry_ip list" where
  "turn_result rc t = registry_CheckIPs (tu_net t) (tu_envs t) (tu_enqueued t) rc (tu_registry t)"

definition store_turn :: "registry_checker
    \<Rightarrow> (string \<Rightarrow> registry_health option) \<times> (string \<Rightarrow> registry_ip option) \<Rightarrow> registry_turn
    \<Rightarrow> (string \<Rightarrow> registry_health option) \<times> (string \<Rightarrow> registry_ip option)" where
  "store_turn rc maps t = (case maps of (rs, is) \<Rightarrow> case turn_result rc t of (rh, hs) \<Rightarrow>
     (rs(monitoredRegistryKey (tu_registry t) \<mapsto> rh), foldl (\<lambda>m h. m(registryIPKey h \<mapsto> h)) is hs))"

text \<open>The turns are the configured registries, each once, in the order in which their checks end.\<close>

definition registry_Poll :: "registry_turn list \<Rightarrow> registryproxy \<Rightarrow> registryproxy" where
  "registry_Poll turns c =
     (if rr_registries (rp_runtime c) = [] then c
      else case foldl (store_turn (rp_checker c)) (Map.empty, Map.empty) turns of
        (rs, is) \<Rightarrow> c\<lparr>rp_ips := is, rp_registries := rs\<rparr>)"

definition registry_poll_of :: "registryproxy \<Rightarrow> registry_turn list \<Rightarrow> bool" where
  "registry_poll_of c turns \<longleftrightarrow> mset (map tu_registry turns) = mset (rr_registries (rp_runtime c))"

definition registry_poll_next :: "(registry_turn list \<times> int) list \<times> registryproxy
    \<Rightarrow> err option \<times> int \<times> (registry_turn list \<times> int) list \<times> registryproxy" where
  "registry_poll_next s = (case s of ([], c) \<Rightarrow> (None, 0, [], c)
     | ((ts, d) # rest, c) \<Rightarrow> (None, d, rest, registry_Poll ts c))"

definition registry_poll_options :: "registryproxy \<Rightarrow> poll_options" where
  "registry_poll_options c = \<lparr>po_Interval = rr_checkInterval (rp_runtime c), po_Operation = ''registryproxy'',
     po_SlowThreshold = 0, po_SuccessInfoLog = False\<rparr>"

definition registry_pollLoop :: "base \<Rightarrow> (registry_turn list \<times> int) list \<times> registryproxy \<Rightarrow> loop_event list
    \<Rightarrow> (base \<times> poll_log list \<times> (registry_turn list \<times> int) list \<times> registryproxy) go" where
  "registry_pollLoop b s es = RunPollLoop registry_poll_next (registry_poll_options (snd s)) b s es"

section \<open>Emission\<close>

definition registry_error_text :: "registry_error option \<Rightarrow> string" where
  "registry_error_text t = (case t of None \<Rightarrow> [] | Some e \<Rightarrow> (case e of
       RDNS \<Rightarrow> ''DNS'' | RNoIP \<Rightarrow> ''NoIP'' | RTimeout \<Rightarrow> ''Timeout'' | RConnect \<Rightarrow> ''Connect''
     | RHTTPStatus \<Rightarrow> ''HTTPStatus'' | RRequest \<Rightarrow> ''Request'' | RContext \<Rightarrow> ''Context''))"

definition registryHealthLabels :: "registry_health \<Rightarrow> string list" where
  "registryHealthLabels h = [rh_Endpoint h, rh_Scheme h, rh_Host h, Itoa (rh_Port h), rh_Info h,
     rh_Repository h, rh_Reference h]"

definition ip_labels :: "registry_ip \<Rightarrow> string list" where
  "ip_labels h = [ri_Endpoint h, ri_Scheme h, ri_Host h, Itoa (ri_Port h), ri_Info h, ri_Repository h, ri_Reference h]"

definition registry_health_rows :: "registry_descs \<Rightarrow> registry_health \<Rightarrow> row list" where
  "registry_health_rows D h = (let ls = registryHealthLabels h in
     [(rd_health D, boolToFloat64 (rh_ResolveOk h), ls @ [''resolve'']),
      (rd_health D, float_of_int (rh_IPCount h), ls @ [''ip_count'']),
      (rd_health D, float_of_int (rh_HealthyIPs h), ls @ [''healthy_ips'']),
      (rd_health D, float_of_int (rh_UnhealthyIPs h), ls @ [''unhealthy_ips''])])"

fun registry_dns_rows :: "registry_descs \<Rightarrow> string set \<Rightarrow> registry_ip list \<Rightarrow> row list" where
  "registry_dns_rows D emitted [] = []"
| "registry_dns_rows D emitted (h # hs) =
     (if \<not> ri_DNSChecked h then registry_dns_rows D emitted hs
      else if ipHealthConfigKey h \<in> emitted then registry_dns_rows D emitted hs
      else (rd_dns D, boolToFloat64 (ri_DNSOk h), ip_labels h @ [registry_error_text (ri_DNSErrorType h)])
             # registry_dns_rows D (insert (ipHealthConfigKey h) emitted) hs)"

definition emitStatusMetric :: "registry_descs \<Rightarrow> registry_ip \<Rightarrow> string \<Rightarrow> bool \<Rightarrow> int \<Rightarrow> registry_error option \<Rightarrow> row"
  where
  "emitStatusMetric D h checkType ok statusCode errorType =
     (rd_status D, boolToFloat64 ok,
      ip_labels h @ [ri_IP h, checkType, Itoa statusCode, registry_error_text errorType])"

definition emitResponseTimeMetric :: "registry_descs \<Rightarrow> registry_ip \<Rightarrow> string \<Rightarrow> int \<Rightarrow> row" where
  "emitResponseTimeMetric D h checkType t = (rd_response D, Seconds t, ip_labels h @ [ri_IP h, checkType])"

definition registry_ip_rows :: "registry_descs \<Rightarrow> registry_ip \<Rightarrow> row list" where
  "registry_ip_rows D h =
     (if ri_APIChecked h
      then emitStatusMetric D h ''api'' (ri_APIOk h) (ri_APIStatusCode h) (ri_APIErrorType h)
           # (if ri_APIResponseTime h > 0 then [emitResponseTimeMetric D h ''api'' (ri_APIResponseTime h)] else [])
      else [])
     @ (if ri_ManifestChecked h
        then emitStatusMetric D h ''manifest'' (ri_ManifestOk h) (ri_ManifestStatus h) (ri_ManifestErrorType h)
             # (if ri_ManifestTime h > 0 then [emitResponseTimeMetric D h ''manifest'' (ri_ManifestTime h)] else [])
        else [])"

text \<open>\<open>rs\<close>, \<open>is\<close> and \<open>is'\<close> are the entries in the order of the three loops.\<close>

definition registry_rows :: "registry_descs \<Rightarrow> (string \<times> registry_health) list \<Rightarrow> (string \<times> registry_ip) list
    \<Rightarrow> (string \<times> registry_ip) list \<Rightarrow> row list" where
  "registry_rows D rs is is' =
     concat (map (\<lambda>x. registry_health_rows D (snd x)) rs)
     @ registry_dns_rows D {} (map snd is)
     @ concat (map (\<lambda>x. registry_ip_rows D (snd x)) is')"

definition registry_collect :: "prom \<Rightarrow> registryproxy \<Rightarrow> (string \<times> registry_health) list
    \<Rightarrow> (string \<times> registry_ip) list \<Rightarrow> (string \<times> registry_ip) list \<Rightarrow> pmetric list \<times> string option" where
  "registry_collect P c rs is is' =
     emit (map (\<lambda>(d, v, ls). const_metric P d v ls) (registry_rows (rp_descs c) rs is is'))"

section \<open>The maps after a poll\<close>

definition health_key :: "registry_health \<Rightarrow> string" where
  "health_key h = rh_Endpoint h @ ''/'' @ rh_Info h @ ''/'' @ rh_Repository h @ ''/'' @ rh_Reference h"

lemma CheckIPs_keys:
  assumes "registry_CheckIPs N Es enq rc r = (rh, hs)"
  shows "health_key rh = monitoredRegistryKey r" "h \<in> set hs \<Longrightarrow> ipHealthConfigKey h = monitoredRegistryKey r"
  using assms
  by (auto simp: registry_CheckIPs_addresses new_registry_health_def health_key_def monitoredRegistryKey_def
      ipHealthConfigKey_def check_registry_ips_def Let_def split: sum.splits if_splits)

lemma turn_keys:
  "health_key (fst (turn_result rc t)) = monitoredRegistryKey (tu_registry t)"
  "h \<in> set (snd (turn_result rc t)) \<Longrightarrow> registryIPKey h = monitoredRegistryKey (tu_registry t) @ ''/'' @ ri_IP h"
  using CheckIPs_keys [of "tu_net t" "tu_envs t" "tu_enqueued t" rc "tu_registry t"]
  by (simp_all add: turn_result_def prod_eq_iff registryIPKey_def)

lemma store_turns:
  "foldl (store_turn rc) (rs, is) turns =
     (store_by health_key (map (\<lambda>t. fst (turn_result rc t)) turns) rs,
      store_by registryIPKey (concat (map (\<lambda>t. snd (turn_result rc t)) turns)) is)"
proof (induction turns arbitrary: rs "is")
  case (Cons t ts)
  have "store_turn rc (rs, is) t = (rs(health_key (fst (turn_result rc t)) \<mapsto> fst (turn_result rc t)),
      store_by registryIPKey (snd (turn_result rc t)) is)"
    by (simp add: store_turn_def turn_keys(1) store_by_def split_beta)
  then show ?case using Cons.IH by (simp add: store_by_def)
qed (simp add: store_by_def)

lemma registry_Poll_maps:
  assumes "rr_registries (rp_runtime c) \<noteq> []"
  shows "rp_registries (registry_Poll turns c)
      = store_by health_key (map (\<lambda>t. fst (turn_result (rp_checker c) t)) turns) Map.empty"
    "rp_ips (registry_Poll turns c)
      = store_by registryIPKey (concat (map (\<lambda>t. snd (turn_result (rp_checker c) t)) turns)) Map.empty"
  using assms by (simp_all add: registry_Poll_def store_turns)

lemma registry_Poll_fields [simp]:
  "rp_runtime (registry_Poll turns c) = rp_runtime c" "rp_checker (registry_Poll turns c) = rp_checker c"
  "rp_descs (registry_Poll turns c) = rp_descs c"
  by (simp_all add: registry_Poll_def split_beta)

definition registry_inv :: "registryproxy \<Rightarrow> bool" where
  "registry_inv c \<longleftrightarrow> (\<forall>k h. rp_registries c k = Some h \<longrightarrow> health_key h = k)
     \<and> (\<forall>k h. rp_ips c k = Some h \<longrightarrow> registryIPKey h = k)"

lemma registry_inv_Poll: "registry_inv c \<Longrightarrow> registry_inv (registry_Poll turns c)"
proof (cases "rr_registries (rp_runtime c) = []")
  case False
  then show ?thesis
    unfolding registry_inv_def registry_Poll_maps [OF False]
    using store_by_Some(2) [where key = health_key] store_by_Some(2) [where key = registryIPKey] by blast
qed (simp add: registry_Poll_def)

definition registry_after :: "registry_turn list list \<Rightarrow> registryproxy \<Rightarrow> registryproxy" where
  "registry_after polls c = foldl (\<lambda>c ts. registry_Poll ts c) c polls"

lemma registry_after_inv:
  "registry_inv c \<Longrightarrow> registry_inv (registry_after polls c) \<and> rp_descs (registry_after polls c) = rp_descs c"
  by (induction polls arbitrary: c) (simp_all add: registry_after_def registry_inv_Poll)

lemma registry_New_ok:
  assumes "registry_NewCollector P ns load = Ret (Inr (c, b))"
  shows "registry_inv c" "rp_descs c = registry_descs_of P ns"
  using assms
  by (auto simp: registry_NewCollector_def registry_initMetrics_def register_descs_eq Let_def registry_inv_def go_simps
      split: sum.splits)

section \<open>Which registries a key tells apart\<close>

definition tellable :: "monitored_registry \<Rightarrow> bool" where
  "tellable r \<longleftrightarrow> (\<exists>sch auth. mr_endpoint r = sch @ ''://'' @ auth \<and> slash_free sch \<and> slash_free auth)
     \<and> slash_free (mr_info r) \<and> slash_free (mr_reference r)"

definition registry_id :: "monitored_registry \<Rightarrow> string \<times> string \<times> string \<times> string" where
  "registry_id r = (mr_endpoint r, mr_info r, mr_repository r, mr_reference r)"

lemma slash_inject_last:
  assumes "slash_free p" "slash_free q"
  shows "a @ CHR ''/'' # p = b @ CHR ''/'' # q \<longleftrightarrow> a = b \<and> p = q"
proof
  assume "a @ CHR ''/'' # p = b @ CHR ''/'' # q"
  then have "rev p @ CHR ''/'' # rev a = rev q @ CHR ''/'' # rev b" by (metis append.assoc append_Cons append_Nil rev.simps(2) rev_append)
  then show "a = b \<and> p = q" using slash_inject [of "rev p" "rev q"] assms by (simp add: slash_free_def)
qed simp

lemma key_tells:
  assumes "tellable r" "tellable s" "monitoredRegistryKey r = monitoredRegistryKey s"
  shows "registry_id r = registry_id s"
proof -
  have colon: "slash_free (x @ '':'')" if "slash_free x" for x using that by (simp add: slash_free_def)
  have nil: "slash_free []" by (simp add: slash_free_def)
  obtain rs ra where r: "mr_endpoint r = rs @ ''://'' @ ra" "slash_free rs" "slash_free ra"
      "slash_free (mr_info r)" "slash_free (mr_reference r)" using assms(1) by (auto simp: tellable_def)
  obtain ss sa where s: "mr_endpoint s = ss @ ''://'' @ sa" "slash_free ss" "slash_free sa"
      "slash_free (mr_info s)" "slash_free (mr_reference s)" using assms(2) by (auto simp: tellable_def)
  let ?tail = "\<lambda>x. mr_info x @ CHR ''/'' # mr_repository x @ CHR ''/'' # mr_reference x"
  have "(rs @ '':'') @ CHR ''/'' # [] @ CHR ''/'' # ra @ CHR ''/'' # ?tail r
      = (ss @ '':'') @ CHR ''/'' # [] @ CHR ''/'' # sa @ CHR ''/'' # ?tail s"
    using assms(3) by (simp add: monitoredRegistryKey_def r(1) s(1))
  then have 1: "rs @ '':'' = ss @ '':''" "[] @ CHR ''/'' # ra @ CHR ''/'' # ?tail r = [] @ CHR ''/'' # sa @ CHR ''/'' # ?tail s"
    unfolding slash_inject [OF colon [OF r(2)] colon [OF s(2)]] by simp_all
  then have 2: "ra = sa" "?tail r = ?tail s"
    unfolding slash_inject [OF nil nil] slash_inject [OF r(3) s(3)] by simp_all
  then show ?thesis
    using 1(1) unfolding slash_inject [OF r(4) s(4)] slash_inject_last [OF r(5) s(5)]
    by (simp add: registry_id_def r(1) s(1))
qed

section \<open>What a poll reports\<close>

definition last_with_ip :: "string \<Rightarrow> registry_ip list \<Rightarrow> registry_ip option" where
  "last_with_ip ip hs = (let xs = filter (\<lambda>h. ri_IP h = ip) hs in if xs = [] then None else Some (last xs))"

lemma filter_concat_single:
  assumes "distinct ts" "t \<in> set ts" "\<And>u x. u \<in> set ts \<Longrightarrow> u \<noteq> t \<Longrightarrow> x \<in> set (f u) \<Longrightarrow> \<not> P x"
  shows "filter P (concat (map f ts)) = filter P (f t)"
  using assms
proof (induction ts)
  case (Cons u ts)
  show ?case
  proof (cases "u = t")
    case True
    have "filter P (concat (map f ts)) = []" using Cons.prems True by (auto simp: filter_empty_conv)
    then show ?thesis using True by simp
  next
    case False
    have "filter P (f u) = []" using Cons.prems(3) [of u] False by (auto simp: filter_empty_conv)
    moreover have "filter P (concat (map f ts)) = filter P (f t)"
      by (rule Cons.IH) (use Cons.prems False in auto)
    ultimately show ?thesis by simp
  qed
qed simp

lemma poll_tellable:
  assumes "registry_poll_of c turns" "distinct (map registry_id (rr_registries (rp_runtime c)))"
    "list_all tellable (rr_registries (rp_runtime c))"
  shows "distinct turns" "inj_on (\<lambda>t. monitoredRegistryKey (tu_registry t)) (set turns)"
proof -
  have "mset (map registry_id (map tu_registry turns)) = mset (map registry_id (rr_registries (rp_runtime c)))"
    using assms(1) unfolding registry_poll_of_def by (simp only: mset_map)
  then have d: "distinct (map (\<lambda>t. registry_id (tu_registry t)) turns)"
    using assms(2) mset_eq_imp_distinct_iff by (metis (no_types, lifting) list.map_comp comp_apply map_eq_conv)
  then show "distinct turns" by (simp add: distinct_map)
  have "set (map tu_registry turns) = set (rr_registries (rp_runtime c))"
    by (rule mset_eq_setD [OF assms(1) [unfolded registry_poll_of_def]])
  then have "tellable (tu_registry t)" if "t \<in> set turns" for t
    using assms(3) that by (auto simp: list_all_iff)
  then show "inj_on (\<lambda>t. monitoredRegistryKey (tu_registry t)) (set turns)"
    using d key_tells by (auto simp: distinct_map inj_on_def)
qed

text \<open>C40. A poll reports every registry and every address, when the registries differ in endpoint, info,
  repository or reference, the endpoints have no path, and neither the info nor the reference has a slash:
  there is one entry for each registry, the result of its check, and for each of its addresses the
  last record of that address in this result.\<close>

theorem registry_poll_reports_all:
  assumes "rr_registries (rp_runtime c) \<noteq> []" "registry_poll_of c turns"
    "distinct (map registry_id (rr_registries (rp_runtime c)))"
    "list_all tellable (rr_registries (rp_runtime c))"
    "list_all (\<lambda>t. list_all (\<lambda>h. slash_free (ri_IP h)) (snd (turn_result (rp_checker c) t))) turns"
    "c' = registry_Poll turns c"
  shows "card (dom (rp_registries c')) = length (rr_registries (rp_runtime c))
    \<and> (\<forall>t \<in> set turns. rp_registries c' (monitoredRegistryKey (tu_registry t)) = Some (fst (turn_result (rp_checker c) t))
       \<and> (\<forall>ip. slash_free ip \<longrightarrow> rp_ips c' (monitoredRegistryKey (tu_registry t) @ ''/'' @ ip)
             = last_with_ip ip (snd (turn_result (rp_checker c) t))))"
proof -
  let ?rc = "rp_checker c"
  let ?key = "\<lambda>t. monitoredRegistryKey (tu_registry t)"
  note d = poll_tellable [OF assms(2-4)]
  have len: "length turns = length (rr_registries (rp_runtime c))"
    using assms(2) unfolding registry_poll_of_def by (metis length_map size_mset)
  have keys: "health_key ` set (map (\<lambda>t. fst (turn_result ?rc t)) turns) = ?key ` set turns"
    by (simp add: image_image turn_keys(1))
  have "card (dom (rp_registries c')) = length turns"
    unfolding assms(6) registry_Poll_maps [OF assms(1)] store_by_dom keys
    using card_image [OF d(2)] distinct_card [OF d(1)] by simp
  moreover have "rp_registries c' (?key t) = Some (fst (turn_result ?rc t))" if "t \<in> set turns" for t
  proof -
    have "inj_on health_key (set (map (\<lambda>t. fst (turn_result ?rc t)) turns))"
      using d(2) by (auto simp: inj_on_def turn_keys(1))
    from store_by_inj [OF this, of "fst (turn_result ?rc t)"] that show ?thesis
      unfolding assms(6) registry_Poll_maps [OF assms(1)] by (simp add: turn_keys(1))
  qed
  moreover have "rp_ips c' (?key t @ ''/'' @ ip) = last_with_ip ip (snd (turn_result ?rc t))"
    if t: "t \<in> set turns" and ip: "slash_free ip" for t ip
  proof -
    let ?P = "\<lambda>h. registryIPKey h = ?key t @ ''/'' @ ip"
    have P: "?P h \<longleftrightarrow> ?key u = ?key t \<and> ri_IP h = ip" if "u \<in> set turns" "h \<in> set (snd (turn_result ?rc u))" for u h
    proof -
      have "slash_free (ri_IP h)" using assms(5) that by (auto simp: list_all_iff)
      then show ?thesis using slash_inject_last [of "ri_IP h" ip] ip by (simp add: turn_keys(2) [OF that(2)])
    qed
    have "filter ?P (concat (map (\<lambda>t. snd (turn_result ?rc t)) turns)) = filter ?P (snd (turn_result ?rc t))"
      by (rule filter_concat_single [OF d(1) t]) (use P d(2) t in \<open>auto dest: inj_onD\<close>)
    also have "\<dots> = filter (\<lambda>h. ri_IP h = ip) (snd (turn_result ?rc t))"
      using P [OF t] by (auto intro: filter_cong)
    finally show ?thesis
      unfolding assms(6) registry_Poll_maps [OF assms(1)] store_by_lookup by (simp add: last_with_ip_def Let_def)
  qed
  ultimately show ?thesis using len by simp
qed

text \<open>Beyond that, registries can collide: two registries that differ can have the same key, as when the slash of a
  repository belongs to the info of another, and then the one whose check ends first is not reported at all,
  neither its health nor, for an address that both have, the status of the address.\<close>

theorem colliding_registry_is_lost:
  assumes "mset (rr_registries (rp_runtime c)) = {# tu_registry s, tu_registry t #}"
    "monitoredRegistryKey (tu_registry s) = monitoredRegistryKey (tu_registry t)"
    "c' = registry_Poll [s, t] c"
  shows "rp_registries c' = [monitoredRegistryKey (tu_registry t) \<mapsto> fst (turn_result (rp_checker c) t)]
    \<and> (\<forall>h \<in> set (snd (turn_result (rp_checker c) t)). rp_ips c' (registryIPKey h) \<noteq> None \<and>
        (the (rp_ips c' (registryIPKey h))) \<in> set (snd (turn_result (rp_checker c) t)))"
proof -
  have ne: "rr_registries (rp_runtime c) \<noteq> []" using assms(1) by auto
  have "rp_registries c' = [monitoredRegistryKey (tu_registry t) \<mapsto> fst (turn_result (rp_checker c) t)]"
    unfolding assms(3) registry_Poll_maps [OF ne] by (simp add: store_by_def turn_keys(1) assms(2))
  moreover have "\<exists>x \<in> set (snd (turn_result (rp_checker c) t)). rp_ips c' (registryIPKey h) = Some x"
    if "h \<in> set (snd (turn_result (rp_checker c) t))" for h
  proof -
    let ?ys = "filter (\<lambda>x. registryIPKey x = registryIPKey h) (snd (turn_result (rp_checker c) t))"
    have "?ys \<noteq> []" using that by (auto simp: filter_empty_conv)
    moreover from this have "last ?ys \<in> set ?ys" by (rule last_in_set)
    ultimately show ?thesis
      unfolding assms(3) registry_Poll_maps [OF ne] by (auto simp: store_by_append store_by_lookup)
  qed
  ultimately show ?thesis by force
qed

section \<open>A scrape\<close>

lemma registry_descs_arity:
  "length (d_labels (rd_health (registry_descs_of P ns))) = 8" "length (d_labels (rd_dns (registry_descs_of P ns))) = 8"
  "length (d_labels (rd_status (registry_descs_of P ns))) = 11"
  "length (d_labels (rd_response (registry_descs_of P ns))) = 9"
  by (simp_all add: registry_descs_of_def registry_desc_def)

lemma registry_descs_names:
  "fq_law P \<Longrightarrow> distinct (map d_fqName (registry_desc_list (registry_descs_of P ns)))"
  by (simp add: registry_desc_list_def registry_descs_of_def registry_desc_def fq_inject)

lemma registry_dns_rows_set:
  "r \<in> set (registry_dns_rows D E hs) \<Longrightarrow>
     \<exists>h t. h \<in> set hs \<and> ipHealthConfigKey h \<notin> E \<and> r = (rd_dns D, boolToFloat64 (ri_DNSOk h), ip_labels h @ [t])"
  by (induction D E hs rule: registry_dns_rows.induct) (auto split: if_splits)

lemma ip_labels_key: "ip_labels g @ [s] = ip_labels h @ [t] \<Longrightarrow> ipHealthConfigKey g = ipHealthConfigKey h"
  by (simp add: ip_labels_def ipHealthConfigKey_def)

lemma registry_dns_rows_distinct: "distinct (map row_key (registry_dns_rows D E hs))"
proof (induction D E hs rule: registry_dns_rows.induct)
  case (2 D E h hs)
  let ?rest = "registry_dns_rows D (insert (ipHealthConfigKey h) E) hs"
  have "row_key (rd_dns D, v, ip_labels h @ [s]) \<noteq> row_key r" if r: "r \<in> set ?rest" for r v s
  proof -
    obtain g t where "ipHealthConfigKey g \<noteq> ipHealthConfigKey h"
        "r = (rd_dns D, boolToFloat64 (ri_DNSOk g), ip_labels g @ [t])"
      using registry_dns_rows_set [OF r] by auto
    then show ?thesis using ip_labels_key [of h s g t] by (auto simp: row_key_def)
  qed
  then show ?case using 2 by auto
qed simp

definition labels_config :: "string \<times> string list \<Rightarrow> string" where
  "labels_config k = (case k of (n, ls) \<Rightarrow> ls ! 0 @ ''/'' @ ls ! 4 @ ''/'' @ ls ! 5 @ ''/'' @ ls ! 6)"

definition labels_ip :: "string \<times> string list \<Rightarrow> string" where
  "labels_ip k = labels_config k @ ''/'' @ snd k ! 7"

lemma registry_health_rows_key:
  "r \<in> set (registry_health_rows D h) \<Longrightarrow> labels_config (row_key r) = health_key h \<and> fst r = rd_health D
     \<and> length (snd (snd r)) = 8"
  by (auto simp: registry_health_rows_def registryHealthLabels_def labels_config_def row_key_def health_key_def Let_def
      nth_append)

lemma registry_ip_rows_key:
  "r \<in> set (registry_ip_rows D h) \<Longrightarrow> labels_ip (row_key r) = registryIPKey h \<and>
     (fst r = rd_status D \<and> length (snd (snd r)) = 11 \<or> fst r = rd_response D \<and> length (snd (snd r)) = 9)"
  by (auto simp: registry_ip_rows_def emitStatusMetric_def emitResponseTimeMetric_def ip_labels_def labels_config_def
      labels_ip_def row_key_def registryIPKey_def ipHealthConfigKey_def nth_append split: if_splits)

lemma registry_ip_rows_distinct:
  "d_fqName (rd_status D) \<noteq> d_fqName (rd_response D) \<Longrightarrow> distinct (map row_key (registry_ip_rows D h))"
  by (auto simp: registry_ip_rows_def emitStatusMetric_def emitResponseTimeMetric_def row_key_def)

lemma registry_rows_distinct:
  assumes "registry_inv c" "entries_of rs (rp_registries c)" "entries_of is (rp_ips c)" "entries_of is' (rp_ips c)"
    "distinct (map d_fqName (registry_desc_list D))"
  shows "distinct (map row_key (registry_rows D rs is is'))"
proof -
  let ?H = "concat (map (\<lambda>x. registry_health_rows D (snd x)) rs)"
  let ?N = "registry_dns_rows D {} (map snd is)"
  let ?I = "concat (map (\<lambda>x. registry_ip_rows D (snd x)) is')"
  let ?n = "\<lambda>r. d_fqName (fst r)"
  have names: "d_fqName (rd_health D) \<notin> {d_fqName (rd_dns D), d_fqName (rd_status D), d_fqName (rd_response D)}"
    "d_fqName (rd_dns D) \<notin> {d_fqName (rd_status D), d_fqName (rd_response D)}"
    "d_fqName (rd_status D) \<noteq> d_fqName (rd_response D)"
    using assms(5) by (auto simp: registry_desc_list_def)
  have H: "distinct (map row_key ?H)"
  proof (rule distinct_entry_rows [OF assms(2), where f = labels_config])
    show "distinct (map row_key (registry_health_rows D h))" for h
      by (simp add: registry_health_rows_def row_key_def Let_def)
    show "labels_config (row_key r) = k"
      if "rp_registries c k = Some h" "r \<in> set (registry_health_rows D h)" for k h r
      using registry_health_rows_key [OF that(2)] that(1) assms(1) by (simp add: registry_inv_def)
  qed
  have I: "distinct (map row_key ?I)"
  proof (rule distinct_entry_rows [OF assms(4), where f = labels_ip])
    show "distinct (map row_key (registry_ip_rows D h))" for h by (rule registry_ip_rows_distinct [OF names(3)])
    show "labels_ip (row_key r) = k" if "rp_ips c k = Some h" "r \<in> set (registry_ip_rows D h)" for k h r
      using registry_ip_rows_key [OF that(2)] that(1) assms(1) by (simp add: registry_inv_def)
  qed
  have nH: "?n r = d_fqName (rd_health D)" if r: "r \<in> set ?H" for r
  proof -
    obtain h where "r \<in> set (registry_health_rows D h)" using r unfolding set_concat set_map by blast
    then show ?thesis by (simp only: registry_health_rows_key)
  qed
  have nN: "?n r = d_fqName (rd_dns D)" if "r \<in> set ?N" for r
    using registry_dns_rows_set [OF that] by auto
  have nI: "?n r \<in> {d_fqName (rd_status D), d_fqName (rd_response D)}" if r: "r \<in> set ?I" for r
  proof -
    obtain h where "r \<in> set (registry_ip_rows D h)" using r unfolding set_concat set_map by blast
    from registry_ip_rows_key [OF this] show ?thesis by auto
  qed
  have "?n x \<noteq> ?n y" if "x \<in> set ?N" "y \<in> set ?I" for x y
    using nN [OF that(1)] nI [OF that(2)] names(2) by metis
  then have d1: "?n ` set ?N \<inter> ?n ` set ?I = {}" by blast
  have "?n x \<noteq> ?n y" if "x \<in> set ?H" "y \<in> set (?N @ ?I)" for x y
    using nH [OF that(1)] nN nI that(2) names(1) unfolding set_append Un_iff by (metis insertCI)
  then have d2: "?n ` set ?H \<inter> ?n ` set (?N @ ?I) = {}" by blast
  note disj = d1 d2
  show ?thesis
    unfolding registry_rows_def
    by (intro distinct_rows_append H I registry_dns_rows_distinct disj)
qed

lemma registry_rows_arity:
  assumes "(d, v, ls) \<in> set (registry_rows D rs is is')" "D = registry_descs_of P ns"
  shows "d \<in> set (registry_desc_list D) \<and> length ls = length (d_labels d)"
proof -
  consider h where "(d, v, ls) \<in> set (registry_health_rows D h)"
    | "(d, v, ls) \<in> set (registry_dns_rows D {} (map snd is))" | h where "(d, v, ls) \<in> set (registry_ip_rows D h)"
    using assms(1) unfolding registry_rows_def set_append set_concat set_map by blast
  then show ?thesis
  proof cases
    case 1
    then show ?thesis
      using registry_health_rows_key [OF 1] by (simp add: assms(2) registry_desc_list_def registry_descs_arity)
  next
    case 2
    from registry_dns_rows_set [OF 2] show ?thesis
      by (auto simp: assms(2) registry_desc_list_def registry_descs_arity ip_labels_def)
  next
    case 3
    from registry_ip_rows_key [OF 3] show ?thesis
      by (auto simp: assms(2) registry_desc_list_def registry_descs_arity)
  qed
qed

definition registry_prom_ok :: "prom \<Rightarrow> string \<Rightarrow> bool" where
  "registry_prom_ok P ns \<longleftrightarrow> fq_law P \<and> list_all (usable P) (registry_desc_list (registry_descs_of P ns))"

text \<open>Whatever was polled since the collector was made, and in whatever order the maps are iterated, a
  scrape sends the samples of all entries without a panic and no series twice.\<close>

theorem registry_scrape_is_clean:
  assumes "registry_NewCollector P ns load = Ret (Inr (c0, b))" "registry_prom_ok P ns"
    "c = registry_after polls c0"
    "entries_of rs (rp_registries c)" "entries_of is (rp_ips c)" "entries_of is' (rp_ips c)"
  shows "registry_collect P c rs is is' = (map row_sample (registry_rows (registry_descs_of P ns) rs is is'), None)
    \<and> no_duplicates (fst (registry_collect P c rs is is'))"
proof -
  note new = registry_New_ok [OF assms(1)]
  have c: "registry_inv c" "rp_descs c = registry_descs_of P ns"
    using registry_after_inv [OF new(1)] new(2) assms(3) by simp_all
  have "distinct (map d_fqName (registry_desc_list (registry_descs_of P ns)))"
    using registry_descs_names assms(2) by (simp add: registry_prom_ok_def)
  note d = registry_rows_distinct [OF c(1) assms(4-6) this]
  have "usable P x \<and> length ls = length (d_labels x)" if "(x, v, ls) \<in> set (registry_rows (registry_descs_of P ns) rs is is')"
    for x v ls
    using registry_rows_arity [OF that refl] assms(2) by (auto simp: registry_prom_ok_def list_all_iff)
  from emit_rows [OF this d] show ?thesis by (simp add: registry_collect_def c(2))
qed

section \<open>Two registries with one key\<close>

definition slash_configs :: "registry_config list" where
  "slash_configs = [\<lparr>rcf_Endpoint = ''http://r.io:80'', rcf_Info = ''a/b'', rcf_IPs = [''::1''], rcf_Repository = ''c'',
       rcf_Reference = ''d'', rcf_ManifestAcceptHeader = [], rcf_Headers = []\<rparr>,
     \<lparr>rcf_Endpoint = ''http://r.io:80'', rcf_Info = ''a'', rcf_IPs = [''::1''], rcf_Repository = ''b/c'',
       rcf_Reference = ''d'', rcf_ManifestAcceptHeader = [], rcf_Headers = []\<rparr>]"

definition slash_registry :: "string \<Rightarrow> string \<Rightarrow> monitored_registry" where
  "slash_registry info repo = \<lparr>mr_endpoint = ''http://r.io:80'', mr_info = info,
     mr_target = \<lparr>rt_Scheme = ''http'', rt_Host = ''r.io'', rt_Port = 80\<rparr>, mr_ips = [''::1''],
     mr_repository = repo, mr_reference = ''d'', mr_manifestAcceptHeader = defaultManifestMediaType,
     mr_headers = Map.empty\<rparr>"

lemma slash_target: "parseRegistryTarget ''http://r.io:80'' = Inr \<lparr>rt_Scheme = ''http'', rt_Host = ''r.io'', rt_Port = 80\<rparr>"
  by code_simp

lemma slash_ips: "normalizeRegistryIPs [''::1''] e = Inr [''::1'']"
proof -
  have "ParseIP ''::1'' = Some (replicate 15 0 @ [1])" "ip_String (replicate 15 0 @ [1]) = ''::1''"
    "TrimSpace ''::1'' = ''::1''" by code_simp+
  then show ?thesis by (simp add: normalizeRegistryIPs_def)
qed

lemma slash_configs_parse:
  "registry_newRuntimeConfig \<lparr>rpc_Registries = slash_configs, rpc_CheckTimeout = 30, rpc_CheckInterval = 60\<rparr>
     = Inr \<lparr>rr_registries = [slash_registry ''a/b'' ''c'', slash_registry ''a'' ''b/c''],
            rr_checkTimeout = 30, rr_checkInterval = 60\<rparr>"
proof -
  have "TrimSpace ''http://r.io:80'' = ''http://r.io:80''" "TrimSpace ''a/b'' = ''a/b''" "TrimSpace ''a'' = ''a''"
    "TrimSpace ''d'' = ''d''" "TrimSpace [] = []" "normalizeRepository ''c'' = ''c''"
    "normalizeRepository ''b/c'' = ''b/c''" by code_simp+
  then show ?thesis
    by (simp add: registry_newRuntimeConfig_def slash_configs_def parseMonitoredRegistry_def slash_target slash_ips
        slash_registry_def trimmed_headers_def Let_def)
qed

definition slash_runtime :: registry_runtime where
  "slash_runtime = \<lparr>rr_registries = [slash_registry ''a/b'' ''c'', slash_registry ''a'' ''b/c''],
     rr_checkTimeout = 30, rr_checkInterval = 60\<rparr>"

definition slash_proxy :: registryproxy where
  "slash_proxy = \<lparr>rp_runtime = slash_runtime, rp_checker = NewRegistryChecker 30, rp_ips = Map.empty,
     rp_registries = Map.empty, rp_descs = registry_descs_of demo_prom ''sealos''\<rparr>"

definition slash_base :: base where
  "slash_base = (let b = NewBaseCollector ''registryproxy'' [WithWaitReadyOnCollect True] in
     b\<lparr>bc_descs := bc_descs b @ map d_fqName (registry_desc_list (registry_descs_of demo_prom ''sealos''))\<rparr>)"

lemma slash_proxy_New:
  "registry_NewCollector demo_prom ''sealos''
      (\<lambda>_. (\<lparr>rpc_Registries = slash_configs, rpc_CheckTimeout = 30, rpc_CheckInterval = 60\<rparr>, None))
     = Ret (Inr (slash_proxy, slash_base))"
  by (simp add: registry_NewCollector_def slash_configs_parse registry_initMetrics_def register_descs_eq Let_def
      slash_proxy_def slash_runtime_def slash_base_def)

definition ok_net :: registry_net where
  "ok_net = \<lparr>rn_LookupHost = (\<lambda>h t. Inl ''no such host''), rn_NewRequest = (\<lambda>u. None), rn_Do = (\<lambda>q. (Inr 200, 5)),
     rn_now = 0\<rparr>"

definition ok_turn :: "monitored_registry \<Rightarrow> registry_turn" where
  "ok_turn r = \<lparr>tu_registry = r, tu_net = ok_net,
     tu_envs = (\<lambda>i. \<lparr>ie_net = ok_net, ie_order1 = [], ie_order2 = []\<rparr>), tu_enqueued = 1\<rparr>"

lemma ok_turn_registry [simp]: "tu_registry (ok_turn r) = r"
  by (simp add: ok_turn_def)

lemma ok_turn_IPs: "mr_ips r \<noteq> [] \<Longrightarrow> map ri_IP (snd (turn_result rc (ok_turn r))) = mr_ips r"
  by (simp add: turn_result_def registry_CheckIPs_addresses registry_addresses_def ok_turn_def Let_def)

lemma colliding_registry_is_lost_witness:
  "let r = slash_registry ''a/b'' ''c''; s = slash_registry ''a'' ''b/c'' in
   registry_id r \<noteq> registry_id s
   \<and> rp_registries (registry_Poll [ok_turn r, ok_turn s] slash_proxy)
       = [''http://r.io:80/a/b/c/d'' \<mapsto> fst (turn_result (NewRegistryChecker 30) (ok_turn s))]"
proof -
  let ?r = "slash_registry ''a/b'' ''c''" let ?s = "slash_registry ''a'' ''b/c''"
  have k: "monitoredRegistryKey ?r = ''http://r.io:80/a/b/c/d''" "monitoredRegistryKey ?s = ''http://r.io:80/a/b/c/d''"
    by (simp_all add: monitoredRegistryKey_def slash_registry_def)
  have "mset (rr_registries (rp_runtime slash_proxy)) = {# ?r, ?s #}"
    by (simp add: slash_proxy_def slash_runtime_def)
  from colliding_registry_is_lost [of slash_proxy "ok_turn ?r" "ok_turn ?s", simplified, OF this _ refl]
  have "rp_registries (registry_Poll [ok_turn ?r, ok_turn ?s] slash_proxy)
       = [''http://r.io:80/a/b/c/d'' \<mapsto> fst (turn_result (rp_checker slash_proxy) (ok_turn ?s))]"
    by (simp add: k)
  then show ?thesis by (simp add: registry_id_def slash_registry_def slash_proxy_def)
qed

lemma registry_poll_reports_all_witness:
  "let r = slash_registry ''i'' ''b/c''; s = slash_registry ''j'' ''b/c'';
       c = slash_proxy\<lparr>rp_runtime := slash_runtime\<lparr>rr_registries := [r, s]\<rparr>\<rparr> in
   card (dom (rp_registries (registry_Poll [ok_turn s, ok_turn r] c))) = 2"
proof -
  let ?r = "slash_registry ''i'' ''b/c''" let ?s = "slash_registry ''j'' ''b/c''"
  let ?c = "slash_proxy\<lparr>rp_runtime := slash_runtime\<lparr>rr_registries := [?r, ?s]\<rparr>\<rparr>"
  have rs: "rr_registries (rp_runtime ?c) = [?r, ?s]" by simp
  have "tellable (slash_registry i ''b/c'')" if "slash_free i" for i
    using that unfolding tellable_def
    by (intro conjI exI [of _ "''http''"] exI [of _ "''r.io:80''"]) (simp_all add: slash_registry_def slash_free_def)
  then have t: "list_all tellable [?r, ?s]" by (simp add: slash_free_def)
  have "\<forall>h \<in> set (snd (turn_result rc (ok_turn (slash_registry i ''b/c'')))). ri_IP h = ''::1''" for rc i
    using ok_turn_IPs [of "slash_registry i ''b/c''" rc] by (auto simp: slash_registry_def dest: arg_cong [where f = set])
  then have ips: "list_all (\<lambda>t. list_all (\<lambda>h. slash_free (ri_IP h)) (snd (turn_result (rp_checker ?c) t)))
      [ok_turn ?s, ok_turn ?r]"
    by (simp add: list_all_iff slash_free_def)
  have "registry_poll_of ?c [ok_turn ?s, ok_turn ?r]" by (simp add: registry_poll_of_def)
  from registry_poll_reports_all [OF _ this _ _ ips refl] t show ?thesis
    by (simp add: rs registry_id_def slash_registry_def Let_def)
qed

lemma registry_scrape_is_clean_witness:
  "let s = slash_registry ''a'' ''b/c''; (rh, hs) = turn_result (NewRegistryChecker 30) (ok_turn s);
       c = registry_after [[ok_turn (slash_registry ''a/b'' ''c''), ok_turn s]] slash_proxy in
   no_duplicates (fst (registry_collect demo_prom c [(''http://r.io:80/a/b/c/d'', rh)]
     [(''http://r.io:80/a/b/c/d/::1'', hd hs)] [(''http://r.io:80/a/b/c/d/::1'', hd hs)]))"
proof -
  let ?r = "slash_registry ''a/b'' ''c''" let ?s = "slash_registry ''a'' ''b/c''"
  let ?c = "registry_after [[ok_turn ?r, ok_turn ?s]] slash_proxy"
  let ?res = "turn_result (NewRegistryChecker 30) (ok_turn ?s)"
  have ne: "rr_registries (rp_runtime slash_proxy) \<noteq> []" and ck: "rp_checker slash_proxy = NewRegistryChecker 30"
    by (simp_all add: slash_proxy_def slash_runtime_def)
  have k: "monitoredRegistryKey ?r = ''http://r.io:80/a/b/c/d''" "monitoredRegistryKey ?s = ''http://r.io:80/a/b/c/d''"
    by (simp_all add: monitoredRegistryKey_def slash_registry_def)
  have one: "\<exists>h. snd (turn_result rc (ok_turn (slash_registry i p))) = [h] \<and> ri_IP h = ''::1''" for rc i p
    using ok_turn_IPs [of "slash_registry i p" rc] by (auto simp: slash_registry_def)
  obtain g where g: "snd (turn_result (NewRegistryChecker 30) (ok_turn ?r)) = [g]" "ri_IP g = ''::1''" using one by blast
  obtain h where h: "snd ?res = [h]" "ri_IP h = ''::1''" using one by blast
  have keys: "registryIPKey g = ''http://r.io:80/a/b/c/d/::1''" "registryIPKey h = ''http://r.io:80/a/b/c/d/::1''"
    using turn_keys(2) [of g "NewRegistryChecker 30" "ok_turn ?r"] turn_keys(2) [of h "NewRegistryChecker 30" "ok_turn ?s"]
    by (simp_all add: g h k)
  have "rp_registries ?c = [''http://r.io:80/a/b/c/d'' \<mapsto> fst ?res]" "rp_ips ?c = [''http://r.io:80/a/b/c/d/::1'' \<mapsto> h]"
    by (simp_all add: registry_after_def registry_Poll_maps [OF ne] ck store_by_def turn_keys(1) k g(1) h(1) keys)
  then have e: "entries_of [(''http://r.io:80/a/b/c/d'', fst ?res)] (rp_registries ?c)"
    "entries_of [(''http://r.io:80/a/b/c/d/::1'', h)] (rp_ips ?c)"
    by (simp_all add: entries_of_def)
  have "registry_prom_ok demo_prom ''sealos''" by (simp add: registry_prom_ok_def registry_desc_list_def)
  from registry_scrape_is_clean [OF slash_proxy_New this refl e(1) e(2) e(2), THEN conjunct2] show ?thesis
    by (simp add: Let_def split_beta h(1))
qed

end
