(* ===== verification/License_Decoding.thy ===== *)
theory License_Decoding
  imports Go_Strings
begin

text \<open>
  \<open>pkg/collector/cockroachlicense/license.go\<close>: the decoding of an enterprise license, a prefix, base64 and a
  protobuf message. A string is its list of bytes. Base64 is that of the standard library, without padding;
  the reading of the wire format is the package \<open>protowire\<close>, the record \<open>wire\<close>, with its documented
  laws.
\<close>

section \<open>Base64\<close>

definition b64_value :: "char \<Rightarrow> nat option" where
  "b64_value c = (let n = of_char c :: nat in
     if 65 \<le> n \<and> n \<le> 90 then Some (n - 65)
     else if 97 \<le> n \<and> n \<le> 122 then Some (n - 71)
     else if 48 \<le> n \<and> n \<le> 57 then Some (n + 4)
     else if n = 43 then Some 62 else if n = 47 then Some 63 else None)"

definition corrupt :: "nat \<Rightarrow> string" where
  "corrupt i = ''illegal base64 data at input byte '' @ dec_string i"

text \<open>The bytes of a group of sextets; the bits that are left over are dropped.\<close>

definition b64_bytes :: "nat list \<Rightarrow> string" where
  "b64_bytes vs = (case vs of
       [a, b] \<Rightarrow> [char_of (4 * a + b div 16)]
     | [a, b, c] \<Rightarrow> [char_of (4 * a + b div 16), char_of (16 * (b mod 16) + c div 4)]
     | [a, b, c, d] \<Rightarrow> [char_of (4 * a + b div 16), char_of (16 * (b mod 16) + c div 4), char_of (64 * (c mod 4) + d)]
     | _ \<Rightarrow> [])"

text \<open>\<open>i\<close> is the position in the input and \<open>vs\<close> are the sextets of the group so far. Line ends are
  skipped.\<close>

fun b64_decode_from :: "nat \<Rightarrow> nat list \<Rightarrow> string \<Rightarrow> string res" where
  "b64_decode_from i vs [] = (if length vs = 1 then Inl (corrupt (i - 1)) else Inr (b64_bytes vs))"
| "b64_decode_from i vs (c # s) =
     (case b64_value c of
        None \<Rightarrow> if c = CHR 0x0A \<or> c = CHR 0x0D then b64_decode_from (Suc i) vs s else Inl (corrupt i)
      | Some v \<Rightarrow>
          if length vs = 3 then map_sum id ((@) (b64_bytes (vs @ [v]))) (b64_decode_from (Suc i) [] s)
          else b64_decode_from (Suc i) (vs @ [v]) s)"

definition b64_decode :: "string \<Rightarrow> string res" where
  "b64_decode s = b64_decode_from 0 [] s"

definition b64_char :: "nat \<Rightarrow> char" where
  "b64_char v = char_of (if v < 26 then v + 65 else if v < 52 then v + 71 else if v < 62 then v - 4
     else if v = 62 then 43 else 47)"

fun b64_encode :: "string \<Rightarrow> string" where
  "b64_encode [] = []"
| "b64_encode [x] = (let a = of_char x in [b64_char (a div 4), b64_char (16 * (a mod 4))])"
| "b64_encode [x, y] = (let a = of_char x; b = of_char y in
     [b64_char (a div 4), b64_char (16 * (a mod 4) + b div 16), b64_char (4 * (b mod 16))])"
| "b64_encode (x # y # z # s) = (let a = of_char x; b = of_char y; c = of_char z in
     b64_char (a div 4) # b64_char (16 * (a mod 4) + b div 16) # b64_char (4 * (b mod 16) + c div 64)
       # b64_char (c mod 64) # b64_encode s)"

lemma b64_value_char: "v < 64 \<Longrightarrow> b64_value (b64_char v) = Some v"
  by (auto simp: b64_value_def b64_char_def Let_def of_char_of)

lemma of_char_less_256 [simp]: "(of_char c :: nat) < 256"
  by (metis char_of_char mod_less_divisor of_char_of zero_less_numeral)

lemma sextet_bounds [simp]:
  "(of_char c :: nat) div 4 < 64" "(of_char c :: nat) div 16 < 16" "(of_char c :: nat) div 64 < 4"
  by (simp_all add: less_mult_imp_div_less)

lemma mix_bounds [simp]:
  "16 * (n mod 4) + (of_char c :: nat) div 16 < 64" "4 * (n mod 16) + (of_char c :: nat) div 64 < 64"
  "16 * (n mod 4 :: nat) < 64" "4 * (n mod 16 :: nat) < 64"
proof -
  have m: "n mod 4 < 4" "n mod 16 < 16" for n :: nat by simp_all
  have b: "(of_char c :: nat) div 16 < 16" "(of_char c :: nat) div 64 < 4" by simp_all
  show "16 * (n mod 4) + (of_char c :: nat) div 16 < 64" using m(1) [of n] b(1) by linarith
  show "4 * (n mod 16) + (of_char c :: nat) div 64 < 64" using m(2) [of n] b(2) by linarith
  show "16 * (n mod 4 :: nat) < 64" using m(1) [of n] by linarith
  show "4 * (n mod 16 :: nat) < 64" using m(2) [of n] by linarith
qed

lemma char_of_nat [simp]: "char_of (of_char c :: nat) = c"
  by (rule char_of_char)

lemma split_mod: "(k :: nat) * (n div k) + n mod k = n"
  by simp

lemma bytes_of_sextets:
  assumes "b < (256 :: nat)" "c < 256"
  shows "4 * (a div 4) + (16 * (a mod 4) + b div 16) div 16 = (a :: nat)"
    "16 * ((16 * (a mod 4) + b div 16) mod 16) + (4 * (b mod 16) + c div 64) div 4 = b"
    "64 * ((4 * (b mod 16) + c div 64) mod 4) + c mod 64 = c"
    "4 * (a div 4) + 16 * (a mod 4) div 16 = a"
    "16 * ((16 * (a mod 4) + b div 16) mod 16) + 4 * (b mod 16) div 4 = b"
proof -
  have b: "b div 16 < 16" and c: "c div 64 < 4" using assms by (simp_all add: less_mult_imp_div_less)
  have 1: "(16 * k + b div 16) div 16 = k" "(16 * k + b div 16) mod 16 = b div 16" for k using b by simp_all
  have 2: "(4 * k + c div 64) div 4 = k" "(4 * k + c div 64) mod 4 = c div 64" for k using c by simp_all
  show "4 * (a div 4) + (16 * (a mod 4) + b div 16) div 16 = a" unfolding 1 by (rule split_mod)
  show "16 * ((16 * (a mod 4) + b div 16) mod 16) + (4 * (b mod 16) + c div 64) div 4 = b"
    unfolding 1 2 by (rule split_mod)
  show "64 * ((4 * (b mod 16) + c div 64) mod 4) + c mod 64 = c" unfolding 2 by (rule split_mod)
  show "4 * (a div 4) + 16 * (a mod 4) div 16 = a" by simp
  show "16 * ((16 * (a mod 4) + b div 16) mod 16) + 4 * (b mod 16) div 4 = b" unfolding 1 by simp
qed

lemma b64_decode_char [simp]:
  "v < 64 \<Longrightarrow> b64_decode_from i vs (b64_char v # s) =
     (if length vs = 3 then map_sum id ((@) (b64_bytes (vs @ [v]))) (b64_decode_from (Suc i) [] s)
      else b64_decode_from (Suc i) (vs @ [v]) s)"
  by (simp add: b64_value_char)

lemma b64_decode_encode_from: "b64_decode_from i [] (b64_encode s) = Inr s"
proof (induction s arbitrary: i rule: b64_encode.induct)
  case (2 x)
  then show ?case by (simp add: Let_def b64_bytes_def bytes_of_sextets del: b64_decode_from.simps(2))
next
  case (3 x y)
  then show ?case by (simp add: Let_def b64_bytes_def bytes_of_sextets del: b64_decode_from.simps(2))
next
  case (4 x y z s)
  then show ?case by (simp add: Let_def b64_bytes_def bytes_of_sextets del: b64_decode_from.simps(2))
qed (simp add: b64_bytes_def)

lemma b64_decode_encode: "b64_decode (b64_encode s) = Inr s"
  by (simp add: b64_decode_def b64_decode_encode_from)

section \<open>The license record\<close>

text \<open>The types \<open>licenseType\<close> and \<open>licenseEnvironment\<close> are 32-bit integers with named
  values; others may occur.\<close>

definition max_int32 :: nat where "max_int32 = 2147483647"
definition max_int64 :: nat where "max_int64 = 9223372036854775807"

definition licenseTypeString :: "nat \<Rightarrow> string" where
  "licenseTypeString t = (if t = 0 then ''NonCommercial'' else if t = 1 then ''Enterprise''
     else if t = 2 then ''Evaluation'' else if t = 3 then ''Free'' else if t = 4 then ''Trial'' else ''Unknown'')"

definition licenseTypeValue :: "nat \<Rightarrow> nat" where
  "licenseTypeValue t = (if t = 1 then 1 else if t = 2 then 2 else if t = 3 then 3 else if t = 4 then 4
     else if t = 0 then 5 else 0)"

definition environmentString :: "nat \<Rightarrow> string" where
  "environmentString e = (if e = 1 then ''production'' else if e = 2 then ''pre-production''
     else if e = 3 then ''development'' else if e = 0 then [] else ''other'')"

record license_info =
  li_validUntil :: nat
  li_type :: nat
  li_orgName :: string
  li_env :: nat
  li_id :: string
  li_orgID :: string

definition no_info :: license_info where
  "no_info = \<lparr>li_validUntil = 0, li_type = 0, li_orgName = [], li_env = 0, li_id = [], li_orgID = []\<rparr>"

section \<open>The wire format\<close>

text \<open>A consumer yields what it read and the number of bytes it took; \<open>None\<close> is the negative length of an
  error.\<close>

record wire =
  w_ConsumeTag :: "string \<Rightarrow> (nat \<times> nat \<times> nat) option"
  w_ConsumeVarint :: "string \<Rightarrow> (nat \<times> nat) option"
  w_ConsumeBytes :: "string \<Rightarrow> (string \<times> nat) option"
  w_ConsumeFieldValue :: "nat \<Rightarrow> nat \<Rightarrow> string \<Rightarrow> nat option"

text \<open>A type is the number that stands for it: 0 is \<open>VarintType\<close> and 2 is \<open>BytesType\<close>.\<close>

definition formatUUID :: "string \<Rightarrow> string" where
  "formatUUID b = (let h = (\<lambda>i j. hex_encode (map of_char (take (j - i) (drop i b))))
     in h 0 4 @ ''-'' @ h 4 6 @ ''-'' @ h 6 8 @ ''-'' @ h 8 10 @ ''-'' @ h 10 16)"

definition consumeUUIDBytes :: "wire \<Rightarrow> string \<Rightarrow> nat \<Rightarrow> string \<Rightarrow> (string \<times> nat) res" where
  "consumeUUIDBytes W data ty field =
     (if ty \<noteq> 2 then Inl (''invalid license '' @ field @ '' field type'')
      else case w_ConsumeBytes W data of
        None \<Rightarrow> Inl (''invalid license '' @ field @ '' field'')
      | Some (v, n) \<Rightarrow>
          if v = [] then Inr ([], n)
          else if length v \<noteq> 16 then Inl (''invalid license '' @ field @ '' length'')
          else Inr (formatUUID v, n))"

text \<open>A field that must be a varint of at most \<open>m\<close>, the cases 2, 3 and 5 of the loop.\<close>

definition varint_field :: "wire \<Rightarrow> string \<Rightarrow> nat \<Rightarrow> nat \<Rightarrow> string \<Rightarrow> (nat \<times> nat) res" where
  "varint_field W f m ty data =
     (if ty \<noteq> 0 then Inl (''invalid license '' @ f @ '' field type'')
      else case w_ConsumeVarint W data of
        None \<Rightarrow> Inl (''invalid license '' @ f @ '' field'')
      | Some (v, n) \<Rightarrow> if v > m then Inl (''invalid license '' @ f @ '' field overflow'') else Inr (v, n))"

definition bytes_field :: "wire \<Rightarrow> string \<Rightarrow> nat \<Rightarrow> string \<Rightarrow> (string \<times> nat) res" where
  "bytes_field W f ty data =
     (if ty \<noteq> 2 then Inl (''invalid license '' @ f @ '' field type'')
      else case w_ConsumeBytes W data of
        None \<Rightarrow> Inl (''invalid license '' @ f @ '' field'')
      | Some (v, n) \<Rightarrow> Inr (v, n))"

definition put_field :: "('a \<times> nat) res \<Rightarrow> ('a \<Rightarrow> license_info) \<Rightarrow> string \<Rightarrow> (string \<times> license_info) res" where
  "put_field r upd data = (case r of Inl e \<Rightarrow> Inl e | Inr (v, n) \<Rightarrow> Inr (drop n data, upd v))"

text \<open>One round of the loop: the data that is left and the record.\<close>

definition license_field :: "wire \<Rightarrow> string \<Rightarrow> license_info \<Rightarrow> (string \<times> license_info) res" where
  "license_field W data0 li = (case w_ConsumeTag W data0 of
       None \<Rightarrow> Inl ''invalid license protobuf tag''
     | Some (num, ty, n) \<Rightarrow>
        (let data = drop n data0 in
         if num = 2 then put_field (varint_field W ''valid_until'' max_int64 ty data) (\<lambda>v. li\<lparr>li_validUntil := v\<rparr>) data
         else if num = 3 then put_field (varint_field W ''type'' max_int32 ty data) (\<lambda>v. li\<lparr>li_type := v\<rparr>) data
         else if num = 4 then put_field (bytes_field W ''organization_name'' ty data) (\<lambda>v. li\<lparr>li_orgName := v\<rparr>) data
         else if num = 5 then put_field (varint_field W ''environment'' max_int32 ty data) (\<lambda>v. li\<lparr>li_env := v\<rparr>) data
         else if num = 6 then put_field (consumeUUIDBytes W data ty ''license_id'') (\<lambda>v. li\<lparr>li_id := v\<rparr>) data
         else if num = 7 then put_field (consumeUUIDBytes W data ty ''organization_id'') (\<lambda>v. li\<lparr>li_orgID := v\<rparr>) data
         else case w_ConsumeFieldValue W num ty data of
            None \<Rightarrow> Inl (''invalid unknown license field '' @ dec_string num)
          | Some k \<Rightarrow> Inr (drop k data, li)))"

text \<open>The loop may go on forever for a reader that takes no byte: \<open>None\<close>.\<close>

partial_function (option) license_fields :: "wire \<Rightarrow> string \<Rightarrow> license_info \<Rightarrow> license_info res option" where
  "license_fields W data li =
     (if data = [] then Some (Inr li)
      else case license_field W data li of
        Inl e \<Rightarrow> Some (Inl e)
      | Inr (rest, li') \<Rightarrow> license_fields W rest li')"

definition license_prefix :: string where "license_prefix = ''crl-0-''"

definition decodeLicense :: "wire \<Rightarrow> string \<Rightarrow> license_info option res option" where
  "decodeLicense W s =
     (if s = [] then Some (Inr None)
      else if \<not> HasPrefix s license_prefix then Some (Inl ''invalid license string'')
      else case b64_decode (TrimPrefix s license_prefix) of
        Inl e \<Rightarrow> Some (Inl (''invalid license string: '' @ e))
      | Inr data \<Rightarrow> map_option (map_sum id Some) (license_fields W data no_info))"

section \<open>The loop ends\<close>

text \<open>Documented of \<open>ConsumeTag\<close>: a tag takes at least one byte of the data.\<close>

definition takes_tags :: "wire \<Rightarrow> bool" where
  "takes_tags W \<longleftrightarrow> (\<forall>data num ty n. w_ConsumeTag W data = Some (num, ty, n) \<longrightarrow> 0 < n)"

lemma put_field_shorter: "put_field r upd data = Inr (rest, li') \<Longrightarrow> length rest \<le> length data"
  by (auto simp: put_field_def split: sum.splits)

lemma license_field_shorter:
  assumes "takes_tags W" "data \<noteq> []" "license_field W data li = Inr (rest, li')"
  shows "length rest < length data"
proof -
  obtain num ty n where t: "w_ConsumeTag W data = Some (num, ty, n)"
    using assms(3) by (auto simp: license_field_def split: option.splits)
  then have "0 < n" using assms(1) by (simp add: takes_tags_def)
  then have less: "length (drop n data) < length data" using assms(2) by simp
  have "length rest \<le> length (drop n data)"
    using assms(3)
    by (auto simp: license_field_def t Let_def dest!: put_field_shorter split: if_splits option.splits)
  then show ?thesis using less by simp
qed

lemma license_fields_return: "takes_tags W \<Longrightarrow> \<exists>r. license_fields W data li = Some r"
proof (induction data arbitrary: li rule: measure_induct_rule [of length])
  case (less data)
  show ?case
  proof (cases "data = [] \<or> (\<exists>e. license_field W data li = Inl e)")
    case True
    then show ?thesis by (auto simp: license_fields.simps [of W data])
  next
    case False
    then obtain rest li' where r: "license_field W data li = Inr (rest, li')" by (cases "license_field W data li") auto
    then have "length rest < length data" using license_field_shorter less.prems False by blast
    then show ?thesis using less.IH [of rest li'] less.prems r by (simp add: license_fields.simps [of W data])
  qed
qed

lemma decodeLicense_returns:
  assumes "takes_tags W"
  shows "\<exists>r. decodeLicense W s = Some r"
proof (cases "b64_decode (TrimPrefix s license_prefix)")
  case (Inr data)
  obtain r where "license_fields W data no_info = Some r" using license_fields_return [OF assms] by blast
  then show ?thesis using Inr by (simp add: decodeLicense_def)
qed (simp add: decodeLicense_def)

section \<open>Encoded licenses\<close>

text \<open>The wire format as documented: a varint has seven bits per byte, the least significant first; a tag is the
  varint of the number and the type; bytes follow their length.\<close>

fun varint :: "nat \<Rightarrow> string" where
  "varint n = (if n < 128 then [char_of n] else char_of (n mod 128 + 128) # varint (n div 128))"

declare varint.simps [simp del]

definition wire_tag :: "nat \<Rightarrow> nat \<Rightarrow> string" where
  "wire_tag num ty = varint (8 * num + ty)"

definition wire_bytes :: "string \<Rightarrow> string" where
  "wire_bytes b = varint (length b) @ b"

datatype license_part =
    ValidUntil nat | LicType nat | OrgName string | Env nat | LicID string | OrgID string
  | OtherVarint nat nat | OtherBytes nat string

fun encode_part :: "license_part \<Rightarrow> string" where
  "encode_part (ValidUntil v) = wire_tag 2 0 @ varint v"
| "encode_part (LicType v) = wire_tag 3 0 @ varint v"
| "encode_part (OrgName b) = wire_tag 4 2 @ wire_bytes b"
| "encode_part (Env v) = wire_tag 5 0 @ varint v"
| "encode_part (LicID b) = wire_tag 6 2 @ wire_bytes b"
| "encode_part (OrgID b) = wire_tag 7 2 @ wire_bytes b"
| "encode_part (OtherVarint num v) = wire_tag num 0 @ varint v"
| "encode_part (OtherBytes num b) = wire_tag num 2 @ wire_bytes b"

definition other_number :: "nat \<Rightarrow> bool" where
  "other_number num \<longleftrightarrow> 1 \<le> num \<and> num < 2 ^ 29 \<and> (num < 2 \<or> 7 < num)"

definition uuid_length :: "string \<Rightarrow> bool" where
  "uuid_length b \<longleftrightarrow> b = [] \<or> length b = 16"

fun part_ok :: "license_part \<Rightarrow> bool" where
  "part_ok (ValidUntil v) \<longleftrightarrow> v \<le> max_int64"
| "part_ok (LicType v) \<longleftrightarrow> v \<le> max_int32"
| "part_ok (OrgName b) \<longleftrightarrow> length b \<le> max_int32"
| "part_ok (Env v) \<longleftrightarrow> v \<le> max_int32"
| "part_ok (LicID b) \<longleftrightarrow> uuid_length b"
| "part_ok (OrgID b) \<longleftrightarrow> uuid_length b"
| "part_ok (OtherVarint num v) \<longleftrightarrow> other_number num \<and> v < 2 ^ 64"
| "part_ok (OtherBytes num b) \<longleftrightarrow> other_number num \<and> length b \<le> max_int32"

definition uuid_text :: "string \<Rightarrow> string" where
  "uuid_text b = (if b = [] then [] else formatUUID b)"

fun apply_part :: "license_info \<Rightarrow> license_part \<Rightarrow> license_info" where
  "apply_part li (ValidUntil v) = li\<lparr>li_validUntil := v\<rparr>"
| "apply_part li (LicType v) = li\<lparr>li_type := v\<rparr>"
| "apply_part li (OrgName b) = li\<lparr>li_orgName := b\<rparr>"
| "apply_part li (Env v) = li\<lparr>li_env := v\<rparr>"
| "apply_part li (LicID b) = li\<lparr>li_id := uuid_text b\<rparr>"
| "apply_part li (OrgID b) = li\<lparr>li_orgID := uuid_text b\<rparr>"
| "apply_part li _ = li"

definition encodeLicense :: "license_part list \<Rightarrow> string" where
  "encodeLicense ps = license_prefix @ b64_encode (concat (map encode_part ps))"

text \<open>What the package documents of its readers on such data.\<close>

definition wire_law :: "wire \<Rightarrow> bool" where
  "wire_law W \<longleftrightarrow>
     (\<forall>num ty rest. 1 \<le> num \<and> num < 2 ^ 29 \<and> ty \<le> 2 \<longrightarrow>
        w_ConsumeTag W (wire_tag num ty @ rest) = Some (num, ty, length (wire_tag num ty)))
   \<and> (\<forall>v rest. v < 2 ^ 64 \<longrightarrow> w_ConsumeVarint W (varint v @ rest) = Some (v, length (varint v)))
   \<and> (\<forall>b rest. length b \<le> max_int32 \<longrightarrow> w_ConsumeBytes W (wire_bytes b @ rest) = Some (b, length (wire_bytes b)))
   \<and> (\<forall>num v rest. v < 2 ^ 64 \<longrightarrow> w_ConsumeFieldValue W num 0 (varint v @ rest) = Some (length (varint v)))
   \<and> (\<forall>num b rest. length b \<le> max_int32 \<longrightarrow>
        w_ConsumeFieldValue W num 2 (wire_bytes b @ rest) = Some (length (wire_bytes b)))"

lemma wire_reads:
  assumes "wire_law W"
  shows "1 \<le> num \<Longrightarrow> num < 2 ^ 29 \<Longrightarrow> ty \<le> 2 \<Longrightarrow>
      w_ConsumeTag W (wire_tag num ty @ rest) = Some (num, ty, length (wire_tag num ty))"
    "v < 2 ^ 64 \<Longrightarrow> w_ConsumeVarint W (varint v @ rest) = Some (v, length (varint v))"
    "length b \<le> max_int32 \<Longrightarrow> w_ConsumeBytes W (wire_bytes b @ rest) = Some (b, length (wire_bytes b))"
    "v < 2 ^ 64 \<Longrightarrow> w_ConsumeFieldValue W num 0 (varint v @ rest) = Some (length (varint v))"
    "length b \<le> max_int32 \<Longrightarrow>
      w_ConsumeFieldValue W num 2 (wire_bytes b @ rest) = Some (length (wire_bytes b))"
  using assms by (simp_all add: wire_law_def)

lemma license_field_tag:
  assumes "wire_law W" "1 \<le> num" "num < 2 ^ 29" "ty \<le> 2"
  shows "license_field W (wire_tag num ty @ data) li =
     (if num = 2 then put_field (varint_field W ''valid_until'' max_int64 ty data) (\<lambda>v. li\<lparr>li_validUntil := v\<rparr>) data
      else if num = 3 then put_field (varint_field W ''type'' max_int32 ty data) (\<lambda>v. li\<lparr>li_type := v\<rparr>) data
      else if num = 4 then put_field (bytes_field W ''organization_name'' ty data) (\<lambda>v. li\<lparr>li_orgName := v\<rparr>) data
      else if num = 5 then put_field (varint_field W ''environment'' max_int32 ty data) (\<lambda>v. li\<lparr>li_env := v\<rparr>) data
      else if num = 6 then put_field (consumeUUIDBytes W data ty ''license_id'') (\<lambda>v. li\<lparr>li_id := v\<rparr>) data
      else if num = 7 then put_field (consumeUUIDBytes W data ty ''organization_id'') (\<lambda>v. li\<lparr>li_orgID := v\<rparr>) data
      else case w_ConsumeFieldValue W num ty data of
         None \<Rightarrow> Inl (''invalid unknown license field '' @ dec_string num)
       | Some k \<Rightarrow> Inr (drop k data, li))"
  using wire_reads(1) [OF assms] by (simp add: license_field_def)

lemma varint_field_ok:
  "wire_law W \<Longrightarrow> v \<le> m \<Longrightarrow> m \<le> max_int64 \<Longrightarrow>
     varint_field W f m 0 (varint v @ rest) = Inr (v, length (varint v))"
  using wire_reads(2) [of W v rest] by (simp add: varint_field_def max_int64_def)

lemma bytes_field_ok:
  "wire_law W \<Longrightarrow> length b \<le> max_int32 \<Longrightarrow>
     bytes_field W f 2 (wire_bytes b @ rest) = Inr (b, length (wire_bytes b))"
  using wire_reads(3) [of W b rest] by (simp add: bytes_field_def)

lemma uuid_field_ok:
  "wire_law W \<Longrightarrow> uuid_length b \<Longrightarrow>
     consumeUUIDBytes W (wire_bytes b @ rest) 2 f = Inr (uuid_text b, length (wire_bytes b))"
  using wire_reads(3) [of W b rest]
  by (auto simp: consumeUUIDBytes_def uuid_length_def uuid_text_def max_int32_def)

lemma other_number_bounds:
  "other_number num \<Longrightarrow> 1 \<le> num \<and> num < 2 ^ 29"
  "other_number num \<Longrightarrow> num \<noteq> 2 \<and> num \<noteq> 3 \<and> num \<noteq> 4 \<and> num \<noteq> 5 \<and> num \<noteq> 6 \<and> num \<noteq> 7"
  by (auto simp: other_number_def)

lemma license_field_other:
  assumes "wire_law W" "other_number num" "ty \<le> 2" "w_ConsumeFieldValue W num ty data = Some k"
  shows "license_field W (wire_tag num ty @ data) li = Inr (drop k data, li)"
  using license_field_tag [OF assms(1) _ _ assms(3), of num data li] other_number_bounds [OF assms(2)] assms(4)
  by simp

lemma license_part_step:
  assumes "wire_law W" "part_ok q"
  shows "license_field W (encode_part q @ rest) li = Inr (rest, apply_part li q)"
proof (cases q)
  case (OtherVarint num v)
  then show ?thesis
    using assms license_field_other [OF assms(1) _ _ wire_reads(4) [OF assms(1)], of num v rest li] by simp
next
  case (OtherBytes num b)
  then show ?thesis
    using assms license_field_other [OF assms(1) _ _ wire_reads(5) [OF assms(1)], of num b rest li] by simp
qed (use assms in \<open>simp_all add: license_field_tag varint_field_ok bytes_field_ok uuid_field_ok put_field_def
      max_int32_def max_int64_def\<close>)

lemma encode_part_not_Nil: "encode_part q \<noteq> []"
proof -
  have "varint n \<noteq> []" for n by (simp add: varint.simps [of n])
  then show ?thesis by (cases q) (simp_all add: wire_tag_def)
qed

lemma license_fields_parts:
  assumes "wire_law W" "list_all part_ok qs"
  shows "license_fields W (concat (map encode_part qs)) li = Some (Inr (foldl apply_part li qs))"
  using assms(2)
proof (induction qs arbitrary: li)
  case (Cons q qs)
  then show ?case
    using license_part_step [OF assms(1), of q "concat (map encode_part qs)" li] encode_part_not_Nil [of q]
    by (simp add: license_fields.simps [of W "encode_part q @ concat (map encode_part qs)"])
qed (simp add: license_fields.simps)

lemma decode_encoded:
  assumes "wire_law W" "list_all part_ok qs"
  shows "decodeLicense W (encodeLicense qs) = Some (Inr (Some (foldl apply_part no_info qs)))"
  using license_fields_parts [OF assms, of no_info]
  by (simp add: decodeLicense_def encodeLicense_def HasPrefix_def TrimPrefix_def license_prefix_def b64_decode_encode)

text \<open>C28. A license of the documented format is decoded to what it says: for fields in any order and number, with
  any fields of other numbers between them, the result is the record in which each field has the last value that
  was given, the identifiers are printed as UUIDs, and nothing of the other fields remains.\<close>

theorem license_round_trip:
  assumes "wire_law W" "list_all part_ok qs"
  shows "decodeLicense W (encodeLicense qs) = Some (Inr (Some (foldl apply_part no_info qs)))"
  by (rule decode_encoded [OF assms])

text \<open>The decoding of any string ends, and it says that there is no license exactly for the empty string: a
  string that is no license is an error, never a missing license.\<close>

theorem decode_ends:
  assumes "takes_tags W"
  shows "\<exists>r. decodeLicense W s = Some r \<and> (r = Inr None \<longleftrightarrow> s = [])"
proof (cases "b64_decode (TrimPrefix s license_prefix)")
  case (Inr data)
  obtain r where r: "license_fields W data no_info = Some r" using license_fields_return [OF assms] by blast
  then show ?thesis using Inr by (cases r) (auto simp: decodeLicense_def)
qed (auto simp: decodeLicense_def)

section \<open>A reader\<close>

fun read_varint :: "string \<Rightarrow> (nat \<times> nat) option" where
  "read_varint [] = None"
| "read_varint (c # s) =
     (if (of_char c :: nat) < 128 then Some (of_char c, 1)
      else case read_varint s of
        None \<Rightarrow> None
      | Some (v, n) \<Rightarrow> Some (128 * v + (of_char c - 128), Suc n))"

lemma read_varint_varint: "read_varint (varint v @ rest) = Some (v, length (varint v))"
proof (induction v rule: varint.induct)
  case (1 v)
  have less: "v mod 128 + 128 < 256" by simp
  show ?case using 1 less by (cases "v < 128") (simp_all add: varint.simps [of v] of_char_of)
qed

definition plain_wire :: wire where
  "plain_wire = \<lparr>
     w_ConsumeTag = (\<lambda>s. map_option (\<lambda>(v, n). (v div 8, v mod 8, n)) (read_varint s)),
     w_ConsumeVarint = read_varint,
     w_ConsumeBytes = (\<lambda>s. case read_varint s of
         None \<Rightarrow> None
       | Some (k, n) \<Rightarrow> if length s < n + k then None else Some (take k (drop n s), n + k)),
     w_ConsumeFieldValue = (\<lambda>num ty s. case read_varint s of
         None \<Rightarrow> None
       | Some (k, n) \<Rightarrow> if ty = 0 then Some n else if length s < n + k then None else Some (n + k))\<rparr>"

lemma read_varint_pos: "read_varint s = Some (v, n) \<Longrightarrow> 0 < n"
  by (cases s) (auto split: if_splits option.splits)

lemma plain_wire_takes_tags: "takes_tags plain_wire"
  using read_varint_pos by (auto simp: takes_tags_def plain_wire_def)

lemma plain_wire_law: "wire_law plain_wire"
  by (simp add: wire_law_def plain_wire_def wire_tag_def wire_bytes_def read_varint_varint)

theorem license_round_trip_witness:
  "decodeLicense plain_wire (encodeLicense [ValidUntil 1900000000, OtherVarint 1 7, LicType 1, OrgName ''acme''])
     = Some (Inr (Some (foldl apply_part no_info [ValidUntil 1900000000, OtherVarint 1 7, LicType 1, OrgName ''acme''])))"
  by (rule license_round_trip [OF plain_wire_law])
    (simp add: max_int64_def max_int32_def other_number_def)

theorem decode_ends_witness:
  "\<exists>r. decodeLicense plain_wire ''crl-0-AAAA'' = Some r \<and> (r = Inr None \<longleftrightarrow> ''crl-0-AAAA'' = ([] :: string))"
  by (rule decode_ends [OF plain_wire_takes_tags])

end
