(* ===== verification/Float_Order.thy ===== *)
theory Float_Order
  imports Prom_Client
begin

text \<open>
  The sign of rounded values: rounding neither loses the sign of a number that is not tiny nor changes it, so a
  duration in seconds is positive exactly when the duration is.
\<close>

definition float_pos :: "float64 \<Rightarrow> bool" where
  "float_pos f = (case f of Fin r \<Rightarrow> 0 < r | Inf negative \<Rightarrow> \<not> negative | NaN \<Rightarrow> False)"

lemma pow2_power_int: "pow2 e = power_int 2 e"
  by (simp add: pow2_def power_int_def power_one_over inverse_eq_divide)

lemma pow2_add: "pow2 (a + b) = pow2 a * pow2 b"
  by (simp add: pow2_power_int power_int_add)

lemma pow2_mono: "a \<le> b \<Longrightarrow> pow2 a \<le> pow2 b"
  by (simp add: pow2_power_int power_int_increasing)

lemma exponent_of_le:
  assumes "0 < n" "0 < d"
  shows "of_int d * pow2 (exponent_of n d) \<le> of_int n"
proof (cases "of_int d * pow2 (bitlen n - bitlen d) \<le> (of_int n :: rat)")
  case True
  then show ?thesis by (simp add: exponent_of_def Let_def)
next
  case False
  have b: "1 \<le> bitlen n" "1 \<le> bitlen d"
    using bitlen_nonneg [of n] bitlen_eq_zero_iff [of n] bitlen_nonneg [of d] bitlen_eq_zero_iff [of d] assms
    by linarith+
  have "d < 2 ^ nat (bitlen d)" using bitlen_bounds [OF assms(2)] by simp
  then have "(of_int d :: rat) < of_int (2 ^ nat (bitlen d))" by (simp only: of_int_less_iff)
  then have d: "(of_int d :: rat) \<le> pow2 (bitlen d)" using b by (simp add: pow2_def)
  have "2 ^ nat (bitlen n - 1) \<le> n" using bitlen_bounds [OF assms(1)] by simp
  then have "(of_int (2 ^ nat (bitlen n - 1)) :: rat) \<le> of_int n" by (simp only: of_int_le_iff)
  then have n: "pow2 (bitlen n - 1) \<le> (of_int n :: rat)" using b by (simp add: pow2_def)
  have "of_int d * pow2 (bitlen n - bitlen d - 1) \<le> pow2 (bitlen d) * pow2 (bitlen n - bitlen d - 1)"
    by (rule mult_right_mono [OF d]) (simp add: less_imp_le [OF pow2_pos])
  also have "\<dots> = pow2 (bitlen n - 1)" by (simp add: pow2_add [symmetric])
  finally show ?thesis using False n by (simp add: exponent_of_def Let_def)
qed

lemma round_even_bounds: "\<lfloor>x\<rfloor> \<le> round_even x" "of_int (round_even x) \<le> x + 1"
proof -
  show "\<lfloor>x\<rfloor> \<le> round_even x" by (simp add: round_even_def Let_def)
  have "round_even x \<le> \<lfloor>x\<rfloor> + 1" by (simp add: round_even_def Let_def)
  then have "(of_int (round_even x) :: rat) \<le> of_int (\<lfloor>x\<rfloor> + 1)" by (simp only: of_int_le_iff)
  also have "\<dots> \<le> x + 1" by simp
  finally show "of_int (round_even x) \<le> x + 1" .
qed

text \<open>The size \<open>v\<close> of the rounded value, before the test for an overflow.\<close>

lemma rounded_size:
  assumes "pow2 (- 1074) \<le> r" "q = max (exponent_of (fst (quotient_of r)) (snd (quotient_of r)) - 52) (- 1074)"
  shows "pow2 (- 1074) \<le> of_int (round_even (r / pow2 q)) * pow2 q"
    "of_int (round_even (r / pow2 q)) * pow2 q \<le> 2 * r"
proof -
  have r: "0 < r" using assms(1) pow2_pos [of "- 1074"] by linarith
  obtain n d where nd: "quotient_of r = (n, d)" by fastforce
  have d: "0 < d" using quotient_of_denom_pos [OF nd] .
  have rq: "r = of_int n / of_int d" using quotient_of_div [OF nd] .
  have n: "0 < n" using r d by (simp add: rq zero_less_divide_iff)
  have "of_int d * pow2 (exponent_of n d) \<le> of_int n" by (rule exponent_of_le [OF n d])
  then have e: "pow2 (exponent_of n d) \<le> r" using d by (simp add: rq pos_le_divide_eq mult.commute)
  have "pow2 q \<le> r"
  proof (cases "q = - 1074")
    case True
    then show ?thesis using assms(1) by simp
  next
    case False
    then have "q \<le> exponent_of n d" using assms(2) by (simp add: nd split: if_splits)
    then show ?thesis using pow2_mono [of q "exponent_of n d"] e by linarith
  qed
  note q = this pow2_pos [of q]
  have one: "1 \<le> r / pow2 q" using q by (simp add: pos_le_divide_eq)
  then have "1 \<le> round_even (r / pow2 q)" using round_even_bounds(1) [of "r / pow2 q"] by linarith
  then have "(of_int 1 :: rat) \<le> of_int (round_even (r / pow2 q))" by (simp only: of_int_le_iff)
  then have "1 * pow2 q \<le> of_int (round_even (r / pow2 q)) * pow2 q" using q(2) by (intro mult_right_mono) simp_all
  moreover have "pow2 (- 1074) \<le> pow2 q" by (rule pow2_mono) (simp add: assms(2))
  ultimately show "pow2 (- 1074) \<le> of_int (round_even (r / pow2 q)) * pow2 q" by linarith
  have "of_int (round_even (r / pow2 q)) * pow2 q \<le> (r / pow2 q + 1) * pow2 q"
    using round_even_bounds(2) [of "r / pow2 q"] q(2) by (intro mult_right_mono) simp_all
  also have "\<dots> = r + pow2 q" using q(2) by (simp add: field_simps)
  finally show "of_int (round_even (r / pow2 q)) * pow2 q \<le> 2 * r" using q(1) by linarith
qed

lemma round64_cases:
  assumes "pow2 (- 1074) \<le> r"
  shows "(round64 r = Inf False \<and> round64 (- r) = Inf True \<and> 2 ^ 1023 \<le> r)
    \<or> (\<exists>v. round64 r = Fin v \<and> round64 (- r) = Fin (- v) \<and> pow2 (- 1074) \<le> v)"
proof -
  have r: "0 < r" using assms pow2_pos [of "- 1074"] by linarith
  obtain n d where nd: "quotient_of r = (n, d)" by fastforce
  define q where "q = max (exponent_of n d - 52) (- 1074)"
  define v where "v = of_int (round_even (r / pow2 q)) * pow2 q"
  have v: "pow2 (- 1074) \<le> v" "v \<le> 2 * r"
    unfolding v_def by (rule rounded_size [OF assms]; simp add: q_def nd)+
  have eq: "round64 r = (if v \<ge> 2 ^ 1024 then Inf False else Fin v)"
    "round64 (- r) = (if v \<ge> 2 ^ 1024 then Inf True else Fin (- v))"
    using r by (simp_all add: round64_def nd q_def v_def Let_def)
  show ?thesis
  proof (cases "2 ^ 1024 \<le> v")
    case True
    have "(2 :: rat) ^ 1024 = 2 * 2 ^ 1023" by simp
    then have "(2 :: rat) ^ 1023 \<le> r" using True v(2) by linarith
    then show ?thesis using True eq by simp
  next
    case False
    then show ?thesis using eq v(1) by simp
  qed
qed

lemma round64_pos: "pow2 (- 1074) \<le> r \<Longrightarrow> float_pos (round64 r)" "pow2 (- 1074) \<le> r \<Longrightarrow> \<not> float_pos (round64 (- r))"
  using round64_cases [of r] pow2_pos [of "- 1074"] by (auto simp: float_pos_def)

lemma round64_0 [simp]: "round64 0 = Fin 0"
  by (simp add: round64_def)

lemma tiny: "pow2 (- 1074) \<le> 1 / 10 ^ 9"
proof -
  have "pow2 (- 1074) \<le> pow2 (- 30)" by (rule pow2_mono) simp
  also have "pow2 (- 30) \<le> 1 / 10 ^ 9" by (simp add: pow2_def)
  finally show ?thesis .
qed

section \<open>Durations\<close>

lemma round64_fraction:
  assumes "0 < (k :: int)" "k < 10 ^ 9"
  shows "\<exists>v. round64 (of_int k / 10 ^ 9) = Fin v \<and> round64 (- (of_int k / 10 ^ 9)) = Fin (- v) \<and> pow2 (- 1074) \<le> v"
proof -
  have "(1 :: rat) \<le> of_int k" using assms(1) by simp
  then have ge: "pow2 (- 1074) \<le> of_int k / 10 ^ 9" using tiny by (simp add: divide_right_mono order_trans)
  have "(of_int k :: rat) < of_int (10 ^ 9)" using assms(2) by (simp only: of_int_less_iff)
  then have "(of_int k :: rat) / 10 ^ 9 < 1" by (simp add: divide_less_eq)
  moreover have "(1 :: rat) \<le> 2 ^ 1023" by (rule one_le_power) simp
  ultimately have "\<not> (2 :: rat) ^ 1023 \<le> of_int k / 10 ^ 9" by linarith
  then show ?thesis using round64_cases [OF ge] by blast
qed

lemma Seconds_split:
  assumes "\<bar>d\<bar> \<le> 2 ^ 63"
  obtains b where "0 \<le> b" "d \<noteq> 0 \<Longrightarrow> pow2 (- 1074) \<le> of_int (\<bar>d\<bar> div 10 ^ 9) + b"
    "Seconds d = (if d < 0 then round64 (- (of_int (\<bar>d\<bar> div 10 ^ 9) + b)) else round64 (of_int (\<bar>d\<bar> div 10 ^ 9) + b))"
proof -
  let ?s = "\<bar>d\<bar> div 10 ^ 9" and ?k = "\<bar>d\<bar> mod 10 ^ 9"
  have s: "0 \<le> ?s" by simp
  have "?s \<le> 2 ^ 63 div 10 ^ 9" using assms by (rule zdiv_mono1) simp
  then have "?s < 2 ^ 53" by simp
  then have a: "float_of_int ?s = Fin (of_int ?s)" "float_of_int (- ?s) = Fin (- of_int ?s)"
    using s float_of_int_exact [of ?s] float_of_int_exact [of "- ?s"] by simp_all
  obtain b where b: "round64 (of_int ?k / 10 ^ 9) = Fin b" "round64 (- (of_int ?k / 10 ^ 9)) = Fin (- b)"
      "b = 0 \<and> ?k = 0 \<or> pow2 (- 1074) \<le> b"
  proof (cases "?k = 0")
    case True
    then show ?thesis using that [of 0] by simp
  next
    case False
    moreover have "0 \<le> ?k" "?k < 10 ^ 9" by (rule pos_mod_sign pos_mod_bound, simp)+
    ultimately have "0 < ?k" "?k < 10 ^ 9" by linarith+
    then show ?thesis using that round64_fraction [of ?k] by blast
  qed
  have b0: "0 \<le> b" using b(3) pow2_pos [of "- 1074"] by linarith
  have "pow2 (- 1074) \<le> of_int ?s + b" if d: "d \<noteq> 0"
  proof (cases "?k = 0")
    case True
    have "?s \<noteq> 0"
    proof
      assume "?s = 0"
      then have "10 ^ 9 * ?s + ?k = 0" using True by simp
      then show False using d unfolding mult_div_mod_eq by simp
    qed
    then have "1 \<le> ?s" using s by linarith
    then have "(1 :: rat) \<le> of_int ?s" by simp
    moreover have "pow2 (- 1074) \<le> 1" using tiny by (rule order_trans) simp
    ultimately show ?thesis using b0 by linarith
  next
    case False
    moreover have "(0 :: rat) \<le> of_int ?s" using s by simp
    ultimately show ?thesis using b(3) by linarith
  qed
  moreover have "Seconds d = (if d < 0 then round64 (- (of_int ?s + b)) else round64 (of_int ?s + b))"
  proof (cases d "0 :: int" rule: linorder_cases)
    case less
    then show ?thesis using a(2) b(2) by (simp add: Seconds_def Let_def)
  next
    case equal
    then show ?thesis using b(1) by (simp add: Seconds_def Let_def float_of_int_def)
  next
    case greater
    then show ?thesis using a(1) b(1) by (simp add: Seconds_def Let_def)
  qed
  ultimately show ?thesis using that b0 by blast
qed

lemma float_pos_Seconds:
  assumes "\<bar>d\<bar> \<le> 2 ^ 63"
  shows "float_pos (Seconds d) \<longleftrightarrow> 0 < d"
proof -
  obtain b where b: "0 \<le> b" "d \<noteq> 0 \<Longrightarrow> pow2 (- 1074) \<le> of_int (\<bar>d\<bar> div 10 ^ 9) + b"
    "Seconds d = (if d < 0 then round64 (- (of_int (\<bar>d\<bar> div 10 ^ 9) + b)) else round64 (of_int (\<bar>d\<bar> div 10 ^ 9) + b))"
    by (rule Seconds_split [OF assms]) blast
  show ?thesis
  proof (cases "d = 0")
    case True
    then have "Seconds d = Fin 0" by (simp add: Seconds_def float_of_int_def Let_def)
    then show ?thesis using True by (simp add: float_pos_def)
  next
    case False
    then show ?thesis using round64_pos [OF b(2) [OF False]] b(3) by auto
  qed
qed

end
