(* ===== verification/License_Collector.thy ===== *)
theory License_Collector
  imports License_Decoding Float_Order Domain_Check Collector_Kit "HOL-Library.Multiset"
begin

text \<open>
  \<open>pkg/collector/cockroachlicense\<close>, the rest: the configuration, the status of a cluster, the poll, the emission
  and the health. The clusters of a poll are queried concurrently, each by a goroutine that stores its status
  under a lock, so a poll is given the clusters in the order in which their goroutines ended, with what each
  saw: the two readings of the clock and the answers of the database.
\<close>

section \<open>Configuration\<close>

record cluster_config =
  clc_Name :: string
  clc_DSN :: string

record license_config =
  lc_CheckInterval :: int
  lc_CheckTimeout :: int
  lc_Clusters :: "cluster_config list"

definition license_NewDefaultConfig :: license_config where
  "license_NewDefaultConfig =
     \<lparr>lc_CheckInterval = 300 * 10 ^ 9, lc_CheckTimeout = 10 * 10 ^ 9, lc_Clusters = []\<rparr>"

text \<open>The first cluster without a name or a data source.\<close>

fun check_clusters :: "cluster_config list \<Rightarrow> err option" where
  "check_clusters [] = None"
| "check_clusters (cl # cls) =
     (if clc_Name cl = [] then Some ''cockroachlicense cluster name cannot be empty''
      else if clc_DSN cl = [] then Some (''cockroachlicense cluster '' @ Quote (clc_Name cl) @ '' DSN cannot be empty'')
      else check_clusters cls)"

section \<open>State\<close>

record cluster_status =
  cs_Name :: string
  cs_Up :: bool
  cs_HasLicense :: bool
  cs_LicenseType :: string
  cs_LicenseTypeValue :: float64
  cs_Environment :: string
  cs_LicenseID :: string
  cs_OrganizationID :: string
  cs_OrganizationName :: string
  cs_ExpiresAt :: int
  cs_SecondsUntil :: float64
  cs_LastScrape :: int
  cs_Error :: string

record license_descs =
  ld_up :: desc
  ld_info :: desc
  ld_type :: desc
  ld_expiry :: desc
  ld_seconds :: desc
  ld_scrape :: desc

record license_collector =
  lco_config :: license_config
  lco_clusters :: "string \<Rightarrow> cluster_status option"
  lco_descs :: license_descs

definition license_desc :: "prom \<Rightarrow> string \<Rightarrow> string \<Rightarrow> string \<Rightarrow> string list \<Rightarrow> desc" where
  "license_desc P ns n help labels =
     \<lparr>d_fqName = pr_BuildFQName P ns ''cockroach_license'' n, d_help = help, d_labels = ''cluster'' # labels\<rparr>"

definition license_descs_of :: "prom \<Rightarrow> string \<Rightarrow> license_descs" where
  "license_descs_of P ns =
     \<lparr>ld_up = license_desc P ns ''up''
        ''Whether CockroachDB license is installed and not expired (1=valid, 0=missing, expired, or collection failure)'' [],
      ld_info = license_desc P ns ''info''
        ''CockroachDB license information. Value is 1 when a license is installed, 0 otherwise.''
        [''type'', ''environment'', ''license_id'', ''organization_id'', ''organization_name''],
      ld_type = license_desc P ns ''type''
        ''CockroachDB license type as numeric value (0=Unknown/None, 1=Enterprise, 2=Evaluation, 3=Free, 4=Trial, 5=NonCommercial)''
        [''type''],
      ld_expiry = license_desc P ns ''expiry_timestamp_seconds''
        ''CockroachDB license expiration timestamp in Unix seconds. Value is 0 when no license is installed.'' [],
      ld_seconds = license_desc P ns ''seconds_until_expiry''
        ''Seconds until CockroachDB license expiration. Value is 0 when no license is installed.'' [],
      ld_scrape = license_desc P ns ''last_scrape_timestamp_seconds''
        ''Unix timestamp of the last CockroachDB license collection attempt.'' []\<rparr>"

definition license_desc_list :: "license_descs \<Rightarrow> desc list" where
  "license_desc_list D = [ld_up D, ld_info D, ld_type D, ld_expiry D, ld_seconds D, ld_scrape D]"

definition license_initMetrics :: "prom \<Rightarrow> string \<Rightarrow> base \<Rightarrow> (license_descs \<times> base) go" where
  "license_initMetrics P ns b =
     (let D = license_descs_of P ns in bind_go (register_descs (license_desc_list D) b) (\<lambda>b'. Ret (D, b')))"

text \<open>\<open>load\<close> is \<open>LoadModuleConfig\<close> on the section of the collector; its error is only logged.\<close>

definition license_NewCollector :: "prom \<Rightarrow> string \<Rightarrow> (license_config \<Rightarrow> license_config \<times> err option)
    \<Rightarrow> (license_collector \<times> base) res go" where
  "license_NewCollector P ns load =
     (let cfg = fst (load license_NewDefaultConfig) in
      if lc_Clusters cfg = [] then Ret (Inl ''at least one CockroachDB cluster must be configured'')
      else case check_clusters (lc_Clusters cfg) of
        Some e \<Rightarrow> Ret (Inl e)
      | None \<Rightarrow>
         bind_go (license_initMetrics P ns (NewBaseCollector ''cockroachlicense'' [WithWaitReadyOnCollect True]))
           (\<lambda>(descs, b). Ret (Inr (\<lparr>lco_config = cfg, lco_clusters = Map.empty, lco_descs = descs\<rparr>, b))))"

definition license_HasSynced :: "license_collector \<Rightarrow> bool" where
  "license_HasSynced c = True"

definition license_Interval :: "license_collector \<Rightarrow> int" where
  "license_Interval c = lc_CheckInterval (lco_config c)"

section \<open>One cluster\<close>

text \<open>What the goroutine of a cluster meets: the clock in seconds at its start and in nanoseconds when it computes
  the time that is left, the error of the connection and the answer of the query.\<close>

record cluster_turn =
  ct_cluster :: cluster_config
  ct_start :: int
  ct_now :: int
  ct_Connect :: "err option"
  ct_Scan :: "err + string"

definition queryLicense :: "cluster_turn \<Rightarrow> string res" where
  "queryLicense t = (case ct_Connect t of Some e \<Rightarrow> Inl e | None \<Rightarrow> ct_Scan t)"

definition new_status :: "cluster_turn \<Rightarrow> cluster_status" where
  "new_status t = \<lparr>cs_Name = clc_Name (ct_cluster t), cs_Up = False, cs_HasLicense = False, cs_LicenseType = [],
     cs_LicenseTypeValue = Fin 0, cs_Environment = [], cs_LicenseID = [], cs_OrganizationID = [],
     cs_OrganizationName = [], cs_ExpiresAt = 0, cs_SecondsUntil = Fin 0, cs_LastScrape = ct_start t, cs_Error = []\<rparr>"

text \<open>\<open>time.Unix\<close> in nanoseconds: a time keeps its seconds since the year 1 in 64 bits, so the sum wraps around.\<close>

definition unix_to_internal :: int where "unix_to_internal = 62135596800"

definition unix_nanos :: "int \<Rightarrow> int" where
  "unix_nanos s = (((s + unix_to_internal + 2 ^ 63) mod 2 ^ 64 - 2 ^ 63) - unix_to_internal) * 10 ^ 9"

definition licensed_status :: "int \<Rightarrow> license_info \<Rightarrow> cluster_status \<Rightarrow> cluster_status" where
  "licensed_status now li s =
     (let secs = Seconds (time_Sub (unix_nanos (int (li_validUntil li))) now) in
      s\<lparr>cs_HasLicense := True, cs_LicenseType := licenseTypeString (li_type li),
        cs_LicenseTypeValue := float_of_int (int (licenseTypeValue (li_type li))),
        cs_Environment := environmentString (li_env li), cs_LicenseID := li_id li,
        cs_OrganizationID := li_orgID li, cs_OrganizationName := li_orgName li,
        cs_ExpiresAt := int (li_validUntil li), cs_SecondsUntil := secs, cs_Up := float_pos secs\<rparr>)"

definition collectCluster :: "wire \<Rightarrow> cluster_turn \<Rightarrow> cluster_status option" where
  "collectCluster W t = (case queryLicense t of
       Inl e \<Rightarrow> Some (new_status t\<lparr>cs_Error := e\<rparr>)
     | Inr s \<Rightarrow> (case decodeLicense W s of
          None \<Rightarrow> None
        | Some (Inl e) \<Rightarrow> Some (new_status t\<lparr>cs_Error := e\<rparr>)
        | Some (Inr None) \<Rightarrow> Some (new_status t)
        | Some (Inr (Some li)) \<Rightarrow> Some (licensed_status (ct_now t) li (new_status t))))"

section \<open>Polling\<close>

text \<open>The turns are the configured clusters, each once, in the order in which their goroutines end; the poll ends
  when all have.\<close>

fun license_statuses :: "wire \<Rightarrow> cluster_turn list \<Rightarrow> (string \<Rightarrow> cluster_status option)
    \<Rightarrow> (string \<Rightarrow> cluster_status option) option" where
  "license_statuses W [] m = Some m"
| "license_statuses W (t # ts) m = (case collectCluster W t of
       None \<Rightarrow> None
     | Some s \<Rightarrow> license_statuses W ts (m(clc_Name (ct_cluster t) \<mapsto> s)))"

definition license_Poll :: "wire \<Rightarrow> cluster_turn list \<Rightarrow> license_collector \<Rightarrow> license_collector option" where
  "license_Poll W ts c = map_option (\<lambda>m. c\<lparr>lco_clusters := m\<rparr>) (license_statuses W ts Map.empty)"

definition license_poll_of :: "license_collector \<Rightarrow> cluster_turn list \<Rightarrow> bool" where
  "license_poll_of c ts \<longleftrightarrow> mset (map ct_cluster ts) = mset (lc_Clusters (lco_config c))"

definition license_poll_options :: "license_collector \<Rightarrow> poll_options" where
  "license_poll_options c = \<lparr>po_Interval = lc_CheckInterval (lco_config c), po_Operation = ''cockroachlicense'',
     po_SlowThreshold = 0, po_SuccessInfoLog = False\<rparr>"

text \<open>The polls of a loop, with the time each takes. They are polls that end, as all do for a reader that takes the
  bytes of a tag; the state is kept where one is not.\<close>

definition license_poll_next :: "wire \<Rightarrow> (cluster_turn list \<times> int) list \<times> license_collector
    \<Rightarrow> err option \<times> int \<times> (cluster_turn list \<times> int) list \<times> license_collector" where
  "license_poll_next W s = (case s of ([], c) \<Rightarrow> (None, 0, [], c)
     | ((ts, d) # rest, c) \<Rightarrow> (None, d, rest, case license_Poll W ts c of Some c' \<Rightarrow> c' | None \<Rightarrow> c))"

definition license_pollLoop :: "wire \<Rightarrow> base \<Rightarrow> (cluster_turn list \<times> int) list \<times> license_collector \<Rightarrow> loop_event list
    \<Rightarrow> (base \<times> poll_log list \<times> (cluster_turn list \<times> int) list \<times> license_collector) go" where
  "license_pollLoop W b s es = RunPollLoop (license_poll_next W) (license_poll_options (snd s)) b s es"

section \<open>Emission and health\<close>

definition cluster_rows :: "license_descs \<Rightarrow> cluster_status \<Rightarrow> row list" where
  "cluster_rows D s =
     [(ld_up D, boolToFloat64 (cs_Up s), [cs_Name s]),
      (ld_info D, boolToFloat64 (cs_HasLicense s), [cs_Name s, cs_LicenseType s, cs_Environment s, cs_LicenseID s,
         cs_OrganizationID s, cs_OrganizationName s]),
      (ld_type D, cs_LicenseTypeValue s, [cs_Name s, cs_LicenseType s]),
      (ld_expiry D, float_of_int (cs_ExpiresAt s), [cs_Name s]),
      (ld_seconds D, cs_SecondsUntil s, [cs_Name s]),
      (ld_scrape D, float_of_int (cs_LastScrape s), [cs_Name s])]"

definition license_collect :: "prom \<Rightarrow> license_collector \<Rightarrow> (string \<times> cluster_status) list
    \<Rightarrow> pmetric list \<times> string option" where
  "license_collect P c es =
     emit (map (\<lambda>(d, v, ls). const_metric P d v ls) (concat (map (\<lambda>x. cluster_rows (lco_descs c) (snd x)) es)))"

definition license_health :: "license_collector \<Rightarrow> (string \<times> cluster_status) list \<Rightarrow> err option" where
  "license_health c es =
     (if es = [] then Some ''no Cockroach license status has been collected''
      else if list_ex (\<lambda>x. cs_Up (snd x)) es then None
      else Some ''all Cockroach license collection targets are down'')"

section \<open>What a status says\<close>

lemma time_Sub_bound: "\<bar>time_Sub t u\<bar> \<le> 2 ^ 63"
  by (simp add: time_Sub_def)

lemma time_Sub_pos: "0 < time_Sub t u \<longleftrightarrow> u < t"
  by (auto simp: time_Sub_def)

lemma unix_nanos_plain: "0 \<le> s \<Longrightarrow> s < 2 ^ 63 - unix_to_internal \<Longrightarrow> unix_nanos s = s * 10 ^ 9"
  by (simp add: unix_nanos_def unix_to_internal_def)

lemma unix_nanos_late: "2 ^ 63 - unix_to_internal \<le> s \<Longrightarrow> s < 2 ^ 63 \<Longrightarrow> unix_nanos s < 0"
proof -
  assume s: "2 ^ 63 - unix_to_internal \<le> s" "s < 2 ^ 63"
  then have "(s + unix_to_internal + 2 ^ 63) mod 2 ^ 64 = s + unix_to_internal + 2 ^ 63 - 2 ^ 64"
    by (intro mod_pos_pos_trivial [of "s + unix_to_internal + 2 ^ 63 - 2 ^ 64" "2 ^ 64",
          unfolded minus_mod_self2]) (simp_all add: unix_to_internal_def)
  then show ?thesis using s by (simp add: unix_nanos_def unix_to_internal_def)
qed

lemma licensed_status_Up: "cs_Up (licensed_status now li s) \<longleftrightarrow> now < unix_nanos (int (li_validUntil li))"
  by (simp add: licensed_status_def Let_def float_pos_Seconds [OF time_Sub_bound] time_Sub_pos)

lemma licensed_status_HasLicense [simp]: "cs_HasLicense (licensed_status now li s)"
  "cs_Name (licensed_status now li s) = cs_Name s"
  by (simp_all add: licensed_status_def Let_def)

lemma collectCluster_name: "collectCluster W t = Some s \<Longrightarrow> cs_Name s = clc_Name (ct_cluster t)"
  by (auto simp: collectCluster_def new_status_def split: sum.splits option.splits)

lemma collectCluster_returns: "takes_tags W \<Longrightarrow> \<exists>s. collectCluster W t = Some s"
proof -
  assume W: "takes_tags W"
  show ?thesis
  proof (cases "queryLicense t")
    case (Inr s)
    obtain r where r: "decodeLicense W s = Some r"
      using decodeLicense_returns [OF W] by blast
    show ?thesis by (cases r) (simp_all add: collectCluster_def Inr r split: option.split)
  qed (simp add: collectCluster_def)
qed

text \<open>The license that a turn finds.\<close>

definition found_license :: "wire \<Rightarrow> cluster_turn \<Rightarrow> license_info option" where
  "found_license W t = (case queryLicense t of Inl e \<Rightarrow> None | Inr s \<Rightarrow>
     (case decodeLicense W s of Some (Inr li) \<Rightarrow> li | _ \<Rightarrow> None))"

lemma collectCluster_found:
  assumes "collectCluster W t = Some s"
  shows "(case found_license W t of
      None \<Rightarrow> \<exists>e. s = new_status t\<lparr>cs_Error := e\<rparr>
    | Some li \<Rightarrow> s = licensed_status (ct_now t) li (new_status t))"
proof -
  have "new_status t = new_status t\<lparr>cs_Error := []\<rparr>" by (simp add: new_status_def)
  then have "\<exists>e. new_status t = new_status t\<lparr>cs_Error := e\<rparr>" by (rule exI)
  then show ?thesis using assms
    unfolding collectCluster_def found_license_def by (cases "queryLicense t") (auto split: option.splits sum.splits)
qed

text \<open>C36. The status of a cluster always comes, and it is up exactly when the database could be asked, its answer is a
  license that can be decoded, and the license has not expired at the time of the check, provided that the last
  second of the license is one that a time can hold.\<close>

theorem cluster_is_up_while_licensed:
  assumes "takes_tags W"
    "\<forall>li. found_license W t = Some li \<longrightarrow> int (li_validUntil li) < 2 ^ 63 - unix_to_internal"
  shows "\<exists>s. collectCluster W t = Some s \<and> cs_Name s = clc_Name (ct_cluster t) \<and> cs_LastScrape s = ct_start t
    \<and> (cs_HasLicense s \<longleftrightarrow> found_license W t \<noteq> None)
    \<and> (cs_Up s \<longleftrightarrow> (\<exists>li. found_license W t = Some li \<and> ct_now t < int (li_validUntil li) * 10 ^ 9))"
proof -
  obtain s where s: "collectCluster W t = Some s" using collectCluster_returns [OF assms(1)] by blast
  show ?thesis
  proof (cases "found_license W t")
    case None
    then obtain e where "s = new_status t\<lparr>cs_Error := e\<rparr>" using collectCluster_found [OF s] by auto
    then show ?thesis using s None by (simp add: new_status_def)
  next
    case (Some li)
    then have "s = licensed_status (ct_now t) li (new_status t)" using collectCluster_found [OF s] by simp
    moreover have "unix_nanos (int (li_validUntil li)) = int (li_validUntil li) * 10 ^ 9"
      using assms(2) Some by (intro unix_nanos_plain) simp_all
    ultimately show ?thesis using s Some licensed_status_Up [of "ct_now t" li "new_status t"]
      by (simp add: licensed_status_def new_status_def Let_def)
  qed
qed

text \<open>The proviso is needed: a decoded license may end later than a time can hold, and then it counts as expired
  long ago, although it is the longest of all.\<close>

theorem endless_license_is_expired:
  assumes "collectCluster W t = Some s" "found_license W t = Some li"
    "2 ^ 63 - unix_to_internal \<le> int (li_validUntil li)" "li_validUntil li \<le> max_int64" "0 \<le> ct_now t"
  shows "cs_HasLicense s \<and> \<not> cs_Up s"
proof -
  have "s = licensed_status (ct_now t) li (new_status t)" using collectCluster_found [OF assms(1)] assms(2) by simp
  moreover have "unix_nanos (int (li_validUntil li)) < 0"
    using assms(3,4) by (intro unix_nanos_late) (simp_all add: max_int64_def)
  ultimately show ?thesis using assms(5) by (simp add: licensed_status_Up)
qed

section \<open>The map after a poll\<close>

lemma license_statuses_store:
  assumes "license_statuses W ts m = Some m'"
  shows "\<exists>ss. list_all2 (\<lambda>t s. collectCluster W t = Some s) ts ss \<and> m' = store_by cs_Name ss m"
  using assms
proof (induction ts arbitrary: m)
  case Nil
  then show ?case by (simp add: store_by_def)
next
  case (Cons t ts)
  then obtain s where s: "collectCluster W t = Some s" "license_statuses W ts (m(cs_Name s \<mapsto> s)) = Some m'"
    by (auto split: option.splits simp: collectCluster_name)
  then obtain ss where "list_all2 (\<lambda>t s. collectCluster W t = Some s) ts ss" "m' = store_by cs_Name ss (m(cs_Name s \<mapsto> s))"
    using Cons.IH by blast
  then have "list_all2 (\<lambda>t s. collectCluster W t = Some s) (t # ts) (s # ss) \<and> m' = store_by cs_Name (s # ss) m"
    using s(1) by (simp add: store_by_def)
  then show ?case by blast
qed

lemma license_statuses_return: "takes_tags W \<Longrightarrow> \<exists>m'. license_statuses W ts m = Some m'"
proof (induction ts arbitrary: m)
  case (Cons t ts)
  then show ?case using collectCluster_returns [of W t] by auto
qed simp

lemma list_all2_names:
  "list_all2 (\<lambda>t s. collectCluster W t = Some s) ts ss \<Longrightarrow> map cs_Name ss = map (\<lambda>t. clc_Name (ct_cluster t)) ts"
  by (induction rule: list_all2_induct) (simp_all add: collectCluster_name)

lemma license_Poll_clusters:
  assumes "license_Poll W ts c = Some c'"
  obtains ss where "list_all2 (\<lambda>t s. collectCluster W t = Some s) ts ss"
    "lco_clusters c' = store_by cs_Name ss Map.empty" "lco_descs c' = lco_descs c" "lco_config c' = lco_config c"
  using assms license_statuses_store [of W ts Map.empty] by (auto simp: license_Poll_def)

text \<open>A poll ends, and then there is one status for each name of a configured cluster and none besides: clusters
  whose names differ all have theirs, the one that their own check gave.\<close>

theorem license_poll_covers_clusters:
  assumes "takes_tags W" "license_poll_of c ts"
  shows "\<exists>c'. license_Poll W ts c = Some c'
    \<and> dom (lco_clusters c') = clc_Name ` set (lc_Clusters (lco_config c))
    \<and> (\<forall>t \<in> set ts. distinct (map clc_Name (lc_Clusters (lco_config c))) \<longrightarrow>
         lco_clusters c' (clc_Name (ct_cluster t)) = collectCluster W t)"
proof -
  obtain c' where c': "license_Poll W ts c = Some c'"
    using license_statuses_return [OF assms(1), of ts Map.empty] by (auto simp: license_Poll_def)
  obtain ss where ss: "list_all2 (\<lambda>t s. collectCluster W t = Some s) ts ss"
      "lco_clusters c' = store_by cs_Name ss Map.empty"
    using license_Poll_clusters [OF c'] by blast
  note names = list_all2_names [OF ss(1)]
  have m: "mset (map clc_Name (map ct_cluster ts)) = mset (map clc_Name (lc_Clusters (lco_config c)))"
    using assms(2) unfolding license_poll_of_def by (simp only: mset_map)
  have dm: "set (map cs_Name ss) = clc_Name ` set (lc_Clusters (lco_config c))"
    using mset_eq_setD [OF m] unfolding names by (simp add: image_image)
  have "lco_clusters c' (clc_Name (ct_cluster t)) = collectCluster W t"
    if t: "t \<in> set ts" and d: "distinct (map clc_Name (lc_Clusters (lco_config c)))" for t
  proof -
    have "distinct (map cs_Name ss)"
      using mset_eq_imp_distinct_iff [OF m] d unfolding names by (simp add: comp_def)
    then have inj: "inj_on cs_Name (set ss)" by (simp add: distinct_map)
    obtain i where i: "i < length ts" "ts ! i = t" using t by (auto simp: in_set_conv_nth)
    then have s: "collectCluster W t = Some (ss ! i)" "ss ! i \<in> set ss"
      using ss(1) by (auto simp: list_all2_conv_all_nth)
    show ?thesis using store_by_inj [OF inj s(2)] s(1) ss(2) collectCluster_name [OF s(1)] by simp
  qed
  moreover have "dom (lco_clusters c') = clc_Name ` set (lc_Clusters (lco_config c))"
    using dm by (simp add: ss(2) store_by_dom)
  ultimately show ?thesis using c' by blast
qed

text \<open>After any polls a status is kept under its name.\<close>

definition license_inv :: "license_collector \<Rightarrow> bool" where
  "license_inv c \<longleftrightarrow> (\<forall>n s. lco_clusters c n = Some s \<longrightarrow> cs_Name s = n)"

lemma license_inv_Poll: "license_Poll W ts c = Some c' \<Longrightarrow> license_inv c' \<and> lco_descs c' = lco_descs c"
  by (erule license_Poll_clusters) (auto simp: license_inv_def dest: store_by_Some)

lemma license_descs_arity:
  "D = license_descs_of P ns \<Longrightarrow> length (d_labels (ld_up D)) = 1 \<and> length (d_labels (ld_info D)) = 6
     \<and> length (d_labels (ld_type D)) = 2 \<and> length (d_labels (ld_expiry D)) = 1
     \<and> length (d_labels (ld_seconds D)) = 1 \<and> length (d_labels (ld_scrape D)) = 1"
  by (simp add: license_descs_of_def license_desc_def)

lemma license_desc_names: "fq_law P \<Longrightarrow> distinct (map d_fqName (license_desc_list (license_descs_of P ns)))"
  by (simp add: license_desc_list_def license_descs_of_def license_desc_def fq_inject)

lemma cluster_rows_desc:
  "(d, v, ls) \<in> set (cluster_rows D s) \<Longrightarrow> d \<in> set (license_desc_list D)"
  by (auto simp: cluster_rows_def license_desc_list_def)

lemma cluster_rows_arity:
  "(d, v, ls) \<in> set (cluster_rows (license_descs_of P ns) s) \<Longrightarrow> length ls = length (d_labels d)"
  using license_descs_arity [OF refl, of P ns] by (auto simp: cluster_rows_def)

definition license_prom_ok :: "prom \<Rightarrow> string \<Rightarrow> bool" where
  "license_prom_ok P ns \<longleftrightarrow> fq_law P \<and> list_all (usable P) (license_desc_list (license_descs_of P ns))"

text \<open>After a poll a scrape does not panic and sends each series once, six for each cluster that has a status, in
  whatever order the map is iterated; and the collector is healthy exactly when some cluster is up.\<close>

theorem license_scrape_is_clean:
  assumes "lco_descs c = license_descs_of P ns" "license_prom_ok P ns" "license_Poll W ts c = Some c'"
    "entries_of es (lco_clusters c')"
  shows "license_collect P c' es = (map row_sample (concat (map (\<lambda>x. cluster_rows (license_descs_of P ns) (snd x)) es)), None)
    \<and> no_duplicates (fst (license_collect P c' es))
    \<and> (license_health c' es = None \<longleftrightarrow> (\<exists>n s. lco_clusters c' n = Some s \<and> cs_Up s))"
proof -
  let ?D = "license_descs_of P ns"
  let ?rows = "concat (map (\<lambda>x. cluster_rows ?D (snd x)) es)"
  have inv: "license_inv c'" and D: "lco_descs c' = ?D" using license_inv_Poll [OF assms(3)] assms(1) by simp_all
  have u: "usable P d" if "d \<in> set (license_desc_list ?D)" for d
    using assms(2) that by (auto simp: license_prom_ok_def list_all_iff)
  have n: "distinct (map d_fqName (license_desc_list ?D))"
    using license_desc_names assms(2) by (simp add: license_prom_ok_def)
  have "distinct (map row_key ?rows)"
  proof (rule distinct_entry_rows [OF assms(4), where f = "\<lambda>k. hd (snd k)"])
    show "distinct (map row_key (cluster_rows ?D s))" for s
      using n by (auto simp: cluster_rows_def row_key_def license_desc_list_def)
    show "hd (snd (row_key r)) = k" if "lco_clusters c' k = Some s" "r \<in> set (cluster_rows ?D s)" for k s r
      using that inv by (auto simp: cluster_rows_def row_key_def license_inv_def)
  qed
  note rows = emit_rows [of ?rows P, OF _ this]
  have e: "usable P d \<and> length ls = length (d_labels d)" if m: "(d, v, ls) \<in> set ?rows" for d v ls
  proof -
    obtain x where "x \<in> set es" "(d, v, ls) \<in> set (cluster_rows ?D (snd x))" using m by auto
    then have "(d, v, ls) \<in> set (cluster_rows ?D (snd x))" by blast
    from u [OF cluster_rows_desc [OF this]] cluster_rows_arity [OF this] show ?thesis ..
  qed
  have "list_ex (\<lambda>x. cs_Up (snd x)) es \<longleftrightarrow> (\<exists>n s. lco_clusters c' n = Some s \<and> cs_Up s)"
    unfolding list_ex_iff entries_of_mem [OF assms(4), symmetric] by force
  moreover have "license_health c' es = None \<longleftrightarrow> list_ex (\<lambda>x. cs_Up (snd x)) es"
    by (auto simp: license_health_def)
  ultimately show ?thesis using rows e by (simp add: license_collect_def D)
qed

section \<open>Runs\<close>

definition demo_parts :: "nat \<Rightarrow> license_part list" where
  "demo_parts v = [ValidUntil v, LicType 1, OrgName ''acme'']"

definition demo_cluster :: "string \<Rightarrow> cluster_config" where
  "demo_cluster n = \<lparr>clc_Name = n, clc_DSN = ''postgres://db''\<rparr>"

definition demo_cluster_turn :: "string \<Rightarrow> nat \<Rightarrow> cluster_turn" where
  "demo_cluster_turn n v = \<lparr>ct_cluster = demo_cluster n, ct_start = 1800000000, ct_now = 1800000000 * 10 ^ 9,
     ct_Connect = None, ct_Scan = Inr (encodeLicense (demo_parts v))\<rparr>"

lemma demo_cluster_turn_fields [simp]:
  "ct_cluster (demo_cluster_turn n v) = demo_cluster n" "ct_now (demo_cluster_turn n v) = 1800000000 * 10 ^ 9"
  "clc_Name (demo_cluster n) = n"
  by (simp_all add: demo_cluster_turn_def demo_cluster_def)

lemma demo_found: "v \<le> max_int64 \<Longrightarrow>
    found_license plain_wire (demo_cluster_turn n v) = Some (foldl apply_part no_info (demo_parts v))"
  using decode_encoded [OF plain_wire_law, of "demo_parts v"]
  by (simp add: found_license_def queryLicense_def demo_cluster_turn_def demo_parts_def max_int32_def)

lemma demo_valid_until [simp]: "li_validUntil (foldl apply_part no_info (demo_parts v)) = v"
  by (simp add: demo_parts_def)

definition demo_license_collector :: license_collector where
  "demo_license_collector = \<lparr>lco_config = \<lparr>lc_CheckInterval = 300 * 10 ^ 9, lc_CheckTimeout = 10 * 10 ^ 9,
     lc_Clusters = [demo_cluster ''a'', demo_cluster ''b'']\<rparr>, lco_clusters = Map.empty,
     lco_descs = license_descs_of demo_prom ''sealos''\<rparr>"

theorem cluster_is_up_while_licensed_witness:
  "\<exists>s. collectCluster plain_wire (demo_cluster_turn ''a'' 1900000000) = Some s \<and> cs_Up s"
  using cluster_is_up_while_licensed [OF plain_wire_takes_tags, of "demo_cluster_turn ''a'' 1900000000"]
    demo_found [of 1900000000 "''a''"]
  by (auto simp: unix_to_internal_def max_int64_def)

theorem endless_license_is_expired_witness:
  "\<exists>s. collectCluster plain_wire (demo_cluster_turn ''a'' 9223372036854775807) = Some s \<and> \<not> cs_Up s"
proof -
  obtain s where s: "collectCluster plain_wire (demo_cluster_turn ''a'' 9223372036854775807) = Some s"
    using collectCluster_returns [OF plain_wire_takes_tags] by blast
  have "found_license plain_wire (demo_cluster_turn ''a'' 9223372036854775807)
      = Some (foldl apply_part no_info (demo_parts 9223372036854775807))"
    by (rule demo_found) (simp add: max_int64_def)
  from endless_license_is_expired [OF s this] s show ?thesis
    by (simp add: unix_to_internal_def max_int64_def)
qed

theorem license_poll_covers_clusters_witness:
  "\<exists>c'. license_Poll plain_wire [demo_cluster_turn ''b'' 7, demo_cluster_turn ''a'' 8] demo_license_collector = Some c'
     \<and> dom (lco_clusters c') = {''a'', ''b''}
     \<and> lco_clusters c' ''a'' = collectCluster plain_wire (demo_cluster_turn ''a'' 8)"
proof -
  have "license_poll_of demo_license_collector [demo_cluster_turn ''b'' 7, demo_cluster_turn ''a'' 8]"
    by (simp add: license_poll_of_def demo_license_collector_def add_mset_commute)
  from license_poll_covers_clusters [OF plain_wire_takes_tags this] show ?thesis
    by (auto simp: demo_license_collector_def)
qed

theorem license_scrape_is_clean_witness:
  "\<exists>c' es. license_Poll plain_wire [demo_cluster_turn ''a'' 8] demo_license_collector = Some c'
     \<and> entries_of es (lco_clusters c') \<and> no_duplicates (fst (license_collect demo_prom c' es))"
proof -
  obtain s where s: "collectCluster plain_wire (demo_cluster_turn ''a'' 8) = Some s"
    using collectCluster_returns [OF plain_wire_takes_tags] by blast
  let ?c = "demo_license_collector\<lparr>lco_clusters := [''a'' \<mapsto> s]\<rparr>"
  have p: "license_Poll plain_wire [demo_cluster_turn ''a'' 8] demo_license_collector = Some ?c"
    by (simp add: license_Poll_def s)
  have e: "entries_of [(''a'', s)] (lco_clusters ?c)" by (simp add: entries_of_def)
  have "lco_descs demo_license_collector = license_descs_of demo_prom ''sealos''" "license_prom_ok demo_prom ''sealos''"
    by (simp_all add: demo_license_collector_def license_prom_ok_def license_desc_list_def)
  from license_scrape_is_clean [OF this p e] show ?thesis using p e by blast
qed

end
