(* ===== verification/LVM_Parsing.thy ===== *)
theory LVM_Parsing
  imports Go_Net Go_Float "HOL-Library.Multiset"
begin

text \<open>
  \<open>pkg/lvm\<close>: the commands of the logical volume manager and the parsing of what they print. A parser walks Go
  maps from keys to fields, so the order of the keys is an argument. The host, which runs the commands, resolves
  links and decodes JSON, is the record \<open>lvm_host\<close>; the quantities of \<open>apimachinery\<close> are the record
  \<open>quantities\<close> with its documented laws.
\<close>

section \<open>Integers\<close>

datatype num_error = InvalidSyntax | OutOfRange

fun uint_loop :: "nat \<Rightarrow> nat \<Rightarrow> string \<Rightarrow> num_error + nat" where
  "uint_loop m n [] = Inr n"
| "uint_loop m n (c # s) =
     (if \<not> is_digit c then Inl InvalidSyntax
      else if m < 10 * n + digit_val c then Inl OutOfRange
      else uint_loop m (10 * n + digit_val c) s)"

text \<open>\<open>strconv.ParseInt(s, 10, bits)\<close>, whose value beside a range error is the nearest bound.\<close>

definition split_sign :: "string \<Rightarrow> bool \<times> string" where
  "split_sign s = (case s of
       c # cs \<Rightarrow> if c = CHR ''-'' then (True, cs) else if c = CHR ''+'' then (False, cs) else (False, s)
     | [] \<Rightarrow> (False, []))"

definition parse_signed :: "nat \<Rightarrow> bool \<Rightarrow> string \<Rightarrow> int \<times> num_error option" where
  "parse_signed bits neg ds =
     (let cutoff = 2 ^ (bits - 1);
          out = (if neg then - int cutoff else int cutoff - 1, Some OutOfRange)
      in case (if ds = [] then Inl InvalidSyntax else uint_loop (2 ^ bits - 1) 0 ds) of
           Inl InvalidSyntax \<Rightarrow> (0, Some InvalidSyntax)
         | Inl OutOfRange \<Rightarrow> out
         | Inr n \<Rightarrow>
             if \<not> neg \<and> cutoff \<le> n \<or> neg \<and> cutoff < n then out
             else (if neg then - int n else int n, None))"

definition ParseInt :: "nat \<Rightarrow> string \<Rightarrow> int \<times> num_error option" where
  "ParseInt bits s = (case split_sign s of (neg, ds) \<Rightarrow> parse_signed bits neg ds)"

definition num_error_text :: "string \<Rightarrow> num_error \<Rightarrow> err" where
  "num_error_text s e = ''strconv.ParseInt: parsing '' @ Quote s @ '': ''
     @ (case e of InvalidSyntax \<Rightarrow> ''invalid syntax'' | OutOfRange \<Rightarrow> ''value out of range'')"

section \<open>Items\<close>

text \<open>A line of a report is a map of strings; an absent key reads as the empty string.\<close>

type_synonym lvm_item = "string \<Rightarrow> string option"

definition field_of :: "lvm_item \<Rightarrow> string \<Rightarrow> string" where
  "field_of m k = (case m k of Some v \<Rightarrow> v | None \<Rightarrow> [])"

definition parse_bytes :: "lvm_item \<Rightarrow> string \<Rightarrow> int \<times> num_error option" where
  "parse_bytes m k = ParseInt 64 (TrimSuffix (ToLower (field_of m k)) ''b'')"

definition bad_format :: "lvm_item \<Rightarrow> string \<Rightarrow> string \<Rightarrow> string \<Rightarrow> err \<Rightarrow> err" where
  "bad_format m k kind name e =
     ''invalid format of '' @ k @ ''='' @ field_of m k @ '' for '' @ kind @ '' '' @ name @ '': '' @ e"

definition bad_bytes :: "lvm_item \<Rightarrow> string \<Rightarrow> string \<Rightarrow> string \<Rightarrow> num_error \<Rightarrow> err" where
  "bad_bytes m k kind name e =
     bad_format m k kind name (num_error_text (TrimSuffix (ToLower (field_of m k)) ''b'') e)"

fun position_from :: "int \<Rightarrow> string \<Rightarrow> string list \<Rightarrow> int" where
  "position_from i v [] = - 1"
| "position_from i v (x # xs) = (if x = v then i else position_from (i + 1) v xs)"

definition Enums :: "string \<Rightarrow> string list" where
  "Enums k =
     (if k = ''lv_permissions'' then [''unknown'', ''writeable'', ''read-only'', ''read-only-override'']
      else if k = ''lv_when_full'' then [''error'', ''queue'']
      else if k = ''raid_sync_action'' then [''idle'', ''frozen'', ''resync'', ''recover'', ''check'', ''repair'']
      else if k = ''lv_health_status'' then [[], ''partial'', ''refresh needed'', ''mismatches exist'']
      else if k = ''vg_allocation_policy'' then [''normal'', ''contiguous'', ''cling'', ''anywhere'', ''inherited'']
      else if k = ''vg_permissions'' then [''writeable'', ''read-only'']
      else [])"

definition getIntFieldValue :: "string \<Rightarrow> string \<Rightarrow> int" where
  "getIntFieldValue fieldName fieldValue = position_from 0 fieldValue (Enums fieldName)"

section \<open>Quantities\<close>

record 'q quantities =
  qt_New :: "int \<Rightarrow> 'q"
  qt_Add :: "'q \<Rightarrow> 'q \<Rightarrow> 'q"
  qt_Value :: "'q \<Rightarrow> int"

section \<open>Volume groups\<close>

record 'q volume_group =
  vg_Name :: string
  vg_UUID :: string
  vg_Size :: 'q
  vg_Free :: 'q
  vg_LVCount :: int
  vg_PVCount :: int
  vg_MaxLV :: int
  vg_MaxPV :: int
  vg_SnapCount :: int
  vg_MissingPVCount :: int
  vg_MetadataCount :: int
  vg_MetadataUsedCount :: int
  vg_MetadataFree :: 'q
  vg_MetadataSize :: 'q
  vg_Permission :: int
  vg_AllocationPolicy :: int

definition new_vg :: "'q \<Rightarrow> string \<Rightarrow> string \<Rightarrow> 'q volume_group" where
  "new_vg z name uuid = \<lparr>vg_Name = name, vg_UUID = uuid, vg_Size = z, vg_Free = z, vg_LVCount = 0, vg_PVCount = 0,
     vg_MaxLV = 0, vg_MaxPV = 0, vg_SnapCount = 0, vg_MissingPVCount = 0, vg_MetadataCount = 0,
     vg_MetadataUsedCount = 0, vg_MetadataFree = z, vg_MetadataSize = z, vg_Permission = 0, vg_AllocationPolicy = 0\<rparr>"

definition vg_count_keys :: "string list" where
  "vg_count_keys = [''pv_count'', ''lv_count'', ''max_lv'', ''max_pv'', ''snap_count'', ''vg_missing_pv_count'',
     ''vg_mda_count'', ''vg_mda_used_count'']"

definition vg_size_keys :: "string list" where
  "vg_size_keys = [''vg_size'', ''vg_free'', ''vg_mda_size'', ''vg_mda_free'']"

text \<open>The field that a key of the two maps points to.\<close>

definition set_vg_count :: "string \<Rightarrow> int \<Rightarrow> 'q volume_group \<Rightarrow> 'q volume_group" where
  "set_vg_count k v vg =
     (if k = ''pv_count'' then vg\<lparr>vg_PVCount := v\<rparr>
      else if k = ''lv_count'' then vg\<lparr>vg_LVCount := v\<rparr>
      else if k = ''max_lv'' then vg\<lparr>vg_MaxLV := v\<rparr>
      else if k = ''max_pv'' then vg\<lparr>vg_MaxPV := v\<rparr>
      else if k = ''snap_count'' then vg\<lparr>vg_SnapCount := v\<rparr>
      else if k = ''vg_missing_pv_count'' then vg\<lparr>vg_MissingPVCount := v\<rparr>
      else if k = ''vg_mda_count'' then vg\<lparr>vg_MetadataCount := v\<rparr>
      else if k = ''vg_mda_used_count'' then vg\<lparr>vg_MetadataUsedCount := v\<rparr>
      else vg)"

definition set_vg_size :: "string \<Rightarrow> 'q \<Rightarrow> 'q volume_group \<Rightarrow> 'q volume_group" where
  "set_vg_size k q vg =
     (if k = ''vg_size'' then vg\<lparr>vg_Size := q\<rparr>
      else if k = ''vg_free'' then vg\<lparr>vg_Free := q\<rparr>
      else if k = ''vg_mda_size'' then vg\<lparr>vg_MetadataSize := q\<rparr>
      else if k = ''vg_mda_free'' then vg\<lparr>vg_MetadataFree := q\<rparr>
      else vg)"

definition vg_count_step :: "lvm_item \<Rightarrow> 'q volume_group \<times> err option \<Rightarrow> string \<Rightarrow> 'q volume_group \<times> err option" where
  "vg_count_step m acc k = (case ParseInt 32 (field_of m k) of (n, e) \<Rightarrow>
     (set_vg_count k n (fst acc),
      case e of None \<Rightarrow> snd acc
      | Some x \<Rightarrow> Some (bad_format m k ''vg'' (vg_Name (fst acc)) (num_error_text (field_of m k) x))))"

text \<open>The second loop assigns its error to the same variable in every round.\<close>

definition vg_size_step :: "'q quantities \<Rightarrow> lvm_item \<Rightarrow> 'q volume_group \<times> err option \<Rightarrow> string
    \<Rightarrow> 'q volume_group \<times> err option" where
  "vg_size_step Q m acc k = (case parse_bytes m k of (n, e) \<Rightarrow>
     (set_vg_size k (qt_New Q n) (fst acc), map_option (bad_bytes m k ''vg'' (vg_Name (fst acc))) e))"

text \<open>\<open>z\<close> is the zero value of a quantity, and \<open>ks\<close> and \<open>ks'\<close> are the keys in the orders of the two
  loops.\<close>

definition parseVolumeGroup :: "'q quantities \<Rightarrow> 'q \<Rightarrow> string list \<Rightarrow> string list \<Rightarrow> lvm_item
    \<Rightarrow> 'q volume_group \<times> err option" where
  "parseVolumeGroup Q z ks ks' m =
     (let acc = foldl (vg_count_step m) (new_vg z (field_of m ''vg_name'') (field_of m ''vg_uuid''), None) ks;
          (vg, e) = foldl (vg_size_step Q m) acc ks'
      in (vg\<lparr>vg_Permission := getIntFieldValue ''vg_permissions'' (field_of m ''vg_permissions''),
            vg_AllocationPolicy := getIntFieldValue ''vg_allocation_policy'' (field_of m ''vg_allocation_policy'')\<rparr>, e))"

section \<open>Logical volumes\<close>

record logical_volume =
  lv_Name :: string
  lv_FullName :: string
  lv_UUID :: string
  lv_Size :: int
  lv_Path :: string
  lv_DMPath :: string
  lv_Device :: string
  lv_VGName :: string
  lv_SegType :: string
  lv_Permission :: int
  lv_BehaviourWhenFull :: int
  lv_HealthStatus :: int
  lv_RaidSyncAction :: int
  lv_ActiveStatus :: string
  lv_Host :: string
  lv_PoolName :: string
  lv_UsedSizePercent :: float64
  lv_MetadataSize :: int
  lv_MetadataUsedPercent :: float64
  lv_SnapshotUsedPercent :: float64

definition new_lv :: "lvm_item \<Rightarrow> logical_volume" where
  "new_lv m = \<lparr>lv_Name = field_of m ''lv_name'', lv_FullName = field_of m ''lv_full_name'', lv_UUID = field_of m ''lv_uuid'',
     lv_Size = 0, lv_Path = field_of m ''lv_path'', lv_DMPath = field_of m ''lv_dm_path'', lv_Device = [],
     lv_VGName = field_of m ''vg_name'', lv_SegType = [], lv_Permission = 0, lv_BehaviourWhenFull = 0,
     lv_HealthStatus = 0, lv_RaidSyncAction = 0, lv_ActiveStatus = field_of m ''lv_active'', lv_Host = [],
     lv_PoolName = [], lv_UsedSizePercent = Fin 0, lv_MetadataSize = 0, lv_MetadataUsedPercent = Fin 0,
     lv_SnapshotUsedPercent = Fin 0\<rparr>"

definition lv_size_keys :: "string list" where "lv_size_keys = [''lv_size'', ''lv_metadata_size'']"

definition lv_percent_keys :: "string list" where
  "lv_percent_keys = [''data_percent'', ''metadata_percent'', ''snap_percent'']"

definition set_lv_size :: "string \<Rightarrow> int \<Rightarrow> logical_volume \<Rightarrow> logical_volume" where
  "set_lv_size k n lv = (if k = ''lv_size'' then lv\<lparr>lv_Size := n\<rparr>
     else if k = ''lv_metadata_size'' then lv\<lparr>lv_MetadataSize := n\<rparr> else lv)"

definition set_lv_percent :: "string \<Rightarrow> float64 \<Rightarrow> logical_volume \<Rightarrow> logical_volume" where
  "set_lv_percent k x lv = (if k = ''data_percent'' then lv\<lparr>lv_UsedSizePercent := x\<rparr>
     else if k = ''metadata_percent'' then lv\<lparr>lv_MetadataUsedPercent := x\<rparr>
     else if k = ''snap_percent'' then lv\<lparr>lv_SnapshotUsedPercent := x\<rparr> else lv)"

text \<open>A loop that stores a value for each key and returns at the first error.\<close>

fun store_keys :: "(string \<Rightarrow> err + 'a) \<Rightarrow> (string \<Rightarrow> 'a \<Rightarrow> 'r \<Rightarrow> 'r) \<Rightarrow> string list \<Rightarrow> 'r \<Rightarrow> 'r \<times> err option" where
  "store_keys val put [] r = (r, None)"
| "store_keys val put (k # ks) r = (case val k of
       Inl e \<Rightarrow> (r, Some e)
     | Inr v \<Rightarrow> store_keys val put ks (put k v r))"

definition lv_size_value :: "lvm_item \<Rightarrow> string \<Rightarrow> err + int" where
  "lv_size_value m k =
     (if field_of m ''segtype'' \<noteq> ''thin-pool'' \<and> k = ''lv_metadata_size'' then Inr 0
      else case parse_bytes m k of
        (n, None) \<Rightarrow> Inr n
      | (n, Some x) \<Rightarrow> Inl (bad_bytes m k ''vg'' (field_of m ''lv_name'') x))"

text \<open>\<open>strconv.ParseFloat\<close> is a parameter.\<close>

definition lv_percent_value :: "(string \<Rightarrow> err + float64) \<Rightarrow> lvm_item \<Rightarrow> string \<Rightarrow> err + float64" where
  "lv_percent_value ParseFloat m k =
     (if field_of m k = [] then Inr (Fin 0)
      else case ParseFloat (field_of m k) of
        Inr x \<Rightarrow> Inr x
      | Inl e \<Rightarrow> Inl (bad_format m k ''lv'' (field_of m ''lv_name'') e))"

definition lv_enums :: "lvm_item \<Rightarrow> logical_volume \<Rightarrow> logical_volume" where
  "lv_enums m lv = lv\<lparr>lv_SegType := field_of m ''segtype'', lv_Host := field_of m ''lv_host'',
     lv_PoolName := field_of m ''pool_lv'',
     lv_Permission := getIntFieldValue ''lv_permissions'' (field_of m ''lv_permissions''),
     lv_BehaviourWhenFull := getIntFieldValue ''lv_when_full'' (field_of m ''lv_when_full''),
     lv_HealthStatus := getIntFieldValue ''lv_health_status'' (field_of m ''lv_health_status''),
     lv_RaidSyncAction := getIntFieldValue ''raid_sync_action'' (field_of m ''raid_sync_action'')\<rparr>"

definition parseLogicalVolume :: "(string \<Rightarrow> err + float64) \<Rightarrow> string list \<Rightarrow> string list \<Rightarrow> lvm_item
    \<Rightarrow> logical_volume \<times> err option" where
  "parseLogicalVolume ParseFloat ks ks' m =
     (case store_keys (lv_size_value m) set_lv_size ks (new_lv m) of
        (lv, Some e) \<Rightarrow> (lv, Some e)
      | (lv, None) \<Rightarrow> store_keys (lv_percent_value ParseFloat m) set_lv_percent ks' (lv_enums m lv))"

section \<open>Physical volumes\<close>

record 'q physical_volume =
  pv_Name :: string
  pv_UUID :: string
  pv_Size :: 'q
  pv_DeviceSize :: 'q
  pv_MetadataSize :: 'q
  pv_MetadataFree :: 'q
  pv_Free :: 'q
  pv_Used :: 'q
  pv_Allocatable :: string
  pv_Missing :: string
  pv_InUse :: string
  pv_VGName :: string

definition new_pv :: "'q \<Rightarrow> lvm_item \<Rightarrow> 'q physical_volume" where
  "new_pv z m = \<lparr>pv_Name = field_of m ''pv_name'', pv_UUID = field_of m ''pv_uuid'', pv_Size = z, pv_DeviceSize = z,
     pv_MetadataSize = z, pv_MetadataFree = z, pv_Free = z, pv_Used = z, pv_Allocatable = field_of m ''pv_allocatable'',
     pv_Missing = field_of m ''pv_missing'', pv_InUse = field_of m ''pv_in_use'', pv_VGName = field_of m ''vg_name''\<rparr>"

definition pv_size_keys :: "string list" where
  "pv_size_keys = [''pv_size'', ''pv_free'', ''pv_used'', ''pv_mda_size'', ''pv_mda_free'', ''dev_size'']"

definition set_pv_size :: "string \<Rightarrow> 'q \<Rightarrow> 'q physical_volume \<Rightarrow> 'q physical_volume" where
  "set_pv_size k q pv =
     (if k = ''pv_size'' then pv\<lparr>pv_Size := q\<rparr>
      else if k = ''pv_free'' then pv\<lparr>pv_Free := q\<rparr>
      else if k = ''pv_used'' then pv\<lparr>pv_Used := q\<rparr>
      else if k = ''pv_mda_size'' then pv\<lparr>pv_MetadataSize := q\<rparr>
      else if k = ''pv_mda_free'' then pv\<lparr>pv_MetadataFree := q\<rparr>
      else if k = ''dev_size'' then pv\<lparr>pv_DeviceSize := q\<rparr>
      else pv)"

definition pv_size_value :: "'q quantities \<Rightarrow> lvm_item \<Rightarrow> string \<Rightarrow> err + 'q" where
  "pv_size_value Q m k = (case parse_bytes m k of
       (n, None) \<Rightarrow> Inr (qt_New Q n)
     | (n, Some x) \<Rightarrow> Inl (bad_bytes m k ''pv'' (field_of m ''pv_name'') x))"

definition parsePhysicalVolume :: "'q quantities \<Rightarrow> 'q \<Rightarrow> string list \<Rightarrow> lvm_item \<Rightarrow> 'q physical_volume \<times> err option" where
  "parsePhysicalVolume Q z ks m = store_keys (pv_size_value Q m) set_pv_size ks (new_pv z m)"

section \<open>The commands\<close>

text \<open>\<open>Output\<close> is the standard output of a command and \<open>CombinedOutput\<close> has the error output in it.
  \<open>Unmarshal\<close> decodes the list of reports and of each the lines under the given name.\<close>

record lvm_host =
  lh_Output :: "string \<Rightarrow> string list \<Rightarrow> string \<times> err option"
  lh_CombinedOutput :: "string \<Rightarrow> string list \<Rightarrow> string \<times> err option"
  lh_Unmarshal :: "string \<Rightarrow> string \<Rightarrow> err + lvm_item list list"
  lh_EvalSymlinks :: "string \<Rightarrow> string res"
  lh_ParseFloat :: "string \<Rightarrow> err + float64"

definition one_report :: "err + lvm_item list list \<Rightarrow> lvm_item list res" where
  "one_report r = (case r of
       Inl e \<Rightarrow> Inl e
     | Inr [items] \<Rightarrow> Inr items
     | Inr _ \<Rightarrow> Inl ''expected exactly one lvm report'')"

text \<open>The items are parsed up to the first that is malformed; \<open>os\<close> gives the orders of the loops for each.\<close>

fun vg_items :: "'q quantities \<Rightarrow> 'q \<Rightarrow> (nat \<Rightarrow> string list \<times> string list) \<Rightarrow> nat \<Rightarrow> lvm_item list
    \<Rightarrow> 'q volume_group list \<times> err option" where
  "vg_items Q z os i [] = ([], None)"
| "vg_items Q z os i (m # ms) = (case parseVolumeGroup Q z (fst (os i)) (snd (os i)) m of
       (vg, Some e) \<Rightarrow> ([], Some (''failed to parse vg: '' @ e))
     | (vg, None) \<Rightarrow> (case vg_items Q z os (Suc i) ms of (vgs, e) \<Rightarrow> (vg # vgs, e)))"

definition decodeVgsJSON :: "lvm_host \<Rightarrow> 'q quantities \<Rightarrow> 'q \<Rightarrow> (nat \<Rightarrow> string list \<times> string list) \<Rightarrow> string
    \<Rightarrow> 'q volume_group list \<times> err option" where
  "decodeVgsJSON H Q z os raw = (case lh_Unmarshal H ''vg'' raw of
       Inl e \<Rightarrow> ([], Some (''failed to decode vgs json: '' @ e @ [CHR 0x0A] @ raw))
     | Inr r \<Rightarrow> (case one_report (Inr r) of
          Inl e \<Rightarrow> ([], Some e)
        | Inr items \<Rightarrow> vg_items Q z os 0 items))"

definition ReloadLVMMetadataCache :: "lvm_host \<Rightarrow> err option" where
  "ReloadLVMMetadataCache H = snd (lh_CombinedOutput H ''pvscan'' [''--cache''])"

definition report_args :: "string \<Rightarrow> string list" where
  "report_args opts = [''--options'', opts, ''--reportformat'', ''json'', ''--units'', ''b'']"

definition ListLVMVolumeGroup :: "lvm_host \<Rightarrow> 'q quantities \<Rightarrow> 'q \<Rightarrow> (nat \<Rightarrow> string list \<times> string list) \<Rightarrow> bool
    \<Rightarrow> 'q volume_group list \<times> err option" where
  "ListLVMVolumeGroup H Q z os reloadCache =
     (case (if reloadCache then ReloadLVMMetadataCache H else None) of
        Some e \<Rightarrow> ([], Some e)
      | None \<Rightarrow> (case lh_Output H ''vgs'' (report_args ''vg_all'') of
           (out, Some e) \<Rightarrow> ([], Some e)
         | (out, None) \<Rightarrow> decodeVgsJSON H Q z os out))"

definition getLvDeviceName :: "lvm_host \<Rightarrow> string \<Rightarrow> string res" where
  "getLvDeviceName H path = map_sum id (\<lambda>p. last (Split CHR ''/'' p)) (lh_EvalSymlinks H path)"

fun lv_items :: "lvm_host \<Rightarrow> (nat \<Rightarrow> string list \<times> string list) \<Rightarrow> nat \<Rightarrow> logical_volume list \<Rightarrow> lvm_item list
    \<Rightarrow> logical_volume list \<times> err option" where
  "lv_items H os i lvs [] = (lvs, None)"
| "lv_items H os i lvs (m # ms) = (case parseLogicalVolume (lh_ParseFloat H) (fst (os i)) (snd (os i)) m of
       (lv, Some e) \<Rightarrow> (lvs, Some e)
     | (lv, None) \<Rightarrow> (case getLvDeviceName H (lv_Path lv) of
          Inl e \<Rightarrow> ([], Some e)
        | Inr d \<Rightarrow> lv_items H os (Suc i) (lvs @ [lv\<lparr>lv_Device := d\<rparr>]) ms))"

definition decodeLvsJSON :: "lvm_host \<Rightarrow> (nat \<Rightarrow> string list \<times> string list) \<Rightarrow> string
    \<Rightarrow> logical_volume list \<times> err option" where
  "decodeLvsJSON H os raw = (case one_report (lh_Unmarshal H ''lv'' raw) of
       Inl e \<Rightarrow> ([], Some e)
     | Inr items \<Rightarrow> lv_items H os 0 [] items)"

definition ListLVMLogicalVolume :: "lvm_host \<Rightarrow> (nat \<Rightarrow> string list \<times> string list) \<Rightarrow> logical_volume list \<times> err option" where
  "ListLVMLogicalVolume H os = (case lh_CombinedOutput H ''lvs'' (report_args ''lv_all,vg_name,segtype'') of
       (out, Some e) \<Rightarrow> ([], Some e)
     | (out, None) \<Rightarrow> decodeLvsJSON H os out)"

fun pv_items :: "'q quantities \<Rightarrow> 'q \<Rightarrow> (nat \<Rightarrow> string list) \<Rightarrow> nat \<Rightarrow> lvm_item list \<Rightarrow> 'q physical_volume list \<times> err option" where
  "pv_items Q z os i [] = ([], None)"
| "pv_items Q z os i (m # ms) = (case parsePhysicalVolume Q z (os i) m of
       (pv, Some e) \<Rightarrow> ([], Some e)
     | (pv, None) \<Rightarrow> (case pv_items Q z os (Suc i) ms of (pvs, e) \<Rightarrow> (pv # pvs, e)))"

definition decodePvsJSON :: "lvm_host \<Rightarrow> 'q quantities \<Rightarrow> 'q \<Rightarrow> (nat \<Rightarrow> string list) \<Rightarrow> string
    \<Rightarrow> 'q physical_volume list \<times> err option" where
  "decodePvsJSON H Q z os raw = (case one_report (lh_Unmarshal H ''pv'' raw) of
       Inl e \<Rightarrow> ([], Some e)
     | Inr items \<Rightarrow> pv_items Q z os 0 items)"

definition ListLVMPhysicalVolume :: "lvm_host \<Rightarrow> 'q quantities \<Rightarrow> 'q \<Rightarrow> (nat \<Rightarrow> string list)
    \<Rightarrow> 'q physical_volume list \<times> err option" where
  "ListLVMPhysicalVolume H Q z os = (case ReloadLVMMetadataCache H of
       Some e \<Rightarrow> ([], Some e)
     | None \<Rightarrow> (case lh_CombinedOutput H ''pvs'' (report_args ''pv_all,vg_name'') of
          (out, Some e) \<Rightarrow> ([], Some e)
        | (out, None) \<Rightarrow> decodePvsJSON H Q z os out))"

text \<open>\<open>ExecError\<close> prints the output and the error.\<close>

definition newExecError :: "string \<Rightarrow> err option \<Rightarrow> err option" where
  "newExecError output e = map_option (\<lambda>x. output @ '' - '' @ x) e"

definition ResizeVolume :: "lvm_host \<Rightarrow> logical_volume \<Rightarrow> string \<Rightarrow> bool \<Rightarrow> err option" where
  "ResizeVolume H vol sizeByte resizeFs =
     (let dev = ''/dev/'' @ lv_VGName vol @ ''/'' @ lv_Name vol;
          args = [dev, ''-L'', sizeByte @ ''b''] @ (if resizeFs then [''-r''] else [])
      in case lh_CombinedOutput H ''lvextend'' args of (out, e) \<Rightarrow> newExecError out e)"

section \<open>Parsed integers\<close>

lemma digits_grow: "n \<le> foldl (\<lambda>n c. 10 * n + digit_val c) n s"
proof (induction s arbitrary: n)
  case (Cons c s)
  have "n \<le> 10 * n + digit_val c" by simp
  then show ?case using Cons.IH [of "10 * n + digit_val c"] by (simp add: order_trans)
qed simp

lemma uint_loop_Inr:
  "uint_loop m n s = Inr v \<longleftrightarrow>
     list_all is_digit s \<and> v = foldl (\<lambda>n c. 10 * n + digit_val c) n s \<and> (s = [] \<or> v \<le> m)"
proof (induction s arbitrary: n)
  case (Cons c s)
  show ?case using Cons.IH [of "10 * n + digit_val c"] digits_grow [of "10 * n + digit_val c" s] by auto
qed auto

text \<open>A value without an error is that of the digits, in the range.\<close>

lemma parse_signed_ok:
  assumes "1 \<le> bits"
  shows "parse_signed bits neg ds = (v, None) \<longleftrightarrow>
    ds \<noteq> [] \<and> list_all is_digit ds \<and> v = (if neg then - int (dec_val ds) else int (dec_val ds))
    \<and> - (2 ^ (bits - 1)) \<le> v \<and> v < 2 ^ (bits - 1)"
proof -
  let ?c = "2 ^ (bits - 1) :: nat"
  obtain b where b: "bits = Suc b" using assms by (cases bits) auto
  have m: "2 ^ bits - 1 = 2 * ?c - 1" "1 \<le> ?c" by (simp_all add: b)
  have c: "(2 :: int) ^ (bits - 1) = int ?c" by simp
  show ?thesis
  proof (cases "uint_loop (2 ^ bits - 1) 0 ds")
    case (Inl e)
    then have "\<not> (list_all is_digit ds \<and> dec_val ds \<le> 2 * ?c - 1)"
      using uint_loop_Inr [of "2 ^ bits - 1" 0 ds "dec_val ds"] by (simp only: m(1) dec_val_def) simp
    then have "\<not> (list_all is_digit ds \<and> dec_val ds \<le> ?c)" using m(2) by linarith
    moreover have "parse_signed bits neg ds \<noteq> (v, None)"
      by (cases e) (simp_all add: parse_signed_def Inl [unfolded One_nat_def] Let_def)
    ultimately show ?thesis unfolding c by auto
  next
    case (Inr n)
    then have n: "list_all is_digit ds" "n = dec_val ds" using uint_loop_Inr [of _ 0 ds n] by (simp_all add: dec_val_def)
    have "(0 :: int) < 2 ^ (bits - Suc 0)" by simp
    then have sgn: "- int (dec_val ds) < 2 ^ (bits - Suc 0)" "- (2 ^ (bits - Suc 0)) \<le> int (dec_val ds)"
      by linarith+
    show ?thesis unfolding c using n sgn by (auto simp: parse_signed_def Inr [unfolded One_nat_def] Let_def)
  qed
qed

lemma Atoi_split: "Atoi s = (case split_sign s of (neg, ds) \<Rightarrow>
    if ds \<noteq> [] \<and> list_all is_digit ds
    then let v = (if neg then - int (dec_val ds) else int (dec_val ds)) in
      if - (2 ^ 63) \<le> v \<and> v < 2 ^ 63 then Some v else None
    else None)"
  by (simp add: Atoi_def split_sign_def parse_digits_def Let_def split: list.split)

lemma ParseInt_Atoi: "ParseInt 64 s = (v, None) \<longleftrightarrow> Atoi s = Some v"
  by (cases "split_sign s") (auto simp: ParseInt_def parse_signed_ok Atoi_split Let_def)

lemma ParseInt_error: "snd (ParseInt 64 s) = None \<longleftrightarrow> Atoi s \<noteq> None"
  using ParseInt_Atoi [of s] by (cases "ParseInt 64 s"; cases "Atoi s") auto

section \<open>Parsed volume groups\<close>

definition vg_of :: "'q quantities \<Rightarrow> lvm_item \<Rightarrow> 'q volume_group" where
  "vg_of Q m = (let n = (\<lambda>k. fst (ParseInt 32 (field_of m k))); q = (\<lambda>k. qt_New Q (fst (parse_bytes m k))) in
     \<lparr>vg_Name = field_of m ''vg_name'', vg_UUID = field_of m ''vg_uuid'', vg_Size = q ''vg_size'',
      vg_Free = q ''vg_free'', vg_LVCount = n ''lv_count'', vg_PVCount = n ''pv_count'', vg_MaxLV = n ''max_lv'',
      vg_MaxPV = n ''max_pv'', vg_SnapCount = n ''snap_count'', vg_MissingPVCount = n ''vg_missing_pv_count'',
      vg_MetadataCount = n ''vg_mda_count'', vg_MetadataUsedCount = n ''vg_mda_used_count'',
      vg_MetadataFree = q ''vg_mda_free'', vg_MetadataSize = q ''vg_mda_size'',
      vg_Permission = getIntFieldValue ''vg_permissions'' (field_of m ''vg_permissions''),
      vg_AllocationPolicy = getIntFieldValue ''vg_allocation_policy'' (field_of m ''vg_allocation_policy'')\<rparr>)"

text \<open>Storing a value for each key in any order, each key's value the same however often it comes: the record
  with the values of the keys that occurred.\<close>

definition with_counts :: "(string \<Rightarrow> int) \<Rightarrow> string set \<Rightarrow> 'q volume_group \<Rightarrow> 'q volume_group" where
  "with_counts n K vg = (let v = (\<lambda>k old. if k \<in> K then n k else old) in
     vg\<lparr>vg_LVCount := v ''lv_count'' (vg_LVCount vg), vg_PVCount := v ''pv_count'' (vg_PVCount vg),
       vg_MaxLV := v ''max_lv'' (vg_MaxLV vg), vg_MaxPV := v ''max_pv'' (vg_MaxPV vg),
       vg_SnapCount := v ''snap_count'' (vg_SnapCount vg),
       vg_MissingPVCount := v ''vg_missing_pv_count'' (vg_MissingPVCount vg),
       vg_MetadataCount := v ''vg_mda_count'' (vg_MetadataCount vg),
       vg_MetadataUsedCount := v ''vg_mda_used_count'' (vg_MetadataUsedCount vg)\<rparr>)"

definition with_sizes :: "(string \<Rightarrow> 'q) \<Rightarrow> string set \<Rightarrow> 'q volume_group \<Rightarrow> 'q volume_group" where
  "with_sizes q K vg = (let v = (\<lambda>k old. if k \<in> K then q k else old) in
     vg\<lparr>vg_Size := v ''vg_size'' (vg_Size vg), vg_Free := v ''vg_free'' (vg_Free vg),
       vg_MetadataSize := v ''vg_mda_size'' (vg_MetadataSize vg),
       vg_MetadataFree := v ''vg_mda_free'' (vg_MetadataFree vg)\<rparr>)"

lemma set_vg_count_with:
  assumes "k \<in> set vg_count_keys"
  shows "set_vg_count k (n k) (with_counts n K vg) = with_counts n (insert k K) vg"
  using assms unfolding vg_count_keys_def list.set insert_iff empty_iff
  by (elim disjE FalseE; simp add: set_vg_count_def with_counts_def Let_def)

lemma set_vg_size_with:
  assumes "k \<in> set vg_size_keys"
  shows "set_vg_size k (q k) (with_sizes q K vg) = with_sizes q (insert k K) vg"
  using assms unfolding vg_size_keys_def list.set insert_iff empty_iff
  by (elim disjE FalseE; simp add: set_vg_size_def with_sizes_def Let_def)

lemma vg_count_loop:
  "set ks \<subseteq> set vg_count_keys \<Longrightarrow> fst (foldl (vg_count_step m) (with_counts (\<lambda>k. fst (ParseInt 32 (field_of m k))) K vg, e) ks)
     = with_counts (\<lambda>k. fst (ParseInt 32 (field_of m k))) (K \<union> set ks) vg"
proof (induction ks arbitrary: K e)
  case (Cons k ks)
  let ?n = "\<lambda>k. fst (ParseInt 32 (field_of m k))"
  obtain e' where "vg_count_step m (with_counts ?n K vg, e) k = (with_counts ?n (insert k K) vg, e')"
    using set_vg_count_with [of k ?n K vg] Cons.prems by (simp add: vg_count_step_def case_prod_unfold)
  then show ?case using Cons.IH [of "insert k K" e'] Cons.prems by simp
qed simp

lemma vg_size_loop:
  "set ks \<subseteq> set vg_size_keys \<Longrightarrow> foldl (vg_size_step Q m) (with_sizes (\<lambda>k. qt_New Q (fst (parse_bytes m k))) K vg, e) ks =
     (with_sizes (\<lambda>k. qt_New Q (fst (parse_bytes m k))) (K \<union> set ks) vg,
      if ks = [] then e else map_option (bad_bytes m (last ks) ''vg'' (vg_Name vg)) (snd (parse_bytes m (last ks))))"
proof (induction ks arbitrary: K e)
  case (Cons k ks)
  let ?q = "\<lambda>k. qt_New Q (fst (parse_bytes m k))"
  have name: "vg_Name (with_sizes ?q K vg) = vg_Name vg" by (simp add: with_sizes_def Let_def)
  have "vg_size_step Q m (with_sizes ?q K vg, e) k = (with_sizes ?q (insert k K) vg,
      map_option (bad_bytes m k ''vg'' (vg_Name vg)) (snd (parse_bytes m k)))"
    using set_vg_size_with [of k ?q K vg] Cons.prems by (simp add: vg_size_step_def name case_prod_unfold)
  then show ?case using Cons.prems by (simp only: foldl.simps) (simp add: Cons.IH)
qed simp

lemma with_counts_all: "set ks = set vg_count_keys \<Longrightarrow> with_counts n (set ks) vg =
    vg\<lparr>vg_LVCount := n ''lv_count'', vg_PVCount := n ''pv_count'', vg_MaxLV := n ''max_lv'', vg_MaxPV := n ''max_pv'',
      vg_SnapCount := n ''snap_count'', vg_MissingPVCount := n ''vg_missing_pv_count'',
      vg_MetadataCount := n ''vg_mda_count'', vg_MetadataUsedCount := n ''vg_mda_used_count''\<rparr>"
  by (simp add: with_counts_def vg_count_keys_def)

lemma with_sizes_all: "set ks = set vg_size_keys \<Longrightarrow> with_sizes q (set ks) vg =
    vg\<lparr>vg_Size := q ''vg_size'', vg_Free := q ''vg_free'', vg_MetadataSize := q ''vg_mda_size'',
      vg_MetadataFree := q ''vg_mda_free''\<rparr>"
  by (simp add: with_sizes_def vg_size_keys_def)

lemma with_none: "with_counts n {} vg = vg" "with_sizes q {} vg = vg"
  by (simp_all add: with_counts_def with_sizes_def)

lemma parseVolumeGroup_eq:
  assumes "mset ks = mset vg_count_keys" "mset ks' = mset vg_size_keys"
  shows "parseVolumeGroup Q z ks ks' m =
    (vg_of Q m, map_option (bad_bytes m (last ks') ''vg'' (field_of m ''vg_name'')) (snd (parse_bytes m (last ks'))))"
proof -
  note sets = mset_eq_setD [OF assms(1)] mset_eq_setD [OF assms(2)]
  have ne: "ks' \<noteq> []" using assms(2) by (auto simp: vg_size_keys_def)
  let ?n = "\<lambda>k. fst (ParseInt 32 (field_of m k))" and ?q = "\<lambda>k. qt_New Q (fst (parse_bytes m k))"
  let ?vg0 = "new_vg z (field_of m ''vg_name'') (field_of m ''vg_uuid'')"
  obtain e where e: "foldl (vg_count_step m) (?vg0, None) ks = (with_counts ?n (set ks) ?vg0, e)"
    using vg_count_loop [of ks m "{}" ?vg0 None] sets(1) by (cases "foldl (vg_count_step m) (?vg0, None) ks") (simp add: with_none)
  let ?vg1 = "with_counts ?n (set ks) ?vg0"
  have "vg_Name ?vg1 = field_of m ''vg_name''" by (simp add: with_counts_def new_vg_def Let_def)
  then have s: "foldl (vg_size_step Q m) (?vg1, e) ks' = (with_sizes ?q (set ks') ?vg1,
      map_option (bad_bytes m (last ks') ''vg'' (field_of m ''vg_name'')) (snd (parse_bytes m (last ks'))))"
    using vg_size_loop [of ks' Q m "{}" ?vg1 e] ne sets(2) by (simp add: with_none)
  have "vg_of Q m = (with_sizes ?q (set ks') ?vg1)
      \<lparr>vg_Permission := getIntFieldValue ''vg_permissions'' (field_of m ''vg_permissions''),
       vg_AllocationPolicy := getIntFieldValue ''vg_allocation_policy'' (field_of m ''vg_allocation_policy'')\<rparr>"
    unfolding with_counts_all [OF sets(1)] with_sizes_all [OF sets(2)] by (simp add: vg_of_def new_vg_def Let_def)
  then show ?thesis by (simp only: parseVolumeGroup_def e s Let_def split_conv)
qed

text \<open>C21. The record of a volume group does not depend on the order in which the maps are walked, and it holds what each
  of its fields parses to: zero, or the nearest bound, where the text is malformed. But whether that is reported does
  depend on the order. The error is that of the size that the second loop reads last; a malformed count is
  never reported, and a malformed size only when it happens to come last.\<close>

theorem volume_group_errors_are_lost:
  assumes "mset ks = mset vg_count_keys" "mset ks' = mset vg_size_keys"
  shows "fst (parseVolumeGroup Q z ks ks' m) = vg_of Q m
    \<and> (snd (parseVolumeGroup Q z ks ks' m) = None \<longleftrightarrow>
         Atoi (TrimSuffix (ToLower (field_of m (last ks'))) ''b'') \<noteq> None)"
  unfolding parseVolumeGroup_eq [OF assms] using ParseInt_error by (auto simp: parse_bytes_def)

section \<open>Parsed logical and physical volumes\<close>

lemma store_keys_ok:
  assumes "\<And>k. k \<in> set ks \<Longrightarrow> val k = Inr (f k)"
  shows "store_keys val put ks r = (foldl (\<lambda>r k. put k (f k) r) r ks, None)"
  using assms by (induction ks arbitrary: r) simp_all

lemma store_keys_error: "snd (store_keys val put ks r) = None \<longleftrightarrow> (\<forall>k \<in> set ks. \<exists>v. val k = Inr v)"
  by (induction ks arbitrary: r) (auto split: sum.split)

lemma store_keys_which: "snd (store_keys val put ks r) = Some e \<Longrightarrow> \<exists>k \<in> set ks. val k = Inl e"
  by (induction ks arbitrary: r) (auto split: sum.splits)

lemma store_keys_stored:
  assumes "snd (store_keys val put ks r) = None"
  shows "store_keys val put ks r = (foldl (\<lambda>r k. put k (projr (val k)) r) r ks, None)"
  using assms by (intro store_keys_ok) (auto simp: store_keys_error)

text \<open>A fold over keys that set fields of their own gives the same for every order.\<close>

lemma foldl_perm:
  assumes "mset xs = mset ys" "\<And>x y r. f (f r x) y = f (f r y) x"
  shows "foldl f r xs = foldl f r ys"
proof -
  have "fold (\<lambda>x r. f r x) xs = fold (\<lambda>x r. f r x) ys"
    by (rule fold_multiset_equiv) (use assms in \<open>simp_all add: fun_eq_iff\<close>)
  then show ?thesis by (simp add: foldl_conv_fold)
qed

lemma set_lv_size_commute: "set_lv_size j (f j) (set_lv_size k (f k) lv) = set_lv_size k (f k) (set_lv_size j (f j) lv)"
  by (simp add: set_lv_size_def)

lemma set_lv_percent_commute:
  "set_lv_percent j (f j) (set_lv_percent k (f k) lv) = set_lv_percent k (f k) (set_lv_percent j (f j) lv)"
proof (cases "k \<in> set lv_percent_keys")
  case True
  then show ?thesis
    unfolding lv_percent_keys_def list.set insert_iff empty_iff by (elim disjE FalseE; simp add: set_lv_percent_def)
qed (simp add: lv_percent_keys_def set_lv_percent_def)

lemma set_pv_size_commute: "set_pv_size j (f j) (set_pv_size k (f k) pv) = set_pv_size k (f k) (set_pv_size j (f j) pv)"
proof (cases "k \<in> set pv_size_keys")
  case True
  then show ?thesis
    unfolding pv_size_keys_def list.set insert_iff empty_iff by (elim disjE FalseE; simp add: set_pv_size_def)
qed (simp add: pv_size_keys_def set_pv_size_def)

text \<open>The records of well-formed lines.\<close>

definition lv_of :: "(string \<Rightarrow> err + float64) \<Rightarrow> lvm_item \<Rightarrow> logical_volume" where
  "lv_of ParseFloat m = (let p = (\<lambda>k. projr (lv_percent_value ParseFloat m k)) in
     (lv_enums m (new_lv m))\<lparr>lv_Size := projr (lv_size_value m ''lv_size''),
       lv_MetadataSize := projr (lv_size_value m ''lv_metadata_size''),
       lv_UsedSizePercent := p ''data_percent'', lv_MetadataUsedPercent := p ''metadata_percent'',
       lv_SnapshotUsedPercent := p ''snap_percent''\<rparr>)"

definition pv_of :: "'q quantities \<Rightarrow> 'q \<Rightarrow> lvm_item \<Rightarrow> 'q physical_volume" where
  "pv_of Q z m = (let q = (\<lambda>k. projr (pv_size_value Q m k)) in
     (new_pv z m)\<lparr>pv_Size := q ''pv_size'', pv_Free := q ''pv_free'', pv_Used := q ''pv_used'',
       pv_MetadataSize := q ''pv_mda_size'', pv_MetadataFree := q ''pv_mda_free'', pv_DeviceSize := q ''dev_size''\<rparr>)"

lemma lv_size_loop:
  assumes "mset ks = mset lv_size_keys" "snd (store_keys (lv_size_value m) set_lv_size ks lv) = None"
  shows "store_keys (lv_size_value m) set_lv_size ks lv =
    (lv\<lparr>lv_Size := projr (lv_size_value m ''lv_size''), lv_MetadataSize := projr (lv_size_value m ''lv_metadata_size'')\<rparr>, None)"
  unfolding store_keys_stored [OF assms(2)]
  by (subst foldl_perm [OF assms(1)])
    (rule set_lv_size_commute [where f = "\<lambda>k. projr (lv_size_value m k)"],
      simp add: lv_size_keys_def set_lv_size_def)

lemma lv_percent_loop:
  assumes "mset ks = mset lv_percent_keys" "snd (store_keys (lv_percent_value F m) set_lv_percent ks lv) = None"
  shows "store_keys (lv_percent_value F m) set_lv_percent ks lv =
    (lv\<lparr>lv_UsedSizePercent := projr (lv_percent_value F m ''data_percent''),
       lv_MetadataUsedPercent := projr (lv_percent_value F m ''metadata_percent''),
       lv_SnapshotUsedPercent := projr (lv_percent_value F m ''snap_percent'')\<rparr>, None)"
  unfolding store_keys_stored [OF assms(2)]
  by (subst foldl_perm [OF assms(1)])
    (rule set_lv_percent_commute [where f = "\<lambda>k. projr (lv_percent_value F m k)"],
      simp add: lv_percent_keys_def set_lv_percent_def)

lemma pv_size_loop:
  assumes "mset ks = mset pv_size_keys" "snd (store_keys (pv_size_value Q m) set_pv_size ks (new_pv z m)) = None"
  shows "store_keys (pv_size_value Q m) set_pv_size ks (new_pv z m) = (pv_of Q z m, None)"
  unfolding store_keys_stored [OF assms(2)]
  by (subst foldl_perm [OF assms(1)])
    (rule set_pv_size_commute [where f = "\<lambda>k. projr (pv_size_value Q m k)"],
      simp add: pv_size_keys_def set_pv_size_def pv_of_def Let_def)

text \<open>The lines of logical and physical volumes are parsed the same whatever the order in which the maps are walked:
  there is an error exactly when a field that is read is malformed, and without one the record has the value of
  every field.\<close>

theorem volumes_parse_in_any_order:
  assumes "mset ks = mset lv_size_keys" "mset ks' = mset lv_percent_keys" "mset ps = mset pv_size_keys"
  shows "(case parseLogicalVolume F ks ks' m of
      (lv, None) \<Rightarrow> lv = lv_of F m \<and> (\<forall>k \<in> set lv_size_keys. \<exists>v. lv_size_value m k = Inr v)
        \<and> (\<forall>k \<in> set lv_percent_keys. \<exists>v. lv_percent_value F m k = Inr v)
    | (lv, Some e) \<Rightarrow> (\<exists>k \<in> set lv_size_keys. lv_size_value m k = Inl e)
        \<or> (\<exists>k \<in> set lv_percent_keys. lv_percent_value F m k = Inl e))
    \<and> (case parsePhysicalVolume Q z ps m of
      (pv, None) \<Rightarrow> pv = pv_of Q z m \<and> (\<forall>k \<in> set pv_size_keys. \<exists>q. pv_size_value Q m k = Inr q)
    | (pv, Some e) \<Rightarrow> (\<exists>k \<in> set pv_size_keys. pv_size_value Q m k = Inl e))"
proof
  note sets = mset_eq_setD [OF assms(1)] mset_eq_setD [OF assms(2)] mset_eq_setD [OF assms(3)]
  let ?s = "store_keys (lv_size_value m) set_lv_size ks (new_lv m)"
  show "case parseLogicalVolume F ks ks' m of
      (lv, None) \<Rightarrow> lv = lv_of F m \<and> (\<forall>k \<in> set lv_size_keys. \<exists>v. lv_size_value m k = Inr v)
        \<and> (\<forall>k \<in> set lv_percent_keys. \<exists>v. lv_percent_value F m k = Inr v)
    | (lv, Some e) \<Rightarrow> (\<exists>k \<in> set lv_size_keys. lv_size_value m k = Inl e)
        \<or> (\<exists>k \<in> set lv_percent_keys. lv_percent_value F m k = Inl e)"
  proof (cases "snd ?s")
    case (Some e)
    then have "parseLogicalVolume F ks ks' m = (fst ?s, Some e)" by (cases ?s) (simp add: parseLogicalVolume_def)
    then show ?thesis using store_keys_which [OF Some] by (simp add: sets)
  next
    case None
    let ?lv = "lv_enums m (fst ?s)"
    let ?p = "store_keys (lv_percent_value F m) set_lv_percent ks' ?lv"
    have eq: "parseLogicalVolume F ks ks' m = ?p" using None by (cases ?s) (simp add: parseLogicalVolume_def)
    show ?thesis
    proof (cases "snd ?p")
      case (Some e)
      then show ?thesis using store_keys_which [OF Some] eq by (cases ?p) (simp add: sets)
    next
      case p: None
      have "fst ?p = lv_of F m"
        unfolding lv_percent_loop [OF assms(2) p] by (simp add: lv_size_loop [OF assms(1) None] lv_of_def lv_enums_def Let_def)
      moreover have "\<forall>k \<in> set lv_percent_keys. \<exists>v. lv_percent_value F m k = Inr v"
        using p unfolding store_keys_error sets .
      moreover have "\<forall>k \<in> set lv_size_keys. \<exists>v. lv_size_value m k = Inr v"
        using None unfolding store_keys_error sets .
      ultimately show ?thesis using p eq by (cases ?p) simp
    qed
  qed
  let ?v = "store_keys (pv_size_value Q m) set_pv_size ps (new_pv z m)"
  show "case parsePhysicalVolume Q z ps m of
      (pv, None) \<Rightarrow> pv = pv_of Q z m \<and> (\<forall>k \<in> set pv_size_keys. \<exists>q. pv_size_value Q m k = Inr q)
    | (pv, Some e) \<Rightarrow> (\<exists>k \<in> set pv_size_keys. pv_size_value Q m k = Inl e)"
  proof (cases "snd ?v")
    case (Some e)
    then show ?thesis using store_keys_which [OF Some] by (cases ?v) (simp add: parsePhysicalVolume_def sets)
  next
    case None
    have "fst ?v = pv_of Q z m"
      by (simp add: pv_size_loop [OF assms(3) None])
    moreover have "\<forall>k \<in> set pv_size_keys. \<exists>q. pv_size_value Q m k = Inr q"
      using None unfolding store_keys_error sets .
    ultimately show ?thesis using None by (cases ?v) (simp add: parsePhysicalVolume_def)
  qed
qed

end
