(* ===== verification/LVM_Collector.thy ===== *)
theory LVM_Collector
  imports LVM_Parsing Collector_Kit
begin

text \<open>
  \<open>pkg/collector/lvm\<close>: the collector that lists the volume groups of its node on a ticker and keeps the four
  totals of the last listing that had any.
\<close>

section \<open>State\<close>

record lvm_config =
  lvc_UpdateInterval :: int
  lvc_NodeName :: string

definition lvm_NewDefaultConfig :: lvm_config where
  "lvm_NewDefaultConfig = \<lparr>lvc_UpdateInterval = 10 * 10 ^ 9, lvc_NodeName = []\<rparr>"

record lvm_totals =
  lt_Capacity :: float64
  lt_Free :: float64
  lt_MetadataSize :: float64
  lt_MetadataFree :: float64

record lvm_descs =
  lvd_capacity :: desc
  lvd_free :: desc
  lvd_size :: desc
  lvd_mfree :: desc

text \<open>\<open>stopCh\<close> is a channel that is open or closed.\<close>

record lvm_collector =
  lvm_config :: lvm_config
  lvm_totals :: lvm_totals
  lvm_stopped :: bool
  lvm_descs :: lvm_descs

definition zero_totals :: lvm_totals where
  "zero_totals = \<lparr>lt_Capacity = Fin 0, lt_Free = Fin 0, lt_MetadataSize = Fin 0, lt_MetadataFree = Fin 0\<rparr>"

definition lvm_desc :: "prom \<Rightarrow> string \<Rightarrow> string \<Rightarrow> string \<Rightarrow> desc" where
  "lvm_desc P ns n help = \<lparr>d_fqName = pr_BuildFQName P ns ''lvm'' n, d_help = help, d_labels = [''node'']\<rparr>"

definition lvm_descs_of :: "prom \<Rightarrow> string \<Rightarrow> lvm_descs" where
  "lvm_descs_of P ns =
     \<lparr>lvd_capacity = lvm_desc P ns ''vgs_total_capacity'' ''Total capacity of all volume groups in bytes'',
      lvd_free = lvm_desc P ns ''vgs_total_free'' ''Total free space of all volume groups in bytes'',
      lvd_size = lvm_desc P ns ''vgs_metadata_size'' ''Total metadata size of all volume groups in bytes'',
      lvd_mfree = lvm_desc P ns ''vgs_metadata_free'' ''Total free metadata space of all volume groups in bytes''\<rparr>"

definition lvm_desc_list :: "lvm_descs \<Rightarrow> desc list" where
  "lvm_desc_list D = [lvd_capacity D, lvd_free D, lvd_size D, lvd_mfree D]"

definition lvm_initMetrics :: "prom \<Rightarrow> string \<Rightarrow> base \<Rightarrow> (lvm_descs \<times> base) go" where
  "lvm_initMetrics P ns b =
     (let D = lvm_descs_of P ns in bind_go (register_descs (lvm_desc_list D) b) (\<lambda>b'. Ret (D, b')))"

text \<open>\<open>load\<close> is \<open>LoadModuleConfig\<close> on the section of the collector, whose error is only logged; the node of the
  factory is used when the section names none.\<close>

definition lvm_NewCollector :: "prom \<Rightarrow> string \<Rightarrow> string \<Rightarrow> (lvm_config \<Rightarrow> lvm_config \<times> err option)
    \<Rightarrow> (lvm_collector \<times> base) go" where
  "lvm_NewCollector P ns nodeName load =
     (let cfg0 = fst (load lvm_NewDefaultConfig);
          cfg = (if lvc_NodeName cfg0 = [] then cfg0\<lparr>lvc_NodeName := nodeName\<rparr> else cfg0)
      in bind_go (lvm_initMetrics P ns (NewBaseCollector ''lvm'' [WithLeaderElection False, WithWaitReadyOnCollect True]))
           (\<lambda>(descs, b). Ret (\<lparr>lvm_config = cfg, lvm_totals = zero_totals, lvm_stopped = False, lvm_descs = descs\<rparr>, b)))"

definition lvm_StartFunc :: "lvm_collector \<Rightarrow> lvm_collector" where
  "lvm_StartFunc c = c\<lparr>lvm_stopped := False\<rparr>"

definition lvm_StopFunc :: "lvm_collector \<Rightarrow> lvm_collector go" where
  "lvm_StopFunc c = (if lvm_stopped c then Panic ''close of closed channel'' else Ret (c\<lparr>lvm_stopped := True\<rparr>))"

definition lvm_Interval :: "lvm_collector \<Rightarrow> int" where
  "lvm_Interval c = lvc_UpdateInterval (lvm_config c)"

section \<open>Updates\<close>

definition total_of :: "'q quantities \<Rightarrow> ('q volume_group \<Rightarrow> 'q) \<Rightarrow> 'q volume_group list \<Rightarrow> float64" where
  "total_of Q f vgs = float_of_int (qt_Value Q (foldl (\<lambda>acc vg. qt_Add Q acc (f vg)) (qt_New Q 0) vgs))"

definition totals_of :: "'q quantities \<Rightarrow> 'q volume_group list \<Rightarrow> lvm_totals" where
  "totals_of Q vgs = \<lparr>lt_Capacity = total_of Q vg_Size vgs, lt_Free = total_of Q vg_Free vgs,
     lt_MetadataSize = total_of Q vg_MetadataSize vgs, lt_MetadataFree = total_of Q vg_MetadataFree vgs\<rparr>"

text \<open>What the host is at an update: the commands, and the orders in which the maps are walked.\<close>

type_synonym lvm_moment = "lvm_host \<times> (nat \<Rightarrow> string list \<times> string list)"

definition updateMetrics :: "'q quantities \<Rightarrow> 'q \<Rightarrow> lvm_moment \<Rightarrow> lvm_collector \<Rightarrow> lvm_collector" where
  "updateMetrics Q z t c = (case ListLVMVolumeGroup (fst t) Q z (snd t) False of
       (vgs, Some e) \<Rightarrow> c
     | (vgs, None) \<Rightarrow> if vgs = [] then c else c\<lparr>lvm_totals := totals_of Q vgs\<rparr>)"

definition lvm_Poll :: "'q quantities \<Rightarrow> 'q \<Rightarrow> lvm_moment \<Rightarrow> lvm_collector \<Rightarrow> lvm_collector \<times> err option" where
  "lvm_Poll Q z t c = (updateMetrics Q z t c, None)"

text \<open>The loop updates at once, marks the collector as ready and updates at every tick until it is stopped;
  \<open>ts\<close> are the moments of these ticks. A ticker needs a positive interval.\<close>

definition startMetricsCollection :: "'q quantities \<Rightarrow> 'q \<Rightarrow> lvm_moment \<Rightarrow> lvm_moment list \<Rightarrow> base \<Rightarrow> lvm_collector
    \<Rightarrow> (base \<times> lvm_collector) go" where
  "startMetricsCollection Q z t ts b c =
     (if lvc_UpdateInterval (lvm_config c) \<le> 0 then Panic ''non-positive interval for NewTicker''
      else let c1 = updateMetrics Q z t c
        in bind_go (SetReady b) (\<lambda>b'. Ret (b', foldl (\<lambda>c t. updateMetrics Q z t c) c1 ts)))"

section \<open>Emission\<close>

definition lvm_rows :: "lvm_collector \<Rightarrow> row list" where
  "lvm_rows c = (let D = lvm_descs c; n = lvc_NodeName (lvm_config c); t = lvm_totals c in
     if n = [] then []
     else [(lvd_capacity D, lt_Capacity t, [n]), (lvd_free D, lt_Free t, [n]),
           (lvd_size D, lt_MetadataSize t, [n]), (lvd_mfree D, lt_MetadataFree t, [n])])"

definition lvm_collect :: "prom \<Rightarrow> lvm_collector \<Rightarrow> pmetric list \<times> string option" where
  "lvm_collect P c = emit (map (\<lambda>(d, v, ls). const_metric P d v ls) (lvm_rows c))"

section \<open>Totals\<close>

text \<open>Documented of quantities: they are exact, and \<open>Value\<close> is the number where 64 bits hold it.\<close>

definition quantity_law :: "'q quantities \<Rightarrow> ('q \<Rightarrow> int) \<Rightarrow> bool" where
  "quantity_law Q val \<longleftrightarrow> (\<forall>i. val (qt_New Q i) = i) \<and> (\<forall>a b. val (qt_Add Q a b) = val a + val b)
     \<and> (\<forall>a. \<bar>val a\<bar> < 2 ^ 63 \<longrightarrow> qt_Value Q a = val a)"

lemma quantity_sum:
  assumes "quantity_law Q val"
  shows "val (foldl (\<lambda>acc vg. qt_Add Q acc (f vg)) a vgs) = val a + sum_list (map (\<lambda>vg. val (f vg)) vgs)"
  using assms by (induction vgs arbitrary: a) (simp_all add: quantity_law_def)

lemma total_of_sum:
  assumes "quantity_law Q val" "\<bar>sum_list (map (\<lambda>vg. val (f vg)) vgs)\<bar> < 2 ^ 53"
  shows "total_of Q f vgs = Fin (of_int (sum_list (map (\<lambda>vg. val (f vg)) vgs)))"
proof -
  let ?s = "sum_list (map (\<lambda>vg. val (f vg)) vgs)"
  let ?q = "foldl (\<lambda>acc vg. qt_Add Q acc (f vg)) (qt_New Q 0) vgs"
  have v: "val ?q = ?s" using quantity_sum [OF assms(1), of f "qt_New Q 0" vgs] assms(1) by (simp add: quantity_law_def)
  then have "\<bar>val ?q\<bar> < 2 ^ 63" using assms(2) by simp
  then have "qt_Value Q ?q = ?s" using assms(1) v by (simp add: quantity_law_def)
  then show ?thesis by (simp add: total_of_def float_of_int_exact [OF assms(2)])
qed

text \<open>A size as the command prints it.\<close>

definition printed_size :: "nat \<Rightarrow> string" where
  "printed_size n = dec_string n @ ''B''"

lemma lower_digit_same: "is_digit c \<Longrightarrow> to_lower c = c"
  by (auto simp: to_lower_def is_digit_def Let_def)

lemma ToLower_digits: "list_all is_digit s \<Longrightarrow> ToLower s = s"
  by (auto simp: ToLower_def list_all_iff lower_digit_same intro: map_idI)

lemma parse_printed_size:
  assumes "field_of m k = printed_size n" "n < 2 ^ 63"
  shows "parse_bytes m k = (int n, None)"
proof -
  have d: "list_all is_digit (dec_string n)" "dec_string n \<noteq> []" using dec_string_digits [of n] by simp_all
  have "to_lower (CHR ''B'') = CHR ''b''" by code_simp
  then have l: "ToLower (printed_size n) = dec_string n @ ''b''"
    using ToLower_digits [OF d(1)] by (simp add: printed_size_def ToLower_def)
  have t: "TrimSuffix (dec_string n @ ''b'') ''b'' = dec_string n"
    by (simp add: TrimSuffix_def HasSuffix_def suffix_def)
  have "Itoa (int n) = dec_string n" by (simp add: Itoa_def)
  then have "Atoi (dec_string n) = Some (int n)" using Atoi_Itoa [of "int n"] assms(2) by simp
  then have "ParseInt 64 (dec_string n) = (int n, None)" by (simp add: ParseInt_Atoi)
  then show ?thesis by (simp add: parse_bytes_def assms(1) l t)
qed

definition vg_order_ok :: "string list \<times> string list \<Rightarrow> bool" where
  "vg_order_ok p \<longleftrightarrow> mset (fst p) = mset vg_count_keys \<and> mset (snd p) = mset vg_size_keys"

lemma vg_items_printed:
  assumes "\<forall>i. vg_order_ok (os i)" "\<forall>m \<in> set items. \<forall>k \<in> set vg_size_keys. snd (parse_bytes m k) = None"
  shows "vg_items Q z os i items = (map (vg_of Q) items, None)"
  using assms(2)
proof (induction items arbitrary: i)
  case (Cons m ms)
  have o: "mset (fst (os i)) = mset vg_count_keys" "mset (snd (os i)) = mset vg_size_keys"
    using assms(1) by (simp_all add: vg_order_ok_def)
  then have "snd (os i) \<noteq> []" by (auto simp: vg_size_keys_def)
  then have "last (snd (os i)) \<in> set vg_size_keys" using mset_eq_setD [OF o(2)] last_in_set by blast
  then have "snd (parse_bytes m (last (snd (os i)))) = None" using Cons.prems by simp
  then show ?case using Cons by (simp add: parseVolumeGroup_eq [OF o])
qed simp

text \<open>C31. When the command prints a report whose sizes are numbers of bytes, then the totals after an update are the
  sums of these numbers over the volume groups, exactly, up to the integers that a double holds, in whatever
  order the maps are walked.\<close>

theorem printed_sizes_are_totalled:
  assumes "quantity_law Q val" "\<forall>i. vg_order_ok (os i)"
    "lh_Output H ''vgs'' (report_args ''vg_all'') = (out, None)" "lh_Unmarshal H ''vg'' out = Inr [items]" "items \<noteq> []"
    "\<forall>m \<in> set items. \<forall>k \<in> set vg_size_keys. field_of m k = printed_size (sz k m)"
    "\<forall>k \<in> set vg_size_keys. sum_list (map (sz k) items) < 2 ^ 53"
  shows "lvm_totals (updateMetrics Q z (H, os) c) =
    \<lparr>lt_Capacity = Fin (of_nat (sum_list (map (sz ''vg_size'') items))),
     lt_Free = Fin (of_nat (sum_list (map (sz ''vg_free'') items))),
     lt_MetadataSize = Fin (of_nat (sum_list (map (sz ''vg_mda_size'') items))),
     lt_MetadataFree = Fin (of_nat (sum_list (map (sz ''vg_mda_free'') items)))\<rparr>"
proof -
  have small: "sz k m < 2 ^ 63" if k: "k \<in> set vg_size_keys" and m: "m \<in> set items" for k m
  proof -
    have "sz k m \<le> sum_list (map (sz k) items)" by (rule member_le_sum_list) (use m in simp_all)
    then have "sz k m < 2 ^ 53" using assms(7) k by (meson order_le_less_trans)
    then show ?thesis by simp
  qed
  have p: "parse_bytes m k = (int (sz k m), None)" if "k \<in> set vg_size_keys" "m \<in> set items" for k m
    using parse_printed_size [of m k "sz k m"] assms(6) small that by simp
  have l: "ListLVMVolumeGroup H Q z os False = (map (vg_of Q) items, None)"
    using vg_items_printed [OF assms(2), of items Q z 0] p
    by (simp add: ListLVMVolumeGroup_def assms(3) decodeVgsJSON_def assms(4) one_report_def)
  have t: "total_of Q f (map (vg_of Q) items) = Fin (of_nat (sum_list (map (sz k) items)))"
    if k: "k \<in> set vg_size_keys" and f: "\<And>m. f (vg_of Q m) = qt_New Q (fst (parse_bytes m k))"
    for k and f :: "'a volume_group \<Rightarrow> 'a"
  proof -
    have v: "map (\<lambda>vg. val (f vg)) (map (vg_of Q) items) = map (\<lambda>m. int (sz k m)) items"
      using p [OF k] assms(1) by (simp add: f quantity_law_def)
    have "sum_list (map (\<lambda>m. int (sz k m)) items) = int (sum_list (map (sz k) items))" by (induction items) simp_all
    then have s: "sum_list (map (\<lambda>vg. val (f vg)) (map (vg_of Q) items)) = int (sum_list (map (sz k) items))"
      unfolding v .
    have "sum_list (map (sz k) items) < 2 ^ 53" using assms(7) k by blast
    then have "\<bar>int (sum_list (map (sz k) items))\<bar> < 2 ^ 53" by simp
    then show ?thesis using total_of_sum [OF assms(1), of f "map (vg_of Q) items"] unfolding s by simp
  qed
  have k: "''vg_size'' \<in> set vg_size_keys" "''vg_free'' \<in> set vg_size_keys" "''vg_mda_size'' \<in> set vg_size_keys"
    "''vg_mda_free'' \<in> set vg_size_keys"
    by (simp_all add: vg_size_keys_def)
  have "totals_of Q (map (vg_of Q) items) =
    \<lparr>lt_Capacity = Fin (of_nat (sum_list (map (sz ''vg_size'') items))),
     lt_Free = Fin (of_nat (sum_list (map (sz ''vg_free'') items))),
     lt_MetadataSize = Fin (of_nat (sum_list (map (sz ''vg_mda_size'') items))),
     lt_MetadataFree = Fin (of_nat (sum_list (map (sz ''vg_mda_free'') items)))\<rparr>"
    unfolding totals_of_def
    using t [OF k(1), of vg_Size] t [OF k(2), of vg_Free] t [OF k(3), of vg_MetadataSize]
      t [OF k(4), of vg_MetadataFree] by (simp add: vg_of_def Let_def)
  then show ?thesis using assms(5) by (simp add: updateMetrics_def l)
qed

section \<open>A run\<close>

definition lists_groups :: "'q quantities \<Rightarrow> 'q \<Rightarrow> lvm_moment \<Rightarrow> bool" where
  "lists_groups Q z t \<longleftrightarrow> (case ListLVMVolumeGroup (fst t) Q z (snd t) False of
     (vgs, Some e) \<Rightarrow> False | (vgs, None) \<Rightarrow> vgs \<noteq> [])"

definition listed :: "'q quantities \<Rightarrow> 'q \<Rightarrow> lvm_moment \<Rightarrow> 'q volume_group list" where
  "listed Q z t = fst (ListLVMVolumeGroup (fst t) Q z (snd t) False)"

lemma updateMetrics_eq:
  "updateMetrics Q z t c = (if lists_groups Q z t then c\<lparr>lvm_totals := totals_of Q (listed Q z t)\<rparr> else c)"
  by (simp add: updateMetrics_def lists_groups_def listed_def split: prod.split option.split)

lemma updates_totals:
  "foldl (\<lambda>c t. updateMetrics Q z t c) c ts =
     c\<lparr>lvm_totals := (if filter (lists_groups Q z) ts = [] then lvm_totals c
        else totals_of Q (listed Q z (last (filter (lists_groups Q z) ts))))\<rparr>"
  by (induction ts rule: rev_induct) (simp_all add: updateMetrics_eq)

text \<open>While the loop runs, the totals are those of the last update at which the command succeeded and listed a
  volume group, and zero before the first such update. So a failure leaves the old totals, which is meant; but when
  the last volume group of a node is removed its totals stay as well.\<close>

theorem totals_of_last_listing:
  assumes "startMetricsCollection Q z t ts b c = Ret (b', c')"
  shows "lvm_totals c' = (if filter (lists_groups Q z) (t # ts) = [] then lvm_totals c
      else totals_of Q (listed Q z (last (filter (lists_groups Q z) (t # ts)))))
    \<and> lvm_config c' = lvm_config c \<and> lvm_descs c' = lvm_descs c \<and> bc_ready b'"
proof -
  have i: "\<not> lvc_UpdateInterval (lvm_config c) \<le> 0" using assms by (auto simp: startMetricsCollection_def split: if_splits)
  have "SetReady b = Ret b'" and c: "c' = foldl (\<lambda>c t. updateMetrics Q z t c) c (t # ts)"
    using assms i by (cases "SetReady b"; simp add: startMetricsCollection_def Let_def)+
  then have "bc_ready b'" by (auto simp: SetReady_def close_chan_def Let_def split: if_splits option.splits)
  then show ?thesis unfolding c updates_totals by simp
qed

section \<open>A scrape\<close>

definition lvm_prom_ok :: "prom \<Rightarrow> string \<Rightarrow> bool" where
  "lvm_prom_ok P ns \<longleftrightarrow> fq_law P \<and> list_all (usable P) (lvm_desc_list (lvm_descs_of P ns))"

lemma lvm_rows_ok:
  assumes "lvm_descs c = lvm_descs_of P ns" "(d, v, ls) \<in> set (lvm_rows c)"
  shows "d \<in> set (lvm_desc_list (lvm_descs_of P ns))" "length ls = length (d_labels d)"
  using assms by (auto simp: lvm_rows_def lvm_desc_list_def lvm_descs_of_def lvm_desc_def Let_def split: if_splits)

text \<open>A scrape sends each of the four totals once under the name of the node, and nothing when the node has no
  name.\<close>

theorem lvm_scrape_is_clean:
  assumes "lvm_prom_ok P ns" "lvm_descs c = lvm_descs_of P ns"
  shows "lvm_collect P c = (map row_sample (lvm_rows c), None) \<and> no_duplicates (fst (lvm_collect P c))
    \<and> length (fst (lvm_collect P c)) = (if lvc_NodeName (lvm_config c) = [] then 0 else 4)"
proof -
  have u: "usable P d" if "d \<in> set (lvm_desc_list (lvm_descs_of P ns))" for d
    using assms(1) that by (auto simp: lvm_prom_ok_def list_all_iff)
  have e: "usable P d \<and> length ls = length (d_labels d)" if "(d, v, ls) \<in> set (lvm_rows c)" for d v ls
    using u [OF lvm_rows_ok(1) [OF assms(2) that]] lvm_rows_ok(2) [OF assms(2) that] ..
  have "distinct (map d_fqName (lvm_desc_list (lvm_descs_of P ns)))"
    using assms(1) by (simp add: lvm_prom_ok_def lvm_desc_list_def lvm_descs_of_def lvm_desc_def fq_inject)
  then have "distinct (map row_key (lvm_rows c))"
    by (simp add: lvm_rows_def assms(2) row_key_def lvm_desc_list_def Let_def)
  from emit_rows [OF e this] show ?thesis by (simp add: lvm_collect_def) (simp add: lvm_rows_def Let_def)
qed

section \<open>Runs\<close>

definition int_quantities :: "int quantities" where
  "int_quantities = \<lparr>qt_New = (\<lambda>i. i), qt_Add = (+), qt_Value = (\<lambda>i. i)\<rparr>"

lemma int_quantities_law: "quantity_law int_quantities (\<lambda>i. i)"
  by (simp add: quantity_law_def int_quantities_def)

definition demo_vg_item :: "nat \<Rightarrow> lvm_item" where
  "demo_vg_item n = [''vg_name'' \<mapsto> ''vg'', ''vg_size'' \<mapsto> printed_size n, ''vg_free'' \<mapsto> printed_size 7,
     ''vg_mda_size'' \<mapsto> printed_size 2, ''vg_mda_free'' \<mapsto> printed_size 1, ''pv_count'' \<mapsto> ''many'']"

definition demo_lvm_host :: "lvm_item list \<Rightarrow> lvm_host" where
  "demo_lvm_host items = \<lparr>lh_Output = (\<lambda>c a. ([], None)), lh_CombinedOutput = (\<lambda>c a. ([], None)),
     lh_Unmarshal = (\<lambda>k raw. Inr [items]), lh_EvalSymlinks = Inr, lh_ParseFloat = (\<lambda>s. Inl ''no number'')\<rparr>"

definition demo_lvm_orders :: "nat \<Rightarrow> string list \<times> string list" where
  "demo_lvm_orders i = (vg_count_keys, rev vg_size_keys)"

definition demo_lvm :: lvm_collector where
  "demo_lvm = \<lparr>lvm_config = \<lparr>lvc_UpdateInterval = 10 * 10 ^ 9, lvc_NodeName = ''n1''\<rparr>, lvm_totals = zero_totals,
     lvm_stopped = False, lvm_descs = lvm_descs_of demo_prom ''sealos''\<rparr>"

lemma demo_lvm_fields [simp]:
  "lvc_NodeName (lvm_config demo_lvm) = ''n1''" "lvc_UpdateInterval (lvm_config demo_lvm) = 10 * 10 ^ 9"
  "lvm_descs demo_lvm = lvm_descs_of demo_prom ''sealos''"
  by (simp_all add: demo_lvm_def)

lemma demo_vg_item_fields:
  "field_of (demo_vg_item n) ''vg_size'' = printed_size n" "field_of (demo_vg_item n) ''vg_free'' = printed_size 7"
  "field_of (demo_vg_item n) ''vg_mda_size'' = printed_size 2" "field_of (demo_vg_item n) ''vg_mda_free'' = printed_size 1"
  by (simp_all add: field_of_def demo_vg_item_def)

lemma demo_lvm_orders_ok: "vg_order_ok (demo_lvm_orders i)"
  by (simp add: vg_order_ok_def demo_lvm_orders_def)

theorem volume_group_errors_are_lost_witness:
  "snd (parseVolumeGroup int_quantities 0 vg_count_keys (rev vg_size_keys) (demo_vg_item 40)) = None
    \<and> snd (ParseInt 32 (field_of (demo_vg_item 40) ''pv_count'')) \<noteq> None"
proof -
  have "last (rev vg_size_keys) = ''vg_size''" by (simp add: vg_size_keys_def)
  moreover have "parse_bytes (demo_vg_item 40) ''vg_size'' = (40, None)"
    using parse_printed_size [OF demo_vg_item_fields(1), of 40] by simp
  then have "Atoi (TrimSuffix (ToLower (field_of (demo_vg_item 40) ''vg_size'')) ''b'') \<noteq> None"
    unfolding ParseInt_error [symmetric] by (simp add: parse_bytes_def)
  ultimately have "snd (parseVolumeGroup int_quantities 0 vg_count_keys (rev vg_size_keys) (demo_vg_item 40)) = None"
    using volume_group_errors_are_lost [of vg_count_keys "rev vg_size_keys" int_quantities 0 "demo_vg_item 40"] by simp
  moreover have "field_of (demo_vg_item 40) ''pv_count'' = ''many''" by (simp add: field_of_def demo_vg_item_def)
  moreover have "snd (ParseInt 32 ''many'') \<noteq> None"
    by (simp add: ParseInt_def split_sign_def parse_signed_def is_digit_def Let_def)
  ultimately show ?thesis by simp
qed

theorem volumes_parse_in_any_order_witness:
  "snd (parsePhysicalVolume int_quantities 0 (rev pv_size_keys) (demo_vg_item 40)) \<noteq> None"
proof -
  have "snd (ParseInt 64 (TrimSuffix (ToLower []) ''b'')) \<noteq> None"
    by (simp add: ParseInt_def split_sign_def parse_signed_def TrimSuffix_def HasSuffix_def ToLower_def Let_def)
  moreover have "field_of (demo_vg_item 40) ''pv_size'' = []" by (simp add: field_of_def demo_vg_item_def)
  ultimately have "pv_size_value int_quantities (demo_vg_item 40) ''pv_size'' \<noteq> Inr q" for q
    by (auto simp: pv_size_value_def parse_bytes_def split: prod.splits option.splits)
  then have "\<not> (\<forall>k \<in> set pv_size_keys. \<exists>q. pv_size_value int_quantities (demo_vg_item 40) k = Inr q)"
    by (simp add: pv_size_keys_def)
  then show ?thesis
    using volumes_parse_in_any_order [of lv_size_keys lv_percent_keys "rev pv_size_keys" "\<lambda>s. Inl s" "demo_vg_item 40"
        int_quantities 0, THEN conjunct2]
    by (cases "parsePhysicalVolume int_quantities 0 (rev pv_size_keys) (demo_vg_item 40)")
      (auto split: option.splits)
qed

theorem printed_sizes_are_totalled_witness:
  "lt_Capacity (lvm_totals (updateMetrics int_quantities 0 (demo_lvm_host [demo_vg_item 40, demo_vg_item 2], demo_lvm_orders) demo_lvm))
     = Fin 42"
proof -
  let ?sz = "\<lambda>k m. if k = ''vg_size'' then (if m = demo_vg_item 40 then 40 else 2)
      else if k = ''vg_free'' then 7 else if k = ''vg_mda_size'' then 2 else (1 :: nat)"
  have ne: "demo_vg_item 2 \<noteq> demo_vg_item 40"
  proof
    assume "demo_vg_item 2 = demo_vg_item 40"
    then have "parse_bytes (demo_vg_item 2) ''vg_size'' = parse_bytes (demo_vg_item 40) ''vg_size''" by simp
    then show False using parse_printed_size [OF demo_vg_item_fields(1), of 2] parse_printed_size [OF demo_vg_item_fields(1), of 40]
      by simp
  qed
  have "lh_Output (demo_lvm_host is) ''vgs'' (report_args ''vg_all'') = ([], None)"
    "lh_Unmarshal (demo_lvm_host is) ''vg'' [] = Inr [is]" for "is"
    by (simp_all add: demo_lvm_host_def)
  note h = this
  from printed_sizes_are_totalled [OF int_quantities_law _ h(1) h(2), of demo_lvm_orders "[demo_vg_item 40, demo_vg_item 2]" ?sz 0 demo_lvm]
  show ?thesis using ne by (simp add: demo_lvm_orders_ok demo_vg_item_fields vg_size_keys_def)
qed

definition demo_lvm_base :: base where
  "demo_lvm_base = NewBaseCollector ''lvm'' [WithLeaderElection False]"

theorem totals_of_last_listing_witness:
  "\<exists>b' c'. startMetricsCollection int_quantities 0 (demo_lvm_host [demo_vg_item 40], demo_lvm_orders) [(demo_lvm_host [], demo_lvm_orders)]
       demo_lvm_base demo_lvm = Ret (b', c')
     \<and> lvm_totals c' = totals_of int_quantities [vg_of int_quantities (demo_vg_item 40)]"
proof -
  let ?t = "(demo_lvm_host [demo_vg_item 40], demo_lvm_orders)" let ?u = "(demo_lvm_host [], demo_lvm_orders)"
  have "SetReady demo_lvm_base \<noteq> Panic m" for m
    by (simp add: SetReady_def demo_lvm_base_def NewBaseCollector_def close_chan_def Let_def)
  then obtain b' where b: "SetReady demo_lvm_base = Ret b'" by (cases "SetReady demo_lvm_base") auto
  obtain c' where r: "startMetricsCollection int_quantities 0 ?t [?u] demo_lvm_base demo_lvm = Ret (b', c')"
    by (simp add: startMetricsCollection_def b Let_def)
  have "ListLVMVolumeGroup (demo_lvm_host [demo_vg_item 40]) int_quantities 0 demo_lvm_orders False
      = ([vg_of int_quantities (demo_vg_item 40)], None)"
    using vg_items_printed [of demo_lvm_orders "[demo_vg_item 40]" int_quantities 0 0] demo_lvm_orders_ok
      parse_printed_size [OF demo_vg_item_fields(1), of 40] parse_printed_size [OF demo_vg_item_fields(2), of 40]
      parse_printed_size [OF demo_vg_item_fields(3), of 40] parse_printed_size [OF demo_vg_item_fields(4), of 40]
    by (simp add: ListLVMVolumeGroup_def decodeVgsJSON_def one_report_def demo_lvm_host_def vg_size_keys_def)
  then have t: "lists_groups int_quantities 0 ?t" "listed int_quantities 0 ?t = [vg_of int_quantities (demo_vg_item 40)]"
    by (simp_all add: lists_groups_def listed_def)
  have "\<not> lists_groups int_quantities 0 ?u"
    by (simp add: lists_groups_def ListLVMVolumeGroup_def decodeVgsJSON_def one_report_def demo_lvm_host_def)
  then show ?thesis using totals_of_last_listing [OF r] r t by (intro exI conjI) (assumption, simp)
qed

theorem lvm_scrape_is_clean_witness:
  "length (fst (lvm_collect demo_prom demo_lvm)) = 4 \<and> no_duplicates (fst (lvm_collect demo_prom demo_lvm))"
proof -
  have "lvm_prom_ok demo_prom ''sealos''" by (simp add: lvm_prom_ok_def lvm_desc_list_def)
  from lvm_scrape_is_clean [OF this, of demo_lvm, simplified] show ?thesis by blast
qed

end
