(* ===== verification/Balance_Collectors.thy ===== *)
theory Balance_Collectors
  imports Collector_Kit
begin

text \<open>
  \<open>pkg/collector/userbalance\<close> and \<open>pkg/collector/cloudbalance\<close> with \<open>pkg/database/postgres.go\<close>: balances of
  users from a database, those that are configured and those that are discovered, and balances of cloud accounts from
  three providers. The answers of the databases and of the providers are inputs.
\<close>

section \<open>Connection pools\<close>

record pool_config =
  pc_MaxConns :: int
  pc_MinConns :: int
  pc_MaxConnLifetime :: int
  pc_MaxConnIdleTime :: int
  pc_HealthCheckPeriod :: int
  pc_PingTimeout :: int

definition DefaultPoolConfig :: pool_config where
  "DefaultPoolConfig = \<lparr>pc_MaxConns = 25, pc_MinConns = 5, pc_MaxConnLifetime = 3600 * 10 ^ 9,
     pc_MaxConnIdleTime = 1800 * 10 ^ 9, pc_HealthCheckPeriod = 60 * 10 ^ 9, pc_PingTimeout = 5 * 10 ^ 9\<rparr>"

datatype pool_option =
    WithMaxConns int | WithMinConns int | WithMaxConnLifetime int | WithMaxConnIdleTime int
  | WithHealthCheckPeriod int | WithPingTimeout int

fun apply_pool_option :: "pool_config \<Rightarrow> pool_option \<Rightarrow> pool_config" where
  "apply_pool_option c (WithMaxConns n) = c\<lparr>pc_MaxConns := n\<rparr>"
| "apply_pool_option c (WithMinConns n) = c\<lparr>pc_MinConns := n\<rparr>"
| "apply_pool_option c (WithMaxConnLifetime d) = c\<lparr>pc_MaxConnLifetime := d\<rparr>"
| "apply_pool_option c (WithMaxConnIdleTime d) = c\<lparr>pc_MaxConnIdleTime := d\<rparr>"
| "apply_pool_option c (WithHealthCheckPeriod d) = c\<lparr>pc_HealthCheckPeriod := d\<rparr>"
| "apply_pool_option c (WithPingTimeout d) = c\<lparr>pc_PingTimeout := d\<rparr>"

text \<open>The errors of the driver: of parsing a data source, of creating a pool with the options and of its ping within
  the timeout. A pool that does not answer is closed again.\<close>

record pg_driver =
  pd_ParseConfig :: "string \<Rightarrow> err option"
  pd_New :: "string \<Rightarrow> pool_config \<Rightarrow> err option"
  pd_Ping :: "string \<Rightarrow> int \<Rightarrow> err option"

definition InitPgClient :: "pg_driver \<Rightarrow> string \<Rightarrow> pool_option list \<Rightarrow> pool_config res" where
  "InitPgClient D dsn opts = (let cfg = foldl apply_pool_option DefaultPoolConfig opts in
     case pd_ParseConfig D dsn of
       Some e \<Rightarrow> Inl (''failed to parse DSN: '' @ e)
     | None \<Rightarrow> (case pd_New D dsn cfg of
          Some e \<Rightarrow> Inl (''failed to create connection pool: '' @ e)
        | None \<Rightarrow> (case pd_Ping D dsn (pc_PingTimeout cfg) of
             Some e \<Rightarrow> Inl (''failed to ping database: '' @ e)
           | None \<Rightarrow> Inr cfg)))"

section \<open>User balances: configuration and state\<close>

record user_config =
  us_Region :: string
  us_UUID :: string
  us_UID :: string
  us_Owner :: string
  us_Type :: string
  us_Level :: string
  us_Quota :: float64

record userbalance_config =
  uc_DSN :: string
  uc_LocalDSN :: string
  uc_Users :: "user_config list"
  uc_CheckInterval :: int
  uc_PositiveBalanceUsers :: bool

definition userbalance_NewDefaultConfig :: userbalance_config where
  "userbalance_NewDefaultConfig = \<lparr>uc_DSN = [], uc_LocalDSN = [], uc_Users = [],
     uc_CheckInterval = 300 * 10 ^ 9, uc_PositiveBalanceUsers = False\<rparr>"

record balance_sample =
  sa_User :: user_config
  sa_Balance :: float64
  sa_EmitQuota :: bool
  sa_Source :: string

text \<open>Of the two clients it matters whether there is one.\<close>

record userbalance =
  ub_config :: userbalance_config
  ub_pgClient :: bool
  ub_localPgClient :: bool
  ub_balances :: "string \<Rightarrow> balance_sample option"
  ub_gauge :: desc

definition userbalance_desc :: "prom \<Rightarrow> string \<Rightarrow> desc" where
  "userbalance_desc P ns = \<lparr>d_fqName = pr_BuildFQName P ns ''userbalance'' ''balance'',
     d_help = ''Current balance for each sealos user'',
     d_labels = [''region'', ''uuid'', ''uid'', ''owner'', ''type'', ''level'', ''source'']\<rparr>"

definition userbalance_NewCollector :: "prom \<Rightarrow> string \<Rightarrow> (userbalance_config \<Rightarrow> userbalance_config \<times> err option)
    \<Rightarrow> (userbalance \<times> base) go" where
  "userbalance_NewCollector P ns load =
     bind_go (register_descs [userbalance_desc P ns] (NewBaseCollector ''userbalance'' [WithWaitReadyOnCollect True]))
       (\<lambda>b. Ret (\<lparr>ub_config = fst (load userbalance_NewDefaultConfig), ub_pgClient = False, ub_localPgClient = False,
          ub_balances = Map.empty, ub_gauge = userbalance_desc P ns\<rparr>, b))"

text \<open>Starting makes the clients and the poll loop; a local client that fails is only missed.\<close>

definition userbalance_StartFunc :: "pg_driver \<Rightarrow> userbalance \<Rightarrow> userbalance \<times> err option" where
  "userbalance_StartFunc D c = (case InitPgClient D (uc_DSN (ub_config c)) [WithMinConns 1] of
       Inl e \<Rightarrow> (c, Some (''failed to initialize postgres client: '' @ e))
     | Inr _ \<Rightarrow>
         (let c1 = c\<lparr>ub_pgClient := True\<rparr>; dsn = uc_LocalDSN (ub_config c) in
          if dsn = [] then (c1, None)
          else case InitPgClient D dsn [WithMinConns 1] of
             Inl e \<Rightarrow> (c1, None)
           | Inr _ \<Rightarrow> (c1\<lparr>ub_localPgClient := True\<rparr>, None)))"

definition userbalance_StopFunc :: "userbalance \<Rightarrow> userbalance" where
  "userbalance_StopFunc c = c\<lparr>ub_pgClient := False, ub_localPgClient := False\<rparr>"

definition userbalance_HasSynced :: "userbalance \<Rightarrow> bool" where
  "userbalance_HasSynced c = True"

definition userbalance_Interval :: "userbalance \<Rightarrow> int" where
  "userbalance_Interval c = uc_CheckInterval (ub_config c)"

section \<open>User balances: queries\<close>

text \<open>The difference of two 64-bit integers wraps around.\<close>

definition int64_minus :: "int \<Rightarrow> int \<Rightarrow> int" where
  "int64_minus a b = (a - b + 2 ^ 63) mod 2 ^ 64 - 2 ^ 63"

definition scale_float :: "rat \<Rightarrow> float64 \<Rightarrow> float64" where
  "scale_float k f = (case f of Fin r \<Rightarrow> round64 (r * k) | _ \<Rightarrow> f)"

text \<open>\<open>math.Round\<close>: halves go away from zero. The integers of a double are again doubles.\<close>

definition math_Round :: "float64 \<Rightarrow> float64" where
  "math_Round f = (case f of
     Fin r \<Rightarrow> Fin (of_int (if r < 0 then - \<lfloor>- r + 1 / 2\<rfloor> else \<lfloor>r + 1 / 2\<rfloor>)) | _ \<Rightarrow> f)"

definition roundBalance :: "int \<Rightarrow> int \<Rightarrow> float64" where
  "roundBalance balance deduction =
     scale_float (1 / 100) (math_Round (scale_float 100 (scale_float (1 / 1000000) (float_of_int (int64_minus balance deduction)))))"

definition user_QueryBalance :: "userbalance \<Rightarrow> err + int \<times> int \<Rightarrow> float64 res" where
  "user_QueryBalance c row =
     (if \<not> ub_pgClient c then Inl ''database client is not initialized''
      else case row of
        Inl e \<Rightarrow> Inl (''query user balance failed: '' @ e)
      | Inr (balance, deduction) \<Rightarrow> Inr (roundBalance balance deduction))"

text \<open>The rows of a query: those that could be scanned, and the error of scanning the next or of the iteration.\<close>

record 'a pg_rows =
  pr_rows :: "'a list"
  pr_scan :: "err option"
  pr_err :: "err option"

record positive_row =
  po_Region :: string
  po_UUID :: string
  po_UID :: string
  po_Balance :: int
  po_Deduction :: int

definition positive_sample :: "positive_row \<Rightarrow> balance_sample" where
  "positive_sample r = \<lparr>sa_User = \<lparr>us_Region = po_Region r, us_UUID = po_UUID r, us_UID = po_UID r, us_Owner = [],
       us_Type = ''balance'', us_Level = [], us_Quota = Fin 0\<rparr>,
     sa_Balance = roundBalance (po_Balance r) (po_Deduction r), sa_EmitQuota = False, sa_Source = []\<rparr>"

definition QueryPositiveBalances :: "userbalance \<Rightarrow> err + positive_row pg_rows \<Rightarrow> balance_sample list res" where
  "QueryPositiveBalances c answer =
     (if \<not> ub_pgClient c then Inl ''database client is not initialized''
      else case answer of
        Inl e \<Rightarrow> Inl (''query positive user balances failed: '' @ e)
      | Inr rows \<Rightarrow> (case pr_scan rows of
           Some e \<Rightarrow> Inl (''scan positive user balance: '' @ e)
         | None \<Rightarrow> (case pr_err rows of
              Some e \<Rightarrow> Inl (''iterate positive user balances: '' @ e)
            | None \<Rightarrow> Inr (map positive_sample (pr_rows rows)))))"

text \<open>The owners of a user in the order of the rows.\<close>

definition owners_of :: "(string \<times> string) list \<Rightarrow> string \<Rightarrow> string list" where
  "owners_of rows uuid = map snd (filter (\<lambda>r. fst r = uuid) rows)"

definition QueryOwners :: "userbalance \<Rightarrow> string list \<Rightarrow> (string list \<Rightarrow> err + (string \<times> string) pg_rows)
    \<Rightarrow> (string \<Rightarrow> string list) res" where
  "QueryOwners c uuids query =
     (if \<not> ub_localPgClient c \<or> uuids = [] then Inr (\<lambda>_. [])
      else case query uuids of
        Inl e \<Rightarrow> Inl (''query user owners failed: '' @ e)
      | Inr rows \<Rightarrow> (case pr_scan rows of
           Some e \<Rightarrow> Inl (''scan user owner: '' @ e)
         | None \<Rightarrow> (case pr_err rows of
              Some e \<Rightarrow> Inl (''iterate user owners: '' @ e)
            | None \<Rightarrow> Inr (owners_of (pr_rows rows)))))"

section \<open>User balances: polling\<close>

definition userKey :: "user_config \<Rightarrow> string" where
  "userKey u = us_Region u @ '':'' @ us_UUID u @ '':'' @ us_UID u @ '':'' @ us_Owner u @ '':'' @ us_Type u @ '':'' @ us_Level u"

definition normalizeUserLabels :: "user_config \<Rightarrow> user_config" where
  "normalizeUserLabels u =
     (let u1 = (if us_Region u = [] then u\<lparr>us_Region := ''default''\<rparr> else u)
      in if us_Level u1 = [] then u1\<lparr>us_Level := ''default''\<rparr> else u1)"

definition userIdentityKeys :: "user_config \<Rightarrow> string list" where
  "userIdentityKeys u =
     (if us_UID u \<noteq> [] then [''uid:'' @ us_UID u] else [])
     @ (if us_UUID u \<noteq> [] then [''uuid:'' @ us_UUID u] else [])
     @ (if us_Owner u \<noteq> [] then [''owner:'' @ us_Owner u] else [])"

definition userConfigured :: "user_config \<Rightarrow> string set \<Rightarrow> bool" where
  "userConfigured u configured \<longleftrightarrow> list_ex (\<lambda>k. k \<in> configured) (userIdentityKeys u)"

definition sampleUUIDs :: "balance_sample list \<Rightarrow> string list" where
  "sampleUUIDs samples = filter (\<lambda>u. u \<noteq> []) (map (\<lambda>s. us_UUID (sa_User s)) samples)"

text \<open>What a poll meets: whether the context is done when a user's turn comes, the row of each configured user, and
  the answers to the other two queries.\<close>

record user_world =
  uw_ctx_err :: err
  uw_done :: "nat \<Rightarrow> bool"
  uw_balance :: "nat \<Rightarrow> err + int \<times> int"
  uw_positive :: "err + positive_row pg_rows"
  uw_owners :: "string list \<Rightarrow> err + (string \<times> string) pg_rows"

definition configured_sample :: "user_config \<Rightarrow> float64 \<Rightarrow> balance_sample" where
  "configured_sample u bal =
     \<lparr>sa_User = normalizeUserLabels u, sa_Balance = bal, sa_EmitQuota = True, sa_Source = ''configured''\<rparr>"

text \<open>The loop over the configured users yields the samples of those whose query succeeds, or nothing when the context is
  done before one of them.\<close>

fun configured_samples :: "userbalance \<Rightarrow> user_world \<Rightarrow> nat \<Rightarrow> user_config list \<Rightarrow> balance_sample list option" where
  "configured_samples c w i [] = Some []"
| "configured_samples c w i (u # us) =
     (if uw_done w i then None
      else case user_QueryBalance c (uw_balance w i) of
        Inl e \<Rightarrow> configured_samples c w (Suc i) us
      | Inr bal \<Rightarrow> map_option ((#) (configured_sample u bal)) (configured_samples c w (Suc i) us))"

definition regional_samples :: "(string \<Rightarrow> string list) \<Rightarrow> balance_sample list \<Rightarrow> balance_sample list" where
  "regional_samples owners samples =
     concat (map (\<lambda>s. map (\<lambda>ow. s\<lparr>sa_User := (sa_User s)\<lparr>us_Owner := ow\<rparr>\<rparr>)
       (filter (\<lambda>ow. ow \<noteq> []) (owners (us_UUID (sa_User s))))) samples)"

definition local_samples :: "userbalance \<Rightarrow> user_world \<Rightarrow> balance_sample list \<Rightarrow> balance_sample list" where
  "local_samples c w samples =
     (if samples \<noteq> [] \<and> uc_LocalDSN (ub_config c) \<noteq> [] then
        (if \<not> ub_localPgClient c then []
         else case QueryOwners c (sampleUUIDs samples) (uw_owners w) of
           Inl e \<Rightarrow> []
         | Inr owners \<Rightarrow> regional_samples owners samples)
      else samples)"

definition discovered_sample :: "balance_sample \<Rightarrow> balance_sample" where
  "discovered_sample s = s\<lparr>sa_User := normalizeUserLabels (sa_User s), sa_Source := ''discovered''\<rparr>"

definition identities :: "balance_sample list \<Rightarrow> string set" where
  "identities xs = (\<Union>s \<in> set xs. set (userIdentityKeys (sa_User s)))"

definition discovered_samples :: "string set \<Rightarrow> balance_sample list \<Rightarrow> balance_sample list" where
  "discovered_samples configured samples =
     map discovered_sample (filter (\<lambda>s. \<not> userConfigured (sa_User s) configured) samples)"

definition sample_key :: "balance_sample \<Rightarrow> string" where
  "sample_key s = userKey (sa_User s)"

definition userbalance_Poll :: "user_world \<Rightarrow> userbalance \<Rightarrow> userbalance \<times> err option" where
  "userbalance_Poll w c =
     (if uc_Users (ub_config c) = [] \<and> \<not> uc_PositiveBalanceUsers (ub_config c) then (c, None)
      else case configured_samples c w 0 (uc_Users (ub_config c)) of
        None \<Rightarrow> (c, Some (uw_ctx_err w))
      | Some xs \<Rightarrow>
          (let configured = store_by sample_key xs Map.empty in
           if \<not> uc_PositiveBalanceUsers (ub_config c) then (c\<lparr>ub_balances := configured\<rparr>, None)
           else case QueryPositiveBalances c (uw_positive w) of
             Inl e \<Rightarrow> if uc_Users (ub_config c) = [] then (c, Some e) else (c\<lparr>ub_balances := configured\<rparr>, None)
           | Inr samples \<Rightarrow>
               (c\<lparr>ub_balances := store_by sample_key (discovered_samples (identities xs) (local_samples c w samples))
                    configured\<rparr>, None)))"

text \<open>The polls of a loop, with the time each takes.\<close>

definition userbalance_poll_next :: "(user_world \<times> int) list \<times> userbalance
    \<Rightarrow> err option \<times> int \<times> (user_world \<times> int) list \<times> userbalance" where
  "userbalance_poll_next s = (case s of ([], c) \<Rightarrow> (None, 0, [], c)
     | ((w, d) # rest, c) \<Rightarrow> (case userbalance_Poll w c of (c', e) \<Rightarrow> (e, d, rest, c')))"

definition userbalance_pollLoop :: "base \<Rightarrow> (user_world \<times> int) list \<times> userbalance \<Rightarrow> loop_event list
    \<Rightarrow> (base \<times> poll_log list \<times> (user_world \<times> int) list \<times> userbalance) go" where
  "userbalance_pollLoop b s es = RunPollLoop userbalance_poll_next
     \<lparr>po_Interval = uc_CheckInterval (ub_config (snd s)), po_Operation = ''userbalance'', po_SlowThreshold = 0,
      po_SuccessInfoLog = False\<rparr> b s es"

section \<open>User balances: emission\<close>

definition user_labels :: "user_config \<Rightarrow> string \<Rightarrow> string list" where
  "user_labels u source = [us_Region u, us_UUID u, us_UID u, us_Owner u, us_Type u, us_Level u, source]"

definition sample_rows :: "desc \<Rightarrow> balance_sample \<Rightarrow> row list" where
  "sample_rows D s =
     (D, sa_Balance s, user_labels (sa_User s) (sa_Source s))
     # (if \<not> sa_EmitQuota s then []
        else [(D, us_Quota (sa_User s), user_labels ((sa_User s)\<lparr>us_Type := ''quota''\<rparr>) (sa_Source s))])"

definition userbalance_collect :: "prom \<Rightarrow> userbalance \<Rightarrow> (string \<times> balance_sample) list \<Rightarrow> pmetric list \<times> string option"
  where
  "userbalance_collect P c es =
     emit (map (\<lambda>(d, v, ls). const_metric P d v ls) (concat (map (\<lambda>x. sample_rows (ub_gauge c) (snd x)) es)))"

section \<open>Cloud balances\<close>

record account_config =
  ac_Provider :: string
  ac_AccountID :: string
  ac_AccessKeyID :: string
  ac_AccessKeySecret :: string
  ac_RegionID :: string

record cloudbalance_config =
  cbc_Accounts :: "account_config list"
  cbc_CheckInterval :: int

definition cloudbalance_NewDefaultConfig :: cloudbalance_config where
  "cloudbalance_NewDefaultConfig = \<lparr>cbc_Accounts = [], cbc_CheckInterval = 300 * 10 ^ 9\<rparr>"

record cloudbalance =
  cb_config :: cloudbalance_config
  cb_balances :: "string \<Rightarrow> float64 option"
  cb_gauge :: desc

definition cloudbalance_desc :: "prom \<Rightarrow> string \<Rightarrow> desc" where
  "cloudbalance_desc P ns = \<lparr>d_fqName = pr_BuildFQName P ns ''cloudbalance'' ''balance'',
     d_help = ''Current balance for each cloud account'', d_labels = [''provider'', ''account_id'']\<rparr>"

definition cloudbalance_NewCollector :: "prom \<Rightarrow> string \<Rightarrow> (cloudbalance_config \<Rightarrow> cloudbalance_config \<times> err option)
    \<Rightarrow> (cloudbalance \<times> base) go" where
  "cloudbalance_NewCollector P ns load =
     bind_go (register_descs [cloudbalance_desc P ns] (NewBaseCollector ''cloudbalance'' [WithWaitReadyOnCollect True]))
       (\<lambda>b. Ret (\<lparr>cb_config = fst (load cloudbalance_NewDefaultConfig), cb_balances = Map.empty,
          cb_gauge = cloudbalance_desc P ns\<rparr>, b))"

definition cloudbalance_HasSynced :: "cloudbalance \<Rightarrow> bool" where
  "cloudbalance_HasSynced c = True"

definition cloudbalance_Interval :: "cloudbalance \<Rightarrow> int" where
  "cloudbalance_Interval c = cbc_CheckInterval (cb_config c)"

text \<open>The answers of the three SDKs. An absent string or truth value of Alibaba's answer reads as empty or false; the
  answer of Tencent is in hundredths, and its error may be one of the SDK.\<close>

record ali_answer =
  al_Success :: "bool option"
  al_Code :: "string option"
  al_Message :: "string option"
  al_RequestId :: "string option"
  al_AvailableAmount :: "string option"

record cloud_sdk =
  sd_ali_client :: "account_config \<Rightarrow> err option"
  sd_ali_query :: "account_config \<Rightarrow> err + ali_answer"
  sd_volc_session :: "account_config \<Rightarrow> err option"
  sd_volc_query :: "account_config \<Rightarrow> err + string option"
  sd_tencent_client :: "account_config \<Rightarrow> err option"
  sd_tencent_query :: "account_config \<Rightarrow> (bool \<times> err) + float64 option"
  sd_format2 :: "float64 \<Rightarrow> string"
  sd_scan :: "string \<Rightarrow> err + float64"

definition string_of_opt :: "string option \<Rightarrow> string" where
  "string_of_opt s = (case s of Some x \<Rightarrow> x | None \<Rightarrow> [])"

definition queryAlibabaCloudBalance :: "cloud_sdk \<Rightarrow> account_config \<Rightarrow> string res" where
  "queryAlibabaCloudBalance S a = (case sd_ali_client S a of
       Some e \<Rightarrow> Inl (''failed to create client: '' @ e)
     | None \<Rightarrow> (case sd_ali_query S a of
          Inl e \<Rightarrow> Inl (''failed to query balance: '' @ e)
        | Inr r \<Rightarrow>
            if al_Success r \<noteq> Some True
            then Inl (''query failed, Code: '' @ string_of_opt (al_Code r) @ '', Message: '' @ string_of_opt (al_Message r)
              @ '', RequestId: '' @ string_of_opt (al_RequestId r))
            else case al_AvailableAmount r of None \<Rightarrow> Inl ''no balance data in response'' | Some b \<Rightarrow> Inr b))"

definition queryVolcEngineBalance :: "cloud_sdk \<Rightarrow> account_config \<Rightarrow> string res" where
  "queryVolcEngineBalance S a = (case sd_volc_session S a of
       Some e \<Rightarrow> Inl (''failed to create session: '' @ e)
     | None \<Rightarrow> (case sd_volc_query S a of
          Inl e \<Rightarrow> Inl (''failed to query balance: '' @ e)
        | Inr None \<Rightarrow> Inl ''no balance data in response''
        | Inr (Some b) \<Rightarrow> Inr b))"

definition queryTencentCloudBalance :: "cloud_sdk \<Rightarrow> account_config \<Rightarrow> string res" where
  "queryTencentCloudBalance S a = (case sd_tencent_client S a of
       Some e \<Rightarrow> Inl (''failed to create client: '' @ e)
     | None \<Rightarrow> (case sd_tencent_query S a of
          Inl (sdk, e) \<Rightarrow> Inl ((if sdk then ''API error: '' else ''failed to query balance: '') @ e)
        | Inr None \<Rightarrow> Inl ''no balance data in response''
        | Inr (Some b) \<Rightarrow> Inr (sd_format2 S (scale_float (1 / 100) b))))"

text \<open>Commas are dropped before the number is read.\<close>

definition parseBalance :: "cloud_sdk \<Rightarrow> string \<Rightarrow> float64 res" where
  "parseBalance S b = sd_scan S (filter (\<lambda>c. c \<noteq> CHR '','') b)"

definition cloud_QueryBalance :: "cloud_sdk \<Rightarrow> account_config \<Rightarrow> float64 res" where
  "cloud_QueryBalance S a =
     (let r = (if ac_Provider a = ''alicloud'' then queryAlibabaCloudBalance S a
        else if ac_Provider a = ''volcengine'' then queryVolcEngineBalance S a
        else if ac_Provider a = ''tencentcloud'' then queryTencentCloudBalance S a
        else Inl (''unsupported provider: '' @ ac_Provider a))
      in case r of Inl e \<Rightarrow> Inl e | Inr b \<Rightarrow> parseBalance S b)"

definition account_key :: "account_config \<Rightarrow> string" where
  "account_key a = ac_Provider a @ '':'' @ ac_AccountID a"

text \<open>\<open>dn\<close> tells whether the context is done before the turn of an account, and \<open>S\<close> the answers at that turn.\<close>

fun query_accounts :: "(nat \<Rightarrow> bool) \<Rightarrow> (nat \<Rightarrow> cloud_sdk) \<Rightarrow> nat \<Rightarrow> account_config list
    \<Rightarrow> (string \<Rightarrow> float64 option) \<Rightarrow> (string \<Rightarrow> float64 option) option" where
  "query_accounts dn S i [] m = Some m"
| "query_accounts dn S i (a # as') m =
     (if dn i then None
      else case cloud_QueryBalance (S i) a of
        Inl e \<Rightarrow> query_accounts dn S (Suc i) as' m
      | Inr b \<Rightarrow> query_accounts dn S (Suc i) as' (m(account_key a \<mapsto> b)))"

definition cloudbalance_Poll :: "(nat \<Rightarrow> bool) \<Rightarrow> err \<Rightarrow> (nat \<Rightarrow> cloud_sdk) \<Rightarrow> cloudbalance \<Rightarrow> cloudbalance \<times> err option" where
  "cloudbalance_Poll dn ctx_err S c =
     (if cbc_Accounts (cb_config c) = [] then (c, None)
      else case query_accounts dn S 0 (cbc_Accounts (cb_config c)) Map.empty of
        None \<Rightarrow> (c, Some ctx_err)
      | Some m \<Rightarrow> (c\<lparr>cb_balances := m\<rparr>, None))"

definition cloudbalance_poll_next :: "(((nat \<Rightarrow> bool) \<times> err \<times> (nat \<Rightarrow> cloud_sdk)) \<times> int) list \<times> cloudbalance
    \<Rightarrow> err option \<times> int \<times> (((nat \<Rightarrow> bool) \<times> err \<times> (nat \<Rightarrow> cloud_sdk)) \<times> int) list \<times> cloudbalance" where
  "cloudbalance_poll_next s = (case s of ([], c) \<Rightarrow> (None, 0, [], c)
     | (((dn, x, S), d) # rest, c) \<Rightarrow> (case cloudbalance_Poll dn x S c of (c', e) \<Rightarrow> (e, d, rest, c')))"

definition cloudbalance_pollLoop :: "base \<Rightarrow> (((nat \<Rightarrow> bool) \<times> err \<times> (nat \<Rightarrow> cloud_sdk)) \<times> int) list \<times> cloudbalance
    \<Rightarrow> loop_event list
    \<Rightarrow> (base \<times> poll_log list \<times> (((nat \<Rightarrow> bool) \<times> err \<times> (nat \<Rightarrow> cloud_sdk)) \<times> int) list \<times> cloudbalance) go" where
  "cloudbalance_pollLoop b s es = RunPollLoop cloudbalance_poll_next
     \<lparr>po_Interval = cbc_CheckInterval (cb_config (snd s)), po_Operation = ''cloudbalance'', po_SlowThreshold = 0,
      po_SuccessInfoLog = False\<rparr> b s es"

definition account_rows :: "cloudbalance \<Rightarrow> account_config \<Rightarrow> row list" where
  "account_rows c a = (case cb_balances c (account_key a) of
       None \<Rightarrow> [] | Some b \<Rightarrow> [(cb_gauge c, b, [ac_Provider a, ac_AccountID a])])"

definition cloudbalance_collect :: "prom \<Rightarrow> cloudbalance \<Rightarrow> pmetric list \<times> string option" where
  "cloudbalance_collect P c =
     emit (map (\<lambda>(d, v, ls). const_metric P d v ls) (concat (map (account_rows c) (cbc_Accounts (cb_config c)))))"

section \<open>A poll of users\<close>

definition userbalance_inv :: "userbalance \<Rightarrow> bool" where
  "userbalance_inv c \<longleftrightarrow> (\<forall>k s. ub_balances c k = Some s \<longrightarrow>
     sample_key s = k \<and> (sa_EmitQuota s \<longleftrightarrow> sa_Source s = ''configured''))"

lemma configured_samples_are:
  "configured_samples c w i us = Some xs \<Longrightarrow> s \<in> set xs \<Longrightarrow>
     \<exists>u \<in> set us. \<exists>bal. s = configured_sample u bal"
proof (induction us arbitrary: i xs)
  case (Cons u us)
  show ?case
  proof (cases "user_QueryBalance c (uw_balance w i)")
    case (Inl e)
    then show ?thesis using Cons.IH [of "Suc i" xs] Cons.prems by (auto split: if_splits)
  next
    case (Inr bal)
    then obtain ys where "configured_samples c w (Suc i) us = Some ys" "xs = configured_sample u bal # ys"
      using Cons.prems by (auto split: if_splits)
    then show ?thesis using Cons.IH [of "Suc i" ys] Cons.prems by auto
  qed
qed simp

lemma positive_samples_are:
  "QueryPositiveBalances c answer = Inr samples \<Longrightarrow> s \<in> set samples \<Longrightarrow> \<exists>r. s = positive_sample r"
  by (auto simp: QueryPositiveBalances_def split: if_splits sum.splits option.splits)

lemma local_samples_are:
  "s \<in> set (local_samples c w samples) \<Longrightarrow> \<exists>t \<in> set samples. sa_EmitQuota s = sa_EmitQuota t"
  by (auto simp: local_samples_def regional_samples_def split: if_splits sum.splits)

lemma identity_keys_discovered [simp]:
  "userIdentityKeys (normalizeUserLabels u) = userIdentityKeys u"
  by (simp add: userIdentityKeys_def normalizeUserLabels_def Let_def)

lemma discovered_samples_are:
  "s \<in> set (discovered_samples K samples) \<Longrightarrow> \<exists>t \<in> set samples. s = discovered_sample t \<and>
     set (userIdentityKeys (sa_User s)) \<inter> K = {}"
  by (auto simp: discovered_samples_def userConfigured_def list_ex_iff discovered_sample_def)

text \<open>A poll that fails leaves the collector as it was; one that succeeds over some users replaces the map.\<close>

lemma userbalance_Poll_cases:
  assumes "userbalance_Poll w c = (c', e)"
  shows "(e \<noteq> None \<longrightarrow> c' = c) \<and>
    (e = None \<longrightarrow> c' = c \<and> uc_Users (ub_config c) = [] \<and> \<not> uc_PositiveBalanceUsers (ub_config c) \<or>
      (\<exists>xs ys. configured_samples c w 0 (uc_Users (ub_config c)) = Some xs
        \<and> (ys = [] \<or> (\<exists>samples. uc_PositiveBalanceUsers (ub_config c) \<and> QueryPositiveBalances c (uw_positive w) = Inr samples
              \<and> ys = discovered_samples (identities xs) (local_samples c w samples)))
        \<and> c' = c\<lparr>ub_balances := store_by sample_key (xs @ ys) Map.empty\<rparr>))"
  using assms unfolding userbalance_Poll_def store_by_append
  by (auto simp: Let_def store_by_def split: if_splits option.splits sum.splits)

lemma sample_kinds:
  "configured_samples c w i us = Some xs \<Longrightarrow> s \<in> set xs \<Longrightarrow> sa_EmitQuota s \<and> sa_Source s = ''configured''"
  "QueryPositiveBalances c answer = Inr samples \<Longrightarrow> s \<in> set (discovered_samples K (local_samples c w samples)) \<Longrightarrow>
     \<not> sa_EmitQuota s \<and> sa_Source s = ''discovered''"
proof -
  show "sa_EmitQuota s \<and> sa_Source s = ''configured''"
    if xs: "configured_samples c w i us = Some xs" "s \<in> set xs"
    using configured_samples_are [OF xs] by (auto simp: configured_sample_def)
  show "\<not> sa_EmitQuota s \<and> sa_Source s = ''discovered''"
    if q: "QueryPositiveBalances c answer = Inr samples" and m: "s \<in> set (discovered_samples K (local_samples c w samples))"
  proof -
    obtain t where t: "t \<in> set (local_samples c w samples)" "s = discovered_sample t"
      using discovered_samples_are [OF m] by blast
    obtain u where u: "u \<in> set samples" "sa_EmitQuota t = sa_EmitQuota u" using local_samples_are [OF t(1)] by blast
    then have "\<not> sa_EmitQuota t" using positive_samples_are [OF q u(1)] by (auto simp: positive_sample_def)
    then show ?thesis by (simp add: t(2) discovered_sample_def)
  qed
qed

text \<open>What a poll should know, said without its loops: the samples of the configured users whose query gives a balance, in
  the order of the configuration, and the users that the discovery finds, with a local database once for each owner that
  it knows for them.\<close>

definition balances_read :: "userbalance \<Rightarrow> user_world \<Rightarrow> balance_sample list" where
  "balances_read c w = concat (map (\<lambda>i. case user_QueryBalance c (uw_balance w i) of
       Inl e \<Rightarrow> [] | Inr bal \<Rightarrow> [configured_sample (uc_Users (ub_config c) ! i) bal]) [0..<length (uc_Users (ub_config c))])"

definition found_user :: "userbalance \<Rightarrow> user_world \<Rightarrow> balance_sample \<Rightarrow> bool" where
  "found_user c w t \<longleftrightarrow> uc_PositiveBalanceUsers (ub_config c) \<and>
     (\<exists>samples. QueryPositiveBalances c (uw_positive w) = Inr samples \<and>
       (if uc_LocalDSN (ub_config c) = [] then t \<in> set samples
        else ub_localPgClient c \<and> (\<exists>owners s ow. QueryOwners c (sampleUUIDs samples) (uw_owners w) = Inr owners \<and>
          s \<in> set samples \<and> ow \<in> set (owners (us_UUID (sa_User s))) \<and> ow \<noteq> [] \<and>
          t = s\<lparr>sa_User := (sa_User s)\<lparr>us_Owner := ow\<rparr>\<rparr>)))"

definition newly_found :: "userbalance \<Rightarrow> user_world \<Rightarrow> balance_sample \<Rightarrow> bool" where
  "newly_found c w s \<longleftrightarrow> (\<exists>t. found_user c w t \<and>
     (\<forall>x \<in> set (balances_read c w). set (userIdentityKeys (sa_User t)) \<inter> set (userIdentityKeys (sa_User x)) = {}) \<and>
     s = t\<lparr>sa_User := normalizeUserLabels (sa_User t), sa_Source := ''discovered''\<rparr>)"

lemma configured_samples_read:
  "configured_samples c w n us = (if \<exists>i < length us. uw_done w (n + i) then None
     else Some (concat (map (\<lambda>i. case user_QueryBalance c (uw_balance w (n + i)) of
       Inl e \<Rightarrow> [] | Inr bal \<Rightarrow> [configured_sample (us ! i) bal]) [0..<length us])))"
proof (induction us arbitrary: n)
  case (Cons u us)
  have split: "(\<exists>i < length (u # us). uw_done w (n + i)) \<longleftrightarrow> uw_done w n \<or> (\<exists>i < length us. uw_done w (Suc n + i))"
    using Ex_less_Suc2 [of "length us" "\<lambda>i. uw_done w (n + i)"] by simp
  have upt: "[0..<length (u # us)] = 0 # map Suc [0..<length us]" by (simp add: map_Suc_upt upt_conv_Cons del: upt_Suc)
  show ?case unfolding split upt configured_samples.simps(2) Cons.IH list.map map_map comp_def nth_Cons_Suc nth_Cons_0
    by (simp split: sum.split)
qed simp

lemma configured_samples_all:
  "configured_samples c w 0 (uc_Users (ub_config c)) =
     (if \<exists>i < length (uc_Users (ub_config c)). uw_done w i then None else Some (balances_read c w))"
  by (simp add: configured_samples_read balances_read_def)

lemma regional_samples_mem:
  "t \<in> set (regional_samples owners samples) \<longleftrightarrow> (\<exists>s ow. s \<in> set samples \<and> ow \<in> set (owners (us_UUID (sa_User s))) \<and>
     ow \<noteq> [] \<and> t = s\<lparr>sa_User := (sa_User s)\<lparr>us_Owner := ow\<rparr>\<rparr>)"
  by (simp add: regional_samples_def image_iff) blast

lemma discovered_samples_found:
  assumes "QueryPositiveBalances c (uw_positive w) = Inr samples" "uc_PositiveBalanceUsers (ub_config c)"
  shows "s \<in> set (discovered_samples (identities (balances_read c w)) (local_samples c w samples)) \<longleftrightarrow> newly_found c w s"
proof -
  have "t \<in> set (local_samples c w samples) \<longleftrightarrow> found_user c w t" for t
    using assms by (cases "QueryOwners c (sampleUUIDs samples) (uw_owners w)")
      (auto simp: local_samples_def found_user_def regional_samples_mem sampleUUIDs_def)
  then show ?thesis
    by (auto simp: discovered_samples_def newly_found_def userConfigured_def list_ex_iff identities_def discovered_sample_def)
qed

text \<open>C35. A poll whose context ends before the turn of a configured user, and one without configured users whose discovery
  fails, returns the error and keeps the balances of the last poll; without users and discovery nothing happens. Every
  other poll succeeds and replaces the map: it has exactly the configured users whose query gave a balance and the
  discovered ones that share no identifier with any of these, each under its key, and of the configured users of a key
  the last. When the discovery is off, fails or cannot name the owners, there are no discovered ones.\<close>

theorem configured_users_come_first:
  assumes "userbalance_Poll w c = (c', e)" "users = uc_Users (ub_config c)" "discover = uc_PositiveBalanceUsers (ub_config c)"
  shows "(users = [] \<and> \<not> discover \<longrightarrow> c' = c \<and> e = None)
    \<and> ((\<exists>i < length users. uw_done w i) \<longrightarrow> c' = c \<and> e = Some (uw_ctx_err w))
    \<and> (\<forall>x. users = [] \<and> discover \<and> QueryPositiveBalances c (uw_positive w) = Inl x \<longrightarrow> c' = c \<and> e = Some x)
    \<and> ((\<forall>i < length users. \<not> uw_done w i) \<and> (users \<noteq> [] \<or> discover \<and> (\<exists>ss. QueryPositiveBalances c (uw_positive w) = Inr ss)) \<longrightarrow>
        e = None \<and> c' = c\<lparr>ub_balances := ub_balances c'\<rparr>
        \<and> dom (ub_balances c') = sample_key ` (set (balances_read c w) \<union> {s. newly_found c w s})
        \<and> (\<forall>k s. ub_balances c' k = Some s \<longrightarrow> sample_key s = k \<and>
             (newly_found c w s \<or> s \<in> set (balances_read c w) \<and> s = last (filter (\<lambda>x. sample_key x = k) (balances_read c w)))))"
proof -
  let ?xs = "balances_read c w"
  let ?d = "{s. newly_found c w s}"
  have none: "?d = {}" if "\<not> (discover \<and> (\<exists>ss. QueryPositiveBalances c (uw_positive w) = Inr ss))"
    using that assms(3) by (auto simp: newly_found_def found_user_def)
  note poll = assms(1) [unfolded userbalance_Poll_def configured_samples_all, folded assms(2,3)]
  have ok: "e = None \<and> c' = c\<lparr>ub_balances := ub_balances c'\<rparr> \<and> (\<exists>ys. set ys = ?d \<and> ub_balances c' = store_by sample_key (?xs @ ys) Map.empty)"
    if a: "\<forall>i < length users. \<not> uw_done w i" "users \<noteq> [] \<or> discover \<and> (\<exists>ss. QueryPositiveBalances c (uw_positive w) = Inr ss)"
  proof (cases "discover \<and> (\<exists>ss. QueryPositiveBalances c (uw_positive w) = Inr ss)")
    case True
    have no: "(\<exists>i < length users. uw_done w i) = False" using a(1) by blast
    from True obtain ss where ss: "QueryPositiveBalances c (uw_positive w) = Inr ss" by blast
    let ?ys = "discovered_samples (identities ?xs) (local_samples c w ss)"
    have "set ?ys = ?d" using discovered_samples_found [OF ss] True assms(3) by blast
    then show ?thesis using poll True ss unfolding no by (auto simp: Let_def store_by_append intro!: exI [of _ ?ys])
  next
    case False
    have no: "(\<exists>i < length users. uw_done w i) = False" using a(1) by blast
    from False have "e = None \<and> c' = c\<lparr>ub_balances := store_by sample_key ?xs Map.empty\<rparr>"
      using poll a(2) unfolding no by (auto simp: Let_def split: sum.splits if_splits)
    then show ?thesis using none [OF False] by (auto intro!: exI [of _ "[]"])
  qed
  have entry: "sample_key s = k \<and> (newly_found c w s \<or> s \<in> set ?xs \<and> s = last (filter (\<lambda>x. sample_key x = k) ?xs))"
    if st: "set ys = ?d" "store_by sample_key (?xs @ ys) Map.empty k = Some s" for ys k s
  proof -
    have s: "s \<in> set (?xs @ ys)" "sample_key s = k" "s = last (filter (\<lambda>x. sample_key x = k) (?xs @ ys))"
      using store_by_Some [OF st(2)] st(2) by (simp_all add: store_by_lookup split: if_splits)
    show ?thesis
    proof (cases "filter (\<lambda>x. sample_key x = k) ys = []")
      case True
      then have "s \<notin> set ys" using s(2) by (auto simp: filter_empty_conv)
      then show ?thesis using s True by simp
    next
      case False
      then have "s \<in> set (filter (\<lambda>x. sample_key x = k) ys)" using s(3) by (simp add: last_append del: set_filter)
      then show ?thesis using s(2) st(1) by auto
    qed
  qed
  have new: "dom (ub_balances c') = sample_key ` (set ?xs \<union> ?d) \<and> (\<forall>k s. ub_balances c' k = Some s \<longrightarrow> sample_key s = k \<and>
      (newly_found c w s \<or> s \<in> set ?xs \<and> s = last (filter (\<lambda>x. sample_key x = k) ?xs)))"
    if stored: "\<exists>ys. set ys = ?d \<and> ub_balances c' = store_by sample_key (?xs @ ys) Map.empty"
  proof -
    obtain ys where ys: "set ys = ?d" "ub_balances c' = store_by sample_key (?xs @ ys) Map.empty" using stored by blast
    have "dom (ub_balances c') = sample_key ` (set ?xs \<union> ?d)" unfolding ys(2) store_by_dom set_append ys(1) ..
    then show ?thesis using entry [OF ys(1)] ys(2) by simp
  qed
  have "users = [] \<and> \<not> discover \<longrightarrow> c' = c \<and> e = None"
    "(\<exists>i < length users. uw_done w i) \<longrightarrow> c' = c \<and> e = Some (uw_ctx_err w)"
    "\<forall>x. users = [] \<and> discover \<and> QueryPositiveBalances c (uw_positive w) = Inl x \<longrightarrow> c' = c \<and> e = Some x"
    using poll by (auto simp: Let_def split: if_splits)
  then show ?thesis using ok new by blast
qed

lemma userbalance_inv_Poll:
  assumes "userbalance_inv c" "userbalance_Poll w c = (c', e)"
  shows "userbalance_inv c' \<and> ub_gauge c' = ub_gauge c"
proof (cases e)
  case (Some x)
  then show ?thesis using userbalance_Poll_cases [OF assms(2)] assms(1) by simp
next
  case None
  then consider "c' = c" | xs ys where "configured_samples c w 0 (uc_Users (ub_config c)) = Some xs"
      "ys = [] \<or> (\<exists>samples. QueryPositiveBalances c (uw_positive w) = Inr samples
         \<and> ys = discovered_samples (identities xs) (local_samples c w samples))"
      "c' = c\<lparr>ub_balances := store_by sample_key (xs @ ys) Map.empty\<rparr>"
    using userbalance_Poll_cases [OF assms(2)] by blast
  then show ?thesis
  proof cases
    case 1
    then show ?thesis using assms(1) by simp
  next
    case 2
    have "sa_EmitQuota s \<longleftrightarrow> sa_Source s = ''configured''" if "s \<in> set (xs @ ys)" for s
      using that sample_kinds(1) [OF 2(1), of s] 2(2) sample_kinds(2) [of c "uw_positive w" _ s "identities xs" w] by force
    then show ?thesis using store_by_Some [of sample_key "xs @ ys"] by (auto simp: userbalance_inv_def 2(3))
  qed
qed

section \<open>Scrapes\<close>

definition untyped :: "balance_sample \<Rightarrow> string list" where
  "untyped s = (let u = sa_User s in [us_Region u, us_UUID u, us_UID u, us_Owner u, us_Level u])"

text \<open>A sample of a configured user is sent a second time with the type \<open>quota\<close>. That clashes with a user
  of this type, and with the second sample of a user that differs in the type only.\<close>

definition quota_clash :: "(string \<Rightarrow> balance_sample option) \<Rightarrow> bool" where
  "quota_clash m \<longleftrightarrow> (\<exists>k s. m k = Some s \<and> sa_EmitQuota s \<and> (us_Type (sa_User s) = ''quota''
     \<or> (\<exists>k' s'. m k' = Some s' \<and> sa_EmitQuota s' \<and> k \<noteq> k' \<and> untyped s = untyped s')))"

definition balance_key :: "desc \<Rightarrow> balance_sample \<Rightarrow> string \<times> string list" where
  "balance_key D s = (d_fqName D, user_labels (sa_User s) (sa_Source s))"

definition quota_key :: "desc \<Rightarrow> balance_sample \<Rightarrow> string \<times> string list" where
  "quota_key D s = (d_fqName D, user_labels ((sa_User s)\<lparr>us_Type := ''quota''\<rparr>) (sa_Source s))"

lemma sample_rows_keys:
  "map row_key (sample_rows D s) = balance_key D s # (if sa_EmitQuota s then [quota_key D s] else [])"
  by (simp add: sample_rows_def row_key_def balance_key_def quota_key_def)

lemma balance_key_eq: "balance_key D s = balance_key D t \<Longrightarrow> sample_key s = sample_key t"
  by (simp add: balance_key_def user_labels_def sample_key_def userKey_def)

lemma quota_key_eq:
  "quota_key D s = quota_key D t \<longleftrightarrow> untyped s = untyped t \<and> sa_Source s = sa_Source t"
  "quota_key D s = balance_key D t \<longleftrightarrow>
     untyped s = untyped t \<and> sa_Source s = sa_Source t \<and> us_Type (sa_User t) = ''quota''"
  by (auto simp: quota_key_def balance_key_def user_labels_def untyped_def Let_def)

text \<open>After any polls a scrape of the user balances sends the samples of all entries without a panic. No series
  comes twice exactly when no configured user has the type \<open>quota\<close> and no two differ in their type only;
  otherwise the client library refuses the whole scrape.\<close>

theorem user_scrape_clashes:
  assumes "userbalance_inv c" "usable P (ub_gauge c)" "length (d_labels (ub_gauge c)) = 7"
    "entries_of es (ub_balances c)"
  shows "userbalance_collect P c es = (map row_sample (concat (map (\<lambda>x. sample_rows (ub_gauge c) (snd x)) es)), None)
    \<and> (no_duplicates (fst (userbalance_collect P c es)) \<longleftrightarrow> \<not> quota_clash (ub_balances c))"
proof -
  let ?D = "ub_gauge c"
  let ?rows = "concat (map (\<lambda>x. sample_rows ?D (snd x)) es)"
  let ?keys = "\<lambda>x. map row_key (sample_rows ?D (snd x))"
  note m = entries_of_mem [OF assms(4)]
  have inv: "sample_key s = k" "sa_EmitQuota s \<longleftrightarrow> sa_Source s = ''configured''" if "(k, s) \<in> set es" for k s
    using that assms(1) by (auto simp: m userbalance_inv_def)
  have "usable P d \<and> length ls = length (d_labels d)" if "(d, v, ls) \<in> set ?rows" for d v ls
    using that assms(2,3) by (auto simp: sample_rows_def user_labels_def split: if_splits)
  from emit_const [of ?rows P, OF this]
  have e: "userbalance_collect P c es = (map row_sample ?rows, None)" by (simp add: userbalance_collect_def)
  have d: "distinct es" "distinct (map fst es)" using assms(4) by (simp_all add: entries_of_def distinct_map)
  have same: "x = y" if "x \<in> set es" "y \<in> set es" "balance_key ?D (snd x) = balance_key ?D (snd y)" for x y
  proof -
    have "fst x = fst y" using balance_key_eq [OF that(3)] inv(1) [of "fst x" "snd x"] inv(1) [of "fst y" "snd y"] that by simp
    then show ?thesis using that d(2) by (metis eq_key_imp_eq_value prod.collapse)
  qed
  have "inj_on ?keys (set es)" using same by (auto simp: inj_on_def sample_rows_keys)
  then have dk: "distinct (map ?keys es)" using d(1) by (simp add: distinct_map)
  have rem: "removeAll [] (map ?keys es) = map ?keys es"
    by (rule removeAll_id) (auto simp: sample_rows_keys)
  have eq: "map row_key ?rows = concat (map ?keys es)" by (simp add: map_concat comp_def)
  have "distinct (concat (map ?keys es)) \<longleftrightarrow> (\<forall>ks \<in> set (map ?keys es). distinct ks) \<and>
      (\<forall>ks \<in> set (map ?keys es). \<forall>ls \<in> set (map ?keys es). ks \<noteq> ls \<longrightarrow> set ks \<inter> set ls = {})"
    using distinct_concat_iff [of "map ?keys es"] unfolding rem using dk by blast
  then have "distinct (map row_key ?rows) \<longleftrightarrow> (\<forall>x \<in> set es. distinct (?keys x)) \<and>
      (\<forall>x \<in> set es. \<forall>y \<in> set es. ?keys x \<noteq> ?keys y \<longrightarrow> set (?keys x) \<inter> set (?keys y) = {})"
    by (simp only: eq set_map [of ?keys es] ball_simps(9))
  also have "\<dots> \<longleftrightarrow> \<not> quota_clash (ub_balances c)"
  proof
    assume l: "(\<forall>x \<in> set es. distinct (?keys x)) \<and>
      (\<forall>x \<in> set es. \<forall>y \<in> set es. ?keys x \<noteq> ?keys y \<longrightarrow> set (?keys x) \<inter> set (?keys y) = {})"
    show "\<not> quota_clash (ub_balances c)"
    proof
      assume "quota_clash (ub_balances c)"
      then obtain k s where s: "(k, s) \<in> set es" "sa_EmitQuota s"
        "us_Type (sa_User s) = ''quota'' \<or> (\<exists>k' s'. (k', s') \<in> set es \<and> sa_EmitQuota s' \<and> k \<noteq> k' \<and> untyped s = untyped s')"
        unfolding quota_clash_def m [symmetric] by blast
      have "distinct (?keys (k, s))" using l s(1) by blast
      then have "us_Type (sa_User s) \<noteq> ''quota''" using s(2) quota_key_eq(2) [of ?D s s] by (auto simp: sample_rows_keys)
      then obtain k' s' where t: "(k', s') \<in> set es" "sa_EmitQuota s'" "k \<noteq> k'" "untyped s = untyped s'" using s(3) by blast
      then have "quota_key ?D s = quota_key ?D s'" using inv(2) [OF s(1)] inv(2) [OF t(1)] s(2) by (simp add: quota_key_eq)
      then have "quota_key ?D s \<in> set (?keys (k, s)) \<inter> set (?keys (k', s'))" using s(2) t(2) by (simp add: sample_rows_keys)
      moreover have "?keys (k, s) \<noteq> ?keys (k', s')"
        using same [of "(k, s)" "(k', s')"] s(1) t(1,3) by (auto simp: sample_rows_keys)
      ultimately show False using l s(1) t(1) by blast
    qed
  next
    assume n: "\<not> quota_clash (ub_balances c)"
    have type: "us_Type (sa_User s) \<noteq> ''quota''" if "(k, s) \<in> set es" "sa_EmitQuota s" for k s
      using n that unfolding quota_clash_def m [symmetric] by blast
    have "distinct (?keys x)" if "x \<in> set es" for x
      using type [of "fst x" "snd x"] that quota_key_eq(2) [of ?D "snd x" "snd x"] by (auto simp: sample_rows_keys)
    moreover have "set (?keys x) \<inter> set (?keys y) = {}" if xy: "x \<in> set es" "y \<in> set es" "?keys x \<noteq> ?keys y" for x y
    proof -
      have ne: "balance_key ?D (snd x) \<noteq> balance_key ?D (snd y)" "fst x \<noteq> fst y"
      proof -
        have "x \<noteq> y" using xy(3) by blast
        then show "balance_key ?D (snd x) \<noteq> balance_key ?D (snd y)" using same [OF xy(1,2)] by blast
        show "fst x \<noteq> fst y" using \<open>x \<noteq> y\<close> xy(1,2) d(2) by (metis eq_key_imp_eq_value prod.collapse)
      qed
      have cross: "quota_key ?D s \<noteq> balance_key ?D t" if "(k, s) \<in> set es" "sa_EmitQuota s" "(l, t) \<in> set es" for k s l t
        using type [of l t] that inv(2) [OF that(1)] inv(2) [OF that(3)] by (auto simp: quota_key_eq)
      have "quota_key ?D (snd x) \<noteq> quota_key ?D (snd y)" if "sa_EmitQuota (snd x)" "sa_EmitQuota (snd y)"
        using n that ne(2) xy(1,2) unfolding quota_clash_def m [symmetric] quota_key_eq by (metis prod.collapse)
      then show ?thesis
        using ne(1) cross [of "fst x" "snd x" "fst y" "snd y"] cross [of "fst y" "snd y" "fst x" "snd x"] xy(1,2)
        by (auto simp: sample_rows_keys)
    qed
    ultimately show "(\<forall>x \<in> set es. distinct (?keys x)) \<and>
      (\<forall>x \<in> set es. \<forall>y \<in> set es. ?keys x \<noteq> ?keys y \<longrightarrow> set (?keys x) \<inter> set (?keys y) = {})" by blast
  qed
  finally show ?thesis unfolding e by (simp add: no_duplicates_rows)
qed

text \<open>A scrape of the cloud balances sends one sample for each occurrence of an account in the configuration whose
  balance is known. So no series comes twice exactly when no such account is listed twice, which the
  configuration does not ensure.\<close>

theorem cloud_scrape_clashes:
  assumes "usable P (cb_gauge c)" "length (d_labels (cb_gauge c)) = 2"
    "known = filter (\<lambda>a. cb_balances c (account_key a) \<noteq> None) (cbc_Accounts (cb_config c))"
  shows "snd (cloudbalance_collect P c) = None \<and> length (fst (cloudbalance_collect P c)) = length known
    \<and> (no_duplicates (fst (cloudbalance_collect P c)) \<longleftrightarrow> distinct (map (\<lambda>a. (ac_Provider a, ac_AccountID a)) known))"
proof -
  let ?row = "\<lambda>a. (cb_gauge c, the (cb_balances c (account_key a)), [ac_Provider a, ac_AccountID a])"
  have rows: "concat (map (account_rows c) as') =
      map ?row (filter (\<lambda>a. cb_balances c (account_key a) \<noteq> None) as')" for as'
    by (induction as') (auto simp: account_rows_def)
  have u: "usable P d \<and> length ls = length (d_labels d)" if "(d, v, ls) \<in> set (map ?row known)" for d v ls
    using that assms(1,2) by auto
  have e: "cloudbalance_collect P c = (map row_sample (map ?row known), None)"
    unfolding cloudbalance_collect_def rows assms(3) [symmetric] using emit_const [of "map ?row known" P, OF u] by simp
  have k: "map row_key (map ?row known) = map (\<lambda>(p, i). (d_fqName (cb_gauge c), [p, i])) (map (\<lambda>a. (ac_Provider a, ac_AccountID a)) known)"
    by (simp add: row_key_def)
  have "inj_on (\<lambda>(p, i). (d_fqName (cb_gauge c), [p, i])) S" for S :: "(string \<times> string) set" by (auto simp: inj_on_def)
  then have "distinct (map row_key (map ?row known)) \<longleftrightarrow> distinct (map (\<lambda>a. (ac_Provider a, ac_AccountID a)) known)"
    unfolding k distinct_map [of "\<lambda>(p, i). (d_fqName (cb_gauge c), [p, i])"] by simp
  then show ?thesis unfolding e by (simp only: no_duplicates_rows fst_conv snd_conv length_map simp_thms)
qed

section \<open>Runs\<close>

definition demo_ub_user :: "string \<Rightarrow> string \<Rightarrow> user_config" where
  "demo_ub_user uid type = \<lparr>us_Region = [], us_UUID = [], us_UID = uid, us_Owner = [], us_Type = type, us_Level = [],
     us_Quota = Fin 100\<rparr>"

definition demo_userbalance :: "user_config list \<Rightarrow> userbalance" where
  "demo_userbalance us = \<lparr>ub_config = \<lparr>uc_DSN = ''pg'', uc_LocalDSN = [], uc_Users = us,
       uc_CheckInterval = 300 * 10 ^ 9, uc_PositiveBalanceUsers = True\<rparr>,
     ub_pgClient = True, ub_localPgClient = False, ub_balances = Map.empty,
     ub_gauge = userbalance_desc demo_prom ''sealos''\<rparr>"

lemma demo_userbalance_fields [simp]:
  "uc_Users (ub_config (demo_userbalance us)) = us" "uc_PositiveBalanceUsers (ub_config (demo_userbalance us))"
  "uc_LocalDSN (ub_config (demo_userbalance us)) = []" "ub_pgClient (demo_userbalance us)"
  "ub_gauge (demo_userbalance us) = userbalance_desc demo_prom ''sealos''" "ub_balances (demo_userbalance us) = Map.empty"
  by (simp_all add: demo_userbalance_def)

definition demo_positive :: "string \<Rightarrow> positive_row" where
  "demo_positive uid = \<lparr>po_Region = ''r'', po_UUID = ''u-'' @ uid, po_UID = uid, po_Balance = 0, po_Deduction = 0\<rparr>"

definition demo_user_world :: user_world where
  "demo_user_world = \<lparr>uw_ctx_err = ''context canceled'', uw_done = (\<lambda>i. False), uw_balance = (\<lambda>i. Inr (0, 0)),
     uw_positive = Inr \<lparr>pr_rows = [demo_positive ''a'', demo_positive ''b''], pr_scan = None, pr_err = None\<rparr>,
     uw_owners = (\<lambda>us. Inl ''no rows'')\<rparr>"

lemma demo_user_world_fields [simp]:
  "\<not> uw_done demo_user_world i" "uw_balance demo_user_world i = Inr (0, 0)"
  "uw_positive demo_user_world = Inr \<lparr>pr_rows = [demo_positive ''a'', demo_positive ''b''], pr_scan = None, pr_err = None\<rparr>"
  by (simp_all add: demo_user_world_def)

theorem configured_users_come_first_witness:
  "\<exists>c'. userbalance_Poll demo_user_world (demo_userbalance [demo_ub_user ''a'' ''t'']) = (c', None)
     \<and> card (dom (ub_balances c')) = 2"
proof -
  let ?c = "demo_userbalance [demo_ub_user ''a'' ''t'']"
  let ?xs = "[configured_sample (demo_ub_user ''a'' ''t'') (roundBalance 0 0)]"
  let ?qs = "[positive_sample (demo_positive ''a''), positive_sample (demo_positive ''b'')]"
  obtain c' e where p: "userbalance_Poll demo_user_world ?c = (c', e)" by fastforce
  have xs: "balances_read ?c demo_user_world = ?xs" by (simp add: balances_read_def user_QueryBalance_def)
  have qs: "QueryPositiveBalances ?c (uw_positive demo_user_world) = Inr ?qs" by (simp add: QueryPositiveBalances_def)
  have l: "local_samples ?c demo_user_world ?qs = ?qs" by (simp add: local_samples_def)
  have ids: "identities ?xs = {''uid:a''}"
    by (simp add: identities_def configured_sample_def) (simp add: userIdentityKeys_def demo_ub_user_def)
  have ys: "discovered_samples (identities ?xs) ?qs = [discovered_sample (positive_sample (demo_positive ''b''))]"
    by (simp add: ids discovered_samples_def userConfigured_def userIdentityKeys_def positive_sample_def demo_positive_def)
  have new: "{s. newly_found ?c demo_user_world s} = {discovered_sample (positive_sample (demo_positive ''b''))}"
    using discovered_samples_found [OF qs] unfolding xs l ys set_eq_iff by simp
  have "sample_key (discovered_sample (positive_sample (demo_positive ''b''))) = ''r:u-b:b::balance:default''"
    "sample_key (configured_sample (demo_ub_user ''a'' ''t'') (roundBalance 0 0)) = ''default::a::t:default''"
    by (simp_all add: sample_key_def userKey_def discovered_sample_def positive_sample_def demo_positive_def
        configured_sample_def demo_ub_user_def normalizeUserLabels_def Let_def)
  then show ?thesis
    using configured_users_come_first [OF p refl refl] p qs by (simp add: xs new)
qed

definition quota_entry :: balance_sample where
  "quota_entry = configured_sample (demo_ub_user ''a'' ''quota'') (Fin 0)"

theorem user_scrape_clashes_witness:
  "\<not> no_duplicates (fst (userbalance_collect demo_prom
     ((demo_userbalance [])\<lparr>ub_balances := [sample_key quota_entry \<mapsto> quota_entry]\<rparr>) [(sample_key quota_entry, quota_entry)]))"
proof -
  let ?c = "(demo_userbalance [])\<lparr>ub_balances := [sample_key quota_entry \<mapsto> quota_entry]\<rparr>"
  have q: "sa_EmitQuota quota_entry" "sa_Source quota_entry = ''configured''" "us_Type (sa_User quota_entry) = ''quota''"
    by (simp_all add: quota_entry_def configured_sample_def demo_ub_user_def normalizeUserLabels_def Let_def)
  have "userbalance_inv ?c" using q by (simp add: userbalance_inv_def)
  moreover have "usable demo_prom (ub_gauge ?c)" by simp
  moreover have "length (d_labels (ub_gauge ?c)) = 7" by (simp add: userbalance_desc_def)
  moreover have "entries_of [(sample_key quota_entry, quota_entry)] (ub_balances ?c)" by (simp add: entries_of_def)
  moreover have "quota_clash (ub_balances ?c)" using q by (auto simp: quota_clash_def)
  ultimately show ?thesis using user_scrape_clashes [of ?c demo_prom "[(sample_key quota_entry, quota_entry)]"] by blast
qed

definition demo_account :: account_config where
  "demo_account = \<lparr>ac_Provider = ''alicloud'', ac_AccountID = ''1'', ac_AccessKeyID = [], ac_AccessKeySecret = [],
     ac_RegionID = []\<rparr>"

definition demo_cloud :: cloudbalance where
  "demo_cloud = \<lparr>cb_config = \<lparr>cbc_Accounts = [demo_account, demo_account], cbc_CheckInterval = 300 * 10 ^ 9\<rparr>,
     cb_balances = [''alicloud:1'' \<mapsto> Fin 5], cb_gauge = cloudbalance_desc demo_prom ''sealos''\<rparr>"

theorem cloud_scrape_clashes_witness:
  "\<not> no_duplicates (fst (cloudbalance_collect demo_prom demo_cloud))"
proof -
  have "filter (\<lambda>a. cb_balances demo_cloud (account_key a) \<noteq> None) (cbc_Accounts (cb_config demo_cloud))
      = [demo_account, demo_account]"
    by (simp add: demo_cloud_def account_key_def demo_account_def)
  moreover have "usable demo_prom (cb_gauge demo_cloud)" by simp
  moreover have "length (d_labels (cb_gauge demo_cloud)) = 2" by (simp add: demo_cloud_def cloudbalance_desc_def)
  ultimately show ?thesis
    using cloud_scrape_clashes [of demo_prom demo_cloud "[demo_account, demo_account]"] by simp
qed

end
