(* ===== verification/Secret_Cache.thy ===== *)
theory Secret_Cache
  imports Database_Check Base_Collector
begin

text \<open>
  The life of the secret cache of \<open>pkg/collector/database\<close>: \<open>secret_cache.go\<close> without its functions on secrets,
  which are in \<open>Database_Check\<close>, and the poll loop of \<open>database.go\<close> that makes, starts and stops the cache. The
  collector keeps the cache in one field, which every poll loop of the collector shares; a loop is a goroutine that the
  end of its context stops sooner or later, so the loops of two starts can overlap, and their steps interleave.
\<close>

section \<open>The cache\<close>

text \<open>The stop channel is absent, open or closed, as is the function that cancels the context. \<open>ca_started\<close>
  tells that the informers were started; they run until the channel is closed.\<close>

record secret_cache =
  ca_informers :: "DatabaseType list"
  ca_started :: bool
  ca_stopCh :: "bool option"
  ca_cancel :: "bool option"

definition NewSecretCache :: secret_cache where
  "NewSecretCache = \<lparr>ca_informers = [], ca_started = False, ca_stopCh = None, ca_cancel = None\<rparr>"

definition selector_of :: "DatabaseType \<Rightarrow> string" where
  "selector_of ty = (case ty of
       MySQL \<Rightarrow> ''apps.kubeblocks.io/cluster-type=mysql''
     | PostgreSQL \<Rightarrow> ''app.kubernetes.io/name=postgresql''
     | MongoDB \<Rightarrow> ''apps.kubeblocks.io/cluster-type=mongodb''
     | Redis \<Rightarrow> ''apps.kubeblocks.io/cluster-type=redis''
     | OtherType s \<Rightarrow> s)"

text \<open>What goes to the log for each namespace and selector, and the error, of which there is none. Nothing is kept of
  the secrets.\<close>

definition pollSecrets :: "lister \<Rightarrow> DatabaseType list \<Rightarrow> string list \<Rightarrow> (string \<times> (err + nat)) list \<times> err option" where
  "pollSecrets list ord namespaces =
     (concat (map (\<lambda>ns. map (\<lambda>ty. (ns, map_sum id length (list ns ty))) ord) namespaces), None)"

definition startPolling :: "lister \<Rightarrow> DatabaseType list \<Rightarrow> string list \<Rightarrow> secret_cache \<Rightarrow> err option \<times> secret_cache" where
  "startPolling list ord namespaces sc =
     (snd (pollSecrets list ord namespaces), sc\<lparr>ca_stopCh := Some False\<rparr>)"

text \<open>The informers are made one after the other in the order \<open>ord\<close> of the map of selectors; setting the
  transformation or adding the handlers may fail.\<close>

record cache_world =
  cw_list :: lister
  cw_ord :: "DatabaseType list"
  cw_SetTransform :: "DatabaseType \<Rightarrow> err option"
  cw_AddEventHandler :: "DatabaseType \<Rightarrow> err option"

definition type_name :: "DatabaseType \<Rightarrow> string" where
  "type_name ty = (case ty of MySQL \<Rightarrow> ''mysql'' | PostgreSQL \<Rightarrow> ''postgresql'' | MongoDB \<Rightarrow> ''mongodb''
     | Redis \<Rightarrow> ''redis'' | OtherType s \<Rightarrow> s)"

fun make_informers :: "cache_world \<Rightarrow> DatabaseType list \<Rightarrow> secret_cache \<Rightarrow> err option \<times> secret_cache" where
  "make_informers w [] sc = (None, sc)"
| "make_informers w (ty # tys) sc = (case cw_SetTransform w ty of
       Some e \<Rightarrow> (Some (''failed to set transform for '' @ type_name ty @ '' informer: '' @ e), sc)
     | None \<Rightarrow> (case cw_AddEventHandler w ty of
          Some e \<Rightarrow> (Some (''failed to add event handler for '' @ type_name ty @ '': '' @ e), sc)
        | None \<Rightarrow> make_informers w tys (sc\<lparr>ca_informers := ca_informers sc @ [ty]\<rparr>)))"

text \<open>\<open>Start\<close> up to the wait for the informers: it fails, it is done, or it waits.\<close>

datatype cache_start = StartFailed err | StartDone | StartWaits

definition cache_Start :: "cache_world \<Rightarrow> string list \<Rightarrow> secret_cache \<Rightarrow> cache_start \<times> secret_cache" where
  "cache_Start w namespaces sc0 =
     (let sc = sc0\<lparr>ca_cancel := Some False, ca_stopCh := Some False\<rparr> in
      if namespaces \<noteq> [] then
        (case startPolling (cw_list w) (cw_ord w) namespaces sc of
           (None, sc') \<Rightarrow> (StartDone, sc') | (Some e, sc') \<Rightarrow> (StartFailed e, sc'))
      else case make_informers w (cw_ord w) sc of
        (Some e, sc') \<Rightarrow> (StartFailed e, sc')
      | (None, sc') \<Rightarrow> (StartWaits, sc'\<lparr>ca_started := True\<rparr>))"

text \<open>\<open>WaitForCacheSync\<close> ends when all informers have synced, and then \<open>Start\<close> succeeds, or when the stop
  channel is closed, and then it fails.\<close>

definition cache_Stop :: "secret_cache \<Rightarrow> secret_cache go" where
  "cache_Stop sc = (let sc1 = sc\<lparr>ca_cancel := map_option (\<lambda>_. True) (ca_cancel sc)\<rparr> in
     case ca_stopCh sc1 of
       None \<Rightarrow> Ret sc1
     | Some True \<Rightarrow> Panic ''close of closed channel''
     | Some False \<Rightarrow> Ret (sc1\<lparr>ca_stopCh := Some True\<rparr>))"

definition informers_run :: "secret_cache \<Rightarrow> bool" where
  "informers_run sc \<longleftrightarrow> ca_started sc \<and> ca_stopCh sc \<noteq> Some True"

section \<open>The poll loops of a collector\<close>

text \<open>A loop begins, has made its cache, waits for the informers of a cache, polls, or is gone.\<close>

datatype loop_pc = Begun | CacheMade | WaitsFor nat | Polls | Gone

record db_loop =
  lo_done :: bool
  lo_pc :: loop_pc

text \<open>The caches that were made, the field \<open>secretCache\<close>, and the loops, each by its number. \<open>sy_panic\<close>
  tells that a goroutine has panicked, which ends the process.\<close>

record db_sys =
  sy_caches :: "secret_cache list"
  sy_field :: "nat option"
  sy_loops :: "db_loop list"
  sy_panic :: bool

definition db_init :: db_sys where
  "db_init = \<lparr>sy_caches = [], sy_field = None, sy_loops = [], sy_panic = False\<rparr>"

text \<open>The steps: the collector is started, which begins a loop; the context of a loop ends; a loop makes its cache,
  starts the cache in the field, has its informers synced, sees the stop channel closed, or leaves.\<close>

datatype db_step = Spawn | Done nat | MakeCache nat | StartCache nat cache_world | CacheSynced nat | SyncStopped nat | Leave nat

definition set_pc :: "nat \<Rightarrow> loop_pc \<Rightarrow> db_sys \<Rightarrow> db_sys" where
  "set_pc i p s = s\<lparr>sy_loops := (sy_loops s)[i := (sy_loops s ! i)\<lparr>lo_pc := p\<rparr>]\<rparr>"

definition at_pc :: "db_sys \<Rightarrow> nat \<Rightarrow> loop_pc \<Rightarrow> bool" where
  "at_pc s i p \<longleftrightarrow> i < length (sy_loops s) \<and> lo_pc (sy_loops s ! i) = p"

text \<open>A step on a missing cache dereferences a nil pointer. \<open>None\<close> means that the step cannot be taken.\<close>

definition start_cache :: "string list \<Rightarrow> nat \<Rightarrow> cache_world \<Rightarrow> db_sys \<Rightarrow> db_sys" where
  "start_cache namespaces i w s = (case sy_field s of
       None \<Rightarrow> s\<lparr>sy_panic := True\<rparr>
     | Some k \<Rightarrow> (case cache_Start w namespaces (sy_caches s ! k) of
          (StartFailed e, sc) \<Rightarrow> set_pc i Polls (s\<lparr>sy_caches := (sy_caches s)[k := sc], sy_field := None\<rparr>)
        | (StartDone, sc) \<Rightarrow> set_pc i Polls (s\<lparr>sy_caches := (sy_caches s)[k := sc]\<rparr>)
        | (StartWaits, sc) \<Rightarrow> set_pc i (WaitsFor k) (s\<lparr>sy_caches := (sy_caches s)[k := sc]\<rparr>)))"

definition leave_loop :: "nat \<Rightarrow> db_sys \<Rightarrow> db_sys" where
  "leave_loop i s = (case sy_field s of
       None \<Rightarrow> set_pc i Gone s
     | Some k \<Rightarrow> (case cache_Stop (sy_caches s ! k) of
          Panic m \<Rightarrow> s\<lparr>sy_panic := True\<rparr>
        | Ret sc \<Rightarrow> set_pc i Gone (s\<lparr>sy_caches := (sy_caches s)[k := sc]\<rparr>)))"

definition db_exec :: "string list \<Rightarrow> db_step \<Rightarrow> db_sys \<Rightarrow> db_sys option" where
  "db_exec namespaces a s =
     (if sy_panic s then None else case a of
        Spawn \<Rightarrow> Some (s\<lparr>sy_loops := sy_loops s @ [\<lparr>lo_done = False, lo_pc = Begun\<rparr>]\<rparr>)
      | Done i \<Rightarrow> if i < length (sy_loops s)
          then Some (s\<lparr>sy_loops := (sy_loops s)[i := (sy_loops s ! i)\<lparr>lo_done := True\<rparr>]\<rparr>) else None
      | MakeCache i \<Rightarrow> if at_pc s i Begun
          then Some (set_pc i CacheMade
            (s\<lparr>sy_caches := sy_caches s @ [NewSecretCache], sy_field := Some (length (sy_caches s))\<rparr>)) else None
      | StartCache i w \<Rightarrow> if at_pc s i CacheMade then Some (start_cache namespaces i w s) else None
      | CacheSynced i \<Rightarrow> (case (if i < length (sy_loops s) then lo_pc (sy_loops s ! i) else Gone) of
          WaitsFor k \<Rightarrow> Some (if sy_field s = None then s\<lparr>sy_panic := True\<rparr> else set_pc i Polls s)
        | _ \<Rightarrow> None)
      | SyncStopped i \<Rightarrow> (case (if i < length (sy_loops s) then lo_pc (sy_loops s ! i) else Gone) of
          WaitsFor k \<Rightarrow> if informers_run (sy_caches s ! k) then None else Some (set_pc i Polls (s\<lparr>sy_field := None\<rparr>))
        | _ \<Rightarrow> None)
      | Leave i \<Rightarrow> if at_pc s i Polls \<and> lo_done (sy_loops s ! i) then Some (leave_loop i s) else None)"

fun db_run :: "string list \<Rightarrow> db_step list \<Rightarrow> db_sys \<Rightarrow> db_sys option" where
  "db_run ns [] s = Some s"
| "db_run ns (a # as') s = (case db_exec ns a s of None \<Rightarrow> None | Some s' \<Rightarrow> db_run ns as' s')"

section \<open>One loop at a time\<close>

text \<open>A run is calm when the collector is only started again after the loop of the last start has gone.\<close>

definition db_calm_step :: "db_step \<Rightarrow> db_sys \<Rightarrow> bool" where
  "db_calm_step a s \<longleftrightarrow> (a = Spawn \<longrightarrow> list_all (\<lambda>l. lo_pc l = Gone) (sy_loops s))"

fun db_calm_run :: "string list \<Rightarrow> db_step list \<Rightarrow> db_sys \<Rightarrow> bool" where
  "db_calm_run ns [] s \<longleftrightarrow> True"
| "db_calm_run ns (a # as') s \<longleftrightarrow> db_calm_step a s \<and>
     (case db_exec ns a s of None \<Rightarrow> False | Some s' \<Rightarrow> db_calm_run ns as' s')"

text \<open>What holds in a calm run: all loops but the last have gone, and the state of the last one tells in which state
  the cache in the field is; no informers run but those of that cache.\<close>

definition last_pc :: "db_sys \<Rightarrow> loop_pc" where
  "last_pc s = (if sy_loops s = [] then Gone else lo_pc (last (sy_loops s)))"

definition open_cache :: "db_sys \<Rightarrow> nat \<Rightarrow> bool" where
  "open_cache s k \<longleftrightarrow> k < length (sy_caches s) \<and> ca_stopCh (sy_caches s ! k) = Some False"

definition field_ok :: "db_sys \<Rightarrow> bool" where
  "field_ok s \<longleftrightarrow> (case last_pc s of
       CacheMade \<Rightarrow> \<exists>k < length (sy_caches s). sy_field s = Some k \<and> sy_caches s ! k = NewSecretCache
     | WaitsFor k \<Rightarrow> sy_field s = Some k \<and> open_cache s k \<and> ca_started (sy_caches s ! k)
     | Polls \<Rightarrow> \<forall>k. sy_field s = Some k \<longrightarrow> open_cache s k
     | _ \<Rightarrow> True)"

definition no_strays :: "db_sys \<Rightarrow> bool" where
  "no_strays s \<longleftrightarrow> (\<forall>k < length (sy_caches s). informers_run (sy_caches s ! k) \<longrightarrow>
     sy_field s = Some k \<and> (last_pc s = Polls \<or> last_pc s = WaitsFor k))"

definition others_gone :: "db_sys \<Rightarrow> bool" where
  "others_gone s \<longleftrightarrow> list_all (\<lambda>l. lo_pc l = Gone) (butlast (sy_loops s))"

definition db_calm_inv :: "db_sys \<Rightarrow> bool" where
  "db_calm_inv s \<longleftrightarrow> \<not> sy_panic s \<and> others_gone s \<and> no_strays s \<and> field_ok s"

lemma busy: "Begun \<noteq> Gone" "CacheMade \<noteq> Gone" "WaitsFor k \<noteq> Gone" "Polls \<noteq> Gone"
  by simp_all

lemma at_last:
  assumes "others_gone s" "at_pc s i q" "q \<noteq> Gone"
  shows "sy_loops s \<noteq> []" "i = length (sy_loops s) - 1" "last_pc s = q"
proof -
  show ne: "sy_loops s \<noteq> []" using assms(2) by (auto simp: at_pc_def)
  have i: "i < length (sy_loops s)" "lo_pc (sy_loops s ! i) = q" using assms(2) by (simp_all add: at_pc_def)
  show l: "i = length (sy_loops s) - 1"
  proof (rule ccontr)
    assume "i \<noteq> length (sy_loops s) - 1"
    then have "i < length (butlast (sy_loops s))" using i by simp
    then have "lo_pc (butlast (sy_loops s) ! i) = Gone" using assms(1) by (simp add: others_gone_def list_all_length)
    then show False using i assms(3) \<open>i < length (butlast (sy_loops s))\<close> by (simp add: nth_butlast)
  qed
  show "last_pc s = q" using i ne l by (simp add: last_pc_def last_conv_nth)
qed

text \<open>A step of the last loop changes its state only.\<close>

lemma set_pc_last:
  assumes "sy_loops s \<noteq> []" "i = length (sy_loops s) - 1"
  shows "last_pc (set_pc i p s) = p" "others_gone (set_pc i p s) \<longleftrightarrow> others_gone s"
    "sy_caches (set_pc i p s) = sy_caches s" "sy_field (set_pc i p s) = sy_field s" "sy_panic (set_pc i p s) = sy_panic s"
proof -
  obtain gs l where L: "sy_loops s = gs @ [l]" using assms(1) by (metis rev_exhaust)
  then have u: "sy_loops (set_pc i p s) = gs @ [l\<lparr>lo_pc := p\<rparr>]" using assms(2) by (simp add: set_pc_def)
  show "last_pc (set_pc i p s) = p" by (simp add: last_pc_def u)
  show "others_gone (set_pc i p s) \<longleftrightarrow> others_gone s" by (simp add: others_gone_def u L)
qed (simp_all add: set_pc_def)

lemma make_informers_stop: "make_informers w tys sc = (r, sc') \<Longrightarrow> ca_stopCh sc' = ca_stopCh sc \<and> ca_started sc' = ca_started sc"
  by (induction tys arbitrary: sc) (auto split: option.splits)

lemma cache_Start_result:
  assumes "cache_Start w ns sc = (r, sc')" "\<not> ca_started sc"
  shows "ca_stopCh sc' = Some False" "ca_started sc' \<longleftrightarrow> r = StartWaits"
  using assms
  by (auto simp: cache_Start_def startPolling_def pollSecrets_def Let_def split: if_splits prod.splits option.splits
      dest: make_informers_stop)

lemma last_pc_map: "last_pc s = (if map lo_pc (sy_loops s) = [] then Gone else last (map lo_pc (sy_loops s)))"
  by (simp add: last_pc_def last_map)

lemma loops_updated [simp]:
  "last_pc (s\<lparr>sy_caches := cs, sy_field := f\<rparr>) = last_pc s" "others_gone (s\<lparr>sy_caches := cs, sy_field := f\<rparr>) = others_gone s"
  "last_pc (s\<lparr>sy_caches := cs\<rparr>) = last_pc s" "others_gone (s\<lparr>sy_caches := cs\<rparr>) = others_gone s"
  "last_pc (s\<lparr>sy_field := f\<rparr>) = last_pc s" "others_gone (s\<lparr>sy_field := f\<rparr>) = others_gone s"
  by (simp_all add: last_pc_def others_gone_def)

lemma calm_MakeCache:
  assumes "db_calm_inv s" "at_pc s i Begun"
  shows "db_calm_inv (set_pc i CacheMade (s\<lparr>sy_caches := sy_caches s @ [NewSecretCache], sy_field := Some (length (sy_caches s))\<rparr>))"
proof -
  let ?t = "s\<lparr>sy_caches := sy_caches s @ [NewSecretCache], sy_field := Some (length (sy_caches s))\<rparr>"
  have o: "others_gone s" and ns: "no_strays s" and np: "\<not> sy_panic s" using assms(1) by (simp_all add: db_calm_inv_def)
  note l = at_last [OF o assms(2) busy(1)]
  have tl: "sy_loops ?t \<noteq> []" "i = length (sy_loops ?t) - 1" using l(1,2) by simp_all
  note t = set_pc_last [OF tl]
  have "\<not> informers_run (sy_caches s ! k)" if "k < length (sy_caches s)" for k
    using ns that l(3) by (auto simp: no_strays_def)
  moreover have "\<not> informers_run NewSecretCache" by (simp add: informers_run_def NewSecretCache_def)
  ultimately have "no_strays (set_pc i CacheMade ?t)" by (auto simp: no_strays_def t nth_append less_Suc_eq)
  moreover have "field_ok (set_pc i CacheMade ?t)" by (simp add: field_ok_def t)
  ultimately show ?thesis using o np by (simp add: db_calm_inv_def t)
qed

lemma calm_StartCache:
  assumes "db_calm_inv s" "at_pc s i CacheMade"
  shows "db_calm_inv (start_cache ns i w s)"
proof -
  have o: "others_gone s" and st: "no_strays s" and np: "\<not> sy_panic s" and f: "field_ok s"
    using assms(1) by (simp_all add: db_calm_inv_def)
  note l = at_last [OF o assms(2) busy(2)]
  obtain k where k: "k < length (sy_caches s)" "sy_field s = Some k" "sy_caches s ! k = NewSecretCache"
    using f l(3) by (auto simp: field_ok_def)
  obtain r sc where r: "cache_Start w ns (sy_caches s ! k) = (r, sc)" by fastforce
  have "\<not> ca_started (sy_caches s ! k)" by (simp add: k(3) NewSecretCache_def)
  note sc = cache_Start_result [OF r this]
  have idle: "\<not> informers_run (sy_caches s ! j)" if "j < length (sy_caches s)" for j
    using st that l(3) by (auto simp: no_strays_def)
  show ?thesis
  proof (cases r)
    case (StartFailed e)
    let ?t = "s\<lparr>sy_caches := (sy_caches s)[k := sc], sy_field := None\<rparr>"
    have tl: "sy_loops ?t \<noteq> []" "i = length (sy_loops ?t) - 1" using l(1,2) by simp_all
    note t = set_pc_last [OF tl]
    have "no_strays (set_pc i Polls ?t)"
      using idle k(1) sc(2) StartFailed by (auto simp: no_strays_def t nth_list_update informers_run_def)
    then show ?thesis using o np by (simp add: start_cache_def k(2) r StartFailed db_calm_inv_def t field_ok_def)
  next
    case StartDone
    let ?t = "s\<lparr>sy_caches := (sy_caches s)[k := sc]\<rparr>"
    have tl: "sy_loops ?t \<noteq> []" "i = length (sy_loops ?t) - 1" using l(1,2) by simp_all
    note t = set_pc_last [OF tl]
    have "no_strays (set_pc i Polls ?t)"
      using idle k(1) sc(2) StartDone by (auto simp: no_strays_def t nth_list_update informers_run_def)
    then show ?thesis using o np k(1,2) sc(1) by (simp add: start_cache_def r StartDone db_calm_inv_def t field_ok_def open_cache_def)
  next
    case StartWaits
    let ?t = "s\<lparr>sy_caches := (sy_caches s)[k := sc]\<rparr>"
    have tl: "sy_loops ?t \<noteq> []" "i = length (sy_loops ?t) - 1" using l(1,2) by simp_all
    note t = set_pc_last [OF tl]
    have "no_strays (set_pc i (WaitsFor k) ?t)"
      using idle k(1,2) by (auto simp: no_strays_def t nth_list_update)
    then show ?thesis using o np k(1,2) sc StartWaits
      by (simp add: start_cache_def r db_calm_inv_def t field_ok_def open_cache_def)
  qed
qed

lemma calm_Leave:
  assumes "db_calm_inv s" "at_pc s i Polls"
  shows "db_calm_inv (leave_loop i s)"
proof -
  have o: "others_gone s" and st: "no_strays s" and np: "\<not> sy_panic s" and f: "field_ok s"
    using assms(1) by (simp_all add: db_calm_inv_def)
  note l = at_last [OF o assms(2) busy(4)]
  show ?thesis
  proof (cases "sy_field s")
    case None
    note t = set_pc_last [of s i Gone, OF l(1,2)]
    show ?thesis using o np st by (simp add: leave_loop_def None db_calm_inv_def t field_ok_def no_strays_def)
  next
    case (Some k)
    then have k: "k < length (sy_caches s)" "ca_stopCh (sy_caches s ! k) = Some False"
      using f l(3) by (auto simp: field_ok_def open_cache_def)
    let ?sc = "sy_caches s ! k"
    let ?sc' = "?sc\<lparr>ca_cancel := map_option (\<lambda>_. True) (ca_cancel ?sc), ca_stopCh := Some True\<rparr>"
    let ?t = "s\<lparr>sy_caches := (sy_caches s)[k := ?sc']\<rparr>"
    have stop: "cache_Stop ?sc = Ret ?sc'" by (simp add: cache_Stop_def k(2) Let_def)
    have tl: "sy_loops ?t \<noteq> []" "i = length (sy_loops ?t) - 1" using l(1,2) by simp_all
    note t = set_pc_last [OF tl]
    have "\<not> informers_run ((sy_caches s)[k := ?sc'] ! j)" if "j < length (sy_caches s)" for j
    proof (cases "j = k")
      case True
      then show ?thesis using k(1) by (simp add: informers_run_def)
    next
      case False
      then show ?thesis using st that Some by (auto simp: no_strays_def)
    qed
    then show ?thesis using o np by (simp add: leave_loop_def Some stop db_calm_inv_def t field_ok_def no_strays_def)
  qed
qed

lemma calm_exec:
  assumes "db_calm_inv s" "db_calm_step a s" "db_exec ns a s = Some s'"
  shows "db_calm_inv s'"
proof -
  have o: "others_gone s" and st: "no_strays s" and np: "\<not> sy_panic s" and f: "field_ok s"
    using assms(1) by (simp_all add: db_calm_inv_def)
  show ?thesis
  proof (cases a)
    case Spawn
    then have g: "list_all (\<lambda>l. lo_pc l = Gone) (sy_loops s)" using assms(2) by (simp add: db_calm_step_def)
    have "last_pc s = Gone" using g by (auto simp: last_pc_def list_all_iff)
    then show ?thesis using assms(3) g np st Spawn
      by (auto simp: db_exec_def db_calm_inv_def others_gone_def no_strays_def field_ok_def last_pc_def)
  next
    case (Done i)
    then have i: "i < length (sy_loops s)"
        "s' = s\<lparr>sy_loops := (sy_loops s)[i := (sy_loops s ! i)\<lparr>lo_done := True\<rparr>]\<rparr>"
      using assms(3) np by (auto simp: db_exec_def split: if_splits)
    have pcs: "map lo_pc ((sy_loops s)[i := (sy_loops s ! i)\<lparr>lo_done := True\<rparr>]) = map lo_pc (sy_loops s)"
      using i(1) by (simp add: map_update) (metis list_update_id nth_map)
    then have "last_pc s' = last_pc s" by (simp add: last_pc_map i(2) del: map_is_Nil_conv list.map_disc_iff)
    moreover have "others_gone s' \<longleftrightarrow> others_gone s"
    proof -
      have "map lo_pc (butlast (sy_loops s')) = map lo_pc (butlast (sy_loops s))"
        using pcs by (simp add: i(2) map_butlast)
      then show ?thesis unfolding others_gone_def list_all_length by (metis length_map nth_map)
    qed
    moreover have "sy_caches s' = sy_caches s" "sy_field s' = sy_field s" "sy_panic s' = sy_panic s" by (simp_all add: i(2))
    ultimately show ?thesis using assms(1) by (simp add: db_calm_inv_def no_strays_def field_ok_def open_cache_def cong: loop_pc.case_cong)
  next
    case (MakeCache i)
    then have "at_pc s i Begun" using assms(3) np by (auto simp: db_exec_def split: if_splits)
    from calm_MakeCache [OF assms(1) this] show ?thesis using assms(3) np MakeCache \<open>at_pc s i Begun\<close>
      by (simp add: db_exec_def)
  next
    case (StartCache i w)
    then have "at_pc s i CacheMade" "s' = start_cache ns i w s"
      using assms(3) np by (auto simp: db_exec_def split: if_splits)
    then show ?thesis using calm_StartCache [OF assms(1)] by simp
  next
    case (CacheSynced i)
    then obtain k where k: "at_pc s i (WaitsFor k)" and s': "s' = (if sy_field s = None then s\<lparr>sy_panic := True\<rparr> else set_pc i Polls s)"
      using assms(3) np by (auto simp: db_exec_def at_pc_def split: if_splits loop_pc.splits)
    note l = at_last [OF o k busy(3)]
    have k': "sy_field s = Some k" "open_cache s k" using f l(3) by (simp_all add: field_ok_def)
    note t = set_pc_last [of s i Polls, OF l(1,2)]
    show ?thesis using o st np k' by (auto simp: s' db_calm_inv_def t no_strays_def field_ok_def open_cache_def)
  next
    case (SyncStopped i)
    then obtain k where k: "at_pc s i (WaitsFor k)" and "\<not> informers_run (sy_caches s ! k)"
      using assms(3) np by (auto simp: db_exec_def at_pc_def split: if_splits loop_pc.splits)
    moreover have "last_pc s = WaitsFor k" using at_last(3) [OF o k] by simp
    then have "informers_run (sy_caches s ! k)" using f by (simp add: field_ok_def open_cache_def informers_run_def)
    ultimately show ?thesis by blast
  next
    case (Leave i)
    then have "at_pc s i Polls" "s' = leave_loop i s" using assms(3) np by (auto simp: db_exec_def split: if_splits)
    then show ?thesis using calm_Leave [OF assms(1)] by simp
  qed
qed

lemma db_calm_run_inv: "db_calm_inv s \<Longrightarrow> db_calm_run ns as' s \<Longrightarrow> \<exists>s'. db_run ns as' s = Some s' \<and> db_calm_inv s'"
  by (induction as' arbitrary: s) (auto split: option.splits dest: calm_exec)

lemma calm_init: "db_calm_inv db_init"
  by (simp add: db_calm_inv_def db_init_def others_gone_def no_strays_def field_ok_def last_pc_def)

text \<open>C37. When the collector is only started again after its last poll loop has left, no step panics, and informers run
  only for that loop: those of the one cache in the field, from its start until the loop leaves. Once all loops have
  gone, no informer runs.\<close>

theorem calm_caches_are_cleaned_up:
  assumes "db_calm_run ns as' db_init" "db_run ns as' db_init = Some s"
  shows "\<not> sy_panic s
    \<and> (\<forall>k < length (sy_caches s). informers_run (sy_caches s ! k) \<longrightarrow> sy_field s = Some k)
    \<and> (list_all (\<lambda>l. lo_pc l = Gone) (sy_loops s) \<longrightarrow> list_all (\<lambda>sc. \<not> informers_run sc) (sy_caches s))"
proof -
  have i: "db_calm_inv s" using db_calm_run_inv [OF calm_init assms(1)] assms(2) by simp
  have "last_pc s = Gone" if "list_all (\<lambda>l. lo_pc l = Gone) (sy_loops s)"
    using that by (auto simp: last_pc_def list_all_iff)
  then show ?thesis using i by (auto simp: db_calm_inv_def no_strays_def list_all_length)
qed

text \<open>But a loop that waits for its informers does not see the end of its context: the wait is on the stop channel
  only, which nobody closes before the loop polls. Whatever happens, it waits until the informers have synced, and
  their goroutines run as long; a collector whose API server does not answer cannot be stopped.\<close>

theorem sync_wait_ignores_context:
  assumes "db_calm_run ns as' db_init" "db_run ns as' db_init = Some s" "at_pc s i (WaitsFor k)"
    "db_calm_run ns bs s" "db_run ns bs s = Some s'" "CacheSynced i \<notin> set bs"
  shows "at_pc s' i (WaitsFor k) \<and> informers_run (sy_caches s' ! k)"
proof -
  have "db_calm_inv s" using db_calm_run_inv [OF calm_init assms(1)] assms(2) by simp
  then show ?thesis using assms(3-6)
  proof (induction bs arbitrary: s)
    case Nil
    then have "last_pc s = WaitsFor k" using at_last(3) [of s i "WaitsFor k"] by (simp add: db_calm_inv_def)
    then show ?case using Nil by (simp add: db_calm_inv_def field_ok_def open_cache_def informers_run_def)
  next
    case (Cons b bs)
    obtain t where t: "db_exec ns b s = Some t" "db_calm_run ns bs t" "db_run ns bs t = Some s'" "db_calm_step b s"
      using Cons.prems by (auto split: option.splits)
    have o: "others_gone s" using Cons.prems(1) by (simp add: db_calm_inv_def)
    note l = at_last [OF o Cons.prems(2) busy(3)]
    have only: "j = i \<and> q = WaitsFor k" if "at_pc s j q" "q \<noteq> Gone" for j q
      using at_last(2,3) [OF o that] l(2,3) by simp
    have run: "informers_run (sy_caches s ! k)"
      using Cons.prems(1) l(3) by (simp add: db_calm_inv_def field_ok_def open_cache_def informers_run_def)
    have "at_pc t i (WaitsFor k)"
    proof (cases b)
      case Spawn
      then show ?thesis using t(4) Cons.prems(2) by (auto simp: db_calm_step_def at_pc_def list_all_length)
    next
      case (Done j)
      then show ?thesis using t(1) Cons.prems(2)
        by (auto simp: db_exec_def at_pc_def nth_list_update split: if_splits)
    next
      case (CacheSynced j)
      then obtain k' where "at_pc s j (WaitsFor k')"
        using t(1) by (auto simp: db_exec_def at_pc_def split: if_splits loop_pc.splits)
      then have "j = i" using only by blast
      then show ?thesis using CacheSynced Cons.prems(5) by simp
    next
      case (SyncStopped j)
      then obtain k' where "at_pc s j (WaitsFor k')" "\<not> informers_run (sy_caches s ! k')"
        using t(1) by (auto simp: db_exec_def at_pc_def split: if_splits loop_pc.splits)
      then show ?thesis using only [of j "WaitsFor k'"] run by simp
    qed (use t(1) only in \<open>auto simp: db_exec_def split: if_splits\<close>)
    then show ?case using Cons.IH [of t] calm_exec [OF Cons.prems(1) t(4,1)] t Cons.prems by simp
  qed
qed

section \<open>Overlapping loops\<close>

definition easy_world :: cache_world where
  "easy_world = \<lparr>cw_list = (\<lambda>ns ty. Inr []), cw_ord = [MySQL, PostgreSQL, MongoDB, Redis],
     cw_SetTransform = (\<lambda>ty. None), cw_AddEventHandler = (\<lambda>ty. None)\<rparr>"

definition restart_steps :: "db_step list" where
  "restart_steps = [Spawn, MakeCache 0, StartCache 0 easy_world, CacheSynced 0, Done 0,
     Spawn, MakeCache 1, StartCache 1 easy_world, CacheSynced 1, Leave 0]"

lemma easy_Start: "cache_Start easy_world [] NewSecretCache =
    (StartWaits, \<lparr>ca_informers = [MySQL, PostgreSQL, MongoDB, Redis], ca_started = True, ca_stopCh = Some False,
       ca_cancel = Some False\<rparr>)"
  by (simp add: cache_Start_def easy_world_def NewSecretCache_def Let_def)

text \<open>When the collector is stopped and started again before the first loop has seen the end of its context, that loop
  stops the cache of the second one when it leaves: the second goes on polling from a store that no informer
  updates, the informers of the first cache are never stopped, and when the second loop leaves in turn, it closes a
  closed channel and the process panics.\<close>

theorem restarted_cache_is_stopped_twice:
  "\<exists>s s'. db_run [] restart_steps db_init = Some s
     \<and> at_pc s 1 Polls \<and> \<not> lo_done (sy_loops s ! 1) \<and> sy_field s = Some 1 \<and> \<not> informers_run (sy_caches s ! 1)
     \<and> informers_run (sy_caches s ! 0)
     \<and> db_run [] [Done 1, Leave 1] s = Some s' \<and> sy_panic s'"
  by (simp add: restart_steps_def db_exec_def db_init_def at_pc_def set_pc_def start_cache_def easy_Start leave_loop_def
      cache_Stop_def informers_run_def Let_def)

theorem calm_caches_are_cleaned_up_witness:
  "\<exists>s. db_run [] [Spawn, MakeCache 0, StartCache 0 easy_world, CacheSynced 0, Done 0, Leave 0] db_init = Some s
     \<and> list_all (\<lambda>sc. \<not> informers_run sc) (sy_caches s) \<and> length (sy_caches s) = 1"
proof -
  let ?as = "[Spawn, MakeCache 0, StartCache 0 easy_world, CacheSynced 0, Done 0, Leave 0]"
  note defs = db_calm_step_def db_exec_def db_init_def at_pc_def set_pc_def start_cache_def easy_Start leave_loop_def
    cache_Stop_def Let_def
  have c: "db_calm_run [] ?as db_init" by (simp add: defs)
  obtain s where s: "db_run [] ?as db_init = Some s" "list_all (\<lambda>l. lo_pc l = Gone) (sy_loops s)" "length (sy_caches s) = 1"
    by (simp add: defs)
  show ?thesis using calm_caches_are_cleaned_up [OF c s(1)] s by blast
qed

theorem sync_wait_ignores_context_witness:
  "\<exists>s. db_run [] [Spawn, MakeCache 0, StartCache 0 easy_world, Done 0] db_init = Some s \<and> at_pc s 0 (WaitsFor 0)"
proof -
  let ?as = "[Spawn, MakeCache 0, StartCache 0 easy_world]"
  note defs = db_calm_step_def db_exec_def db_init_def at_pc_def set_pc_def start_cache_def easy_Start Let_def
  have c: "db_calm_run [] ?as db_init" by (simp add: defs)
  obtain s s' where s: "db_run [] ?as db_init = Some s" "at_pc s 0 (WaitsFor 0)" "db_calm_run [] [Done 0] s"
      "db_run [] [Done 0] s = Some s'" "db_run [] (?as @ [Done 0]) db_init = Some s'"
    by (simp add: defs)
  from sync_wait_ignores_context [OF c s(1,2,3,4)] show ?thesis using s(5) by simp
qed

end
