(* ===== verification/HTTP_Middleware.thy ===== *)
theory HTTP_Middleware
  imports Main_Program Go_Net
begin

text \<open>
  \<open>pkg/httpserver/middleware\<close> and its use in \<open>server/routes.go\<close>: the access log, the recovery from panics of a
  handler, and the function that tells whether the log has colours. What gin does with its part of the context is
  a parameter, as are the stack of the goroutine, the files of the sources and the dump of a request.
\<close>

section \<open>Durations\<close>

text \<open>\<open>Duration.Truncate\<close> towards zero, for a positive unit.\<close>

definition Truncate :: "int \<Rightarrow> int \<Rightarrow> int" where
  "Truncate d m = (if d < 0 then - ((- d) div m * m) else d div m * m)"

definition truncateDuration :: "int \<Rightarrow> int" where
  "truncateDuration d =
     (if d > 3600 * 10 ^ 9 then Truncate d (60 * 10 ^ 9)
      else if d > 60 * 10 ^ 9 then Truncate d (10 ^ 9)
      else if d > 10 ^ 9 then Truncate d (10 ^ 6)
      else if d > 10 ^ 6 then Truncate d (10 ^ 3)
      else d)"

text \<open>\<open>Duration.String\<close>: the fraction loses its trailing zeros, and the units below a second are chosen by size.\<close>

definition fmtFrac :: "nat \<Rightarrow> nat \<Rightarrow> string" where
  "fmtFrac v prec =
     (let ds = dec_string (v mod 10 ^ prec);
          padded = replicate (prec - length ds) (CHR ''0'') @ ds;
          kept = rev (dropWhile (\<lambda>c. c = CHR ''0'') (rev padded))
      in if kept = [] then [] else CHR ''.'' # kept)"

definition duration_abs :: "nat \<Rightarrow> string" where
  "duration_abs u =
     (if u = 0 then ''0s''
      else if u < 10 ^ 3 then dec_string u @ ''ns''
      else if u < 10 ^ 6 then dec_string (u div 10 ^ 3) @ fmtFrac u 3 @ [CHR 0xC2, CHR 0xB5, CHR ''s'']
      else if u < 10 ^ 9 then dec_string (u div 10 ^ 6) @ fmtFrac u 6 @ ''ms''
      else (let secs = u div 10 ^ 9; mins = secs div 60; hours = mins div 60 in
        (if hours > 0 then dec_string hours @ ''h'' else []) @
        (if mins > 0 then dec_string (mins mod 60) @ ''m'' else []) @
        dec_string (secs mod 60) @ fmtFrac u 9 @ ''s''))"

definition duration_String :: "int \<Rightarrow> string" where
  "duration_String d = (if d < 0 then CHR ''-'' # duration_abs (nat (- d)) else duration_abs (nat d))"

text \<open>\<open>fmt\<close> pads to a number of characters, which are the bytes that do not continue one.\<close>

definition rune_count :: "string \<Rightarrow> nat" where
  "rune_count s = length (filter (\<lambda>c. (of_char c :: nat) div 64 \<noteq> 2) s)"

definition pad_left :: "nat \<Rightarrow> string \<Rightarrow> string" where
  "pad_left w s = replicate (w - rune_count s) (CHR '' '') @ s"

definition pad_right :: "nat \<Rightarrow> string \<Rightarrow> string" where
  "pad_right w s = s @ replicate (w - rune_count s) (CHR '' '')"

lemma duration_examples:
  "duration_String 1234000 = ''1.234ms''" "duration_String 3720000000000 = ''1h2m0s''" "duration_String 61500000000 = ''1m1.5s''"
  by (simp_all add: duration_String_def duration_abs_def fmtFrac_def dec_string.simps digit_char_def char_of_def bit_0 Let_def)

lemma Truncate_bounds:
  assumes "0 < m" "0 \<le> d"
  shows "Truncate d m \<le> d" "d - m < Truncate d m" "0 \<le> Truncate d m"
proof -
  have t: "Truncate d m = d - d mod m" using assms(2) by (simp add: Truncate_def minus_mod_eq_div_mult)
  have b: "0 \<le> d mod m" "d mod m < m" using assms(1) by simp_all
  show "Truncate d m \<le> d" "d - m < Truncate d m" using t b by simp_all
  show "0 \<le> Truncate d m" using assms by (simp add: Truncate_def pos_imp_zdiv_nonneg_iff)
qed

lemma Truncate_mono: "0 < m \<Longrightarrow> 0 \<le> d \<Longrightarrow> d \<le> e \<Longrightarrow> Truncate d m \<le> Truncate e m"
  by (simp add: Truncate_def zdiv_mono1)

lemma Truncate_least: "0 < m \<Longrightarrow> 0 \<le> b \<Longrightarrow> b * m \<le> d \<Longrightarrow> b * m \<le> Truncate d m"
proof -
  assume a: "0 < m" "0 \<le> b" "b * m \<le> d"
  have "b \<le> d div m" using zdiv_mono1 [OF a(3) a(1)] a(1) by simp
  moreover have "0 \<le> d" using a by (smt (verit) mult_nonneg_nonneg)
  ultimately show "b * m \<le> Truncate d m" using a(1) by (simp add: Truncate_def)
qed

text \<open>The lower bound of each range is a multiple of its unit, so a duration of a range stays in it.\<close>

lemma truncate_ranges:
  "d > 3600 * 10 ^ 9 \<Longrightarrow> truncateDuration d = Truncate d (60 * 10 ^ 9) \<and> 3600 * 10 ^ 9 \<le> truncateDuration d"
  "60 * 10 ^ 9 < d \<Longrightarrow> d \<le> 3600 * 10 ^ 9 \<Longrightarrow> truncateDuration d = Truncate d (10 ^ 9) \<and> 60 * 10 ^ 9 \<le> truncateDuration d"
  "10 ^ 9 < d \<Longrightarrow> d \<le> 60 * 10 ^ 9 \<Longrightarrow> truncateDuration d = Truncate d (10 ^ 6) \<and> 10 ^ 9 \<le> truncateDuration d"
  "10 ^ 6 < d \<Longrightarrow> d \<le> 10 ^ 9 \<Longrightarrow> truncateDuration d = Truncate d (10 ^ 3) \<and> 10 ^ 6 \<le> truncateDuration d"
  "d \<le> 10 ^ 6 \<Longrightarrow> truncateDuration d = d"
  using Truncate_least [of "60 * 10 ^ 9" 60 d] Truncate_least [of "10 ^ 9" 60 d] Truncate_least [of "10 ^ 6" 1000 d]
    Truncate_least [of "10 ^ 3" 1000 d]
  by (simp_all add: truncateDuration_def)

lemma truncate_le: "0 \<le> d \<Longrightarrow> truncateDuration d \<le> d"
  using Truncate_bounds(1) [of _ d] by (simp add: truncateDuration_def)

text \<open>In the range of \<open>e\<close>, a smaller duration is cut by the same unit or lies below the range.\<close>

lemma truncate_in_range:
  assumes "0 \<le> d" "d \<le> e" "lo < e" "truncateDuration e = Truncate e m" "lo \<le> truncateDuration e" "0 < m"
    "lo < d \<Longrightarrow> truncateDuration d = Truncate d m"
  shows "truncateDuration d \<le> truncateDuration e"
proof (cases "lo < d")
  case True
  then show ?thesis using assms Truncate_mono [of m d e] by simp
next
  case False
  then show ?thesis using truncate_le [OF assms(1)] assms(5) by linarith
qed

text \<open>The shown latency is never more than the real one and less by under a sixtieth of it, and a longer request never
  shows a shorter latency.\<close>

theorem latency_is_nearly_exact:
  assumes "0 \<le> d" "d \<le> e"
  shows "truncateDuration d \<le> d \<and> 60 * (d - truncateDuration d) \<le> d \<and> truncateDuration d \<le> truncateDuration e"
proof -
  consider "d > 3600 * 10 ^ 9" | "60 * 10 ^ 9 < d" "d \<le> 3600 * 10 ^ 9" | "10 ^ 9 < d" "d \<le> 60 * 10 ^ 9"
    | "10 ^ 6 < d" "d \<le> 10 ^ 9" | "d \<le> 10 ^ 6" by linarith
  note ranges = this
  have "60 * (d - truncateDuration d) \<le> d"
    using ranges assms(1) Truncate_bounds(2) [of "60 * 10 ^ 9" d] Truncate_bounds(2) [of "10 ^ 9" d]
      Truncate_bounds(2) [of "10 ^ 6" d] Truncate_bounds(2) [of "10 ^ 3" d]
    by cases (simp_all add: truncate_ranges)
  moreover have "truncateDuration d \<le> truncateDuration e"
  proof -
    consider (h) "e > 3600 * 10 ^ 9" | (m) "60 * 10 ^ 9 < e" "e \<le> 3600 * 10 ^ 9" | (s) "10 ^ 9 < e" "e \<le> 60 * 10 ^ 9"
      | (ms) "10 ^ 6 < e" "e \<le> 10 ^ 9" | (ns) "e \<le> 10 ^ 6" by linarith
    then show ?thesis
    proof cases
      case h
      show ?thesis
        by (rule truncate_in_range [OF assms h, where m = "60 * 10 ^ 9"]) (use h truncate_ranges(1) [of e] truncate_ranges(1) [of d] in auto)
    next
      case m
      show ?thesis
        by (rule truncate_in_range [OF assms m(1), where m = "10 ^ 9"]) (use m assms(2) truncate_ranges(2) [of e] truncate_ranges(2) [of d] in auto)
    next
      case s
      show ?thesis
        by (rule truncate_in_range [OF assms s(1), where m = "10 ^ 6"]) (use s assms(2) truncate_ranges(3) [of e] truncate_ranges(3) [of d] in auto)
    next
      case ms
      show ?thesis
        by (rule truncate_in_range [OF assms ms(1), where m = "10 ^ 3"]) (use ms assms(2) truncate_ranges(4) [of e] truncate_ranges(4) [of d] in auto)
    next
      case ns
      then show ?thesis using assms by (simp add: truncate_ranges(5))
    qed
  qed
  ultimately show ?thesis using truncate_le [OF assms(1)] by blast
qed

theorem latency_is_nearly_exact_witness:
  "truncateDuration 3725123456789 \<le> truncateDuration 7325123456789 \<and> truncateDuration 3725123456789 = 3720 * 10 ^ 9"
proof -
  have "truncateDuration 3725123456789 = 3720 * 10 ^ 9" by (simp add: truncateDuration_def Truncate_def)
  then show ?thesis using latency_is_nearly_exact [of 3725123456789 7325123456789] by simp
qed

section \<open>The dump of a request\<close>

abbreviation CRLF :: string where
  "CRLF \<equiv> [CHR 0x0D, CHR 0x0A]"

fun Split_CRLF :: "string \<Rightarrow> string list" where
  "Split_CRLF [] = [[]]"
| "Split_CRLF [a] = [[a]]"
| "Split_CRLF (a # b # s) =
     (if a = CHR 0x0D \<and> b = CHR 0x0A then [] # Split_CRLF s else cons_head a (Split_CRLF (b # s)))"

text \<open>The text of a header is replaced when the part before its first colon is \<open>Authorization\<close>.\<close>

definition redact_header :: "string \<Rightarrow> string" where
  "redact_header header =
     (let current = Split (CHR '':'') header
      in if current \<noteq> [] \<and> current ! 0 = ''Authorization'' then current ! 0 @ '': *'' else header)"

definition dumpRequest :: "string \<Rightarrow> string" where
  "dumpRequest httpRequest = Join CRLF (map redact_header (Split_CRLF httpRequest))"

definition authorization_line :: "string \<Rightarrow> bool" where
  "authorization_line l \<longleftrightarrow> l = ''Authorization'' \<or> HasPrefix l ''Authorization:''"

lemma Split_CRLF_nonempty [simp]: "Split_CRLF s \<noteq> []"
  by (induction s rule: Split_CRLF.induct) simp_all

text \<open>A text without a line end is one line, and a line end after it ends the first line.\<close>

definition line_end_free :: "string \<Rightarrow> bool" where
  "line_end_free s \<longleftrightarrow> Split_CRLF s = [s]"

lemma line_end_free_simps [simp]:
  "line_end_free []" "line_end_free [a]"
  "line_end_free (a # b # s) \<longleftrightarrow> \<not> (a = CHR 0x0D \<and> b = CHR 0x0A) \<and> line_end_free (b # s)"
  by (cases "Split_CRLF (b # s)"; auto simp: line_end_free_def)+

lemma Split_CRLF_free: "l \<in> set (Split_CRLF s) \<Longrightarrow> line_end_free l"
proof (induction s arbitrary: l rule: Split_CRLF.induct)
  case (3 a b s)
  show ?case
  proof (cases "a = CHR 0x0D \<and> b = CHR 0x0A")
    case True
    then show ?thesis using 3 by auto
  next
    case False
    obtain y ys where y: "Split_CRLF (b # s) = y # ys" by (cases "Split_CRLF (b # s)") auto
    then have free: "line_end_free z" if "z \<in> set (y # ys)" for z using "3.IH"(2) [OF False] that by simp
    have "y = [] \<or> hd y = b" using y by (cases s) (auto split: if_splits elim: cons_head.elims)
    then have "line_end_free (a # y)" using free [of y] False by (cases y) auto
    then show ?thesis using free "3.prems" False y by auto
  qed
qed simp_all

lemma Split_CRLF_append: "line_end_free l \<Longrightarrow> Split_CRLF (l @ CRLF @ s) = l # Split_CRLF s"
proof (induction l rule: Split_CRLF.induct)
  case (3 a b l)
  then show ?case by (auto simp del: cons_head.simps) (simp_all add: cons_head.simps)
qed auto

lemma Split_CRLF_Join:
  "ls \<noteq> [] \<Longrightarrow> list_all line_end_free ls \<Longrightarrow> Split_CRLF (Join CRLF ls) = ls"
proof (induction ls rule: list_nonempty_induct)
  case (cons l ls)
  then show ?case using Split_CRLF_append [of l "Join CRLF ls"] by (simp add: Join_Cons)
qed (simp add: line_end_free_def)

lemma Split_head: "Split c s ! 0 = takeWhile (\<lambda>x. x \<noteq> c) s"
  by (induction s) (auto simp: Split_Cons hd_conv_nth simp del: Split.simps(2))

lemma redact_header_simps:
  "redact_header h = (if authorization_line h then ''Authorization: *'' else h)"
proof -
  have "takeWhile (\<lambda>x. x \<noteq> CHR '':'') h = ''Authorization'' \<longleftrightarrow> authorization_line h"
  proof
    assume a: "takeWhile (\<lambda>x. x \<noteq> CHR '':'') h = ''Authorization''"
    have h: "h = ''Authorization'' @ dropWhile (\<lambda>x. x \<noteq> CHR '':'') h"
      using takeWhile_dropWhile_id [of "\<lambda>x. x \<noteq> CHR '':''" h] a by metis
    show "authorization_line h"
    proof (cases "dropWhile (\<lambda>x. x \<noteq> CHR '':'') h")
      case Nil
      then have "h = ''Authorization''" using h by (metis append_Nil2)
      then show ?thesis by (simp add: authorization_line_def)
    next
      case (Cons c r)
      then have "c = CHR '':''" using hd_dropWhile [of "\<lambda>x. x \<noteq> CHR '':''" h] by simp
      then have "h = ''Authorization'' @ CHR '':'' # r" using h Cons by metis
      then show ?thesis by (simp add: authorization_line_def HasPrefix_def)
    qed
  qed (auto simp: authorization_line_def HasPrefix_def prefix_def)
  then show ?thesis by (simp add: redact_header_def Split_head Let_def)
qed

lemma redacted_free: "line_end_free h \<Longrightarrow> line_end_free (redact_header h)"
  by (simp add: redact_header_simps)

lemma dumpRequest_lines: "Split_CRLF (dumpRequest d) = map redact_header (Split_CRLF d)"
  unfolding dumpRequest_def
  by (rule Split_CRLF_Join) (auto simp: list_all_iff redacted_free dest: Split_CRLF_free)

lemma same_dump:
  assumes "list_all2 (\<lambda>l l'. l = l' \<or> authorization_line l \<and> authorization_line l') (Split_CRLF d) (Split_CRLF d')"
  shows "dumpRequest d = dumpRequest d'"
proof -
  have "map redact_header ls = map redact_header ls'"
    if "list_all2 (\<lambda>l l'. l = l' \<or> authorization_line l \<and> authorization_line l') ls ls'" for ls ls'
    using that by (induction rule: list_all2_induct) (auto simp: redact_header_simps)
  from this [OF assms] show ?thesis by (simp add: dumpRequest_def)
qed

text \<open>The text of a request that goes to the log keeps every line but those of the header \<open>Authorization\<close>, which all
  become the same; so two requests that differ in their credentials only give the same text.\<close>

theorem dump_hides_credentials:
  assumes "list_all2 (\<lambda>l l'. l = l' \<or> authorization_line l \<and> authorization_line l') (Split_CRLF d) (Split_CRLF d')"
  shows "dumpRequest d = dumpRequest d'
    \<and> filter authorization_line (Split_CRLF (dumpRequest d))
        = replicate (length (filter authorization_line (Split_CRLF d))) ''Authorization: *''
    \<and> filter (\<lambda>l. \<not> authorization_line l) (Split_CRLF (dumpRequest d)) = filter (\<lambda>l. \<not> authorization_line l) (Split_CRLF d)"
proof -
  have a: "authorization_line ''Authorization: *''" by (simp add: authorization_line_def HasPrefix_def)
  have "filter authorization_line (map redact_header ls)
      = replicate (length (filter authorization_line ls)) ''Authorization: *''" for ls
    by (induction ls) (auto simp: redact_header_simps a)
  moreover have "filter (\<lambda>l. \<not> authorization_line l) (map redact_header ls) = filter (\<lambda>l. \<not> authorization_line l) ls" for ls
    by (induction ls) (auto simp: redact_header_simps a)
  ultimately show ?thesis using same_dump [OF assms] unfolding dumpRequest_lines by blast
qed

theorem dump_hides_credentials_witness:
  "dumpRequest (Join CRLF [''GET /metrics HTTP/1.1'', ''Host: a'', ''Authorization: Bearer x'', [], []])
     = dumpRequest (Join CRLF [''GET /metrics HTTP/1.1'', ''Host: a'', ''Authorization: Bearer y'', [], []])"
proof -
  have s: "Split_CRLF (Join CRLF [''GET /metrics HTTP/1.1'', ''Host: a'', ''Authorization: Bearer '' @ [c], [], []])
      = [''GET /metrics HTTP/1.1'', ''Host: a'', ''Authorization: Bearer '' @ [c], [], []]" for c
    by (rule Split_CRLF_Join) simp_all
  have "list_all2 (\<lambda>l l'. l = l' \<or> authorization_line l \<and> authorization_line l')
      (Split_CRLF (Join CRLF [''GET /metrics HTTP/1.1'', ''Host: a'', ''Authorization: Bearer x'', [], []]))
      (Split_CRLF (Join CRLF [''GET /metrics HTTP/1.1'', ''Host: a'', ''Authorization: Bearer y'', [], []]))"
    using s [of "CHR ''x''"] s [of "CHR ''y''"] by (simp add: authorization_line_def HasPrefix_def)
  from dump_hides_credentials [OF this] show ?thesis by blast
qed

section \<open>The stack\<close>

text \<open>What the runtime tells of a frame: the file, the line, the program counter and the name of the function.\<close>

record frame =
  fr_file :: string
  fr_line :: int
  fr_pc :: nat
  fr_name :: "string option"

abbreviation dunno :: string where "dunno \<equiv> ''???''"

definition source_line :: "string list \<Rightarrow> int \<Rightarrow> string" where
  "source_line lines n = (let n = n - 1 in if n < 0 \<or> n \<ge> int (length lines) then dunno else TrimSpace (lines ! nat n))"

fun replace_centerDot :: "string \<Rightarrow> string" where
  "replace_centerDot [] = []"
| "replace_centerDot [c] = [c]"
| "replace_centerDot (c # d # s) =
     (if c = CHR 0xC2 \<and> d = CHR 0xB7 then CHR ''.'' # replace_centerDot s else c # replace_centerDot (d # s))"

definition function_name :: "string option \<Rightarrow> string" where
  "function_name fn = (case fn of
       None \<Rightarrow> dunno
     | Some name \<Rightarrow>
        (let name = (case LastIndexByte name CHR ''/'' of Some lastSlash \<Rightarrow> drop (lastSlash + 1) name | None \<Rightarrow> name);
             name = (case IndexByte name CHR ''.'' of Some period \<Rightarrow> drop (period + 1) name | None \<Rightarrow> name)
         in replace_centerDot name))"

fun hex_text :: "nat \<Rightarrow> string" where
  "hex_text n = (if n < 16 then [hex_digit n] else hex_text (n div 16) @ [hex_digit (n mod 16)])"

declare hex_text.simps [simp del]

text \<open>The loop over the frames keeps the lines of the last file that was read.\<close>

definition frame_head :: "frame \<Rightarrow> string" where
  "frame_head f = fr_file f @ '':'' @ Itoa (fr_line f) @ '' (0x'' @ hex_text (fr_pc f) @ '')'' @ [CHR 0x0A]"

definition frame_source :: "string list \<Rightarrow> frame \<Rightarrow> string" where
  "frame_source lines f =
     CHR 0x09 # function_name (fr_name f) @ '': '' @ source_line lines (fr_line f) @ [CHR 0x0A]"

fun stack_loop :: "(string \<Rightarrow> string res) \<Rightarrow> frame list \<Rightarrow> string list \<Rightarrow> string \<Rightarrow> string \<times> string \<Rightarrow> string \<times> string" where
  "stack_loop ReadFile [] lines lastFile (fileLine, buf) = (fileLine, buf)"
| "stack_loop ReadFile (f # fs) lines lastFile (fileLine, buf) =
     (let buf = buf @ frame_head f;
          fileLine = (if fileLine = [] then fr_file f @ '':'' @ Itoa (fr_line f) else fileLine)
      in if fr_file f \<noteq> lastFile then
           (case ReadFile (fr_file f) of
              Inl e \<Rightarrow> stack_loop ReadFile fs lines lastFile (fileLine, buf)
            | Inr data \<Rightarrow> (let lines = Split CHR 0x0A data in
                 stack_loop ReadFile fs lines (fr_file f) (fileLine, buf @ frame_source lines f)))
         else stack_loop ReadFile fs lines lastFile (fileLine, buf @ frame_source lines f))"

definition stack :: "(string \<Rightarrow> string res) \<Rightarrow> frame list \<Rightarrow> nat \<Rightarrow> string \<times> string" where
  "stack ReadFile frames skip = stack_loop ReadFile (drop skip frames) [] [] ([], [])"

text \<open>The reference reads the file of every frame.\<close>

definition frame_text :: "(string \<Rightarrow> string res) \<Rightarrow> frame \<Rightarrow> string" where
  "frame_text ReadFile f = frame_head f @ (case ReadFile (fr_file f) of
       Inl e \<Rightarrow> [] | Inr data \<Rightarrow> frame_source (Split CHR 0x0A data) f)"

lemma stack_loop_frames:
  assumes "lastFile = [] \<or> (\<exists>data. ReadFile lastFile = Inr data \<and> lines = Split CHR 0x0A data)"
    "\<forall>f \<in> set fs. fr_file f \<noteq> []"
  shows "stack_loop ReadFile fs lines lastFile (fileLine, buf) =
    (if fileLine = [] \<and> fs \<noteq> [] then fr_file (hd fs) @ '':'' @ Itoa (fr_line (hd fs)) else fileLine,
     buf @ concat (map (frame_text ReadFile) fs))"
  using assms
proof (induction fs arbitrary: lines lastFile fileLine buf)
  case (Cons f fs)
  show ?case
  proof (cases "fr_file f = lastFile")
    case True
    then obtain data where d: "ReadFile lastFile = Inr data" "lines = Split CHR 0x0A data" using Cons.prems by auto
    then show ?thesis using True Cons.IH [OF Cons.prems(1)] Cons.prems(2) by (simp add: Let_def frame_text_def)
  next
    case False
    then show ?thesis using Cons.IH Cons.prems
      by (cases "ReadFile (fr_file f)") (simp_all add: Let_def frame_text_def)
  qed
qed simp

text \<open>The stack of a panic names the place of the first frame and shows every frame with its line of the source where
  the file can be read; keeping the lines of the last file changes nothing.\<close>

theorem stack_shows_every_frame:
  assumes "\<forall>f \<in> set (drop skip frames). fr_file f \<noteq> []" "drop skip frames = f # fs"
  shows "stack ReadFile frames skip =
    (fr_file f @ '':'' @ Itoa (fr_line f), concat (map (frame_text ReadFile) (drop skip frames)))"
  using stack_loop_frames [of "[]" ReadFile "[]" "drop skip frames" "[]" "[]"] assms by (simp add: stack_def)

theorem stack_shows_every_frame_witness:
  "stack (\<lambda>_. Inl ''no such file'') [\<lparr>fr_file = ''a.go'', fr_line = 7, fr_pc = 16, fr_name = None\<rparr>] 0
     = (''a.go:7'', frame_head \<lparr>fr_file = ''a.go'', fr_line = 7, fr_pc = 16, fr_name = None\<rparr>)"
proof -
  let ?f = "\<lparr>fr_file = ''a.go'', fr_line = 7, fr_pc = 16, fr_name = None\<rparr>"
  have "Itoa 7 = ''7''" by (simp add: Itoa_def dec_string.simps digit_char_def char_of_def bit_0)
  then show ?thesis
    using stack_shows_every_frame [of 0 "[?f]" ?f "[]" "\<lambda>_. Inl ''no such file''"] by (simp add: frame_text_def)
qed

section \<open>The colours of the log\<close>

text \<open>A logger with the address of its field \<open>Formatter\<close>. The text formatter of the program always forces colours.\<close>

record logger_at =
  la_addr :: nat
  la_Formatter :: log_formatter

definition loggerNeedColor :: "log_formatter \<Rightarrow> bool" where
  "loggerNeedColor f = (case f of
       TextFormatter forceQuote disableQuote \<Rightarrow> (let forceColors = True; disableColors = False in forceColors \<or> \<not> disableColors)
     | JSONFormatter \<Rightarrow> False)"

record color_cache =
  cc_cachedFormatter :: nat
  cc_needColor :: bool

definition cachedLoggerNeedColor :: "logger_at \<Rightarrow> color_cache" where
  "cachedLoggerNeedColor l = \<lparr>cc_cachedFormatter = la_addr l, cc_needColor = loggerNeedColor (la_Formatter l)\<rparr>"

definition needColor :: "logger_at \<Rightarrow> color_cache \<Rightarrow> bool \<times> color_cache" where
  "needColor l cc =
     (if cc_cachedFormatter cc \<noteq> la_addr l then
        (let color = loggerNeedColor (la_Formatter l)
         in (color, cc\<lparr>cc_cachedFormatter := la_addr l, cc_needColor := color\<rparr>))
      else (cc_needColor cc, cc))"

text \<open>Requests and changes of the configuration of the logger, in the order in which they come; the answers of the
  function.\<close>

datatype color_event = LoggerConfigured log_options | RequestLogged

fun color_run :: "color_event list \<Rightarrow> logger_at \<Rightarrow> color_cache \<Rightarrow> bool list" where
  "color_run [] l cc = []"
| "color_run (LoggerConfigured opts # es) l cc = color_run es (l\<lparr>la_Formatter := lg_formatter (configure opts)\<rparr>) cc"
| "color_run (RequestLogged # es) l cc = (case needColor l cc of (b, cc') \<Rightarrow> b # color_run es l cc')"

text \<open>The function compares the address of the field, which is the same whatever formatter the field holds. So its
  answer is the one of the moment in which the routes were set up, however the logger is configured later.\<close>

theorem colours_are_frozen:
  "color_run es l (cachedLoggerNeedColor l)
     = replicate (length (filter (\<lambda>e. e = RequestLogged) es)) (loggerNeedColor (la_Formatter l))"
proof -
  have "cc_cachedFormatter cc = la_addr l \<Longrightarrow>
      color_run es l cc = replicate (length (filter (\<lambda>e. e = RequestLogged) es)) (cc_needColor cc)" for cc
    by (induction es l cc rule: color_run.induct) (auto simp: needColor_def split: prod.splits if_splits)
  then show ?thesis by (simp add: cachedLoggerNeedColor_def)
qed

text \<open>In particular the access log of a logger that was set to JSON keeps the escape sequences of the colours.\<close>

lemma json_log_keeps_colours:
  "color_run [LoggerConfigured \<lparr>lo_Debug = False, lo_Level = ''info'', lo_Format = ''json''\<rparr>, RequestLogged]
     \<lparr>la_addr = 1, la_Formatter = TextFormatter False True\<rparr>
     (cachedLoggerNeedColor \<lparr>la_addr = 1, la_Formatter = TextFormatter False True\<rparr>) = [True]"
  "\<not> loggerNeedColor (lg_formatter (configure \<lparr>lo_Debug = False, lo_Level = ''info'', lo_Format = ''json''\<rparr>))"
  by (simp_all add: cachedLoggerNeedColor_def needColor_def loggerNeedColor_def configure_def Let_def)

section \<open>Requests and log lines\<close>

type_synonym entry = "(string \<times> string) list"

definition with_field :: "string \<Rightarrow> string \<Rightarrow> entry \<Rightarrow> entry" where
  "with_field k v e = filter (\<lambda>p. fst p \<noteq> k) e @ [(k, v)]"

record log_line =
  ll_level :: log_level
  ll_fields :: entry
  ll_text :: string

text \<open>\<open>rq_dump\<close> is what \<open>httputil.DumpRequest\<close> gives, \<open>rq_entry\<close> the logger in the context of the request.\<close>

record gin_request =
  rq_Method :: string
  rq_Path :: string
  rq_RawQuery :: string
  rq_dump :: string
  rq_entry :: "entry option"

definition WithRequestEntry :: "entry \<Rightarrow> gin_request \<Rightarrow> gin_request" where
  "WithRequestEntry e req = req\<lparr>rq_entry := Some e\<rparr>"

text \<open>A panic carries an error or another value, which is given by its text. An error has a text and the errors that it
  wraps; two kinds are told apart.\<close>

datatype error_kind = NetOpError | OsSyscallError | OtherError

datatype go_error = GoError error_kind string "go_error list"

datatype recovered = PanicError go_error | PanicValue string

fun error_text :: "go_error \<Rightarrow> string" where
  "error_text (GoError k t es) = t"

definition recoveredToError :: "recovered \<Rightarrow> go_error" where
  "recoveredToError r = (case r of PanicError e \<Rightarrow> e | PanicValue t \<Rightarrow> GoError OtherError t [])"

definition recovered_text :: "recovered \<Rightarrow> string" where
  "recovered_text r = (case r of PanicError e \<Rightarrow> error_text e | PanicValue t \<Rightarrow> t)"

text \<open>\<open>errors.As\<close> for a \<open>SyscallError\<close>: the first one, depth first.\<close>

fun as_SyscallError :: "go_error \<Rightarrow> go_error option" and as_SyscallErrors :: "go_error list \<Rightarrow> go_error option" where
  "as_SyscallError (GoError k t es) = (if k = OsSyscallError then Some (GoError k t es) else as_SyscallErrors es)"
| "as_SyscallErrors [] = None"
| "as_SyscallErrors (e # es) = (case as_SyscallError e of Some x \<Rightarrow> Some x | None \<Rightarrow> as_SyscallErrors es)"

definition isBrokenPipe :: "recovered \<Rightarrow> bool" where
  "isBrokenPipe r = (case r of
       PanicError (GoError NetOpError t es) \<Rightarrow>
        (case as_SyscallError (GoError NetOpError t es) of
           None \<Rightarrow> False
         | Some se \<Rightarrow> (let seStr = ToLower (error_text se)
             in Contains seStr ''broken pipe'' \<or> Contains seStr ''connection reset by peer''))
     | _ \<Rightarrow> False)"

text \<open>What gin does with its part of the context: the answer so far and the errors that were attached.\<close>

record 'w gin =
  gn_Status :: "'w \<Rightarrow> int"
  gn_PrivateErrors :: "'w \<Rightarrow> string"
  gn_Error :: "go_error \<Rightarrow> 'w \<Rightarrow> 'w"
  gn_Abort :: "'w \<Rightarrow> 'w"
  gn_AbortWithStatus :: "int \<Rightarrow> 'w \<Rightarrow> 'w"
  gn_ClientIP :: "gin_request \<Rightarrow> string"
  gn_IsDebugging :: bool
  gn_StatusCodeColor :: "int \<Rightarrow> string"
  gn_MethodColor :: "string \<Rightarrow> string"
  gn_ResetColor :: string

record 'w gin_context =
  gx_Request :: gin_request
  gx_requestAt :: "int option"
  gx_writer :: 'w
  gx_log :: "log_line list"

definition add_line :: "log_level \<Rightarrow> entry \<Rightarrow> string \<Rightarrow> 'w gin_context \<Rightarrow> 'w gin_context" where
  "add_line lv e t c = c\<lparr>gx_log := gx_log c @ [\<lparr>ll_level = lv, ll_fields = e, ll_text = t\<rparr>]\<rparr>"

text \<open>A handler returns or panics; the context keeps what it did until then. A middleware is given the rest of the chain,
  which is what \<open>Next\<close> runs.\<close>

type_synonym 'w handler = "'w gin_context \<Rightarrow> recovered option \<times> 'w gin_context"

definition base_entry :: "entry option \<Rightarrow> entry" where
  "base_entry base = (case base of None \<Rightarrow> [(''component'', ''http'')] | Some e \<Rightarrow> e)"

section \<open>The access log\<close>

record log_params =
  pm_StatusCode :: int
  pm_Latency :: int
  pm_ClientIP :: string
  pm_Method :: string
  pm_Path :: string
  pm_ErrorMessage :: string

definition formatAccessLog :: "'w gin \<Rightarrow> bool \<Rightarrow> log_params \<Rightarrow> string" where
  "formatAccessLog g colors ps =
     (let statusColor = (if colors then gn_StatusCodeColor g (pm_StatusCode ps) else []);
          methodColor = (if colors then gn_MethodColor g (pm_Method ps) else []);
          resetColor = (if colors then gn_ResetColor g else [])
      in ''[GIN] |'' @ statusColor @ '' '' @ pad_left 3 (Itoa (pm_StatusCode ps)) @ '' '' @ resetColor @ ''| '' @
         pad_left 10 (duration_String (truncateDuration (pm_Latency ps))) @ '' | '' @ pad_left 15 (pm_ClientIP ps) @
         '' |'' @ methodColor @ '' '' @ pad_right 7 (pm_Method ps) @ '' '' @ resetColor @ '' '' @ Quote (pm_Path ps) @
         [CHR 0x0A] @ pm_ErrorMessage ps)"

definition access_level :: "int \<Rightarrow> log_level" where
  "access_level code = (if code \<ge> 500 then ErrorLevel else if code \<ge> 400 then WarnLevel else InfoLevel)"

definition logAccess :: "'w gin \<Rightarrow> entry \<Rightarrow> log_params \<Rightarrow> bool \<Rightarrow> 'w gin_context \<Rightarrow> 'w gin_context" where
  "logAccess g e ps colors c = add_line (access_level (pm_StatusCode ps)) e (formatAccessLog g colors ps) c"

text \<open>The parameters are read after the rest of the chain has returned; when it panics, nothing is logged here.\<close>

definition access_params :: "'w gin \<Rightarrow> int \<Rightarrow> 'w gin_context \<Rightarrow> log_params" where
  "access_params g latency c =
     (let req = gx_Request c;
          path = (if rq_RawQuery req \<noteq> [] then rq_Path req @ ''?'' @ rq_RawQuery req else rq_Path req)
      in \<lparr>pm_StatusCode = gn_Status g (gx_writer c), pm_Latency = latency, pm_ClientIP = gn_ClientIP g req,
          pm_Method = rq_Method req, pm_Path = path, pm_ErrorMessage = gn_PrivateErrors g (gx_writer c)\<rparr>)"

definition SetRequestAt :: "int \<Rightarrow> 'w gin_context \<Rightarrow> 'w gin_context" where
  "SetRequestAt t c = c\<lparr>gx_requestAt := Some t\<rparr>"

definition GetRequestAt :: "int \<Rightarrow> 'w gin_context \<Rightarrow> int" where
  "GetRequestAt zero c = (case gx_requestAt c of Some t \<Rightarrow> t | None \<Rightarrow> zero)"

definition RequestLogger :: "'w gin \<Rightarrow> entry option \<Rightarrow> string \<Rightarrow> bool \<Rightarrow> int \<Rightarrow> int \<Rightarrow> 'w handler \<Rightarrow> 'w handler" where
  "RequestLogger g base serverName colors start latency rest c0 =
     (let requestEntry = with_field ''server'' serverName (base_entry base);
          c1 = SetRequestAt start c0;
          c2 = c1\<lparr>gx_Request := WithRequestEntry requestEntry (gx_Request c1)\<rparr>
      in case rest c2 of
           (Some r, c) \<Rightarrow> (Some r, c)
         | (None, c) \<Rightarrow> (None, logAccess g requestEntry (access_params g latency c) colors c))"

section \<open>The recovery\<close>

definition recover_panic :: "'w gin \<Rightarrow> entry option \<Rightarrow> string \<Rightarrow> string \<times> string \<Rightarrow> recovered \<Rightarrow> 'w gin_context \<Rightarrow> 'w gin_context" where
  "recover_panic g base serverName st r c =
     (let entry = (case rq_entry (gx_Request c) of
            Some e \<Rightarrow> e | None \<Rightarrow> with_field ''server'' serverName (base_entry base));
          panicErr = recoveredToError r; fileLine = fst st; stackTrace = snd st;
          requestDump = dumpRequest (rq_dump (gx_Request c));
          c1 = c\<lparr>gx_writer := gn_Error g panicErr (gx_writer c)\<rparr>;
          stop = (\<lambda>c. c\<lparr>gx_writer := gn_AbortWithStatus g 500 (gx_writer c)\<rparr>)
      in if isBrokenPipe r then
           (let c2 = add_line ErrorLevel (with_field ''request'' requestDump (with_field ''source'' fileLine entry))
                  (error_text panicErr) c1
            in c2\<lparr>gx_writer := gn_Abort g (gx_writer c2)\<rparr>)
         else if gn_IsDebugging g then
           stop (add_line ErrorLevel (with_field ''source'' fileLine entry)
             (''[Recovery] panic recovered:'' @ [CHR 0x0A] @ requestDump @ [CHR 0x0A] @ recovered_text r @ [CHR 0x0A] @ stackTrace) c1)
         else
           stop (add_line ErrorLevel (with_field ''source'' fileLine entry)
             (''[Recovery] panic recovered:'' @ [CHR 0x0A] @ recovered_text r @ [CHR 0x0A] @ stackTrace) c1))"

definition Recovery :: "'w gin \<Rightarrow> entry option \<Rightarrow> string \<Rightarrow> (string \<Rightarrow> string res) \<Rightarrow> (recovered \<Rightarrow> frame list) \<Rightarrow> 'w handler \<Rightarrow> 'w handler" where
  "Recovery g base serverName ReadFile callers rest c0 = (case rest c0 of
       (None, c) \<Rightarrow> (None, c)
     | (Some r, c) \<Rightarrow> (None, recover_panic g base serverName (stack ReadFile (callers r) 3) r c))"

section \<open>The chain of the routes\<close>

text \<open>\<open>routes.go\<close> installs the recovery first, so it is around the access log.\<close>

definition routed :: "'w gin \<Rightarrow> entry \<Rightarrow> string \<Rightarrow> (string \<Rightarrow> string res) \<Rightarrow> (recovered \<Rightarrow> frame list) \<Rightarrow> bool \<Rightarrow> int \<Rightarrow> int
    \<Rightarrow> 'w handler \<Rightarrow> 'w handler" where
  "routed g logger serverName ReadFile callers colors start latency handler =
     Recovery g (Some logger) serverName ReadFile callers
       (RequestLogger g (Some logger) serverName colors start latency handler)"

text \<open>What the handler of a route is given.\<close>

definition handler_context :: "entry \<Rightarrow> string \<Rightarrow> int \<Rightarrow> 'w gin_context \<Rightarrow> 'w gin_context" where
  "handler_context logger serverName start c = c\<lparr>gx_requestAt := Some start,
     gx_Request := (gx_Request c)\<lparr>rq_entry := Some (with_field ''server'' serverName logger)\<rparr>\<rparr>"

lemma add_line_fields [simp]:
  "gx_log (add_line lv e t c) = gx_log c @ [\<lparr>ll_level = lv, ll_fields = e, ll_text = t\<rparr>]"
  "gx_writer (add_line lv e t c) = gx_writer c" "gx_Request (add_line lv e t c) = gx_Request c"
  by (simp_all add: add_line_def)

lemma RequestLogger_runs:
  "RequestLogger g (Some logger) serverName colors start latency rest c0 =
     (case rest (handler_context logger serverName start c0) of
        (Some r, c) \<Rightarrow> (Some r, c)
      | (None, c) \<Rightarrow> (None, logAccess g (with_field ''server'' serverName logger) (access_params g latency c) colors c))"
  by (simp add: RequestLogger_def Let_def SetRequestAt_def WithRequestEntry_def handler_context_def base_entry_def)

lemma recover_panic_result:
  "\<exists>l. gx_log (recover_panic g base serverName st r c) = gx_log c @ [l] \<and> ll_level l = ErrorLevel"
  "gx_writer (recover_panic g base serverName st r c) =
     (if isBrokenPipe r then gn_Abort g (gn_Error g (recoveredToError r) (gx_writer c))
      else gn_AbortWithStatus g 500 (gn_Error g (recoveredToError r) (gx_writer c)))"
  by (auto simp: recover_panic_def Let_def)

text \<open>No panic of a handler gets out of the chain, and a request leaves exactly one line in the log after those of its
  handler. If the handler returns, the line is the one of the access log at the level that the status asks for. If it
  panics, the line is an error of the recovery, there is none of the access log, and the request is aborted with the
  status 500, or without a status when the peer has closed the connection.\<close>

theorem request_leaves_one_line:
  "let (panic, seen) = h (handler_context logger serverName start c);
       (out, after) = routed g logger serverName ReadFile callers colors start latency h c
   in out = None
    \<and> (\<exists>l. gx_log after = gx_log seen @ [l]
        \<and> (case panic of
             None \<Rightarrow> l = \<lparr>ll_level = access_level (gn_Status g (gx_writer seen)),
                 ll_fields = with_field ''server'' serverName logger,
                 ll_text = formatAccessLog g colors (access_params g latency seen)\<rparr>
           | Some r \<Rightarrow> ll_level l = ErrorLevel))
    \<and> gx_writer after = (case panic of
           None \<Rightarrow> gx_writer seen
         | Some r \<Rightarrow> let w = gn_Error g (recoveredToError r) (gx_writer seen)
             in if isBrokenPipe r then gn_Abort g w else gn_AbortWithStatus g 500 w)"
proof -
  obtain p c' where h: "h (handler_context logger serverName start c) = (p, c')" by fastforce
  show ?thesis
  proof (cases p)
    case None
    then show ?thesis
      by (simp add: routed_def Recovery_def RequestLogger_runs h logAccess_def access_params_def Let_def)
  next
    case (Some r)
    then show ?thesis using recover_panic_result(1) [of g "Some logger" serverName "stack ReadFile (callers r) 3" r c']
      by (simp add: routed_def Recovery_def RequestLogger_runs h recover_panic_result(2) Let_def)
  qed
qed

text \<open>The dump is a part of the request of a context.\<close>

definition with_dump :: "string \<Rightarrow> 'w gin_context \<Rightarrow> 'w gin_context" where
  "with_dump d c = c\<lparr>gx_Request := (gx_Request c)\<lparr>rq_dump := d\<rparr>\<rparr>"

lemma with_dump_fields [simp]:
  "gx_log (with_dump d c) = gx_log c" "gx_writer (with_dump d c) = gx_writer c" "rq_dump (gx_Request (with_dump d c)) = d"
  "rq_entry (gx_Request (with_dump d c)) = rq_entry (gx_Request c)"
  "handler_context logger n t (with_dump d c) = with_dump d (handler_context logger n t c)"
  by (simp_all add: with_dump_def handler_context_def)

lemma recover_panic_dump:
  "dumpRequest d = dumpRequest d' \<Longrightarrow> gx_log (recover_panic g base n st r (with_dump d c))
     = gx_log (recover_panic g base n st r (with_dump d' c))"
  by (simp add: recover_panic_def Let_def)

lemma access_params_dump:
  "(\<And>req d. gn_ClientIP g (req\<lparr>rq_dump := d\<rparr>) = gn_ClientIP g req) \<Longrightarrow>
     access_params g latency (with_dump d c) = access_params g latency c"
  by (simp add: access_params_def with_dump_def Let_def)

text \<open>C39. The access log and the recovery put no credentials into the log: take two requests that differ only in their
  header \<open>Authorization\<close>, and a client address that does not depend on it. If the handler does the same with both, which
  is the same panic, the same answer and the same lines of its own, the log is the same, whether it returns or panics
  and in both modes of gin. A handler may read the header, as the one that authenticates does for the metrics: the
  credentials reach the log only by the status that it answers, its errors, its lines and its panic, which \<open>p\<close> and \<open>c1\<close>
  are.\<close>

theorem log_hides_credentials:
  assumes "h (handler_context logger n start (with_dump d c)) = (p, with_dump d c1)"
    "h (handler_context logger n start (with_dump d' c)) = (p, with_dump d' c1)"
    "\<And>req d. gn_ClientIP g (req\<lparr>rq_dump := d\<rparr>) = gn_ClientIP g req"
    "list_all2 (\<lambda>l l'. l = l' \<or> authorization_line l \<and> authorization_line l') (Split_CRLF d) (Split_CRLF d')"
  shows "gx_log (snd (routed g logger n RF callers colors start latency h (with_dump d c)))
    = gx_log (snd (routed g logger n RF callers colors start latency h (with_dump d' c)))"
proof -
  note hd = assms(1,2)
  have dd: "dumpRequest d = dumpRequest d'" using same_dump [OF assms(4)] .
  show ?thesis
  proof (cases p)
    case None
    then show ?thesis using hd
      by (simp add: routed_def Recovery_def RequestLogger_runs logAccess_def access_params_dump [OF assms(3)])
  next
    case (Some r)
    then show ?thesis using hd by (simp add: routed_def Recovery_def RequestLogger_runs recover_panic_dump [OF dd])
  qed
qed

text \<open>A gin whose part of the context is the status and the number of attached errors.\<close>

definition demo_gin :: "(int \<times> nat) gin" where
  "demo_gin = \<lparr>gn_Status = fst, gn_PrivateErrors = (\<lambda>w. []), gn_Error = (\<lambda>e w. (fst w, snd w + 1)), gn_Abort = (\<lambda>w. w),
     gn_AbortWithStatus = (\<lambda>st w. (st, snd w)), gn_ClientIP = (\<lambda>req. ''10.0.0.1''), gn_IsDebugging = True,
     gn_StatusCodeColor = (\<lambda>st. []), gn_MethodColor = (\<lambda>m. []), gn_ResetColor = []\<rparr>"

text \<open>A handler that reads the header: it answers 401 when there is none and panics after it has let the request in.\<close>

definition panicking :: "(int \<times> nat) handler" where
  "panicking c = (if list_ex authorization_line (Split_CRLF (rq_dump (gx_Request c))) then (Some (PanicValue ''boom''), c)
     else (None, c\<lparr>gx_writer := (401, 0)\<rparr>))"

definition demo_dump :: "char \<Rightarrow> string" where
  "demo_dump c = Join CRLF [''GET /metrics HTTP/1.1'', ''Authorization: Bearer '' @ [c], [], []]"

definition demo_get :: "(int \<times> nat) gin_context" where
  "demo_get = \<lparr>gx_Request = \<lparr>rq_Method = ''GET'', rq_Path = ''/metrics'', rq_RawQuery = [], rq_dump = [], rq_entry = None\<rparr>,
     gx_requestAt = None, gx_writer = (200, 0), gx_log = []\<rparr>"

theorem log_hides_credentials_witness:
  "gx_log (snd (routed demo_gin [] ''main'' (\<lambda>_. Inl ''none'') (\<lambda>_. []) False 0 5 panicking (with_dump (demo_dump CHR ''x'') demo_get)))
   = gx_log (snd (routed demo_gin [] ''main'' (\<lambda>_. Inl ''none'') (\<lambda>_. []) False 0 5 panicking (with_dump (demo_dump CHR ''y'') demo_get)))"
proof (rule log_hides_credentials)
  have dump: "Split_CRLF (demo_dump c) = [''GET /metrics HTTP/1.1'', ''Authorization: Bearer '' @ [c], [], []]" for c
    unfolding demo_dump_def by (rule Split_CRLF_Join) simp_all
  have "panicking (handler_context [] ''main'' 0 (with_dump (demo_dump x) demo_get))
      = (Some (PanicValue ''boom''), with_dump (demo_dump x) (handler_context [] ''main'' 0 demo_get))" for x
    by (simp add: panicking_def dump authorization_line_def HasPrefix_def)
  then show "panicking (handler_context [] ''main'' 0 (with_dump (demo_dump CHR ''x'') demo_get))
      = (Some (PanicValue ''boom''), with_dump (demo_dump CHR ''x'') (handler_context [] ''main'' 0 demo_get))"
    "panicking (handler_context [] ''main'' 0 (with_dump (demo_dump CHR ''y'') demo_get))
      = (Some (PanicValue ''boom''), with_dump (demo_dump CHR ''y'') (handler_context [] ''main'' 0 demo_get))"
    by blast+
  show "gn_ClientIP demo_gin (req\<lparr>rq_dump := d\<rparr>) = gn_ClientIP demo_gin req" for req d
    by (simp add: demo_gin_def)
  show "list_all2 (\<lambda>l l'. l = l' \<or> authorization_line l \<and> authorization_line l')
      (Split_CRLF (demo_dump CHR ''x'')) (Split_CRLF (demo_dump CHR ''y''))"
    using dump by (simp add: authorization_line_def HasPrefix_def)
qed

end
