(* ===== verification/Client_Provider.thy ===== *)
theory Client_Provider
  imports Collector_Registry Domain_Check
begin

text \<open>
  \<open>pkg/collector/client_provider.go\<close>, the access to it through the factory context of \<open>interfaces.go\<close>, and
  \<open>pkg/util\<close>: the client of the API server, which is made once when a collector first asks for it; the reading of a
  certificate; and the time zone of the process. The functions of \<open>client-go\<close> are parameters.
\<close>

section \<open>The configuration of the client\<close>

text \<open>What the process finds at a moment: the variable \<open>KUBECONFIG\<close> and what \<open>client-go\<close> answers.\<close>

record ('f, 'k) kube_world =
  kw_KUBECONFIG :: string
  kw_BuildConfigFromFlags :: "string \<Rightarrow> 'f res"
  kw_InClusterConfig :: "'f res"
  kw_set_limits :: "f32 \<Rightarrow> int \<Rightarrow> 'f \<Rightarrow> 'f"
  kw_NewForConfig :: "'f \<Rightarrow> 'k res"

definition buildKubernetesConfig :: "('f, 'k) kube_world \<Rightarrow> string \<Rightarrow> 'f res" where
  "buildKubernetesConfig w kubeconfig =
     (if kubeconfig \<noteq> [] then
        (case kw_BuildConfigFromFlags w kubeconfig of
           Inl e \<Rightarrow> Inl (''failed to build config from kubeconfig: '' @ e) | Inr c \<Rightarrow> Inr c)
      else if kw_KUBECONFIG w \<noteq> [] then
        (case kw_BuildConfigFromFlags w (kw_KUBECONFIG w) of
           Inl e \<Rightarrow> Inl (''failed to build config from KUBECONFIG env: '' @ e) | Inr c \<Rightarrow> Inr c)
      else
        (case kw_InClusterConfig w of
           Inl e \<Rightarrow> Inl (''failed to get in-cluster config: '' @ e @
             '' (hint: ensure you'' @ [CHR 0x27] @ ''re running in a Kubernetes cluster or provide valid kubeconfig)'')
         | Inr c \<Rightarrow> Inr c))"

definition newKubernetesClient :: "('f, 'k) kube_world \<Rightarrow> client_config \<Rightarrow> ('f \<times> 'k) res" where
  "newKubernetesClient w c = (case buildKubernetesConfig w (cl_Kubeconfig c) of
       Inl e \<Rightarrow> Inl e
     | Inr config0 \<Rightarrow> (let config = kw_set_limits w (cl_QPS c) (cl_Burst c) config0 in
         case kw_NewForConfig w config of Inl e \<Rightarrow> Inl e | Inr client \<Rightarrow> Inr (config, client)))"

text \<open>\<open>pkg/util/kubernetes.go\<close> does the same with other error texts.\<close>

definition util_buildConfig :: "('f, 'k) kube_world \<Rightarrow> string \<Rightarrow> 'f res" where
  "util_buildConfig w kubeconfig =
     (if kubeconfig \<noteq> [] then
        (case kw_BuildConfigFromFlags w kubeconfig of
           Inl e \<Rightarrow> Inl (''failed to build config from kubeconfig: '' @ e) | Inr c \<Rightarrow> Inr c)
      else let envKubeconfig = kw_KUBECONFIG w in
        if envKubeconfig \<noteq> [] then
          (case kw_BuildConfigFromFlags w envKubeconfig of
             Inl e \<Rightarrow> Inl (''failed to build config from KUBECONFIG env: '' @ e) | Inr c \<Rightarrow> Inr c)
        else
          (case kw_InClusterConfig w of
             Inl e \<Rightarrow> Inl (''failed to get in-cluster config: '' @ e @
               '' (hint: ensure you'' @ [CHR 0x27] @ ''re running in a Kubernetes cluster or provide valid kubeconfig)'')
           | Inr c \<Rightarrow> Inr c))"

definition NewKubernetesClient :: "('f, 'k) kube_world \<Rightarrow> string \<Rightarrow> f32 \<Rightarrow> int \<Rightarrow> ('f \<times> 'k) res" where
  "NewKubernetesClient w kubeconfig qps burst = (case util_buildConfig w kubeconfig of
       Inl e \<Rightarrow> Inl (''failed to build config: '' @ e)
     | Inr config0 \<Rightarrow> (let config = kw_set_limits w qps burst config0 in
         case kw_NewForConfig w config of
           Inl e \<Rightarrow> Inl (''failed to create client: '' @ e) | Inr client \<Rightarrow> Inr (config, client)))"

text \<open>The two constructors of a client agree: they fail together, and succeed with the same client.\<close>

lemma constructors_agree:
  "(case NewKubernetesClient w (cl_Kubeconfig c) (cl_QPS c) (cl_Burst c) of Inl e \<Rightarrow> None | Inr r \<Rightarrow> Some r)
   = (case newKubernetesClient w c of Inl e \<Rightarrow> None | Inr r \<Rightarrow> Some r)"
  by (simp add: NewKubernetesClient_def newKubernetesClient_def util_buildConfig_def buildKubernetesConfig_def Let_def
      split: sum.split)

section \<open>The lazy provider\<close>

record ('f, 'k) lazy_provider =
  lp_config :: client_config
  lp_once :: bool
  lp_restConfig :: "'f option"
  lp_client :: "'k option"
  lp_initErr :: "err option"

definition new_provider :: "client_config \<Rightarrow> ('f, 'k) lazy_provider" where
  "new_provider c = \<lparr>lp_config = c, lp_once = False, lp_restConfig = None, lp_client = None, lp_initErr = None\<rparr>"

definition initKubernetesClient :: "('f, 'k) kube_world \<Rightarrow> ('f, 'k) lazy_provider \<Rightarrow> ('f, 'k) lazy_provider" where
  "initKubernetesClient w p = (case newKubernetesClient w (lp_config p) of
       Inl e \<Rightarrow> p\<lparr>lp_initErr := Some e\<rparr>
     | Inr (restConfig, client) \<Rightarrow> p\<lparr>lp_restConfig := Some restConfig, lp_client := Some client\<rparr>)"

text \<open>\<open>once.Do\<close>: concurrent callers wait for the first, so calls happen one after the other.\<close>

definition once_Do :: "(('f, 'k) lazy_provider \<Rightarrow> ('f, 'k) lazy_provider) \<Rightarrow> ('f, 'k) lazy_provider \<Rightarrow> ('f, 'k) lazy_provider" where
  "once_Do f p = (if lp_once p then p else (f p)\<lparr>lp_once := True\<rparr>)"

definition GetRestConfig :: "('f, 'k) kube_world \<Rightarrow> ('f, 'k) lazy_provider \<Rightarrow> ('f option \<times> err option) \<times> ('f, 'k) lazy_provider" where
  "GetRestConfig w p = (let p' = once_Do (initKubernetesClient w) p in ((lp_restConfig p', lp_initErr p'), p'))"

definition GetClient :: "('f, 'k) kube_world \<Rightarrow> ('f, 'k) lazy_provider \<Rightarrow> ('k option \<times> err option) \<times> ('f, 'k) lazy_provider" where
  "GetClient w p = (let p' = once_Do (initKubernetesClient w) p in ((lp_client p', lp_initErr p'), p'))"

text \<open>The factory context of a collector may have no provider.\<close>

definition factory_GetClient :: "('f, 'k) kube_world \<Rightarrow> ('f, 'k) lazy_provider option
    \<Rightarrow> ('k option \<times> err option) \<times> ('f, 'k) lazy_provider option" where
  "factory_GetClient w p = (case p of
       None \<Rightarrow> ((None, Some ''client provider not set''), None)
     | Some lp \<Rightarrow> (let (r, lp') = GetClient w lp in (r, Some lp')))"

definition factory_GetRestConfig :: "('f, 'k) kube_world \<Rightarrow> ('f, 'k) lazy_provider option
    \<Rightarrow> ('f option \<times> err option) \<times> ('f, 'k) lazy_provider option" where
  "factory_GetRestConfig w p = (case p of
       None \<Rightarrow> ((None, Some ''client provider not set''), None)
     | Some lp \<Rightarrow> (let (r, lp') = GetRestConfig w lp in (r, Some lp')))"

text \<open>The calls of all collectors on the provider they share, each at its moment.\<close>

datatype ('f, 'k) client_call = CallClient "('f, 'k) kube_world" | CallRestConfig "('f, 'k) kube_world"

datatype ('f, 'k) client_answer = AnsClient "'k option" "err option" | AnsRestConfig "'f option" "err option"

fun call_world :: "('f, 'k) client_call \<Rightarrow> ('f, 'k) kube_world" where
  "call_world (CallClient w) = w"
| "call_world (CallRestConfig w) = w"

fun provider_run :: "('f, 'k) client_call list \<Rightarrow> ('f, 'k) lazy_provider option \<Rightarrow> ('f, 'k) client_answer list" where
  "provider_run [] p = []"
| "provider_run (CallClient w # cs) p = (case factory_GetClient w p of ((k, e), p') \<Rightarrow> AnsClient k e # provider_run cs p')"
| "provider_run (CallRestConfig w # cs) p =
     (case factory_GetRestConfig w p of ((f, e), p') \<Rightarrow> AnsRestConfig f e # provider_run cs p')"

fun answer_by :: "('f \<times> 'k) res \<Rightarrow> ('f, 'k) client_call \<Rightarrow> ('f, 'k) client_answer" where
  "answer_by (Inl e) (CallClient w) = AnsClient None (Some e)"
| "answer_by (Inl e) (CallRestConfig w) = AnsRestConfig None (Some e)"
| "answer_by (Inr (f, k)) (CallClient w) = AnsClient (Some k) None"
| "answer_by (Inr (f, k)) (CallRestConfig w) = AnsRestConfig (Some f) None"

definition provider_holds :: "('f \<times> 'k) res \<Rightarrow> ('f, 'k) lazy_provider \<Rightarrow> bool" where
  "provider_holds r p \<longleftrightarrow> lp_once p \<and> (case r of
       Inl e \<Rightarrow> lp_restConfig p = None \<and> lp_client p = None \<and> lp_initErr p = Some e
     | Inr (f, k) \<Rightarrow> lp_restConfig p = Some f \<and> lp_client p = Some k \<and> lp_initErr p = None)"

lemma once_holds: "provider_holds r p \<Longrightarrow> once_Do f p = p"
  by (simp add: once_Do_def provider_holds_def)

lemma first_holds: "provider_holds (newKubernetesClient w c) (once_Do (initKubernetesClient w) (new_provider c))"
  by (auto simp: once_Do_def provider_holds_def new_provider_def initKubernetesClient_def split: sum.splits)

lemma held_answers:
  "provider_holds r p \<Longrightarrow> factory_GetClient w (Some p) = (case answer_by r (CallClient w) of AnsClient k e \<Rightarrow> ((k, e), Some p))"
  "provider_holds r p \<Longrightarrow> factory_GetRestConfig w (Some p)
     = (case answer_by r (CallRestConfig w) of AnsRestConfig f e \<Rightarrow> ((f, e), Some p))"
  by (cases r; auto simp: factory_GetClient_def factory_GetRestConfig_def GetClient_def GetRestConfig_def once_holds Let_def;
      auto simp: provider_holds_def)+

lemma held_run: "provider_holds r p \<Longrightarrow> provider_run cs (Some p) = map (answer_by r) cs"
proof (induction cs)
  case (Cons c cs)
  then show ?case by (cases c; cases r) (auto simp: held_answers)
qed simp

text \<open>The first call decides: whatever the process finds later, every collector gets the client, the configuration or
  the error that the first call met, in the order of preference of the settings. So a client that could not be made is
  not tried again as long as the provider lives.\<close>

theorem first_call_decides:
  "provider_run (c # cs) (Some (new_provider cfg)) = map (answer_by (newKubernetesClient (call_world c) cfg)) (c # cs)"
proof -
  let ?w = "call_world c" and ?p = "new_provider cfg"
  let ?p' = "once_Do (initKubernetesClient ?w) ?p"
  note h = first_holds [of ?w cfg]
  have "factory_GetClient ?w (Some ?p) = factory_GetClient ?w (Some ?p')"
    "factory_GetRestConfig ?w (Some ?p) = factory_GetRestConfig ?w (Some ?p')"
    by (simp_all add: factory_GetClient_def factory_GetRestConfig_def GetClient_def GetRestConfig_def once_holds [OF h] Let_def)
  then have "provider_run (c # cs) (Some ?p) = provider_run (c # cs) (Some ?p')" by (cases c) simp_all
  then show ?thesis using held_run [OF h] by simp
qed

section \<open>Certificates and the time zone\<close>

text \<open>\<open>pkg/util/cert.go\<close>: the information about a certificate, and the text of an error.\<close>

record util_cert_info = cert_info +
  ui_Error :: string

definition ParseCertificate :: "(string \<Rightarrow> string option) \<Rightarrow> (string \<Rightarrow> x509 res) \<Rightarrow> int \<Rightarrow> string \<Rightarrow> util_cert_info res" where
  "ParseCertificate pem_Decode x509_Parse now certPEM = (case pem_Decode certPEM of
       None \<Rightarrow> Inl ''failed to decode PEM block''
     | Some bytes \<Rightarrow> (case x509_Parse bytes of
          Inl e \<Rightarrow> Inl (''failed to parse certificate: '' @ e)
        | Inr cert \<Rightarrow> Inr \<lparr>ci_CommonName = x_CommonName cert, ci_Issuer = x_Issuer cert,
             ci_NotBefore = x_NotBefore cert, ci_NotAfter = x_NotAfter cert, ci_ExpiresIn = time_Sub (x_NotAfter cert) now,
             ci_IsValid = (x_NotBefore cert < now \<and> now < x_NotAfter cert), ui_Error = []\<rparr>))"

text \<open>The zero time of the failed case is a parameter.\<close>

definition ParseCertificateSafe :: "int \<Rightarrow> (string \<Rightarrow> string option) \<Rightarrow> (string \<Rightarrow> x509 res) \<Rightarrow> int \<Rightarrow> string \<Rightarrow> util_cert_info" where
  "ParseCertificateSafe zero pem_Decode x509_Parse now certPEM = (case ParseCertificate pem_Decode x509_Parse now certPEM of
       Inl e \<Rightarrow> \<lparr>ci_CommonName = [], ci_Issuer = [], ci_NotBefore = zero, ci_NotAfter = zero, ci_ExpiresIn = 0,
          ci_IsValid = False, ui_Error = e\<rparr>
     | Inr info \<Rightarrow> info)"

text \<open>A certificate is reported as valid only if it was read and the moment lies strictly between its bounds; then there is
  time left until it expires.\<close>

lemma valid_certificates_have_time_left:
  assumes "ci_IsValid (ParseCertificateSafe zero pem_Decode x509_Parse now certPEM)"
  shows "0 < ci_ExpiresIn (ParseCertificateSafe zero pem_Decode x509_Parse now certPEM)
    \<and> ui_Error (ParseCertificateSafe zero pem_Decode x509_Parse now certPEM) = []"
  using assms by (auto simp: ParseCertificateSafe_def ParseCertificate_def time_Sub_def split: option.splits sum.splits)

text \<open>\<open>tz.go\<close>: the local time zone is left alone when \<open>TZ\<close> is set.\<close>

definition tz_init :: "string \<Rightarrow> (string \<Rightarrow> 'z res) \<Rightarrow> 'z \<Rightarrow> 'z go" where
  "tz_init tz LoadLocation Local = (if tz \<noteq> [] then Ret Local
     else case LoadLocation ''Asia/Shanghai'' of Inl e \<Rightarrow> Panic e | Inr loc \<Rightarrow> Ret loc)"

end
