(* ===== verification/Spec2Isabelle.thy ===== *)
theory Spec2Isabelle
  imports Identity Config_Loading Config_Reloader Base_Collector Collector_Registry Metrics_Server HTTP_Servers
    Auth_Cache Main_Program CRD_Store CRD_Collector CRD_Transform Domain_Collector
    Database_Collector Image_Pull Node_Collectors Billing_Query Registry_Collector License_Collector LVM_Collector Balance_Collectors Secret_Cache HTTP_Middleware
    Client_Provider
begin

text \<open>
  \<^bold>\<open>state-metrics\<close>: an exporter of Prometheus metrics about a Kubernetes cluster and the services around
  it. \<open>main.go\<close> loads the configuration and starts the metrics server (\<open>server/\<close>); the server creates
  the enabled collectors through \<open>pkg/registry\<close>, starts them (those that need leadership under a leader
  elector of their own), gathers from them at every scrape, and rebuilds them when the reloader of
  \<open>pkg/config\<close> sees a new configuration file. A collector (\<open>pkg/collector/*\<close>) embeds the lifecycle of
  \<open>pkg/collector/base\<close> and fills its maps from a poll loop or from the events of an informer.

  \<^bold>\<open>The theories.\<close>
  \<^item> \<open>Prelude\<close>: calls that return or panic, error values, channels and contexts. \<open>Go_Strings\<close>,
    \<open>Go_Net\<close>, \<open>Go_Float\<close>: what the code uses of Go's library, \<open>float64\<close> with its rounding included.
    \<open>Prom_Client\<close>: descriptors and samples. \<open>Collector_Kit\<close>: registration and keys of collectors.
  \<^item> \<open>Identity\<close>: \<open>pkg/identity\<close>. \<open>Config_Loading\<close>: the records, the validation and the loaders of
    \<open>pkg/config\<close>. \<open>Config_Reloader\<close>: \<open>reloader.go\<close> with its timers.
  \<^item> \<open>Base_Collector\<close>: \<open>base.go\<close>; the record \<open>base\<close> has its fields, and the interleavings of Start, Stop
    and poll loops are a step relation. \<open>Collector_Registry\<close>: \<open>pkg/registry\<close> over the interface of
    collectors, which is the locale \<open>collector_contract\<close>; the base collector is its interpretation.
  \<^item> \<open>Metrics_Server\<close>: initialization, leases, electors, reload and the handlers of \<open>server/\<close> and
    \<open>pkg/leaderelection\<close>. \<open>Auth_Cache\<close>: \<open>pkg/auth\<close>. \<open>HTTP_Servers\<close>: \<open>pkg/httpserver\<close>,
    \<open>pkg/pprof\<close>, \<open>pkg/tlscache\<close>. \<open>Main_Program\<close>: the reload callback of \<open>main.go\<close>, \<open>pkg/logger\<close>.
  \<^item> \<open>CRD_Store\<close>, \<open>CRD_Collector\<close>, \<open>CRD_Transform\<close>: \<open>pkg/collector/crds\<close>; the last holds the
    transformation that drops unused fields from the cached objects.
  \<^item> \<open>Domain_Config\<close>, \<open>Domain_Classifier\<close>, \<open>Domain_Check\<close>, \<open>Domain_Collector\<close>:
    \<open>pkg/collector/domain\<close>.
  \<^item> \<open>Database_Check\<close>, \<open>Database_Poll\<close>, \<open>Database_Collector\<close>: \<open>pkg/collector/database\<close>; the
    goroutines of a poll are a step relation.
  \<^item> \<open>Image_Pull\<close>: \<open>pkg/collector/imagepull\<close>, with the timers of slow pulls. \<open>Node_Collectors\<close>:
    \<open>pkg/collector/node\<close> and \<open>pkg/collector/zombie\<close>. \<open>Billing\<close>, \<open>Billing_Query\<close>:
    \<open>pkg/collector/billing\<close> and the meaning of its aggregation pipelines.
  \<^item> \<open>Registry_Config\<close>, \<open>Registry_Check\<close>, \<open>Registry_Collector\<close>: \<open>pkg/collector/registryproxy\<close>.
    \<open>License_Decoding\<close>, \<open>License_Collector\<close>: \<open>pkg/collector/cockroachlicense\<close>. \<open>LVM_Parsing\<close>,
    \<open>LVM_Collector\<close>: \<open>pkg/lvm\<close> and \<open>pkg/collector/lvm\<close>. \<open>Balance_Collectors\<close>:
    \<open>pkg/collector/userbalance\<close>, \<open>pkg/collector/cloudbalance\<close> and \<open>pkg/database\<close>. \<open>Float_Order\<close>: the sign
    of rounded values, which they share.
  \<^item> \<open>Secret_Cache\<close>: the cache of secrets of \<open>pkg/collector/database\<close> and the poll loops that start and stop it.
    \<open>HTTP_Middleware\<close>: \<open>pkg/httpserver/middleware\<close>. \<open>Client_Provider\<close>: the lazy Kubernetes client of
    \<open>pkg/collector\<close>, and \<open>pkg/util\<close>.
  \<^bold>\<open>Correspondence.\<close> A struct is a record with its fields, or those that the modelled code reads; a
  method is a definition of its name that takes the record and returns it updated, with the call's result.
  A prefix tells namesakes of different packages apart. A Go map is a HOL map; where its order of iteration
  can be seen, the order is an argument (a list of its entries), and the theorems hold for every order.
  Code that runs under a lock from its first line to its last is one step; code that does not is split where
  another goroutine can come between. Time is an integer of nanoseconds, given to the operation that reads
  the clock. Third-party code (client-go, mapstructure, YAML and env parsing, database drivers, the
  resolver and the HTTP client) is an argument, a record of functions; what is assumed of it is a premise
  of the theorem, and each witness instantiates it.

  \<^bold>\<open>What the lemmas show.\<close>
  \<^item> Lifecycle: in every interleaving the ready channel and the stored states agree; a panic needs a poll
    loop that outlives its Start, and runs without one are safe; a waiter is released by SetReady or by its
    timer (\<open>Base_Collector\<close>).
  \<^item> Composition: the registry starts every collector once whatever the split by leadership, stops all that
    run, and isolates a panic to its collector at a scrape; a reload leaves no collector of the old registry
    running, unless an elector's start callback runs after its elector was stopped; it panics exactly when a
    factory makes neither a collector nor an error; health reports exactly the collectors that this instance is responsible for.
  \<^item> Refinement: the metric store of a custom resource, fed by the informer's events, is the function of the
    live objects that its configuration denotes, and the same with whole objects as with the transformed ones; the
    cache of secrets trimmed to the keys that are read gives the same checks; the counters of the pipelines in \<open>Billing_Query\<close> equal
    those of the loop over documents.
  \<^item> Collectors: what a poll writes, what a scrape emits, and that no series occurs twice or with the wrong
    number of labels, which the client library would refuse; where that can fail, the exact condition.
  \<^item> Errors: a configuration that a reload accepts is valid; a check that fails is classified and still accounts for every address.

  \<^bold>\<open>Bounds and fuel.\<close> All recursions are structural or have a termination proof. The parsing of an IPv6
  address turns at most eight times, since an address has eight groups, and its loop is given eight
  turns. The field loop of a license is a \<open>partial_function\<close> of the option monad, and \<open>decode_ends\<close> proves that it
  returns for every input. Counters that are summed as doubles are exact up to \<open>2^53\<close>, which is the bound in the theorems that
  equate a total with an integer. Termination of a poll of databases is a measure on its step relation.

  \<^bold>\<open>Not modelled.\<close> The text of log lines except for the access log and the recovery, the functions of the
  drivers and client libraries, and the wire protocols but for the fields of a license: these keep no state of
  the program. The start-up of \<open>main\<close> is modelled from the loading of the configuration on, as what a reload
  runs. Text is bytes with the case mapping of ASCII.

  \<^bold>\<open>Deviations found.\<close> The theorems state what the code does. Where that differs from what it means to do
  or from its comments, a theorem describes the case exactly: a stale poll loop closes a channel twice; a
  cancelled poll of databases may send on a closed channel; a status of 418 or 429 counts as a server error;
  keys that omit the type of a database or the group of a user collide; the cache of secrets is shared by the loops
  of two starts; the colours of the access log are those of the start; a
  \<open>crds\<close> collector without resources is a nil interface, on which the next start panics; a late start callback starts
  a collector without a leader; of two goroutines that load a certificate, the one with the older pair may store
  last; a secret that carries the labels of two types is checked twice for each; an endpoint that is configured
  twice keeps the status of the check that ends last.
\<close>

end
